(* ===== verification/Prelude.thy ===== *)
theory Prelude
  imports Main "HOL-Library.Word"
begin

text \<open>
  Shared vocabulary of the development: machine words of the 32-bit Windows XP target,
  NTSTATUS codes, the faults a driver can run into, the answers the kernel gives to the
  allocations a component makes, and the generic lemmas on option chains, lists and words
  that the components use.
\<close>

unbundle bit_operations_syntax

named_theorems fault_simps \<open>unfolding of the fault bind\<close>

section \<open>Machine words and pointers\<close>

type_synonym u8 = "8 word"
type_synonym u16 = "16 word"
type_synonym u32 = "32 word"
type_synonym u64 = "64 word"

text \<open>A pointer of the 32-bit target; address 0 is NULL.\<close>

type_synonym addr = u32

abbreviation (input) NULL :: addr where "NULL \<equiv> 0"

section \<open>NTSTATUS\<close>

type_synonym NTSTATUS = u32

abbreviation (input) STATUS_SUCCESS :: NTSTATUS where "STATUS_SUCCESS \<equiv> 0"
abbreviation (input) STATUS_SEVERITY_ERROR :: NTSTATUS where "STATUS_SEVERITY_ERROR \<equiv> 0x3"
abbreviation (input) STATUS_PENDING :: NTSTATUS where "STATUS_PENDING \<equiv> 0x103"
abbreviation (input) STATUS_BUFFER_OVERFLOW :: NTSTATUS where "STATUS_BUFFER_OVERFLOW \<equiv> 0x80000005"
abbreviation (input) STATUS_UNSUCCESSFUL :: NTSTATUS where "STATUS_UNSUCCESSFUL \<equiv> 0xC0000001"
abbreviation (input) STATUS_INFO_LENGTH_MISMATCH :: NTSTATUS where "STATUS_INFO_LENGTH_MISMATCH \<equiv> 0xC0000004"
abbreviation (input) STATUS_INVALID_PARAMETER :: NTSTATUS where "STATUS_INVALID_PARAMETER \<equiv> 0xC000000D"
abbreviation (input) STATUS_MORE_PROCESSING_REQUIRED :: NTSTATUS where "STATUS_MORE_PROCESSING_REQUIRED \<equiv> 0xC0000016"
abbreviation (input) STATUS_BUFFER_TOO_SMALL :: NTSTATUS where "STATUS_BUFFER_TOO_SMALL \<equiv> 0xC0000023"
abbreviation (input) STATUS_OBJECT_NAME_COLLISION :: NTSTATUS where "STATUS_OBJECT_NAME_COLLISION \<equiv> 0xC0000035"
abbreviation (input) STATUS_INSUFFICIENT_RESOURCES :: NTSTATUS where "STATUS_INSUFFICIENT_RESOURCES \<equiv> 0xC000009A"
abbreviation (input) STATUS_FLT_DO_NOT_ATTACH :: NTSTATUS where "STATUS_FLT_DO_NOT_ATTACH \<equiv> 0xC01C000F"

text \<open>The NT_SUCCESS macro reads the status as a signed 32-bit integer.\<close>

definition NT_SUCCESS :: "NTSTATUS \<Rightarrow> bool" where
  "NT_SUCCESS s \<longleftrightarrow> 0 \<le> sint s"

lemma NT_SUCCESS_SUCCESS [simp]: "NT_SUCCESS STATUS_SUCCESS"
  by (simp add: NT_SUCCESS_def)

lemma NT_SUCCESS_BUFFER_OVERFLOW [simp]: "\<not> NT_SUCCESS STATUS_BUFFER_OVERFLOW"
  by (simp add: NT_SUCCESS_def)

lemma NT_SUCCESS_UNSUCCESSFUL [simp]: "\<not> NT_SUCCESS STATUS_UNSUCCESSFUL"
  by (simp add: NT_SUCCESS_def)

lemma NT_SUCCESS_INVALID_PARAMETER [simp]: "\<not> NT_SUCCESS STATUS_INVALID_PARAMETER"
  by (simp add: NT_SUCCESS_def)

lemma NT_SUCCESS_BUFFER_TOO_SMALL [simp]: "\<not> NT_SUCCESS STATUS_BUFFER_TOO_SMALL"
  by (simp add: NT_SUCCESS_def)

section \<open>Faults\<close>

text \<open>
  What the code does not recover from: following a null pointer, following a pointer to
  memory that is not (or no longer) allocated, reading or writing outside an array, waiting
  for a lock that nobody gives back, running out of memory in C++, throwing what nobody catches,
  ending the process.
\<close>

datatype fault = NullDeref | BadPointer | OutOfBounds | Deadlock | BadAlloc | Uncaught | Exited

definition fbind :: "fault + 'a \<Rightarrow> ('a \<Rightarrow> fault + 'b) \<Rightarrow> fault + 'b" where
  "fbind m f = (case m of Inl e \<Rightarrow> Inl e | Inr a \<Rightarrow> f a)"

lemma fbind_Inl [simp, fault_simps]: "fbind (Inl e) f = Inl e"
  by (simp add: fbind_def)

lemma fbind_Inr [simp, fault_simps]: "fbind (Inr a) f = f a"
  by (simp add: fbind_def)

lemma fbind_eq_Inr: "fbind m f = Inr b \<longleftrightarrow> (\<exists>a. m = Inr a \<and> f a = Inr b)"
  by (auto simp: fbind_def split: sum.splits)

lemma fbind_Inl_intro:
  "m = Inl e \<or> (\<exists>a. m = Inr a) \<Longrightarrow> (\<And>a. f a = Inl e) \<Longrightarrow> fbind m f = Inl e"
  by auto

text \<open>What may also not end within a bound, or not at all, is None.\<close>

definition rbind :: "(fault + 'a) option \<Rightarrow> ('a \<Rightarrow> (fault + 'b) option) \<Rightarrow> (fault + 'b) option" where
  "rbind m f = (case m of None \<Rightarrow> None | Some (Inl e) \<Rightarrow> Some (Inl e) | Some (Inr a) \<Rightarrow> f a)"

lemma rbind_simps [simp]:
  "rbind None f = None" "rbind (Some (Inl e)) f = Some (Inl e)" "rbind (Some (Inr a)) f = f a"
  by (simp_all add: rbind_def)

text \<open>A loop over a list, each turn of which may fault or not end.\<close>

fun rfold :: "('b \<Rightarrow> 'a \<Rightarrow> (fault + 'a) option) \<Rightarrow> 'b list \<Rightarrow> 'a \<Rightarrow> (fault + 'a) option" where
  "rfold f [] s = Some (Inr s)"
| "rfold f (x # xs) s = rbind (f x s) (rfold f xs)"

lemma rfold_snoc: "rfold f (xs @ [x]) s = rbind (rfold f xs s) (f x)"
  by (induction xs arbitrary: s) (auto simp: rbind_def split: option.splits sum.splits)

definition deref :: "(addr \<rightharpoonup> 'a) \<Rightarrow> addr \<Rightarrow> fault + 'a" where
  "deref h p = (if p = NULL then Inl NullDeref
                else case h p of None \<Rightarrow> Inl BadPointer | Some x \<Rightarrow> Inr x)"

lemma deref_NULL [simp]: "deref h NULL = Inl NullDeref"
  by (simp add: deref_def)

lemma deref_Some [simp]: "p \<noteq> NULL \<Longrightarrow> h p = Some x \<Longrightarrow> deref h p = Inr x"
  by (simp add: deref_def)

text \<open>A result that an operation does not have: it followed a pointer that leads nowhere.\<close>

definition defined_or_fault :: "'a option \<Rightarrow> fault + 'a" where
  "defined_or_fault m = (case m of None \<Rightarrow> Inl BadPointer | Some x \<Rightarrow> Inr x)"

lemma defined_or_fault_simps [simp, fault_simps]:
  "defined_or_fault None = Inl BadPointer" "defined_or_fault (Some x) = Inr x"
  by (simp_all add: defined_or_fault_def)

section \<open>Answers of the pool allocator\<close>

text \<open>
  ExAllocatePoolWithTag and the lookaside lists are the kernel's. A component that
  allocates carries the answers its successive requests receive, NULL for a failed
  request; when the list is used up every request fails. The documented contract is that
  a non-NULL answer is memory not in use.
\<close>

definition next_answer :: "addr list \<Rightarrow> addr \<times> addr list" where
  "next_answer xs = (case xs of [] \<Rightarrow> (NULL, []) | a # as \<Rightarrow> (a, as))"

lemma next_answer_simps [simp]:
  "next_answer [] = (NULL, [])"
  "next_answer (a # as) = (a, as)"
  by (simp_all add: next_answer_def)

definition answers_fresh :: "addr list \<Rightarrow> addr set \<Rightarrow> bool" where
  "answers_fresh xs used \<longleftrightarrow>
     distinct (filter (\<lambda>a. a \<noteq> NULL) xs) \<and> (\<forall>a \<in> set xs. a \<noteq> NULL \<longrightarrow> a \<notin> used)"

lemma answers_fresh_Nil [simp]: "answers_fresh [] used"
  by (simp add: answers_fresh_def)

lemma answers_fresh_head:
  "answers_fresh xs used \<Longrightarrow> next_answer xs = (a, ys) \<Longrightarrow> a \<noteq> NULL \<Longrightarrow>
     a \<notin> used \<and> answers_fresh ys (insert a used)"
  by (cases xs) (auto simp: answers_fresh_def)

lemma answers_fresh_tail:
  "answers_fresh xs used \<Longrightarrow> next_answer xs = (a, ys) \<Longrightarrow> answers_fresh ys used"
  by (cases xs) (auto simp: answers_fresh_def split: if_splits)

lemma answers_fresh_mono:
  "answers_fresh xs used \<Longrightarrow> used' \<subseteq> used \<Longrightarrow> answers_fresh xs used'"
  by (auto simp: answers_fresh_def)

section \<open>Generic list and word lemmas\<close>

fun remove_first :: "'k \<Rightarrow> ('k \<times> 'v) list \<Rightarrow> ('k \<times> 'v) list" where
  "remove_first k [] = []"
| "remove_first k (x # xs) = (if fst x = k then xs else x # remove_first k xs)"

lemma remove_first_absent: "k \<notin> fst ` set xs \<Longrightarrow> remove_first k xs = xs"
  by (induction xs) auto

lemma remove_first_append:
  "k \<notin> fst ` set xs \<Longrightarrow> remove_first k (xs @ (k, v) # ys) = xs @ ys"
  by (induction xs) auto

lemma map_of_remove_first_other: "k' \<noteq> k \<Longrightarrow> map_of (remove_first k xs) k' = map_of xs k'"
  by (induction xs) auto

lemma map_of_remove_first_same:
  "distinct (map fst xs) \<Longrightarrow> map_of (remove_first k xs) k = None"
  by (induction xs) (auto simp: map_of_eq_None_iff)

lemma set_remove_first_subset: "set (remove_first k xs) \<subseteq> set xs"
  by (induction xs) auto

lemma distinct_remove_first:
  "distinct (map fst xs) \<Longrightarrow> distinct (map fst (remove_first k xs))"
  by (induction xs) (use set_remove_first_subset in fastforce)+

lemma map_of_snoc:
  "map_of (xs @ [(k, v)]) k' = (case map_of xs k' of Some w \<Rightarrow> Some w | None \<Rightarrow> if k' = k then Some v else None)"
  by (simp add: map_add_def split: option.split)

lemma restrict_map_compl_dom [simp]: "m |` (- dom m) = Map.empty"
  by (auto simp: restrict_map_def fun_eq_iff dom_def)

lemma unat_less_of_le: "(a :: 'a::len word) \<le> b \<Longrightarrow> unat (b - a) = unat b - unat a"
  by (simp add: unat_sub)

lemma unat_add_no_wrap:
  "unat (a :: u32) + unat b < 2 ^ 32 \<Longrightarrow> unat (a + b) = unat a + unat b"
  by (simp add: unat_word_ariths)

lemma and_not_mask_shift: "(w :: 'a::len word) AND NOT (mask n) = push_bit n (drop_bit n w)"
  by (rule bit_eqI) (auto simp: bit_simps not_le)

end
