(* ===== verification/Bytes.thy ===== *)
theory Bytes
  imports Prelude
begin

text \<open>
  Data as bytes in memory: little-endian words, arrays of 16-bit characters, and the counted
  strings of the kernel with the routines of its string library that the monitors use. Those
  routines cut what does not fit and report it in a status nobody looks at.
\<close>

section \<open>Little-endian words\<close>

definition le_bytes16 :: "u16 \<Rightarrow> u8 list" where
  "le_bytes16 w = [ucast w, ucast (drop_bit 8 w)]"

definition le_bytes32 :: "u32 \<Rightarrow> u8 list" where
  "le_bytes32 w = [ucast w, ucast (drop_bit 8 w), ucast (drop_bit 16 w), ucast (drop_bit 24 w)]"

definition word16_of :: "u8 \<Rightarrow> u8 \<Rightarrow> u16" where
  "word16_of a b = ucast a OR push_bit 8 (ucast b)"

definition word32_of :: "u8 \<Rightarrow> u8 \<Rightarrow> u8 \<Rightarrow> u8 \<Rightarrow> u32" where
  "word32_of a b c d = ucast a OR push_bit 8 (ucast b) OR push_bit 16 (ucast c) OR push_bit 24 (ucast d)"

lemma length_le_bytes [simp]: "length (le_bytes16 v) = 2" "length (le_bytes32 w) = 4"
  by (simp_all add: le_bytes16_def le_bytes32_def)

lemma word16_of_le_bytes: "word16_of (ucast w) (ucast (drop_bit 8 w)) = w"
  unfolding word16_of_def by (rule bit_word_eqI) (auto simp: bit_simps)

lemma word32_of_le_bytes:
  "word32_of (ucast w) (ucast (drop_bit 8 w)) (ucast (drop_bit 16 w)) (ucast (drop_bit 24 w)) = w"
  unfolding word32_of_def
proof (rule bit_word_eqI)
  fix n assume "n < LENGTH(32)"
  then consider "n < 8" | "8 \<le> n" "n < 16" | "16 \<le> n" "n < 24" | "24 \<le> n" "n < 32" by fastforce
  then show "bit (ucast (ucast w :: u8) OR push_bit 8 (ucast (ucast (drop_bit 8 w) :: u8)) OR
      push_bit 16 (ucast (ucast (drop_bit 16 w) :: u8)) OR push_bit 24 (ucast (ucast (drop_bit 24 w) :: u8)) :: u32) n = bit w n"
    by cases (simp_all add: bit_simps, arith+)
qed

text \<open>Reading at an offset of a block; outside the block there is nothing to read.\<close>

definition read16 :: "u8 list \<Rightarrow> nat \<Rightarrow> fault + u16" where
  "read16 b i = (if Suc i < length b then Inr (word16_of (b ! i) (b ! Suc i)) else Inl OutOfBounds)"

definition read32 :: "u8 list \<Rightarrow> nat \<Rightarrow> fault + u32" where
  "read32 b i = (if i + 3 < length b then Inr (word32_of (b ! i) (b ! (i + 1)) (b ! (i + 2)) (b ! (i + 3))) else Inl OutOfBounds)"

definition read_bytes :: "u8 list \<Rightarrow> nat \<Rightarrow> nat \<Rightarrow> fault + u8 list" where
  "read_bytes b i n = (if i + n \<le> length b then Inr (take n (drop i b)) else Inl OutOfBounds)"

lemma read32_at: "i = length xs \<Longrightarrow> read32 (xs @ le_bytes32 w @ ys) i = Inr w"
  by (simp add: read32_def le_bytes32_def nth_append word32_of_le_bytes)

lemma read16_at: "i = length xs \<Longrightarrow> read16 (xs @ le_bytes16 w @ ys) i = Inr w"
  by (simp add: read16_def le_bytes16_def nth_append word16_of_le_bytes)

lemma read_bytes_at: "i = length xs \<Longrightarrow> n = length bs \<Longrightarrow> read_bytes (xs @ bs @ ys) i n = Inr bs"
  by (simp add: read_bytes_def)

text \<open>Writing at an offset of a block.\<close>

definition write_bytes :: "u8 list \<Rightarrow> nat \<Rightarrow> u8 list \<Rightarrow> fault + u8 list" where
  "write_bytes b i bs = (if i + length bs \<le> length b then Inr (take i b @ bs @ drop (i + length bs) b) else Inl OutOfBounds)"

definition write32 :: "u8 list \<Rightarrow> nat \<Rightarrow> u32 \<Rightarrow> fault + u8 list" where
  "write32 b i w = write_bytes b i (le_bytes32 w)"

lemma write_bytes_at:
  "i = length xs \<Longrightarrow> length old = length bs \<Longrightarrow> write_bytes (xs @ old @ ys) i bs = Inr (xs @ bs @ ys)"
  by (simp add: write_bytes_def)

lemma write32_at: "i = length xs \<Longrightarrow> write32 (xs @ le_bytes32 v @ ys) i w = Inr (xs @ le_bytes32 w @ ys)"
  by (simp add: write32_def write_bytes_at)

lemma write_bytes_cases:
  assumes "i + length bs \<le> length b"
  obtains xs old ys where "b = xs @ old @ ys" "length xs = i" "length old = length bs" "write_bytes b i bs = Inr (xs @ bs @ ys)"
proof
  show "b = take i b @ take (length bs) (drop i b) @ drop (i + length bs) b"
    by (metis append_take_drop_id drop_drop add.commute)
  show "write_bytes b i bs = Inr (take i b @ bs @ drop (i + length bs) b)" using assms by (simp add: write_bytes_def)
qed (use assms in auto)

lemma length_write_bytes: "write_bytes b i bs = Inr b' \<Longrightarrow> length b' = length b"
  by (auto simp: write_bytes_def split: if_splits)

lemma length_write32: "write32 b i w = Inr b' \<Longrightarrow> length b' = length b"
  by (simp add: write32_def length_write_bytes)

lemma write_bytes_take: "write_bytes b i bs = Inr b' \<Longrightarrow> n \<le> i \<Longrightarrow> take n b' = take n b"
  by (auto simp: write_bytes_def split: if_splits)

section \<open>Characters\<close>

definition char_bytes :: "u16 list \<Rightarrow> u8 list" where
  "char_bytes s = concat (map le_bytes16 s)"

fun bytes_chars :: "u8 list \<Rightarrow> u16 list" where
  "bytes_chars (a # b # r) = word16_of a b # bytes_chars r"
| "bytes_chars _ = []"

lemma char_bytes_Nil [simp]: "char_bytes [] = []"
  by (simp add: char_bytes_def)

lemma char_bytes_Cons [simp]: "char_bytes (c # s) = le_bytes16 c @ char_bytes s"
  by (simp add: char_bytes_def)

lemma char_bytes_append [simp]: "char_bytes (s @ t) = char_bytes s @ char_bytes t"
  by (simp add: char_bytes_def)

lemma length_char_bytes [simp]: "length (char_bytes s) = 2 * length s"
  by (induction s) auto

lemma bytes_chars_char_bytes [simp]: "bytes_chars (char_bytes s) = s"
  by (induction s) (auto simp: le_bytes16_def word16_of_le_bytes)

text \<open>The characters up to the first NUL; without a NUL the reader leaves the block.\<close>

definition c_string :: "u16 list \<Rightarrow> fault + u16 list" where
  "c_string s = (if 0 \<in> set s then Inr (takeWhile (\<lambda>c. c \<noteq> 0) s) else Inl OutOfBounds)"

lemma takeWhile_before: "0 \<notin> set s \<Longrightarrow> takeWhile (\<lambda>c. c \<noteq> 0) (s @ 0 # t) = (s :: u16 list)"
  by (induction s) auto

lemma c_string_NUL: "c_string (s @ [0]) = Inr (takeWhile (\<lambda>c. c \<noteq> 0) s)"
proof (cases "0 \<in> set s")
  case True
  then show ?thesis by (auto simp: c_string_def takeWhile_append1)
next
  case False
  then have "takeWhile (\<lambda>c. c \<noteq> 0) s = s" by (simp add: takeWhile_eq_all_conv) metis
  then show ?thesis using takeWhile_before[OF False, of "[]"] by (simp add: c_string_def del: takeWhile_eq_all_conv)
qed

definition wide :: "string \<Rightarrow> u16 list" where
  "wide s = map (\<lambda>c. of_nat (of_char c)) s"

section \<open>Counted strings\<close>

text \<open>
  The characters a UNICODE_STRING holds (Length is twice their number) and how many there is
  room for. Its Length and MaximumLength are 16-bit byte counts.
\<close>

record unicode_string =
  us_chars :: "u16 list"
  us_maximum :: nat

definition us_ok :: "unicode_string \<Rightarrow> bool" where
  "us_ok s \<longleftrightarrow> length (us_chars s) \<le> us_maximum s \<and> us_maximum s \<le> 32767"

definition RtlUnicodeStringCopy :: "unicode_string \<Rightarrow> u16 list \<Rightarrow> unicode_string" where
  "RtlUnicodeStringCopy d s = d\<lparr>us_chars := take (us_maximum d) s\<rparr>"

definition RtlUnicodeStringCat :: "unicode_string \<Rightarrow> u16 list \<Rightarrow> unicode_string" where
  "RtlUnicodeStringCat d s = d\<lparr>us_chars := take (us_maximum d) (us_chars d @ s)\<rparr>"

text \<open>Copying to an array of bytes: a final NUL always fits, the characters as far as they do.\<close>

definition RtlStringCbCopyUnicodeString :: "nat \<Rightarrow> u16 list \<Rightarrow> u16 list" where
  "RtlStringCbCopyUnicodeString cb s = take (cb div 2 - 1) s @ [0]"

lemma us_ok_Copy [simp]: "us_ok d \<Longrightarrow> us_ok (RtlUnicodeStringCopy d s)"
  by (simp add: us_ok_def RtlUnicodeStringCopy_def)

lemma us_ok_Cat [simp]: "us_ok d \<Longrightarrow> us_ok (RtlUnicodeStringCat d s)"
  by (auto simp: us_ok_def RtlUnicodeStringCat_def min_def)

lemma us_maximum_Copy [simp]: "us_maximum (RtlUnicodeStringCopy d s) = us_maximum d"
  by (simp add: RtlUnicodeStringCopy_def)

lemma us_maximum_Cat [simp]: "us_maximum (RtlUnicodeStringCat d s) = us_maximum d"
  by (simp add: RtlUnicodeStringCat_def)

end
