(* ===== verification/ClientMonitor.thy ===== *)
theory ClientMonitor
  imports Bytes
begin

text \<open>
  Monitor.cpp and Permission.cpp of the client: the exclusion lists that decide which events
  of a monitor are reported. The regular expressions are those of the boost library, which is
  not part of the repository: \<open>compile\<close> makes one of a text (None: it throws regex_error)
  and \<open>matches\<close> says whether one matches the whole of a text.
\<close>

section \<open>Text\<close>

text \<open>std::towlower in the C locale.\<close>

definition towlower :: "u16 \<Rightarrow> u16" where
  "towlower c = (if 0x41 \<le> c \<and> c \<le> 0x5A then c + 0x20 else c)"

definition lower_case :: "u16 list \<Rightarrow> u16 list" where
  "lower_case s = map towlower s"

lemma towlower_idem [simp]: "towlower (towlower c) = towlower c"
proof (cases "0x41 \<le> c \<and> c \<le> 0x5A")
  case True
  then have "unat c + unat (0x20 :: u16) < 2 ^ LENGTH(16)" by (simp add: word_le_nat_alt)
  then have "unat (c + 0x20) = unat c + 0x20" by (simp add: unat_word_ariths)
  then have "\<not> c + 0x20 \<le> 0x5A" using True by (simp add: word_le_nat_alt)
  then show ?thesis using True by (simp add: towlower_def)
qed (auto simp: towlower_def)

lemma lower_case_idem [simp]: "lower_case (lower_case s) = lower_case s"
  by (simp add: lower_case_def)

text \<open>find: the first position of a character at or behind an offset.\<close>

fun find_char :: "u16 \<Rightarrow> u16 list \<Rightarrow> nat option" where
  "find_char c [] = None"
| "find_char c (x # s) = (if x = c then Some 0 else map_option Suc (find_char c s))"

definition find_from :: "u16 \<Rightarrow> u16 list \<Rightarrow> nat \<Rightarrow> nat option" where
  "find_from c s offset = map_option (\<lambda>i. offset + i) (find_char c (drop offset s))"

lemma find_char_None: "find_char c s = None \<longleftrightarrow> c \<notin> set s"
  by (induction s) auto

lemma find_char_Some: "find_char c s = Some i \<Longrightarrow> i < length s \<and> s ! i = c \<and> c \<notin> set (take i s)"
  by (induction s arbitrary: i) (auto split: if_splits)

text \<open>find_last_of: the last position.\<close>

definition find_last :: "u16 \<Rightarrow> u16 list \<Rightarrow> nat option" where
  "find_last c s = map_option (\<lambda>i. length s - 1 - i) (find_char c (rev s))"

lemma find_char_first: "c \<notin> set s \<Longrightarrow> find_char c (s @ c # t) = Some (length s)"
  by (induction s) auto

lemma find_last_last: "c \<notin> set t \<Longrightarrow> find_last c (s @ c # t) = Some (length s)"
  using find_char_first[of c "rev t" "rev s"] by (simp add: find_last_def)

text \<open>replace: the characters [i, i + n) give way to another text.\<close>

definition replace_at :: "u16 list \<Rightarrow> nat \<Rightarrow> nat \<Rightarrow> u16 list \<Rightarrow> u16 list" where
  "replace_at s i n t = take i s @ t @ drop (i + n) s"

text \<open>
  rfind from position 0 says whether a text begins with another one. The monitors look through
  the pairs of a map for the first prefix of a name and put its other text in its place.
\<close>

definition begins_with :: "u16 list \<Rightarrow> u16 list \<Rightarrow> bool" where
  "begins_with s p \<longleftrightarrow> take (length p) s = p"

fun replace_prefix :: "(u16 list \<times> u16 list) list \<Rightarrow> u16 list \<Rightarrow> u16 list" where
  "replace_prefix [] s = s"
| "replace_prefix ((from, to) # pairs) s =
     (if begins_with s from then replace_at s 0 (length from) to else replace_prefix pairs s)"

section \<open>prepareStringForExclusion\<close>

text \<open>The loop: every occurrence from an offset on is replaced, and what replaces it is skipped.\<close>

function escape_from :: "u16 \<Rightarrow> u16 list \<Rightarrow> nat \<Rightarrow> u16 list" where
  "escape_from c s offset =
     (case find_from c s offset of
        None \<Rightarrow> s
      | Some i \<Rightarrow> escape_from c (replace_at s i 1 [0x5C, c]) (i + 2))"
  by pat_completeness auto
termination
proof (relation "measure (\<lambda>(c, s, offset). length s - offset)")
  fix c s offset i assume "find_from c s offset = Some i"
  then obtain j where j: "find_char c (drop offset s) = Some j" "i = offset + j" by (auto simp: find_from_def)
  then have "i < length s" using find_char_Some[OF j(1)] by auto
  then show "((c, replace_at s i 1 [0x5C, c], i + 2), (c, s, offset)) \<in> measure (\<lambda>(c, s, offset). length s - offset)"
    using j(2) by (simp add: replace_at_def)
qed simp

declare escape_from.simps [simp del]

definition prepareStringForExclusion :: "u16 list \<Rightarrow> u16 list" where
  "prepareStringForExclusion s = escape_from 0x2E (escape_from 0x5C s 0) 0"

text \<open>What the loop does, a character at a time.\<close>

definition escape_char :: "u16 \<Rightarrow> u16 \<Rightarrow> u16 list" where
  "escape_char c x = (if x = c then [0x5C, c] else [x])"

lemma concat_escape_absent: "c \<notin> set s \<Longrightarrow> concat (map (escape_char c) s) = s"
  by (induction s) (auto simp: escape_char_def)

lemma escape_from_concat:
  "offset \<le> length s \<Longrightarrow> escape_from c s offset = take offset s @ concat (map (escape_char c) (drop offset s))"
proof (induction c s offset rule: escape_from.induct)
  case (1 c s offset)
  show ?case
  proof (cases "find_from c s offset")
    case None
    then have "c \<notin> set (drop offset s)" by (simp add: find_from_def find_char_None)
    then show ?thesis using None by (subst escape_from.simps) (simp add: concat_escape_absent)
  next
    case (Some i)
    then obtain j where j: "find_char c (drop offset s) = Some j" "i = offset + j" by (auto simp: find_from_def)
    note f = find_char_Some[OF j(1)]
    have i: "i < length s" using f j(2) by auto
    let ?t = "replace_at s i 1 [0x5C, c]"
    have "i + 2 \<le> length ?t" using i by (simp add: replace_at_def)
    then have "escape_from c s offset = take (i + 2) ?t @ concat (map (escape_char c) (drop (i + 2) ?t))"
      using 1(1)[OF Some] Some by (subst escape_from.simps) simp
    also have "take (i + 2) ?t = take i s @ [0x5C, c]" using i by (simp add: replace_at_def)
    also have "drop (i + 2) ?t = drop (i + 1) s" using i by (simp add: replace_at_def)
    also have "(take i s @ [0x5C, c]) @ concat (map (escape_char c) (drop (i + 1) s)) =
        take offset s @ concat (map (escape_char c) (drop offset s))"
    proof -
      have a: "drop offset s = take j (drop offset s) @ c # drop (i + 1) s"
        using f j(2) by (metis id_take_nth_drop drop_drop add.commute add_Suc_right Suc_eq_plus1)
      have b: "take i s = take offset s @ take j (drop offset s)" by (simp add: j(2) take_add)
      have "concat (map (escape_char c) (drop offset s)) =
          take j (drop offset s) @ [0x5C, c] @ concat (map (escape_char c) (drop (i + 1) s))"
        by (subst a) (use f in \<open>simp add: concat_escape_absent escape_char_def\<close>)
      then show ?thesis by (simp add: b)
    qed
    finally show ?thesis .
  qed
qed

section \<open>Permissions\<close>

datatype PERMISSION_CLASSIFICATION = NO_MATCH | ALLOWED | DISALLOWED

record 'r Permission =
  pm_subjects :: "'r list"
  pm_objects :: "'r list"
  pm_allow :: bool
  pm_permaneant :: bool

definition Check :: "('r \<Rightarrow> u16 list \<Rightarrow> bool) \<Rightarrow> 'r Permission \<Rightarrow> u16 list \<Rightarrow> u16 list \<Rightarrow> PERMISSION_CLASSIFICATION" where
  "Check matches p subject object =
     (if \<not> list_ex (\<lambda>r. matches r subject) (pm_subjects p) then NO_MATCH
      else if list_ex (\<lambda>r. matches r object) (pm_objects p) then (if pm_allow p then ALLOWED else DISALLOWED)
      else NO_MATCH)"

type_synonym 'r permission_map = "u16 list \<rightharpoonup> 'r Permission list"

definition classify :: "PERMISSION_CLASSIFICATION \<Rightarrow> PERMISSION_CLASSIFICATION \<Rightarrow> PERMISSION_CLASSIFICATION" where
  "classify newExcluded excluded =
     (case newExcluded of
        ALLOWED \<Rightarrow> if excluded \<noteq> DISALLOWED then ALLOWED else excluded
      | DISALLOWED \<Rightarrow> DISALLOWED
      | NO_MATCH \<Rightarrow> excluded)"

definition isEventAllowed ::
    "('r \<Rightarrow> u16 list \<Rightarrow> bool) \<Rightarrow> 'r permission_map \<Rightarrow> u16 list \<Rightarrow> u16 list \<Rightarrow> u16 list \<Rightarrow> bool" where
  "isEventAllowed matches m eventType subject object =
     (case m (lower_case eventType) of
        None \<Rightarrow> False
      | Some lp \<Rightarrow> fold (\<lambda>p excluded. classify (Check matches p subject object) excluded) lp NO_MATCH = ALLOWED)"

text \<open>
  Nothing sets \<open>allow\<close> for a sign other than the four: it keeps what is in the new object,
  the argument \<open>garbage\<close>.
\<close>

definition sign_allows :: "bool \<Rightarrow> u16 list \<Rightarrow> bool" where
  "sign_allows garbage excluded =
     (if excluded = wide ''yes'' \<or> excluded = wide ''+'' then True
      else if excluded = wide ''no'' \<or> excluded = wide ''-'' then False else garbage)"

text \<open>None: a regular expression is not well formed and the exception goes to the caller.\<close>

definition addExclusion ::
    "(u16 list \<Rightarrow> 'r option) \<Rightarrow> bool \<Rightarrow> u16 list \<Rightarrow> u16 list \<Rightarrow> u16 list \<Rightarrow> u16 list \<Rightarrow> bool \<Rightarrow>
     'r permission_map \<Rightarrow> 'r permission_map option" where
  "addExclusion compile garbage excluded action subject object permaneant m =
     Option.bind (compile subject) (\<lambda>subjectRegex. Option.bind (compile object) (\<lambda>objectRegex.
       let p = \<lparr>pm_subjects = [subjectRegex], pm_objects = [objectRegex],
                pm_allow = sign_allows garbage excluded, pm_permaneant = permaneant\<rparr>;
           action_copy = lower_case action
       in (case m action_copy of
             None \<Rightarrow> Some (m(action_copy \<mapsto> [p]))
           | Some lp \<Rightarrow> Some (m(action_copy \<mapsto> lp @ [p])))))"

text \<open>
  Removing an element while the iterator stands on it: the step of the loop then reads the
  freed node.
\<close>

fun clear_list :: "'r Permission list \<Rightarrow> fault + 'r Permission list" where
  "clear_list [] = Inr []"
| "clear_list (p # lp) =
     (if \<not> pm_permaneant p then Inl BadPointer
      else fbind (clear_list lp) (\<lambda>rest. Inr (p # rest)))"

fun clear_lists :: "u16 list list \<Rightarrow> 'r permission_map \<Rightarrow> fault + 'r permission_map" where
  "clear_lists [] m = Inr m"
| "clear_lists (k # ks) m =
     (case m k of None \<Rightarrow> clear_lists ks m
      | Some lp \<Rightarrow> fbind (clear_list lp) (\<lambda>lp'. clear_lists ks (m(k \<mapsto> lp'))))"

text \<open>The map is gone through in some order of its keys.\<close>

definition clearExclusionList :: "u16 list list \<Rightarrow> 'r permission_map \<Rightarrow> fault + 'r permission_map" where
  "clearExclusionList order m = clear_lists order m"

section \<open>Exclusion lists\<close>

text \<open>getline until the end of the file: the pieces between the line ends, the last one included.\<close>

fun split_at :: "'a \<Rightarrow> 'a list \<Rightarrow> 'a list list" where
  "split_at d [] = [[]]"
| "split_at d (x # s) =
     (if x = d then [] # split_at d s
      else (case split_at d s of [] \<Rightarrow> [[x]] | p # ps \<Rightarrow> (x # p) # ps))"

definition file_lines :: "u8 list \<Rightarrow> u8 list list" where
  "file_lines text = split_at 0x0A text"

text \<open>char is signed: a character of the file becomes a wide one with its sign.\<close>

definition widen :: "u8 list \<Rightarrow> u16 list" where
  "widen s = map scast s"

definition line_exclusion :: "u8 list \<Rightarrow> (u16 list \<times> u16 list \<times> u16 list \<times> u16 list) option" where
  "line_exclusion line =
     (case line of
        [] \<Rightarrow> None
      | c # _ \<Rightarrow>
          if c = 0x23 then None
          else if c = 0x2B \<or> c = 0x2D then
            (case map widen (split_at 9 line) of
               [excluded, action, subject, object] \<Rightarrow>
                 if action = wide ''.*'' \<or> action = wide ''.+'' then None else Some (excluded, action, subject, object)
             | _ \<Rightarrow> None)
          else None)"

definition load_line :: "(u16 list \<Rightarrow> 'r option) \<Rightarrow> bool \<Rightarrow> u8 list \<Rightarrow> 'r permission_map \<Rightarrow> 'r permission_map" where
  "load_line compile garbage line m =
     (case line_exclusion line of
        None \<Rightarrow> m
      | Some (excluded, action, subject, object) \<Rightarrow>
          (case addExclusion compile garbage excluded action subject object False m of None \<Rightarrow> m | Some m' \<Rightarrow> m'))"

text \<open>None: the file cannot be opened.\<close>

definition loadExclusionList ::
    "(u16 list \<Rightarrow> 'r option) \<Rightarrow> bool \<Rightarrow> u8 list option \<Rightarrow> 'r permission_map \<Rightarrow> 'r permission_map" where
  "loadExclusionList compile garbage file m =
     (case file of None \<Rightarrow> m | Some text \<Rightarrow> fold (load_line compile garbage) (file_lines text) m)"

section \<open>What the lists decide\<close>

definition rules :: "'r permission_map \<Rightarrow> u16 list \<Rightarrow> 'r Permission list" where
  "rules m eventType = (case m (lower_case eventType) of None \<Rightarrow> [] | Some lp \<Rightarrow> lp)"

lemma fold_classify:
  "fold (\<lambda>p excluded. classify (f p) excluded) lp e0 =
     (if e0 = DISALLOWED \<or> (\<exists>p \<in> set lp. f p = DISALLOWED) then DISALLOWED
      else if e0 = ALLOWED \<or> (\<exists>p \<in> set lp. f p = ALLOWED) then ALLOWED else NO_MATCH)"
proof (induction lp arbitrary: e0)
  case Nil
  then show ?case by (cases e0) auto
next
  case (Cons p lp)
  then show ?case by (cases "f p") (auto simp: classify_def)
qed

lemma isEventAllowed_rules:
  "isEventAllowed matches m eventType subject object \<longleftrightarrow>
     (\<exists>p \<in> set (rules m eventType). Check matches p subject object = ALLOWED) \<and>
     \<not> (\<exists>p \<in> set (rules m eventType). Check matches p subject object = DISALLOWED)"
  by (auto simp: isEventAllowed_def rules_def fold_classify split: option.splits)

definition rule_of ::
    "(u16 list \<Rightarrow> 'r option) \<Rightarrow> bool \<Rightarrow> bool \<Rightarrow> u16 list \<times> u16 list \<times> u16 list \<times> u16 list \<Rightarrow> 'r Permission option" where
  "rule_of compile garbage permaneant = (\<lambda>(excluded, action, subject, object).
     Option.bind (compile subject) (\<lambda>s. Option.bind (compile object) (\<lambda>t.
       Some \<lparr>pm_subjects = [s], pm_objects = [t], pm_allow = sign_allows garbage excluded, pm_permaneant = permaneant\<rparr>)))"

lemma addExclusion_rules:
  "addExclusion compile garbage excluded action subject object permaneant m =
     map_option (\<lambda>p. m(lower_case action \<mapsto> rules m action @ [p])) (rule_of compile garbage permaneant (excluded, action, subject, object))"
  by (auto simp: addExclusion_def rule_of_def rules_def Let_def Option.bind_eq_None_conv split: option.splits Option.bind_splits)

lemma rules_update:
  "rules (m(lower_case action \<mapsto> lp)) eventType = (if lower_case eventType = lower_case action then lp else rules m eventType)"
  by (simp add: rules_def)

definition line_rules :: "(u16 list \<Rightarrow> 'r option) \<Rightarrow> bool \<Rightarrow> u16 list \<Rightarrow> u8 list \<Rightarrow> 'r Permission list" where
  "line_rules compile garbage eventType line =
     (case line_exclusion line of None \<Rightarrow> []
      | Some e \<Rightarrow> if lower_case (fst (snd e)) = lower_case eventType then
                    (case rule_of compile garbage False e of None \<Rightarrow> [] | Some p \<Rightarrow> [p]) else [])"

lemma rules_load_line:
  "rules (load_line compile garbage line m) eventType = rules m eventType @ line_rules compile garbage eventType line"
  by (auto simp: load_line_def line_rules_def addExclusion_rules rules_update rules_def split: option.splits)

lemma rules_load:
  "rules (fold (load_line compile garbage) ls m) eventType = rules m eventType @ concat (map (line_rules compile garbage eventType) ls)"
  by (induction ls arbitrary: m) (simp_all add: rules_load_line)

text \<open>A line of the file applies to an event.\<close>

definition line_applies ::
    "(u16 list \<Rightarrow> 'r option) \<Rightarrow> ('r \<Rightarrow> u16 list \<Rightarrow> bool) \<Rightarrow> bool \<Rightarrow> u16 list \<Rightarrow> u16 list \<Rightarrow> u16 list \<Rightarrow> bool \<Rightarrow> u8 list \<Rightarrow> bool" where
  "line_applies compile matches garbage eventType subject object allow line \<longleftrightarrow>
     (case line_exclusion line of
        None \<Rightarrow> False
      | Some (excluded, action, s, t) \<Rightarrow>
          lower_case action = lower_case eventType \<and> sign_allows garbage excluded = allow \<and>
          (case compile s of None \<Rightarrow> False
           | Some rs \<Rightarrow> (case compile t of None \<Rightarrow> False | Some rt \<Rightarrow> matches rs subject \<and> matches rt object)))"

lemma line_rules_applies:
  "(\<exists>p \<in> set (line_rules compile garbage eventType line). Check matches p subject object = (if allow then ALLOWED else DISALLOWED)) \<longleftrightarrow>
     line_applies compile matches garbage eventType subject object allow line"
proof (cases "line_exclusion line")
  case (Some e)
  obtain excluded action s t where e: "e = (excluded, action, s, t)" by (metis prod_cases4)
  show ?thesis
  proof (cases "rule_of compile garbage False e")
    case None
    then have "compile s = None \<or> compile t = None" by (cases "compile s"; cases "compile t") (simp_all add: rule_of_def e)
    moreover have "line_rules compile garbage eventType line = []" by (simp add: line_rules_def Some None)
    ultimately show ?thesis by (auto simp: line_applies_def Some e split: option.split)
  next
    case (Some p)
    then obtain rs rt where c: "compile s = Some rs" "compile t = Some rt"
      by (cases "compile s"; cases "compile t") (simp_all add: rule_of_def e)
    then have p: "p = \<lparr>pm_subjects = [rs], pm_objects = [rt], pm_allow = sign_allows garbage excluded, pm_permaneant = False\<rparr>"
      using Some by (simp add: rule_of_def e)
    have "line_rules compile garbage eventType line = (if lower_case action = lower_case eventType then [p] else [])"
      using Some by (simp add: line_rules_def \<open>line_exclusion line = Some e\<close> e)
    moreover have "Check matches p subject object = (if allow then ALLOWED else DISALLOWED) \<longleftrightarrow>
        sign_allows garbage excluded = allow \<and> matches rs subject \<and> matches rt object"
      by (simp add: Check_def p)
    ultimately show ?thesis by (simp add: line_applies_def \<open>line_exclusion line = Some e\<close> e c)
  qed
qed (simp add: line_rules_def line_applies_def)

section \<open>Properties\<close>

text \<open>
  Preparing a text for an exclusion puts a backslash before each of its backslashes and
  dots and changes nothing else, although the second pass runs over what the first one wrote.
\<close>

theorem prepareStringForExclusion_escapes:
  "prepareStringForExclusion s = concat (map (\<lambda>x. if x = 0x5C \<or> x = 0x2E then [0x5C, x] else [x]) s)"
proof -
  have "prepareStringForExclusion s = concat (map (escape_char 0x2E) (concat (map (escape_char 0x5C) s)))"
    by (simp add: prepareStringForExclusion_def escape_from_concat)
  also have "\<dots> = concat (map (\<lambda>x. if x = 0x5C \<or> x = 0x2E then [0x5C, x] else [x]) s)"
    by (induction s) (auto simp: escape_char_def)
  finally show ?thesis .
qed

text \<open>
  After an exclusion list was loaded, an event is excluded exactly when some line with a
  plus applies to it and no line with a minus does: in whatever order the lines stand, whatever
  the case of the action, and with the lines that are not well formed left out.
\<close>

theorem loaded_exclusions_decide:
  "isEventAllowed matches (loadExclusionList compile garbage (Some text) Map.empty) eventType subject object \<longleftrightarrow>
     (\<exists>line \<in> set (file_lines text). line_applies compile matches garbage eventType subject object True line) \<and>
     \<not> (\<exists>line \<in> set (file_lines text). line_applies compile matches garbage eventType subject object False line)"
proof -
  let ?m = "loadExclusionList compile garbage (Some text) Map.empty"
  have r: "rules ?m eventType = concat (map (line_rules compile garbage eventType) (file_lines text))"
    by (simp add: loadExclusionList_def rules_load) (simp add: rules_def)
  have "(\<exists>p \<in> set (rules ?m eventType). Check matches p subject object = (if allow then ALLOWED else DISALLOWED)) \<longleftrightarrow>
      (\<exists>line \<in> set (file_lines text). line_applies compile matches garbage eventType subject object allow line)" for allow
    unfolding r using line_rules_applies[of compile garbage eventType _ matches subject object allow] by auto
  from this[of True] this[of False] show ?thesis by (simp add: isEventAllowed_rules)
qed

text \<open>
  Clearing the exclusions works only when there is nothing to clear: as soon as a list
  holds one that is not permanent, the iterator over the list is used after its element was
  removed and freed; otherwise the exclusions stay as they are.
\<close>

theorem clearExclusionList_faults:
  "clearExclusionList order m =
     (if \<exists>k \<in> set order. \<exists>lp. m k = Some lp \<and> \<not> list_all pm_permaneant lp then Inl BadPointer else Inr m)"
proof -
  have l: "clear_list lp = (if list_all pm_permaneant lp then Inr lp else Inl BadPointer)" for lp :: "'r Permission list"
    by (induction lp) auto
  show ?thesis
    unfolding clearExclusionList_def
  proof (induction order arbitrary: m)
    case (Cons k ks)
    show ?case
    proof (cases "m k")
      case (Some lp)
      then have "m(k \<mapsto> lp) = m" by auto
      then show ?thesis using Some Cons.IH[of m] by (simp add: l)
    qed (simp add: Cons.IH)
  qed simp
qed

end
