(* ===== verification/XmlElement.thy ===== *)
theory XmlElement
  imports ClientMonitor
begin

text \<open>
  Element.h of the client and the documents Server.cpp makes of elements and attributes: what
  the client sends to the server. An element is the tree of the objects reachable from it; the
  conversion of the text to UTF-8 is Windows' and an argument where it is used.
\<close>

text \<open>Texts that are written in the program differ when they are written differently.\<close>

lemma wide_inject [simp]: "wide s = wide t \<longleftrightarrow> s = t"
proof -
  have "(of_nat (of_char c) :: u16) = of_nat (of_char d) \<longleftrightarrow> c = d" for c d :: char
  proof -
    have "unat (of_nat (of_char e) :: u16) = of_char e" for e :: char
      using of_char_eq_iff by (simp add: unat_of_nat of_char_mod_256 mod_less[OF less_trans[of _ 256]])
    then show ?thesis by (metis of_char_eq_iff)
  qed
  then have "inj (\<lambda>c. of_nat (of_char c) :: u16)" by (simp add: inj_on_def)
  then show ?thesis by (simp add: wide_def inj_map_eq_map)
qed

section \<open>Elements\<close>

record Attribute =
  at_name :: "u16 list"
  at_value :: "u16 list"

definition attribute :: "u16 list \<Rightarrow> u16 list \<Rightarrow> Attribute" where
  "attribute n v = \<lparr>at_name = n, at_value = v\<rparr>"

datatype Element = Elem (el_name: "u16 list") (el_attributes: "Attribute list") (el_data: "u8 list") (el_children: "Element list")

definition getAttributeValue :: "Element \<Rightarrow> u16 list \<Rightarrow> u16 list" where
  "getAttributeValue e n =
     (case filter (\<lambda>a. at_name a = n) (el_attributes e) of [] \<Rightarrow> [] | a # _ \<Rightarrow> at_value a)"

definition addAttribute :: "Element \<Rightarrow> u16 list \<Rightarrow> u16 list \<Rightarrow> Element" where
  "addAttribute e n v = Elem (el_name e) (el_attributes e @ [attribute n v]) (el_data e) (el_children e)"

definition addChildElement :: "Element \<Rightarrow> Element \<Rightarrow> Element" where
  "addChildElement e c = Elem (el_name e) (el_attributes e) (el_data e) (el_children e @ [c])"

definition setName :: "Element \<Rightarrow> u16 list \<Rightarrow> Element" where
  "setName e n = Elem n (el_attributes e) (el_data e) (el_children e)"

definition setData :: "Element \<Rightarrow> u8 list \<Rightarrow> Element" where
  "setData e d = Elem (el_name e) (el_attributes e) d (el_children e)"

definition new_element :: Element where
  "new_element = Elem [] [] [] []"

lemma getAttributeValue_first:
  "getAttributeValue (Elem m (as @ attribute n v # bs) d cs) n = v" if "\<forall>a \<in> set as. at_name a \<noteq> n"
  using that by (simp add: getAttributeValue_def attribute_def)

lemma getAttributeValue_absent:
  "\<forall>a \<in> set (el_attributes e). at_name a \<noteq> n \<Longrightarrow> getAttributeValue e n = []"
  by (simp add: getAttributeValue_def)

section \<open>toString\<close>

definition attribute_text :: "Attribute \<Rightarrow> u16 list" where
  "attribute_text a = wide '' '' @ at_name a @ wide ''='' @ [0x22] @ at_value a @ [0x22]"

text \<open>The bytes of the data become characters one by one, with their sign, up to the first NUL.\<close>

definition data_text :: "u8 list \<Rightarrow> u16 list" where
  "data_text d = takeWhile (\<lambda>c. c \<noteq> 0) (map scast d)"

fun toStringWithoutNewLine :: "Element \<Rightarrow> u16 list" where
  "toStringWithoutNewLine (Elem n as d cs) =
     wide ''<'' @ n @ concat (map attribute_text as) @ wide ''>'' @
     concat (map toStringWithoutNewLine cs) @ data_text d @ wide ''</'' @ n @ wide ''>''"

definition toString :: "Element \<Rightarrow> u16 list" where
  "toString e = toStringWithoutNewLine e @ [0x0D, 0x0A]"

section \<open>xml_escape\<close>

text \<open>What takes the place of a character, if anything does.\<close>

definition entity :: "u16 \<Rightarrow> u16 list option" where
  "entity c =
     (if c = 0x26 then Some (wide ''&amp;'')
      else if c = 0x3C then Some (wide ''&lt;'')
      else if c = 0x3E then Some (wide ''&gt;'')
      else if c = 0x22 then Some (wide ''&quot;'')
      else if c = 0x27 then Some (wide ''&apos;'')
      else None)"

text \<open>One turn of the loop, at position i of what has been escaped so far; at is in range there.\<close>

definition escape_char_at :: "u16 list \<Rightarrow> nat \<Rightarrow> u16 list" where
  "escape_char_at e i = (case entity (e ! i) of Some r \<Rightarrow> replace_at e i 1 r | None \<Rightarrow> e)"

text \<open>The loop: how many turns are left, the position, what has been escaped so far.\<close>

fun escape_loop :: "nat \<Rightarrow> nat \<Rightarrow> u16 list \<Rightarrow> u16 list" where
  "escape_loop 0 i e = e"
| "escape_loop (Suc n) i e = escape_loop n (Suc i) (escape_char_at e i)"

definition xml_escape :: "u16 list \<Rightarrow> u16 list" where
  "xml_escape xml = escape_loop (length xml) 0 xml"

text \<open>What escaping is meant to be: every character by itself.\<close>

definition escape_char :: "u16 \<Rightarrow> u16 list" where
  "escape_char c = (case entity c of Some r \<Rightarrow> r | None \<Rightarrow> [c])"

definition escape :: "u16 list \<Rightarrow> u16 list" where
  "escape s = concat (map escape_char s)"

definition special :: "u16 \<Rightarrow> bool" where
  "special c \<longleftrightarrow> entity c \<noteq> None"

lemma escape_simps [simp]: "escape [] = []" "escape (c # s) = escape_char c @ escape s" "escape (s @ t) = escape s @ escape t"
  by (simp_all add: escape_def)

lemma escape_char_not_Nil [simp]: "escape_char c \<noteq> []"
  by (simp add: escape_char_def entity_def wide_def)

lemma escape_plain [simp]: "\<not> special c \<Longrightarrow> escape_char c = [c]"
  by (auto simp: special_def escape_char_def)

lemma escape_id: "\<forall>c \<in> set s. \<not> special c \<Longrightarrow> escape s = s"
  by (induction s) auto

lemma length_escape_char: "1 \<le> length (escape_char c)"
  by (cases "escape_char c") auto

lemma length_escape: "length s \<le> length (escape s)"
proof (induction s)
  case (Cons c s)
  then show ?case using length_escape_char[of c] by (simp del: One_nat_def)
qed simp

text \<open>The text that replaces a character begins with an ampersand, and nothing behind that is special.\<close>

lemma escape_char_tail: "\<forall>x \<in> set (tl (escape_char c)). \<not> special x"
  by (auto simp: escape_char_def special_def entity_def wide_def)

text \<open>Escaping with a given number of turns of the loop left.\<close>

fun escape_upto :: "nat \<Rightarrow> u16 list \<Rightarrow> u16 list" where
  "escape_upto n [] = []"
| "escape_upto n (c # s) =
     (if n = 0 then c # s else escape_char c @ escape_upto (n - length (escape_char c)) s)"

lemma escape_upto_0 [simp]: "escape_upto 0 s = s"
  by (cases s) auto

lemma escape_char_at_here: "escape_char_at (p @ c # s) (length p) = p @ escape_char c @ s"
  by (simp add: escape_char_at_def escape_char_def replace_at_def split: option.split)

lemma escape_loop_add: "escape_loop (m + n) i e = escape_loop n (i + m) (escape_loop m i e)"
  by (induction m arbitrary: i e) auto

lemma escape_loop_plain:
  "\<forall>c \<in> set q. \<not> special c \<Longrightarrow> escape_loop (length q) (length p) (p @ q @ s) = p @ q @ s"
proof (induction q arbitrary: p)
  case (Cons c q)
  then show ?case using escape_char_at_here[of p c "q @ s"] Cons.IH[of "p @ [c]"] by simp
qed simp

lemma escape_loop_upto: "n \<le> length s \<Longrightarrow> escape_loop n (length p) (p @ s) = p @ escape_upto n s"
proof (induction n s arbitrary: p rule: escape_upto.induct)
  case (2 n c s)
  show ?case
  proof (cases n)
    case (Suc m)
    obtain x q where x: "escape_char c = x # q" by (cases "escape_char c") auto
    have plain: "\<forall>y \<in> set q. \<not> special y" using escape_char_tail[of c] x by simp
    have first: "escape_loop n (length p) (p @ c # s) = escape_loop m (length (p @ [x])) ((p @ [x]) @ q @ s)"
      using Suc escape_char_at_here[of p c s] x by simp
    show ?thesis
    proof (cases "length q \<le> m")
      case True
      then have "escape_loop m (length (p @ [x])) ((p @ [x]) @ q @ s) =
          escape_loop (m - length q) (length (p @ [x]) + length q) (escape_loop (length q) (length (p @ [x])) ((p @ [x]) @ q @ s))"
        by (metis escape_loop_add le_add_diff_inverse)
      also have "\<dots> = escape_loop (n - length (escape_char c)) (length (p @ escape_char c)) ((p @ escape_char c) @ s)"
        using escape_loop_plain[OF plain, of "p @ [x]" s] Suc x by simp
      also have "\<dots> = (p @ escape_char c) @ escape_upto (n - length (escape_char c)) s"
        using "2.IH"[of "p @ escape_char c"] "2.prems" Suc x by simp
      finally show ?thesis using first Suc by simp
    next
      case False
      have "escape_loop (length (take m q)) (length (p @ [x])) ((p @ [x]) @ take m q @ (drop m q @ s)) =
            (p @ [x]) @ take m q @ (drop m q @ s)"
        by (rule escape_loop_plain) (use plain in \<open>auto dest: in_set_takeD\<close>)
      moreover have "length (take m q) = m" using False by simp
      moreover have "take m q @ drop m q @ s = q @ s" by (metis append.assoc append_take_drop_id)
      ultimately have "escape_loop m (length (p @ [x])) ((p @ [x]) @ q @ s) = (p @ [x]) @ q @ s"
        by simp
      moreover have "n - length (escape_char c) = 0" using False Suc x by simp
      ultimately show ?thesis using first Suc x by simp
    qed
  qed simp
qed simp

lemma xml_escape_upto: "xml_escape s = escape_upto (length s) s"
  using escape_loop_upto[of "length s" s "[]"] by (simp add: xml_escape_def)

lemma escape_upto_prefix:
  "n \<le> length s \<Longrightarrow>
   \<exists>k \<le> length s. escape_upto n s = escape (take k s) @ drop k s \<and> n \<le> length (escape (take k s)) \<and>
     (\<forall>j < k. length (escape (take j s)) < n)"
proof (induction n s rule: escape_upto.induct)
  case (2 n c s)
  show ?case
  proof (cases "n = 0")
    case False
    with 2 length_escape_char[of c] obtain k where k: "k \<le> length s"
      "escape_upto (n - length (escape_char c)) s = escape (take k s) @ drop k s"
      "n - length (escape_char c) \<le> length (escape (take k s))"
      "\<forall>j < k. length (escape (take j s)) < n - length (escape_char c)" by fastforce
    have "\<forall>j < Suc k. length (escape (take j (c # s))) < n"
    proof (intro allI impI)
      fix j assume "j < Suc k"
      then show "length (escape (take j (c # s))) < n" using k(4) False by (cases j) fastforce+
    qed
    with k False show ?thesis by (intro exI[of _ "Suc k"]) auto
  qed auto
qed auto

lemma xml_escape_splits:
  "\<exists>k \<le> length s. xml_escape s = escape (take k s) @ drop k s \<and> length s \<le> length (escape (take k s)) \<and>
     (\<forall>j < k. length (escape (take j s)) < length s)"
  unfolding xml_escape_upto by (rule escape_upto_prefix) simp

lemma escape_ampersand: "escape_char 0x26 = wide ''&amp;''"
  by (simp add: escape_char_def entity_def)

lemma escape_upto_ampersands:
  "m \<le> 5 * n \<Longrightarrow> \<exists>p. escape_upto m (replicate n 0x26 @ t) = p @ t"
proof (induction n arbitrary: m)
  case (Suc n)
  have l: "length (wide ''&amp;'') = 5" by (simp add: wide_def)
  have "m - 5 \<le> 5 * n" using Suc.prems by simp
  from Suc.IH[OF this] obtain p where "escape_upto (m - 5) (replicate n 0x26 @ t) = p @ t" by blast
  then show ?case using escape_ampersand l by (cases "m = 0") (auto intro: exI[of _ "0x26 # replicate n 0x26"] exI[of _ "wide ''&amp;'' @ p"])
qed simp

text \<open>
  xml_escape runs its loop as often as the text was long before anything was replaced: it
  escapes the shortest beginning of the text that escaped is at least as long as the whole
  text, and leaves the rest as it is.
\<close>

theorem xml_escape_prefix:
  "\<exists>k \<le> length s. xml_escape s = escape (take k s) @ drop k s \<and> length s \<le> length (escape (take k s)) \<and>
     (\<forall>j < k. length (escape (take j s)) < length s)"
  by (rule xml_escape_splits)

theorem xml_escape_prefix_witness:
  "xml_escape (wide ''&a<b>'') = wide ''&amp;a<b>'' \<and>
   (\<exists>k \<le> 5. xml_escape (wide ''&a<b>'') = escape (take k (wide ''&a<b>'')) @ drop k (wide ''&a<b>''))"
proof
  show "xml_escape (wide ''&a<b>'') = wide ''&amp;a<b>''" by code_simp
  have "length (wide ''&a<b>'') = 5" by (simp add: wide_def)
  with xml_escape_prefix[of "wide ''&a<b>''"]
  show "\<exists>k \<le> 5. xml_escape (wide ''&a<b>'') = escape (take k (wide ''&a<b>'')) @ drop k (wide ''&a<b>'')" by metis
qed

end
