(* ===== verification/EventController.thy ===== *)
theory EventController
  imports XmlElement
begin

text \<open>
  EventController.cpp of the client: the callbacks of the expat parser that build the elements
  of a document from the server, and the signals that hand a finished document to those who
  listen for its name. The parser is a library and an argument: the callbacks it makes for a
  document. Elements are objects on the heap that know their parents; what operator new
  returns are the answers of the allocator, and NULL stands for its exception.
\<close>

section \<open>State\<close>

record element_object =
  eo_name :: "u16 list"
  eo_attributes :: "Attribute list"
  eo_data :: "u8 list"
  eo_children :: "addr list"
  eo_parent :: addr
  eo_hasParent :: bool

type_synonym element_heap = "addr \<rightharpoonup> element_object"

text \<open>A slot was called with an element: which one, and the objects at that moment.\<close>

record 's slot_call =
  sc_slot :: 's
  sc_element :: addr
  sc_heap :: element_heap

record 's event_controller =
  currentElement :: addr
  ec_heap :: element_heap
  ec_answers :: "addr list"
  onServerEventMap :: "u16 list \<rightharpoonup> 's list"
  ec_calls :: "'s slot_call list"

text \<open>What expat calls back with; an attribute is a name and, when the document is in order, a value.\<close>

datatype sax = StartTag "u8 list" "(u8 list \<times> u8 list option) list" | EndTag "u8 list" | CharData "u8 list"

text \<open>mbstowcs in the C locale, which the client never leaves.\<close>

definition mbstowcs :: "u8 list \<Rightarrow> u16 list" where
  "mbstowcs s = map ucast s"

section \<open>Callbacks\<close>

definition new_object :: element_object where
  "new_object = \<lparr>eo_name = [], eo_attributes = [], eo_data = [], eo_children = [], eo_parent = NULL, eo_hasParent = False\<rparr>"

definition put_object :: "'s event_controller \<Rightarrow> addr \<Rightarrow> element_object \<Rightarrow> 's event_controller" where
  "put_object ec p e = ec\<lparr>ec_heap := (ec_heap ec)(p \<mapsto> e)\<rparr>"

definition create_object :: "'s event_controller \<Rightarrow> fault + addr \<times> 's event_controller" where
  "create_object ec =
     (case next_answer (ec_answers ec) of
        (p, as) \<Rightarrow> if p = NULL then Inl BadAlloc else Inr (p, put_object (ec\<lparr>ec_answers := as\<rparr>) p new_object))"

definition add_child :: "'s event_controller \<Rightarrow> addr \<Rightarrow> addr \<Rightarrow> fault + 's event_controller" where
  "add_child ec p c =
     fbind (deref (ec_heap ec) c) (\<lambda>child.
     let ec = put_object ec c (child\<lparr>eo_parent := p, eo_hasParent := True\<rparr>) in
     fbind (deref (ec_heap ec) p) (\<lambda>e. Inr (put_object ec p (e\<lparr>eo_children := eo_children e @ [c]\<rparr>))))"

text \<open>The element a start tag is about.\<close>

definition open_element :: "'s event_controller \<Rightarrow> u16 list \<Rightarrow> fault + 's event_controller" where
  "open_element ec elementName =
     (if currentElement ec = NULL then
        fbind (create_object ec) (\<lambda>(p, ec). Inr (ec\<lparr>currentElement := p\<rparr>))
      else
        fbind (deref (ec_heap ec) (currentElement ec)) (\<lambda>e.
        if eo_name e \<noteq> elementName then
          fbind (create_object ec) (\<lambda>(p, ec).
          fbind (add_child ec (currentElement ec) p) (\<lambda>ec. Inr (ec\<lparr>currentElement := p\<rparr>)))
        else Inr ec))"

definition read_attributes :: "(u8 list \<times> u8 list option) list \<Rightarrow> Attribute list" where
  "read_attributes atts =
     concat (map (\<lambda>(n, v). case v of Some v \<Rightarrow> [attribute (mbstowcs n) (mbstowcs v)] | None \<Rightarrow> []) atts)"

definition startElement :: "'s event_controller \<Rightarrow> u8 list \<Rightarrow> (u8 list \<times> u8 list option) list \<Rightarrow> fault + 's event_controller" where
  "startElement ec name atts =
     fbind (open_element ec (mbstowcs name)) (\<lambda>ec.
     fbind (deref (ec_heap ec) (currentElement ec)) (\<lambda>e.
       Inr (put_object ec (currentElement ec)
              (e\<lparr>eo_name := mbstowcs name, eo_attributes := eo_attributes e @ read_attributes atts\<rparr>))))"

text \<open>The destructor leaves the children where they are.\<close>

definition notifyListeners :: "'s event_controller \<Rightarrow> fault + 's event_controller" where
  "notifyListeners ec =
     fbind (deref (ec_heap ec) (currentElement ec)) (\<lambda>e.
     if eo_name e \<noteq> [] then
       let slots = (case onServerEventMap ec (eo_name e) of Some l \<Rightarrow> l | None \<Rightarrow> []);
           calls = map (\<lambda>s. \<lparr>sc_slot = s, sc_element = currentElement ec, sc_heap = ec_heap ec\<rparr>) slots
       in Inr (ec\<lparr>ec_calls := ec_calls ec @ calls, ec_heap := (ec_heap ec)(currentElement ec := None), currentElement := NULL\<rparr>)
     else Inr ec)"

definition endElement :: "'s event_controller \<Rightarrow> u8 list \<Rightarrow> fault + 's event_controller" where
  "endElement ec name =
     fbind (deref (ec_heap ec) (currentElement ec)) (\<lambda>e.
     if \<not> eo_hasParent e then notifyListeners ec
     else if eo_name e = mbstowcs name then Inr (ec\<lparr>currentElement := eo_parent e\<rparr>)
     else Inr ec)"

definition charData :: "'s event_controller \<Rightarrow> u8 list \<Rightarrow> fault + 's event_controller" where
  "charData ec s =
     fbind (deref (ec_heap ec) (currentElement ec)) (\<lambda>e.
       Inr (put_object ec (currentElement ec) (e\<lparr>eo_data := s\<rparr>)))"

fun callback :: "'s event_controller \<Rightarrow> sax \<Rightarrow> fault + 's event_controller" where
  "callback ec (StartTag name atts) = startElement ec name atts"
| "callback ec (EndTag name) = endElement ec name"
| "callback ec (CharData s) = charData ec s"

fun callbacks :: "'s event_controller \<Rightarrow> sax list \<Rightarrow> fault + 's event_controller" where
  "callbacks ec [] = Inr ec"
| "callbacks ec (x # xs) = fbind (callback ec x) (\<lambda>ec. callbacks ec xs)"

definition receiveServerEvent :: "(u8 list \<Rightarrow> sax list) \<Rightarrow> 's event_controller \<Rightarrow> u8 list \<Rightarrow> fault + 's event_controller" where
  "receiveServerEvent parse ec xmlDocument = callbacks ec (parse xmlDocument)"

definition connect_onServerEvent :: "'s event_controller \<Rightarrow> u16 list \<Rightarrow> 's \<Rightarrow> 's event_controller" where
  "connect_onServerEvent ec eventType s =
     (case onServerEventMap ec eventType of
        Some l \<Rightarrow> ec\<lparr>onServerEventMap := (onServerEventMap ec)(eventType \<mapsto> l @ [s])\<rparr>
      | None \<Rightarrow> ec\<lparr>onServerEventMap := (onServerEventMap ec)(eventType \<mapsto> [s])\<rparr>)"

lemma callbacks_append: "callbacks ec (xs @ ys) = fbind (callbacks ec xs) (\<lambda>ec. callbacks ec ys)"
proof (induction xs arbitrary: ec)
  case (Cons x xs)
  then show ?case by (cases "callback ec x") auto
qed simp

section \<open>Documents\<close>

text \<open>
  A document as a tree of tags and of pieces of text (expat may report a text in pieces, and
  reports every line end by itself), and the callbacks expat documents for it.
\<close>

datatype xml = Tag "u8 list" "(u8 list \<times> u8 list) list" "xml list" | Text "u8 list"

fun events :: "xml \<Rightarrow> sax list" where
  "events (Tag n as cs) = StartTag n (map (\<lambda>(a, v). (a, Some v)) as) # concat (map events cs) @ [EndTag n]"
| "events (Text s) = [CharData s]"

text \<open>How many elements it has.\<close>

fun tags :: "xml \<Rightarrow> nat" where
  "tags (Tag n as cs) = Suc (sum_list (map tags cs))"
| "tags (Text s) = 0"

text \<open>No tag directly below one of the same name.\<close>

fun named :: "u8 list \<Rightarrow> xml \<Rightarrow> bool" where
  "named n (Tag m as cs) \<longleftrightarrow> m = n"
| "named n (Text s) \<longleftrightarrow> False"

fun nests_well :: "xml \<Rightarrow> bool" where
  "nests_well (Tag n as cs) \<longleftrightarrow> list_all (\<lambda>c. \<not> named n c \<and> nests_well c) cs"
| "nests_well (Text s) \<longleftrightarrow> True"

text \<open>The element that should come of it: of the text the last piece stays.\<close>

fun element_list :: "xml \<Rightarrow> Element list" where
  "element_list (Tag n as cs) =
     [Elem (mbstowcs n) (map (\<lambda>(a, v). attribute (mbstowcs a) (mbstowcs v)) as)
        (fold (\<lambda>c d. case c of Text s \<Rightarrow> s | Tag _ _ _ \<Rightarrow> d) cs [])
        (concat (map element_list cs))]"
| "element_list (Text s) = []"

section \<open>Elements in the heap\<close>

fun holds :: "element_heap \<Rightarrow> addr \<Rightarrow> Element \<Rightarrow> bool"
  and all_hold :: "element_heap \<Rightarrow> addr list \<Rightarrow> Element list \<Rightarrow> bool" where
  "holds h p (Elem n as d cs) \<longleftrightarrow>
     p \<noteq> NULL \<and>
     (case h p of None \<Rightarrow> False
      | Some e \<Rightarrow> eo_name e = n \<and> eo_attributes e = as \<and> eo_data e = d \<and> all_hold h (eo_children e) cs)"
| "all_hold h ps [] \<longleftrightarrow> ps = []"
| "all_hold h ps (c # cs) \<longleftrightarrow> (case ps of [] \<Rightarrow> False | p # ps \<Rightarrow> holds h p c \<and> all_hold h ps cs)"

lemma holds_mono:
  "h \<subseteq>\<^sub>m h' \<Longrightarrow> holds h p e \<Longrightarrow> holds h' p e"
  "h \<subseteq>\<^sub>m h' \<Longrightarrow> all_hold h ps es \<Longrightarrow> all_hold h' ps es"
proof (induction h p e and h ps es rule: holds_all_hold.induct)
  case (1 h p n as d cs)
  then obtain e where "h p = Some e" by (auto split: option.splits)
  moreover from this 1 have "h' p = Some e" by (auto simp: map_le_def dom_def)
  ultimately show ?case using 1 by auto
qed (auto split: list.splits)

lemma all_hold_append: "all_hold h ps cs \<Longrightarrow> all_hold h qs ds \<Longrightarrow> all_hold h (ps @ qs) (cs @ ds)"
  by (induction cs arbitrary: ps) (auto split: list.splits)

section \<open>Building the elements of a document\<close>

text \<open>
  The allocator has k answers left, all of them new memory. What the callbacks for the content
  of an element do to the object of the element and to the heap.
\<close>

definition stocked :: "'s event_controller \<Rightarrow> nat \<Rightarrow> bool" where
  "stocked ec k \<longleftrightarrow>
     (let A = take k (ec_answers ec) in length A = k \<and> distinct A \<and> NULL \<notin> set A \<and> set A \<inter> dom (ec_heap ec) = {})"

definition last_text :: "xml list \<Rightarrow> u8 list \<Rightarrow> u8 list" where
  "last_text cs d = fold (\<lambda>c d. case c of Text s \<Rightarrow> s | Tag _ _ _ \<Rightarrow> d) cs d"

abbreviation (input) all_tags :: "xml list \<Rightarrow> nat" where
  "all_tags cs \<equiv> sum_list (map tags cs)"

definition builds :: "'s event_controller \<Rightarrow> element_object \<Rightarrow> xml list \<Rightarrow> bool" where
  "builds ec e cs \<longleftrightarrow>
     (\<exists>h ps. callbacks ec (concat (map events cs)) = Inr (ec\<lparr>ec_heap := h, ec_answers := drop (all_tags cs) (ec_answers ec)\<rparr>) \<and>
        h (currentElement ec) = Some (e\<lparr>eo_children := eo_children e @ ps, eo_data := last_text cs (eo_data e)\<rparr>) \<and>
        all_hold (h |` set (take (all_tags cs) (ec_answers ec))) ps (concat (map element_list cs)) \<and>
        set (take (all_tags cs) (ec_answers ec)) \<subseteq> dom h \<and>
        (\<forall>q. q \<notin> set (take (all_tags cs) (ec_answers ec)) \<longrightarrow> q \<noteq> currentElement ec \<longrightarrow> h q = ec_heap ec q))"

lemma restrict_agree: "(\<And>q. q \<in> A \<Longrightarrow> h' q = h q) \<Longrightarrow> h' |` A = h |` A"
  by (rule ext) (simp add: restrict_map_def)

lemma dom_agree:
  assumes "\<And>q. q \<notin> A \<Longrightarrow> q \<noteq> c \<Longrightarrow> h' q = h q" "h c = Some e" shows "dom h' \<subseteq> dom h \<union> A"
proof
  fix q assume "q \<in> dom h'"
  then show "q \<in> dom h \<union> A" using assms(1)[of q] assms(2) by (cases "q = c"; cases "q \<in> A") (auto simp: dom_def)
qed

lemma restrict_mono: "A \<subseteq> B \<Longrightarrow> h |` A \<subseteq>\<^sub>m h |` B"
  by (auto simp: map_le_def restrict_map_def)

lemma all_hold_restrict: "all_hold (h |` A) ps es \<Longrightarrow> A \<subseteq> B \<Longrightarrow> all_hold (h |` B) ps es"
  by (rule holds_mono(2)[OF restrict_mono])

lemma mbstowcs_inj [simp]: "mbstowcs a = mbstowcs b \<longleftrightarrow> a = b"
proof -
  have "ucast (ucast c :: u16) = c" for c :: u8 by (rule bit_word_eqI) (simp add: bit_simps)
  then have "inj (ucast :: u8 \<Rightarrow> u16)" by (rule inj_on_inverseI)
  then show ?thesis by (simp add: mbstowcs_def inj_map_eq_map)
qed

lemma take_add_split: "take (m + n) xs = take m xs @ take n (drop m xs)"
  by (metis take_add)

lemma stocked_first:
  assumes "stocked ec (m + n)" shows "stocked ec m"
  using assms by (auto simp: stocked_def Let_def take_add_split)

lemma stocked_rest:
  assumes "stocked ec (m + n)" "ec_answers ec' = drop m (ec_answers ec)"
    "dom (ec_heap ec') \<subseteq> dom (ec_heap ec) \<union> set (take m (ec_answers ec))"
  shows "stocked ec' n"
  using assms by (auto simp: stocked_def Let_def take_add_split)

lemma builds_Nil: "ec_heap ec (currentElement ec) = Some e \<Longrightarrow> builds ec e []"
  by (auto simp: builds_def last_text_def intro!: exI[of _ "ec_heap ec"])

lemma builds_Text:
  "ec_heap ec (currentElement ec) = Some e \<Longrightarrow> currentElement ec \<noteq> NULL \<Longrightarrow> builds ec e [Text s]"
  by (auto simp: builds_def last_text_def charData_def put_object_def)

text \<open>Two pieces of content one behind the other.\<close>

lemma builds_append:
  fixes ec :: "'s event_controller"
  assumes first: "builds ec e cs" and e: "ec_heap ec (currentElement ec) = Some e"
    and stocked: "stocked ec (all_tags cs + all_tags ds)"
    and second: "\<And>(ec' :: 's event_controller) e'. currentElement ec' = currentElement ec \<Longrightarrow> ec_heap ec' (currentElement ec) = Some e' \<Longrightarrow>
                   eo_name e' = eo_name e \<Longrightarrow> stocked ec' (all_tags ds) \<Longrightarrow> builds ec' e' ds"
  shows "builds ec e (cs @ ds)"
proof -
  let ?A = "set (take (all_tags cs) (ec_answers ec))" and ?B = "set (take (all_tags ds) (drop (all_tags cs) (ec_answers ec)))"
  obtain h ps where h: "callbacks ec (concat (map events cs)) = Inr (ec\<lparr>ec_heap := h, ec_answers := drop (all_tags cs) (ec_answers ec)\<rparr>)"
    "h (currentElement ec) = Some (e\<lparr>eo_children := eo_children e @ ps, eo_data := last_text cs (eo_data e)\<rparr>)"
    "all_hold (h |` ?A) ps (concat (map element_list cs))"
    "\<And>q. q \<notin> ?A \<Longrightarrow> q \<noteq> currentElement ec \<Longrightarrow> h q = ec_heap ec q" "?A \<subseteq> dom h"
    using first by (auto simp: builds_def)
  let ?ec = "ec\<lparr>ec_heap := h, ec_answers := drop (all_tags cs) (ec_answers ec)\<rparr>"
  let ?e = "e\<lparr>eo_children := eo_children e @ ps, eo_data := last_text cs (eo_data e)\<rparr>"
  have dom: "dom h \<subseteq> dom (ec_heap ec) \<union> ?A" using h(4) e by (rule dom_agree)
  have "builds ?ec ?e ds"
  proof (rule second)
    show "stocked ?ec (all_tags ds)" by (rule stocked_rest[OF stocked]) (use dom in simp_all)
  qed (use h(2) in simp_all)
  then obtain h' qs where h': "callbacks ?ec (concat (map events ds)) =
        Inr (?ec\<lparr>ec_heap := h', ec_answers := drop (all_tags ds) (ec_answers ?ec)\<rparr>)"
    "h' (currentElement ec) = Some (?e\<lparr>eo_children := eo_children ?e @ qs, eo_data := last_text ds (eo_data ?e)\<rparr>)"
    "all_hold (h' |` ?B) qs (concat (map element_list ds))"
    "\<And>q. q \<notin> ?B \<Longrightarrow> q \<noteq> currentElement ec \<Longrightarrow> h' q = h q" "?B \<subseteq> dom h'"
    unfolding builds_def by auto
  have disjoint: "?A \<inter> ?B = {}" and fresh: "currentElement ec \<notin> ?A"
    using stocked e by (auto simp: stocked_def Let_def take_add_split)
  have "h' |` ?A = h |` ?A"
    using h'(4) disjoint fresh by (intro restrict_agree) auto
  then have "all_hold (h' |` (?A \<union> ?B)) (ps @ qs) (concat (map element_list (cs @ ds)))"
    using h(3) h'(3) all_hold_append[OF all_hold_restrict[OF _ Un_upper1] all_hold_restrict[OF _ Un_upper2]] by simp
  moreover have "\<And>q. q \<notin> ?A \<union> ?B \<Longrightarrow> q \<noteq> currentElement ec \<Longrightarrow> h' q = ec_heap ec q"
    using h(4) h'(4) by simp
  moreover have "?A \<subseteq> dom h'"
  proof
    fix q assume q: "q \<in> ?A"
    then have "h' q = h q" using h'(4)[of q] disjoint fresh by auto
    with q h(5) show "q \<in> dom h'" by auto
  qed
  ultimately show ?thesis
    unfolding builds_def using h(1) h'(1,2,5)
    by (intro exI[of _ h'] exI[of _ "ps @ qs"]) (simp add: callbacks_append last_text_def take_add_split add.commute)
qed

text \<open>An element inside another one.\<close>

lemma stocked_Cons:
  assumes "stocked ec (Suc n)"
  obtains p as where "ec_answers ec = p # as" "p \<noteq> NULL" "p \<notin> dom (ec_heap ec)" "p \<notin> set (take n as)"
    "length (take n as) = n" "distinct (take n as)" "NULL \<notin> set (take n as)" "set (take n as) \<inter> dom (ec_heap ec) = {}"
  using assms by (cases "ec_answers ec") (auto simp: stocked_def Let_def)

lemma read_attributes_pairs [simp]:
  "read_attributes (map (\<lambda>(a, v). (a, Some v)) as) = map (\<lambda>(a, v). attribute (mbstowcs a) (mbstowcs v)) as"
  by (induction as) (auto simp: read_attributes_def)

lemma startElement_child:
  assumes "currentElement ec = c" "c \<noteq> NULL" "ec_heap ec c = Some e" "eo_name e \<noteq> mbstowcs n"
    "ec_answers ec = p # as" "p \<noteq> NULL" "p \<notin> dom (ec_heap ec)"
  shows "startElement ec n atts =
     Inr (ec\<lparr>currentElement := p, ec_answers := as,
            ec_heap := (ec_heap ec)(c \<mapsto> e\<lparr>eo_children := eo_children e @ [p]\<rparr>,
              p \<mapsto> \<lparr>eo_name = mbstowcs n, eo_attributes = read_attributes atts, eo_data = [], eo_children = [],
                     eo_parent = c, eo_hasParent = True\<rparr>)\<rparr>)"
proof -
  have "p \<noteq> c" using assms by auto
  then have h: "(ec_heap ec)(p \<mapsto> x, p \<mapsto> y, c \<mapsto> z, p \<mapsto> w) = (ec_heap ec)(c \<mapsto> z, p \<mapsto> w)" for x y z w
    by (auto simp: fun_eq_iff)
  with \<open>p \<noteq> c\<close> show ?thesis
    using assms by (simp add: startElement_def open_element_def create_object_def add_child_def put_object_def new_object_def Let_def)
qed

lemma startElement_root:
  assumes "currentElement ec = NULL" "ec_answers ec = p # as" "p \<noteq> NULL"
  shows "startElement ec n atts =
     Inr (ec\<lparr>currentElement := p, ec_answers := as,
            ec_heap := (ec_heap ec)(p \<mapsto> \<lparr>eo_name = mbstowcs n, eo_attributes = read_attributes atts, eo_data = [],
               eo_children = [], eo_parent = NULL, eo_hasParent = False\<rparr>)\<rparr>)"
  using assms by (simp add: startElement_def open_element_def create_object_def put_object_def new_object_def)

lemma builds_Tag:
  fixes ec :: "'s event_controller"
  assumes e: "ec_heap ec (currentElement ec) = Some e" "currentElement ec \<noteq> NULL" "eo_name e \<noteq> mbstowcs n"
    and stocked: "stocked ec (tags (Tag n as cs))"
    and content: "\<And>(ec' :: 's event_controller) e'. currentElement ec' \<noteq> NULL \<Longrightarrow> ec_heap ec' (currentElement ec') = Some e' \<Longrightarrow>
                    eo_name e' = mbstowcs n \<Longrightarrow> stocked ec' (all_tags cs) \<Longrightarrow> builds ec' e' cs"
  shows "builds ec e [Tag n as cs]"
proof -
  let ?k = "all_tags cs" and ?c = "currentElement ec"
  from stocked have "stocked ec (Suc ?k)" by simp
  then obtain p an where p: "ec_answers ec = p # an" "p \<noteq> NULL" "p \<notin> dom (ec_heap ec)" "p \<notin> set (take ?k an)"
    and an: "length (take ?k an) = ?k" "distinct (take ?k an)" "NULL \<notin> set (take ?k an)" "set (take ?k an) \<inter> dom (ec_heap ec) = {}"
    by (rule stocked_Cons)
  have pc: "p \<noteq> ?c" using p(3) e(1) by auto
  have c_fresh: "?c \<notin> set (take ?k an)" using an(4) e(1) by auto
  let ?e = "\<lparr>eo_name = mbstowcs n, eo_attributes = map (\<lambda>(a, v). attribute (mbstowcs a) (mbstowcs v)) as, eo_data = [],
             eo_children = [], eo_parent = ?c, eo_hasParent = True\<rparr>"
  let ?ec = "ec\<lparr>currentElement := p, ec_answers := an, ec_heap := (ec_heap ec)(?c \<mapsto> e\<lparr>eo_children := eo_children e @ [p]\<rparr>, p \<mapsto> ?e)\<rparr>"
  have start: "startElement ec n (map (\<lambda>(a, v). (a, Some v)) as) = Inr ?ec"
    by (simp add: startElement_child[OF refl e(2,1) e(3) p(1-3)])
  have "stocked ?ec ?k" unfolding stocked_def Let_def using an p c_fresh by auto
  then have "builds ?ec ?e cs" by (intro content) (use p in auto)
  then obtain h ps where h: "callbacks ?ec (concat (map events cs)) = Inr (?ec\<lparr>ec_heap := h, ec_answers := drop ?k an\<rparr>)"
    "h p = Some (?e\<lparr>eo_children := ps, eo_data := last_text cs []\<rparr>)"
    "all_hold (h |` set (take ?k an)) ps (concat (map element_list cs))"
    "\<And>q. q \<notin> set (take ?k an) \<Longrightarrow> q \<noteq> p \<Longrightarrow> h q = ec_heap ?ec q" "set (take ?k an) \<subseteq> dom h"
    by (auto simp: builds_def)
  have hc: "h ?c = Some (e\<lparr>eo_children := eo_children e @ [p]\<rparr>)" using h(4)[OF c_fresh] pc by auto
  have "callbacks ec (events (Tag n as cs)) = Inr (ec\<lparr>ec_heap := h, ec_answers := drop ?k an\<rparr>)"
    using start h(1,2) p(2) by (simp add: callbacks_append endElement_def)
  moreover have "all_hold (h |` set (take (Suc ?k) (p # an))) [p] (element_list (Tag n as cs))"
    using p(2) h(2) all_hold_restrict[OF h(3), of "insert p (set (take ?k an))"]
    by (auto simp: last_text_def)
  moreover have "h q = ec_heap ec q" if "q \<notin> set (take (Suc ?k) (p # an))" "q \<noteq> ?c" for q
    using h(4)[of q] that by auto
  moreover have "p \<in> dom h" using h(2) by auto
  ultimately show ?thesis
    unfolding builds_def using hc p(1) h(5)
    by (intro exI[of _ h] exI[of _ "[p]"]) (simp add: last_text_def)
qed

text \<open>The content of an element is built as the document has it.\<close>

lemma builds_content:
  fixes ec :: "'s event_controller"
  shows "ec_heap ec (currentElement ec) = Some e \<Longrightarrow> currentElement ec \<noteq> NULL \<Longrightarrow> eo_name e = mbstowcs n \<Longrightarrow>
     stocked ec (all_tags cs) \<Longrightarrow> list_all (\<lambda>c. \<not> named n c \<and> nests_well c) cs \<Longrightarrow> builds ec e cs"
proof -
  have one: "builds ec e [c]" if "ec_heap ec (currentElement ec) = Some e" "currentElement ec \<noteq> NULL" "eo_name e = mbstowcs n"
      "stocked ec (tags c)" "\<not> named n c" "nests_well c" for ec :: "'s event_controller" and e n c
    using that
  proof (induction c arbitrary: ec e n)
    case (Tag m as cs)
    have content: "builds ec' e' ds" if "set ds \<subseteq> set cs" "currentElement ec' \<noteq> NULL" "ec_heap ec' (currentElement ec') = Some e'"
        "eo_name e' = mbstowcs m" "stocked ec' (all_tags ds)" for ec' :: "'s event_controller" and e' ds
      using that
    proof (induction ds arbitrary: ec' e')
      case (Cons d ds)
      have "\<not> named m d \<and> nests_well d" using Cons.prems(1) Tag.prems(6) by (auto simp: list_all_iff)
      moreover have "stocked ec' (tags d)" by (rule stocked_first[where n = "all_tags ds"]) (use Cons.prems(5) in simp)
      ultimately have "builds ec' e' [d]"
        using Tag.IH[of d ec' e' m] Cons.prems by auto
      then have "builds ec' e' ([d] @ ds)"
        by (rule builds_append) (use Cons in auto)
      then show ?case by simp
    qed (simp add: builds_Nil)
    show ?case by (rule builds_Tag) (use Tag.prems content[OF subset_refl] in auto)
  qed (simp add: builds_Text)
  show ?thesis if "ec_heap ec (currentElement ec) = Some e" "currentElement ec \<noteq> NULL" "eo_name e = mbstowcs n"
      "stocked ec (all_tags cs)" "list_all (\<lambda>c. \<not> named n c \<and> nests_well c) cs"
    using that
  proof (induction cs arbitrary: ec e)
    case (Cons c cs)
    have "stocked ec (tags c)" by (rule stocked_first[where n = "all_tags cs"]) (use Cons.prems(4) in simp)
    then have "builds ec e [c]" using one[of ec e n c] Cons.prems by auto
    then have "builds ec e ([c] @ cs)" by (rule builds_append) (use Cons in auto)
    then show ?case by simp
  qed (simp add: builds_Nil)
qed

section \<open>Whole documents\<close>

text \<open>The root: everything up to the end tag of it.\<close>

definition slots_of :: "'s event_controller \<Rightarrow> u16 list \<Rightarrow> 's list" where
  "slots_of ec n = (case onServerEventMap ec n of Some l \<Rightarrow> l | None \<Rightarrow> [])"

lemma root_built:
  assumes current: "currentElement ec = NULL" and stocked: "stocked ec (Suc (all_tags cs))"
    and cs: "list_all (\<lambda>c. \<not> named n c \<and> nests_well c) cs"
  obtains p h ps where
    "callbacks ec (StartTag n (map (\<lambda>(a, v). (a, Some v)) as) # concat (map events cs)) =
       Inr (ec\<lparr>currentElement := p, ec_heap := h, ec_answers := drop (Suc (all_tags cs)) (ec_answers ec)\<rparr>)"
    "p \<noteq> NULL" "p \<notin> dom (ec_heap ec)" "p \<notin> set (take (all_tags cs) (tl (ec_answers ec)))"
    "ec_answers ec = p # tl (ec_answers ec)"
    "h p = Some \<lparr>eo_name = mbstowcs n, eo_attributes = map (\<lambda>(a, v). attribute (mbstowcs a) (mbstowcs v)) as,
             eo_data = last_text cs [], eo_children = ps, eo_parent = NULL, eo_hasParent = False\<rparr>"
    "all_hold h ps (concat (map element_list cs))"
    "dom h = dom (ec_heap ec) \<union> insert p (set (take (all_tags cs) (tl (ec_answers ec))))"
    "\<And>q. q \<in> dom (ec_heap ec) \<Longrightarrow> h q = ec_heap ec q"
proof -
  let ?k = "all_tags cs"
  obtain p an where p: "ec_answers ec = p # an" "p \<noteq> NULL" "p \<notin> dom (ec_heap ec)" "p \<notin> set (take ?k an)"
    and an: "length (take ?k an) = ?k" "distinct (take ?k an)" "NULL \<notin> set (take ?k an)" "set (take ?k an) \<inter> dom (ec_heap ec) = {}"
    using stocked by (rule stocked_Cons)
  let ?e = "\<lparr>eo_name = mbstowcs n, eo_attributes = map (\<lambda>(a, v). attribute (mbstowcs a) (mbstowcs v)) as, eo_data = [],
             eo_children = [], eo_parent = NULL, eo_hasParent = False\<rparr>"
  let ?ec = "ec\<lparr>currentElement := p, ec_answers := an, ec_heap := (ec_heap ec)(p \<mapsto> ?e)\<rparr>"
  have start: "startElement ec n (map (\<lambda>(a, v). (a, Some v)) as) = Inr ?ec"
    by (simp add: startElement_root[OF current p(1,2)])
  have "stocked ?ec ?k" unfolding stocked_def Let_def using an p by auto
  then have "builds ?ec ?e cs" by (intro builds_content[where n = n]) (use p cs in auto)
  then obtain h ps where h: "callbacks ?ec (concat (map events cs)) = Inr (?ec\<lparr>ec_heap := h, ec_answers := drop ?k an\<rparr>)"
    "h p = Some (?e\<lparr>eo_children := ps, eo_data := last_text cs []\<rparr>)"
    "all_hold (h |` set (take ?k an)) ps (concat (map element_list cs))"
    "\<And>q. q \<notin> set (take ?k an) \<Longrightarrow> q \<noteq> p \<Longrightarrow> h q = ec_heap ?ec q" "set (take ?k an) \<subseteq> dom h"
    by (auto simp: builds_def)
  have other: "h q = ec_heap ec q" if "q \<in> dom (ec_heap ec)" for q
    using h(4)[of q] that an(4) p(3) by auto
  have "dom h \<subseteq> dom (ec_heap ec) \<union> insert p (set (take ?k an))"
  proof
    fix q assume q: "q \<in> dom h"
    show "q \<in> dom (ec_heap ec) \<union> insert p (set (take ?k an))"
    proof (rule ccontr)
      assume "q \<notin> dom (ec_heap ec) \<union> insert p (set (take ?k an))"
      with h(4)[of q] q show False by (auto simp: dom_def)
    qed
  qed
  moreover have "dom (ec_heap ec) \<subseteq> dom h" using other by (auto simp: dom_def)
  ultimately have dom: "dom h = dom (ec_heap ec) \<union> insert p (set (take ?k an))" using h(2,5) by auto
  have hold: "all_hold h ps (concat (map element_list cs))"
    using all_hold_restrict[OF h(3) subset_UNIV] by (simp add: restrict_map_def)
  show thesis
    by (rule that[where p = p and h = h and ps = ps]) (use start h(1,2) p dom hold other in simp_all)
qed

lemma end_of_root:
  assumes "currentElement ec = p" "p \<noteq> NULL" "ec_heap ec p = Some e" "\<not> eo_hasParent e" "eo_name e \<noteq> []"
  shows "callback ec (EndTag m) =
     Inr (ec\<lparr>ec_calls := ec_calls ec @ map (\<lambda>s. \<lparr>sc_slot = s, sc_element = p, sc_heap = ec_heap ec\<rparr>) (slots_of ec (eo_name e)),
            ec_heap := (ec_heap ec)(p := None), currentElement := NULL\<rparr>)"
  using assms by (simp add: endElement_def notifyListeners_def slots_of_def Let_def)

lemma mbstowcs_Nil [simp]: "mbstowcs s = [] \<longleftrightarrow> s = []"
  by (simp add: mbstowcs_def)

lemma document_handled:
  assumes current: "currentElement ec = NULL" and stocked: "stocked ec (tags (Tag n as cs))" and n: "n \<noteq> []"
    and nests: "nests_well (Tag n as cs)"
  obtains ec' p h where "callbacks ec (events (Tag n as cs)) = Inr ec'" "currentElement ec' = NULL"
    "ec_calls ec' = ec_calls ec @ map (\<lambda>s. \<lparr>sc_slot = s, sc_element = p, sc_heap = h\<rparr>) (slots_of ec (mbstowcs n))"
    "holds h p (hd (element_list (Tag n as cs)))"
    "dom (ec_heap ec') = dom (ec_heap ec) \<union> set (take (all_tags cs) (tl (ec_answers ec)))"
    "\<And>q. q \<in> dom (ec_heap ec) \<Longrightarrow> ec_heap ec' q = ec_heap ec q"
    "onServerEventMap ec' = onServerEventMap ec" "ec_answers ec' = drop (tags (Tag n as cs)) (ec_answers ec)"
proof -
  have st: "stocked ec (Suc (all_tags cs))" using stocked by simp
  have cs: "list_all (\<lambda>c. \<not> named n c \<and> nests_well c) cs" using nests by simp
  obtain p h ps where r: "callbacks ec (StartTag n (map (\<lambda>(a, v). (a, Some v)) as) # concat (map events cs)) =
       Inr (ec\<lparr>currentElement := p, ec_heap := h, ec_answers := drop (Suc (all_tags cs)) (ec_answers ec)\<rparr>)"
    "p \<noteq> NULL" "p \<notin> dom (ec_heap ec)" "p \<notin> set (take (all_tags cs) (tl (ec_answers ec)))"
    "h p = Some \<lparr>eo_name = mbstowcs n, eo_attributes = map (\<lambda>(a, v). attribute (mbstowcs a) (mbstowcs v)) as,
             eo_data = last_text cs [], eo_children = ps, eo_parent = NULL, eo_hasParent = False\<rparr>"
    "all_hold h ps (concat (map element_list cs))"
    "dom h = dom (ec_heap ec) \<union> insert p (set (take (all_tags cs) (tl (ec_answers ec))))"
    "\<And>q. q \<in> dom (ec_heap ec) \<Longrightarrow> h q = ec_heap ec q"
    by (rule root_built[OF current st cs]) blast
  let ?m = "ec\<lparr>currentElement := p, ec_heap := h, ec_answers := drop (Suc (all_tags cs)) (ec_answers ec)\<rparr>"
  let ?ec = "?m\<lparr>ec_calls := ec_calls ec @ map (\<lambda>s. \<lparr>sc_slot = s, sc_element = p, sc_heap = h\<rparr>) (slots_of ec (mbstowcs n)),
            ec_heap := h(p := None), currentElement := NULL\<rparr>"
  have "callback ?m (EndTag n) = Inr ?ec"
    using end_of_root[of ?m p, OF _ r(2), of _ n] r(5) n by (simp add: slots_of_def del: callback.simps)
  then have "callbacks ec (events (Tag n as cs)) = Inr ?ec"
    using callbacks_append[of ec "StartTag n (map (\<lambda>(a, v). (a, Some v)) as) # concat (map events cs)" "[EndTag n]"] r(1) by simp
  moreover have "holds h p (hd (element_list (Tag n as cs)))" using r(2,5,6) by (simp add: last_text_def)
  moreover have "dom (h(p := None)) = dom (ec_heap ec) \<union> set (take (all_tags cs) (tl (ec_answers ec)))"
    using r(3,4,7) by auto
  moreover have "\<And>q. q \<in> dom (ec_heap ec) \<Longrightarrow> (h(p := None)) q = ec_heap ec q" using r(3,8) by auto
  ultimately show thesis by (intro that[where ec' = ?ec and p = p and h = h]) simp_all
qed

text \<open>
  C27: A document that arrives whole, with no tag directly inside one of the same name, is handed
  to every slot connected for its name, once and in the order of connection, as the element it
  describes (of the pieces of a text only the last one); then the controller is ready for the
  next document.
\<close>

theorem document_delivered:
  assumes "currentElement ec = NULL" "parse d = events (Tag n as cs)" "n \<noteq> []" "nests_well (Tag n as cs)"
    "stocked ec (tags (Tag n as cs))"
  shows "\<exists>ec' p h. receiveServerEvent parse ec d = Inr ec' \<and> currentElement ec' = NULL \<and>
     ec_calls ec' = ec_calls ec @ map (\<lambda>s. \<lparr>sc_slot = s, sc_element = p, sc_heap = h\<rparr>) (slots_of ec (mbstowcs n)) \<and>
     holds h p (hd (element_list (Tag n as cs)))"
proof -
  obtain ec' p h where "callbacks ec (events (Tag n as cs)) = Inr ec'" "currentElement ec' = NULL"
    "ec_calls ec' = ec_calls ec @ map (\<lambda>s. \<lparr>sc_slot = s, sc_element = p, sc_heap = h\<rparr>) (slots_of ec (mbstowcs n))"
    "holds h p (hd (element_list (Tag n as cs)))"
    by (rule document_handled[OF assms(1,5,3,4)]) blast
  then show ?thesis using assms(2) by (auto simp: receiveServerEvent_def simp del: events.simps)
qed

definition example_controller :: "nat event_controller" where
  "example_controller = \<lparr>currentElement = NULL, ec_heap = Map.empty, ec_answers = [16, 32, 48],
     onServerEventMap = [[0x76] \<mapsto> [7, 8]], ec_calls = []\<rparr>"

definition example_xml :: xml where
  "example_xml = Tag [0x76] [([0x61], [0x31])] [Text [0x0A], Tag [0x69] [] [Text [0x78]], Text [0x20]]"

theorem document_delivered_witness:
  "\<exists>ec' p h. receiveServerEvent (\<lambda>_. events example_xml) example_controller [] = Inr ec' \<and> currentElement ec' = NULL \<and>
     ec_calls ec' = [\<lparr>sc_slot = 7, sc_element = p, sc_heap = h\<rparr>, \<lparr>sc_slot = 8, sc_element = p, sc_heap = h\<rparr>] \<and>
     holds h p (Elem [0x76] [attribute [0x61] [0x31]] [0x20] [Elem [0x69] [] [0x78] []])"
  using document_delivered[of example_controller "\<lambda>_. events example_xml" "[]" "[0x76]" "[([0x61], [0x31])]"
      "[Text [0x0A], Tag [0x69] [] [Text [0x78]], Text [0x20]]"]
  by (simp add: example_controller_def example_xml_def stocked_def slots_of_def mbstowcs_def del: holds.simps)

text \<open>
  Deleting the root does not delete its children: every document leaves all its elements but
  the root allocated for ever.
\<close>

theorem document_leaks_children:
  assumes "currentElement ec = NULL" "parse d = events (Tag n as cs)" "n \<noteq> []" "nests_well (Tag n as cs)"
    "stocked ec (tags (Tag n as cs))" "finite (dom (ec_heap ec))"
  shows "\<exists>ec'. receiveServerEvent parse ec d = Inr ec' \<and> currentElement ec' = NULL \<and>
     card (dom (ec_heap ec')) = card (dom (ec_heap ec)) + sum_list (map tags cs)"
proof -
  obtain ec' where ec': "callbacks ec (events (Tag n as cs)) = Inr ec'" "currentElement ec' = NULL"
    "dom (ec_heap ec') = dom (ec_heap ec) \<union> set (take (all_tags cs) (tl (ec_answers ec)))"
    by (rule document_handled[OF assms(1,5,3,4)]) blast
  have "stocked ec (Suc (all_tags cs))" using assms(5) by simp
  then obtain p an where "ec_answers ec = p # an" "length (take (all_tags cs) an) = all_tags cs" "distinct (take (all_tags cs) an)"
    "set (take (all_tags cs) an) \<inter> dom (ec_heap ec) = {}" by (rule stocked_Cons)
  then have "card (dom (ec_heap ec')) = card (dom (ec_heap ec)) + all_tags cs"
    using ec'(3) assms(6) by (subst ec'(3)) (auto simp: card_Un_disjoint distinct_card Int_commute)
  then show ?thesis using ec' assms(2) by (auto simp: receiveServerEvent_def simp del: events.simps)
qed

theorem document_leaks_children_witness:
  "\<exists>ec'. receiveServerEvent (\<lambda>_. events example_xml) example_controller [] = Inr ec' \<and> currentElement ec' = NULL \<and>
     card (dom (ec_heap ec')) = 1"
  using document_leaks_children[of example_controller "\<lambda>_. events example_xml" "[]" "[0x76]" "[([0x61], [0x31])]"
      "[Text [0x0A], Tag [0x69] [] [Text [0x78]], Text [0x20]]"]
  by (simp add: example_controller_def example_xml_def stocked_def)

text \<open>
  A tag directly inside the root and of the same name is taken for the root itself; at its
  end the document is handed on and deleted, and the end of the root follows the null pointer.
\<close>

theorem same_name_child_faults:
  assumes "currentElement ec = NULL" "parse d = events (Tag n as [Tag n bs cs])" "n \<noteq> []"
    "list_all (\<lambda>c. \<not> named n c \<and> nests_well c) cs" "stocked ec (Suc (sum_list (map tags cs)))"
  shows "receiveServerEvent parse ec d = Inl NullDeref"
proof -
  let ?k = "all_tags cs" and ?some = "map (\<lambda>(a, v). (a, Some v))"
  let ?att = "map (\<lambda>(a, v). attribute (mbstowcs a) (mbstowcs v))"
  obtain p an where p: "ec_answers ec = p # an" "p \<noteq> NULL" "p \<notin> dom (ec_heap ec)" "p \<notin> set (take ?k an)"
    and an: "length (take ?k an) = ?k" "distinct (take ?k an)" "NULL \<notin> set (take ?k an)" "set (take ?k an) \<inter> dom (ec_heap ec) = {}"
    using assms(5) by (rule stocked_Cons)
  let ?e = "\<lparr>eo_name = mbstowcs n, eo_attributes = ?att as @ ?att bs, eo_data = [],
             eo_children = [], eo_parent = NULL, eo_hasParent = False\<rparr>"
  let ?ec = "ec\<lparr>currentElement := p, ec_answers := an, ec_heap := (ec_heap ec)(p \<mapsto> ?e)\<rparr>"
  have start: "callbacks ec [StartTag n (?some as), StartTag n (?some bs)] = Inr ?ec"
    using startElement_root[OF assms(1) p(1,2), of n "?some as"] p(2)
    by (simp add: startElement_def open_element_def put_object_def)
  have "stocked ?ec ?k" unfolding stocked_def Let_def using an p by auto
  then have "builds ?ec ?e cs" by (intro builds_content[where n = n]) (use p assms(4) in auto)
  then obtain h ps where h: "callbacks ?ec (concat (map events cs)) = Inr (?ec\<lparr>ec_heap := h, ec_answers := drop ?k an\<rparr>)"
    "h p = Some (?e\<lparr>eo_children := ps, eo_data := last_text cs []\<rparr>)"
    by (auto simp: builds_def)
  let ?m = "?ec\<lparr>ec_heap := h, ec_answers := drop ?k an\<rparr>"
  have "callback ?m (EndTag n) = Inr (?m\<lparr>ec_calls := ec_calls ?m @ map (\<lambda>s. \<lparr>sc_slot = s, sc_element = p, sc_heap = h\<rparr>)
      (slots_of ?m (mbstowcs n)), ec_heap := h(p := None), currentElement := NULL\<rparr>)"
    using end_of_root[of ?m p, OF _ p(2), of _ n] h(2) assms(3) by (simp add: slots_of_def del: callback.simps)
  then have "callbacks ?m [EndTag n, EndTag n] = Inl NullDeref" by (simp add: endElement_def)
  moreover have "parse d = [StartTag n (?some as), StartTag n (?some bs)] @ concat (map events cs) @ [EndTag n, EndTag n]"
    using assms(2) by simp
  ultimately show ?thesis
    unfolding receiveServerEvent_def by (simp only: callbacks_append start h(1) fbind_Inr)
qed

theorem same_name_child_faults_witness:
  "receiveServerEvent (\<lambda>_. events (Tag [0x76] [] [Tag [0x76] [] [Text [0x78]]])) example_controller [] = Inl NullDeref"
  by (rule same_name_child_faults[where n = "[0x76]" and as = "[]" and bs = "[]" and cs = "[Text [0x78]]"])
     (simp_all add: example_controller_def stocked_def)

section \<open>A document that breaks off\<close>

fun receive_all :: "(u8 list \<Rightarrow> sax list) \<Rightarrow> 's event_controller \<Rightarrow> u8 list list \<Rightarrow> fault + 's event_controller" where
  "receive_all parse ec [] = Inr ec"
| "receive_all parse ec (d # ds) = fbind (receiveServerEvent parse ec d) (\<lambda>ec. receive_all parse ec ds)"

text \<open>A whole document with a root of another name, and how many elements it has.\<close>

definition whole_document :: "(u8 list \<Rightarrow> sax list) \<Rightarrow> u16 list \<Rightarrow> u8 list \<Rightarrow> nat \<Rightarrow> bool" where
  "whole_document parse m d k \<longleftrightarrow>
     (\<exists>n as cs. parse d = events (Tag n as cs) \<and> mbstowcs n \<noteq> m \<and> nests_well (Tag n as cs) \<and> k = tags (Tag n as cs))"

lemma receive_swallows:
  fixes ec :: "'s event_controller"
  shows "list_all2 (whole_document parse m) ds ks \<Longrightarrow> currentElement ec \<noteq> NULL \<Longrightarrow> ec_heap ec (currentElement ec) = Some e \<Longrightarrow>
     eo_name e = m \<Longrightarrow> stocked ec (sum_list ks) \<Longrightarrow>
     \<exists>ec'. receive_all parse ec ds = Inr ec' \<and> ec_calls ec' = ec_calls ec \<and> currentElement ec' = currentElement ec"
proof (induction ds ks arbitrary: ec e rule: list_all2_induct)
  case (Cons d ds k ks)
  from Cons.hyps(1) obtain n as cs where d: "parse d = events (Tag n as cs)" "mbstowcs n \<noteq> m" "nests_well (Tag n as cs)"
    "k = tags (Tag n as cs)" by (auto simp: whole_document_def)
  have st: "stocked ec (all_tags [Tag n as cs])" by (rule stocked_first[where n = "sum_list ks"]) (use Cons.prems(4) d(4) in simp)
  have "builds ec e [Tag n as cs]"
    by (rule builds_Tag) (use Cons.prems d st in \<open>auto intro: builds_content\<close>)
  moreover have k: "all_tags [Tag n as cs] = k" "concat (map events [Tag n as cs]) = events (Tag n as cs)" using d(4) by simp_all
  ultimately obtain h ps where h: "callbacks ec (events (Tag n as cs)) = Inr (ec\<lparr>ec_heap := h, ec_answers := drop k (ec_answers ec)\<rparr>)"
    "h (currentElement ec) = Some (e\<lparr>eo_children := eo_children e @ ps, eo_data := last_text [Tag n as cs] (eo_data e)\<rparr>)"
    "\<And>q. q \<notin> set (take k (ec_answers ec)) \<Longrightarrow> q \<noteq> currentElement ec \<Longrightarrow> h q = ec_heap ec q"
    unfolding builds_def k by blast
  let ?ec = "ec\<lparr>ec_heap := h, ec_answers := drop k (ec_answers ec)\<rparr>"
  have "dom h \<subseteq> dom (ec_heap ec) \<union> set (take k (ec_answers ec))"
    using h(3) Cons.prems(2) by (rule dom_agree)
  then have "stocked ?ec (sum_list ks)"
    using stocked_rest[of ec k "sum_list ks" ?ec] Cons.prems(4) by simp
  then obtain ec' where "receive_all parse ?ec ds = Inr ec'" "ec_calls ec' = ec_calls ?ec" "currentElement ec' = currentElement ?ec"
    using Cons.IH[of ?ec] h(2) Cons.prems by auto
  then show ?case using h(1) d(1) by (simp add: receiveServerEvent_def del: events.simps)
qed simp

text \<open>
  After a document that breaks off inside its root the controller takes every later document
  for a part of it: none of them reaches a slot, however many there are, as long as none has the
  name of the one that broke off.
\<close>

theorem broken_document_silences:
  fixes ec :: "'s event_controller"
  assumes "currentElement ec = NULL" "parse d = StartTag n (map (\<lambda>(a, v). (a, Some v)) as) # concat (map events cs)"
    "list_all (\<lambda>c. \<not> named n c \<and> nests_well c) cs"
    "list_all2 (whole_document parse (mbstowcs n)) ds ks" "stocked ec (Suc (sum_list (map tags cs)) + sum_list ks)"
  shows "\<exists>ec'. receive_all parse ec (d # ds) = Inr ec' \<and> ec_calls ec' = ec_calls ec \<and> currentElement ec' \<noteq> NULL"
proof -
  have st: "stocked ec (Suc (all_tags cs))" by (rule stocked_first[where n = "sum_list ks"]) (use assms(5) in simp)
  obtain p h ps where r: "callbacks ec (parse d) =
       Inr (ec\<lparr>currentElement := p, ec_heap := h, ec_answers := drop (Suc (all_tags cs)) (ec_answers ec)\<rparr>)"
    "p \<noteq> NULL" "h p = Some \<lparr>eo_name = mbstowcs n, eo_attributes = map (\<lambda>(a, v). attribute (mbstowcs a) (mbstowcs v)) as,
             eo_data = last_text cs [], eo_children = ps, eo_parent = NULL, eo_hasParent = False\<rparr>"
    "dom h = dom (ec_heap ec) \<union> insert p (set (take (all_tags cs) (tl (ec_answers ec))))"
    "ec_answers ec = p # tl (ec_answers ec)"
    unfolding assms(2) by (rule root_built[OF assms(1) st assms(3), of as]) blast
  let ?ec = "ec\<lparr>currentElement := p, ec_heap := h, ec_answers := drop (Suc (all_tags cs)) (ec_answers ec)\<rparr>"
  have "take (Suc (all_tags cs)) (ec_answers ec) = p # take (all_tags cs) (tl (ec_answers ec))" using r(5) by (metis take_Suc_Cons)
  then have "stocked ?ec (sum_list ks)"
    using stocked_rest[OF assms(5), of ?ec] r(4) by auto
  then obtain ec' where "receive_all parse ?ec ds = Inr ec'" "ec_calls ec' = ec_calls ec" "currentElement ec' = p"
    using receive_swallows[OF assms(4), of ?ec] r(2,3) by auto
  then show ?thesis using r(1,2) by (simp add: receiveServerEvent_def)
qed

definition example_parse :: "u8 list \<Rightarrow> sax list" where
  "example_parse d = (if d = [] then [StartTag [0x77] []] else events example_xml)"

theorem broken_document_silences_witness:
  "\<exists>ec'. receive_all example_parse example_controller [[], [1]] = Inr ec' \<and> ec_calls ec' = [] \<and> currentElement ec' \<noteq> NULL"
proof -
  have "whole_document example_parse (mbstowcs [0x77]) [1] 2"
    unfolding whole_document_def
    by (rule exI[of _ "[0x76]"], rule exI[of _ "[([0x61], [0x31])]"],
        rule exI[of _ "[Text [0x0A], Tag [0x69] [] [Text [0x78]], Text [0x20]]"])
       (simp add: example_parse_def example_xml_def)
  then show ?thesis
    using broken_document_silences[of example_controller example_parse "[]" "[0x77]" "[]" "[]" "[[1]]" "[2]"]
    by (simp add: example_controller_def stocked_def example_parse_def)
qed

section \<open>Many documents\<close>

definition delivered :: "(u8 list \<Rightarrow> sax list) \<Rightarrow> u8 list \<Rightarrow> u16 list \<times> nat \<Rightarrow> bool" where
  "delivered parse d nk \<longleftrightarrow>
     (\<exists>n as cs. parse d = events (Tag n as cs) \<and> n \<noteq> [] \<and> nests_well (Tag n as cs) \<and> nk = (mbstowcs n, tags (Tag n as cs)))"

lemma receive_all_delivers:
  fixes ec :: "'s event_controller"
  shows "list_all2 (delivered parse) ds nks \<Longrightarrow> currentElement ec = NULL \<Longrightarrow> stocked ec (sum_list (map snd nks)) \<Longrightarrow>
     \<exists>ec' calls. receive_all parse ec ds = Inr ec' \<and> currentElement ec' = NULL \<and> ec_calls ec' = ec_calls ec @ calls \<and>
       map sc_slot calls = concat (map (\<lambda>(n, k). slots_of ec n) nks)"
proof (induction ds nks arbitrary: ec rule: list_all2_induct)
  case (Cons d ds nk nks)
  from Cons.hyps(1) obtain n as cs where d: "parse d = events (Tag n as cs)" "n \<noteq> []" "nests_well (Tag n as cs)"
    "nk = (mbstowcs n, tags (Tag n as cs))" by (auto simp: delivered_def)
  let ?k = "tags (Tag n as cs)"
  have all: "stocked ec (?k + sum_list (map snd nks))" using Cons.prems(2) d(4) by simp
  obtain ec1 p h where ec1: "callbacks ec (events (Tag n as cs)) = Inr ec1" "currentElement ec1 = NULL"
    "ec_calls ec1 = ec_calls ec @ map (\<lambda>s. \<lparr>sc_slot = s, sc_element = p, sc_heap = h\<rparr>) (slots_of ec (mbstowcs n))"
    "dom (ec_heap ec1) = dom (ec_heap ec) \<union> set (take (all_tags cs) (tl (ec_answers ec)))"
    "onServerEventMap ec1 = onServerEventMap ec" "ec_answers ec1 = drop ?k (ec_answers ec)"
    by (rule document_handled[OF Cons.prems(1) stocked_first[OF all] d(2,3)]) blast
  have "set (take (all_tags cs) (tl (ec_answers ec))) \<subseteq> set (take ?k (ec_answers ec))" by (cases "ec_answers ec") auto
  then have "stocked ec1 (sum_list (map snd nks))" using stocked_rest[OF all ec1(6)] ec1(4) by auto
  then obtain ec2 calls where "receive_all parse ec1 ds = Inr ec2" "currentElement ec2 = NULL" "ec_calls ec2 = ec_calls ec1 @ calls"
    "map sc_slot calls = concat (map (\<lambda>(n, k). slots_of ec1 n) nks)"
    using Cons.IH[OF ec1(2)] by auto
  then show ?case using ec1(1,3,5) d(1,4)
    by (intro exI[of _ ec2] exI[of _ "map (\<lambda>s. \<lparr>sc_slot = s, sc_element = p, sc_heap = h\<rparr>) (slots_of ec (mbstowcs n)) @ calls"])
       (simp add: receiveServerEvent_def slots_of_def comp_def del: events.simps)
qed simp

end
