(* ===== verification/ServerLink.thy ===== *)
theory ServerLink
  imports EventController
begin

text \<open>
  Server.cpp and ServerReceive.cpp of the client: the connection to the server, the messages
  that go out over it and the thread that cuts what comes in into documents for the event
  controller. Windows sockets and the conversion to UTF-8 answer through arguments.
\<close>

section \<open>State\<close>

record server =
  sv_connected :: bool
  sv_reconnecting :: bool
  sv_receiving :: bool
  sv_wire :: "u8 list"
  sv_statuses :: "bool list"

definition new_server :: server where
  "new_server = \<lparr>sv_connected = False, sv_reconnecting = False, sv_receiving = False, sv_wire = [], sv_statuses = []\<rparr>"

definition setConnected :: "server \<Rightarrow> bool \<Rightarrow> server" where
  "setConnected sv c = sv\<lparr>sv_connected := c, sv_statuses := sv_statuses sv @ [c]\<rparr>"

definition disconnectFromServer :: "server \<Rightarrow> server" where
  "disconnectFromServer sv = (if sv_connected sv then setConnected sv False else sv)"

section \<open>Connecting\<close>

text \<open>
  What Windows answers: whether WSAStartup succeeds and with which version, whether the address
  is resolved, and what becomes of each try to connect.
\<close>

record connect_env =
  ce_startup :: bool
  ce_version_low :: u8
  ce_version_high :: u8
  ce_resolved :: bool
  ce_tries :: "bool list"

definition initialiseWinsock2 :: "connect_env \<Rightarrow> bool" where
  "initialiseWinsock2 env \<longleftrightarrow> ce_startup env \<and> (ce_version_low env = 2 \<or> ce_version_high env = 0)"

text \<open>The loop of at most ten tries; a try that is not answered for has failed.\<close>

fun try_connect :: "nat \<Rightarrow> bool list \<Rightarrow> bool" where
  "try_connect 0 ts = False"
| "try_connect (Suc n) [] = False"
| "try_connect (Suc n) (t # ts) = (t \<or> try_connect n ts)"

definition connectToServer :: "connect_env \<Rightarrow> bool \<Rightarrow> server \<Rightarrow> bool \<times> server" where
  "connectToServer env startSenderAndReceiver sv =
     (if initialiseWinsock2 env \<and> ce_resolved env \<and> try_connect 10 (ce_tries env) then
        let sv = setConnected sv True
        in (True, if startSenderAndReceiver then sv\<lparr>sv_receiving := True\<rparr> else sv)
      else (False, setConnected sv False))"

definition reconnect :: "connect_env \<Rightarrow> server \<Rightarrow> server" where
  "reconnect env sv =
     (let sv = disconnectFromServer (sv\<lparr>sv_reconnecting := True\<rparr>);
          sv = snd (connectToServer env False sv)
      in sv\<lparr>sv_connected := True\<rparr>)"

lemma try_connect_iff: "try_connect n ts \<longleftrightarrow> True \<in> set (take n ts)"
  by (induction n ts rule: try_connect.induct) auto

section \<open>Sending\<close>

text \<open>The result of send: None is SOCKET_ERROR, otherwise how many bytes it took.\<close>

definition put_bytes :: "nat option \<Rightarrow> u8 list \<Rightarrow> server \<Rightarrow> server" where
  "put_bytes result bytes sv =
     (case result of
        None \<Rightarrow> setConnected sv False
      | Some n \<Rightarrow> sv\<lparr>sv_wire := sv_wire sv @ take n bytes\<rparr>)"

definition sendMessage :: "(u16 list \<Rightarrow> u8 list) \<Rightarrow> nat option \<Rightarrow> u16 list \<Rightarrow> server \<Rightarrow> server" where
  "sendMessage utf8 result message sv =
     (if sv_connected sv then if utf8 message \<noteq> [] then put_bytes result (utf8 message) sv else sv else sv)"

definition sendData :: "nat option \<Rightarrow> u8 list \<Rightarrow> server \<Rightarrow> server" where
  "sendData result d sv = (if sv_connected sv then put_bytes result d sv else sv)"

definition sendElement :: "(u16 list \<Rightarrow> u8 list) \<Rightarrow> nat option \<Rightarrow> Element \<Rightarrow> server \<Rightarrow> server" where
  "sendElement utf8 result e sv = (if \<not> sv_connected sv then sv else sendMessage utf8 result (toString e) sv)"

definition xml_document :: "u16 list \<Rightarrow> Attribute list \<Rightarrow> u16 list" where
  "xml_document elementName vAttributes =
     wide ''<'' @ elementName @
     concat (map (\<lambda>a. wide '' '' @ at_name a @ wide ''='' @ [0x22] @ xml_escape (at_value a) @ [0x22]) vAttributes) @
     wide ''/>'' @ [0x0D, 0x0A]"

definition sendXML :: "(u16 list \<Rightarrow> u8 list) \<Rightarrow> nat option \<Rightarrow> u16 list \<Rightarrow> Attribute list \<Rightarrow> server \<Rightarrow> server" where
  "sendXML utf8 result elementName vAttributes sv =
     (if \<not> sv_connected sv then sv else sendMessage utf8 result (xml_document elementName vAttributes) sv)"

text \<open>The handlers of CaptureClient.cpp for the documents connect and ping.\<close>

definition onServerConnectEvent :: "(u16 list \<Rightarrow> u8 list) \<Rightarrow> nat option \<Rightarrow> u16 list \<Rightarrow> u16 list \<Rightarrow> Element \<Rightarrow> server \<Rightarrow> server" where
  "onServerConnectEvent utf8 result vmServerId vmId e sv =
     (if el_name e = wide ''connect'' then
        sendXML utf8 result (if sv_reconnecting sv then wide ''reconnect'' else wide ''connect'')
          [attribute (wide ''vm-server-id'') vmServerId, attribute (wide ''vm-id'') vmId] sv
      else sv)"

definition onServerPingEvent :: "(u16 list \<Rightarrow> u8 list) \<Rightarrow> nat option \<Rightarrow> Element \<Rightarrow> server \<Rightarrow> server" where
  "onServerPingEvent utf8 result e sv =
     (if el_name e = wide ''ping'' then sendXML utf8 result (wide ''pong'') [] sv else sv)"

section \<open>Receiving\<close>

text \<open>A document grows by what comes in and ends with a NUL byte.\<close>

fun split_documents :: "u8 list \<Rightarrow> u8 list \<Rightarrow> u8 list list \<times> u8 list" where
  "split_documents xmlDocument [] = ([], xmlDocument)"
| "split_documents xmlDocument (b # bs) =
     (if b \<noteq> 0 then split_documents (xmlDocument @ [b]) bs
      else case split_documents [] bs of (ds, rest) \<Rightarrow> (xmlDocument # ds, rest))"

text \<open>
  One turn of the thread: whether it is still running, whether the server is taken for connected
  when the outer loop asks, and what recv returns.
\<close>

datatype recv_answer = Received "u8 list" | RecvFailed

record receive_turn =
  rt_running :: bool
  rt_connected :: bool
  rt_recv :: recv_answer

record received =
  rc_documents :: "u8 list list"
  rc_reconnects :: nat
  rc_stopped :: bool

text \<open>
  The thread before its outer loop (None) or in its inner loop with the document so far (Some).
  When the turns are used up it waits in recv.
\<close>

fun run_receiver :: "u8 list option \<Rightarrow> receive_turn list \<Rightarrow> received" where
  "run_receiver inner [] = \<lparr>rc_documents = [], rc_reconnects = 0, rc_stopped = False\<rparr>"
| "run_receiver inner (t # ts) =
     (if rt_running t \<and> (inner \<noteq> None \<or> rt_connected t) then
        let xmlDocument = (case inner of Some d \<Rightarrow> d | None \<Rightarrow> []) in
        case rt_recv t of
          Received buffer \<Rightarrow>
            if 2 < length buffer then
              let (ds, d) = split_documents xmlDocument buffer;
                  r = run_receiver (Some d) ts
              in r\<lparr>rc_documents := ds @ rc_documents r\<rparr>
            else run_receiver None ts
        | RecvFailed \<Rightarrow>
            let r = run_receiver None ts in r\<lparr>rc_reconnects := Suc (rc_reconnects r)\<rparr>
      else \<lparr>rc_documents = [], rc_reconnects = 0, rc_stopped = True\<rparr>)"

lemma split_documents_append:
  "split_documents d (xs @ ys) =
     (case split_documents d xs of (ds, d') \<Rightarrow> case split_documents d' ys of (es, d'') \<Rightarrow> (ds @ es, d''))"
  by (induction d xs rule: split_documents.induct) (auto split: prod.splits)

lemma split_documents_plain: "0 \<notin> set bs \<Longrightarrow> split_documents d bs = ([], d @ bs)"
  by (induction bs arbitrary: d) auto

lemma split_documents_all:
  "\<forall>d \<in> set ds. 0 \<notin> set d \<Longrightarrow> split_documents [] (concat (map (\<lambda>d. d @ [0]) ds)) = (ds, [])"
proof (induction ds)
  case (Cons d ds)
  then show ?case by (simp add: split_documents_append split_documents_plain)
qed simp

definition good_turn :: "receive_turn \<Rightarrow> u8 list \<Rightarrow> bool" where
  "good_turn t bs \<longleftrightarrow> rt_running t \<and> rt_connected t \<and> rt_recv t = Received bs \<and> 2 < length bs"

lemma run_receiver_good:
  "list_all2 good_turn ts bss \<Longrightarrow>
     rc_documents (run_receiver (Some d) ts) = fst (split_documents d (concat bss)) \<and>
     rc_documents (run_receiver None ts) = fst (split_documents [] (concat bss))"
proof (induction ts bss arbitrary: d rule: list_all2_induct)
  case (Cons t ts bs bss)
  obtain ds e where "split_documents d bs = (ds, e)" by fastforce
  moreover obtain ds' e' where "split_documents [] bs = (ds', e')" by fastforce
  ultimately show ?case using Cons.hyps(1) Cons.IH[of e] Cons.IH[of e']
    by (simp add: good_turn_def split_documents_append split: prod.splits)
qed simp

text \<open>Whether the turns so far have kept the thread going, and what it is in the middle of.\<close>

lemma run_receiver_short:
  assumes "rt_running t" "rt_connected t" "rt_recv t = Received bs" "length bs \<le> 2"
  shows "run_receiver inner (t # us) = run_receiver None us"
  using assms by auto

lemma run_receiver_append_short:
  assumes t: "rt_running t" "rt_connected t" "rt_recv t = Received bs" "length bs \<le> 2"
    and ts: "list_all2 good_turn ts bss"
  shows "rc_documents (run_receiver inner (ts @ t # us)) =
     rc_documents (run_receiver inner ts) @ rc_documents (run_receiver None us)"
  using ts
proof (induction ts bss arbitrary: inner rule: list_all2_induct)
  case Nil
  then show ?case using run_receiver_short[OF t] by simp
next
  case (Cons x ts xs bss)
  then show ?case by (auto simp: good_turn_def Let_def split: prod.splits option.splits)
qed

text \<open>
  However the stream of the server is cut into pieces, as long as each has more than two
  bytes the event controller is given exactly its documents, in order.
\<close>

theorem receiver_reassembles:
  assumes "list_all2 good_turn ts bss" "concat bss = concat (map (\<lambda>d. d @ [0]) ds)" "\<forall>d \<in> set ds. 0 \<notin> set d"
  shows "rc_documents (run_receiver None ts) = ds"
  using run_receiver_good[OF assms(1)] assms(2,3) by (simp add: split_documents_all)

definition example_turn :: "u8 list \<Rightarrow> receive_turn" where
  "example_turn bs = \<lparr>rt_running = True, rt_connected = True, rt_recv = Received bs\<rparr>"

theorem receiver_reassembles_witness:
  "rc_documents (run_receiver None (map example_turn [[65, 66, 67], [0, 68, 69, 70], [71, 0, 72, 0]])) = [[65, 66, 67], [68, 69, 70, 71], [72]]"
  by (rule receiver_reassembles[where bss = "[[65, 66, 67], [0, 68, 69, 70], [71, 0, 72, 0]]"])
     (simp_all add: example_turn_def good_turn_def)

text \<open>
  A piece of one or two bytes is thrown away, and so is the document it belongs to as far as
  it has come in; what follows is taken for the beginning of a document.
\<close>

theorem short_read_loses_document:
  assumes "list_all2 good_turn ts bss" "rt_running t" "rt_connected t" "rt_recv t = Received bs" "length bs \<le> 2"
    "list_all2 good_turn us css"
  shows "rc_documents (run_receiver None (ts @ t # us)) =
     fst (split_documents [] (concat bss)) @ fst (split_documents [] (concat css))"
  using run_receiver_append_short[OF assms(2-5,1)] run_receiver_good[OF assms(1)] run_receiver_good[OF assms(6)] by simp

theorem short_read_loses_document_witness:
  "rc_documents (run_receiver None (map example_turn [[60, 97, 47], [62, 0], [60, 98, 47, 62, 0]])) = [[60, 98, 47, 62]]"
  using short_read_loses_document[of "[example_turn [60, 97, 47]]" "[[60, 97, 47]]" "example_turn [62, 0]" "[62, 0]"
      "[example_turn [60, 98, 47, 62, 0]]" "[[60, 98, 47, 62, 0]]"]
  by (simp add: example_turn_def good_turn_def)



text \<open>
  When the server closes the connection in an orderly way recv returns nothing, again and
  again: the thread neither stops nor connects again, however long it goes on.
\<close>

theorem closed_connection_unnoticed:
  "run_receiver None (map example_turn (replicate n [])) = \<lparr>rc_documents = [], rc_reconnects = 0, rc_stopped = False\<rparr>"
  by (induction n) (simp_all add: example_turn_def)

text \<open>
  After a failed reconnect the client takes itself for connected, although the last thing it
  told those who listen for the state of the connection is that it is not.
\<close>

lemma connectToServer_fails:
  "\<not> initialiseWinsock2 env \<or> \<not> ce_resolved env \<or> True \<notin> set (take 10 (ce_tries env)) \<Longrightarrow>
     connectToServer env b sv = (False, setConnected sv False)"
  by (auto simp: connectToServer_def try_connect_iff)

theorem reconnect_pretends:
  assumes "True \<notin> set (take 10 (ce_tries env))"
  shows "sv_connected (reconnect env sv) \<and> last (sv_statuses (reconnect env sv)) = False \<and> sv_statuses (reconnect env sv) \<noteq> []"
  using connectToServer_fails[of env False] assms by (simp add: reconnect_def Let_def setConnected_def)

theorem reconnect_pretends_witness:
  "sv_connected (reconnect \<lparr>ce_startup = True, ce_version_low = 2, ce_version_high = 0, ce_resolved = True, ce_tries = [False]\<rparr> new_server)"
  using reconnect_pretends[of "\<lparr>ce_startup = True, ce_version_low = 2, ce_version_high = 0, ce_resolved = True, ce_tries = [False]\<rparr>" new_server]
  by simp

text \<open>
  Behind enough ampersands any text of a value goes out as it is, and with it the quotes and
  the angle brackets that end the attribute and begin other elements.
\<close>

theorem sendXML_lets_through:
  assumes "length t \<le> 4 * n"
  shows "\<exists>p. xml_document m [attribute a (replicate n 0x26 @ t)] = p @ t @ [0x22] @ wide ''/>'' @ [0x0D, 0x0A]"
proof -
  have "n + length t \<le> 5 * n" using assms by simp
  then obtain p where "xml_escape (replicate n 0x26 @ t) = p @ t"
    using escape_upto_ampersands[of "n + length t" n t] by (auto simp: xml_escape_upto)
  then show ?thesis
    by (intro exI[of _ "wide ''<'' @ m @ wide '' '' @ a @ wide ''='' @ [0x22] @ p"]) (simp add: xml_document_def attribute_def)
qed

theorem sendXML_lets_through_witness:
  "\<exists>p. xml_document [0x61] [attribute [0x62] ([0x26] @ [0x22, 0x2F, 0x3E])] = p @ [0x22, 0x2F, 0x3E] @ [0x22] @ wide ''/>'' @ [0x0D, 0x0A]"
  using sendXML_lets_through[of "[0x22, 0x2F, 0x3E]" 1 "[0x61]" "[0x62]"] by simp

end
