(* ===== verification/UrlCode.thy ===== *)
theory UrlCode
  imports XmlElement
begin

text \<open>
  Url.cpp of the client: how the address of a page is encoded for the server and decoded from
  its documents. A character is a 16-bit code unit; the numbers in between are bytes and are
  held in 16 bits, too, which is enough for every one of them.
\<close>

section \<open>encode\<close>

definition hex_digit :: "u16 \<Rightarrow> u16" where
  "hex_digit d = (if d < 10 then 0x30 + d else 0x61 + (d - 10))"

text \<open>The table hexenc: a percent sign and two digits.\<close>

definition hexenc :: "u16 \<Rightarrow> u16 list" where
  "hexenc i = [0x25, hex_digit (drop_bit 4 i), hex_digit (i AND 0xF)]"

definition unreserved :: "u16 \<Rightarrow> bool" where
  "unreserved wch \<longleftrightarrow> 0x41 \<le> wch \<and> wch \<le> 0x5A \<or> 0x61 \<le> wch \<and> wch \<le> 0x7A \<or> 0x30 \<le> wch \<and> wch \<le> 0x39 \<or>
     wch \<in> {0x2D, 0x5F, 0x2E, 0x21, 0x7E, 0x2A, 0x27, 0x28, 0x29}"

definition encode_char :: "u16 \<Rightarrow> u16 list" where
  "encode_char wch =
     (if 0x41 \<le> wch \<and> wch \<le> 0x5A then [wch]
      else if 0x61 \<le> wch \<and> wch \<le> 0x7A then [wch]
      else if 0x30 \<le> wch \<and> wch \<le> 0x39 then [wch]
      else if wch = 0x20 then [0x2B]
      else if wch \<in> {0x2D, 0x5F, 0x2E, 0x21, 0x7E, 0x2A, 0x27, 0x28, 0x29} then [wch]
      else if wch \<le> 0x7F then hexenc wch
      else if wch \<le> 0x7FF then hexenc (0xC0 OR drop_bit 6 wch) @ hexenc (0x80 OR (wch AND 0x3F))
      else hexenc (0xE0 OR drop_bit 12 wch) @ hexenc (0x80 OR (drop_bit 6 wch AND 0x3F)) @ hexenc (0x80 OR (wch AND 0x3F)))"

definition encode :: "u16 list \<Rightarrow> u16 list" where
  "encode text = concat (map encode_char text)"

section \<open>decode\<close>

text \<open>wcstol in base 16 of ''0x'' and two characters: it stops at the first that is no digit.\<close>

definition digit_value :: "u16 \<Rightarrow> u16 option" where
  "digit_value c =
     (if 0x30 \<le> c \<and> c \<le> 0x39 then Some (c - 0x30)
      else if 0x61 \<le> c \<and> c \<le> 0x66 then Some (c - 0x61 + 10)
      else if 0x41 \<le> c \<and> c \<le> 0x46 then Some (c - 0x41 + 10)
      else None)"

definition wcstol2 :: "u16 \<Rightarrow> u16 \<Rightarrow> u16" where
  "wcstol2 a b =
     (case digit_value a of None \<Rightarrow> 0
      | Some x \<Rightarrow> case digit_value b of None \<Rightarrow> x | Some y \<Rightarrow> 16 * x + y)"

text \<open>What a decoded byte does: the characters it adds, how many bytes are still to come, the character in the making.\<close>

definition decode_byte :: "int \<Rightarrow> u16 \<Rightarrow> u16 \<Rightarrow> u16 list \<times> int \<times> u16" where
  "decode_byte sequence conwch tconwch =
     (if tconwch \<le> 0x7F then ([tconwch], sequence, conwch)
      else if 0x80 \<le> tconwch \<and> tconwch \<le> 0xBF then
        let t = tconwch AND 0x3F;
            t = (if sequence = 2 then push_bit 6 t else t);
            conwch = conwch OR t
        in (if sequence - 1 = 0 then [conwch] else [], sequence - 1, conwch)
      else if 0xC0 \<le> tconwch \<and> tconwch \<le> 0xDF then ([], 1, push_bit 6 (tconwch AND 0x1F))
      else if 0xE0 \<le> tconwch \<and> tconwch \<le> 0xEF then ([], 2, push_bit 12 (tconwch AND 0xF))
      else ([], sequence, conwch))"

fun decode_loop :: "int \<Rightarrow> u16 \<Rightarrow> u16 list \<Rightarrow> u16 list" where
  "decode_loop sequence conwch (wch # a # b # r) =
     (if wch = 0x25 then
        case decode_byte sequence conwch (wcstol2 a b) of (d, s, c) \<Rightarrow> d @ decode_loop s c r
      else wch # decode_loop sequence conwch (a # b # r))"
| "decode_loop sequence conwch (wch # r) = wch # decode_loop sequence conwch r"
| "decode_loop sequence conwch [] = []"

definition decode :: "u16 list \<Rightarrow> u16 list" where
  "decode text = decode_loop 0 0 text"

section \<open>Digits and bytes\<close>

lemma small_word_cases: "(d :: u16) < of_nat n \<Longrightarrow> n < 65536 \<Longrightarrow> d \<in> of_nat ` set [0..<n]"
proof
  assume a: "d < of_nat n" "n < 65536"
  then have "unat d < unat (of_nat n :: u16)" by (simp add: word_less_nat_alt)
  then show "unat d \<in> set [0..<n]" using a by (simp add: unat_of_nat)
qed simp

lemma digit_value_hex_digit: "d < 16 \<Longrightarrow> digit_value (hex_digit d) = Some d"
proof -
  assume "d < 16"
  then have "d \<in> of_nat ` set [0..<16]" using small_word_cases[of d 16] by simp
  moreover have "\<forall>d \<in> of_nat ` set [0..<16]. digit_value (hex_digit d) = Some d" by code_simp
  ultimately show ?thesis by blast
qed

lemma unat_drop: "unat (drop_bit n w) = unat w div 2 ^ n"
  unfolding unat_drop_bit_eq by (simp add: drop_bit_eq_div)

lemma drop_12: "drop_bit 12 w < (16 :: u16)"
proof -
  have "unat w < 65536" using unsigned_less[where 'a=nat, of w] by simp
  then have "unat w div 2 ^ 12 < 16" by simp
  then show ?thesis by (simp add: word_less_nat_alt unat_drop)
qed

lemma nibbles:
  "(i :: u16) < 256 \<Longrightarrow> drop_bit 4 i < 16" "(i AND 0xF) < (16 :: u16)" "16 * drop_bit 4 i + (i AND 0xF) = i"
proof -
  have mask: "i AND 0xF = take_bit 4 i" by (simp add: take_bit_eq_mask mask_eq_exp_minus_1)
  show "(i AND 0xF) < (16 :: u16)" unfolding mask
    using take_bit_nat_less_exp[of 4 "unat i"] by (simp add: word_less_nat_alt unsigned_take_bit_eq)
  show "i < 256 \<Longrightarrow> drop_bit 4 i < 16" by (simp add: word_less_nat_alt unat_drop)
  have "push_bit 4 (drop_bit 4 i) + take_bit 4 i = i" by (rule bits_ident)
  then show "16 * drop_bit 4 i + (i AND 0xF) = i" unfolding mask by (simp add: push_bit_eq_mult mult.commute)
qed

lemma wcstol2_hexenc: "i < 256 \<Longrightarrow> wcstol2 (hex_digit (drop_bit 4 i)) (hex_digit (i AND 0xF)) = i"
  using nibbles[of i] by (simp add: wcstol2_def digit_value_hex_digit)

lemma decode_hexenc:
  "i < 256 \<Longrightarrow> decode_loop s c (hexenc i @ r) = (case decode_byte s c i of (d, s, c) \<Rightarrow> d @ decode_loop s c r)"
  by (simp add: hexenc_def wcstol2_hexenc)

lemma decode_plain: "w \<noteq> 0x25 \<Longrightarrow> decode_loop s c (w # r) = w # decode_loop s c r"
  by (cases r; cases "tl r") auto

text \<open>The first byte of two or three, and the bytes that continue.\<close>

lemma lead2:
  assumes "(x :: u16) < 32"
  shows "0xC0 OR x < 256 \<and> decode_byte s c (0xC0 OR x) = ([], 1, push_bit 6 x)"
proof -
  have "x \<in> of_nat ` set [0..<32]" using assms small_word_cases[of x 32] by simp
  moreover have "\<forall>x \<in> of_nat ` set [0..<32]. 0xC0 OR x < (256 :: u16) \<and> 0xC0 \<le> 0xC0 OR x \<and> 0xC0 OR x \<le> 0xDF \<and> (0xC0 OR x) AND 0x1F = x"
    by code_simp
  ultimately have x: "0xC0 OR x < 256" "0xC0 \<le> 0xC0 OR x" "0xC0 OR x \<le> 0xDF" "(0xC0 OR x) AND 0x1F = x" by blast+
  have "\<not> 0xC0 OR x \<le> 0x7F" "\<not> 0xC0 OR x \<le> 0xBF" using x(2) by (auto simp: word_le_nat_alt)
  then show ?thesis using x by (simp add: decode_byte_def)
qed

lemma lead3:
  assumes "(x :: u16) < 16"
  shows "0xE0 OR x < 256 \<and> decode_byte s c (0xE0 OR x) = ([], 2, push_bit 12 x)"
proof -
  have "x \<in> of_nat ` set [0..<16]" using assms small_word_cases[of x 16] by simp
  moreover have "\<forall>x \<in> of_nat ` set [0..<16]. 0xE0 OR x < (256 :: u16) \<and> 0xE0 \<le> 0xE0 OR x \<and> 0xE0 OR x \<le> 0xEF \<and> (0xE0 OR x) AND 0xF = x"
    by code_simp
  ultimately have x: "0xE0 OR x < 256" "0xE0 \<le> 0xE0 OR x" "0xE0 OR x \<le> 0xEF" "(0xE0 OR x) AND 0xF = x" by blast+
  have "\<not> 0xE0 OR x \<le> 0x7F" "\<not> 0xE0 OR x \<le> 0xBF" "\<not> 0xE0 OR x \<le> 0xDF" using x(2) by (auto simp: word_le_nat_alt)
  then show ?thesis using x by (simp add: decode_byte_def)
qed

lemma continuation:
  assumes "(x :: u16) < 64"
  shows "0x80 OR x < 256 \<and>
    decode_byte 2 c (0x80 OR x) = ([], 1, c OR push_bit 6 x) \<and> decode_byte 1 c (0x80 OR x) = ([c OR x], 0, c OR x)"
proof -
  have "x \<in> of_nat ` set [0..<64]" using assms small_word_cases[of x 64] by simp
  moreover have "\<forall>x \<in> of_nat ` set [0..<64]. 0x80 OR x < (256 :: u16) \<and> 0x80 \<le> 0x80 OR x \<and> 0x80 OR x \<le> 0xBF \<and> (0x80 OR x) AND 0x3F = x"
    by code_simp
  ultimately have x: "0x80 OR x < 256" "0x80 \<le> 0x80 OR x" "0x80 OR x \<le> 0xBF" "(0x80 OR x) AND 0x3F = x" by blast+
  have "\<not> 0x80 OR x \<le> 0x7F" using x(2) by (auto simp: word_le_nat_alt)
  then show ?thesis using x by (simp add: decode_byte_def Let_def)
qed

lemma and_3F: "(w AND 0x3F) < (64 :: u16)"
proof -
  have "w AND 0x3F = take_bit 6 w" by (simp add: take_bit_eq_mask mask_eq_exp_minus_1)
  then show ?thesis using take_bit_nat_less_exp[of 6 "unat w"] by (simp add: word_less_nat_alt unsigned_take_bit_eq)
qed

lemma join2: "(w :: u16) \<le> 0x7FF \<Longrightarrow> push_bit 6 (drop_bit 6 w) OR (w AND 0x3F) = w"
  and join3: "(push_bit 12 (drop_bit 12 w) OR push_bit 6 (drop_bit 6 w AND 0x3F)) OR (w AND 0x3F) = (w :: u16)"
proof -
  have m: "(0x3F :: u16) = mask 6" by (simp add: mask_eq_exp_minus_1)
  show "push_bit 6 (drop_bit 6 w) OR (w AND 0x3F) = w"
    unfolding m by (rule bit_word_eqI) (auto simp: bit_simps)
  show "(push_bit 12 (drop_bit 12 w) OR push_bit 6 (drop_bit 6 w AND 0x3F)) OR (w AND 0x3F) = (w :: u16)"
    unfolding m
  proof (rule bit_word_eqI)
    fix n assume "n < LENGTH(16)"
    then consider "n < 6" | "6 \<le> n" "n < 12" | "12 \<le> n" "n < 16" by fastforce
    then show "bit ((push_bit 12 (drop_bit 12 w) OR push_bit 6 (drop_bit 6 w AND mask 6)) OR (w AND mask 6)) n = bit w n"
      by cases (auto simp: bit_simps)
  qed
qed

section \<open>decode undoes encode, but for spaces\<close>

definition plus_for_space :: "u16 \<Rightarrow> u16" where
  "plus_for_space c = (if c = 0x20 then 0x2B else c)"

lemma encode_char_cases:
  "w \<noteq> 0x25 \<and> w \<noteq> 0x20 \<and> encode_char w = [w] \<or> w = 0x20 \<and> encode_char w = [0x2B] \<or>
   w \<noteq> 0x20 \<and> w \<le> 0x7F \<and> encode_char w = hexenc w \<or>
   \<not> w \<le> 0x7F \<and> w \<le> 0x7FF \<and> encode_char w = hexenc (0xC0 OR drop_bit 6 w) @ hexenc (0x80 OR (w AND 0x3F)) \<or>
   \<not> w \<le> 0x7FF \<and>
     encode_char w = hexenc (0xE0 OR drop_bit 12 w) @ hexenc (0x80 OR (drop_bit 6 w AND 0x3F)) @ hexenc (0x80 OR (w AND 0x3F))"
proof -
  have alnum: "0x41 \<le> w \<and> w \<le> 0x5A \<or> 0x61 \<le> w \<and> w \<le> 0x7A \<or> 0x30 \<le> w \<and> w \<le> 0x39 \<Longrightarrow> w \<noteq> 0x25 \<and> w \<noteq> 0x20"
    by (auto simp: word_le_nat_alt)
  have "\<not> w \<le> 0x7FF \<Longrightarrow> \<not> w \<le> 0x7F" by (simp add: word_le_nat_alt)
  then show ?thesis
    using alnum
    by (cases "unreserved w"; cases "w = 0x20"; cases "w \<le> 0x7F"; cases "w \<le> 0x7FF") (simp_all add: encode_char_def unreserved_def)
qed

lemma decode_encode_char:
  "\<exists>s' c'. \<forall>r. decode_loop s c (encode_char w @ r) = plus_for_space w # decode_loop s' c' r"
proof -
  consider (same) "encode_char w = [w]" "w \<noteq> 0x25" "w \<noteq> 0x20" | (space) "w = 0x20" "encode_char w = [0x2B]"
    | (ascii) "encode_char w = hexenc w" "w \<le> 0x7F" "w \<noteq> 0x20"
    | (two) "encode_char w = hexenc (0xC0 OR drop_bit 6 w) @ hexenc (0x80 OR (w AND 0x3F))" "\<not> w \<le> 0x7F" "w \<le> 0x7FF"
    | (three) "encode_char w = hexenc (0xE0 OR drop_bit 12 w) @ hexenc (0x80 OR (drop_bit 6 w AND 0x3F)) @ hexenc (0x80 OR (w AND 0x3F))"
        "\<not> w \<le> 0x7FF"
    using encode_char_cases[of w] by blast
  then show ?thesis
  proof cases
    case same
    then show ?thesis by (auto simp: plus_for_space_def decode_plain)
  next
    case space
    then show ?thesis by (auto simp: plus_for_space_def decode_plain)
  next
    case ascii
    then have "w < 256" by (simp add: word_le_nat_alt word_less_nat_alt)
    then show ?thesis using ascii by (auto simp: plus_for_space_def decode_hexenc decode_byte_def)
  next
    case two
    have "drop_bit 6 w < 32" using two(3) by (simp add: word_le_nat_alt word_less_nat_alt unat_drop)
    moreover have "w \<noteq> 0x20" using two(2) by auto
    ultimately show ?thesis
      using two(1) lead2[of "drop_bit 6 w" s c] continuation[OF and_3F[of w], of "push_bit 6 (drop_bit 6 w)"] join2[OF two(3)]
      by (auto simp: plus_for_space_def decode_hexenc)
  next
    case three
    note drop_12[of w]
    moreover have "w \<noteq> 0x20" using three(2) by auto
    ultimately show ?thesis
      using three(1) lead3[of "drop_bit 12 w" s c] continuation[OF and_3F[of "drop_bit 6 w"], of "push_bit 12 (drop_bit 12 w)"]
        continuation[OF and_3F[of w], of "push_bit 12 (drop_bit 12 w) OR push_bit 6 (drop_bit 6 w AND 0x3F)"] join3[of w]
      by (auto simp: plus_for_space_def decode_hexenc)
  qed
qed

lemma decode_encode_loop: "decode_loop s c (encode url) = map plus_for_space url"
proof (induction url arbitrary: s c)
  case (Cons w url)
  obtain s' c' where "decode_loop s c (encode_char w @ encode url) = plus_for_space w # decode_loop s' c' (encode url)"
    using decode_encode_char[of s c w] by blast
  then show ?case using Cons.IH by (simp add: encode_def)
qed (simp add: encode_def)

text \<open>
  C28: Every address comes back from encode and decode as it was, whatever 16-bit characters it is
  made of, except that a space comes back as a plus sign.
\<close>

theorem decode_encode: "decode (encode url) = map (\<lambda>c. if c = 0x20 then 0x2B else c) url"
  using decode_encode_loop[of 0 0 url] by (simp add: decode_def plus_for_space_def[abs_def])

text \<open>The characters that end an attribute or a tag or begin an entity.\<close>

definition markup :: "u16 \<Rightarrow> bool" where
  "markup c \<longleftrightarrow> c = 0x22 \<or> c = 0x26 \<or> c = 0x3C \<or> c = 0x3E"

abbreviation (input) safe :: "u16 list \<Rightarrow> bool" where
  "safe s \<equiv> \<forall>c \<in> set s. \<not> markup c"

lemma hex_digit_safe: "d < 16 \<Longrightarrow> \<not> markup (hex_digit d)"
proof -
  assume "d < 16"
  then have "d \<in> of_nat ` set [0..<16]" using small_word_cases[of d 16] by simp
  moreover have "\<forall>d \<in> of_nat ` set [0..<16]. \<not> markup (hex_digit d)" by code_simp
  ultimately show ?thesis by blast
qed

lemma hexenc_safe: "i < 256 \<Longrightarrow> safe (hexenc i)"
  using nibbles[of i] hex_digit_safe by (simp add: hexenc_def) (simp add: markup_def)

lemma encode_char_markup: "markup w \<Longrightarrow> encode_char w = hexenc w"
  unfolding markup_def by (elim disjE; hypsubst; code_simp)

lemma encode_char_safe: "safe (encode_char w)"
proof (cases "markup w")
  case True
  then have "w < 256" by (auto simp: markup_def)
  then show ?thesis using hexenc_safe encode_char_markup[OF True] by simp
next
  case False
  consider "encode_char w = [w]" | "encode_char w = [0x2B]" | "w \<le> 0x7F" "encode_char w = hexenc w"
    | "w \<le> 0x7FF" "encode_char w = hexenc (0xC0 OR drop_bit 6 w) @ hexenc (0x80 OR (w AND 0x3F))"
    | "encode_char w = hexenc (0xE0 OR drop_bit 12 w) @ hexenc (0x80 OR (drop_bit 6 w AND 0x3F)) @ hexenc (0x80 OR (w AND 0x3F))"
    using encode_char_cases[of w] by (elim disjE conjE) simp_all
  then show ?thesis
  proof cases
    case 3
    then have "w < 256" by (simp add: word_le_nat_alt word_less_nat_alt)
    then show ?thesis using 3(2) hexenc_safe by simp
  next
    case 4
    have "drop_bit 6 w < 32" using 4(1) by (simp add: word_le_nat_alt word_less_nat_alt unat_drop)
    then have "safe (hexenc (0xC0 OR drop_bit 6 w))" using lead2 hexenc_safe by blast
    moreover have "safe (hexenc (0x80 OR (w AND 0x3F)))" using continuation[OF and_3F[of w]] hexenc_safe by blast
    ultimately show ?thesis unfolding 4(2) set_append by blast
  next
    case 5
    have "safe (hexenc (0xE0 OR drop_bit 12 w))" using lead3[OF drop_12[of w]] hexenc_safe by blast
    moreover have "safe (hexenc (0x80 OR (w AND 0x3F)))" using continuation[OF and_3F[of w]] hexenc_safe by blast
    moreover have "safe (hexenc (0x80 OR (drop_bit 6 w AND 0x3F)))" using continuation[OF and_3F[of "drop_bit 6 w"]] hexenc_safe by blast
    ultimately show ?thesis unfolding 5 set_append by blast
  qed (use False in \<open>simp_all add: markup_def\<close>)
qed

lemma encode_safe: "safe (encode url)"
  using encode_char_safe by (auto simp: encode_def)

text \<open>
  An encoded address has no character in it that would end an attribute or a tag: elements
  are sent without escaping, and an address cannot break out of its attribute.
\<close>

theorem encode_no_markup: "filter markup (encode url) = []"
  using encode_safe by (simp add: filter_empty_conv)

end
