(* ===== verification/Visitor.thy ===== *)
theory Visitor
  imports UrlCode EventController
begin

text \<open>
  Visitor.cpp, VisitEvent.h and Url.h of the client: the documents of the server that ask for
  visits, the queue of the visits, the thread that makes them with the plug-ins and what it tells
  its observers, and the choice of a plug-in for a program. The conversions of numbers (boost),
  the clock and the plug-ins are arguments; the methods of a plug-in answer the same each time.
\<close>

section \<open>Urls and visit events\<close>

record Url =
  u_url :: "u16 list"
  u_program :: "u16 list"
  u_visitTime :: int
  u_processId :: u32
  u_visited :: bool
  u_majorErrorCode :: u32
  u_minorErrorCode :: u32

record VisitEvent =
  ve_urls :: "Url list"
  ve_identifier :: "u16 list"
  ve_program :: "u16 list"
  ve_algorithm :: "u16 list"
  ve_urlGroup :: bool
  ve_errorCode :: u32

abbreviation (input) CAPTURE_VISITATION_OK :: u32 where "CAPTURE_VISITATION_OK \<equiv> 0"
abbreviation (input) CAPTURE_VISITATION_PRESTART :: u32 where "CAPTURE_VISITATION_PRESTART \<equiv> 0x10000101"
abbreviation (input) CAPTURE_VISITATION_START :: u32 where "CAPTURE_VISITATION_START \<equiv> 0x10000102"
abbreviation (input) CAPTURE_VISITATION_FINISH :: u32 where "CAPTURE_VISITATION_FINISH \<equiv> 0x10000103"
abbreviation (input) CAPTURE_VISITATION_POSTFINISH :: u32 where "CAPTURE_VISITATION_POSTFINISH \<equiv> 0x10000104"
abbreviation (input) CAPTURE_VISITATION_MULTIPLE_ERRORS :: u32 where "CAPTURE_VISITATION_MULTIPLE_ERRORS \<equiv> 0x10000113"
abbreviation (input) CAPTURE_VISITATION_EXCEPTION :: u32 where "CAPTURE_VISITATION_EXCEPTION \<equiv> 0x10000200"

text \<open>The conversions of boost (None: bad_lexical_cast is thrown) and the text of the current time.\<close>

record lexical =
  lx_int :: "u16 list \<Rightarrow> int option"
  lx_text :: "nat \<Rightarrow> u16 list"
  lx_time :: "u16 list"

definition new_Url :: "u16 list \<Rightarrow> u16 list \<Rightarrow> int \<Rightarrow> Url" where
  "new_Url u app vTime = \<lparr>u_url = u, u_program = app, u_visitTime = vTime, u_processId = 0, u_visited = False,
     u_majorErrorCode = 0, u_minorErrorCode = 0\<rparr>"

definition Url_toElement :: "lexical \<Rightarrow> Url \<Rightarrow> Element" where
  "Url_toElement lx u = Elem (wide ''item'')
     [attribute (wide ''url'') (encode (u_url u)),
      attribute (wide ''processId'') (lx_text lx (unat (u_processId u))),
      attribute (wide ''program'') (u_program u),
      attribute (wide ''major-error-code'') (lx_text lx (unat (u_majorErrorCode u))),
      attribute (wide ''minor-error-code'') (lx_text lx (unat (u_minorErrorCode u))),
      attribute (wide ''time'') (lx_time lx),
      attribute (wide ''visited'') (lx_text lx (of_bool (u_visited u)))] [] []"

definition new_VisitEvent :: VisitEvent where
  "new_VisitEvent = \<lparr>ve_urls = [], ve_identifier = [], ve_program = [], ve_algorithm = wide ''seq'', ve_urlGroup = False,
     ve_errorCode = CAPTURE_VISITATION_OK\<rparr>"

definition addUrl :: "VisitEvent \<Rightarrow> Url \<Rightarrow> VisitEvent" where
  "addUrl v u =
     (let v = v\<lparr>ve_urls := ve_urls v @ [u]\<rparr> in if 1 < length (ve_urls v) then v\<lparr>ve_urlGroup := True\<rparr> else v)"

definition setErrorCode :: "VisitEvent \<Rightarrow> u32 \<Rightarrow> VisitEvent" where
  "setErrorCode v e =
     v\<lparr>ve_errorCode := (if ve_errorCode v \<noteq> CAPTURE_VISITATION_OK then CAPTURE_VISITATION_MULTIPLE_ERRORS else e)\<rparr>"

definition isError :: "VisitEvent \<Rightarrow> bool" where
  "isError v \<longleftrightarrow> ve_errorCode v \<noteq> CAPTURE_VISITATION_OK"

definition VisitEvent_toElement :: "lexical \<Rightarrow> VisitEvent \<Rightarrow> Element" where
  "VisitEvent_toElement lx v = Elem (wide ''visit-event'')
     [attribute (wide ''identifier'') (ve_identifier v), attribute (wide ''program'') (ve_program v),
      attribute (wide ''time'') (lx_time lx), attribute (wide ''algorithm'') (ve_algorithm v)] []
     (map (Url_toElement lx) (ve_urls v))"

section \<open>Documents\<close>

text \<open>The url, the program and the time an item names; the last attribute of a name counts.\<close>

fun url_attributes :: "lexical \<Rightarrow> Attribute list \<Rightarrow> u16 list \<times> u16 list \<times> int \<Rightarrow> fault + u16 list \<times> u16 list \<times> int" where
  "url_attributes lx [] r = Inr r"
| "url_attributes lx (a # as) (url, program, time) =
     (if at_name a = wide ''url'' then url_attributes lx as (at_value a, program, time)
      else if at_name a = wide ''program'' then url_attributes lx as (url, at_value a, time)
      else if at_name a = wide ''time'' then
        (case lx_int lx (at_value a) of None \<Rightarrow> Inl Uncaught | Some t \<Rightarrow> url_attributes lx as (url, program, t))
      else url_attributes lx as (url, program, time))"

definition createUrl :: "lexical \<Rightarrow> Attribute list \<Rightarrow> fault + Url" where
  "createUrl lx as =
     fbind (url_attributes lx as ([], [], 0)) (\<lambda>(url, program, time). Inr (new_Url (decode url) program time))"

text \<open>The items below the document become urls, with the time and the program of the document.\<close>

fun add_items :: "lexical \<Rightarrow> u16 list \<Rightarrow> int \<Rightarrow> Element list \<Rightarrow> VisitEvent \<Rightarrow> fault + VisitEvent" where
  "add_items lx program visitTime [] v = Inr v"
| "add_items lx program visitTime (e # es) v =
     (if el_name e = wide ''item'' then
        fbind (createUrl lx (el_attributes e)) (\<lambda>url.
          add_items lx program visitTime es (addUrl v (url\<lparr>u_visitTime := visitTime, u_program := program\<rparr>)))
      else add_items lx program visitTime es v)"

definition read_visit_event :: "lexical \<Rightarrow> Element \<Rightarrow> fault + VisitEvent" where
  "read_visit_event lx e =
     (if el_name e = wide ''visit-event'' then
        case lx_int lx (getAttributeValue e (wide ''time'')) of
          None \<Rightarrow> Inl Uncaught
        | Some visitTime \<Rightarrow>
            add_items lx (getAttributeValue e (wide ''program'')) visitTime (el_children e)
              (new_VisitEvent\<lparr>ve_identifier := getAttributeValue e (wide ''identifier''),
                              ve_program := getAttributeValue e (wide ''program'')\<rparr>)
      else Inr new_VisitEvent)"

section \<open>Plug-ins\<close>

text \<open>
  A plug-in: its priority, the programs it visits with, its algorithm, and what a visit makes of
  the event and whether it throws.
\<close>

record plugin =
  pl_priority :: u32
  pl_applications :: "u16 list list"
  pl_algorithm :: "u16 list"
  pl_visit :: "VisitEvent \<Rightarrow> VisitEvent \<times> bool"

text \<open>A library of the directory: it does not load, makes no plug-in, or makes one.\<close>

datatype library = NotLoaded | NoObject | PluginObject plugin

definition add_application :: "plugin \<Rightarrow> (u16 list \<rightharpoonup> plugin) \<Rightarrow> u16 list \<Rightarrow> (u16 list \<rightharpoonup> plugin)" where
  "add_application p m n =
     (case m n of
        Some old \<Rightarrow> if pl_priority old < pl_priority p then m(n \<mapsto> p) else m
      | None \<Rightarrow> m(n \<mapsto> p))"

definition load_library :: "library \<Rightarrow> (u16 list \<rightharpoonup> plugin) \<Rightarrow> (u16 list \<rightharpoonup> plugin)" where
  "load_library l m =
     (case l of PluginObject p \<Rightarrow> fold (\<lambda>n m. add_application p m n) (pl_applications p) m | _ \<Rightarrow> m)"

definition loadClientPlugins :: "library list \<Rightarrow> (u16 list \<rightharpoonup> plugin)" where
  "loadClientPlugins ls = fold load_library ls Map.empty"

definition getApplicationPlugin :: "(u16 list \<rightharpoonup> plugin) \<Rightarrow> u16 list \<Rightarrow> plugin option" where
  "getApplicationPlugin m n = m n"

section \<open>The queue and the thread\<close>

text \<open>The event hQueueNotEmpty resets itself when a wait for it is over.\<close>

record visitor =
  vi_toVisit :: "VisitEvent list"
  vi_signalled :: bool
  vi_applicationMap :: "u16 list \<rightharpoonup> plugin"
  vi_notified :: "(u32 \<times> VisitEvent) list"

definition new_visitor :: "library list \<Rightarrow> visitor" where
  "new_visitor ls = \<lparr>vi_toVisit = [], vi_signalled = False, vi_applicationMap = loadClientPlugins ls, vi_notified = []\<rparr>"

definition onServerEvent :: "lexical \<Rightarrow> visitor \<Rightarrow> Element \<Rightarrow> fault + visitor" where
  "onServerEvent lx vi e =
     fbind (read_visit_event lx e) (\<lambda>v.
       Inr (if 0 < length (ve_urls v) then vi\<lparr>vi_toVisit := vi_toVisit vi @ [v], vi_signalled := True\<rparr> else vi))"

text \<open>What a visit makes the observers hear.\<close>

definition visit :: "plugin \<Rightarrow> VisitEvent \<Rightarrow> (u32 \<times> VisitEvent) list" where
  "visit p v0 =
     (let v = v0\<lparr>ve_algorithm := pl_algorithm p\<rparr>;
          (v', throws) = pl_visit p v
      in [(CAPTURE_VISITATION_PRESTART, v), (CAPTURE_VISITATION_START, v)] @
         (if throws then [(CAPTURE_VISITATION_EXCEPTION, v')] else []) @
         [(if isError v' then ve_errorCode v' else CAPTURE_VISITATION_FINISH, v'),
          (CAPTURE_VISITATION_POSTFINISH, v')])"

text \<open>
  One turn of the loop: None while the thread waits; front of an empty queue is a pointer to
  nowhere.
\<close>

definition visitor_turn :: "visitor \<Rightarrow> (fault + visitor) option" where
  "visitor_turn vi =
     (if \<not> vi_signalled vi then None
      else Some (case vi_toVisit vi of
          [] \<Rightarrow> Inl BadPointer
        | v # vs \<Rightarrow>
            let vi = vi\<lparr>vi_signalled := False, vi_toVisit := vs\<rparr> in
            Inr (case getApplicationPlugin (vi_applicationMap vi) (ve_program v) of
                   None \<Rightarrow> vi
                 | Some p \<Rightarrow> vi\<lparr>vi_notified := vi_notified vi @ visit p v\<rparr>)))"

text \<open>The event controller and the thread take turns in any order.\<close>

inductive visitor_step :: "lexical \<Rightarrow> visitor \<Rightarrow> visitor \<Rightarrow> bool" for lx where
  document: "onServerEvent lx vi e = Inr vi' \<Longrightarrow> visitor_step lx vi vi'"
| turn: "visitor_turn vi = Some (Inr vi') \<Longrightarrow> visitor_step lx vi vi'"

inductive_cases visitor_stepE: "visitor_step lx vi vi'"

abbreviation (input) visitor_steps :: "lexical \<Rightarrow> visitor \<Rightarrow> visitor \<Rightarrow> bool" where
  "visitor_steps lx \<equiv> (visitor_step lx)\<^sup>*\<^sup>*"

section \<open>The plug-in with the highest priority\<close>

text \<open>
  Plug-ins compete by their priority, and among equals the one that was loaded first wins: a
  linear order of what they offer.
\<close>

datatype offer = Offer (offer_priority: u32) (offer_index: nat)

instantiation offer :: linorder
begin

definition less_eq_offer :: "offer \<Rightarrow> offer \<Rightarrow> bool" where
  "a \<le> b \<longleftrightarrow> offer_priority a < offer_priority b \<or>
     offer_priority a = offer_priority b \<and> offer_index b \<le> offer_index a"

definition less_offer :: "offer \<Rightarrow> offer \<Rightarrow> bool" where
  "a < b \<longleftrightarrow> offer_priority a < offer_priority b \<or>
     offer_priority a = offer_priority b \<and> offer_index b < offer_index a"

instance
proof
  fix a b c :: offer
  obtain pa ia where a: "a = Offer pa ia" by (cases a)
  obtain pb ib where b: "b = Offer pb ib" by (cases b)
  obtain pc ic where c: "c = Offer pc ic" by (cases c)
  note defs = a b c less_eq_offer_def less_offer_def offer.sel word_less_nat_alt word_unat_eq_iff
  show "(a < b) = (a \<le> b \<and> \<not> b \<le> a)" unfolding defs by arith
  show "a \<le> a" unfolding defs by simp
  show "a \<le> b \<Longrightarrow> b \<le> c \<Longrightarrow> a \<le> c" unfolding defs by arith
  show "a \<le> b \<Longrightarrow> b \<le> a \<Longrightarrow> a = b" unfolding defs offer.inject by arith
  show "a \<le> b \<or> b \<le> a" unfolding defs by arith
qed

end

text \<open>The offers for a program of the plug-ins of a list.\<close>

definition offers :: "plugin list \<Rightarrow> u16 list \<Rightarrow> offer set" where
  "offers ps n = {Offer (pl_priority (ps ! i)) i | i. i < length ps \<and> n \<in> set (pl_applications (ps ! i))}"

definition plugins_of :: "library list \<Rightarrow> plugin list" where
  "plugins_of ls = concat (map (\<lambda>l. case l of PluginObject p \<Rightarrow> [p] | _ \<Rightarrow> []) ls)"

lemma finite_offers [simp]: "finite (offers ps n)"
  by (simp add: offers_def)

lemma offers_Nil [simp]: "offers [] n = {}"
  by (simp add: offers_def)

lemma offers_iff:
  "a \<in> offers ps n \<longleftrightarrow>
     offer_index a < length ps \<and> offer_priority a = pl_priority (ps ! offer_index a) \<and> n \<in> set (pl_applications (ps ! offer_index a))"
  by (cases a) (auto simp: offers_def)

lemma offers_snoc:
  "offers (ps @ [p]) n =
     (if n \<in> set (pl_applications p) then insert (Offer (pl_priority p) (length ps)) (offers ps n) else offers ps n)"
proof (rule set_eqI)
  fix a
  obtain q i where a: "a = Offer q i" by (cases a)
  consider "i < length ps" | "i = length ps" | "length ps < i" by fastforce
  then show "a \<in> offers (ps @ [p]) n \<longleftrightarrow>
     a \<in> (if n \<in> set (pl_applications p) then insert (Offer (pl_priority p) (length ps)) (offers ps n) else offers ps n)"
    by cases (simp_all add: a offers_iff nth_append)
qed

lemma offer_index_less: "a \<in> offers ps n \<Longrightarrow> offer_index a < length ps \<and> offer_priority a = pl_priority (ps ! offer_index a)"
  by (simp add: offers_iff)

text \<open>The map holds the best offer.\<close>

definition best_of :: "plugin list \<Rightarrow> (u16 list \<rightharpoonup> plugin)" where
  "best_of ps n = (if offers ps n = {} then None else Some (ps ! offer_index (Max (offers ps n))))"

lemma add_applications:
  "fold (\<lambda>n m. add_application p m n) ns m n =
     (if n \<in> set ns then
        (case m n of Some old \<Rightarrow> if pl_priority old < pl_priority p then Some p else Some old | None \<Rightarrow> Some p)
      else m n)"
  by (induction ns arbitrary: m) (auto simp: add_application_def split: option.splits)

lemma best_of_snoc:
  "best_of (ps @ [p]) n =
     (if n \<in> set (pl_applications p) then
        (case best_of ps n of Some old \<Rightarrow> if pl_priority old < pl_priority p then Some p else Some old | None \<Rightarrow> Some p)
      else best_of ps n)"
proof (cases "offers ps n = {}")
  case True
  then show ?thesis by (simp add: best_of_def offers_snoc)
next
  case False
  let ?M = "Max (offers ps n)" and ?new = "Offer (pl_priority p) (length ps)"
  have M: "?M \<in> offers ps n" using False by simp
  note i = offer_index_less[OF M]
  show ?thesis
  proof (cases "n \<in> set (pl_applications p)")
    case n: True
    have max: "Max (insert ?new (offers ps n)) = max ?new ?M" using False by simp
    have "max ?new ?M = (if pl_priority (ps ! offer_index ?M) < pl_priority p then ?new else ?M)"
      using i by (auto simp: max_def less_eq_offer_def)
    then show ?thesis using False n i max by (auto simp: best_of_def offers_snoc nth_append)
  next
    case n: False
    then show ?thesis using False i by (simp add: best_of_def offers_snoc nth_append)
  qed
qed

lemma best_of_loaded: "fold load_library ls (best_of ps) = best_of (ps @ plugins_of ls)"
proof (induction ls arbitrary: ps)
  case (Cons l ls)
  have "load_library l (best_of ps) = best_of (ps @ plugins_of [l])"
    by (cases l) (auto simp: load_library_def plugins_of_def add_applications best_of_snoc fun_eq_iff split: option.splits)
  then show ?case using Cons.IH by (simp add: plugins_of_def)
qed (simp add: plugins_of_def)

lemma loadClientPlugins_best: "loadClientPlugins ls = best_of (plugins_of ls)"
  using best_of_loaded[of ls "[]"] by (simp add: loadClientPlugins_def best_of_def[abs_def])

text \<open>
  The plug-in that is used for a program is the one with the highest priority of those that
  loaded and support it, and among equals the one that was loaded first.
\<close>

theorem best_plugin_wins:
  "getApplicationPlugin (loadClientPlugins ls) n =
     (let ps = plugins_of ls in if offers ps n = {} then None else Some (ps ! offer_index (Max (offers ps n))))"
  by (simp add: getApplicationPlugin_def loadClientPlugins_best best_of_def Let_def)

section \<open>What is asked for is visited, but late\<close>

text \<open>How many visits are left once the thread has done what it has been woken for.\<close>

definition backlog :: "visitor \<Rightarrow> nat" where
  "backlog vi = length (vi_toVisit vi) - of_bool (vi_signalled vi)"

definition visitor_ok :: "visitor \<Rightarrow> bool" where
  "visitor_ok vi \<longleftrightarrow> (vi_signalled vi \<longrightarrow> vi_toVisit vi \<noteq> [])"

lemma onServerEvent_backlog:
  "onServerEvent lx vi e = Inr vi' \<Longrightarrow> visitor_ok vi \<Longrightarrow> visitor_ok vi' \<and> backlog vi \<le> backlog vi'"
  by (auto simp: onServerEvent_def fbind_eq_Inr visitor_ok_def backlog_def split: if_splits)

lemma visitor_turn_backlog:
  "visitor_turn vi = Some (Inr vi') \<Longrightarrow> visitor_ok vi' \<and> backlog vi = backlog vi'"
  by (auto simp: visitor_turn_def visitor_ok_def backlog_def Let_def split: if_splits list.splits option.splits)

lemma visitor_step_backlog: "visitor_step lx vi vi' \<Longrightarrow> visitor_ok vi \<Longrightarrow> visitor_ok vi' \<and> backlog vi \<le> backlog vi'"
  by (elim visitor_stepE) (use onServerEvent_backlog visitor_turn_backlog in \<open>fastforce+\<close>)

lemma visitor_steps_backlog: "visitor_steps lx vi vi' \<Longrightarrow> visitor_ok vi \<Longrightarrow> visitor_ok vi' \<and> backlog vi \<le> backlog vi'"
  by (induction rule: rtranclp_induct) (use visitor_step_backlog le_trans in blast)+

text \<open>
  from the start the thread never takes a visit from an empty queue, but it makes one visit
  for each time it is woken: two documents that arrive before it gets to run leave a visit behind,
  and whatever is behind stays behind for ever.
\<close>

theorem visit_backlog_never_shrinks:
  assumes "visitor_steps lx (new_visitor ls) vi" "visitor_steps lx vi vi'"
  shows "visitor_turn vi' \<noteq> Some (Inl BadPointer) \<and> backlog vi \<le> length (vi_toVisit vi')"
proof -
  have "visitor_ok (new_visitor ls)" by (simp add: new_visitor_def visitor_ok_def)
  then have "visitor_ok vi" using visitor_steps_backlog[OF assms(1)] by blast
  then have "visitor_ok vi'" "backlog vi \<le> backlog vi'" using visitor_steps_backlog[OF assms(2)] by blast+
  then show ?thesis by (auto simp: visitor_turn_def visitor_ok_def backlog_def Let_def split: list.splits)
qed

definition example_lexical :: lexical where
  "example_lexical = \<lparr>lx_int = (\<lambda>s. if s = [] then None else Some 5), lx_text = (\<lambda>n. [0x30]), lx_time = []\<rparr>"

definition example_request :: Element where
  "example_request = Elem (wide ''visit-event'') [attribute (wide ''time'') [0x35]] [] [Elem (wide ''item'') [] [] []]"

definition example_visit :: VisitEvent where
  "example_visit = addUrl new_VisitEvent (new_Url [] [] 5)"

lemma example_onServerEvent:
  "onServerEvent example_lexical vi example_request = Inr (vi\<lparr>vi_toVisit := vi_toVisit vi @ [example_visit], vi_signalled := True\<rparr>)"
  by (simp add: onServerEvent_def read_visit_event_def example_request_def example_lexical_def getAttributeValue_def attribute_def
      createUrl_def decode_def new_Url_def addUrl_def new_VisitEvent_def example_visit_def)

theorem visit_backlog_never_shrinks_witness:
  "\<exists>vi. visitor_steps example_lexical (new_visitor []) vi \<and> backlog vi = 1 \<and>
     (\<forall>vi'. visitor_steps example_lexical vi vi' \<longrightarrow> 1 \<le> length (vi_toVisit vi'))"
proof -
  define a where "a = (new_visitor [])\<lparr>vi_toVisit := [example_visit], vi_signalled := True\<rparr>"
  define b where "b = a\<lparr>vi_toVisit := [example_visit, example_visit]\<rparr>"
  have "visitor_step example_lexical (new_visitor []) a"
    using example_onServerEvent by (intro visitor_step.document[of _ _ example_request]) (simp add: a_def new_visitor_def)
  moreover have "visitor_step example_lexical a b"
    using example_onServerEvent[of a] by (intro visitor_step.document[of _ _ example_request]) (simp add: a_def b_def new_visitor_def)
  ultimately have s: "visitor_steps example_lexical (new_visitor []) b" by simp
  have "backlog b = 1" by (simp add: backlog_def a_def b_def)
  with s visit_backlog_never_shrinks[OF s] show ?thesis by auto
qed

section \<open>From a document to the queue\<close>

definition item :: "u16 list \<Rightarrow> Element" where
  "item u = Elem (wide ''item'') [attribute (wide ''url'') (encode u)] [] []"

definition asked_url :: "u16 list \<Rightarrow> int \<Rightarrow> u16 list \<Rightarrow> Url" where
  "asked_url program visitTime u = (new_Url u program visitTime)"

lemma decode_encode_spaceless:
  assumes "0x20 \<notin> set u" shows "decode (encode u) = u"
proof -
  have "map plus_for_space u = u" by (rule map_idI) (use assms in \<open>auto simp: plus_for_space_def\<close>)
  then show ?thesis using decode_encode_loop[of 0 0 u] by (simp add: decode_def)
qed

lemma createUrl_item: "0x20 \<notin> set u \<Longrightarrow> createUrl lx (el_attributes (item u)) = Inr (new_Url u [] 0)"
  by (simp add: createUrl_def item_def attribute_def decode_encode_spaceless)

lemma add_items_urls:
  "\<forall>u \<in> set us. 0x20 \<notin> set u \<Longrightarrow>
     \<exists>v'. add_items lx program t (map item us) v = Inr v' \<and> ve_urls v' = ve_urls v @ map (asked_url program t) us \<and>
       ve_identifier v' = ve_identifier v \<and> ve_program v' = ve_program v \<and> ve_errorCode v' = ve_errorCode v \<and>
       (ve_urlGroup v' \<longleftrightarrow> ve_urlGroup v \<or> us \<noteq> [] \<and> 1 < length (ve_urls v) + length us)"
proof (induction us arbitrary: v)
  case (Cons u us)
  let ?v = "addUrl v (asked_url program t u)"
  obtain v' where v': "add_items lx program t (map item us) ?v = Inr v'" "ve_urls v' = ve_urls ?v @ map (asked_url program t) us"
    "ve_identifier v' = ve_identifier ?v" "ve_program v' = ve_program ?v" "ve_errorCode v' = ve_errorCode ?v"
    "ve_urlGroup v' \<longleftrightarrow> ve_urlGroup ?v \<or> us \<noteq> [] \<and> 1 < length (ve_urls ?v) + length us"
    using Cons.IH[of ?v] Cons.prems by auto
  have "(new_Url u [] 0)\<lparr>u_visitTime := t, u_program := program\<rparr> = asked_url program t u"
    by (simp add: asked_url_def new_Url_def)
  then have "add_items lx program t (map item (u # us)) v = Inr v'"
    using v'(1) Cons.prems createUrl_item[of u lx] by (simp add: item_def)
  then show ?case using v'(2-6) by (auto simp: addUrl_def Let_def)
qed simp

text \<open>
  A document that asks for visits to encoded addresses puts one visit at the end of the
  queue, for exactly these addresses (when they have no spaces), in order, with the program, the
  time and the identifier of the document, and wakes the thread.
\<close>

theorem request_queues_visit:
  assumes "el_name e = wide ''visit-event''" "lx_int lx (getAttributeValue e (wide ''time'')) = Some t"
    "el_children e = map item us" "us \<noteq> []" "\<forall>u \<in> set us. 0x20 \<notin> set u"
  shows "\<exists>v. onServerEvent lx vi e = Inr (vi\<lparr>vi_toVisit := vi_toVisit vi @ [v], vi_signalled := True\<rparr>) \<and>
     ve_urls v = map (asked_url (getAttributeValue e (wide ''program'')) t) us \<and>
     ve_identifier v = getAttributeValue e (wide ''identifier'') \<and> ve_program v = getAttributeValue e (wide ''program'') \<and>
     \<not> isError v \<and> (ve_urlGroup v \<longleftrightarrow> 1 < length us)"
proof -
  let ?v = "new_VisitEvent\<lparr>ve_identifier := getAttributeValue e (wide ''identifier''), ve_program := getAttributeValue e (wide ''program'')\<rparr>"
  obtain v where v: "add_items lx (getAttributeValue e (wide ''program'')) t (map item us) ?v = Inr v"
    "ve_urls v = map (asked_url (getAttributeValue e (wide ''program'')) t) us"
    "ve_identifier v = ve_identifier ?v" "ve_program v = ve_program ?v" "ve_errorCode v = ve_errorCode ?v"
    "ve_urlGroup v \<longleftrightarrow> us \<noteq> [] \<and> 1 < length us"
    using add_items_urls[OF assms(5), of lx "getAttributeValue e (wide ''program'')" t ?v] by (auto simp: new_VisitEvent_def)
  then show ?thesis using assms(1-4)
    by (intro exI[of _ v]) (simp add: onServerEvent_def read_visit_event_def isError_def new_VisitEvent_def)
qed

theorem request_queues_visit_witness:
  "\<exists>v. onServerEvent example_lexical (new_visitor [])
        (Elem (wide ''visit-event'') [attribute (wide ''time'') [0x35], attribute (wide ''program'') [0x70]] [] [item [0x61, 0x25], item [0x62]]) =
      Inr ((new_visitor [])\<lparr>vi_toVisit := [v], vi_signalled := True\<rparr>) \<and> map u_url (ve_urls v) = [[0x61, 0x25], [0x62]]"
  using request_queues_visit[of "Elem (wide ''visit-event'') [attribute (wide ''time'') [0x35], attribute (wide ''program'') [0x70]] []
      [item [0x61, 0x25], item [0x62]]" example_lexical 5 "[[0x61, 0x25], [0x62]]" "new_visitor []"]
  by (auto simp: example_lexical_def getAttributeValue_def attribute_def new_visitor_def asked_url_def new_Url_def)

text \<open>
  A document whose time is no number, for instance because it is missing, throws an exception
  that nobody on the way to the thread of the receiver catches.
\<close>

theorem bad_time_uncaught:
  assumes "el_name e = wide ''visit-event''" "lx_int lx (getAttributeValue e (wide ''time'')) = None"
  shows "onServerEvent lx vi e = Inl Uncaught"
  using assms by (simp add: onServerEvent_def read_visit_event_def)

theorem bad_time_uncaught_witness:
  "onServerEvent example_lexical (new_visitor []) (Elem (wide ''visit-event'') [] [] []) = Inl Uncaught"
  by (rule bad_time_uncaught) (simp_all add: example_lexical_def getAttributeValue_def)

end
