(* ===== verification/FileTransfer.thy ===== *)
theory FileTransfer
  imports ServerLink Visitor
begin

text \<open>
  FileUploader.cpp and Updater.cpp of the client: sending a file to the server in parts, and
  receiving an update in parts. Base64 is a library and an argument; the file is its content.
\<close>

section \<open>Sending a file\<close>

text \<open>What the libraries and the server answer with.\<close>

record transfer_env =
  te_lexical :: lexical
  te_utf8 :: "u16 list \<Rightarrow> u8 list"
  te_send :: "u8 list \<Rightarrow> nat option"
  te_base64 :: "u8 list \<Rightarrow> u8 list"
  te_unbase64 :: "u8 list \<Rightarrow> u8 list"

definition send_element :: "transfer_env \<Rightarrow> Element \<Rightarrow> server \<Rightarrow> server" where
  "send_element env e sv = sendElement (te_utf8 env) (te_send env (te_utf8 env (toString e))) e sv"

definition send_xml :: "transfer_env \<Rightarrow> u16 list \<Rightarrow> Attribute list \<Rightarrow> server \<Rightarrow> server" where
  "send_xml env n as sv = sendXML (te_utf8 env) (te_send env (te_utf8 env (xml_document n as))) n as sv"

record uploader =
  fu_name :: "u16 list"
  fu_file :: "u8 list"
  fu_opened :: bool
  fu_accepted :: bool
  fu_busy :: bool

definition new_uploader :: uploader where
  "new_uploader = \<lparr>fu_name = [], fu_file = [], fu_opened = False, fu_accepted = False, fu_busy = False\<rparr>"

definition part_element :: "transfer_env \<Rightarrow> u16 list \<Rightarrow> nat \<Rightarrow> u8 list \<Rightarrow> Element" where
  "part_element env name offset bytes = Elem (wide ''part'')
     [attribute (wide ''name'') name, attribute (wide ''part-start'') (lx_text (te_lexical env) offset),
      attribute (wide ''encoding'') (wide ''base64''),
      attribute (wide ''part-end'') (lx_text (te_lexical env) (offset + length bytes))] (te_base64 env bytes) []"

text \<open>fread reads what there is; a short read sets the end-of-file mark, and then nothing is returned.\<close>

definition sendFilePart :: "transfer_env \<Rightarrow> uploader \<Rightarrow> nat \<Rightarrow> nat \<Rightarrow> server \<Rightarrow> nat \<times> server" where
  "sendFilePart env fu offset count sv =
     (if fu_opened fu then
        let bytes = take count (drop offset (fu_file fu));
            sv = (if 0 < length bytes then send_element env (part_element env (fu_name fu) offset bytes) sv else sv)
        in (if length bytes < count then 0 else length bytes, sv)
      else (0, sv))"

text \<open>The loop of sendFile: parts of 8192 bytes until one is short.\<close>

function send_parts :: "transfer_env \<Rightarrow> uploader \<Rightarrow> nat \<Rightarrow> server \<Rightarrow> server" where
  "send_parts env fu offset sv =
     (let (bytesRead, sv') = sendFilePart env fu offset 8192
        sv in if 0 < bytesRead then send_parts env fu (offset + bytesRead) sv' else sv')"
  by pat_completeness auto
termination
proof (relation "measure (\<lambda>(env, fu, offset, sv). length (fu_file fu) - offset)")
  fix env fu offset sv x n and sv' :: server
  assume x: "x = sendFilePart env fu offset 8192 sv" and n: "(n, sv') = x" "0 < n"
  then have "n = length (take 8192 (drop offset (fu_file fu)))"
    by (auto simp: sendFilePart_def Let_def split: if_splits)
  with n(2) show "((env, fu, offset + n, sv'), env, fu, offset, sv) \<in> measure (\<lambda>(env, fu, offset, sv). length (fu_file fu) - offset)"
    by auto
qed simp

declare send_parts.simps [simp del]

text \<open>
  The file: None when its size cannot be read or it cannot be opened. The server's answer within
  five seconds: None when there is none, otherwise whether it accepts.
\<close>

definition file_type :: "u16 list \<Rightarrow> u16 list" where
  "file_type file = (if 0x2E \<in> set file then rev (takeWhile (\<lambda>c. c \<noteq> 0x2E) (rev file)) else file)"

definition file_attributes :: "transfer_env \<Rightarrow> u16 list \<Rightarrow> u8 list \<Rightarrow> Attribute list" where
  "file_attributes env file content =
     [attribute (wide ''name'') file, attribute (wide ''size'') (lx_text (te_lexical env) (length content)),
      attribute (wide ''type'') (file_type file)]"

definition sendFile :: "transfer_env \<Rightarrow> u8 list option \<Rightarrow> bool option \<Rightarrow> u16 list \<Rightarrow> uploader \<Rightarrow> server \<Rightarrow> bool \<times> uploader \<times> server" where
  "sendFile env content answer file fu sv =
     (if \<not> sv_connected sv then (False, fu, sv)
      else case content of
        None \<Rightarrow> (False, fu\<lparr>fu_name := file, fu_busy := False\<rparr>, sv)
      | Some bytes \<Rightarrow>
          let fu = fu\<lparr>fu_name := file, fu_file := bytes, fu_opened := True, fu_busy := True\<rparr>;
              sv = send_xml env (wide ''file'') (file_attributes env file bytes) sv;
              fu = (if answer = Some True then fu\<lparr>fu_accepted := True\<rparr> else fu)
          in if answer = None \<or> \<not> fu_accepted fu then (False, fu\<lparr>fu_busy := False, fu_opened := False\<rparr>, sv)
             else let sv = send_parts env fu 0 sv;
                      sv = send_xml env (wide ''file-finished'') (file_attributes env file bytes) sv
                  in (True, fu\<lparr>fu_opened := False, fu_busy := False\<rparr>, sv))"

text \<open>The server asks for a part again.\<close>

fun part_range :: "lexical \<Rightarrow> u16 list \<Rightarrow> u16 list \<Rightarrow> Attribute list \<Rightarrow> int \<times> int \<Rightarrow> fault + int \<times> int" where
  "part_range lx n m [] r = Inr r"
| "part_range lx n m (a # as) (start, stop) =
     (if at_name a = n then
        (case lx_int lx (at_value a) of None \<Rightarrow> Inl Uncaught | Some i \<Rightarrow> part_range lx n m as (i, stop))
      else if at_name a = m then
        (case lx_int lx (at_value a) of None \<Rightarrow> Inl Uncaught | Some i \<Rightarrow> part_range lx n m as (start, i))
      else part_range lx n m as (start, stop))"

text \<open>The start and the end are handed on as the offset and the size of the part, as unsigned numbers.\<close>

definition onReceiveFileErrorEvent :: "transfer_env \<Rightarrow> uploader \<Rightarrow> Element \<Rightarrow> server \<Rightarrow> fault + server" where
  "onReceiveFileErrorEvent env fu e sv =
     fbind (part_range (te_lexical env) (wide ''part-start'') (wide ''part-end'') (el_attributes e) (0, 0)) (\<lambda>(start, stop).
       Inr (if start \<noteq> 0 \<and> stop \<noteq> 0
            then snd (sendFilePart env fu (nat (start mod 2 ^ 32)) (nat (stop mod 2 ^ 32)) sv) else sv))"

section \<open>Receiving an update\<close>

text \<open>fileAllocated has no value before the first update; it is the memory's.\<close>

record updater =
  up_fileAllocated :: bool
  up_fileSize :: int
  up_fileName :: "u16 list"

fun update_attributes :: "lexical \<Rightarrow> Attribute list \<Rightarrow> updater \<Rightarrow> fault + updater" where
  "update_attributes lx [] up = Inr up"
| "update_attributes lx (a # as) up =
     (if at_name a = wide ''file-size'' then
        (case lx_int lx (at_value a) of None \<Rightarrow> Inl Uncaught | Some i \<Rightarrow> update_attributes lx as (up\<lparr>up_fileSize := i\<rparr>))
      else if at_name a = wide ''file-name'' then update_attributes lx as (up\<lparr>up_fileName := at_value a\<rparr>)
      else update_attributes lx as up)"

definition onReceiveUpdateEvent :: "transfer_env \<Rightarrow> Element \<Rightarrow> updater \<Rightarrow> server \<Rightarrow> fault + updater \<times> server" where
  "onReceiveUpdateEvent env e up sv =
     (if \<not> up_fileAllocated up then
        fbind (update_attributes (te_lexical env) (el_attributes e) up) (\<lambda>up.
          Inr (up\<lparr>up_fileAllocated := True\<rparr>, send_element env (setName e (wide ''update-accept'')) sv))
      else Inr (up, send_element env (setName e (wide ''update-reject'')) sv))"

text \<open>
  A part is copied to the address that a character of the buffer is, not to the address of the
  character: an address in the first or the last page, where no memory is. Only a copy of no bytes
  does not touch it.
\<close>

definition onReceiveUpdatePartEvent :: "transfer_env \<Rightarrow> Element \<Rightarrow> updater \<Rightarrow> server \<Rightarrow> fault + updater \<times> server" where
  "onReceiveUpdatePartEvent env e up sv =
     fbind (part_range (te_lexical env) (wide ''file-part-start'') (wide ''file-part-end'') (el_attributes e) (0, 0)) (\<lambda>(start, stop).
       if up_fileAllocated up then if stop - start = 0 then Inr (up, sv) else Inl BadPointer
       else Inr (up, send_element env (setName e (wide ''update-error'')) sv))"

definition onReceiveUpdateFinishedEvent :: "transfer_env \<Rightarrow> bool \<Rightarrow> Element \<Rightarrow> updater \<Rightarrow> server \<Rightarrow> updater \<times> server" where
  "onReceiveUpdateFinishedEvent env opened e up sv =
     (if \<not> opened then (up, send_element env (setName e (wide ''update-error'')) sv)
      else (up\<lparr>up_fileAllocated := False\<rparr>, send_element env (setName e (wide ''update-ok'')) sv))"

section \<open>The parts make up the file\<close>

text \<open>A connection on which everything gets through.\<close>

definition takes_all :: "transfer_env \<Rightarrow> bool" where
  "takes_all env \<longleftrightarrow> (\<forall>bs. te_send env bs = Some (length bs))"

definition with_bytes :: "server \<Rightarrow> u8 list \<Rightarrow> server" where
  "with_bytes sv bs = sv\<lparr>sv_wire := sv_wire sv @ bs\<rparr>"

lemma with_bytes_simps [simp]:
  "with_bytes (with_bytes sv a) b = with_bytes sv (a @ b)" "with_bytes sv [] = sv" "sv_connected (with_bytes sv a) = sv_connected sv"
  "sv_wire (with_bytes sv a) = sv_wire sv @ a"
  by (simp_all add: with_bytes_def)

lemma send_element_all:
  "takes_all env \<Longrightarrow> sv_connected sv \<Longrightarrow> send_element env e sv = with_bytes sv (te_utf8 env (toString e))"
  by (auto simp: send_element_def sendElement_def sendMessage_def put_bytes_def takes_all_def with_bytes_def)

lemma send_xml_all:
  "takes_all env \<Longrightarrow> sv_connected sv \<Longrightarrow> send_xml env n as sv = with_bytes sv (te_utf8 env (xml_document n as))"
  by (auto simp: send_xml_def sendXML_def sendMessage_def put_bytes_def takes_all_def with_bytes_def)

text \<open>The parts of a file from an offset on: pieces of 8192 bytes, the last one shorter, none empty.\<close>

definition parts_ok :: "u8 list \<Rightarrow> nat \<Rightarrow> (nat \<times> u8 list) list \<Rightarrow> bool" where
  "parts_ok file offset ps \<longleftrightarrow>
     concat (map snd ps) = drop offset file \<and>
     (\<forall>i < length ps. fst (ps ! i) = offset + length (concat (map snd (take i ps)))) \<and>
     (\<forall>p \<in> set ps. 0 < length (snd p) \<and> length (snd p) \<le> 8192)"

definition part_bytes :: "transfer_env \<Rightarrow> u16 list \<Rightarrow> (nat \<times> u8 list) list \<Rightarrow> u8 list" where
  "part_bytes env name ps = concat (map (\<lambda>(o', bs). te_utf8 env (toString (part_element env name o' bs))) ps)"

lemma parts_ok_Cons:
  assumes "bs = take 8192 (drop offset file)" "bs \<noteq> []" "parts_ok file (offset + length bs) ps"
  shows "parts_ok file offset ((offset, bs) # ps)"
proof -
  have "bs @ drop (offset + length bs) file = drop offset file"
    using assms(1) by (simp add: min_def) (metis append_take_drop_id drop_drop add.commute drop_all append_Nil2 le_add_diff_inverse nat_le_linear take_all)
  then show ?thesis using assms
    by (auto simp: parts_ok_def nth_Cons split: nat.split)
qed

lemma sendFilePart_all:
  assumes "takes_all env" "fu_opened fu" "sv_connected sv" "take count (drop offset (fu_file fu)) = bs" "bs \<noteq> []"
  shows "sendFilePart env fu offset count sv =
     (if length bs < count then 0 else length bs, with_bytes sv (te_utf8 env (toString (part_element env (fu_name fu) offset bs))))"
  unfolding sendFilePart_def assms(4) Let_def using assms by (simp add: send_element_all)

lemma send_parts_all:
  assumes "takes_all env" "fu_opened fu"
  shows "sv_connected sv \<Longrightarrow>
     \<exists>ps. send_parts env fu offset sv = with_bytes sv (part_bytes env (fu_name fu) ps) \<and> parts_ok (fu_file fu) offset ps"
proof (induction "length (fu_file fu) - offset" arbitrary: offset sv rule: less_induct)
  case less
  let ?bs = "take 8192 (drop offset (fu_file fu))"
  show ?case
  proof (cases "?bs = []")
    case True
    then have "send_parts env fu offset sv = sv" using assms(2) by (simp add: send_parts.simps sendFilePart_def)
    then show ?thesis using True by (intro exI[of _ "[]"]) (auto simp: part_bytes_def parts_ok_def)
  next
    case False
    let ?sv = "with_bytes sv (te_utf8 env (toString (part_element env (fu_name fu) offset ?bs)))"
    have part: "sendFilePart env fu offset 8192 sv = (if length ?bs < 8192 then 0 else length ?bs, ?sv)"
      by (rule sendFilePart_all[OF assms less.prems refl False])
    show ?thesis
    proof (cases "length ?bs < 8192")
      case True
      then have "drop (offset + length ?bs) (fu_file fu) = []" by auto
      then have "parts_ok (fu_file fu) offset [(offset, ?bs)]"
        by (intro parts_ok_Cons[OF refl False]) (simp add: parts_ok_def)
      moreover have "send_parts env fu offset sv = ?sv" using part True by (simp add: send_parts.simps)
      ultimately show ?thesis by (intro exI[of _ "[(offset, ?bs)]"]) (simp add: part_bytes_def)
    next
      case long: False
      have "length (fu_file fu) - (offset + length ?bs) < length (fu_file fu) - offset" using False by auto
      from less.hyps[OF this, of ?sv] less.prems obtain ps where ps:
        "send_parts env fu (offset + length ?bs) ?sv = with_bytes ?sv (part_bytes env (fu_name fu) ps)"
        "parts_ok (fu_file fu) (offset + length ?bs) ps" by auto
      have "send_parts env fu offset sv = send_parts env fu (offset + length ?bs) ?sv"
        using part long False by (subst send_parts.simps) simp
      then show ?thesis using ps parts_ok_Cons[OF refl False ps(2)]
        by (intro exI[of _ "(offset, ?bs) # ps"]) (simp add: part_bytes_def)
    qed
  qed
qed


definition example_transfer :: transfer_env where
  "example_transfer = \<lparr>te_lexical = \<lparr>lx_int = (\<lambda>s. case s of [c] \<Rightarrow> Some (uint c) | _ \<Rightarrow> None), lx_text = (\<lambda>n. [of_nat n]), lx_time = []\<rparr>,
     te_utf8 = map ucast, te_send = (\<lambda>bs. Some (length bs)), te_base64 = (\<lambda>bs. bs), te_unbase64 = (\<lambda>bs. bs)\<rparr>"

lemma example_takes_all: "takes_all example_transfer"
  by (simp add: takes_all_def example_transfer_def)


section \<open>A part asked for again\<close>

text \<open>
  When the server asks for the part from start to end again it is sent that many bytes as the
  end says, not as many as there are in between: the end is taken for the size.
\<close>

theorem resend_takes_end_for_size:
  assumes "takes_all env" "sv_connected sv" "fu_opened fu"
    "part_range (te_lexical env) (wide ''part-start'') (wide ''part-end'') (el_attributes e) (0, 0) = Inr (int a, int b)"
    "0 < a" "a < b" "b < 2 ^ 32" "a + b \<le> length (fu_file fu)"
  shows "\<exists>bs. onReceiveFileErrorEvent env fu e sv = Inr (with_bytes sv (te_utf8 env (toString (part_element env (fu_name fu) a bs)))) \<and>
     length bs = b \<and> b - a < length bs"
proof -
  let ?bs = "take b (drop a (fu_file fu))"
  have len: "length ?bs = b" using assms(8) by simp
  then have "?bs \<noteq> []" using assms(5,6) by auto
  from sendFilePart_all[OF assms(1,3,2) refl this]
  have "snd (sendFilePart env fu a b sv) = with_bytes sv (te_utf8 env (toString (part_element env (fu_name fu) a ?bs)))" by simp
  moreover have "nat (int a mod 2 ^ 32) = a" "nat (int b mod 2 ^ 32) = b" using assms(6,7) by simp_all
  ultimately have "onReceiveFileErrorEvent env fu e sv = Inr (with_bytes sv (te_utf8 env (toString (part_element env (fu_name fu) a ?bs))))"
    using assms(5,6) unfolding onReceiveFileErrorEvent_def assms(4) by simp
  then show ?thesis using len assms(5,6) by (intro exI[of _ ?bs]) simp
qed

definition example_resend :: Element where
  "example_resend = Elem [] [attribute (wide ''part-start'') [2], attribute (wide ''part-end'') [3]] [] []"

theorem resend_takes_end_for_size_witness:
  "\<exists>bs. onReceiveFileErrorEvent example_transfer (new_uploader\<lparr>fu_opened := True, fu_file := [1, 2, 3, 4, 5]\<rparr>) example_resend
       (setConnected new_server True) =
     Inr (with_bytes (setConnected new_server True) (te_utf8 example_transfer (toString (part_element example_transfer [] 2 bs)))) \<and>
     length bs = 3"
proof -
  have "part_range (te_lexical example_transfer) (wide ''part-start'') (wide ''part-end'') (el_attributes example_resend) (0, 0) =
      Inr (int 2, int 3)"
    by (simp add: example_transfer_def example_resend_def attribute_def)
  note r = resend_takes_end_for_size[OF example_takes_all _ _ this, of "setConnected new_server True"
      "new_uploader\<lparr>fu_opened := True, fu_file := [1, 2, 3, 4, 5]\<rparr>"]
  have "fu_name (new_uploader\<lparr>fu_opened := True, fu_file := [1, 2, 3, 4, 5]\<rparr>) = []" by (simp add: new_uploader_def)
  then show ?thesis using r by (simp add: setConnected_def) blast
qed

text \<open>An update cannot be received: its first part that is not empty is copied to nowhere.\<close>

lemma update_part_faults:
  "up_fileAllocated up \<Longrightarrow>
   part_range (te_lexical env) (wide ''file-part-start'') (wide ''file-part-end'') (el_attributes e) (0, 0) = Inr (a, b) \<Longrightarrow> a \<noteq> b \<Longrightarrow>
     onReceiveUpdatePartEvent env e up sv = Inl BadPointer"
  by (simp add: onReceiveUpdatePartEvent_def)

end
