(* ===== verification/ClientOptions.thy ===== *)
theory ClientOptions
  imports XmlElement
begin

text \<open>
  OptionsManager.cpp of the client and the command line in CaptureClient.cpp: the named options,
  who is told of a change, and what the arguments of the program set them to.
\<close>

section \<open>Options\<close>

text \<open>The map, and the names the signal onOptionChanged has been given so far.\<close>

record options =
  op_map :: "u16 list \<rightharpoonup> u16 list"
  op_changed :: "u16 list list"

definition getOption :: "options \<Rightarrow> u16 list \<Rightarrow> u16 list" where
  "getOption op n = (case op_map op n of Some v \<Rightarrow> v | None \<Rightarrow> [])"

definition addOption :: "u16 list \<Rightarrow> u16 list \<Rightarrow> options \<Rightarrow> options" where
  "addOption n v op = op\<lparr>op_map := (op_map op)(n \<mapsto> v), op_changed := op_changed op @ [n]\<rparr>"

fun option_attributes :: "Attribute list \<Rightarrow> u16 list \<times> u16 list \<Rightarrow> u16 list \<times> u16 list" where
  "option_attributes [] r = r"
| "option_attributes (a # as) (n, v) =
     (if at_name a = wide ''name'' then option_attributes as (at_value a, v)
      else if at_name a = wide ''value'' then option_attributes as (n, at_value a)
      else option_attributes as (n, v))"

definition onOptionEvent :: "Element \<Rightarrow> options \<Rightarrow> options" where
  "onOptionEvent e op =
     (if el_name e = wide ''option'' then
        case option_attributes (el_attributes e) ([], []) of
          (n, v) \<Rightarrow> if n \<noteq> [] \<and> v \<noteq> [] then addOption n v op else op
      else op)"

text \<open>A new listener is told of every option there is, in the order of the hash map.\<close>

definition connect_onOptionChanged :: "u16 list list \<Rightarrow> options \<Rightarrow> options" where
  "connect_onOptionChanged order op = op\<lparr>op_changed := op_changed op @ order\<rparr>"

lemma getOption_addOption [simp]: "getOption (addOption n v op) m = (if m = n then v else getOption op m)"
  by (simp add: getOption_def addOption_def)

lemma onOptionEvent_keeps_set: "getOption op m \<noteq> [] \<Longrightarrow> getOption (onOptionEvent e op) m \<noteq> []"
  by (auto simp: onOptionEvent_def split: prod.splits)

section \<open>Arguments of the program\<close>

record settings =
  st_serverIp :: "u16 list"
  st_serverPort :: "u16 list"
  st_vmServerId :: "u16 list"
  st_vmId :: "u16 list"
  st_logSystemEventsFile :: "u16 list"
  st_collectModifiedFiles :: "u16 list"
  st_captureNetworkPackets :: "u16 list"

definition default_settings :: settings where
  "default_settings = \<lparr>st_serverIp = [], st_serverPort = wide ''7070'', st_vmServerId = [], st_vmId = [],
     st_logSystemEventsFile = [], st_collectModifiedFiles = wide ''false'', st_captureNetworkPackets = wide ''false''\<rparr>"

text \<open>An option that takes a value, and what the value sets.\<close>

definition valued :: "u16 list \<Rightarrow> (u16 list \<Rightarrow> settings \<Rightarrow> settings) option" where
  "valued opt =
     (if opt = wide ''-s'' then Some (\<lambda>v. st_serverIp_update (\<lambda>_. v))
      else if opt = wide ''-p'' then Some (\<lambda>v. st_serverPort_update (\<lambda>_. v))
      else if opt = wide ''-a'' then Some (\<lambda>v. st_vmServerId_update (\<lambda>_. v))
      else if opt = wide ''-b'' then Some (\<lambda>v. st_vmId_update (\<lambda>_. v))
      else if opt = wide ''-l'' then Some (\<lambda>v. st_logSystemEventsFile_update (\<lambda>_. v))
      else None)"

text \<open>The letters of a flag; for n the WinPcap library must load or the program ends.\<close>

fun flag_letters :: "bool \<Rightarrow> u16 list \<Rightarrow> settings \<Rightarrow> fault + settings" where
  "flag_letters wpcap [] st = Inr st"
| "flag_letters wpcap (c # cs) st =
     (if c = 0x63 then flag_letters wpcap cs (st\<lparr>st_collectModifiedFiles := wide ''true''\<rparr>)
      else if c = 0x6E then
        (if wpcap then flag_letters wpcap cs (st\<lparr>st_captureNetworkPackets := wide ''true''\<rparr>) else Inl Exited)
      else flag_letters wpcap cs st)"

text \<open>An argument that begins with a dash is no value.\<close>

definition dashed :: "u16 list \<Rightarrow> bool" where
  "dashed a \<longleftrightarrow> (case a of c # _ \<Rightarrow> c = 0x2D | [] \<Rightarrow> False)"

fun read_arguments :: "bool \<Rightarrow> u16 list list \<Rightarrow> settings \<Rightarrow> fault + settings" where
  "read_arguments wpcap [] st = Inr st"
| "read_arguments wpcap (opt # args) st =
     (if opt = wide ''--help'' \<or> opt = wide ''-h'' then Inl Exited
      else case valued opt of
        Some set_value \<Rightarrow>
          (case args of
             v # rest \<Rightarrow> if \<not> dashed v then read_arguments wpcap rest (set_value v st) else read_arguments wpcap args st
           | [] \<Rightarrow> read_arguments wpcap args st)
      | None \<Rightarrow>
          if dashed opt then fbind (flag_letters wpcap (tl opt) st) (read_arguments wpcap args)
          else read_arguments wpcap args st)"

definition set_options :: "settings \<Rightarrow> options \<Rightarrow> options" where
  "set_options st =
     addOption (wide ''capture-network-packets-benign'') (wide ''false'') \<circ>
     addOption (wide ''capture-network-packets-malicious'') (wide ''false'') \<circ>
     addOption (wide ''capture-network-packets'') (st_captureNetworkPackets st) \<circ>
     addOption (wide ''collect-modified-files'') (st_collectModifiedFiles st) \<circ>
     addOption (wide ''log-system-events-file'') (st_logSystemEventsFile st) \<circ>
     addOption (wide ''vm-id'') (st_vmId st) \<circ>
     addOption (wide ''vm-server-id'') (st_vmServerId st) \<circ>
     addOption (wide ''port'') (st_serverPort st) \<circ>
     addOption (wide ''server'') (st_serverIp st)"

text \<open>What the arguments in front set stays unless an argument behind sets it again.\<close>

lemma read_arguments_plain:
  assumes "\<not> dashed a" shows "read_arguments wpcap (a # args) st = read_arguments wpcap args st"
proof -
  have "list_all (\<lambda>s. dashed (wide s)) [''--help'', ''-h'', ''-s'', ''-p'', ''-a'', ''-b'', ''-l'']" by code_simp
  then have d: "dashed (wide ''--help'')" "dashed (wide ''-h'')" "dashed (wide ''-s'')" "dashed (wide ''-p'')" "dashed (wide ''-a'')"
    "dashed (wide ''-b'')" "dashed (wide ''-l'')" by (simp_all only: list.pred_inject)
  have ne: "dashed b \<Longrightarrow> a \<noteq> b" for b using assms by auto
  have "valued a = None" by (simp add: valued_def ne d)
  then show ?thesis using assms by (simp add: ne d)
qed

lemma read_arguments_server:
  "\<not> dashed v \<Longrightarrow> read_arguments wpcap (wide ''-s'' # v # args) st = read_arguments wpcap args (st\<lparr>st_serverIp := v\<rparr>)"
  by (simp add: valued_def)

lemma set_options_server: "getOption (set_options st op) (wide ''server'') = st_serverIp st"
  by (simp add: set_options_def)

end
