(* ===== verification/Analyzer.thy ===== *)
theory Analyzer
  imports FileTransfer ClientOptions
begin

text \<open>
  Analyzer.cpp of the client: between the start and the end of a visit the events of the monitors
  make the visit malicious and are sent to the server; at the end the copies and the captured
  packets are sent and the verdict is. The files and the packet dumper are seen through what the
  analyzer does with them.
\<close>

section \<open>State\<close>

datatype dumper_action = CreateDumper | StartDumper | StopDumper | DeletePcap | DeleteDumper

text \<open>The pointer to the packet dumper: null, to a dumper, or to one that was deleted.\<close>

datatype dumper = NoDumper | LiveDumper | DeletedDumper

datatype analyzer_action = CreateLogs | MonitorModifiedFiles bool | CopyModifiedFiles | DeleteFiles | Compress | DeleteLogs
  | ClearExclusions | Dumper dumper_action

text \<open>How many slots of the analyzer the monitors call, and whether the last connection is still up.\<close>

record analyzer =
  an_malicious :: bool
  an_collectModifiedFiles :: bool
  an_captureNetworkPackets :: bool
  an_dumper :: dumper
  an_slots :: nat
  an_connection :: bool
  an_server :: server
  an_actions :: "analyzer_action list"

text \<open>What the world answers: whether 7za starts, the archive, whether the server accepts it.\<close>

record analyzer_env =
  ae_transfer :: transfer_env
  ae_options :: options
  ae_compressed :: bool
  ae_archive_name :: "u16 list"
  ae_archive :: "u8 list option"
  ae_accepted :: "bool option"

definition act :: "analyzer_action \<Rightarrow> analyzer \<Rightarrow> analyzer" where
  "act a an = an\<lparr>an_actions := an_actions an @ [a]\<rparr>"

definition option_is :: "analyzer_env \<Rightarrow> string \<Rightarrow> string \<Rightarrow> bool" where
  "option_is env n v \<longleftrightarrow> getOption (ae_options env) (wide n) = wide v"

section \<open>Options\<close>

text \<open>One of the options about the packets is switched on or off.\<close>

definition packet_option :: "analyzer_env \<Rightarrow> bool \<Rightarrow> analyzer \<Rightarrow> analyzer" where
  "packet_option env on an =
     (if on then
        (if an_dumper an = NoDumper then act (Dumper CreateDumper) (an\<lparr>an_dumper := LiveDumper\<rparr>) else an)\<lparr>an_captureNetworkPackets := True\<rparr>
      else if \<not> an_captureNetworkPackets an \<and> \<not> option_is env ''capture-network-packets-malicious'' ''true'' \<and>
              \<not> option_is env ''capture-network-packets-benign'' ''true''
      then let an = an\<lparr>an_captureNetworkPackets := False\<rparr>
           in if an_dumper an \<noteq> NoDumper then act (Dumper DeleteDumper) (an\<lparr>an_dumper := DeletedDumper\<rparr>) else an
      else an)"

definition onOptionChanged :: "analyzer_env \<Rightarrow> analyzer \<Rightarrow> u16 list \<Rightarrow> analyzer" where
  "onOptionChanged env an option =
     (let on = getOption (ae_options env) option = wide ''true'' in
      if option = wide ''capture-network-packets-malicious'' \<or> option = wide ''capture-network-packets-benign'' \<or>
         option = wide ''capture-network-packets'' then packet_option env on an
      else if option = wide ''collect-modified-files'' then
        act (MonitorModifiedFiles on) (an\<lparr>an_collectModifiedFiles := on\<rparr>)
      else if option = wide ''send-exclusion-lists'' then (if on then act ClearExclusions an else an)
      else an)"

text \<open>The constructor: told of every option there is, in the order of the hash map.\<close>

definition new_analyzer :: "analyzer_env \<Rightarrow> u16 list list \<Rightarrow> server \<Rightarrow> analyzer" where
  "new_analyzer env order sv =
     fold (\<lambda>n an. onOptionChanged env an n) order
       \<lparr>an_malicious = False, an_collectModifiedFiles = False,
        an_captureNetworkPackets = option_is env ''capture-network-packets'' ''true'',
        an_dumper = NoDumper, an_slots = 0, an_connection = False, an_server = sv, an_actions = []\<rparr>"

section \<open>Start and stop\<close>

definition use_dumper :: "dumper_action \<Rightarrow> analyzer \<Rightarrow> fault + analyzer" where
  "use_dumper a an = (case an_dumper an of LiveDumper \<Rightarrow> Inr (act (Dumper a) an) | NoDumper \<Rightarrow> Inl NullDeref | DeletedDumper \<Rightarrow> Inl BadPointer)"

definition start :: "analyzer \<Rightarrow> fault + analyzer" where
  "start an =
     (let an = act CreateLogs an; an = an\<lparr>an_malicious := False\<rparr> in
      fbind (if an_captureNetworkPackets an then use_dumper StartDumper an else Inr an) (\<lambda>an.
      let an = an\<lparr>an_slots := Suc (an_slots an), an_connection := True\<rparr> in
      Inr (if an_collectModifiedFiles an then act (MonitorModifiedFiles True) an else an)))"

text \<open>The verdict decides which captured packets and files are kept and whether the log is sent.\<close>

definition delete_pcap :: "analyzer_env \<Rightarrow> analyzer \<Rightarrow> fault + analyzer" where
  "delete_pcap env an =
     fbind (if an_malicious an \<and> option_is env ''capture-network-packets-malicious'' ''false'' \<and> an_dumper an \<noteq> NoDumper
            then use_dumper DeletePcap an else Inr an) (\<lambda>an.
     if \<not> an_malicious an \<and> option_is env ''capture-network-packets-benign'' ''false'' \<and> an_dumper an \<noteq> NoDumper
     then use_dumper DeletePcap an else Inr an)"

definition upload_wanted :: "analyzer_env \<Rightarrow> analyzer \<Rightarrow> bool" where
  "upload_wanted env an \<longleftrightarrow>
     an_malicious an \<and> an_collectModifiedFiles an \<or>
     \<not> an_malicious an \<and> option_is env ''capture-network-packets-benign'' ''true'' \<or>
     an_malicious an \<and> option_is env ''capture-network-packets-malicious'' ''true''"

text \<open>When 7za does not start the client ends; what 7za makes of the directory is not looked at.\<close>

definition compressLogDirectory :: "analyzer_env \<Rightarrow> analyzer \<Rightarrow> fault + analyzer" where
  "compressLogDirectory env an = (if ae_compressed env then Inr (act Compress an) else Inl Exited)"

definition upload :: "analyzer_env \<Rightarrow> analyzer \<Rightarrow> fault + analyzer" where
  "upload env an =
     fbind (compressLogDirectory env an) (\<lambda>an.
        Inr (if sv_connected (an_server an) then
               an\<lparr>an_server := snd (snd (sendFile (ae_transfer env) (ae_archive env) (ae_accepted env) (ae_archive_name env)
                                          new_uploader (an_server an)))\<rparr>
             else an))"

definition send_logs :: "analyzer_env \<Rightarrow> analyzer \<Rightarrow> fault + analyzer" where
  "send_logs env an =
     (if an_collectModifiedFiles an \<or> an_captureNetworkPackets an then
        fbind (delete_pcap env an) (\<lambda>an.
        let an = (if an_malicious an then an else act DeleteFiles an)
        in if upload_wanted env an then upload env an else Inr an)
      else Inr an)"

definition stop :: "analyzer_env \<Rightarrow> analyzer \<Rightarrow> fault + analyzer" where
  "stop env an =
     (let an = (if an_connection an then an\<lparr>an_slots := an_slots an - 1, an_connection := False\<rparr> else an) in
      fbind (if an_captureNetworkPackets an then use_dumper StopDumper an else Inr an) (\<lambda>an.
      let an = (if an_collectModifiedFiles an then act CopyModifiedFiles (act (MonitorModifiedFiles False) an) else an) in
      if getOption (ae_options env) (wide ''server'') \<noteq> [] then
        fbind (send_logs env an) (\<lambda>an. Inr (act DeleteLogs an))
      else Inr an))"

section \<open>What the visitor says\<close>

definition verdict_element :: "lexical \<Rightarrow> Element \<Rightarrow> string \<Rightarrow> bool \<Rightarrow> Element" where
  "verdict_element lx e type malicious =
     addAttribute (addAttribute e (wide ''type'') (wide type)) (wide ''malicious'') (lx_text lx (of_bool malicious))"

definition send_verdict :: "analyzer_env \<Rightarrow> Element \<Rightarrow> string \<Rightarrow> analyzer \<Rightarrow> analyzer" where
  "send_verdict env e type an =
     an\<lparr>an_server := send_element (ae_transfer env) (verdict_element (te_lexical (ae_transfer env)) e type (an_malicious an)) (an_server an)\<rparr>"

definition update :: "analyzer_env \<Rightarrow> u32 \<Rightarrow> VisitEvent \<Rightarrow> analyzer \<Rightarrow> fault + analyzer" where
  "update env eventType v an =
     (let lx = te_lexical (ae_transfer env); e = VisitEvent_toElement lx v in
      if eventType = CAPTURE_VISITATION_PRESTART then start an
      else if eventType = CAPTURE_VISITATION_START then Inr (send_verdict env e ''start'' an)
      else if eventType = CAPTURE_VISITATION_FINISH then
        fbind (stop env an) (\<lambda>an. Inr (send_verdict env e ''finish'' an))
      else if eventType = CAPTURE_VISITATION_POSTFINISH then Inr an
      else fbind (stop env an) (\<lambda>an.
        Inr (send_verdict env (addAttribute e (wide ''error-code'') (lx_text lx (unat eventType))) ''error'' an)))"

section \<open>What the monitors say\<close>

datatype monitor_event =
    ProcessEvent bool "u16 list" u32 "u16 list" u32 "u16 list"
  | RegistryEvent "u16 list" "u16 list" u32 "u16 list" "u16 list"
  | FileEvent "u16 list" "u16 list" u32 "u16 list" "u16 list"
  | ConnectionEvent "u16 list" "u16 list" u32 "u16 list" "u16 list"

definition system_event :: "lexical \<Rightarrow> u16 list \<Rightarrow> u16 list \<Rightarrow> u32 \<Rightarrow> u16 list \<Rightarrow> u16 list \<Rightarrow> u16 list \<Rightarrow> u16 list \<Rightarrow> Attribute list" where
  "system_event lx type time processId process action object1 object2 =
     [attribute (wide ''time'') time, attribute (wide ''type'') type, attribute (wide ''processId'') (lx_text lx (unat processId)),
      attribute (wide ''process'') process, attribute (wide ''action'') action, attribute (wide ''object1'') object1,
      attribute (wide ''object2'') object2]"

fun event_attributes :: "lexical \<Rightarrow> monitor_event \<Rightarrow> Attribute list" where
  "event_attributes lx (ProcessEvent created time parentProcessId parentProcess processId process) =
     system_event lx (wide ''process'') time parentProcessId parentProcess (if created then wide ''created'' else wide ''terminated'')
       (lx_text lx (unat processId)) process"
| "event_attributes lx (RegistryEvent type time processId processPath path) =
     system_event lx (wide ''registry'') time processId processPath type path (wide ''-1'')"
| "event_attributes lx (FileEvent type time processId processPath path) =
     system_event lx (wide ''file'') time processId processPath type path (wide ''-1'')"
| "event_attributes lx (ConnectionEvent type time processId processPath path) =
     system_event lx (wide ''connection'') time processId processPath type path (wide ''-1'')"

definition on_event :: "analyzer_env \<Rightarrow> monitor_event \<Rightarrow> analyzer \<Rightarrow> analyzer" where
  "on_event env ev an =
     an\<lparr>an_malicious := True,
        an_server := send_xml (ae_transfer env) (wide ''system-event'') (event_attributes (te_lexical (ae_transfer env)) ev) (an_server an)\<rparr>"

text \<open>A monitor calls each of the connected slots.\<close>

definition monitor_signal :: "analyzer_env \<Rightarrow> monitor_event \<Rightarrow> analyzer \<Rightarrow> analyzer" where
  "monitor_signal env ev an = (on_event env ev ^^ an_slots an) an"

text \<open>What happens to the analyzer, one after the other.\<close>

datatype occurrence = Notified u32 VisitEvent | Signalled monitor_event | OptionChanged "u16 list"

fun occurs :: "analyzer_env \<Rightarrow> occurrence \<Rightarrow> analyzer \<Rightarrow> fault + analyzer" where
  "occurs env (Notified c v) an = update env c v an"
| "occurs env (Signalled ev) an = Inr (monitor_signal env ev an)"
| "occurs env (OptionChanged n) an = Inr (onOptionChanged env an n)"

fun happen :: "(analyzer_env \<times> occurrence) list \<Rightarrow> analyzer \<Rightarrow> fault + analyzer" where
  "happen [] an = Inr an"
| "happen ((env, x) # xs) an = fbind (occurs env x an) (happen xs)"

lemma happen_append: "happen (xs @ ys) an = fbind (happen xs an) (happen ys)"
proof (induction xs arbitrary: an)
  case (Cons x xs)
  then show ?case by (cases x; cases "occurs (fst x) (snd x) an") auto
qed simp

section \<open>The packet dumper\<close>

text \<open>While packets are captured there is a dumper, and otherwise there never was one.\<close>

definition analyzer_ok :: "analyzer \<Rightarrow> bool" where
  "analyzer_ok an \<longleftrightarrow> an_dumper an = (if an_captureNetworkPackets an then LiveDumper else NoDumper)"

text \<open>The same while the constructor is told of the options.\<close>

definition analyzer_starting :: "analyzer \<Rightarrow> bool" where
  "analyzer_starting an \<longleftrightarrow> an_dumper an = NoDumper \<or> analyzer_ok an"

lemma act_simps [simp]:
  "analyzer_ok (act a an) = analyzer_ok an" "analyzer_starting (act a an) = analyzer_starting an"
  "an_captureNetworkPackets (act a an) = an_captureNetworkPackets an" "an_dumper (act a an) = an_dumper an"
  "an_malicious (act a an) = an_malicious an" "an_server (act a an) = an_server an" "an_slots (act a an) = an_slots an"
  "an_connection (act a an) = an_connection an" "an_collectModifiedFiles (act a an) = an_collectModifiedFiles an"
  by (simp_all add: analyzer_ok_def analyzer_starting_def act_def)

lemma collect_simps [simp]:
  "analyzer_ok (an\<lparr>an_collectModifiedFiles := c\<rparr>) = analyzer_ok an"
  "analyzer_starting (an\<lparr>an_collectModifiedFiles := c\<rparr>) = analyzer_starting an"
  by (simp_all add: analyzer_ok_def analyzer_starting_def)

lemma packet_option_ok: "analyzer_ok an \<Longrightarrow> analyzer_ok (packet_option env on an)"
  and packet_option_starting: "analyzer_starting an \<Longrightarrow> analyzer_starting (packet_option env on an)"
  and packet_option_on: "analyzer_starting an \<Longrightarrow> analyzer_ok (packet_option env True an)"
  and packet_option_capture: "an_captureNetworkPackets an \<Longrightarrow> an_captureNetworkPackets (packet_option env on an)"
  by (cases "an_dumper an"; cases "an_captureNetworkPackets an";
      simp add: packet_option_def analyzer_ok_def analyzer_starting_def act_def Let_def)+

lemma onOptionChanged_cases:
  obtains on where "onOptionChanged env an n = packet_option env on an"
  | c where "onOptionChanged env an n = act (MonitorModifiedFiles c) (an\<lparr>an_collectModifiedFiles := c\<rparr>)"
  | "onOptionChanged env an n = act ClearExclusions an"
  | "onOptionChanged env an n = an"
  unfolding onOptionChanged_def Let_def by metis

lemma onOptionChanged_ok: "analyzer_ok an \<Longrightarrow> analyzer_ok (onOptionChanged env an n)"
  by (rule onOptionChanged_cases[of env an n]) (simp_all add: packet_option_ok)

lemma onOptionChanged_starting: "analyzer_starting an \<Longrightarrow> analyzer_starting (onOptionChanged env an n)"
  by (rule onOptionChanged_cases[of env an n]) (simp_all add: packet_option_starting)

lemma onOptionChanged_capture: "an_captureNetworkPackets an \<Longrightarrow> an_captureNetworkPackets (onOptionChanged env an n)"
  by (rule onOptionChanged_cases[of env an n]) (simp_all add: packet_option_capture)

lemma onOptionChanged_on:
  "analyzer_starting an \<Longrightarrow> option_is env ''capture-network-packets'' ''true'' \<Longrightarrow>
     analyzer_ok (onOptionChanged env an (wide ''capture-network-packets''))"
  by (simp add: onOptionChanged_def option_is_def packet_option_on)

lemma fold_options_ok: "analyzer_ok an \<Longrightarrow> analyzer_ok (fold (\<lambda>n an. onOptionChanged env an n) order an)"
  by (induction order arbitrary: an) (simp_all add: onOptionChanged_ok)

lemma fold_options_starting:
  "analyzer_starting an \<Longrightarrow> option_is env ''capture-network-packets'' ''true'' \<Longrightarrow> wide ''capture-network-packets'' \<in> set order \<Longrightarrow>
     analyzer_ok (fold (\<lambda>n an. onOptionChanged env an n) order an)"
  by (induction order arbitrary: an) (auto simp: onOptionChanged_starting fold_options_ok dest: onOptionChanged_on)

lemma new_analyzer_ok:
  assumes "dom (op_map (ae_options env)) \<subseteq> set order" shows "analyzer_ok (new_analyzer env order sv)"
proof (cases "option_is env ''capture-network-packets'' ''true''")
  case True
  then have "wide ''capture-network-packets'' \<in> dom (op_map (ae_options env))"
    by (auto simp: option_is_def getOption_def wide_def split: option.splits)
  then show ?thesis unfolding new_analyzer_def
    by (intro fold_options_starting) (use True assms in \<open>auto simp: analyzer_starting_def\<close>)
next
  case False
  then show ?thesis unfolding new_analyzer_def by (intro fold_options_ok) (simp add: analyzer_ok_def)
qed

text \<open>What every operation keeps of the dumper.\<close>

definition same_dumper :: "analyzer \<Rightarrow> analyzer \<Rightarrow> bool" where
  "same_dumper an an' \<longleftrightarrow> an_dumper an' = an_dumper an \<and> an_captureNetworkPackets an' = an_captureNetworkPackets an"

lemma use_dumper_ok:
  "analyzer_ok an \<Longrightarrow> an_captureNetworkPackets an \<Longrightarrow> use_dumper a an = Inr (act (Dumper a) an)"
  by (simp add: use_dumper_def analyzer_ok_def)

lemma same_dumper_simps [simp]:
  "same_dumper an an" "same_dumper an (act a an') = same_dumper an an'" "same_dumper (act a an) an' = same_dumper an an'"
  "same_dumper an (an'\<lparr>an_slots := n\<rparr>) = same_dumper an an'" "same_dumper an (an'\<lparr>an_connection := c\<rparr>) = same_dumper an an'"
  "same_dumper an (an'\<lparr>an_malicious := c\<rparr>) = same_dumper an an'" "same_dumper an (an'\<lparr>an_server := sv\<rparr>) = same_dumper an an'"
  by (simp_all add: same_dumper_def)

lemma same_dumper_ok: "same_dumper an an' \<Longrightarrow> analyzer_ok an' = analyzer_ok an"
  by (simp add: same_dumper_def analyzer_ok_def)

lemma start_ok:
  assumes "analyzer_ok an"
  shows "\<exists>an'. start an = Inr an' \<and> same_dumper an an' \<and> an_malicious an' = False \<and> an_server an' = an_server an \<and>
     an_slots an' = Suc (an_slots an) \<and> an_connection an'"
proof -
  let ?a = "(act CreateLogs an)\<lparr>an_malicious := False\<rparr>"
  have "analyzer_ok ?a" using assms by (simp add: analyzer_ok_def act_def)
  then have "(if an_captureNetworkPackets ?a then use_dumper StartDumper ?a else Inr ?a) =
      Inr (if an_captureNetworkPackets ?a then act (Dumper StartDumper) ?a else ?a)" by (simp add: use_dumper_ok)
  then show ?thesis by (simp add: start_def Let_def)
qed

text \<open>An operation that leaves the dumper and the verdict alone and sends at most something.\<close>

definition quiet :: "analyzer_env \<Rightarrow> analyzer \<Rightarrow> analyzer \<Rightarrow> bool" where
  "quiet env an an' \<longleftrightarrow> same_dumper an an' \<and> an_malicious an' = an_malicious an \<and> an_slots an' = an_slots an \<and>
     an_connection an' = an_connection an \<and>
     (takes_all (ae_transfer env) \<longrightarrow> sv_connected (an_server an) \<longrightarrow> (\<exists>bs. an_server an' = with_bytes (an_server an) bs))"

lemma quiet_refl [simp]: "quiet env an an"
  by (auto simp: quiet_def intro!: exI[of _ "[]"])

lemma quiet_act [simp]: "quiet env an (act a an') = quiet env an an'"
  by (simp add: quiet_def)

lemma quiet_trans: "quiet env a b \<Longrightarrow> quiet env b c \<Longrightarrow> quiet env a c"
  by (fastforce simp: quiet_def same_dumper_def)

lemma sendFile_wire:
  assumes "takes_all env" "sv_connected sv"
  shows "\<exists>bs. snd (snd (sendFile env content answer file fu sv)) = with_bytes sv bs"
proof (cases content)
  case None
  then show ?thesis using assms by (auto simp: sendFile_def intro!: exI[of _ "[]"])
next
  case (Some bytes)
  let ?sv = "with_bytes sv (te_utf8 env (xml_document (wide ''file'') (file_attributes env file bytes)))"
  define fu1 where "fu1 = fu\<lparr>fu_name := file, fu_file := bytes, fu_opened := True, fu_busy := True\<rparr>"
  define fu2 where "fu2 = (if answer = Some True then fu1\<lparr>fu_accepted := True\<rparr> else fu1)"
  have "fu_opened fu2" by (simp add: fu2_def fu1_def)
  then obtain ps where ps: "send_parts env fu2 0 ?sv = with_bytes ?sv (part_bytes env (fu_name fu2) ps)"
    using send_parts_all[OF assms(1), of fu2 ?sv 0] assms(2) by auto
  have "snd (snd (sendFile env content answer file fu sv)) =
     (if answer = None \<or> \<not> fu_accepted fu2 then ?sv
      else send_xml env (wide ''file-finished'') (file_attributes env file bytes) (send_parts env fu2 0 ?sv))"
    using assms Some by (cases "answer = Some True") (simp_all add: sendFile_def fu1_def Let_def fu2_def send_xml_all)
  then show ?thesis using assms ps by (auto simp: send_xml_all)
qed

lemma upload_quiet: "upload env an = Inr an' \<Longrightarrow> quiet env an an'"
  using sendFile_wire[of "ae_transfer env" "an_server an"]
  by (auto simp: upload_def compressLogDirectory_def quiet_def Let_def same_dumper_def intro: exI[of _ "[]"] split: if_splits)

lemma delete_pcap_quiet:
  assumes "analyzer_ok an" shows "\<exists>an'. delete_pcap env an = Inr an' \<and> quiet env an an'"
proof -
  have u: "an_dumper an \<noteq> NoDumper \<Longrightarrow> use_dumper a an = Inr (act (Dumper a) an)" for a
    using assms by (auto simp: analyzer_ok_def use_dumper_def split: if_splits)
  show ?thesis
  proof (cases "an_malicious an")
    case True
    then show ?thesis using u by (auto simp: delete_pcap_def)
  next
    case False
    then show ?thesis using u by (auto simp: delete_pcap_def)
  qed
qed

lemma send_logs_quiet:
  assumes "analyzer_ok an"
  shows "send_logs env an = Inl Exited \<and> \<not> ae_compressed env \<or> (\<exists>an'. send_logs env an = Inr an' \<and> quiet env an an')"
proof -
  obtain a where a: "delete_pcap env an = Inr a" "quiet env an a" using delete_pcap_quiet[OF assms] by blast
  let ?b = "if an_malicious a then a else act DeleteFiles a"
  have b: "quiet env an ?b" using a(2) by simp
  have "upload env ?b = Inl Exited \<and> \<not> ae_compressed env \<or> (\<exists>c. upload env ?b = Inr c)" by (auto simp: upload_def compressLogDirectory_def Let_def)
  then have "upload env ?b = Inl Exited \<and> \<not> ae_compressed env \<or> (\<exists>c. upload env ?b = Inr c \<and> quiet env an c)"
    using upload_quiet quiet_trans[OF b] by blast
  then show ?thesis using a(1) b by (simp add: send_logs_def Let_def)
qed

definition disconnected :: "analyzer \<Rightarrow> analyzer" where
  "disconnected an = (if an_connection an then an\<lparr>an_slots := an_slots an - 1, an_connection := False\<rparr> else an)"

lemma stop_quiet:
  assumes "analyzer_ok an"
  shows "stop env an = Inl Exited \<and> \<not> ae_compressed env \<or> (\<exists>an'. stop env an = Inr an' \<and> quiet env (disconnected an) an')"
proof -
  let ?a = "disconnected an"
  have ok: "analyzer_ok ?a" using assms by (simp add: disconnected_def analyzer_ok_def)
  let ?b = "if an_captureNetworkPackets ?a then act (Dumper StopDumper) ?a else ?a"
  have b: "(if an_captureNetworkPackets ?a then use_dumper StopDumper ?a else Inr ?a) = Inr ?b" using ok by (simp add: use_dumper_ok)
  let ?c = "if an_collectModifiedFiles ?b then act CopyModifiedFiles (act (MonitorModifiedFiles False) ?b) else ?b"
  have "quiet env ?a ?c" by simp
  moreover have "analyzer_ok ?c" using ok by simp
  moreover have "stop env an = (if getOption (ae_options env) (wide ''server'') \<noteq> [] then
        fbind (send_logs env ?c) (\<lambda>an. Inr (act DeleteLogs an)) else Inr ?c)"
    unfolding stop_def disconnected_def[symmetric] Let_def b fbind_Inr ..
  ultimately have c: "quiet env ?a ?c" and logs: "send_logs env ?c = Inl Exited \<and> \<not> ae_compressed env \<or>
        (\<exists>an'. send_logs env ?c = Inr an' \<and> quiet env ?c an')"
    and stop: "stop env an = (if getOption (ae_options env) (wide ''server'') \<noteq> [] then
        fbind (send_logs env ?c) (\<lambda>an. Inr (act DeleteLogs an)) else Inr ?c)" using send_logs_quiet by blast+
  from logs show ?thesis
  proof
    assume "send_logs env ?c = Inl Exited \<and> \<not> ae_compressed env"
    then show ?thesis unfolding stop using c by auto
  next
    assume "\<exists>an'. send_logs env ?c = Inr an' \<and> quiet env ?c an'"
    then obtain d where "send_logs env ?c = Inr d" "quiet env ?c d" by blast
    then show ?thesis unfolding stop using c quiet_trans[OF c] by simp
  qed
qed

lemma update_ok:
  assumes "analyzer_ok an"
  shows "update env c v an = Inl Exited \<or> (\<exists>an'. update env c v an = Inr an' \<and> same_dumper an an')"
proof -
  have d: "same_dumper an (disconnected an)" by (simp add: disconnected_def)
  have verdict: "same_dumper a (send_verdict env e type b) = same_dumper a b" for a b e type by (simp add: send_verdict_def)
  have stop: "stop env an = Inl Exited \<or> (\<exists>a. stop env an = Inr a \<and> same_dumper an a)"
    using stop_quiet[OF assms, of env] d unfolding quiet_def same_dumper_def by metis
  from stop have st: "fbind (stop env an) (\<lambda>an. Inr (send_verdict env e type an)) = Inl Exited \<or>
      (\<exists>a. fbind (stop env an) (\<lambda>an. Inr (send_verdict env e type an)) = Inr a \<and> same_dumper an a)" for e type
    using verdict by auto
  consider "c = CAPTURE_VISITATION_PRESTART" | "c = CAPTURE_VISITATION_START" | "c = CAPTURE_VISITATION_FINISH"
    | "c = CAPTURE_VISITATION_POSTFINISH"
    | "c \<noteq> CAPTURE_VISITATION_PRESTART" "c \<noteq> CAPTURE_VISITATION_START" "c \<noteq> CAPTURE_VISITATION_FINISH"
      "c \<noteq> CAPTURE_VISITATION_POSTFINISH" by blast
  then show ?thesis
    by cases (use start_ok[OF assms] st verdict in \<open>auto simp: update_def Let_def\<close>)
qed

lemma monitor_signal_same: "same_dumper an (monitor_signal env ev an)"
proof -
  have "same_dumper an ((on_event env ev ^^ n) an)" for n
    by (induction n) (auto simp: on_event_def same_dumper_def)
  then show ?thesis by (simp add: monitor_signal_def)
qed

lemma same_dumper_kept:
  "same_dumper an an' \<Longrightarrow> analyzer_ok an \<Longrightarrow> analyzer_ok an' \<and> (an_captureNetworkPackets an \<longrightarrow> an_captureNetworkPackets an')"
  by (simp add: same_dumper_def analyzer_ok_def)

lemma occurs_ok:
  assumes "analyzer_ok an"
  shows "occurs env x an = Inl Exited \<or>
     (\<exists>an'. occurs env x an = Inr an' \<and> analyzer_ok an' \<and> (an_captureNetworkPackets an \<longrightarrow> an_captureNetworkPackets an'))"
proof (cases x)
  case (Notified c v)
  from update_ok[OF assms, of env c v] show ?thesis unfolding Notified occurs.simps using same_dumper_kept[OF _ assms] by blast
next
  case (Signalled ev)
  show ?thesis unfolding Signalled occurs.simps using same_dumper_kept[OF monitor_signal_same assms] by blast
qed (use assms in \<open>simp add: onOptionChanged_ok onOptionChanged_capture\<close>)

lemma happen_ok:
  "analyzer_ok an \<Longrightarrow> happen xs an = Inl Exited \<or>
     (\<exists>an'. happen xs an = Inr an' \<and> analyzer_ok an' \<and> (an_captureNetworkPackets an \<longrightarrow> an_captureNetworkPackets an'))"
proof (induction xs arbitrary: an)
  case (Cons x xs)
  obtain env o' where x: "x = (env, o')" by fastforce
  from occurs_ok[OF Cons.prems, of env o'] Cons.IH show ?case unfolding x by fastforce
qed simp


definition example_options :: options where
  "example_options = addOption (wide ''capture-network-packets'') (wide ''true'') \<lparr>op_map = Map.empty, op_changed = []\<rparr>"

definition example_analyzer_env :: analyzer_env where
  "example_analyzer_env = \<lparr>ae_transfer = example_transfer, ae_options = example_options, ae_compressed = True, ae_archive_name = [],
     ae_archive = None, ae_accepted = None\<rparr>"


text \<open>
  Once packets are captured no option switches the capture off again: the code asks whether
  it is off already.
\<close>

theorem capture_stays_on:
  assumes "analyzer_ok an" "an_captureNetworkPackets an" "happen xs an = Inr an'"
  shows "an_captureNetworkPackets an'"
  using happen_ok[OF assms(1), of xs] assms(2,3) by auto

definition off_env :: analyzer_env where
  "off_env = example_analyzer_env\<lparr>ae_options := addOption (wide ''capture-network-packets'') (wide ''false'') example_options\<rparr>"

theorem capture_stays_on_witness:
  "\<exists>an'. happen [(off_env, OptionChanged (wide ''capture-network-packets''))]
       (new_analyzer example_analyzer_env [wide ''capture-network-packets''] new_server) = Inr an' \<and> an_captureNetworkPackets an'"
proof -
  let ?an = "new_analyzer example_analyzer_env [wide ''capture-network-packets''] new_server"
  have ok: "analyzer_ok ?an" by (rule new_analyzer_ok) (simp add: example_analyzer_env_def example_options_def addOption_def)
  have "an_captureNetworkPackets ?an"
    by (simp add: new_analyzer_def onOptionChanged_capture option_is_def example_analyzer_env_def example_options_def)
  from capture_stays_on[OF ok this, of "[(off_env, OptionChanged (wide ''capture-network-packets''))]"] show ?thesis by simp
qed

section \<open>The verdict\<close>

definition event_bytes :: "analyzer_env \<Rightarrow> monitor_event \<Rightarrow> u8 list" where
  "event_bytes env ev =
     te_utf8 (ae_transfer env) (xml_document (wide ''system-event'') (event_attributes (te_lexical (ae_transfer env)) ev))"

definition verdict_bytes :: "analyzer_env \<Rightarrow> VisitEvent \<Rightarrow> string \<Rightarrow> bool \<Rightarrow> u8 list" where
  "verdict_bytes env v type malicious =
     (let lx = te_lexical (ae_transfer env)
      in te_utf8 (ae_transfer env) (toString (verdict_element lx (VisitEvent_toElement lx v) type malicious)))"

lemma signals_one_slot:
  assumes "takes_all (ae_transfer env)"
  shows "an_slots an = 1 \<Longrightarrow> sv_connected (an_server an) \<Longrightarrow>
     happen (map (\<lambda>ev. (env, Signalled ev)) es) an =
     Inr (an\<lparr>an_malicious := (an_malicious an \<or> es \<noteq> []), an_server := with_bytes (an_server an) (concat (map (event_bytes env) es))\<rparr>)"
proof (induction es arbitrary: an)
  case (Cons ev es)
  let ?an = "an\<lparr>an_malicious := True, an_server := with_bytes (an_server an) (event_bytes env ev)\<rparr>"
  have "monitor_signal env ev an = ?an"
    using Cons.prems assms by (simp add: monitor_signal_def on_event_def send_xml_all event_bytes_def)
  then show ?case using Cons.IH[of ?an] Cons.prems by simp
qed simp

lemma send_verdict_all:
  assumes "takes_all (ae_transfer env)" "sv_connected (an_server an)"
  shows "send_verdict env e type an =
     an\<lparr>an_server := with_bytes (an_server an) (te_utf8 (ae_transfer env)
        (toString (verdict_element (te_lexical (ae_transfer env)) e type (an_malicious an))))\<rparr>"
  using assms by (simp add: send_verdict_def send_element_all)

lemma visit_begins:
  assumes "analyzer_ok an" "an_slots an = 0" "sv_connected (an_server an)" "takes_all (ae_transfer env)"
  obtains a where "happen [(env, Notified CAPTURE_VISITATION_PRESTART v), (env, Notified CAPTURE_VISITATION_START v)] an = Inr a"
    "same_dumper an a" "\<not> an_malicious a" "an_slots a = 1" "an_connection a"
    "an_server a = with_bytes (an_server an) (verdict_bytes env v ''start'' False)"
proof -
  obtain b where b: "start an = Inr b" "same_dumper an b" "an_malicious b = False" "an_server b = an_server an"
    "an_slots b = Suc (an_slots an)" "an_connection b" using start_ok[OF assms(1)] by blast
  let ?lx = "te_lexical (ae_transfer env)"
  let ?a = "send_verdict env (VisitEvent_toElement ?lx v) ''start'' b"
  have a: "?a = b\<lparr>an_server := with_bytes (an_server an) (verdict_bytes env v ''start'' False)\<rparr>"
    using send_verdict_all[OF assms(4), of b] assms(3) b(3,4) by (simp add: verdict_bytes_def Let_def)
  have "happen [(env, Notified CAPTURE_VISITATION_PRESTART v), (env, Notified CAPTURE_VISITATION_START v)] an = Inr ?a"
    using b(1) by (simp add: update_def Let_def)
  then show thesis by (rule that) (use b assms(2) in \<open>simp_all add: a\<close>)
qed

text \<open>The end of a visit, whatever is sent of the files.\<close>

lemma visit_ends:
  assumes "analyzer_ok an" "an_slots an = 1" "an_connection an" "sv_connected (an_server an)" "takes_all (ae_transfer env)"
    "ae_compressed env"
  obtains a up where "happen [(env, Notified CAPTURE_VISITATION_FINISH v), (env, Notified CAPTURE_VISITATION_POSTFINISH v)] an = Inr a"
    "same_dumper an a" "an_malicious a = an_malicious an" "an_slots a = 0" "\<not> an_connection a"
    "an_server a = with_bytes (an_server an) (up @ verdict_bytes env v ''finish'' (an_malicious an))"
proof -
  obtain b where b: "stop env an = Inr b" "quiet env (disconnected an) b" using stop_quiet[OF assms(1), of env] assms(6) by auto
  have d: "an_slots (disconnected an) = 0" "\<not> an_connection (disconnected an)" "an_malicious (disconnected an) = an_malicious an"
    "an_server (disconnected an) = an_server an" "same_dumper an (disconnected an)"
    using assms(2,3) by (simp_all add: disconnected_def)
  from b(2) d assms(4,5) obtain up where up: "an_server b = with_bytes (an_server an) up" "an_malicious b = an_malicious an"
    "an_slots b = 0" "\<not> an_connection b" "same_dumper an b" by (auto simp: quiet_def same_dumper_def)
  let ?lx = "te_lexical (ae_transfer env)"
  let ?a = "send_verdict env (VisitEvent_toElement ?lx v) ''finish'' b"
  have a: "?a = b\<lparr>an_server := with_bytes (an_server an) (up @ verdict_bytes env v ''finish'' (an_malicious an))\<rparr>"
    using send_verdict_all[OF assms(5), of b] assms(4) up by (simp add: verdict_bytes_def Let_def)
  have "happen [(env, Notified CAPTURE_VISITATION_FINISH v), (env, Notified CAPTURE_VISITATION_POSTFINISH v)] an = Inr ?a"
    using b(1) by (simp add: update_def Let_def)
  then show thesis by (rule that) (use up in \<open>simp_all add: a\<close>)
qed

text \<open>
  C6: The verdict is right: over a connection that holds, a visit sends its start, then every
  event the monitors signalled during it, in order, then what is to be uploaded, then its end,
  and the end says malicious exactly when there was such an event, whatever the visits before it
  were like; afterwards no monitor calls the analyzer.
\<close>

theorem visit_verdict:
  assumes "analyzer_ok an" "an_slots an = 0" "sv_connected (an_server an)" "takes_all (ae_transfer env)" "ae_compressed env"
  shows "\<exists>an' up.
     happen ([(env, Notified CAPTURE_VISITATION_PRESTART v), (env, Notified CAPTURE_VISITATION_START v)] @
             map (\<lambda>ev. (env, Signalled ev)) es @
             [(env, Notified CAPTURE_VISITATION_FINISH w), (env, Notified CAPTURE_VISITATION_POSTFINISH w)]) an = Inr an' \<and>
     sv_wire (an_server an') = sv_wire (an_server an) @ verdict_bytes env v ''start'' False @ concat (map (event_bytes env) es) @
       up @ verdict_bytes env w ''finish'' (es \<noteq> []) \<and>
     analyzer_ok an' \<and> an_slots an' = 0 \<and> sv_connected (an_server an')"
proof -
  obtain a where a: "happen [(env, Notified CAPTURE_VISITATION_PRESTART v), (env, Notified CAPTURE_VISITATION_START v)] an = Inr a"
    "same_dumper an a" "\<not> an_malicious a" "an_slots a = 1" "an_connection a"
    "an_server a = with_bytes (an_server an) (verdict_bytes env v ''start'' False)"
    by (rule visit_begins[OF assms(1-4)])
  let ?b = "a\<lparr>an_malicious := (an_malicious a \<or> es \<noteq> []), an_server := with_bytes (an_server a) (concat (map (event_bytes env) es))\<rparr>"
  have b: "happen (map (\<lambda>ev. (env, Signalled ev)) es) a = Inr ?b"
    by (rule signals_one_slot[OF assms(4)]) (use a assms(3) in simp_all)
  have ok: "analyzer_ok ?b" using same_dumper_ok[OF a(2)] assms(1) by (simp add: analyzer_ok_def)
  obtain c up where c: "happen [(env, Notified CAPTURE_VISITATION_FINISH w), (env, Notified CAPTURE_VISITATION_POSTFINISH w)] ?b = Inr c"
    "same_dumper ?b c" "an_slots c = 0"
    "an_server c = with_bytes (an_server ?b) (up @ verdict_bytes env w ''finish'' (an_malicious ?b))"
    by (rule visit_ends[OF ok]) (use a assms in auto)
  have "analyzer_ok c" using same_dumper_ok[OF c(2)] ok by simp
  moreover have "happen ([(env, Notified CAPTURE_VISITATION_PRESTART v), (env, Notified CAPTURE_VISITATION_START v)] @
             map (\<lambda>ev. (env, Signalled ev)) es @
             [(env, Notified CAPTURE_VISITATION_FINISH w), (env, Notified CAPTURE_VISITATION_POSTFINISH w)]) an = Inr c"
    unfolding happen_append a(1) fbind_Inr b c(1) ..
  moreover have "sv_wire (an_server c) = sv_wire (an_server an) @ verdict_bytes env v ''start'' False @ concat (map (event_bytes env) es) @
       up @ verdict_bytes env w ''finish'' (es \<noteq> [])" "sv_connected (an_server c)" using c(4) a(3,6) assms(3) by simp_all
  ultimately show ?thesis using c(3) by blast
qed

theorem visit_verdict_witness:
  "\<exists>an' up.
     happen [(example_analyzer_env, Notified CAPTURE_VISITATION_PRESTART new_VisitEvent), (example_analyzer_env, Notified CAPTURE_VISITATION_START new_VisitEvent),
             (example_analyzer_env, Signalled (FileEvent [1] [2] 3 [4] [5])),
             (example_analyzer_env, Notified CAPTURE_VISITATION_FINISH new_VisitEvent), (example_analyzer_env, Notified CAPTURE_VISITATION_POSTFINISH new_VisitEvent)]
       (new_analyzer example_analyzer_env [wide ''capture-network-packets''] (setConnected new_server True)) = Inr an' \<and>
     sv_wire (an_server an') = verdict_bytes example_analyzer_env new_VisitEvent ''start'' False @
       event_bytes example_analyzer_env (FileEvent [1] [2] 3 [4] [5]) @ up @ verdict_bytes example_analyzer_env new_VisitEvent ''finish'' True"
proof -
  let ?an = "new_analyzer example_analyzer_env [wide ''capture-network-packets''] (setConnected new_server True)"
  have ok: "analyzer_ok ?an" by (rule new_analyzer_ok) (simp add: example_analyzer_env_def example_options_def addOption_def)
  have "an_slots ?an = 0" "an_server ?an = setConnected new_server True"
    by (simp_all add: new_analyzer_def onOptionChanged_def packet_option_def Let_def)
  then show ?thesis
    using visit_verdict[OF ok, of example_analyzer_env new_VisitEvent "[FileEvent [1] [2] 3 [4] [5]]" new_VisitEvent] example_takes_all
    by (auto simp: setConnected_def new_server_def example_analyzer_env_def simp del: happen.simps)
qed

section \<open>A visit that throws\<close>

definition error_bytes :: "analyzer_env \<Rightarrow> VisitEvent \<Rightarrow> u32 \<Rightarrow> bool \<Rightarrow> u8 list" where
  "error_bytes env v code malicious =
     (let lx = te_lexical (ae_transfer env)
      in te_utf8 (ae_transfer env) (toString (verdict_element lx
           (addAttribute (VisitEvent_toElement lx v) (wide ''error-code'') (lx_text lx (unat code))) ''error'' malicious)))"

lemma stop_sends:
  assumes "analyzer_ok an" "sv_connected (an_server an)" "takes_all (ae_transfer env)" "ae_compressed env"
  obtains b up where "stop env an = Inr b" "analyzer_ok b" "an_malicious b = an_malicious an" "\<not> an_connection b"
    "an_server b = with_bytes (an_server an) up"
proof -
  obtain b where b: "stop env an = Inr b" "quiet env (disconnected an) b" using stop_quiet[OF assms(1), of env] assms(4) by auto
  have d: "\<not> an_connection (disconnected an)" "an_malicious (disconnected an) = an_malicious an"
    "an_server (disconnected an) = an_server an" "same_dumper an (disconnected an)"
    by (simp_all add: disconnected_def)
  from b(2) d assms(2,3) obtain up where up: "an_server b = with_bytes (an_server an) up" "an_malicious b = an_malicious an"
    "\<not> an_connection b" "same_dumper an b" by (auto simp: quiet_def same_dumper_def)
  show thesis by (rule that[OF b(1) _ up(2,3,1)]) (use same_dumper_kept[OF up(4) assms(1)] in blast)
qed

text \<open>
  A visit during which the plug-in throws without recording an error is reported to the
  server twice, as an error and then as finished: the analyzer is stopped twice, and what it
  uploads may go out twice.
\<close>

theorem throwing_visit_reported_twice:
  assumes "pl_visit p (v\<lparr>ve_algorithm := pl_algorithm p\<rparr>) = (w, True)" "\<not> isError w"
    "analyzer_ok an" "an_slots an = 0" "sv_connected (an_server an)" "takes_all (ae_transfer env)" "ae_compressed env"
  shows "\<exists>an' up up'.
     happen (map (\<lambda>(c, u). (env, Notified c u)) (visit p v)) an = Inr an' \<and>
     sv_wire (an_server an') = sv_wire (an_server an) @ verdict_bytes env (v\<lparr>ve_algorithm := pl_algorithm p\<rparr>) ''start'' False @
       up @ error_bytes env w CAPTURE_VISITATION_EXCEPTION False @ up' @ verdict_bytes env w ''finish'' False"
proof -
  let ?v = "v\<lparr>ve_algorithm := pl_algorithm p\<rparr>" and ?lx = "te_lexical (ae_transfer env)"
  have visit: "map (\<lambda>(c, u). (env, Notified c u)) (visit p v) =
     [(env, Notified CAPTURE_VISITATION_PRESTART ?v), (env, Notified CAPTURE_VISITATION_START ?v)] @
     [(env, Notified CAPTURE_VISITATION_EXCEPTION w), (env, Notified CAPTURE_VISITATION_FINISH w), (env, Notified CAPTURE_VISITATION_POSTFINISH w)]"
    using assms(1,2) by (simp add: visit_def Let_def)
  obtain a where a: "happen [(env, Notified CAPTURE_VISITATION_PRESTART ?v), (env, Notified CAPTURE_VISITATION_START ?v)] an = Inr a"
    "same_dumper an a" "\<not> an_malicious a" "an_server a = with_bytes (an_server an) (verdict_bytes env ?v ''start'' False)"
    by (rule visit_begins[OF assms(3-6)])
  have ok: "analyzer_ok a" "sv_connected (an_server a)" using same_dumper_kept[OF a(2) assms(3)] a(4) assms(5) by simp_all
  obtain b up where b: "stop env a = Inr b" "analyzer_ok b" "an_malicious b = an_malicious a" "an_server b = with_bytes (an_server a) up"
    by (rule stop_sends[OF ok assms(6,7)])
  let ?e = "addAttribute (VisitEvent_toElement ?lx w) (wide ''error-code'') (lx_text ?lx (unat CAPTURE_VISITATION_EXCEPTION))"
  let ?b = "send_verdict env ?e ''error'' b"
  have b': "?b = b\<lparr>an_server := with_bytes (an_server b) (error_bytes env w CAPTURE_VISITATION_EXCEPTION False)\<rparr>"
    using send_verdict_all[OF assms(6), of b ?e "''error''"] ok(2) a(3) b(3,4) by (simp add: error_bytes_def Let_def)
  have ok': "analyzer_ok ?b" "sv_connected (an_server ?b)" using b(2,4) ok(2) unfolding b' by (simp_all add: analyzer_ok_def)
  obtain c up' where c: "stop env ?b = Inr c" "an_malicious c = an_malicious ?b" "an_server c = with_bytes (an_server ?b) up'"
    by (rule stop_sends[OF ok' assms(6,7)])
  let ?c = "send_verdict env (VisitEvent_toElement ?lx w) ''finish'' c"
  have mal: "\<not> an_malicious c" using c(2) b(3) a(3) unfolding b' by simp
  have c': "?c = c\<lparr>an_server := with_bytes (an_server c) (verdict_bytes env w ''finish'' False)\<rparr>"
    using send_verdict_all[OF assms(6), of c] ok'(2) mal c(3) by (simp add: verdict_bytes_def Let_def)
  have wb: "sv_wire (an_server ?b) = (sv_wire (an_server an) @ verdict_bytes env ?v ''start'' False) @ up @
       error_bytes env w CAPTURE_VISITATION_EXCEPTION False" unfolding b' using a(4) b(4) by simp
  have wc: "sv_wire (an_server ?c) = sv_wire (an_server ?b) @ up' @ verdict_bytes env w ''finish'' False"
    unfolding c' using c(3) by simp
  have "update env CAPTURE_VISITATION_EXCEPTION w a = Inr ?b" using b(1) by (simp add: update_def Let_def)
  moreover have "update env CAPTURE_VISITATION_FINISH w ?b = Inr ?c" using c(1) by (simp add: update_def Let_def)
  moreover have "update env CAPTURE_VISITATION_POSTFINISH w ?c = Inr ?c" by (simp add: update_def Let_def)
  ultimately have "happen [(env, Notified CAPTURE_VISITATION_EXCEPTION w), (env, Notified CAPTURE_VISITATION_FINISH w),
      (env, Notified CAPTURE_VISITATION_POSTFINISH w)] a = Inr ?c" by (simp only: happen.simps occurs.simps fbind_Inr)
  then have "happen (map (\<lambda>(c, u). (env, Notified c u)) (visit p v)) an = Inr ?c"
    unfolding visit happen_append a(1) fbind_Inr .
  moreover have "sv_wire (an_server ?c) = sv_wire (an_server an) @ verdict_bytes env ?v ''start'' False @
       up @ error_bytes env w CAPTURE_VISITATION_EXCEPTION False @ up' @ verdict_bytes env w ''finish'' False"
    unfolding wc wb by simp
  ultimately show ?thesis by blast
qed

definition throwing_plugin :: plugin where
  "throwing_plugin = \<lparr>pl_priority = 0, pl_applications = [], pl_algorithm = [], pl_visit = (\<lambda>v. (v, True))\<rparr>"

theorem throwing_visit_reported_twice_witness:
  "\<exists>an' up up'.
     happen (map (\<lambda>(c, u). (example_analyzer_env, Notified c u)) (visit throwing_plugin new_VisitEvent))
       (new_analyzer example_analyzer_env [wide ''capture-network-packets''] (setConnected new_server True)) = Inr an' \<and>
     sv_wire (an_server an') = verdict_bytes example_analyzer_env (new_VisitEvent\<lparr>ve_algorithm := []\<rparr>) ''start'' False @
       up @ error_bytes example_analyzer_env (new_VisitEvent\<lparr>ve_algorithm := []\<rparr>) CAPTURE_VISITATION_EXCEPTION False @
       up' @ verdict_bytes example_analyzer_env (new_VisitEvent\<lparr>ve_algorithm := []\<rparr>) ''finish'' False"
proof -
  let ?an = "new_analyzer example_analyzer_env [wide ''capture-network-packets''] (setConnected new_server True)"
  have ok: "analyzer_ok ?an" by (rule new_analyzer_ok) (simp add: example_analyzer_env_def example_options_def addOption_def)
  have an: "an_slots ?an = 0" "an_server ?an = setConnected new_server True"
    by (simp_all add: new_analyzer_def onOptionChanged_def packet_option_def Let_def)
  have p: "pl_visit throwing_plugin (new_VisitEvent\<lparr>ve_algorithm := pl_algorithm throwing_plugin\<rparr>) = (new_VisitEvent\<lparr>ve_algorithm := []\<rparr>, True)"
    "pl_algorithm throwing_plugin = []" by (simp_all add: throwing_plugin_def)
  have "takes_all (ae_transfer example_analyzer_env)" "ae_compressed example_analyzer_env" "sv_connected (setConnected new_server True)"
    "sv_wire (setConnected new_server True) = []" "\<not> isError (new_VisitEvent\<lparr>ve_algorithm := []\<rparr>)"
    using example_takes_all by (simp_all add: example_analyzer_env_def setConnected_def new_server_def isError_def new_VisitEvent_def)
  with throwing_visit_reported_twice[OF p(1) _ ok an(1), of example_analyzer_env] an(2) p(2) show ?thesis by simp
qed

end
