(* ===== verification/ClientLog.thy ===== *)
theory ClientLog
  imports ClientMonitor
begin

text \<open>
  Logger.cpp and Time.cpp: the log file of the system events, the output for debugging, and the
  texts of times. The conversion to UTF-8, the files and the memory behind a block answer through
  arguments.
\<close>

section \<open>Times\<close>

record time_fields =
  wYear :: u16
  wMonth :: u16
  wDay :: u16
  wHour :: u16
  wMinute :: u16
  wSecond :: u16
  wMilliseconds :: u16
  wWeekday :: u16

text \<open>lexical_cast of a number.\<close>

fun decimal :: "nat \<Rightarrow> u16 list" where
  "decimal n = (if n < 10 then [] else decimal (n div 10)) @ [of_nat (48 + n mod 10)]"

declare decimal.simps [simp del]

definition timefieldToString :: "time_fields \<Rightarrow> u16 list" where
  "timefieldToString t =
     decimal (unat (wDay t)) @ 0x2F # decimal (unat (wMonth t)) @ 0x2F # decimal (unat (wYear t)) @ 0x20 #
     decimal (unat (wHour t)) @ 0x3A # decimal (unat (wMinute t)) @ 0x3A # decimal (unat (wSecond t)) @ 0x2E #
     decimal (unat (wMilliseconds t))"

text \<open>A SYSTEMTIME has the fields in another order, with the day of the week between month and day.\<close>

record system_time =
  st_wYear :: u16
  st_wMonth :: u16
  st_wDayOfWeek :: u16
  st_wDay :: u16
  st_wHour :: u16
  st_wMinute :: u16
  st_wSecond :: u16
  st_wMilliseconds :: u16

definition systemtimeToString :: "system_time \<Rightarrow> u16 list" where
  "systemtimeToString t =
     decimal (unat (st_wDay t)) @ 0x2F # decimal (unat (st_wMonth t)) @ 0x2F # decimal (unat (st_wYear t)) @ 0x20 #
     decimal (unat (st_wHour t)) @ 0x3A # decimal (unat (st_wMinute t)) @ 0x3A # decimal (unat (st_wSecond t)) @ 0x2E #
     decimal (unat (st_wMilliseconds t))"

definition getCurrentTime :: "system_time \<Rightarrow> u16 list" where
  "getCurrentTime st = systemtimeToString st"

section \<open>The log\<close>

record logger =
  lg_fileOpen :: bool
  lg_logFullPath :: "u16 list"
  lg_logFileName :: "u16 list"
  lg_file :: "u8 list"

definition new_logger :: logger where
  "new_logger = \<lparr>lg_fileOpen = False, lg_logFullPath = [], lg_logFileName = [], lg_file = []\<rparr>"

text \<open>
  \<open>utf8\<close> is WideCharToMultiByte, which answers with no bytes when it fails and ends them with no NUL;
  \<open>behind\<close> is the memory behind the block. A text without a NUL up to the end of the memory is read
  beyond it. The text, and the number of bytes that were converted.
\<close>

record log_env =
  le_utf8 :: "u16 list \<Rightarrow> u8 list"
  le_behind :: "u8 list"
  le_after_text :: "u8 list"

definition convertToMultiByteString :: "log_env \<Rightarrow> u16 list \<Rightarrow> fault + u8 list \<times> nat" where
  "convertToMultiByteString env message =
     (case le_utf8 env message of
        [] \<Rightarrow> Inr ([], 0)
      | b # bs \<Rightarrow>
          if 0 \<in> set (b # bs @ le_behind env) then Inr (takeWhile (\<lambda>c. c \<noteq> 0) (b # bs @ le_behind env), length (b # bs))
          else Inl BadPointer)"

text \<open>As many bytes are written as were converted, from the text, its NUL and what comes after that.\<close>

definition writeToLog :: "log_env \<Rightarrow> u16 list \<Rightarrow> logger \<Rightarrow> fault + logger" where
  "writeToLog env message lg =
     (if lg_fileOpen lg then
        fbind (convertToMultiByteString env message) (\<lambda>(szMessage, charsConverted).
        if 0 < length szMessage then
          if length (szMessage @ 0 # le_after_text env) < charsConverted then Inl BadPointer
          else Inr (lg\<lparr>lg_file := lg_file lg @ take charsConverted (szMessage @ 0 # le_after_text env)\<rparr>)
        else Inr lg)
      else Inr lg)"

definition quoted :: "u16 list \<Rightarrow> u16 list" where
  "quoted s = 0x22 # s @ [0x22]"

text \<open>The fields between quotation marks, with commas between them and the end of the line.\<close>

fun joined :: "u16 list list \<Rightarrow> u16 list" where
  "joined [] = [0x0D, 0x0A]"
| "joined [f] = quoted f @ [0x0D, 0x0A]"
| "joined (f # fs) = quoted f @ 0x2C # joined fs"

definition writeSystemEventToLog ::
    "log_env \<Rightarrow> u16 list \<Rightarrow> u16 list \<Rightarrow> u16 list \<Rightarrow> u16 list \<Rightarrow> u16 list \<Rightarrow> u16 list \<Rightarrow> u16 list \<Rightarrow> logger \<Rightarrow> fault + logger" where
  "writeSystemEventToLog env type time processId process action object1 object2 lg =
     (if lg_fileOpen lg then writeToLog env (joined [type, time, processId, process, action, object1, object2]) lg else Inr lg)"

text \<open>
  The full path in its block, the offset of the file name in it (None: a null pointer, for a directory), whether the file
  could be made. The file name is a pointer into the block, and both are given to delete.
\<close>

definition delete_block :: "nat \<Rightarrow> nat set \<Rightarrow> fault + nat set" where
  "delete_block p blocks = (if p \<in> blocks then Inr (blocks - {p}) else Inl BadPointer)"

definition openLogFile :: "u16 list \<Rightarrow> nat option \<Rightarrow> bool \<Rightarrow> logger \<Rightarrow> fault + logger" where
  "openLogFile szFullPath fileName created lg =
     (if \<not> lg_fileOpen lg then
        case fileName of
          None \<Rightarrow> Inl NullDeref
        | Some offset \<Rightarrow>
            let lg = lg\<lparr>lg_logFullPath := lower_case szFullPath, lg_logFileName := drop offset szFullPath\<rparr>;
                lg = (if created then lg\<lparr>lg_fileOpen := True, lg_file := []\<rparr> else lg)
            in fbind (delete_block offset {0}) (\<lambda>blocks. fbind (delete_block 0 blocks) (\<lambda>_. Inr lg))
      else Inr lg)"

definition closeLogFile :: "logger \<Rightarrow> logger" where
  "closeLogFile lg = (if lg_fileOpen lg then lg\<lparr>lg_fileOpen := False\<rparr> else lg)"

datatype OutputType = EVENT | INFO | WARNING | ERR

definition ascii :: "string \<Rightarrow> u8 list" where "ascii = map of_char"

definition OutputTypeStrings :: "OutputType \<Rightarrow> u8 list" where
  "OutputTypeStrings type =
     (case type of EVENT \<Rightarrow> ascii ''EVENT: '' | INFO \<Rightarrow> ascii ''INFO: '' | WARNING \<Rightarrow> ascii ''WARNING: '' | ERR \<Rightarrow> ascii ''ERROR: '')"

text \<open>The formatted text is cut off to fit its buffer of 256 bytes. None: nothing is put out.\<close>

definition DebugOutput :: "bool \<Rightarrow> OutputType \<Rightarrow> u8 list \<Rightarrow> u8 list option" where
  "DebugOutput debug_output_enabled type formatted =
     (if \<not> debug_output_enabled then None else Some (OutputTypeStrings type @ take 255 formatted @ [0x0A]))"

section \<open>Texts of times\<close>

definition digits :: "u16 set" where "digits = {0x30..0x39}"

lemma set_decimal: "set (decimal n) \<subseteq> digits"
proof (induction n rule: decimal.induct)
  case (1 n)
  have "(of_nat (48 + n mod 10) :: u16) \<in> digits"
    by (simp add: digits_def word_le_nat_alt unat_of_nat del: of_nat_add)
  then show ?case using 1 by (subst decimal.simps) auto
qed

definition number_of :: "u16 list \<Rightarrow> nat" where
  "number_of s = foldl (\<lambda>v c. 10 * v + (unat c - 48)) 0 s"

lemma number_of_decimal: "number_of (decimal n) = n"
proof (induction n rule: decimal.induct)
  case (1 n)
  have "unat (of_nat (48 + n mod 10) :: u16) - 48 = n mod 10" by (simp add: unat_of_nat del: of_nat_add)
  then show ?case using 1 by (subst decimal.simps) (auto simp: number_of_def)
qed

lemma decimal_inject [simp]: "decimal m = decimal n \<longleftrightarrow> m = n"
  using number_of_decimal by metis

lemma decimal_then:
  assumes "c \<notin> digits"
  shows "decimal m @ c # s = decimal n @ c # t \<longleftrightarrow> m = n \<and> s = t"
proof
  assume e: "decimal m @ c # s = decimal n @ c # t"
  have "takeWhile (\<lambda>x. x \<noteq> c) (decimal k @ c # r) = decimal k" for k r
    using set_decimal[of k] assms by (subst takeWhile_append2) auto
  then have "decimal m = decimal n" using e by metis
  then show "m = n \<and> s = t" using e by simp
qed simp

text \<open>
  The text of a time tells the time: two times have the same text exactly when they agree in day,
  month, year, hour, minute, second and milliseconds, whatever values the fields have.
\<close>

theorem time_text_determines:
  "timefieldToString a = timefieldToString b \<longleftrightarrow>
     (wDay a, wMonth a, wYear a, wHour a, wMinute a, wSecond a, wMilliseconds a) =
     (wDay b, wMonth b, wYear b, wHour b, wMinute b, wSecond b, wMilliseconds b)"
proof -
  have "0x2F \<notin> digits" "0x20 \<notin> digits" "0x3A \<notin> digits" "0x2E \<notin> digits" by (simp_all add: digits_def)
  then show ?thesis by (simp add: timefieldToString_def decimal_then word_unat_eq_iff)
qed

section \<open>Lines of the log\<close>

lemma written_exactly:
  assumes "lg_fileOpen lg" "le_utf8 env message \<noteq> []" "0 \<notin> set (le_utf8 env message)" "0 \<in> set (le_behind env)"
    and "takeWhile (\<lambda>c. c \<noteq> 0) (le_behind env) = junk"
  shows "writeToLog env message lg = Inr (lg\<lparr>lg_file := lg_file lg @ le_utf8 env message\<rparr>)"
proof -
  let ?u = "le_utf8 env message"
  have "takeWhile (\<lambda>c. c \<noteq> 0) (?u @ le_behind env) = ?u @ junk"
    using assms(3,5) by (subst takeWhile_append2) auto
  then have "convertToMultiByteString env message = Inr (?u @ junk, length ?u)"
    using assms(2,4) by (cases ?u) (simp_all add: convertToMultiByteString_def)
  then show ?thesis using assms(1,2) by (simp add: writeToLog_def)
qed

text \<open>The fields as a reader of the file gets them: every second piece between the quotation marks.\<close>

fun quoted_fields :: "u16 list list \<Rightarrow> u16 list list" where
  "quoted_fields (_ # f # ps) = f # quoted_fields ps"
| "quoted_fields _ = []"

definition read_line :: "u16 list \<Rightarrow> u16 list list" where
  "read_line line = quoted_fields (split_at 0x22 line)"

lemma split_at_plain: "d \<notin> set s \<Longrightarrow> split_at d (s @ d # t) = s # split_at d t"
  by (induction s) auto

lemma split_at_none: "d \<notin> set s \<Longrightarrow> split_at d s = [s]"
  by (induction s) auto

lemma read_joined:
  assumes "\<forall>f \<in> set fs. 0x22 \<notin> set f"
  shows "read_line (joined fs) = fs"
proof -
  have "quoted_fields (split_at 0x22 (pre @ joined fs)) = fs" if "0x22 \<notin> set pre" for pre
    using assms that
  proof (induction fs arbitrary: pre rule: joined.induct)
    case 1
    then show ?case by (simp add: split_at_none)
  next
    case (2 f)
    then show ?case by (simp add: quoted_def split_at_plain split_at_none)
  next
    case (3 f f' fs)
    have "split_at 0x22 (pre @ joined (f # f' # fs)) = pre # f # split_at 0x22 ([0x2C] @ joined (f' # fs))"
      using "3.prems" by (simp add: quoted_def split_at_plain)
    then show ?case using "3.IH"[of "[0x2C]"] "3.prems" by (simp del: split_at.simps)
  qed
  from this[of "[]"] show ?thesis by (simp add: read_line_def)
qed


definition example_log_env :: log_env where
  "example_log_env = \<lparr>le_utf8 = map ucast, le_behind = [65, 0], le_after_text = []\<rparr>"

definition example_fields :: "u16 list list" where
  "example_fields = [wide ''file'', wide ''1/2/2009 3:4:5.6'', wide ''7'', wide ''C:a'', wide ''Write'', wide ''C:b'', wide ''1'']"


text \<open>With quotation marks in the fields, which nothing escapes, two events can have the same line.\<close>

theorem quotes_confuse:
  "joined (pre @ [a @ [0x22, 0x2C, 0x22] @ b, c]) = joined (pre @ [a, b @ [0x22, 0x2C, 0x22] @ c])"
proof (induction pre rule: joined.induct)
  case (2 f)
  then show ?case by (simp add: quoted_def)
qed (simp_all add: quoted_def)

text \<open>Opening the log file always ends in a delete of memory that is no block, or through a null pointer.\<close>

theorem opening_the_log_faults:
  assumes "\<not> lg_fileOpen lg"
  shows "\<exists>e. openLogFile path fileName created lg = Inl e"
  using assms by (cases fileName) (auto simp: openLogFile_def delete_block_def fbind_def Let_def)

theorem opening_the_log_faults_witness: "\<exists>e. openLogFile (wide ''C:log'') (Some 2) True new_logger = Inl e"
  by (rule opening_the_log_faults) (simp add: new_logger_def)

text \<open>What is put out is never longer than its buffer and the name of its kind.\<close>

lemma debug_output_bounded:
  "DebugOutput enabled type formatted = Some out \<Longrightarrow> length out \<le> 265"
  by (cases type) (auto simp: DebugOutput_def OutputTypeStrings_def ascii_def split: if_splits)

end
