(* ===== verification/PluginModules.thy ===== *)
theory PluginModules
  imports Visitor "HOL-Library.Multiset"
begin

text \<open>
  The libraries of the plug-ins (Visitor.cpp: loadClientPlugins, createApplicationPluginObject,
  unloadClientPlugins): how often each is loaded, which plug-in objects live, and what is given
  back at the end. What a library offers to visit is in \<open>Visitor\<close>.
\<close>

section \<open>State\<close>

text \<open>
  applicationPlugins, a list of plug-in objects for each module; the references Windows counts for
  the modules; the objects that were made and not deleted; the modules that FreeLibrary was called
  for while they were not loaded.
\<close>

record modules =
  md_plugins :: "(u32 \<times> nat list) list"
  md_loaded :: "u32 \<Rightarrow> nat"
  md_live :: "nat set"
  md_refused :: "u32 list"

definition no_modules :: modules where
  "no_modules = \<lparr>md_plugins = [], md_loaded = (\<lambda>_. 0), md_live = {}, md_refused = []\<rparr>"

text \<open>A file of the directory: its module (NULL when it does not load), whether it exports New and the object that makes.\<close>

record plugin_file =
  pf_module :: u32
  pf_New :: bool
  pf_object :: "nat option"

section \<open>Loading and unloading\<close>

definition FreeLibrary :: "u32 \<Rightarrow> modules \<Rightarrow> modules" where
  "FreeLibrary h md =
     (if md_loaded md h = 0 then md\<lparr>md_refused := md_refused md @ [h]\<rparr>
      else md\<lparr>md_loaded := (md_loaded md)(h := md_loaded md h - 1)\<rparr>)"

text \<open>The map keeps the list it has for a module.\<close>

definition insert_module :: "u32 \<Rightarrow> modules \<Rightarrow> modules" where
  "insert_module h md = (if h \<in> fst ` set (md_plugins md) then md else md\<lparr>md_plugins := md_plugins md @ [(h, [])]\<rparr>)"

text \<open>The address of New is called without a look at it.\<close>

definition createApplicationPluginObject :: "plugin_file \<Rightarrow> modules \<Rightarrow> fault + nat option \<times> modules" where
  "createApplicationPluginObject f md =
     (if \<not> pf_New f then Inl NullDeref
      else case pf_object f of
        None \<Rightarrow> Inr (None, md)
      | Some ob \<Rightarrow>
          Inr (Some ob, md\<lparr>md_live := insert ob (md_live md),
            md_plugins := map (\<lambda>(h, obs). if h = pf_module f then (h, obs @ [ob]) else (h, obs)) (md_plugins md)\<rparr>))"

definition load_module :: "plugin_file \<Rightarrow> modules \<Rightarrow> fault + modules" where
  "load_module f md =
     (if pf_module f = NULL then Inr md
      else
        let h = pf_module f; md = md\<lparr>md_loaded := (md_loaded md)(h := Suc (md_loaded md h))\<rparr>
        in fbind (createApplicationPluginObject f (insert_module h md)) (\<lambda>(applicationPlugin, md).
             Inr (if applicationPlugin = None then FreeLibrary h md else md)))"

fun load_modules :: "plugin_file list \<Rightarrow> modules \<Rightarrow> fault + modules" where
  "load_modules [] md = Inr md"
| "load_modules (f # fs) md = fbind (load_module f md) (load_modules fs)"

text \<open>
  Which modules export Delete; the address of a missing one is called as soon as there is an object.
  The map is gone through in an order of its own.
\<close>

definition unload_module :: "(u32 \<Rightarrow> bool) \<Rightarrow> u32 \<times> nat list \<Rightarrow> modules \<Rightarrow> fault + modules" where
  "unload_module exports_Delete p md =
     (case p of (h, apps) \<Rightarrow>
        if apps \<noteq> [] \<and> \<not> exports_Delete h then Inl NullDeref
        else if \<not> set apps \<subseteq> md_live md \<or> \<not> distinct apps then Inl BadPointer
        else Inr (FreeLibrary h (md\<lparr>md_live := md_live md - set apps\<rparr>)))"

fun unloadClientPlugins :: "(u32 \<Rightarrow> bool) \<Rightarrow> (u32 \<times> nat list) list \<Rightarrow> modules \<Rightarrow> fault + modules" where
  "unloadClientPlugins exports_Delete [] md = Inr md"
| "unloadClientPlugins exports_Delete (p # ps) md =
     fbind (unload_module exports_Delete p md) (unloadClientPlugins exports_Delete ps)"

section \<open>What is given back\<close>

text \<open>The files that made an object in a module, and all objects.\<close>

definition made :: "u32 \<Rightarrow> plugin_file list \<Rightarrow> nat list" where
  "made h fs = List.map_filter (\<lambda>f. if pf_module f = h \<and> h \<noteq> NULL then pf_object f else None) fs"

definition all_objects :: "plugin_file list \<Rightarrow> nat list" where
  "all_objects fs = List.map_filter (\<lambda>f. if pf_module f \<noteq> NULL then pf_object f else None) fs"

text \<open>The state after the files \<open>fs\<close>: the list of a module holds what was made in it, as often as it is loaded.\<close>

definition modules_of :: "plugin_file list \<Rightarrow> modules \<Rightarrow> bool" where
  "modules_of fs md \<longleftrightarrow>
     distinct (map fst (md_plugins md)) \<and> fst ` set (md_plugins md) = pf_module ` set fs - {NULL} \<and>
     (\<forall>(h, obs) \<in> set (md_plugins md). obs = made h fs) \<and>
     (\<forall>h. md_loaded md h = length (made h fs)) \<and> md_live md = set (all_objects fs) \<and> md_refused md = []"

lemma made_snoc: "made h (fs @ [f]) = made h fs @ (if pf_module f = h \<and> h \<noteq> NULL then case pf_object f of None \<Rightarrow> [] | Some ob \<Rightarrow> [ob] else [])"
  by (simp add: made_def List.map_filter_def split: option.splits)

lemma all_objects_snoc:
  "all_objects (fs @ [f]) = all_objects fs @ (if pf_module f \<noteq> NULL then case pf_object f of None \<Rightarrow> [] | Some ob \<Rightarrow> [ob] else [])"
  by (simp add: all_objects_def List.map_filter_def split: option.splits)

lemma made_empty: "h \<notin> pf_module ` set fs \<Longrightarrow> made h fs = []"
  by (auto simp: made_def List.map_filter_def filter_empty_conv)

lemma made_objects: "set (made h fs) \<subseteq> set (all_objects fs)"
  by (auto simp: made_def all_objects_def List.map_filter_def split: if_splits)

lemma made_exports: "made h fs \<noteq> [] \<Longrightarrow> \<exists>f \<in> set fs. pf_module f = h \<and> h \<noteq> NULL \<and> pf_object f \<noteq> None"
  by (auto simp: made_def List.map_filter_def filter_empty_conv split: if_splits)

lemma load_module_ok:
  assumes "modules_of fs md" "pf_module f \<noteq> NULL \<Longrightarrow> pf_New f"
  shows "\<exists>md'. load_module f md = Inr md' \<and> modules_of (fs @ [f]) md'"
proof (cases "pf_module f = NULL")
  case True
  then show ?thesis using assms(1) by (auto simp: load_module_def modules_of_def made_snoc all_objects_snoc)
next
  case nz: False
  define h where "h = pf_module f"
  define md1 where "md1 = insert_module h (md\<lparr>md_loaded := (md_loaded md)(h := Suc (md_loaded md h))\<rparr>)"
  have d: "distinct (map fst (md_plugins md1))" and k: "fst ` set (md_plugins md1) = insert h (pf_module ` set fs - {NULL})"
    and o': "\<forall>(h, obs) \<in> set (md_plugins md1). obs = made h fs"
    and r: "md_loaded md1 = (md_loaded md)(h := Suc (md_loaded md h))" "md_live md1 = md_live md" "md_refused md1 = []"
    using assms(1) made_empty[of h fs] nz unfolding modules_of_def md1_def insert_module_def h_def by (auto simp: image_iff)
  have L: "load_module f md = fbind (createApplicationPluginObject f md1) (\<lambda>(applicationPlugin, md).
      Inr (if applicationPlugin = None then FreeLibrary h md else md))"
    using nz unfolding load_module_def md1_def h_def Let_def by simp
  show ?thesis
  proof (cases "pf_object f")
    case None
    then have e: "load_module f md = Inr (FreeLibrary h md1)" using L assms(2) nz by (simp add: createApplicationPluginObject_def)
    have s: "made g (fs @ [f]) = made g fs" "all_objects (fs @ [f]) = all_objects fs" for g using None by (simp_all add: made_snoc all_objects_snoc)
    have "modules_of (fs @ [f]) (FreeLibrary h md1)"
      using assms(1) d k o' r nz unfolding modules_of_def s by (auto simp: FreeLibrary_def h_def)
    then show ?thesis using e by blast
  next
    case (Some ob)
    let ?ps = "map (\<lambda>(g, obs). if g = pf_module f then (g, obs @ [ob]) else (g, obs)) (md_plugins md1)"
    have e: "load_module f md = Inr (md1\<lparr>md_live := insert ob (md_live md1), md_plugins := ?ps\<rparr>)"
      using L Some assms(2) nz by (simp add: createApplicationPluginObject_def)
    have keys: "map fst ?ps = map fst (md_plugins md1)" by (simp add: case_prod_beta comp_def)
    have "\<forall>(g, obs) \<in> set ?ps. obs = made g (fs @ [f])" using o' Some nz by (fastforce simp: made_snoc split: if_splits)
    moreover have "md_loaded md1 g = length (made g (fs @ [f]))" for g
      using r(1) Some nz assms(1) by (auto simp: made_snoc h_def modules_of_def)
    moreover have "insert ob (md_live md1) = set (all_objects (fs @ [f]))" using assms(1) Some nz r(2) by (simp add: all_objects_snoc modules_of_def)
    moreover have "fst ` set ?ps = pf_module ` set (fs @ [f]) - {NULL}" 
      using arg_cong[OF keys, of set] k nz by (simp only: set_map) (auto simp: h_def)
    moreover have "distinct (map fst ?ps)" unfolding keys by (rule d)
    ultimately have "modules_of (fs @ [f]) (md1\<lparr>md_live := insert ob (md_live md1), md_plugins := ?ps\<rparr>)"
      using r(3) unfolding modules_of_def by simp
    then show ?thesis using e by blast
  qed
qed

lemma load_modules_ok:
  assumes "modules_of gs md" "\<forall>f \<in> set fs. pf_module f \<noteq> NULL \<longrightarrow> pf_New f"
  shows "\<exists>md'. load_modules fs md = Inr md' \<and> modules_of (gs @ fs) md'"
  using assms
proof (induction fs arbitrary: gs md)
  case (Cons f fs)
  obtain md1 where m: "load_module f md = Inr md1" "modules_of (gs @ [f]) md1"
    using load_module_ok[OF Cons.prems(1), of f] Cons.prems(2) by auto
  then show ?case using Cons.IH[of "gs @ [f]" md1] Cons.prems(2) by simp
qed simp

text \<open>The modules the map holds nothing for are given back a second time.\<close>

lemma unload_all:
  assumes "distinct (map fst ps)" "distinct (concat (map snd ps))" "set (concat (map snd ps)) \<subseteq> md_live md"
    "\<forall>(h, obs) \<in> set ps. obs \<noteq> [] \<longrightarrow> exports_Delete h" "\<forall>(h, obs) \<in> set ps. md_loaded md h = length obs"
  shows "\<exists>md'. unloadClientPlugins exports_Delete ps md = Inr md' \<and> md_live md' = md_live md - set (concat (map snd ps)) \<and>
     md_loaded md' = (\<lambda>h. if h \<in> fst ` set ps then md_loaded md h - 1 else md_loaded md h) \<and>
     md_refused md' = md_refused md @ map fst (filter (\<lambda>(h, obs). obs = []) ps)"
  using assms
proof (induction ps arbitrary: md)
  case (Cons p ps)
  obtain h obs where p: "p = (h, obs)" by (cases p)
  define md1 where "md1 = FreeLibrary h (md\<lparr>md_live := md_live md - set obs\<rparr>)"
  have u: "unload_module exports_Delete p md = Inr md1" using Cons.prems by (auto simp: unload_module_def p md1_def)
  have l: "md_loaded md1 = (md_loaded md)(h := md_loaded md h - 1)" "md_live md1 = md_live md - set obs"
    "md_refused md1 = md_refused md @ (if obs = [] then [h] else [])"
    using Cons.prems(5) by (auto simp: md1_def FreeLibrary_def p fun_eq_iff)
  have h: "h \<notin> fst ` set ps" using Cons.prems(1) by (simp add: p)
  obtain md' where md': "unloadClientPlugins exports_Delete ps md1 = Inr md' \<and> md_live md' = md_live md1 - set (concat (map snd ps)) \<and>
     md_loaded md' = (\<lambda>h. if h \<in> fst ` set ps then md_loaded md1 h - 1 else md_loaded md1 h) \<and>
     md_refused md' = md_refused md1 @ map fst (filter (\<lambda>(h, obs). obs = []) ps)"
  proof -
    have sub: "set (concat (map snd ps)) \<subseteq> md_live md1" using Cons.prems(2,3) by (auto simp: l p)
    have loaded: "\<forall>(g, obs') \<in> set ps. md_loaded md1 g = length obs'"
    proof clarify
      fix g obs' assume "(g, obs') \<in> set ps"
      then have "g \<noteq> h" "md_loaded md g = length obs'" using Cons.prems(5) h by (auto simp: image_iff)
      then show "md_loaded md1 g = length obs'" by (simp add: l)
    qed
    from Cons.IH[OF _ _ sub _ loaded] show ?thesis using Cons.prems(1,2,4) that by (simp add: p) blast
  qed
  then have "unloadClientPlugins exports_Delete (p # ps) md = Inr md'" by (simp add: u)
  moreover have "md_loaded md' = (\<lambda>g. if g \<in> fst ` set (p # ps) then md_loaded md g - 1 else md_loaded md g)"
    using md' h by (simp add: l p fun_eq_iff)
  moreover have "md_live md' = md_live md - set (concat (map snd (p # ps)))" using md' by (simp add: l p Diff_eq Int_assoc)
  moreover have "md_refused md' = md_refused md @ map fst (filter (\<lambda>(h, obs). obs = []) (p # ps))" using md' by (simp add: l p)
  ultimately show ?case by blast
qed simp

lemma made_concat:
  assumes "distinct hs" "\<forall>f \<in> set fs. pf_module f \<noteq> NULL \<longrightarrow> pf_module f \<in> set hs" "NULL \<notin> set hs"
  shows "mset (concat (map (\<lambda>h. made h fs) hs)) = mset (all_objects fs)"
  using assms(2)
proof (induction fs rule: rev_induct)
  case Nil
  then show ?case by (induction hs) (simp_all add: made_def all_objects_def List.map_filter_def)
next
  case (snoc f fs)
  have add: "mset (concat (map (\<lambda>h. made h fs @ (if h = g then xs else [])) gs)) =
      mset (concat (map (\<lambda>h. made h fs) gs)) + (if g \<in> set gs then mset xs else {#})" if "distinct gs" for g xs gs
    using that by (induction gs) auto
  show ?case
  proof (cases "pf_module f = NULL")
    case True
    then have "made h (fs @ [f]) = made h fs" for h by (auto simp: made_snoc)
    then show ?thesis using snoc True by (simp add: all_objects_snoc)
  next
    case False
    let ?xs = "case pf_object f of None \<Rightarrow> [] | Some ob \<Rightarrow> [ob]"
    have eq: "map (\<lambda>h. made h (fs @ [f])) hs = map (\<lambda>h. made h fs @ (if h = pf_module f then ?xs else [])) hs"
      using assms(3) by (auto simp: made_snoc)
    show ?thesis unfolding eq add[OF assms(1)] using snoc False by (simp add: all_objects_snoc)
  qed
qed

text \<open>
  The end of the plug-ins: in whatever order the map is gone through, every object that a plug-in library
  made is deleted once and every library that made an object is given back; but a library that made no object
  was given back at once, is still in the map, and is given back again although it is not loaded.
\<close>

theorem plugins_given_back:
  assumes "\<forall>f \<in> set fs. pf_module f \<noteq> NULL \<longrightarrow> pf_New f"
    "\<forall>f \<in> set fs. pf_module f \<noteq> NULL \<and> pf_object f \<noteq> None \<longrightarrow> exports_Delete (pf_module f)"
    "distinct (all_objects fs)"
  shows "\<exists>md. load_modules fs no_modules = Inr md \<and> md_live md = set (all_objects fs) \<and>
     (\<forall>ps. mset ps = mset (md_plugins md) \<longrightarrow>
       (\<exists>md'. unloadClientPlugins exports_Delete ps md = Inr md' \<and> md_live md' = {} \<and>
          (\<forall>h. md_loaded md' h = length (made h fs) - 1) \<and> distinct (md_refused md') \<and>
          set (md_refused md') = {h \<in> pf_module ` set fs - {NULL}. made h fs = []}))"
proof -
  have "modules_of [] no_modules" by (simp add: modules_of_def no_modules_def made_def all_objects_def List.map_filter_def)
  then obtain md where md: "load_modules fs no_modules = Inr md" "modules_of fs md"
    using load_modules_ok[OF _ assms(1), of "[]"] by auto
  have "\<exists>md'. unloadClientPlugins exports_Delete ps md = Inr md' \<and> md_live md' = {} \<and>
      (\<forall>h. md_loaded md' h = length (made h fs) - 1) \<and> distinct (md_refused md') \<and>
      set (md_refused md') = {h \<in> pf_module ` set fs - {NULL}. made h fs = []}" if eq: "mset ps = mset (md_plugins md)" for ps
  proof -
    have S: "set ps = set (md_plugins md)" using eq by (rule mset_eq_setD)
    have d: "distinct (map fst ps)"
      using md(2) mset_eq_imp_distinct_iff[of "map fst ps" "map fst (md_plugins md)"] eq by (simp add: modules_of_def)
    have keys: "fst ` set ps = pf_module ` set fs - {NULL}" and o': "\<forall>(h, obs) \<in> set ps. obs = made h fs"
      and l: "\<forall>h. md_loaded md h = length (made h fs)" and live: "md_live md = set (all_objects fs)" and r: "md_refused md = []"
      using md(2) by (simp_all add: modules_of_def S)
    have m: "map snd ps = map (\<lambda>h. made h fs) (map fst ps)" unfolding map_map by (rule map_cong[OF refl]) (use o' in \<open>auto split: prod.splits\<close>)
    have objs: "mset (concat (map snd ps)) = mset (all_objects fs)" unfolding m
    proof (rule made_concat[OF d])
      show "\<forall>f \<in> set fs. pf_module f \<noteq> NULL \<longrightarrow> pf_module f \<in> set (map fst ps)" "NULL \<notin> set (map fst ps)"
        unfolding set_map keys by simp_all
    qed
    have cs: "set (concat (map snd ps)) = md_live md" unfolding live by (rule mset_eq_setD[OF objs])
    have dist: "distinct (concat (map snd ps))" using mset_eq_imp_distinct_iff[OF objs] assms(3) by simp
    have "exports_Delete h" if "(h, obs) \<in> set ps" "obs \<noteq> []" for h obs
    proof -
      have "made h fs \<noteq> []" using o' that by auto
      then show ?thesis using made_exports[of h fs] assms(2) by blast
    qed
    then have del: "\<forall>(h, obs) \<in> set ps. obs \<noteq> [] \<longrightarrow> exports_Delete h" by blast
    have "\<forall>(h, obs) \<in> set ps. md_loaded md h = length obs" using o' l by auto
    from unload_all[OF d dist _ del this] cs obtain md' where md': "unloadClientPlugins exports_Delete ps md = Inr md'"
      "md_live md' = {}" "md_loaded md' = (\<lambda>h. if h \<in> fst ` set ps then md_loaded md h - 1 else md_loaded md h)"
      "md_refused md' = map fst (filter (\<lambda>(h, obs). obs = []) ps)" using r by auto
    have "md_loaded md' h = length (made h fs) - 1" for h
    proof (cases "h \<in> fst ` set ps")
      case False
      then have "made h fs = []" using keys made_empty[of h fs] made_exports[of h fs] by blast
      then show ?thesis using md'(3) l by simp
    qed (use md'(3) l in simp)
    moreover have "set (md_refused md') = {h \<in> pf_module ` set fs - {NULL}. made h fs = []}"
      unfolding md'(4) keys[symmetric] using o' by force
    moreover have "distinct (md_refused md')" unfolding md'(4) by (rule distinct_map_filter[OF d])
    ultimately show ?thesis using md' by blast
  qed
  moreover have "md_live md = set (all_objects fs)" using md(2) by (simp add: modules_of_def)
  ultimately show ?thesis using md(1) by blast
qed

definition example_files :: "plugin_file list" where
  "example_files =
     [\<lparr>pf_module = 0x10000000, pf_New = True, pf_object = Some 1\<rparr>, \<lparr>pf_module = 0, pf_New = False, pf_object = None\<rparr>,
      \<lparr>pf_module = 0x20000000, pf_New = True, pf_object = None\<rparr>]"

text \<open>Of three files one makes an object, one does not load, and the one that makes none is given back twice.\<close>

theorem plugins_given_back_witness:
  "\<exists>md. load_modules example_files no_modules = Inr md \<and> md_live md = set (all_objects example_files) \<and>
     (\<forall>ps. mset ps = mset (md_plugins md) \<longrightarrow>
       (\<exists>md'. unloadClientPlugins (\<lambda>_. True) ps md = Inr md' \<and> md_live md' = {} \<and>
          (\<forall>h. md_loaded md' h = length (made h example_files) - 1) \<and> distinct (md_refused md') \<and>
          set (md_refused md') = {h \<in> pf_module ` set example_files - {NULL}. made h example_files = []}))"
  by (rule plugins_given_back) (simp_all add: example_files_def all_objects_def List.map_filter_def)

end
