(* ===== verification/ClientMain.thy ===== *)
theory ClientMain
  imports Analyzer ClientLog PluginModules
begin

text \<open>
  CaptureClient.cpp: the privileges, the construction, the thread and the end of the client, and
  the main function with what it does before; with the end of the analyzer (Analyzer.cpp) and of
  the server connection (Server.cpp). The parts are those of the other theories; Windows answers
  through arguments.
\<close>

section \<open>The directory of the logs\<close>

text \<open>Up to the last backslash; without one, find_last_of + 1 is 0 and nothing is left.\<close>

definition program_directory :: "u16 list \<Rightarrow> u16 list" where
  "program_directory path = (case find_last 0x5C path of None \<Rightarrow> [] | Some i \<Rightarrow> take (i + 1) path)"

text \<open>A text and its NUL are written over the beginning of a block.\<close>

definition put_text :: "u16 list \<Rightarrow> u16 list \<Rightarrow> u16 list" where
  "put_text s block = s @ 0 # drop (Suc (length s)) block"

text \<open>SHFileOperation reads the names of files up to an empty one; None: it leaves the block.\<close>

function file_list :: "u16 list \<Rightarrow> u16 list list option" where
  "file_list block =
     (let s = takeWhile (\<lambda>c. c \<noteq> 0) block in
      if length s = length block then None
      else if s = [] then Some []
      else map_option ((#) s) (file_list (drop (Suc (length s)) block)))"
  by auto
termination
proof (relation "measure length")
  fix block :: "u16 list" and s
  assume "s = takeWhile (\<lambda>c. c \<noteq> 0) block" "length s \<noteq> length block"
  then show "(drop (Suc (length s)) block, block) \<in> measure length" by (cases block) simp_all
qed simp

declare file_list.simps [simp del]

text \<open>
  The full path of the program, the current directory after it was set and the full path of logs
  go into the same block of 4096 characters, one after the other.
\<close>

record main_env =
  mn_fullPath :: "u16 list"
  mn_currentDirectory :: "u16 list \<Rightarrow> u16 list"
  mn_logs :: "u16 list \<Rightarrow> u16 list"
  mn_block :: "u16 list"
  mn_wpcap :: bool
  mn_7za :: bool

definition deleted_at_start :: "main_env \<Rightarrow> u16 list list option" where
  "deleted_at_start env =
     (let szFullPath = put_text (mn_fullPath env) (mn_block env);
          current = mn_currentDirectory env (program_directory (mn_fullPath env));
          szFullPath = put_text current szFullPath;
          szFullPath = put_text (mn_logs env current) szFullPath
      in file_list szFullPath)"

section \<open>Privileges\<close>

text \<open>
  The token or none, the number of a privilege, whether AdjustTokenPrivileges succeeds and the last
  error it leaves; \<open>pv_unset\<close> is what is in hToken when nothing was put there.
\<close>

record privilege_env =
  pv_token :: "u32 option"
  pv_lookup :: "u16 list \<Rightarrow> u64 option"
  pv_adjust :: "u64 \<Rightarrow> bool \<times> u32"
  pv_unset :: u32

abbreviation (input) ERROR_NOT_ALL_ASSIGNED :: u32 where "ERROR_NOT_ALL_ASSIGNED \<equiv> 1300"

text \<open>The handles of the process that are open.\<close>

definition obtain_privilege :: "u16 list \<Rightarrow> privilege_env \<Rightarrow> u32 list \<Rightarrow> bool \<times> u32 list" where
  "obtain_privilege lpszPrivilege env handles =
     (case pv_token env of
        None \<Rightarrow> (True, remove1 (pv_unset env) handles)
      | Some hToken \<Rightarrow>
          let handles = hToken # handles in
          case pv_lookup env lpszPrivilege of
            None \<Rightarrow> (False, handles)
          | Some luid \<Rightarrow>
              (case pv_adjust env luid of (adjusted, lastError) \<Rightarrow>
                 if \<not> adjusted then (False, handles)
                 else if lastError = ERROR_NOT_ALL_ASSIGNED then (False, handles)
                 else (True, remove1 hToken handles)))"

definition obtainDriverLoadPrivilege :: "privilege_env \<Rightarrow> u32 list \<Rightarrow> bool \<times> u32 list" where
  "obtainDriverLoadPrivilege = obtain_privilege (wide ''SeLoadDriverPrivilege'')"

definition obtainDebugPrivilege :: "privilege_env \<Rightarrow> u32 list \<Rightarrow> bool \<times> u32 list" where
  "obtainDebugPrivilege = obtain_privilege (wide ''SeDebugPrivilege'')"

section \<open>The client\<close>

record client =
  cl_options :: options
  cl_logger :: logger
  cl_port :: int
  cl_modules :: modules
  cl_analyzer :: analyzer
  cl_handles :: "u32 list"
  cl_stopRunning :: bool

text \<open>The orders are those in which the hash maps are gone through.\<close>

record client_env =
  cn_debug :: privilege_env
  cn_driver :: privilege_env
  cn_log_path :: "u16 list \<Rightarrow> u16 list"
  cn_log_name :: "u16 list \<Rightarrow> nat option"
  cn_log_created :: bool
  cn_plugins :: "plugin_file list"
  cn_exports_Delete :: "u32 \<Rightarrow> bool"
  cn_connect :: connect_env
  cn_analyzer :: analyzer_env
  cn_option_order :: "u16 list list"
  cn_module_order :: "(u32 \<times> nat list) list \<Rightarrow> (u32 \<times> nat list) list"

definition with_options :: "client_env \<Rightarrow> options \<Rightarrow> analyzer_env" where
  "with_options env op = (cn_analyzer env)\<lparr>ae_options := op\<rparr>"

definition open_log :: "client_env \<Rightarrow> options \<Rightarrow> fault + logger" where
  "open_log env op =
     (let file = getOption op (wide ''log-system-events-file'') in
      if file \<noteq> [] then openLogFile (cn_log_path env file) (cn_log_name env file) (cn_log_created env) new_logger
      else Inr new_logger)"

definition new_client :: "client_env \<Rightarrow> u32 list \<Rightarrow> options \<Rightarrow> fault + client" where
  "new_client env handles op =
     (case obtainDebugPrivilege (cn_debug env) handles of (debug, handles) \<Rightarrow>
      if \<not> debug then Inl Exited
      else case obtainDriverLoadPrivilege (cn_driver env) handles of (driver, handles) \<Rightarrow>
      if \<not> driver then Inl Exited
      else fbind (open_log env op) (\<lambda>lg.
        case lx_int (te_lexical (ae_transfer (cn_analyzer env))) (getOption op (wide ''port'')) of
          None \<Rightarrow> Inl Uncaught
        | Some port \<Rightarrow>
            fbind (load_modules (cn_plugins env) no_modules) (\<lambda>md.
              Inr \<lparr>cl_options = op, cl_logger = lg, cl_port = port, cl_modules = md,
                   cl_analyzer = new_analyzer (with_options env op) (cn_option_order env) new_server,
                   cl_handles = handles, cl_stopRunning = False\<rparr>)))"

section \<open>The thread of the client\<close>

text \<open>The text of the port has six characters with its NUL; what does not fit ends the program.\<close>

definition port_fits :: "int \<Rightarrow> bool" where
  "port_fits port \<longleftrightarrow> -9999 \<le> port \<and> port \<le> 99999"

definition standalone :: "client \<Rightarrow> bool" where
  "standalone cl \<longleftrightarrow> getOption (cl_options cl) (wide ''server'') = []"

definition in_analyzer :: "(analyzer \<Rightarrow> fault + analyzer) \<Rightarrow> client \<Rightarrow> fault + client" where
  "in_analyzer f cl = fbind (f (cl_analyzer cl)) (\<lambda>an. Inr (cl\<lparr>cl_analyzer := an\<rparr>))"

definition connect_client :: "client_env \<Rightarrow> client \<Rightarrow> fault + bool \<times> client" where
  "connect_client env cl =
     (if initialiseWinsock2 (cn_connect env) \<and> \<not> port_fits (cl_port cl) then Inl Uncaught
      else case connectToServer (cn_connect env) True (an_server (cl_analyzer cl)) of (connected, sv) \<Rightarrow>
        Inr (connected, cl\<lparr>cl_analyzer := (cl_analyzer cl)\<lparr>an_server := sv\<rparr>\<rparr>))"

text \<open>What happens until a key is pressed: to the analyzer, or a document of the server sets an option.\<close>

datatype client_event = Happens occurrence | OptionDocument Element

fun client_occurs :: "client_env \<Rightarrow> client_event \<Rightarrow> client \<Rightarrow> fault + client" where
  "client_occurs env (Happens x) cl = in_analyzer (occurs (with_options env (cl_options cl)) x) cl"
| "client_occurs env (OptionDocument e) cl =
     (let op = onOptionEvent e (cl_options cl);
          changed = drop (length (op_changed (cl_options cl))) (op_changed op)
      in Inr (cl\<lparr>cl_options := op,
                cl_analyzer := fold (\<lambda>n an. onOptionChanged (with_options env op) an n) changed (cl_analyzer cl)\<rparr>))"

fun client_happens :: "client_env \<Rightarrow> client_event list \<Rightarrow> client \<Rightarrow> fault + client" where
  "client_happens env [] cl = Inr cl"
| "client_happens env (x # xs) cl = fbind (client_occurs env x cl) (client_happens env xs)"

definition run :: "client_env \<Rightarrow> client_event list \<Rightarrow> client \<Rightarrow> fault + client" where
  "run env es cl =
     fbind (if standalone cl then Inr (True, cl) else connect_client env cl) (\<lambda>(connected, cl).
     fbind (if connected then
        fbind (if standalone cl then in_analyzer start cl else Inr cl) (\<lambda>cl.
        fbind (client_happens env es cl) (\<lambda>cl.
        if standalone cl then in_analyzer (stop (with_options env (cl_options cl))) cl else Inr cl))
      else Inr cl) (\<lambda>cl. Inr (cl\<lparr>cl_stopRunning := True\<rparr>)))"

section \<open>The end\<close>

definition destroy_analyzer :: "analyzer \<Rightarrow> fault + analyzer" where
  "destroy_analyzer an =
     (if an_captureNetworkPackets an then
        case an_dumper an of
          NoDumper \<Rightarrow> Inr an
        | LiveDumper \<Rightarrow> Inr (act (Dumper DeleteDumper) (an\<lparr>an_dumper := DeletedDumper\<rparr>))
        | DeletedDumper \<Rightarrow> Inl BadPointer
      else Inr an)"

definition destroy_server :: "server \<Rightarrow> server" where
  "destroy_server sv = disconnectFromServer (sv\<lparr>sv_receiving := False\<rparr>)"

definition destroy_client :: "client_env \<Rightarrow> client \<Rightarrow> fault + client" where
  "destroy_client env cl =
     fbind (destroy_analyzer (cl_analyzer cl)) (\<lambda>an.
     fbind (unloadClientPlugins (cn_exports_Delete env) (cn_module_order env (md_plugins (cl_modules cl))) (cl_modules cl)) (\<lambda>md.
     Inr (cl\<lparr>cl_analyzer := an\<lparr>an_server := destroy_server (an_server an)\<rparr>, cl_modules := md, cl_logger := closeLogFile (cl_logger cl)\<rparr>)))"

section \<open>The main function\<close>

definition initial_options :: "settings \<Rightarrow> options" where
  "initial_options st = set_options st \<lparr>op_map = Map.empty, op_changed = []\<rparr>"

definition client_main :: "main_env \<Rightarrow> client_env \<Rightarrow> u32 list \<Rightarrow> u16 list list \<Rightarrow> client_event list \<Rightarrow> fault + client" where
  "client_main menv env handles args es =
     (if args \<noteq> [] \<and> hd args = wide ''-t'' then Inl Exited
      else fbind (read_arguments (mn_wpcap menv) args default_settings) (\<lambda>st.
        let op = initial_options st in
        if st_collectModifiedFiles st = wide ''true'' \<and> st_serverIp st \<noteq> [] \<and> \<not> mn_7za menv then Inl Exited
        else fbind (new_client env handles op) (\<lambda>cl.
             fbind (run env es cl) (destroy_client env))))"

section \<open>What is deleted at the start\<close>

lemma program_directory_split: "0x5C \<notin> set name \<Longrightarrow> program_directory (dir @ 0x5C # name) = dir @ [0x5C]"
  by (simp add: program_directory_def find_last_last)

lemma file_list_text:
  "0 \<notin> set s \<Longrightarrow> s \<noteq> [] \<Longrightarrow> file_list (s @ 0 # block) = map_option ((#) s) (file_list block)"
proof -
  assume "0 \<notin> set s" "s \<noteq> []"
  from \<open>0 \<notin> set s\<close> have "takeWhile (\<lambda>c. c \<noteq> 0) (s @ 0 # block) = s" by (induction s) auto
  then show ?thesis using \<open>s \<noteq> []\<close> by (subst file_list.simps) (simp add: Let_def)
qed

text \<open>
  C40: The main function asks the shell to delete more than its logs: the list is not ended with a second NUL, so
  behind the directory of the logs it goes on with the program's own name from its sixth character, and
  then with whatever the new block of memory held. Whoever calls the program "CaptureClient.exe" has
  "reClient.exe" deleted.
\<close>

theorem start_deletes_more:
  assumes "mn_fullPath env = dir @ 0x5C # name" "0x5C \<notin> set name" "5 < length name" "0 \<notin> set (dir @ name)"
    "mn_currentDirectory env (dir @ [0x5C]) = dir" "mn_logs env dir = dir @ 0x5C # wide ''logs''"
  shows "deleted_at_start env =
     map_option (\<lambda>more. (dir @ 0x5C # wide ''logs'') # drop 5 name # more) (file_list (drop (Suc (length (mn_fullPath env))) (mn_block env)))"
proof -
  have w: "length (wide ''logs'') = 4" "0 \<notin> set (wide ''logs'')" by (simp_all add: wide_def)
  have "put_text (dir @ 0x5C # wide ''logs'') (put_text dir (put_text (dir @ 0x5C # name) (mn_block env))) =
      (dir @ 0x5C # wide ''logs'') @ 0 # drop 5 name @ 0 # drop (Suc (length (mn_fullPath env))) (mn_block env)"
    using assms(1,3) w(1) by (simp add: put_text_def Suc_diff_Suc numeral_eq_Suc)
  moreover have "drop 5 name \<noteq> []" "0 \<notin> set (drop 5 name)" "0 \<notin> set (dir @ 0x5C # wide ''logs'')"
    using assms(3,4) w(2) by (auto dest: in_set_dropD)
  moreover have "deleted_at_start env = file_list (put_text (dir @ 0x5C # wide ''logs'') (put_text dir (put_text (dir @ 0x5C # name) (mn_block env))))"
    using assms by (simp add: deleted_at_start_def Let_def program_directory_split)
  ultimately show ?thesis
    using file_list_text[of "dir @ 0x5C # wide ''logs''"] file_list_text[of "drop 5 name"] by (simp only:) (simp add: option.map_comp comp_def)
qed

definition example_main :: main_env where
  "example_main = \<lparr>mn_fullPath = wide ''C:'' @ 0x5C # wide ''capture'' @ 0x5C # wide ''CaptureClient.exe'',
     mn_currentDirectory = (\<lambda>dir. butlast dir), mn_logs = (\<lambda>dir. dir @ 0x5C # wide ''logs''), mn_block = replicate 40 0,
     mn_wpcap = False, mn_7za = False\<rparr>"

theorem start_deletes_more_witness:
  "deleted_at_start example_main = Some [wide ''C:'' @ 0x5C # wide ''capture'' @ 0x5C # wide ''logs'', wide ''reClient.exe'']"
proof -
  have "deleted_at_start example_main =
     map_option (\<lambda>more. ((wide ''C:'' @ 0x5C # wide ''capture'') @ 0x5C # wide ''logs'') # drop 5 (wide ''CaptureClient.exe'') # more)
       (file_list (drop (Suc (length (mn_fullPath example_main))) (mn_block example_main)))"
    by (rule start_deletes_more) (simp_all add: example_main_def wide_def)
  moreover have "file_list (drop (Suc (length (mn_fullPath example_main))) (mn_block example_main)) = Some []"
    by (simp add: example_main_def wide_def file_list.simps[of "0 # _"] numeral_eq_Suc)
  ultimately show ?thesis by (simp add: wide_def)
qed

section \<open>Without a server nothing is sent\<close>

lemma act_server [simp]: "an_server (act a an) = an_server an"
  by (simp add: act_def)

lemma use_dumper_server: "use_dumper a an = Inr an' \<Longrightarrow> an_server an' = an_server an"
  by (auto simp: use_dumper_def split: dumper.splits)

lemma onOptionChanged_server [simp]: "an_server (onOptionChanged env an n) = an_server an"
  by (simp add: onOptionChanged_def packet_option_def Let_def)

lemma fold_options_server [simp]: "an_server (fold (\<lambda>n an. onOptionChanged env an n) ns an) = an_server an"
  by (induction ns arbitrary: an) simp_all

lemma start_server: "start an = Inr an' \<Longrightarrow> an_server an' = an_server an"
  by (auto simp: start_def Let_def fbind_eq_Inr dest: use_dumper_server split: if_splits)

lemma delete_pcap_server: "delete_pcap env an = Inr an' \<Longrightarrow> an_server an' = an_server an"
  by (auto simp: delete_pcap_def fbind_eq_Inr dest!: use_dumper_server split: if_splits)

lemma send_logs_server: "\<not> sv_connected (an_server an) \<Longrightarrow> send_logs env an = Inr an' \<Longrightarrow> an_server an' = an_server an"
  by (auto simp: send_logs_def upload_def compressLogDirectory_def Let_def fbind_eq_Inr dest!: delete_pcap_server split: if_splits)

lemma stop_server: "\<not> sv_connected (an_server an) \<Longrightarrow> stop env an = Inr an' \<Longrightarrow> an_server an' = an_server an"
  by (auto simp: stop_def Let_def fbind_eq_Inr dest!: use_dumper_server send_logs_server[rotated] split: if_splits)

lemma send_unconnected: "\<not> sv_connected sv \<Longrightarrow> send_element env e sv = sv" "\<not> sv_connected sv \<Longrightarrow> send_xml env n as sv = sv"
  by (simp_all add: send_element_def send_xml_def sendElement_def sendXML_def)

lemma update_server: "\<not> sv_connected (an_server an) \<Longrightarrow> update env c v an = Inr an' \<Longrightarrow> an_server an' = an_server an"
  by (auto simp: update_def Let_def fbind_eq_Inr send_verdict_def send_unconnected dest: start_server split: if_splits)
     (metis stop_server send_unconnected(1))+

lemma monitor_signal_server: "\<not> sv_connected (an_server an) \<Longrightarrow> an_server (monitor_signal env ev an) = an_server an"
proof -
  assume "\<not> sv_connected (an_server an)"
  then have "an_server ((on_event env ev ^^ n) an) = an_server an" for n by (induction n) (simp_all add: on_event_def send_unconnected)
  then show ?thesis by (simp add: monitor_signal_def)
qed

lemma occurs_server: "\<not> sv_connected (an_server an) \<Longrightarrow> occurs env x an = Inr an' \<Longrightarrow> an_server an' = an_server an"
  by (cases x) (auto simp: update_server monitor_signal_server)

section \<open>The client as a whole\<close>

text \<open>What holds from the construction of the client to its end.\<close>

definition client_ok :: "bool \<Rightarrow> client \<Rightarrow> bool" where
  "client_ok offline cl \<longleftrightarrow> analyzer_ok (cl_analyzer cl) \<and> (offline \<longrightarrow> an_server (cl_analyzer cl) = new_server)"

lemma new_server_unconnected [simp]: "\<not> sv_connected new_server"
  by (simp add: new_server_def)

lemma in_analyzer_ok:
  assumes "client_ok offline cl" "\<And>an. analyzer_ok an \<Longrightarrow> f an = Inl Exited \<or> (\<exists>an'. f an = Inr an' \<and> analyzer_ok an')"
    "\<And>an an'. \<not> sv_connected (an_server an) \<Longrightarrow> f an = Inr an' \<Longrightarrow> an_server an' = an_server an"
  shows "in_analyzer f cl = Inl Exited \<or>
     (\<exists>an'. in_analyzer f cl = Inr (cl\<lparr>cl_analyzer := an'\<rparr>) \<and> client_ok offline (cl\<lparr>cl_analyzer := an'\<rparr>))"
  using assms(1) assms(2)[of "cl_analyzer cl"] assms(3)[of "cl_analyzer cl"] by (auto simp: in_analyzer_def client_ok_def)

text \<open>Nothing but the options and the analyzer changes while the client runs.\<close>

definition same_rest :: "client \<Rightarrow> client \<Rightarrow> bool" where
  "same_rest cl cl' \<longleftrightarrow> cl_modules cl' = cl_modules cl \<and> cl_logger cl' = cl_logger cl"

lemma same_rest_trans: "same_rest a b \<Longrightarrow> same_rest b c \<Longrightarrow> same_rest a c"
  by (simp add: same_rest_def)

lemma client_occurs_ok:
  assumes "client_ok offline cl"
  shows "client_occurs env x cl = Inl Exited \<or>
     (\<exists>cl'. client_occurs env x cl = Inr cl' \<and> client_ok offline cl' \<and> same_rest cl cl')"
proof (cases x)
  case (Happens y)
  let ?f = "occurs (with_options env (cl_options cl)) y"
  have "in_analyzer ?f cl = Inl Exited \<or>
     (\<exists>an'. in_analyzer ?f cl = Inr (cl\<lparr>cl_analyzer := an'\<rparr>) \<and> client_ok offline (cl\<lparr>cl_analyzer := an'\<rparr>))"
    using assms by (rule in_analyzer_ok) (use occurs_ok occurs_server in blast)+
  then show ?thesis by (auto simp: Happens same_rest_def)
next
  case (OptionDocument e)
  then show ?thesis using assms by (simp add: client_ok_def same_rest_def fold_options_ok Let_def)
qed

lemma client_happens_ok:
  "client_ok offline cl \<Longrightarrow> client_happens env xs cl = Inl Exited \<or>
     (\<exists>cl'. client_happens env xs cl = Inr cl' \<and> client_ok offline cl' \<and> same_rest cl cl')"
proof (induction xs arbitrary: cl)
  case (Cons x xs)
  from client_occurs_ok[OF Cons.prems, of env x] show ?case
  proof
    assume "\<exists>cl'. client_occurs env x cl = Inr cl' \<and> client_ok offline cl' \<and> same_rest cl cl'"
    then obtain cl' where c: "client_occurs env x cl = Inr cl'" "client_ok offline cl'" "same_rest cl cl'" by blast
    from Cons.IH[OF c(2)] c show ?case using same_rest_trans by fastforce
  qed simp
qed (simp add: same_rest_def)

lemma start_client:
  assumes "client_ok offline cl"
  shows "\<exists>an'. in_analyzer start cl = Inr (cl\<lparr>cl_analyzer := an'\<rparr>) \<and> client_ok offline (cl\<lparr>cl_analyzer := an'\<rparr>)"
  using assms start_ok[of "cl_analyzer cl"] by (auto simp: in_analyzer_def client_ok_def same_dumper_ok)

lemma stop_client:
  assumes "client_ok offline cl"
  shows "in_analyzer (stop aenv) cl = Inl Exited \<or>
     (\<exists>an'. in_analyzer (stop aenv) cl = Inr (cl\<lparr>cl_analyzer := an'\<rparr>) \<and> client_ok offline (cl\<lparr>cl_analyzer := an'\<rparr>))"
  using assms
proof (rule in_analyzer_ok)
  fix an assume ok: "analyzer_ok an"
  then have "analyzer_ok (disconnected an)" by (simp add: disconnected_def analyzer_ok_def)
  then show "stop aenv an = Inl Exited \<or> (\<exists>an'. stop aenv an = Inr an' \<and> analyzer_ok an')"
    using stop_quiet[OF ok, of aenv] by (auto simp: quiet_def same_dumper_ok)
qed (rule stop_server)

lemma client_run_ok:
  assumes "client_ok (standalone cl) cl" "port_fits (cl_port cl)"
  shows "run env es cl = Inl Exited \<or>
     (\<exists>cl'. run env es cl = Inr cl' \<and> client_ok (standalone cl) cl' \<and> same_rest cl cl' \<and> cl_stopRunning cl')"
proof -
  let ?g = "if standalone cl then Inr (True, cl) else connect_client env cl"
  obtain connected cl1 where g: "?g = Inr (connected, cl1)" "client_ok (standalone cl) cl1" "same_rest cl cl1" "standalone cl1 = standalone cl"
  proof (cases "standalone cl")
    case True
    then show ?thesis using that[of True cl] assms(1) by (simp add: same_rest_def)
  next
    case False
    obtain ok sv where "connectToServer (cn_connect env) True (an_server (cl_analyzer cl)) = (ok, sv)" by fastforce
    then show ?thesis
      using that[of ok "cl\<lparr>cl_analyzer := (cl_analyzer cl)\<lparr>an_server := sv\<rparr>\<rparr>"] assms False
      by (simp add: connect_client_def client_ok_def same_rest_def standalone_def analyzer_ok_def)
  qed
  let ?body = "fbind (if standalone cl1 then in_analyzer start cl1 else Inr cl1) (\<lambda>cl. fbind (client_happens env es cl) (\<lambda>cl.
        if standalone cl then in_analyzer (stop (with_options env (cl_options cl))) cl else Inr cl))"
  have r: "run env es cl = fbind (if connected then ?body else Inr cl1) (\<lambda>cl. Inr (cl\<lparr>cl_stopRunning := True\<rparr>))"
    using g(1) by (simp add: run_def)
  obtain cl2 where s: "(if standalone cl1 then in_analyzer start cl1 else Inr cl1) = Inr cl2" "client_ok (standalone cl) cl2" "same_rest cl1 cl2"
    using start_client[OF g(2)] g(2) by (cases "standalone cl1") (auto simp: same_rest_def)
  have "?body = Inl Exited \<or> (\<exists>cl'. ?body = Inr cl' \<and> client_ok (standalone cl) cl' \<and> same_rest cl1 cl')"
    using client_happens_ok[OF s(2), of env es]
  proof
    assume "\<exists>cl'. client_happens env es cl2 = Inr cl' \<and> client_ok (standalone cl) cl' \<and> same_rest cl2 cl'"
    then obtain cl3 where h: "client_happens env es cl2 = Inr cl3" "client_ok (standalone cl) cl3" "same_rest cl2 cl3" by blast
    show ?thesis
      using stop_client[OF h(2), of "with_options env (cl_options cl3)"] h s by (cases "standalone cl3") (auto simp: same_rest_def)
  qed (simp add: s)
  then have "(if connected then ?body else Inr cl1) = Inl Exited \<or>
      (\<exists>cl'. (if connected then ?body else Inr cl1) = Inr cl' \<and> client_ok (standalone cl) cl' \<and> same_rest cl cl')"
    using g same_rest_trans[OF g(3)] by (cases connected) auto
  then show ?thesis unfolding r by (auto simp: client_ok_def same_rest_def)
qed

lemma initial_options_get:
  "getOption (initial_options st) (wide ''port'') = st_serverPort st" "getOption (initial_options st) (wide ''server'') = st_serverIp st"
  "getOption (initial_options st) (wide ''log-system-events-file'') = st_logSystemEventsFile st"
  by (simp_all add: initial_options_def set_options_def wide_def)

lemma initial_options_dom:
  "dom (op_map (initial_options st)) = set (map wide [''server'', ''port'', ''vm-server-id'', ''vm-id'', ''log-system-events-file'',
     ''collect-modified-files'', ''capture-network-packets'', ''capture-network-packets-malicious'', ''capture-network-packets-benign''])"
  by (auto simp: initial_options_def set_options_def addOption_def)

text \<open>What is known of the libraries of the plug-ins: they export what is called, and each is loaded for one object.\<close>

definition plugins_good :: "client_env \<Rightarrow> bool" where
  "plugins_good env \<longleftrightarrow>
     (\<forall>f \<in> set (cn_plugins env). pf_module f \<noteq> NULL \<longrightarrow> pf_New f) \<and>
     (\<forall>f \<in> set (cn_plugins env). pf_module f \<noteq> NULL \<and> pf_object f \<noteq> None \<longrightarrow> cn_exports_Delete env (pf_module f)) \<and>
     distinct (all_objects (cn_plugins env)) \<and> (\<forall>ps. mset (cn_module_order env ps) = mset ps)"


definition example_client_env :: client_env where
  "example_client_env = \<lparr>cn_debug = \<lparr>pv_token = Some 8, pv_lookup = (\<lambda>_. Some 20), pv_adjust = (\<lambda>_. (True, 0)), pv_unset = 0\<rparr>,
     cn_driver = \<lparr>pv_token = Some 12, pv_lookup = (\<lambda>_. Some 10), pv_adjust = (\<lambda>_. (True, 0)), pv_unset = 0\<rparr>,
     cn_log_path = id, cn_log_name = (\<lambda>_. Some 0), cn_log_created = True, cn_plugins = example_files, cn_exports_Delete = (\<lambda>_. True),
     cn_connect = \<lparr>ce_startup = True, ce_version_low = 2, ce_version_high = 2, ce_resolved = True, ce_tries = [True]\<rparr>,
     cn_analyzer = example_analyzer_env\<lparr>ae_transfer := example_transfer\<lparr>te_lexical := \<lparr>lx_int = (\<lambda>_. Some 7070), lx_text = (\<lambda>_. []), lx_time = []\<rparr>\<rparr>\<rparr>,
     cn_option_order = map wide [''server'', ''port'', ''vm-server-id'', ''vm-id'', ''log-system-events-file'', ''collect-modified-files'',
       ''capture-network-packets'', ''capture-network-packets-malicious'', ''capture-network-packets-benign''], cn_module_order = id\<rparr>"


text \<open>When a log file is asked for, the client never gets to its end: opening it crashes.\<close>

lemma logging_client_crashes:
  assumes "read_arguments (mn_wpcap menv) args default_settings = Inr st" "st_logSystemEventsFile st \<noteq> []"
  shows "\<exists>e. client_main menv env handles args es = Inl e"
proof -
  have "\<exists>e. new_client env handles (initial_options st) = Inl e"
  proof -
    have "\<exists>e. open_log env (initial_options st) = Inl e"
      using assms(2) opening_the_log_faults[of new_logger] by (simp add: open_log_def Let_def initial_options_get new_logger_def)
    then show ?thesis by (auto simp: new_client_def split: prod.splits)
  qed
  then show ?thesis using assms(1) by (auto simp: client_main_def Let_def)
qed

end
