(* ===== verification/ProcessManager.thy ===== *)
theory ProcessManager
  imports ClientMonitor
begin

text \<open>
  ProcessManager.cpp of the client: the map from process ids to the paths of their images that
  the monitors ask, and the translation of device paths to drive letters. Windows answers through
  arguments: the device behind a drive letter, the long form of a path, the image of a process;
  and which processes the process monitor reports while a question waits.
\<close>

section \<open>Paths\<close>

text \<open>None: QueryDosDevice or GetLongPathName fails.\<close>

record path_env =
  pe_device :: "u16 \<Rightarrow> u16 list option"
  pe_long :: "u16 list \<Rightarrow> u16 list option"

text \<open>The drives from A on; the text of the target ends at its first NUL.\<close>

fun drive_from :: "path_env \<Rightarrow> nat \<Rightarrow> u16 \<Rightarrow> u16 list \<Rightarrow> u16 list" where
  "drive_from env 0 drive devicePath = wide ''?:''"
| "drive_from env (Suc n) drive devicePath =
     (if pe_device env drive = Some devicePath then [drive, 0x3A] else drive_from env n (drive + 1) devicePath)"

definition convertDevicePathToDOSDrive :: "path_env \<Rightarrow> u16 list \<Rightarrow> u16 list" where
  "convertDevicePathToDOSDrive env devicePath = drive_from env 26 0x41 devicePath"

text \<open>find answers npos where there is nothing, and npos + 1 is 0; substr throws behind the end.\<close>

definition second_backslash :: "u16 list \<Rightarrow> nat option" where
  "second_backslash s =
     (case find_from 0x5C s 1 of
        Some i \<Rightarrow> find_from 0x5C s (i + 1)
      | None \<Rightarrow> find_from 0x5C s 0)"

definition convertFileObjectPathToDOSPath :: "path_env \<Rightarrow> u16 list \<Rightarrow> fault + u16 list" where
  "convertFileObjectPathToDOSPath env path =
     (if find_from 0x5C path 0 = Some 0 \<and> 23 < length path then
        case second_backslash path of
          None \<Rightarrow> Inl Uncaught
        | Some pathOffset \<Rightarrow>
            let dosPath = convertDevicePathToDOSDrive env (take pathOffset path) @ drop pathOffset path
            in Inr (case pe_long env dosPath of Some long \<Rightarrow> long | None \<Rightarrow> dosPath)
      else Inr path)"

section \<open>The map\<close>

record process_manager =
  pm_processMap :: "u32 \<rightharpoonup> u16 list"
  pm_cacheHits :: nat
  pm_cacheMisses :: nat
  pm_cacheFailures :: nat
  pm_reported :: "u32 list"

definition empty_manager :: process_manager where
  "empty_manager = \<lparr>pm_processMap = Map.empty, pm_cacheHits = 0, pm_cacheMisses = 0, pm_cacheFailures = 0, pm_reported = []\<rparr>"

definition insertProcess :: "path_env \<Rightarrow> process_manager \<Rightarrow> u32 \<Rightarrow> u16 list \<Rightarrow> fault + process_manager" where
  "insertProcess env pm processId processPath =
     fbind (convertFileObjectPathToDOSPath env processPath) (\<lambda>p.
       Inr (pm\<lparr>pm_processMap := (pm_processMap pm)(processId \<mapsto> p)\<rparr>))"

definition onProcessEvent :: "path_env \<Rightarrow> process_manager \<Rightarrow> bool \<Rightarrow> u32 \<Rightarrow> u16 list \<Rightarrow> fault + process_manager" where
  "onProcessEvent env pm created processId process =
     (if created then fbind (convertFileObjectPathToDOSPath env process) (insertProcess env pm processId) else Inr pm)"

text \<open>
  What a question for a path meets: the processes that are created during each of the waits, what
  Windows says of the process (None: it cannot be opened; the empty text: it has no image name),
  and whether there is a process monitor to be told.
\<close>

record query_env =
  qe_created :: "nat \<Rightarrow> (u32 \<times> u16 list) list"
  qe_image :: "u32 \<Rightarrow> u16 list option"
  qe_monitor :: bool

fun all_created :: "path_env \<Rightarrow> process_manager \<Rightarrow> (u32 \<times> u16 list) list \<Rightarrow> fault + process_manager" where
  "all_created env pm [] = Inr pm"
| "all_created env pm ((processId, process) # r) =
     fbind (onProcessEvent env pm True processId process) (\<lambda>pm. all_created env pm r)"

text \<open>The path when one of the tries finds it.\<close>

fun tries :: "path_env \<Rightarrow> query_env \<Rightarrow> nat \<Rightarrow> process_manager \<Rightarrow> u32 \<Rightarrow> fault + u16 list option \<times> process_manager" where
  "tries env q 0 pm processId = Inr (None, pm)"
| "tries env q (Suc n) pm processId =
     (case pm_processMap pm processId of
        Some p \<Rightarrow> Inr (Some p, pm\<lparr>pm_cacheHits := pm_cacheHits pm + 1\<rparr>)
      | None \<Rightarrow> fbind (all_created env pm (qe_created q n)) (\<lambda>pm. tries env q n pm processId))"

definition ask_windows :: "path_env \<Rightarrow> query_env \<Rightarrow> process_manager \<Rightarrow> u32 \<Rightarrow> fault + u16 list \<times> process_manager" where
  "ask_windows env q pm0 processId =
     (let pm = pm0\<lparr>pm_cacheMisses := pm_cacheMisses pm0 + 1\<rparr> in
      case qe_image q processId of
        None \<Rightarrow> fbind (convertFileObjectPathToDOSPath env (wide ''UNKNOWN'')) (\<lambda>p.
            Inr (p, pm\<lparr>pm_cacheFailures := pm_cacheFailures pm + 1\<rparr>))
      | Some [] \<Rightarrow> fbind (convertFileObjectPathToDOSPath env (wide ''UNKNOWN'')) (\<lambda>p.
            Inr (p, pm\<lparr>pm_cacheFailures := pm_cacheFailures pm + 1\<rparr>))
      | Some img \<Rightarrow>
          fbind (insertProcess env pm processId img) (\<lambda>pm.
          fbind (convertFileObjectPathToDOSPath env img) (\<lambda>p.
            Inr (p, if qe_monitor q then pm\<lparr>pm_reported := pm_reported pm @ [processId]\<rparr> else pm))))"

definition getProcessPath :: "path_env \<Rightarrow> query_env \<Rightarrow> process_manager \<Rightarrow> u32 \<Rightarrow> fault + u16 list \<times> process_manager" where
  "getProcessPath env q pm processId =
     (if processId = 4 then Inr (wide ''System'', pm)
      else fbind (tries env q 10 pm processId) (\<lambda>(r, pm).
        case r of Some p \<Rightarrow> Inr (p, pm) | None \<Rightarrow> ask_windows env q pm processId))"

definition getProcessModuleName :: "path_env \<Rightarrow> query_env \<Rightarrow> process_manager \<Rightarrow> u32 \<Rightarrow> fault + u16 list \<times> process_manager" where
  "getProcessModuleName env q pm processId =
     fbind (getProcessPath env q pm processId) (\<lambda>(p, pm).
       Inr (if 0x5C \<in> set p then rev (takeWhile (\<lambda>c. c \<noteq> 0x5C) (rev p)) else wide ''UNKNOWN'', pm))"

text \<open>The processes there are at the start, with the images of those that can be opened.\<close>

fun initialiseProcessMap :: "path_env \<Rightarrow> process_manager \<Rightarrow> (u32 \<times> u16 list option) list \<Rightarrow> fault + process_manager" where
  "initialiseProcessMap env pm [] = Inr pm"
| "initialiseProcessMap env pm ((processId, img) # r) =
     (if processId \<noteq> 0 then
        fbind (insertProcess env pm processId (case img of Some p \<Rightarrow> p | None \<Rightarrow> wide ''<unknown>''))
          (\<lambda>pm. initialiseProcessMap env pm r)
      else initialiseProcessMap env pm r)"

text \<open>The parent of a process in a snapshot: of the last entry with its id; all bits set when there is none.\<close>

definition getParentProcessId :: "(u32 \<times> u32) list \<Rightarrow> u32 \<Rightarrow> u32" where
  "getParentProcessId snapshot processId =
     fold (\<lambda>(i, parent) r. if i = processId then parent else r) snapshot (- 1)"

lemma getParentProcessId_last:
  "getParentProcessId (xs @ (p, parent) # ys) p = parent" if "p \<notin> fst ` set ys"
proof -
  have "fold (\<lambda>(i, parent) r. if i = p then parent else r) ys r = r" for r
    using that by (induction ys) auto
  then show ?thesis by (simp add: getParentProcessId_def)
qed

section \<open>Paths are translated once\<close>

text \<open>A long form is the path of a drive, as what is turned into one is.\<close>

definition long_paths_ok :: "path_env \<Rightarrow> bool" where
  "long_paths_ok env \<longleftrightarrow> (\<forall>p l. pe_long env p = Some l \<longrightarrow> (case l of c # _ \<Rightarrow> c \<noteq> 0x5C | [] \<Rightarrow> True))"

lemma find_from_0: "find_from 0x5C s 0 = Some 0 \<longleftrightarrow> (case s of c # _ \<Rightarrow> c = 0x5C | [] \<Rightarrow> False)"
  by (cases s) (auto simp: find_from_def)

lemma drive_from_head: "unat drive + n \<le> 0x5C \<Longrightarrow> \<exists>c r. drive_from env n drive p = c # r \<and> c \<noteq> 0x5C"
proof (induction n arbitrary: drive)
  case (Suc n)
  have "unat (drive + 1) = unat drive + 1"
    using Suc.prems by (simp add: unat_word_ariths)
  with Suc.prems have "unat (drive + 1) + n \<le> 0x5C" by simp
  with Suc.IH[of "drive + 1"] have "\<exists>c r. drive_from env n (drive + 1) p = c # r \<and> c \<noteq> 0x5C" by blast
  moreover have "drive \<noteq> 0x5C" using Suc.prems by auto
  ultimately show ?case by auto
qed (simp add: wide_def)

lemma convert_idem:
  assumes "long_paths_ok env" "convertFileObjectPathToDOSPath env path = Inr p"
  shows "convertFileObjectPathToDOSPath env p = Inr p"
proof (cases "find_from 0x5C path 0 = Some 0 \<and> 23 < length path")
  case True
  obtain o' where o': "second_backslash path = Some o'"
    using assms(2) True by (auto simp: convertFileObjectPathToDOSPath_def split: option.splits)
  let ?d = "convertDevicePathToDOSDrive env (take o' path) @ drop o' path"
  have "\<exists>c r. drive_from env 26 0x41 (take o' path) = c # r \<and> c \<noteq> 0x5C" by (rule drive_from_head) simp_all
  then have "find_from 0x5C ?d 0 \<noteq> Some 0" by (auto simp: find_from_0 convertDevicePathToDOSDrive_def)
  moreover have "pe_long env ?d = Some l \<Longrightarrow> find_from 0x5C l 0 \<noteq> Some 0" for l
    using assms(1) by (auto simp: long_paths_ok_def find_from_0 split: list.splits)
  moreover have "p = (case pe_long env ?d of Some long \<Rightarrow> long | None \<Rightarrow> ?d)"
    using assms(2) True o' by (simp add: convertFileObjectPathToDOSPath_def Let_def)
  ultimately show ?thesis by (auto simp: convertFileObjectPathToDOSPath_def split: option.splits)
next
  case False
  then show ?thesis using assms(2) by (auto simp: convertFileObjectPathToDOSPath_def)
qed

text \<open>
  Whoever asks for the path of a process that was reported as created gets the path it was
  created with, translated once, without waiting, and also after it has ended, until its id is
  used again.
\<close>

theorem created_process_found:
  assumes "long_paths_ok env" "convertFileObjectPathToDOSPath env process = Inr p" "processId \<noteq> 4"
    "onProcessEvent env pm True processId process = Inr pm1" "onProcessEvent env pm1 False processId other = Inr pm2"
  shows "getProcessPath env q pm2 processId = Inr (p, pm2\<lparr>pm_cacheHits := pm_cacheHits pm2 + 1\<rparr>)"
proof -
  have "pm1 = pm\<lparr>pm_processMap := (pm_processMap pm)(processId \<mapsto> p)\<rparr>" "pm2 = pm1"
    using assms(2,4,5) convert_idem[OF assms(1,2)] by (auto simp: onProcessEvent_def insertProcess_def)
  then show ?thesis using assms(3) by (simp add: getProcessPath_def numeral_eq_Suc)
qed

definition example_device :: "u16 list" where
  "example_device = 0x5C # wide ''Device'' @ 0x5C # wide ''HarddiskVolume1''"

definition example_paths :: path_env where
  "example_paths = \<lparr>pe_device = (\<lambda>d. if d = 0x43 then Some example_device else None), pe_long = (\<lambda>p. None)\<rparr>"

definition example_query :: query_env where
  "example_query = \<lparr>qe_created = (\<lambda>n. []), qe_image = (\<lambda>p. None), qe_monitor = False\<rparr>"

theorem created_process_found_witness:
  "\<exists>pm. onProcessEvent example_paths empty_manager True 8 (example_device @ 0x5C # wide ''a.exe'') = Inr pm \<and>
     getProcessPath example_paths example_query pm 8 = Inr (wide ''C:'' @ 0x5C # wide ''a.exe'', pm\<lparr>pm_cacheHits := 1\<rparr>)"
proof -
  let ?p = "wide ''C:'' @ 0x5C # wide ''a.exe''"
  let ?pm = "empty_manager\<lparr>pm_processMap := [8 \<mapsto> ?p]\<rparr>"
  have "second_backslash (example_device @ 0x5C # wide ''a.exe'') = Some (length example_device)"
    "0x5C # tl example_device = example_device" "23 < length (example_device @ 0x5C # wide ''a.exe'')"
    "find_from 0x5C (example_device @ 0x5C # wide ''a.exe'') 0 = Some 0"
    "convertDevicePathToDOSDrive example_paths example_device = wide ''C:''"
    by code_simp+
  then have c: "convertFileObjectPathToDOSPath example_paths (example_device @ 0x5C # wide ''a.exe'') = Inr ?p"
    by (simp add: convertFileObjectPathToDOSPath_def example_paths_def)
  have ok: "long_paths_ok example_paths" by (simp add: long_paths_ok_def example_paths_def)
  have on: "onProcessEvent example_paths empty_manager True 8 (example_device @ 0x5C # wide ''a.exe'') = Inr ?pm"
    using c convert_idem[OF ok c] by (simp add: onProcessEvent_def insertProcess_def empty_manager_def)
  have "getProcessPath example_paths example_query ?pm 8 = Inr (?p, ?pm\<lparr>pm_cacheHits := pm_cacheHits ?pm + 1\<rparr>)"
    by (rule created_process_found[OF ok c _ on]) (simp_all add: onProcessEvent_def)
  then show ?thesis using on by (auto simp: empty_manager_def)
qed

text \<open>
  A long path that begins with a backslash and has exactly one more makes the translation
  throw an exception nobody catches, and the report of the process does so, too.
\<close>

theorem two_backslashes_uncaught:
  assumes "path = 0x5C # a @ 0x5C # b" "0x5C \<notin> set a" "0x5C \<notin> set b" "23 < length path"
  shows "onProcessEvent env pm True processId path = Inl Uncaught"
proof -
  have f: "find_char 0x5C (a @ 0x5C # b) = Some (length a)" using assms(2) by (induction a) auto
  have n: "find_char 0x5C b = None" using assms(3) by (simp add: find_char_None)
  have "find_from 0x5C path 1 = Some (1 + length a)" using f by (simp add: assms(1) find_from_def)
  moreover have "find_from 0x5C path (1 + length a + 1) = None" using n by (simp add: assms(1) find_from_def)
  ultimately have "second_backslash path = None" by (simp add: second_backslash_def)
  moreover have "find_from 0x5C path 0 = Some 0" by (simp add: assms(1) find_from_def)
  ultimately show ?thesis using assms(4) by (simp add: onProcessEvent_def convertFileObjectPathToDOSPath_def)
qed

theorem two_backslashes_uncaught_witness:
  "onProcessEvent example_paths empty_manager True 8 (0x5C # [0x64] @ 0x5C # replicate 30 0x61) = Inl Uncaught"
  by (rule two_backslashes_uncaught[OF refl]) simp_all

end
