(* ===== verification/ProcessReports.thy ===== *)
theory ProcessReports
  imports ProcessManager
begin

text \<open>
  ProcessMonitor::onProcessEvent of the client together with ProcessManager::getProcessPath, which
  call each other: a question for a process that is not known asks Windows and reports the process
  to the monitor, which asks for the paths of the process and of its parent. The recursion is
  followed as deep as a bound allows, and a bound is given that is always enough.
\<close>

section \<open>Results\<close>

section \<open>State\<close>

record process_signal =
  ps_create :: bool
  ps_time :: "u16 list"
  ps_parentProcessId :: u32
  ps_parentProcessPath :: "u16 list"
  ps_processId :: u32
  ps_processPath :: "u16 list"

text \<open>The manager, what the monitor has signalled, and how many questions there were so far.\<close>

record reports =
  rs_manager :: process_manager
  rs_signals :: "process_signal list"
  rs_asked :: nat

text \<open>What each question meets: Windows and the other threads, the snapshot of the processes, the local time as a text.\<close>

record 'r report_env =
  pr_paths :: path_env
  pr_query :: "nat \<Rightarrow> query_env"
  pr_snapshot :: "nat \<Rightarrow> (u32 \<times> u32) list"
  pr_now :: "nat \<Rightarrow> u16 list"
  pr_permissions :: "'r permission_map"
  pr_matches :: "'r \<Rightarrow> u16 list \<Rightarrow> bool"

type_synonym path_answer = "(fault + u16 list \<times> reports) option"

section \<open>The question and the report\<close>

text \<open>getProcessPath, with what it does to tell the process monitor.\<close>

definition ask_process ::
    "(reports \<Rightarrow> u32 \<Rightarrow> u32 \<Rightarrow> u16 list \<Rightarrow> (fault + reports) option) \<Rightarrow> 'r report_env \<Rightarrow> reports \<Rightarrow> u32 \<Rightarrow> path_answer" where
  "ask_process tell env rs0 processId =
     (if processId = 4 then Some (Inr (wide ''System'', rs0))
      else
        let i = rs_asked rs0; q = pr_query env i; rs = rs0\<lparr>rs_asked := i + 1\<rparr>
        in rbind (Some (tries (pr_paths env) q 10 (rs_manager rs0) processId)) (\<lambda>(r, pm).
          case r of
            Some p \<Rightarrow> Some (Inr (p, rs\<lparr>rs_manager := pm\<rparr>))
          | None \<Rightarrow>
              let pm = pm\<lparr>pm_cacheMisses := pm_cacheMisses pm + 1\<rparr>;
                  failed = rbind (Some (convertFileObjectPathToDOSPath (pr_paths env) (wide ''UNKNOWN''))) (\<lambda>p.
                    Some (Inr (p, rs\<lparr>rs_manager := pm\<lparr>pm_cacheFailures := pm_cacheFailures pm + 1\<rparr>\<rparr>)))
              in (case qe_image q processId of
                    None \<Rightarrow> failed
                  | Some [] \<Rightarrow> failed
                  | Some (c # img) \<Rightarrow>
                      rbind (Some (insertProcess (pr_paths env) pm processId (c # img))) (\<lambda>pm.
                      rbind (if qe_monitor q
                             then tell (rs\<lparr>rs_manager := pm\<rparr>) processId (getParentProcessId (pr_snapshot env i) processId) (pr_now env i)
                             else Some (Inr (rs\<lparr>rs_manager := pm\<rparr>))) (\<lambda>rs.
                      rbind (Some (convertFileObjectPathToDOSPath (pr_paths env) (c # img))) (\<lambda>p.
                        Some (Inr (p, rs))))))))"

text \<open>getProcessModuleName: what is behind the last backslash.\<close>

definition name_of_module :: "u16 list \<Rightarrow> u16 list" where
  "name_of_module p = (if 0x5C \<in> set p then rev (takeWhile (\<lambda>c. c \<noteq> 0x5C) (rev p)) else wide ''UNKNOWN'')"

definition ask_module_name :: "(reports \<Rightarrow> u32 \<Rightarrow> path_answer) \<Rightarrow> reports \<Rightarrow> u32 \<Rightarrow> path_answer" where
  "ask_module_name ask rs processId = rbind (ask rs processId) (\<lambda>(p, rs). Some (Inr (name_of_module p, rs)))"

text \<open>ProcessMonitor::onProcessEvent.\<close>

definition report_process ::
    "(reports \<Rightarrow> u32 \<Rightarrow> path_answer) \<Rightarrow> 'r report_env \<Rightarrow> reports \<Rightarrow> bool \<Rightarrow> u32 \<Rightarrow> u32 \<Rightarrow> u16 list \<Rightarrow> (fault + reports) option" where
  "report_process ask env rs create processId parentProcessId time =
     rbind (ask rs processId) (\<lambda>(processPath, rs).
     rbind (Some (onProcessEvent (pr_paths env) (rs_manager rs) create processId processPath)) (\<lambda>pm.
     rbind (ask_module_name ask (rs\<lparr>rs_manager := pm\<rparr>) processId) (\<lambda>(processModuleName, rs).
     rbind (ask_module_name ask rs parentProcessId) (\<lambda>(parentProcessModuleName, rs).
     rbind (ask rs parentProcessId) (\<lambda>(parentProcessPath, rs).
       Some (Inr (if isEventAllowed (pr_matches env) (pr_permissions env) processModuleName parentProcessModuleName processPath then rs
                  else rs\<lparr>rs_signals := rs_signals rs @ [\<lparr>ps_create = create, ps_time = time, ps_parentProcessId = parentProcessId,
                         ps_parentProcessPath = parentProcessPath, ps_processId = processId, ps_processPath = processPath\<rparr>]\<rparr>)))))))"

text \<open>The two together, at most as many reports deep as the first argument says.\<close>

fun process_path :: "nat \<Rightarrow> 'r report_env \<Rightarrow> reports \<Rightarrow> u32 \<Rightarrow> path_answer" where
  "process_path 0 env = ask_process (\<lambda>_ _ _ _. None) env"
| "process_path (Suc n) env =
     ask_process (\<lambda>rs processId parentProcessId time.
       report_process (process_path n env) env rs True processId parentProcessId time) env"

definition process_event :: "nat \<Rightarrow> 'r report_env \<Rightarrow> reports \<Rightarrow> bool \<Rightarrow> u32 \<Rightarrow> u32 \<Rightarrow> u16 list \<Rightarrow> (fault + reports) option" where
  "process_event n env = report_process (process_path n env) env"

section \<open>The recursion ends\<close>

text \<open>How many ids are not in the map: a report that is made from within a question leaves one fewer.\<close>

definition unknown :: "reports \<Rightarrow> nat" where
  "unknown rs = card {p. pm_processMap (rs_manager rs) p = None}"

definition grows :: "process_manager \<Rightarrow> process_manager \<Rightarrow> bool" where
  "grows pm pm' \<longleftrightarrow> dom (pm_processMap pm) \<subseteq> dom (pm_processMap pm')"

lemma grows_refl [simp]: "grows pm pm" by (simp add: grows_def)
lemma grows_trans: "grows a b \<Longrightarrow> grows b c \<Longrightarrow> grows a c" by (auto simp: grows_def)

lemma grows_unknown: "grows (rs_manager rs) (rs_manager rs') \<Longrightarrow> unknown rs' \<le> unknown rs"
  unfolding unknown_def grows_def by (rule card_mono) auto

lemma insertProcess_grows:
  "insertProcess env pm processId path = Inr pm' \<Longrightarrow> grows pm pm' \<and> processId \<in> dom (pm_processMap pm')"
  by (auto simp: insertProcess_def fbind_eq_Inr grows_def)

lemma onProcessEvent_grows: "onProcessEvent env pm create processId path = Inr pm' \<Longrightarrow> grows pm pm'"
  by (auto simp: onProcessEvent_def fbind_eq_Inr insertProcess_grows split: if_splits dest: insertProcess_grows)

lemma all_created_grows: "all_created env pm ps = Inr pm' \<Longrightarrow> grows pm pm'"
proof (induction env pm ps rule: all_created.induct)
  case (2 env pm processId process r)
  then obtain pm1 where "onProcessEvent env pm True processId process = Inr pm1" "all_created env pm1 r = Inr pm'"
    by (auto simp: fbind_eq_Inr)
  with 2(1)[of pm1] onProcessEvent_grows show ?case using grows_trans by blast
qed simp

lemma tries_grows: "tries env q n pm processId = Inr (r, pm') \<Longrightarrow> grows pm pm'"
proof (induction env q n pm processId rule: tries.induct)
  case (2 env q n pm processId)
  show ?case
  proof (cases "pm_processMap pm processId")
    case None
    with 2(2) obtain pm1 where "all_created env pm (qe_created q n) = Inr pm1" "tries env q n pm1 processId = Inr (r, pm')"
      by (auto simp: fbind_eq_Inr)
    with 2(1)[OF None] all_created_grows show ?thesis using grows_trans by blast
  qed (use 2(2) in \<open>auto simp: grows_def\<close>)
qed simp

lemma tries_unknown: "tries env q (Suc n) pm processId = Inr (None, pm') \<Longrightarrow> pm_processMap pm processId = None"
  by (auto split: option.splits)

text \<open>A step of the recursion answers and only adds to the map.\<close>

definition answers :: "path_answer \<Rightarrow> reports \<Rightarrow> bool" where
  "answers r rs \<longleftrightarrow> (\<exists>e. r = Some (Inl e)) \<or> (\<exists>p rs'. r = Some (Inr (p, rs')) \<and> grows (rs_manager rs) (rs_manager rs'))"

lemma answersE:
  assumes "answers r rs"
  obtains e where "r = Some (Inl e)" | p rs' where "r = Some (Inr (p, rs'))" "grows (rs_manager rs) (rs_manager rs')"
  using assms by (auto simp: answers_def)

lemma ask_module_name_answers: "answers (ask rs p) rs \<Longrightarrow> answers (ask_module_name ask rs p) rs"
  by (elim answersE) (auto simp: ask_module_name_def answers_def)

lemma report_process_ends:
  assumes "\<And>rs p. unknown rs \<le> n \<Longrightarrow> answers (ask rs p) rs" "unknown rs \<le> n"
  shows "(\<exists>e. report_process ask env rs create processId parentProcessId time = Some (Inl e)) \<or>
     (\<exists>rs'. report_process ask env rs create processId parentProcessId time = Some (Inr rs') \<and> grows (rs_manager rs) (rs_manager rs'))"
proof -
  have m: "answers (ask_module_name ask rs p) rs" if "unknown rs \<le> n" for rs p
    using assms(1)[OF that] ask_module_name_answers by blast
  have le: "unknown rs2 \<le> n" if "grows (rs_manager rs1) (rs_manager rs2)" "unknown rs1 \<le> n" for rs1 rs2
    using grows_unknown[OF that(1)] that(2) by simp
  show ?thesis
  proof (rule answersE[OF assms(1)[OF assms(2), of processId]])
    fix path rs1 assume a1: "ask rs processId = Some (Inr (path, rs1))" "grows (rs_manager rs) (rs_manager rs1)"
    show ?thesis
    proof (cases "onProcessEvent (pr_paths env) (rs_manager rs1) create processId path")
      case (Inr pm)
      let ?rs1 = "rs1\<lparr>rs_manager := pm\<rparr>"
      have g1: "grows (rs_manager rs) (rs_manager ?rs1)" using a1(2) onProcessEvent_grows[OF Inr] grows_trans by auto
      show ?thesis
      proof (rule answersE[OF m[OF le[OF g1 assms(2)], of processId]])
        fix name rs2 assume a2: "ask_module_name ask ?rs1 processId = Some (Inr (name, rs2))" "grows (rs_manager ?rs1) (rs_manager rs2)"
        have g2: "grows (rs_manager rs) (rs_manager rs2)" using g1 a2(2) grows_trans by blast
        show ?thesis
        proof (rule answersE[OF m[OF le[OF g2 assms(2)], of parentProcessId]])
          fix pname rs3 assume a3: "ask_module_name ask rs2 parentProcessId = Some (Inr (pname, rs3))" "grows (rs_manager rs2) (rs_manager rs3)"
          have g3: "grows (rs_manager rs) (rs_manager rs3)" using g2 a3(2) grows_trans by blast
          show ?thesis
            by (rule answersE[OF assms(1)[OF le[OF g3 assms(2)], of parentProcessId]])
              (use a1(1) Inr a2(1) a3(1) g3 in \<open>auto simp: report_process_def dest: grows_trans\<close>)
        qed (use a1(1) Inr a2(1) in \<open>simp add: report_process_def\<close>)
      qed (use a1(1) Inr in \<open>simp add: report_process_def\<close>)
    qed (use a1(1) in \<open>simp add: report_process_def\<close>)
  qed (simp add: report_process_def)
qed

lemma ask_process_ends:
  assumes "\<And>rs1 p pp t. unknown rs1 < unknown rs \<Longrightarrow>
     (\<exists>e. tell rs1 p pp t = Some (Inl e)) \<or> (\<exists>rs2. tell rs1 p pp t = Some (Inr rs2) \<and> grows (rs_manager rs1) (rs_manager rs2))"
  shows "answers (ask_process tell env rs processId) rs"
proof (cases "processId = 4")
  case False
  let ?i = "rs_asked rs" let ?q = "pr_query env ?i" let ?rs = "rs\<lparr>rs_asked := ?i + 1\<rparr>"
  show ?thesis
  proof (cases "tries (pr_paths env) ?q 10 (rs_manager rs) processId")
    case (Inr x)
    obtain r pm where x: "x = (r, pm)" by fastforce
    note t = Inr[unfolded x]
    have g: "grows (rs_manager rs) pm" using tries_grows[OF t] .
    show ?thesis
    proof (cases r)
      case None
      have u: "pm_processMap (rs_manager rs) processId = None"
        using t None tries_unknown[of "pr_paths env" ?q 9] by (simp add: numeral_eq_Suc)
      let ?pm = "pm\<lparr>pm_cacheMisses := pm_cacheMisses pm + 1\<rparr>"
      have gm: "grows (rs_manager rs) (?pm\<lparr>pm_cacheFailures := k\<rparr>)" "grows (rs_manager rs) ?pm" for k using g by (simp_all add: grows_def)
      show ?thesis
      proof (cases "qe_image ?q processId = None \<or> qe_image ?q processId = Some []")
        case True
        then show ?thesis
          using False t None gm
          by (cases "convertFileObjectPathToDOSPath (pr_paths env) (wide ''UNKNOWN'')") (auto simp: ask_process_def answers_def Let_def)
      next
        case nf: False
        then obtain c img where img: "qe_image ?q processId = Some (c # img)" by (metis neq_Nil_conv option.exhaust)
        show ?thesis
        proof (cases "insertProcess (pr_paths env) ?pm processId (c # img)")
          case (Inr pm2)
          note ins = insertProcess_grows[OF Inr]
          have g2: "grows (rs_manager rs) pm2" using gm(2) ins grows_trans by blast
          have "{p. pm_processMap pm2 p = None} \<subset> {p. pm_processMap (rs_manager rs) p = None}"
          proof (rule psubsetI)
            show "{p. pm_processMap pm2 p = None} \<subseteq> {p. pm_processMap (rs_manager rs) p = None}" using g2 by (auto simp: grows_def)
            have "processId \<in> {p. pm_processMap (rs_manager rs) p = None} - {p. pm_processMap pm2 p = None}" using ins u by auto
            then show "{p. pm_processMap pm2 p = None} \<noteq> {p. pm_processMap (rs_manager rs) p = None}" by blast
          qed
          then have less: "unknown (?rs\<lparr>rs_manager := pm2\<rparr>) < unknown rs" by (simp add: unknown_def psubset_card_mono)
          let ?tell = "if qe_monitor ?q then tell (?rs\<lparr>rs_manager := pm2\<rparr>) processId (getParentProcessId (pr_snapshot env ?i) processId) (pr_now env ?i)
            else Some (Inr (?rs\<lparr>rs_manager := pm2\<rparr>))"
          have "(\<exists>e. ?tell = Some (Inl e)) \<or> (\<exists>rs2. ?tell = Some (Inr rs2) \<and> grows pm2 (rs_manager rs2))"
            using assms[OF less, of processId "getParentProcessId (pr_snapshot env ?i) processId" "pr_now env ?i"] by auto
          moreover have "ask_process tell env rs processId = rbind ?tell (\<lambda>rs.
              rbind (Some (convertFileObjectPathToDOSPath (pr_paths env) (c # img))) (\<lambda>p. Some (Inr (p, rs))))"
            using False t None img Inr by (simp add: ask_process_def Let_def)
          ultimately show ?thesis
            using g2 by (cases "convertFileObjectPathToDOSPath (pr_paths env) (c # img)") (auto simp: answers_def dest: grows_trans)
        qed (use False t None img in \<open>simp add: ask_process_def answers_def Let_def\<close>)
      qed
    qed (use False t g in \<open>simp add: ask_process_def answers_def Let_def\<close>)
  qed (use False in \<open>simp add: ask_process_def answers_def Let_def\<close>)
qed (simp add: ask_process_def answers_def)

lemma process_path_ends: "unknown rs \<le> n \<Longrightarrow> answers (process_path n env rs processId) rs"
proof (induction n arbitrary: rs processId)
  case 0
  then show ?case using ask_process_ends[of rs "\<lambda>_ _ _ _. None"] by simp
next
  case (Suc n)
  show ?case
    unfolding process_path.simps
  proof (rule ask_process_ends)
    fix rs1 p pp t assume "unknown rs1 < unknown rs"
    then have "unknown rs1 \<le> n" using Suc.prems by simp
    then show "(\<exists>e. report_process (process_path n env) env rs1 True p pp t = Some (Inl e)) \<or>
      (\<exists>rs2. report_process (process_path n env) env rs1 True p pp t = Some (Inr rs2) \<and> grows (rs_manager rs1) (rs_manager rs2))"
      using report_process_ends[of n "process_path n env" rs1 env True p pp t] Suc.IH by blast
  qed
qed

lemma unknown_bound: "unknown rs \<le> 2 ^ 32"
proof -
  have "unknown rs \<le> card (UNIV :: u32 set)" unfolding unknown_def by (rule card_mono) simp_all
  then show ?thesis by (simp add: card_word)
qed

text \<open>
  C34: A report of the process monitor always comes to an end, whatever Windows answers and however
  the processes descend from each other: the questions and reports that call each other are never
  nested deeper than there are ids that are not known, and every id that becomes known stays so.
\<close>

theorem process_event_ends:
  "\<exists>r. process_event (2 ^ 32) env rs create processId parentProcessId time = Some r \<and>
     (case r of Inl e \<Rightarrow> True | Inr rs' \<Rightarrow> dom (pm_processMap (rs_manager rs)) \<subseteq> dom (pm_processMap (rs_manager rs')))"
proof -
  have "(\<exists>e. process_event (2 ^ 32) env rs create processId parentProcessId time = Some (Inl e)) \<or>
      (\<exists>rs'. process_event (2 ^ 32) env rs create processId parentProcessId time = Some (Inr rs') \<and> grows (rs_manager rs) (rs_manager rs'))"
    unfolding process_event_def by (rule report_process_ends[OF _ unknown_bound]) (rule process_path_ends)
  then show ?thesis by (auto simp: grows_def)
qed

section \<open>What is reported\<close>

definition known :: "reports \<Rightarrow> u32 \<Rightarrow> u16 list \<Rightarrow> bool" where
  "known rs processId path \<longleftrightarrow> processId \<noteq> 4 \<and> pm_processMap (rs_manager rs) processId = Some path"

definition signal_of :: "u16 list \<Rightarrow> u32 \<Rightarrow> u16 list \<Rightarrow> u32 \<Rightarrow> u16 list \<Rightarrow> process_signal" where
  "signal_of time parentProcessId parentPath processId path =
     \<lparr>ps_create = True, ps_time = time, ps_parentProcessId = parentProcessId, ps_parentProcessPath = parentPath,
      ps_processId = processId, ps_processPath = path\<rparr>"

text \<open>A question for a known process is answered from the map.\<close>

lemma ask_known:
  "known rs p path \<Longrightarrow> ask_process tell env rs p =
     Some (Inr (path, rs\<lparr>rs_asked := rs_asked rs + 1,
       rs_manager := (rs_manager rs)\<lparr>pm_cacheHits := pm_cacheHits (rs_manager rs) + 1\<rparr>\<rparr>))"
  by (simp add: known_def ask_process_def Let_def numeral_eq_Suc)

lemma path_known:
  "known rs p path \<Longrightarrow> process_path n env rs p =
     Some (Inr (path, rs\<lparr>rs_asked := rs_asked rs + 1,
       rs_manager := (rs_manager rs)\<lparr>pm_cacheHits := pm_cacheHits (rs_manager rs) + 1\<rparr>\<rparr>))"
  by (cases n) (simp_all add: ask_known)

lemma known_simps [simp]:
  "known (rs\<lparr>rs_asked := a\<rparr>) p path = known rs p path" "known (rs\<lparr>rs_signals := b\<rparr>) p path = known rs p path"
  "known (rs\<lparr>rs_manager := pm\<lparr>pm_cacheHits := k\<rparr>\<rparr>) p path = known (rs\<lparr>rs_manager := pm\<rparr>) p path"
  by (simp_all add: known_def)

lemma known_same: "known (rs\<lparr>rs_manager := rs_manager rs\<rparr>) p path = known rs p path"
  by (simp add: known_def)

text \<open>The report of a process, from the moment its path was found.\<close>

lemma report_answered:
  assumes "process_path n env rs processId = Some (Inr (path, rs1))" "known rs1 processId path" "known rs1 parentProcessId parentPath"
    and "convertFileObjectPathToDOSPath (pr_paths env) path = Inr path"
    and "\<not> isEventAllowed (pr_matches env) (pr_permissions env) (name_of_module path) (name_of_module parentPath) path"
  shows "\<exists>rs'. process_event n env rs True processId parentProcessId time = Some (Inr rs') \<and>
     rs_signals rs' = rs_signals rs1 @ [signal_of time parentProcessId parentPath processId path] \<and>
     pm_processMap (rs_manager rs') = pm_processMap (rs_manager rs1)"
proof -
  have upd: "(pm_processMap (rs_manager rs1))(processId \<mapsto> path) = pm_processMap (rs_manager rs1)"
    using assms(2) by (auto simp: known_def)
  have pm: "onProcessEvent (pr_paths env) (rs_manager rs1) True processId path = Inr (rs_manager rs1)"
    using assms(4) upd by (simp add: onProcessEvent_def insertProcess_def)
  show ?thesis
    using assms(1-3,5)
    by (simp add: process_event_def report_process_def pm ask_module_name_def path_known known_same signal_of_def)
qed

text \<open>
  An id that is used again keeps the path of the process that had it before: the report of the
  new process carries the path of the old one, and the map keeps it, although the process was
  created with another image.
\<close>

theorem reused_id_keeps_old_path:
  assumes "known rs processId oldPath" "known rs parentProcessId parentPath"
    and "convertFileObjectPathToDOSPath (pr_paths env) oldPath = Inr oldPath"
    and "\<not> isEventAllowed (pr_matches env) (pr_permissions env) (name_of_module oldPath) (name_of_module parentPath) oldPath"
  shows "\<exists>rs'. process_event n env rs True processId parentProcessId time = Some (Inr rs') \<and>
     rs_signals rs' = rs_signals rs @ [signal_of time parentProcessId parentPath processId oldPath] \<and>
     known rs' processId oldPath"
  using report_answered[where n = n and rs = rs and time = time, OF path_known[OF assms(1)] _ _ assms(3,4), of parentProcessId] assms(1,2)
  by (auto simp: known_same) (auto simp: known_def)

definition example_reports :: reports where
  "example_reports = \<lparr>rs_manager = empty_manager\<lparr>pm_processMap := [8 \<mapsto> wide ''C:old'', 12 \<mapsto> wide ''C:up'']\<rparr>, rs_signals = [], rs_asked = 0\<rparr>"

definition example_image :: "u16 list" where
  "example_image = example_device @ 0x5C # wide ''new.exe''"

definition example_report_env :: "u16 list report_env" where
  "example_report_env = \<lparr>pr_paths = example_paths,
     pr_query = (\<lambda>_. \<lparr>qe_created = (\<lambda>_. []), qe_image = (\<lambda>_. Some example_image), qe_monitor = True\<rparr>),
     pr_snapshot = (\<lambda>_. [(16, 12)]), pr_now = (\<lambda>_. wide ''now''), pr_permissions = Map.empty, pr_matches = (=)\<rparr>"

theorem reused_id_keeps_old_path_witness:
  "\<exists>rs'. process_event 0 example_report_env example_reports True 8 12 (wide ''t'') = Some (Inr rs') \<and>
     rs_signals rs' = [signal_of (wide ''t'') 12 (wide ''C:up'') 8 (wide ''C:old'')] \<and> known rs' 8 (wide ''C:old'')"
proof -
  have k: "known example_reports 8 (wide ''C:old'')" "known example_reports 12 (wide ''C:up'')"
    by (simp_all add: known_def example_reports_def)
  have c: "convertFileObjectPathToDOSPath (pr_paths example_report_env) (wide ''C:old'') = Inr (wide ''C:old'')" by code_simp
  have a: "\<not> isEventAllowed (pr_matches example_report_env) (pr_permissions example_report_env) (name_of_module (wide ''C:old''))
      (name_of_module (wide ''C:up'')) (wide ''C:old'')"
    by (simp add: isEventAllowed_def example_report_env_def)
  from reused_id_keeps_old_path[where n = 0 and time = "wide ''t''", OF k c a] show ?thesis by (simp add: example_reports_def)
qed

text \<open>
  A process that is created is signalled twice: the question for its path, which comes before the
  manager is told of it, waits in vain, asks Windows, and reports the process itself; then the
  report it was asked for is made as well. Only the times differ.
\<close>

theorem new_process_reported_twice:
  assumes "processId \<noteq> 4" "pm_processMap (rs_manager rs) processId = None" "known rs parentProcessId parentPath"
    and "pr_query env (rs_asked rs) = q" "\<forall>i. qe_created q i = []" "qe_image q processId = Some img0" "img0 \<noteq> []" "qe_monitor q"
    and "getParentProcessId (pr_snapshot env (rs_asked rs)) processId = parentProcessId"
    and "long_paths_ok (pr_paths env)" "convertFileObjectPathToDOSPath (pr_paths env) img0 = Inr path"
    and "\<not> isEventAllowed (pr_matches env) (pr_permissions env) (name_of_module path) (name_of_module parentPath) path"
  shows "\<exists>rs'. process_event (Suc n) env rs True processId parentProcessId time = Some (Inr rs') \<and>
     rs_signals rs' = rs_signals rs @ [signal_of (pr_now env (rs_asked rs)) parentProcessId parentPath processId path,
                                       signal_of time parentProcessId parentPath processId path]"
proof -
  have idem: "convertFileObjectPathToDOSPath (pr_paths env) path = Inr path" using convert_idem[OF assms(10,11)] .
  have tries: "tries (pr_paths env) q k pm processId = Inr (None, pm)" if "pm_processMap pm processId = None" for k pm
    using that by (induction k) (simp_all add: assms(5))
  define pm where "pm = (rs_manager rs)\<lparr>pm_cacheMisses := pm_cacheMisses (rs_manager rs) + 1,
     pm_processMap := (pm_processMap (rs_manager rs))(processId \<mapsto> path)\<rparr>"
  define rs1 where "rs1 = rs\<lparr>rs_asked := rs_asked rs + 1, rs_manager := pm\<rparr>"
  have k1: "known rs1 processId path" "known rs1 parentProcessId parentPath"
    using assms(1-3) by (auto simp: known_def rs1_def pm_def)
  obtain rs2 where rs2: "process_event n env rs1 True processId parentProcessId (pr_now env (rs_asked rs)) = Some (Inr rs2)"
    "rs_signals rs2 = rs_signals rs1 @ [signal_of (pr_now env (rs_asked rs)) parentProcessId parentPath processId path]"
    "pm_processMap (rs_manager rs2) = pm_processMap (rs_manager rs1)"
    using report_answered[where n = n and rs = rs1 and time = "pr_now env (rs_asked rs)", OF path_known[OF k1(1)] _ _ idem assms(12), of parentProcessId] k1
    by (auto simp: known_same)
  obtain c img where im: "img0 = c # img" using assms(7) by (cases img0) auto
  have "insertProcess (pr_paths env) ((rs_manager rs)\<lparr>pm_cacheMisses := pm_cacheMisses (rs_manager rs) + 1\<rparr>) processId img0 = Inr pm"
    by (simp add: insertProcess_def assms(11) pm_def)
  then have "process_path (Suc n) env rs processId = Some (Inr (path, rs2))"
    using assms(1,2,4,6,8,9,11) tries rs2(1) im
    by (simp add: ask_process_def Let_def process_event_def rs1_def)
  moreover have "known rs2 processId path" "known rs2 parentProcessId parentPath" using k1 rs2(3) by (simp_all add: known_def)
  ultimately obtain rs3 where "process_event (Suc n) env rs True processId parentProcessId time = Some (Inr rs3)"
    "rs_signals rs3 = rs_signals rs2 @ [signal_of time parentProcessId parentPath processId path]"
    using report_answered[where n = "Suc n" and time = time, OF _ _ _ idem assms(12)] by metis
  then show ?thesis using rs2(2) by (simp add: rs1_def)
qed

theorem new_process_reported_twice_witness:
  "\<exists>rs'. process_event 1 example_report_env example_reports True 16 12 (wide ''t'') = Some (Inr rs') \<and> length (rs_signals rs') = 2"
proof -
  let ?e = example_report_env let ?path = "wide ''C:'' @ 0x5C # wide ''new.exe''"
  have "second_backslash example_image = Some (length example_device)" "take (length example_device) example_image = example_device"
    "drop (length example_device) example_image = 0x5C # wide ''new.exe''" "23 < length example_image" "find_from 0x5C example_image 0 = Some 0"
    "convertDevicePathToDOSDrive example_paths example_device = wide ''C:''"
    by code_simp+
  then have c: "convertFileObjectPathToDOSPath (pr_paths ?e) example_image = Inr ?path"
    by (simp add: convertFileObjectPathToDOSPath_def example_report_env_def) (simp add: example_paths_def)
  have l: "long_paths_ok (pr_paths ?e)" by (simp add: long_paths_ok_def example_report_env_def example_paths_def)
  have "known example_reports 12 (wide ''C:up'')" by (simp add: known_def example_reports_def)
  moreover have "\<not> isEventAllowed (pr_matches ?e) (pr_permissions ?e) (name_of_module ?path) (name_of_module (wide ''C:up'')) ?path"
    by (simp add: isEventAllowed_def example_report_env_def)
  moreover have "example_image \<noteq> []" by (simp add: example_image_def)
  ultimately show ?thesis
    using new_process_reported_twice[OF _ _ _ refl _ _ _ _ _ l c, of 16 example_reports 12 "wide ''C:up''" 0 "wide ''t''"]
    by (simp add: example_report_env_def example_reports_def getParentProcessId_def) (metis length_Cons list.size(3) numeral_2_eq_2)
qed

end
