(* ===== verification/PacketQueue.thy ===== *)
theory PacketQueue
  imports Bytes "HOL-Library.Sublist"
begin

text \<open>
  The queues of events the drivers keep for the user process: the loop that fills a buffer
  of the process with events from the head of the queue, which the registry and the file
  monitor have alike, the loop with which their clients take the buffer apart, and the
  interface of a driver that accepts events and delivers them: whatever it does, what it has
  delivered and what it still holds comes, in order, from what it was given.
\<close>

section \<open>Filling a buffer\<close>

text \<open>
  \<open>header\<close> is the smallest room the loop goes on with, \<open>sz\<close> the size of an event, \<open>raises\<close>
  says whether writing so many bytes at an offset of the buffer raises an exception. The
  result: the events copied, the bytes used, the event whose copy raised, and the queue
  without all of these.
\<close>

fun drain :: "u32 \<Rightarrow> ('e \<Rightarrow> u32) \<Rightarrow> (u32 \<Rightarrow> u32 \<Rightarrow> bool) \<Rightarrow> u32 \<Rightarrow> u32 \<Rightarrow> 'e list \<Rightarrow>
    'e list \<times> u32 \<times> 'e option \<times> 'e list" where
  "drain header sz raises space used [] = ([], used, None, [])"
| "drain header sz raises space used (e # q) =
     (if used < space \<and> header \<le> space - used then
        if sz e \<le> space - used then
          if raises used (sz e) then ([], used, Some e, q)
          else let (out, used', x, q') = drain header sz raises space (used + sz e) q
               in (e # out, used', x, q')
        else ([], used, None, e # q)
      else ([], used, None, e # q))"

lemma unat_fits:
  assumes "used \<le> space" "n \<le> space - (used :: u32)"
  shows "unat (used + n) = unat used + unat n" "used + n \<le> space"
proof -
  have "unat used + unat n \<le> unat space"
    using assms by (simp add: word_le_nat_alt unat_sub)
  moreover have "unat space < 2 ^ 32" using unsigned_less[of space, where 'a = nat] by simp
  ultimately show 1: "unat (used + n) = unat used + unat n" by (intro unat_add_no_wrap) simp
  show "used + n \<le> space" using \<open>unat used + unat n \<le> unat space\<close> 1 by (simp add: word_le_nat_alt)
qed

lemma drain_split:
  "drain header sz raises space used q = (out, used', x, q') \<Longrightarrow> q = out @ (case x of None \<Rightarrow> [] | Some e \<Rightarrow> [e]) @ q'"
  by (induction q arbitrary: used out) (auto split: if_splits prod.splits)

lemma subseq_without_one: "subseq (xs @ ys) (xs @ e # ys)"
  by (intro list_emb_append_mono list_emb_Cons) simp_all

lemma subseq_suffix: "subseq ys (xs @ e # ys)"
  by (intro list_emb_append2 list_emb_Cons) simp

lemma drain_raised:
  "drain header sz raises space used q = (out, used', Some e, q') \<Longrightarrow> \<exists>u. raises u (sz e)"
  by (induction q arbitrary: used out) (auto split: if_splits prod.splits)

lemma drain_used:
  assumes "drain header sz raises space used q = (out, used', x, q')" "used \<le> space"
  shows "used' \<le> space \<and> unat used' = unat used + sum_list (map (\<lambda>e. unat (sz e)) out)"
  using assms
proof (induction q arbitrary: used out)
  case (Cons e q)
  show ?case
  proof (cases "used < space \<and> header \<le> space - used \<and> sz e \<le> space - used \<and> \<not> raises used (sz e)")
    case True
    then obtain out1 where o: "drain header sz raises space (used + sz e) q = (out1, used', x, q')" "out = e # out1"
      using Cons.prems(1) by (auto split: prod.splits)
    from True have "sz e \<le> space - used" by blast
    note f = unat_fits[OF Cons.prems(2) this]
    from Cons.IH[OF o(1) f(2)] show ?thesis using o(2) f(1) by simp
  next
    case False
    then have "out = [] \<and> used' = used" using Cons.prems(1) by (auto split: if_splits)
    then show ?thesis using Cons.prems(2) by simp
  qed
qed auto

text \<open>Why it stopped: the queue is empty, the rest is below the header, or the next event does not fit.\<close>

lemma drain_stops:
  "drain header sz raises space used q = (out, used', None, q') \<Longrightarrow>
     q' = [] \<or> \<not> used' < space \<or> space - used' < header \<or> space - used' < sz (hd q')"
  by (induction q arbitrary: used out) (auto simp: not_le split: if_splits prod.splits)

lemma drain_stuck:
  "space - used < sz e \<Longrightarrow> drain header sz raises space used (e # q) = ([], used, None, e # q)"
  by (simp add: not_le[symmetric])

section \<open>A driver with a queue\<close>

text \<open>A step of the driver returns the events it accepted and those it delivered; None: it faults.\<close>

fun run_steps :: "('o \<Rightarrow> 's \<Rightarrow> ('e list \<times> 'e list \<times> 's) option) \<Rightarrow> 'o list \<Rightarrow> 's \<Rightarrow> ('e list \<times> 'e list \<times> 's) option" where
  "run_steps step [] s = Some ([], [], s)"
| "run_steps step (x # xs) s =
     (case step x s of None \<Rightarrow> None
      | Some (ps, ds, s1) \<Rightarrow>
          (case run_steps step xs s1 of None \<Rightarrow> None
           | Some (ps', ds', s2) \<Rightarrow> Some (ps @ ps', ds @ ds', s2)))"

lemma run_invariant:
  assumes "\<And>x s ps ds s'. step x s = Some (ps, ds, s') \<Longrightarrow> P s \<Longrightarrow> P s'"
  shows "run_steps step xs s = Some (ps, ds, s') \<Longrightarrow> P s \<Longrightarrow> P s'"
proof (induction xs arbitrary: s ps ds)
  case (Cons x xs)
  then obtain ps1 ds1 s1 ps2 ds2 where "step x s = Some (ps1, ds1, s1)" "run_steps step xs s1 = Some (ps2, ds2, s')"
    by (auto split: option.splits)
  then show ?case using assms Cons.IH Cons.prems(2) by blast
qed simp

fun all_keep :: "('o \<Rightarrow> 's \<Rightarrow> bool) \<Rightarrow> ('o \<Rightarrow> 's \<Rightarrow> ('e list \<times> 'e list \<times> 's) option) \<Rightarrow> 'o list \<Rightarrow> 's \<Rightarrow> bool" where
  "all_keep keeps step [] s \<longleftrightarrow> True"
| "all_keep keeps step (x # xs) s \<longleftrightarrow> keeps x s \<and>
     (case step x s of None \<Rightarrow> True | Some (ps, ds, s1) \<Rightarrow> all_keep keeps step xs s1)"

locale event_queue =
  fixes items :: "'s \<Rightarrow> 'e list"
    and step :: "'o \<Rightarrow> 's \<Rightarrow> ('e list \<times> 'e list \<times> 's) option"
  assumes step_order: "step x s = Some (ps, ds, s') \<Longrightarrow> subseq (ds @ items s') (items s @ ps)"
begin

lemma run_order: "run_steps step xs s = Some (ps, ds, s') \<Longrightarrow> subseq (ds @ items s') (items s @ ps)"
proof (induction xs arbitrary: s ps ds)
  case (Cons x xs)
  obtain ps1 ds1 s1 ps2 ds2 where 1: "step x s = Some (ps1, ds1, s1)" "run_steps step xs s1 = Some (ps2, ds2, s')"
    "ps = ps1 @ ps2" "ds = ds1 @ ds2"
    using Cons.prems by (auto split: option.splits)
  have "subseq (ds1 @ ds2 @ items s') (ds1 @ items s1 @ ps2)"
    by (rule list_emb_append_mono[OF subseq_order.order_refl Cons.IH[OF 1(2)]])
  moreover have "subseq ((ds1 @ items s1) @ ps2) ((items s @ ps1) @ ps2)"
    by (rule list_emb_append_mono[OF step_order[OF 1(1)] subseq_order.order_refl])
  ultimately show ?case using 1(3,4) subseq_order.trans by fastforce
qed auto

end

text \<open>The steps that lose nothing.\<close>

locale lossless_queue = event_queue items step
  for items :: "'s \<Rightarrow> 'e list" and step :: "'o \<Rightarrow> 's \<Rightarrow> ('e list \<times> 'e list \<times> 's) option" +
  fixes keeps :: "'o \<Rightarrow> 's \<Rightarrow> bool"
  assumes step_exact: "step x s = Some (ps, ds, s') \<Longrightarrow> keeps x s \<Longrightarrow> ds @ items s' = items s @ ps"
begin

lemma run_exact:
  "run_steps step xs s = Some (ps, ds, s') \<Longrightarrow> all_keep keeps step xs s \<Longrightarrow> ds @ items s' = items s @ ps"
proof (induction xs arbitrary: s ps ds)
  case (Cons x xs)
  obtain ps1 ds1 s1 ps2 ds2 where 1: "step x s = Some (ps1, ds1, s1)" "run_steps step xs s1 = Some (ps2, ds2, s')"
    "ps = ps1 @ ps2" "ds = ds1 @ ds2"
    using Cons.prems(1) by (auto split: option.splits)
  have k: "keeps x s" "all_keep keeps step xs s1" using Cons.prems(2) 1(1) by simp_all
  have "ds1 @ ds2 @ items s' = ds1 @ items s1 @ ps2" using Cons.IH[OF 1(2) k(2)] by simp
  also have "\<dots> = (ds1 @ items s1) @ ps2" by simp
  also have "\<dots> = (items s @ ps1) @ ps2" using step_exact[OF 1(1) k(1)] by simp
  finally show ?case using 1(3,4) by simp
qed auto

end

section \<open>Taking a buffer apart\<close>

text \<open>
  The loop of the clients: \<open>reader\<close> looks at the event at an offset and says what it signals and
  where the next one begins; None: the offset keeps below the end.
\<close>

partial_function (option) read_packed ::
    "(u32 \<Rightarrow> fault + 's list \<times> u32) \<Rightarrow> u32 \<Rightarrow> u32 \<Rightarrow> (fault + 's list) option" where
  "read_packed reader dwReturn offset =
     (case reader offset of
        Inl e \<Rightarrow> Some (Inl e)
      | Inr (sigs, offset') \<Rightarrow>
          if offset' < dwReturn then
            Option.bind (read_packed reader dwReturn offset') (\<lambda>rest.
              case rest of Inl e \<Rightarrow> Some (Inl e) | Inr later \<Rightarrow> Some (Inr (sigs @ later)))
          else Some (Inr sigs))"

text \<open>
  An event has bytes, as many as its size says, and the client reads it back from them
  wherever it stands.
\<close>

locale packed_events =
  fixes ok :: "'e \<Rightarrow> bool" and bytes :: "'e \<Rightarrow> u8 list" and size :: "'e \<Rightarrow> u32"
    and sigs :: "'e \<Rightarrow> 's list" and reader :: "u8 list \<Rightarrow> u32 \<Rightarrow> fault + 's list \<times> u32"
    and header :: u32
  assumes bytes_size: "ok e \<Longrightarrow> length (bytes e) = unat (size e)"
    and header_size: "ok e \<Longrightarrow> header \<le> size e"
    and header_pos: "0 < header"
    and reader_at: "ok e \<Longrightarrow> unat offset = length pre \<Longrightarrow> reader (pre @ bytes e @ rest) offset = Inr (sigs e, offset + size e)"
begin

lemma bytes_pos: "ok e \<Longrightarrow> 0 < length (bytes e)"
  using bytes_size[of e] header_size[of e] header_pos by (simp add: word_le_nat_alt word_less_nat_alt)

lemma out_bytes: "\<forall>e \<in> set es. ok e \<Longrightarrow> length (concat (map bytes es)) = sum_list (map (\<lambda>e. unat (size e)) es)"
  by (induction es) (simp_all add: bytes_size)

lemma read_packed_at:
  assumes "\<forall>e \<in> set es. ok e" "es \<noteq> []" "unat offset = length pre"
    and "length pre + length (concat (map bytes es)) = unat dwReturn"
  shows "read_packed (reader (pre @ concat (map bytes es) @ rest)) dwReturn offset = Some (Inr (concat (map sigs es)))"
  using assms
proof (induction es arbitrary: pre offset)
  case (Cons e es)
  have e: "ok e" using Cons.prems(1) by simp
  let ?b = "pre @ concat (map bytes (e # es)) @ rest"
  have r: "reader ?b offset = Inr (sigs e, offset + size e)"
    using reader_at[OF e Cons.prems(3), of "concat (map bytes es) @ rest"] by simp
  have "length pre + length (bytes e) \<le> unat dwReturn" using Cons.prems(4) by simp
  moreover have "unat dwReturn < 2 ^ 32" using unsigned_less[of dwReturn, where 'a = nat] by simp
  ultimately have u: "unat (offset + size e) = length (pre @ bytes e)"
    using unat_add_no_wrap[of offset "size e"] Cons.prems(3) by (simp add: bytes_size[OF e])
  show ?case
  proof (cases "es = []")
    case True
    then have "\<not> offset + size e < dwReturn" using u Cons.prems(4) by (simp add: word_less_nat_alt)
    then show ?thesis using True r by (subst read_packed.simps) simp
  next
    case False
    then obtain e2 es2 where "es = e2 # es2" by (cases es) auto
    then have "0 < length (concat (map bytes es))" using bytes_pos[of e2] Cons.prems(1) by simp
    then have "length pre + length (bytes e) < unat dwReturn"
      using Cons.prems(4) unfolding list.map concat.simps length_append by linarith
    then have less: "offset + size e < dwReturn" using u by (simp add: word_less_nat_alt)
    have "read_packed (reader ?b) dwReturn (offset + size e) = Some (Inr (concat (map sigs es)))"
      using Cons.IH[of "offset + size e" "pre @ bytes e"] Cons.prems(1,4) False u by simp
    then show ?thesis using r less by (subst read_packed.simps) simp
  qed
qed simp

text \<open>The whole buffer, unless there is no room in it for a first event.\<close>

lemma read_buffer:
  assumes "\<forall>e \<in> set es. ok e" "length (concat (map bytes es)) = unat dwReturn"
  shows "(if header \<le> dwReturn then read_packed (reader (concat (map bytes es) @ rest)) dwReturn 0 else Some (Inr [])) =
     Some (Inr (concat (map sigs es)))"
proof (cases es)
  case Nil
  then have "\<not> header \<le> dwReturn" using assms(2) header_pos by (simp add: word_le_nat_alt word_less_nat_alt)
  then show ?thesis by (simp add: Nil)
next
  case (Cons e es')
  have "ok e" using assms(1) Cons by simp
  then have "header \<le> dwReturn" using assms(2) Cons bytes_size[of e] header_size[of e] by (simp add: word_le_nat_alt)
  then show ?thesis using read_packed_at[of es 0 "[]" dwReturn rest] assms Cons by simp
qed

text \<open>What a driver puts into a buffer, and why it stops.\<close>

lemma drain_bytes:
  assumes "drain header size raises space 0 q = (out, used, None, q')" "\<forall>e \<in> set q. ok e"
  shows "q = out @ q' \<and> length (concat (map bytes out)) = unat used \<and> used \<le> space \<and>
     (q' = [] \<or> unat space < length (concat (map bytes (out @ [hd q']))))"
proof -
  have s: "q = out @ q'" using drain_split[OF assms(1)] by simp
  then have ok: "\<forall>e \<in> set out. ok e" "\<forall>e \<in> set q'. ok e" using assms(2) by simp_all
  note u = drain_used[OF assms(1)]
  have len: "length (concat (map bytes out)) = unat used" using u out_bytes[OF ok(1)] by simp
  have "q' = [] \<or> unat space < length (concat (map bytes (out @ [hd q'])))"
  proof (cases q')
    case (Cons e r)
    then have e: "ok e" using ok(2) by simp
    have "0 < unat (size e)" using header_size[OF e] header_pos by (simp add: word_le_nat_alt word_less_nat_alt)
    then have "unat space - unat used < unat (size e)"
      using drain_stops[OF assms(1)] u Cons header_size[OF e] by (auto simp: word_less_nat_alt word_le_nat_alt unat_sub)
    then show ?thesis using Cons len bytes_size[OF e] by simp
  qed simp
  with s len u show ?thesis by simp
qed

end

lemma only_event_delivered:
  assumes "[e] = out @ q" "q = [] \<or> B < length (concat (map f (out @ [hd q])))" "length (f e) \<le> (B :: nat)"
  shows "out = [e] \<and> q = []"
proof (cases out)
  case Nil
  then have "q = [e]" using assms(1) by simp
  then show ?thesis using assms(2,3) Nil by simp
qed (use assms(1) in auto)

end
