(* ===== verification/ProcessMonitor.thy ===== *)
theory ProcessMonitor
  imports PacketQueue
begin

text \<open>
  ProcessMonitor/CaptureProcessMonitor.c: the driver that reports the creation and the end of
  processes, one event per request, and the thread of the client (ProcessMonitor.cpp) that
  waits for the kernel event of the driver before it makes a request.
\<close>

definition IOCTL_CAPTURE_GET_PROCINFO :: u32 where
  "IOCTL_CAPTURE_GET_PROCINFO = push_bit 16 0x22 OR push_bit 14 3 OR push_bit 2 0x802 OR 3"

section \<open>Events\<close>

text \<open>bCreated is followed by three bytes that nothing sets; processPath has 1024 characters.\<close>

record process_event =
  pe_time :: "u8 list"
  pe_hParentProcessId :: u32
  pe_hProcessId :: u32
  pe_bCreated :: u8
  pe_padding :: "u8 list"
  pe_processPathLength :: u32
  pe_processPath :: "u16 list"

definition sizeof_PROCESS_EVENT :: u32 where "sizeof_PROCESS_EVENT = 2080"

definition process_bytes :: "process_event \<Rightarrow> u8 list" where
  "process_bytes e = pe_time e @ le_bytes32 (pe_hParentProcessId e) @ le_bytes32 (pe_hProcessId e) @ [pe_bCreated e] @
     pe_padding e @ le_bytes32 (pe_processPathLength e) @ char_bytes (pe_processPath e)"

definition process_event_ok :: "process_event \<Rightarrow> bool" where
  "process_event_ok e \<longleftrightarrow> length (pe_time e) = 16 \<and> length (pe_padding e) = 3 \<and> length (pe_processPath e) = 1024"

lemma length_process_bytes: "process_event_ok e \<Longrightarrow> length (process_bytes e) = unat sizeof_PROCESS_EVENT"
  by (simp add: process_event_ok_def process_bytes_def sizeof_PROCESS_EVENT_def)

text \<open>
  The manager. \<open>pm_handles\<close> counts the handles to processes that were opened and not closed,
  \<open>pm_routine\<close> says whether the address of ZwQueryInformationProcess is known.
\<close>

record process_manager =
  pm_bReady :: bool
  pm_queue :: "process_event list"
  pm_nQueuedProcessEvents :: u32
  pm_routine :: bool
  pm_handles :: nat

section \<open>The path of a process\<close>

text \<open>
  What the kernel answers: the two steps to a handle, whether the routine has an address, and
  the two queries, which depend on the handle; \<open>na_garbage\<close> is the handle variable as it is
  found when one of the steps fails.
\<close>

record name_answers =
  na_lookup :: NTSTATUS
  na_open :: NTSTATUS
  na_handle :: u32
  na_garbage :: u32
  na_routine :: bool
  na_size :: "u32 \<Rightarrow> NTSTATUS \<times> u32"
  na_block :: bool
  na_image :: "u32 \<Rightarrow> NTSTATUS \<times> u16 list"

record image_name =
  in_MaximumLength :: u16
  in_chars :: "u16 list"

definition got_handle :: "name_answers \<Rightarrow> bool" where
  "got_handle a \<longleftrightarrow> NT_SUCCESS (na_lookup a) \<and> NT_SUCCESS (na_open a)"

definition open_process :: "name_answers \<Rightarrow> process_manager \<Rightarrow> u32 \<times> process_manager" where
  "open_process a m = (if got_handle a then (na_handle a, m\<lparr>pm_handles := pm_handles m + 1\<rparr>) else (na_garbage a, m))"

text \<open>RtlCopyUnicodeString copies as many bytes as there is room for.\<close>

definition copy_image_name :: "image_name \<Rightarrow> u16 list \<Rightarrow> image_name" where
  "copy_image_name n s = n\<lparr>in_chars := take (unat (in_MaximumLength n) div 2) s\<rparr>"

definition GetProcessImageName ::
    "name_answers \<Rightarrow> image_name \<Rightarrow> process_manager \<Rightarrow> fault + NTSTATUS \<times> image_name \<times> process_manager" where
  "GetProcessImageName a name m =
     (let (hProcess, m1) = open_process a m;
          m2 = m1\<lparr>pm_routine := pm_routine m1 \<or> na_routine a\<rparr>
      in if \<not> pm_routine m2 then Inl NullDeref
         else let (status, returnedLength) = na_size a hProcess in
              if status \<noteq> STATUS_INFO_LENGTH_MISMATCH then Inr (status, name, m2)
              else let bufferLength = returnedLength - 8 in
                   if ucast (in_MaximumLength name) < bufferLength then
                     Inr (STATUS_BUFFER_OVERFLOW, name\<lparr>in_MaximumLength := ucast bufferLength\<rparr>, m2)
                   else if \<not> na_block a then Inr (STATUS_INSUFFICIENT_RESOURCES, name, m2)
                   else let (status', image) = na_image a hProcess in
                        if NT_SUCCESS status' then Inr (status', copy_image_name name image, m2)
                        else Inr (status', name, m2))"

section \<open>The callback\<close>

text \<open>
  What the kernel does for one notification: the packet with what its memory held before, the
  time, the answers of the two look-ups and the buffer for the path.
\<close>

record process_env =
  pn_packet :: "process_event option"
  pn_time :: "u8 list"
  pn_first :: name_answers
  pn_path_block :: bool
  pn_second :: name_answers

text \<open>The limit for the copy of the path is 1024 bytes; what follows it is left.\<close>

definition copy_process_path :: "u16 list \<Rightarrow> process_event \<Rightarrow> process_event" where
  "copy_process_path s e =
     (let t = RtlStringCbCopyUnicodeString 1024 s in e\<lparr>pe_processPath := t @ drop (length t) (pe_processPath e)\<rparr>)"

definition fill_path :: "process_env \<Rightarrow> process_event \<Rightarrow> process_manager \<Rightarrow> fault + process_event \<times> process_manager" where
  "fill_path env e m =
     fbind (GetProcessImageName (pn_first env) \<lparr>in_MaximumLength = 0, in_chars = []\<rparr> m) (\<lambda>(status, name, m1).
       if status = STATUS_BUFFER_OVERFLOW \<and> pn_path_block env then
         fbind (GetProcessImageName (pn_second env) name m1) (\<lambda>(status', name', m2).
           Inr (if NT_SUCCESS status' then copy_process_path (in_chars name') e else e, m2))
       else Inr (e, m1))"

text \<open>The result says whether the kernel event was pulsed: set and at once cleared.\<close>

definition ProcessCallback ::
    "process_env \<Rightarrow> u32 \<Rightarrow> u32 \<Rightarrow> u8 \<Rightarrow> process_manager \<Rightarrow> fault + bool \<times> process_manager" where
  "ProcessCallback env hParentId hProcessId bCreate m =
     (case pn_packet env of
        None \<Rightarrow> Inr (False, m)
      | Some packet \<Rightarrow>
          fbind (fill_path env (packet\<lparr>pe_time := pn_time env\<rparr>) m) (\<lambda>(e, m1).
            Inr (True, m1\<lparr>pm_queue := pm_queue m1 @
                           [e\<lparr>pe_hParentProcessId := hParentId, pe_hProcessId := hProcessId, pe_bCreated := bCreate\<rparr>],
                         pm_nQueuedProcessEvents := pm_nQueuedProcessEvents m1 + 1\<rparr>)))"

section \<open>Requests of the process\<close>

record process_ioctl =
  pi_code :: u32
  pi_length :: u32
  pi_probe_raises :: bool
  pi_copy_raises :: bool
  pi_exception :: NTSTATUS

text \<open>Status, Information, the event copied, whether the kernel event was pulsed, the manager.\<close>

definition get_process_event ::
    "process_ioctl \<Rightarrow> process_manager \<Rightarrow> NTSTATUS \<times> u32 \<times> process_event list \<times> bool \<times> process_manager" where
  "get_process_event env m =
     (if pi_probe_raises env then (pi_exception env, 0, [], False, m)
      else case pm_queue m of
        [] \<Rightarrow> (STATUS_SUCCESS, 0, [], False, m)
      | e # q \<Rightarrow>
          let m1 = m\<lparr>pm_queue := q, pm_nQueuedProcessEvents := pm_nQueuedProcessEvents m - 1\<rparr>
          in if pi_copy_raises env then (pi_exception env, 0, [], False, m1)
             else (STATUS_SUCCESS, sizeof_PROCESS_EVENT, [e], pm_nQueuedProcessEvents m1 \<noteq> 0, m1))"

definition KDispatchIoctl ::
    "process_ioctl \<Rightarrow> process_manager \<Rightarrow> NTSTATUS \<times> u32 \<times> process_event list \<times> bool \<times> process_manager" where
  "KDispatchIoctl env m =
     (if pi_code env = IOCTL_CAPTURE_GET_PROCINFO \<and> sizeof_PROCESS_EVENT \<le> pi_length env then
        let (status, dwDataWritten, out, pulse, m') = get_process_event env m
        in (status, if status = STATUS_SUCCESS then dwDataWritten else 0, out, pulse, m')
      else (STATUS_UNSUCCESSFUL, 0, [], False, m))"

definition KDispatchCreateClose :: "NTSTATUS \<times> u32" where
  "KDispatchCreateClose = (STATUS_SUCCESS, 0)"

section \<open>Loading and unloading\<close>

record process_driver =
  pd_device :: bool
  pd_link :: bool
  pd_dispatch :: bool
  pd_callback :: bool
  pd_manager :: process_manager

record process_load =
  pl_device :: NTSTATUS
  pl_link :: NTSTATUS
  pl_event :: bool
  pl_callback :: NTSTATUS

definition DriverEntry :: "process_load \<Rightarrow> process_driver \<Rightarrow> fault + NTSTATUS \<times> process_driver" where
  "DriverEntry a d =
     (if \<not> NT_SUCCESS (pl_device a) then Inr (pl_device a, d)
      else if \<not> NT_SUCCESS (pl_link a) then Inr (pl_link a, d\<lparr>pd_device := False\<rparr>)
      else if \<not> pl_event a then Inl NullDeref
      else let d1 = d\<lparr>pd_device := True, pd_link := True, pd_dispatch := True,
                     pd_manager := (pd_manager d)\<lparr>pm_bReady := False, pm_queue := [], pm_nQueuedProcessEvents := 0\<rparr>\<rparr>
           in if \<not> NT_SUCCESS (pl_callback a) then Inr (pl_callback a, d1)
              else Inr (STATUS_SUCCESS, d1\<lparr>pd_callback := True, pd_manager := (pd_manager d1)\<lparr>pm_bReady := True\<rparr>\<rparr>))"

text \<open>The queue is not emptied: its packets stay allocated.\<close>

definition UnloadDriver :: "process_driver \<Rightarrow> process_driver" where
  "UnloadDriver d =
     (if pm_bReady (pd_manager d) then d\<lparr>pd_callback := False, pd_manager := (pd_manager d)\<lparr>pm_bReady := False\<rparr>\<rparr> else d)
       \<lparr>pd_link := False, pd_device := False\<rparr>"

section \<open>The thread of the client\<close>

text \<open>
  A thread released from its wait makes one request. A pulse only reaches a thread that is
  waiting at that moment. An event that agrees with the one before in its three fields is not
  passed on; before the first one stand zeros.
\<close>

datatype client_mode = Waiting | Released | Busy

record process_client =
  cl_mode :: client_mode
  cl_last :: "u8 \<times> u32 \<times> u32"

definition pulse :: "bool \<Rightarrow> process_client \<Rightarrow> process_client" where
  "pulse p c = (if p \<and> cl_mode c = Waiting then c\<lparr>cl_mode := Released\<rparr> else c)"

definition event_key :: "process_event \<Rightarrow> u8 \<times> u32 \<times> u32" where
  "event_key e = (pe_bCreated e, pe_hParentProcessId e, pe_hProcessId e)"

definition client_receives :: "u32 \<Rightarrow> process_event list \<Rightarrow> process_client \<Rightarrow> process_event list \<times> process_client" where
  "client_receives dwBytesReturned out c =
     (case out of
        e # _ \<Rightarrow> if 0 < dwBytesReturned \<and> event_key e \<noteq> cl_last c then ([e], c\<lparr>cl_last := event_key e\<rparr>) else ([], c)
      | [] \<Rightarrow> ([], c))"

datatype process_op =
    Notified process_env u32 u32 u8
  | Wait
  | Timeout
  | ReadEvent process_ioctl

text \<open>
  The driver and the thread together: events accepted, events delivered to the thread, and
  the two states. The thread reads only when it was released, and waits when it is done.
\<close>

definition process_step ::
    "process_op \<Rightarrow> process_manager \<times> process_client \<Rightarrow>
     (process_event list \<times> process_event list \<times> process_manager \<times> process_client) option" where
  "process_step op s =
     (case (op, s) of
        (Notified env ppid pid b, m, c) \<Rightarrow>
          (case ProcessCallback env ppid pid b m of
             Inl _ \<Rightarrow> None
           | Inr (p, m') \<Rightarrow> Some (drop (length (pm_queue m)) (pm_queue m'), [], m', pulse p c))
      | (Wait, m, c) \<Rightarrow> Some ([], [], m, if cl_mode c = Busy then c\<lparr>cl_mode := Waiting\<rparr> else c)
      | (Timeout, m, c) \<Rightarrow> Some ([], [], m, if cl_mode c = Waiting then c\<lparr>cl_mode := Busy\<rparr> else c)
      | (ReadEvent env, m, c) \<Rightarrow>
          (if cl_mode c = Released then
             case KDispatchIoctl env m of
               (status, n, out, p, m') \<Rightarrow>
                 Some ([], out, m', pulse p (snd (client_receives n out (c\<lparr>cl_mode := Busy\<rparr>))))
           else Some ([], [], m, c)))"

definition process_items :: "process_manager \<times> process_client \<Rightarrow> process_event list" where
  "process_items s = pm_queue (fst s)"

definition process_keeps :: "process_op \<Rightarrow> process_manager \<times> process_client \<Rightarrow> bool" where
  "process_keeps op s \<longleftrightarrow> (case op of ReadEvent env \<Rightarrow> \<not> pi_copy_raises env | _ \<Rightarrow> True)"

lemma GetProcessImageName_queue:
  assumes "GetProcessImageName a name m = Inr (status, name', m')"
  shows "pm_queue m' = pm_queue m \<and> pm_nQueuedProcessEvents m' = pm_nQueuedProcessEvents m \<and> pm_bReady m' = pm_bReady m \<and>
    pm_handles m' = pm_handles m + (if got_handle a then 1 else 0)"
  using assms by (auto simp: GetProcessImageName_def open_process_def Let_def split: if_splits prod.splits)

lemma fill_path_queue:
  assumes "fill_path env e m = Inr (e', m')"
  shows "pm_queue m' = pm_queue m \<and> pm_nQueuedProcessEvents m' = pm_nQueuedProcessEvents m \<and> pm_bReady m' = pm_bReady m"
  using assms by (auto simp: fill_path_def fbind_eq_Inr dest!: GetProcessImageName_queue split: if_splits)

lemma ProcessCallback_queue:
  assumes "ProcessCallback env ppid pid b m = Inr (p, m')"
  shows "(\<not> p \<and> m' = m) \<or>
    (p \<and> (\<exists>e. pm_queue m' = pm_queue m @ [e]) \<and> pm_nQueuedProcessEvents m' = pm_nQueuedProcessEvents m + 1)"
  using assms by (auto simp: ProcessCallback_def fbind_eq_Inr dest!: fill_path_queue split: option.splits)

lemma get_process_event_queue:
  assumes "get_process_event env m = (status, n, out, p, m')"
  shows "(m' = m \<and> out = []) \<or>
    (\<exists>e. pm_queue m = e # pm_queue m' \<and> pm_nQueuedProcessEvents m' = pm_nQueuedProcessEvents m - 1 \<and>
       (out = [e] \<or> (out = [] \<and> pi_copy_raises env)))"
  using assms by (auto simp: get_process_event_def Let_def split: if_splits list.splits)

lemma process_ioctl_queue:
  assumes "KDispatchIoctl env m = (status, n, out, p, m')"
  shows "(m' = m \<and> out = []) \<or>
    (\<exists>e. pm_queue m = e # pm_queue m' \<and> pm_nQueuedProcessEvents m' = pm_nQueuedProcessEvents m - 1 \<and>
       (out = [e] \<or> (out = [] \<and> pi_copy_raises env)))"
proof (cases "pi_code env = IOCTL_CAPTURE_GET_PROCINFO \<and> sizeof_PROCESS_EVENT \<le> pi_length env")
  case True
  obtain status1 n1 out1 p1 m1 where g: "get_process_event env m = (status1, n1, out1, p1, m1)" by (metis prod_cases5)
  then have "out1 = out" "m1 = m'" using assms True by (auto simp: KDispatchIoctl_def)
  with get_process_event_queue[OF g] show ?thesis by simp
qed (use assms in \<open>simp add: KDispatchIoctl_def split: if_splits\<close>)

text \<open>What a step does to the queue and to its counter.\<close>

lemma process_step_cases:
  assumes "process_step op (m, c) = Some (ps, ds, m', c')"
  shows "(ps = [] \<and> ds = [] \<and> m' = m) \<or>
    (\<exists>e. ps = [e] \<and> ds = [] \<and> pm_queue m' = pm_queue m @ [e] \<and> pm_nQueuedProcessEvents m' = pm_nQueuedProcessEvents m + 1) \<or>
    (\<exists>e. ps = [] \<and> pm_queue m = e # pm_queue m' \<and> pm_nQueuedProcessEvents m' = pm_nQueuedProcessEvents m - 1 \<and> cl_mode c = Released \<and>
       (ds = [e] \<or> (ds = [] \<and> \<not> process_keeps op (m, c))))"
proof (cases op)
  case (Notified env ppid pid b)
  then obtain p where "ProcessCallback env ppid pid b m = Inr (p, m')" "ps = drop (length (pm_queue m)) (pm_queue m')" "ds = []"
    using assms by (auto simp: process_step_def split: sum.splits)
  then show ?thesis using ProcessCallback_queue[of env ppid pid b m p m'] by auto
next
  case (ReadEvent env)
  show ?thesis
  proof (cases "cl_mode c = Released")
    case True
    obtain status n out p m1 where k: "KDispatchIoctl env m = (status, n, out, p, m1)" by (metis prod_cases5)
    then have "ps = []" "ds = out" "m' = m1" using assms True ReadEvent by (auto simp: process_step_def)
    with process_ioctl_queue[OF k] True ReadEvent show ?thesis by (auto simp: process_keeps_def)
  qed (use assms ReadEvent in \<open>simp add: process_step_def\<close>)
qed (use assms in \<open>simp_all add: process_step_def\<close>)

interpretation pq: event_queue process_items process_step
proof
  fix x s ps ds s' assume "process_step x s = Some (ps, ds, s')"
  then show "subseq (ds @ process_items s') (process_items s @ ps)"
    using process_step_cases[of x "fst s" "snd s" ps ds "fst s'" "snd s'"] by (auto simp: process_items_def)
qed

interpretation pq: lossless_queue process_items process_step process_keeps
proof
  fix x s ps ds s' assume "process_step x s = Some (ps, ds, s')" "process_keeps x s"
  then show "ds @ process_items s' = process_items s @ ps"
    using process_step_cases[of x "fst s" "snd s" ps ds "fst s'" "snd s'"] by (auto simp: process_items_def)
qed

section \<open>Counter and backlog\<close>

definition counter_ok :: "process_manager \<Rightarrow> bool" where
  "counter_ok m \<longleftrightarrow> pm_nQueuedProcessEvents m = of_nat (length (pm_queue m))"

lemma step_counter:
  assumes "process_step op s = Some (ps, ds, s')" "counter_ok (fst s)"
  shows "counter_ok (fst s')"
  using process_step_cases[of op "fst s" "snd s" ps ds "fst s'" "snd s'"] assms by (auto simp: counter_ok_def)

text \<open>The queued events, and one more unless the thread is on its way to fetch one.\<close>

definition backlog :: "process_manager \<times> process_client \<Rightarrow> nat" where
  "backlog s = length (pm_queue (fst s)) + (if cl_mode (snd s) = Released then 0 else 1)"

lemma client_receives_mode [simp]: "cl_mode (snd (client_receives n out c)) = cl_mode c"
  by (simp add: client_receives_def split: list.split)

lemma step_backlog:
  assumes "process_step op (m, c) = Some (ps, ds, m', c')"
  shows "backlog (m, c) \<le> backlog (m', c')"
proof (cases op)
  case (Notified env ppid pid b)
  then obtain p where p: "ProcessCallback env ppid pid b m = Inr (p, m')" "c' = pulse p c"
    using assms by (auto simp: process_step_def split: sum.splits)
  then show ?thesis using ProcessCallback_queue[OF p(1)] by (auto simp: backlog_def pulse_def)
next
  case (ReadEvent env)
  show ?thesis
  proof (cases "cl_mode c = Released")
    case True
    obtain status n out p m1 where k: "KDispatchIoctl env m = (status, n, out, p, m1)" by (metis prod_cases5)
    then have "m' = m1" "cl_mode c' = Busy" using assms True ReadEvent by (auto simp: process_step_def pulse_def)
    with process_ioctl_queue[OF k] True show ?thesis by (auto simp: backlog_def)
  qed (use assms ReadEvent in \<open>simp add: process_step_def\<close>)
qed (use assms in \<open>auto simp: process_step_def backlog_def split: if_splits\<close>)

lemma run_backlog:
  assumes "run_steps process_step ops (m, c) = Some (ps, ds, m', c')"
  shows "backlog (m, c) \<le> backlog (m', c')"
proof (rule run_invariant[of process_step "\<lambda>s. backlog (m, c) \<le> backlog s", OF _ assms])
  fix x s ps ds s' assume "process_step x s = Some (ps, ds, s')" "backlog (m, c) \<le> backlog s"
  then show "backlog (m, c) \<le> backlog s'"
    using step_backlog[of x "fst s" "snd s" ps ds "fst s'" "snd s'"] by simp
qed simp

section \<open>A notification with everything granted\<close>

definition answers_name :: "name_answers \<Rightarrow> u16 list \<Rightarrow> bool" where
  "answers_name a name \<longleftrightarrow> got_handle a \<and> na_routine a \<and> na_block a \<and>
     na_size a (na_handle a) = (STATUS_INFO_LENGTH_MISMATCH, of_nat (8 + 2 * length name)) \<and>
     na_image a (na_handle a) = (STATUS_SUCCESS, name)"

lemma name_lengths:
  assumes "2 * length name < 65536"
  shows "of_nat (8 + 2 * length name) - 8 = (of_nat (2 * length name) :: u32)"
    and "unat (of_nat (2 * length name) :: u32) = 2 * length name"
    and "unat (ucast (of_nat (2 * length name) :: u32) :: u16) = 2 * length name"
proof -
  show 2: "unat (of_nat (2 * length name) :: u32) = 2 * length name"
    using assms by (simp add: unat_of_nat take_bit_nat_eq_self del: of_nat_mult)
  show "of_nat (8 + 2 * length name) - 8 = (of_nat (2 * length name) :: u32)" by (simp add: of_nat_add)
  show "unat (ucast (of_nat (2 * length name) :: u32) :: u16) = 2 * length name"
    using assms 2 by (simp add: unsigned_ucast_eq take_bit_nat_eq_self del: of_nat_mult)
qed

lemma GetProcessImageName_twice:
  assumes "answers_name a name" "answers_name b name" "name \<noteq> []" "2 * length name < 65536"
  shows "\<exists>n1 m1. GetProcessImageName a \<lparr>in_MaximumLength = 0, in_chars = []\<rparr> m = Inr (STATUS_BUFFER_OVERFLOW, n1, m1) \<and>
     (\<exists>n2 m2. GetProcessImageName b n1 m1 = Inr (STATUS_SUCCESS, n2, m2) \<and> in_chars n2 = name)"
proof -
  let ?w = "of_nat (2 * length name) :: u32"
  note l = name_lengths[OF assms(4)]
  have "0 < ?w" using l(2) assms(3) by (metis length_greater_0_conv nat_0_less_mult_iff unat_gt_0 word_gt_0 zero_less_numeral)
  then have 1: "\<exists>m1. GetProcessImageName a \<lparr>in_MaximumLength = 0, in_chars = []\<rparr> m =
      Inr (STATUS_BUFFER_OVERFLOW, \<lparr>in_MaximumLength = ucast ?w, in_chars = []\<rparr>, m1)"
    using assms(1) l(1) by (simp add: GetProcessImageName_def answers_name_def open_process_def Let_def del: of_nat_mult of_nat_add)
  have le: "\<not> ucast (ucast ?w :: u16) < ?w"
  proof -
    have "unat (ucast (ucast ?w :: u16) :: u32) = take_bit 32 (2 * length name)"
      unfolding unsigned_ucast_eq[where 'b = 16] l(3) by simp
    then show ?thesis using l(2) assms(4) by (simp add: word_less_nat_alt take_bit_nat_eq_self del: of_nat_mult)
  qed
  have 2: "\<exists>m2. GetProcessImageName b \<lparr>in_MaximumLength = ucast ?w, in_chars = []\<rparr> m1 =
      Inr (STATUS_SUCCESS, \<lparr>in_MaximumLength = ucast ?w, in_chars = name\<rparr>, m2)" for m1
    using assms(2) l(1,3) le
    by (simp add: GetProcessImageName_def answers_name_def open_process_def Let_def copy_image_name_def del: of_nat_mult of_nat_add)
  show ?thesis using 1 2 by fastforce
qed

lemma ProcessCallback_granted:
  assumes "pn_packet env = Some packet" "answers_name (pn_first env) name" "answers_name (pn_second env) name" "pn_path_block env"
    and "name \<noteq> []" "2 * length name < 65536"
  shows "\<exists>m'. ProcessCallback env ppid pid b m = Inr (True, m') \<and> pm_handles m' = pm_handles m + 2 \<and>
     pm_queue m' = pm_queue m @
       [packet\<lparr>pe_time := pn_time env, pe_hParentProcessId := ppid, pe_hProcessId := pid, pe_bCreated := b,
               pe_processPath := take 511 name @ 0 # drop (Suc (min 511 (length name))) (pe_processPath packet)\<rparr>]"
proof -
  from GetProcessImageName_twice[OF assms(2,3,5,6)]
  obtain n1 m1 n2 m2 where g: "GetProcessImageName (pn_first env) \<lparr>in_MaximumLength = 0, in_chars = []\<rparr> m = Inr (STATUS_BUFFER_OVERFLOW, n1, m1)"
    "GetProcessImageName (pn_second env) n1 m1 = Inr (STATUS_SUCCESS, n2, m2)" "in_chars n2 = name"
    by blast
  have h: "got_handle (pn_first env)" "got_handle (pn_second env)" using assms(2,3) by (simp_all add: answers_name_def)
  then have m2: "pm_handles m2 = pm_handles m + 2" "pm_queue m2 = pm_queue m"
    using GetProcessImageName_queue[OF g(1)] GetProcessImageName_queue[OF g(2)] by simp_all
  show ?thesis
    using assms(1,4) m2
    by (simp add: ProcessCallback_def fill_path_def g copy_process_path_def RtlStringCbCopyUnicodeString_def Let_def min.commute)
qed

section \<open>Properties\<close>

text \<open>
  Whatever notifications, waits, time-outs and requests follow each other: the events the
  thread got followed by those still queued are, in order, among those queued at the start
  followed by the accepted ones, all of them if no copy to the buffer of the thread raised an
  exception, and the counter of queued events stays true (modulo its width).
\<close>

theorem process_events_in_order:
  assumes "run_steps process_step ops (m, c) = Some (accepted, delivered, m', c')"
  shows "subseq (delivered @ pm_queue m') (pm_queue m @ accepted) \<and>
    (all_keep process_keeps process_step ops (m, c) \<longrightarrow> delivered @ pm_queue m' = pm_queue m @ accepted) \<and>
    (pm_nQueuedProcessEvents m = of_nat (length (pm_queue m)) \<longrightarrow> pm_nQueuedProcessEvents m' = of_nat (length (pm_queue m')))"
  using pq.run_order[OF assms] pq.run_exact[OF assms] run_invariant[of process_step "\<lambda>s. counter_ok (fst s)", OF step_counter assms]
  by (simp add: process_items_def counter_ok_def)

definition name_demo :: "u16 list" where "name_demo = wide ''C/a.exe''"

definition answers_demo :: name_answers where
  "answers_demo = \<lparr>na_lookup = STATUS_SUCCESS, na_open = STATUS_SUCCESS, na_handle = 64, na_garbage = 0, na_routine = True,
     na_size = (\<lambda>_. (STATUS_INFO_LENGTH_MISMATCH, 22)), na_block = True, na_image = (\<lambda>_. (STATUS_SUCCESS, name_demo))\<rparr>"

definition packet_demo :: process_event where
  "packet_demo = \<lparr>pe_time = replicate 16 0, pe_hParentProcessId = 0, pe_hProcessId = 0, pe_bCreated = 0, pe_padding = [0, 0, 0],
     pe_processPathLength = 0xDEADBEEF, pe_processPath = replicate 1024 0xCC\<rparr>"

definition penv_demo :: process_env where
  "penv_demo = \<lparr>pn_packet = Some packet_demo, pn_time = replicate 16 1, pn_first = answers_demo, pn_path_block = True, pn_second = answers_demo\<rparr>"

definition pmanager_demo :: process_manager where
  "pmanager_demo = \<lparr>pm_bReady = True, pm_queue = [packet_demo], pm_nQueuedProcessEvents = 1, pm_routine = False, pm_handles = 0\<rparr>"

definition pioctl_demo :: process_ioctl where
  "pioctl_demo = \<lparr>pi_code = IOCTL_CAPTURE_GET_PROCINFO, pi_length = 2080, pi_probe_raises = False, pi_copy_raises = False, pi_exception = 0xC0000005\<rparr>"

lemma answers_demo_ok: "answers_name answers_demo name_demo"
  by (simp add: answers_name_def answers_demo_def got_handle_def name_demo_def wide_def)

lemma process_demo_run:
  "\<exists>e m1. run_steps process_step [Notified penv_demo 4 8 1, ReadEvent pioctl_demo, Wait] (pmanager_demo, \<lparr>cl_mode = Waiting, cl_last = (0, 0, 0)\<rparr>) =
     Some ([e], [packet_demo], m1, \<lparr>cl_mode = Waiting, cl_last = (0, 0, 0)\<rparr>) \<and> pm_queue m1 = [e]"
proof -
  have "pn_packet penv_demo = Some packet_demo" "answers_name (pn_first penv_demo) name_demo" "answers_name (pn_second penv_demo) name_demo"
    "pn_path_block penv_demo" "name_demo \<noteq> []" "2 * length name_demo < 65536"
    by (simp_all add: penv_demo_def answers_demo_ok) (simp_all add: name_demo_def wide_def)
  from ProcessCallback_granted[OF this, of 4 8 1 pmanager_demo]
  obtain m' e where c: "ProcessCallback penv_demo 4 8 1 pmanager_demo = Inr (True, m')" "pm_queue m' = pm_queue pmanager_demo @ [e]" by blast
  then have q: "pm_queue m' = [packet_demo, e]" "pm_nQueuedProcessEvents m' = 2" "pm_queue pmanager_demo = [packet_demo]"
    using ProcessCallback_queue[OF c(1)] by (simp_all add: pmanager_demo_def)
  let ?c = "\<lambda>md. \<lparr>cl_mode = md, cl_last = (0, 0, 0)\<rparr>"
  define m1 where "m1 = m'\<lparr>pm_queue := [e], pm_nQueuedProcessEvents := 1\<rparr>"
  have "process_step (Notified penv_demo 4 8 1) (pmanager_demo, ?c Waiting) = Some ([e], [], m', ?c Released)"
    by (simp add: process_step_def c(1) q pulse_def)
  moreover have "KDispatchIoctl pioctl_demo m' = (STATUS_SUCCESS, 2080, [packet_demo], True, m1)"
    by (simp add: KDispatchIoctl_def pioctl_demo_def sizeof_PROCESS_EVENT_def get_process_event_def q Let_def m1_def)
  then have "process_step (ReadEvent pioctl_demo) (m', ?c Released) = Some ([], [packet_demo], m1, ?c Busy)"
    by (simp add: process_step_def client_receives_def event_key_def packet_demo_def pulse_def)
  moreover have "process_step Wait (m1, ?c Busy) = Some ([], [], m1, ?c Waiting)" by (simp add: process_step_def)
  ultimately show ?thesis by (simp add: m1_def)
qed

theorem process_events_in_order_witness:
  "\<exists>accepted delivered m' c'. run_steps process_step [Notified penv_demo 4 8 1, ReadEvent pioctl_demo, Wait]
       (pmanager_demo, \<lparr>cl_mode = Waiting, cl_last = (0, 0, 0)\<rparr>) = Some (accepted, delivered, m', c') \<and>
     subseq (delivered @ pm_queue m') (packet_demo # accepted)"
proof -
  from process_demo_run obtain e m1 where r: "run_steps process_step [Notified penv_demo 4 8 1, ReadEvent pioctl_demo, Wait]
      (pmanager_demo, \<lparr>cl_mode = Waiting, cl_last = (0, 0, 0)\<rparr>) = Some ([e], [packet_demo], m1, \<lparr>cl_mode = Waiting, cl_last = (0, 0, 0)\<rparr>)"
    by blast
  from process_events_in_order[OF r] r show ?thesis by (auto simp: pmanager_demo_def)
qed

text \<open>
  What the thread has once fallen behind it never makes up for: from one moment at which
  it waits to a later one the queue of the driver does not become shorter, whatever happens in
  between. The driver pulses its kernel event, also when it has more to deliver, but the
  thread is then busy with the request and not waiting, and it makes one request per wait.
\<close>

theorem process_backlog_never_shrinks:
  assumes "run_steps process_step ops (m, c) = Some (accepted, delivered, m', c')" "cl_mode c = Waiting" "cl_mode c' = Waiting"
  shows "length (pm_queue m) \<le> length (pm_queue m')"
  using run_backlog[OF assms(1)] assms(2,3) by (simp add: backlog_def)

theorem process_backlog_never_shrinks_witness:
  "\<exists>accepted m' c'. run_steps process_step [Notified penv_demo 4 8 1, ReadEvent pioctl_demo, Wait]
       (pmanager_demo, \<lparr>cl_mode = Waiting, cl_last = (0, 0, 0)\<rparr>) = Some (accepted, [packet_demo], m', c') \<and> 1 \<le> length (pm_queue m')"
proof -
  from process_demo_run obtain e m1 where r: "run_steps process_step [Notified penv_demo 4 8 1, ReadEvent pioctl_demo, Wait]
      (pmanager_demo, \<lparr>cl_mode = Waiting, cl_last = (0, 0, 0)\<rparr>) = Some ([e], [packet_demo], m1, \<lparr>cl_mode = Waiting, cl_last = (0, 0, 0)\<rparr>)"
    by blast
  from process_backlog_never_shrinks[OF r] r show ?thesis by (auto simp: pmanager_demo_def)
qed

text \<open>
  A notification with everything granted queues one event with the time, the two ids and
  the flag; of the path at most 511 characters are copied, although there is room for 1023,
  and behind them, as in the length of the path, stays what the memory of the packet held
  before. Each notification opens two handles to the process that are never closed.
\<close>

theorem ProcessCallback_reports:
  assumes "pn_packet env = Some packet" "answers_name (pn_first env) name" "answers_name (pn_second env) name" "pn_path_block env"
    and "name \<noteq> []" "2 * length name < 65536"
  shows "\<exists>m'. ProcessCallback env ppid pid b m = Inr (True, m') \<and> pm_handles m' = pm_handles m + 2 \<and>
     pm_queue m' = pm_queue m @
       [packet\<lparr>pe_time := pn_time env, pe_hParentProcessId := ppid, pe_hProcessId := pid, pe_bCreated := b,
               pe_processPath := take 511 name @ 0 # drop (Suc (min 511 (length name))) (pe_processPath packet)\<rparr>]"
  by (rule ProcessCallback_granted[OF assms])

theorem ProcessCallback_reports_witness:
  "\<exists>m' e. ProcessCallback penv_demo 4 8 1 pmanager_demo = Inr (True, m') \<and> pm_queue m' = [packet_demo, e] \<and>
     pe_processPathLength e = 0xDEADBEEF"
proof -
  have "pn_packet penv_demo = Some packet_demo" "answers_name (pn_first penv_demo) name_demo" "answers_name (pn_second penv_demo) name_demo"
    "pn_path_block penv_demo" "name_demo \<noteq> []" "2 * length name_demo < 65536"
    by (simp_all add: penv_demo_def answers_demo_ok) (simp_all add: name_demo_def wide_def)
  from ProcessCallback_reports[OF this, of 4 8 1 pmanager_demo] show ?thesis by (auto simp: pmanager_demo_def packet_demo_def)
qed

end
