(* ===== verification/ProcessClient.thy ===== *)
theory ProcessClient
  imports ProcessReports ClientLog ProcessMonitor
begin

text \<open>
  ProcessMonitor::run of the client (ProcessMonitor.cpp), with the driver of \<open>ProcessMonitor\<close> answering
  its requests and the reports of \<open>ProcessReports\<close>: one event is read from each answer, and it is
  reported unless it agrees with the one before in its kind and its two ids.
\<close>

section \<open>Reading an event\<close>

text \<open>TIME_FIELDS and ProcessInfo as the client declares them.\<close>

record process_info =
  pn_time :: time_fields
  pn_ParentId :: u32
  pn_ProcessId :: u32
  pn_bCreate :: u8
  pn_processPathLength :: u32
  pn_processPath :: "u16 list"

definition read_time :: "u8 list \<Rightarrow> nat \<Rightarrow> fault + time_fields" where
  "read_time b i =
     fbind (read16 b i) (\<lambda>year. fbind (read16 b (i + 2)) (\<lambda>month. fbind (read16 b (i + 4)) (\<lambda>day.
     fbind (read16 b (i + 6)) (\<lambda>hour. fbind (read16 b (i + 8)) (\<lambda>minute. fbind (read16 b (i + 10)) (\<lambda>second.
     fbind (read16 b (i + 12)) (\<lambda>ms. fbind (read16 b (i + 14)) (\<lambda>weekday.
     Inr \<lparr>wYear = year, wMonth = month, wDay = day, wHour = hour, wMinute = minute, wSecond = second,
          wMilliseconds = ms, wWeekday = weekday\<rparr>))))))))"

definition read_info :: "u8 list \<Rightarrow> fault + process_info" where
  "read_info b =
     fbind (read_time b 0) (\<lambda>time. fbind (read32 b 16) (\<lambda>parent. fbind (read32 b 20) (\<lambda>process.
     fbind (read_bytes b 24 1) (\<lambda>create. fbind (read32 b 28) (\<lambda>len. fbind (read_bytes b 32 2048) (\<lambda>path.
     Inr \<lparr>pn_time = time, pn_ParentId = parent, pn_ProcessId = process, pn_bCreate = hd create,
          pn_processPathLength = len, pn_processPath = bytes_chars path\<rparr>))))))"

section \<open>A round of the thread\<close>

text \<open>The three fields of tempP that are compared, zeros at the beginning, and the state of the reports.\<close>

record process_thread =
  pt_temp :: "u8 \<times> u32 \<times> u32"
  pt_reports :: reports

definition new_process_thread :: "reports \<Rightarrow> process_thread" where
  "new_process_thread rs = \<lparr>pt_temp = (0, 0, 0), pt_reports = rs\<rparr>"

definition info_key :: "process_info \<Rightarrow> u8 \<times> u32 \<times> u32" where
  "info_key p = (pn_bCreate p, pn_ParentId p, pn_ProcessId p)"

text \<open>The request to the driver; \<open>p\<close> is the variable on the stack, which nothing initialises.\<close>

definition device_request :: "process_ioctl \<Rightarrow> u8 list \<Rightarrow> ProcessMonitor.process_manager \<Rightarrow> u32 \<times> u8 list \<times> ProcessMonitor.process_manager" where
  "device_request env p m =
     (case KDispatchIoctl (env\<lparr>pi_code := IOCTL_CAPTURE_GET_PROCINFO, pi_length := sizeof_PROCESS_EVENT\<rparr>) m of
        (status, dwBytesReturned, out, _, m') \<Rightarrow> (dwBytesReturned, (case out of [] \<Rightarrow> p | e # _ \<Rightarrow> process_bytes e), m'))"

text \<open>A turn of the loop whose wait was not a time-out.\<close>

definition process_round ::
    "nat \<Rightarrow> 'r report_env \<Rightarrow> process_ioctl \<Rightarrow> u8 list \<Rightarrow> ProcessMonitor.process_manager \<times> process_thread \<Rightarrow>
     (fault + ProcessMonitor.process_manager \<times> process_thread) option" where
  "process_round depth renv env garbage s =
     (let (dwBytesReturned, p, m) = device_request env garbage (fst s)
      in if 0 < dwBytesReturned then
           rbind (Some (read_info p)) (\<lambda>p.
           if info_key p \<noteq> pt_temp (snd s) then
             rbind (process_event depth renv (pt_reports (snd s)) (pn_bCreate p \<noteq> 0) (pn_ProcessId p) (pn_ParentId p)
                      (timefieldToString (pn_time p))) (\<lambda>rs.
             Some (Inr (m, (snd s)\<lparr>pt_temp := info_key p, pt_reports := rs\<rparr>)))
           else Some (Inr (m, snd s)))
         else Some (Inr (m, snd s)))"

text \<open>The loop: a turn after each event that was signalled, none after a time-out.\<close>

definition process_rounds ::
    "nat \<Rightarrow> 'r report_env \<Rightarrow> process_ioctl \<Rightarrow> u8 list \<Rightarrow> bool list \<Rightarrow> ProcessMonitor.process_manager \<times> process_thread \<Rightarrow>
     (fault + ProcessMonitor.process_manager \<times> process_thread) option" where
  "process_rounds depth renv env garbage waits s =
     rfold (\<lambda>timeout s. if timeout then Some (Inr s) else process_round depth renv env garbage s) waits s"

section \<open>What is read is what was written\<close>

definition time_of :: "u8 list \<Rightarrow> time_fields" where
  "time_of b =
     (let w = (\<lambda>i. word16_of (b ! i) (b ! Suc i))
      in \<lparr>wYear = w 0, wMonth = w 2, wDay = w 4, wHour = w 6, wMinute = w 8, wSecond = w 10, wMilliseconds = w 12, wWeekday = w 14\<rparr>)"

lemma read_info_bytes:
  assumes "process_event_ok e"
  shows "read_info (process_bytes e) = Inr \<lparr>pn_time = time_of (pe_time e), pn_ParentId = pe_hParentProcessId e,
     pn_ProcessId = pe_hProcessId e, pn_bCreate = pe_bCreated e, pn_processPathLength = pe_processPathLength e,
     pn_processPath = pe_processPath e\<rparr>"
proof -
  have t: "length (pe_time e) = 16" "length (pe_padding e) = 3" "length (pe_processPath e) = 1024"
    using assms by (simp_all add: process_event_ok_def)
  let ?r1 = "le_bytes32 (pe_hParentProcessId e)" let ?r2 = "le_bytes32 (pe_hProcessId e)"
  have b: "process_bytes e = pe_time e @ ?r1 @ ?r2 @ [pe_bCreated e] @ pe_padding e @ le_bytes32 (pe_processPathLength e) @ char_bytes (pe_processPath e)"
    by (simp add: process_bytes_def)
  have 1: "read32 (process_bytes e) 16 = Inr (pe_hParentProcessId e)"
    using read32_at[of _ "pe_time e" "pe_hParentProcessId e"] t(1) by (simp add: b)
  have 2: "read32 (process_bytes e) 20 = Inr (pe_hProcessId e)"
    using read32_at[of _ "pe_time e @ ?r1" "pe_hProcessId e"] t(1) by (simp add: b)
  have 3: "read_bytes (process_bytes e) 24 1 = Inr [pe_bCreated e]"
    using read_bytes_at[of _ "pe_time e @ ?r1 @ ?r2" 1 "[pe_bCreated e]"] t(1) by (simp add: b)
  have 4: "read32 (process_bytes e) 28 = Inr (pe_processPathLength e)"
    using read32_at[of _ "pe_time e @ ?r1 @ ?r2 @ [pe_bCreated e] @ pe_padding e" "pe_processPathLength e"] t(1,2) by (simp add: b)
  have 5: "read_bytes (process_bytes e) 32 2048 = Inr (char_bytes (pe_processPath e))"
    using read_bytes_at[of _ "pe_time e @ ?r1 @ ?r2 @ [pe_bCreated e] @ pe_padding e @ le_bytes32 (pe_processPathLength e)" 2048
        "char_bytes (pe_processPath e)" "[]"] t by (simp add: b)
  have word: "read16 (process_bytes e) i = Inr (word16_of (pe_time e ! i) (pe_time e ! Suc i))" if "i < 15" for i
    using that t(1) by (simp add: b read16_def nth_append)
  have "read_time (process_bytes e) 0 = Inr (time_of (pe_time e))"
    using word by (simp add: read_time_def time_of_def Let_def numeral_2_eq_2 numeral_3_eq_3)
  then show ?thesis using 1 2 3 4 5 by (simp add: read_info_def)
qed

section \<open>The events of the driver and the reports of the client\<close>

text \<open>The events that differ from the one before, and the report of one.\<close>

fun changes :: "u8 \<times> u32 \<times> u32 \<Rightarrow> ProcessMonitor.process_event list \<Rightarrow> ProcessMonitor.process_event list" where
  "changes k [] = []"
| "changes k (e # es) = (if event_key e = k then changes k es else e # changes (event_key e) es)"

definition report_of :: "nat \<Rightarrow> 'r report_env \<Rightarrow> ProcessMonitor.process_event \<Rightarrow> reports \<Rightarrow> (fault + reports) option" where
  "report_of depth renv e rs =
     process_event depth renv rs (pe_bCreated e \<noteq> 0) (pe_hProcessId e) (pe_hParentProcessId e) (timefieldToString (time_of (pe_time e)))"

definition only_reports :: "(fault + 'm \<times> process_thread) option \<Rightarrow> (fault + reports) option" where
  "only_reports r = (case r of None \<Rightarrow> None | Some (Inl e) \<Rightarrow> Some (Inl e) | Some (Inr (_, s)) \<Rightarrow> Some (Inr (pt_reports s)))"

lemma only_reports_simps [simp]:
  "only_reports None = None" "only_reports (Some (Inl e)) = Some (Inl e)" "only_reports (Some (Inr (m, s))) = Some (Inr (pt_reports s))"
  by (simp_all add: only_reports_def)

lemma device_request_event:
  assumes "\<not> pi_probe_raises env" "\<not> pi_copy_raises env" "pm_queue m = e # es"
  shows "\<exists>m'. device_request env garbage m = (sizeof_PROCESS_EVENT, process_bytes e, m') \<and> pm_queue m' = es"
  using assms by (simp add: device_request_def KDispatchIoctl_def get_process_event_def Let_def)

lemma process_round_event:
  assumes "\<not> pi_probe_raises env" "\<not> pi_copy_raises env" "pm_queue m = e # es" "process_event_ok e"
  shows "\<exists>m'. pm_queue m' = es \<and> process_round depth renv env garbage (m, s) =
     (if event_key e = pt_temp s then Some (Inr (m', s))
      else rbind (report_of depth renv e (pt_reports s)) (\<lambda>rs. Some (Inr (m', \<lparr>pt_temp = event_key e, pt_reports = rs\<rparr>))))"
proof -
  obtain m' where m': "device_request env garbage m = (sizeof_PROCESS_EVENT, process_bytes e, m')" "pm_queue m' = es"
    using device_request_event[OF assms(1-3)] by blast
  have "process_round depth renv env garbage (m, s) =
     (if event_key e = pt_temp s then Some (Inr (m', s))
      else rbind (report_of depth renv e (pt_reports s)) (\<lambda>rs. Some (Inr (m', \<lparr>pt_temp = event_key e, pt_reports = rs\<rparr>))))"
    using m'(1) read_info_bytes[OF assms(4)]
    by (cases s) (auto simp: process_round_def sizeof_PROCESS_EVENT_def info_key_def event_key_def report_of_def)
  then show ?thesis using m'(2) by blast
qed


definition example_ioctl :: process_ioctl where
  "example_ioctl = \<lparr>pi_code = 0, pi_length = 0, pi_probe_raises = False, pi_copy_raises = False, pi_exception = 0\<rparr>"

definition example_event :: "u32 \<Rightarrow> ProcessMonitor.process_event" where
  "example_event processId = \<lparr>pe_time = replicate 16 0, pe_hParentProcessId = 4, pe_hProcessId = processId, pe_bCreated = 0,
     pe_padding = [0, 0, 0], pe_processPathLength = 0, pe_processPath = replicate 1024 0\<rparr>"


end
