(* ===== verification/BrowserPool.thy ===== *)
theory BrowserPool
  imports Visitor
begin

text \<open>
  Application_InternetExplorer.cpp, the plug-in that visits a group of addresses with a pool of
  worker threads: visitGroup hands the addresses out, and counts the workers that say they have
  finished. The steps of visitGroup and of the workers are interleaved. The number of the workers
  is an argument of the model; the program has MAX_WORKER_THREADS of them. What a worker does with
  an address is in theory Browser.
\<close>

definition MAX_WORKER_THREADS :: nat where "MAX_WORKER_THREADS = 60"

section \<open>State and steps\<close>

text \<open>
  A worker waits for its event \<open>worker_has_data\<close>, visits the address it was given, and has then
  cleared its flag and not yet set its event \<open>worker_finished\<close>. Both events reset themselves when a
  wait for them is over. The addresses of the group are numbered.
\<close>

datatype worker_phase = AtWait | Visiting nat | Ending

text \<open>visitGroup is at an index of the loop over the workers, at the wait, or through.\<close>

datatype group_phase = Giving nat | WaitingAny | GroupDone

record pool =
  worker_thread_busy :: "nat \<Rightarrow> bool"
  worker_thread_data :: "nat \<Rightarrow> nat option"
  worker_has_data :: "nat \<Rightarrow> bool"
  worker_finished :: "nat \<Rightarrow> bool"
  po_phases :: "nat \<Rightarrow> worker_phase"
  po_visits :: "nat list"
  po_group :: group_phase
  n_urls :: nat
  n_visited_urls :: nat
  n_visiting :: nat
  to_visit :: nat

definition new_pool :: pool where
  "new_pool = \<lparr>worker_thread_busy = (\<lambda>_. False), worker_thread_data = (\<lambda>_. None), worker_has_data = (\<lambda>_. False),
     worker_finished = (\<lambda>_. False), po_phases = (\<lambda>_. AtWait), po_visits = [], po_group = GroupDone, n_urls = 0,
     n_visited_urls = 0, n_visiting = 0, to_visit = 0\<rparr>"

text \<open>The head of the outer loop.\<close>

definition group_loop :: "pool \<Rightarrow> pool" where
  "group_loop p = p\<lparr>po_group := (if n_visited_urls p < n_urls p then Giving 0 else GroupDone)\<rparr>"

definition begin_group :: "nat \<Rightarrow> pool \<Rightarrow> pool" where
  "begin_group n p = group_loop (p\<lparr>n_urls := n, n_visited_urls := 0, n_visiting := 0, to_visit := 0, po_visits := []\<rparr>)"

text \<open>A turn of the loop over the workers.\<close>

definition give :: "nat \<Rightarrow> pool \<Rightarrow> pool" where
  "give i p =
     (if \<not> worker_thread_busy p i \<and> n_visiting p < n_urls p then
        p\<lparr>worker_thread_data := (worker_thread_data p)(i := Some (to_visit p)), to_visit := to_visit p + 1,
          worker_thread_busy := (worker_thread_busy p)(i := True), n_visiting := n_visiting p + 1,
          worker_has_data := (worker_has_data p)(i := True)\<rparr>
      else p)"

text \<open>The wait answers with the least index of an event that is set; when none is, it runs out of time.\<close>

definition wait_any :: "nat \<Rightarrow> pool \<Rightarrow> pool" where
  "wait_any m p =
     (case filter (worker_finished p) [0..<m] of
        [] \<Rightarrow> group_loop p
      | index # _ \<Rightarrow>
          let p = p\<lparr>worker_finished := (worker_finished p)(index := False)\<rparr>
          in group_loop (if \<not> worker_thread_busy p index then p\<lparr>n_visited_urls := n_visited_urls p + 1\<rparr> else p))"

definition group_turn :: "nat \<Rightarrow> pool \<Rightarrow> pool" where
  "group_turn m p =
     (case po_group p of
        Giving i \<Rightarrow> if i < m then (give i p)\<lparr>po_group := Giving (i + 1)\<rparr> else p\<lparr>po_group := WaitingAny\<rparr>
      | WaitingAny \<Rightarrow> wait_any m p
      | GroupDone \<Rightarrow> p)"

text \<open>A step of a worker; visiting also clears its flag.\<close>

definition worker_turn :: "nat \<Rightarrow> pool \<Rightarrow> pool" where
  "worker_turn i p =
     (case po_phases p i of
        AtWait \<Rightarrow>
          if worker_has_data p i then
            p\<lparr>worker_has_data := (worker_has_data p)(i := False),
              po_phases := (case worker_thread_data p i of None \<Rightarrow> po_phases p | Some k \<Rightarrow> (po_phases p)(i := Visiting k))\<rparr>
          else p
      | Visiting k \<Rightarrow>
          p\<lparr>po_visits := po_visits p @ [k], worker_thread_busy := (worker_thread_busy p)(i := False),
            po_phases := (po_phases p)(i := Ending)\<rparr>
      | Ending \<Rightarrow> p\<lparr>worker_finished := (worker_finished p)(i := True), po_phases := (po_phases p)(i := AtWait)\<rparr>)"

datatype pool_op = Group | Worker nat

fun pool_step :: "nat \<Rightarrow> pool_op \<Rightarrow> pool \<Rightarrow> pool" where
  "pool_step m Group p = group_turn m p"
| "pool_step m (Worker i) p = (if i < m then worker_turn i p else p)"

definition pool_steps :: "nat \<Rightarrow> pool_op list \<Rightarrow> pool \<Rightarrow> pool" where
  "pool_steps m ops p = fold (pool_step m) ops p"

lemma pool_steps_simps [simp]:
  "pool_steps m [] p = p" "pool_steps m (op # ops) p = pool_steps m ops (pool_step m op p)"
  "pool_steps m (ops @ ops') p = pool_steps m ops' (pool_steps m ops p)"
  by (simp_all add: pool_steps_def)

section \<open>Where the addresses are\<close>

text \<open>The workers with an address to fetch, visiting one, about to say so, and having said so.\<close>

definition fetching :: "nat \<Rightarrow> pool \<Rightarrow> nat set" where "fetching m p = {i. i < m \<and> worker_has_data p i}"
definition visiting :: "nat \<Rightarrow> pool \<Rightarrow> nat set" where "visiting m p = {i. i < m \<and> (\<exists>k. po_phases p i = Visiting k)}"
definition ending :: "nat \<Rightarrow> pool \<Rightarrow> nat set" where "ending m p = {i. i < m \<and> po_phases p i = Ending}"
definition finished :: "nat \<Rightarrow> pool \<Rightarrow> nat set" where "finished m p = {i. i < m \<and> worker_finished p i}"

lemma finite_workers [simp]: "finite (fetching m p)" "finite (visiting m p)" "finite (ending m p)" "finite (finished m p)"
  by (simp_all add: fetching_def visiting_def ending_def finished_def)

text \<open>The addresses that were given out and the finishes that can still be counted.\<close>

definition given :: "nat \<Rightarrow> pool \<Rightarrow> nat set" where
  "given m p = set (po_visits p) \<union> {k. \<exists>i < m. po_phases p i = Visiting k} \<union>
     {k. \<exists>i < m. worker_has_data p i \<and> worker_thread_data p i = Some k}"

definition countable_finishes :: "nat \<Rightarrow> pool \<Rightarrow> nat" where
  "countable_finishes m p = n_visited_urls p + card (finished m p) + card (ending m p)"

definition pool_ok :: "nat \<Rightarrow> pool \<Rightarrow> bool" where
  "pool_ok m p \<longleftrightarrow>
     (\<forall>i < m. worker_has_data p i \<longrightarrow> (\<forall>k. po_phases p i \<noteq> Visiting k) \<and> (\<exists>k. worker_thread_data p i = Some k)) \<and>
     (\<forall>i < m. worker_thread_busy p i \<longleftrightarrow> worker_has_data p i \<or> (\<exists>k. po_phases p i = Visiting k)) \<and>
     given m p = {0..<n_visiting p} \<and> length (po_visits p) + card (visiting m p) + card (fetching m p) = n_visiting p \<and>
     to_visit p = n_visiting p \<and> n_visiting p \<le> n_urls p \<and> countable_finishes m p \<le> length (po_visits p) \<and>
     (po_group p = GroupDone \<longrightarrow> n_urls p \<le> n_visited_urls p)"

lemma group_loop_ok:
  assumes "pool_ok m p"
  shows "pool_ok m (group_loop p)"
  using assms by (simp add: pool_ok_def group_loop_def given_def countable_finishes_def fetching_def visiting_def ending_def finished_def)

lemma give_ok:
  assumes "pool_ok m p" "i < m" "po_group p \<noteq> GroupDone"
  shows "pool_ok m ((give i p)\<lparr>po_group := Giving (i + 1)\<rparr>)"
proof (cases "\<not> worker_thread_busy p i \<and> n_visiting p < n_urls p")
  case True
  let ?q = "(give i p)\<lparr>po_group := Giving (i + 1)\<rparr>"
  have i: "\<not> worker_has_data p i" "\<forall>k. po_phases p i \<noteq> Visiting k" using assms(1,2) True by (auto simp: pool_ok_def)
  have f: "fetching m ?q = insert i (fetching m p)" using True assms(2) by (auto simp: fetching_def give_def)
  have rest: "visiting m ?q = visiting m p" "ending m ?q = ending m p" "finished m ?q = finished m p"
    using True by (simp_all add: visiting_def ending_def finished_def give_def)
  have "{k. \<exists>j<m. worker_has_data ?q j \<and> worker_thread_data ?q j = Some k} =
      insert (to_visit p) {k. \<exists>j<m. worker_has_data p j \<and> worker_thread_data p j = Some k}"
    using True assms(2) i(1) by (auto simp: give_def)
  then have "given m ?q = insert (to_visit p) (given m p)" using True by (auto simp: given_def give_def)
  moreover have "card (fetching m ?q) = card (fetching m p) + 1" using i(1) unfolding f by (simp add: fetching_def)
  moreover have "countable_finishes m ?q = countable_finishes m p" using rest True by (simp add: countable_finishes_def give_def)
  ultimately show ?thesis
    using assms(1) True i rest by (auto simp: pool_ok_def give_def)
next
  case False
  then have "give i p = p" unfolding give_def by (rule if_not_P)
  then show ?thesis
    using assms(1) by (simp add: pool_ok_def given_def countable_finishes_def fetching_def visiting_def ending_def finished_def)
qed

lemma counted_ok:
  assumes "pool_ok m p" "n + card {i. i < m \<and> f i} + card (ending m p) \<le> length (po_visits p)"
  shows "pool_ok m (group_loop (p\<lparr>worker_finished := f, n_visited_urls := n\<rparr>))"
  using assms
  by (simp add: pool_ok_def group_loop_def given_def countable_finishes_def fetching_def visiting_def ending_def finished_def)

text \<open>The wait takes one event, and counts it unless its worker is busy again.\<close>

lemma wait_any_cases:
  obtains "wait_any m p = group_loop p" "finished m p = {}"
  | index where "index \<in> finished m p"
      "wait_any m p = group_loop (p\<lparr>worker_finished := (worker_finished p)(index := False),
         n_visited_urls := n_visited_urls p + (if worker_thread_busy p index then 0 else 1)\<rparr>)"
proof (cases "filter (worker_finished p) [0..<m]")
  case Nil
  then have "finished m p = {}" by (auto simp: finished_def filter_empty_conv)
  then show ?thesis using that(1) Nil by (simp add: wait_any_def)
next
  case (Cons index rest)
  then have "index \<in> set (filter (worker_finished p) [0..<m])" by simp
  then have ix: "index \<in> finished m p" by (simp add: finished_def)
  have "p\<lparr>worker_finished := f\<rparr> = p\<lparr>worker_finished := f, n_visited_urls := n_visited_urls p\<rparr>" for f by simp
  then show ?thesis using that(2)[OF ix] Cons by (simp add: wait_any_def Let_def)
qed

lemma finished_upd: "{i. i < m \<and> ((worker_finished p)(index := False)) i} = finished m p - {index}"
  by (auto simp: finished_def)

lemma wait_any_ok:
  assumes "pool_ok m p"
  shows "pool_ok m (wait_any m p)"
proof (cases rule: wait_any_cases[of m p])
  case (2 index)
  have "card (finished m p) = card (finished m p - {index}) + 1" using card_Suc_Diff1[OF _ 2(1)] by simp
  then have "n_visited_urls p + (if worker_thread_busy p index then 0 else 1) + card (finished m p - {index}) + card (ending m p)
      \<le> length (po_visits p)"
    using assms by (simp add: pool_ok_def countable_finishes_def)
  then show ?thesis unfolding 2(2) by (intro counted_ok[OF assms]) (simp only: finished_upd)
qed (simp add: group_loop_ok[OF assms])

lemma group_turn_ok: "pool_ok m p \<Longrightarrow> pool_ok m (group_turn m p)"
proof (cases "po_group p")
  case (Giving i)
  assume p: "pool_ok m p"
  show ?thesis
  proof (cases "i < m")
    case True
    then show ?thesis using give_ok[OF p True] Giving by (simp add: group_turn_def)
  qed (use p Giving in \<open>simp add: group_turn_def pool_ok_def given_def countable_finishes_def fetching_def visiting_def ending_def finished_def\<close>)
qed (simp_all add: group_turn_def wait_any_ok)

text \<open>The second part: no step of a worker makes more finishes countable than it makes visits.\<close>

lemma worker_turn_ok:
  assumes "pool_ok m p" "i < m"
  shows "pool_ok m (worker_turn i p) \<and>
     countable_finishes m (worker_turn i p) + length (po_visits p) \<le> countable_finishes m p + length (po_visits (worker_turn i p))"
proof (cases "po_phases p i")
  case AtWait
  show ?thesis
  proof (cases "worker_has_data p i")
    case True
    obtain k where k: "worker_thread_data p i = Some k" using assms True by (auto simp: pool_ok_def)
    let ?q = "p\<lparr>worker_has_data := (worker_has_data p)(i := False), po_phases := (po_phases p)(i := Visiting k)\<rparr>"
    have q: "worker_turn i p = ?q" using AtWait True k by (simp add: worker_turn_def)
    have "fetching m ?q = fetching m p - {i}" "i \<in> fetching m p" "visiting m ?q = insert i (visiting m p)" "i \<notin> visiting m p"
      "ending m ?q = ending m p" "finished m ?q = finished m p"
      using assms(2) True AtWait by (auto simp: fetching_def visiting_def ending_def finished_def)
    then have c: "card (fetching m p) = card (fetching m ?q) + 1" "card (visiting m ?q) = card (visiting m p) + 1"
      "countable_finishes m ?q = countable_finishes m p"
      using card_Suc_Diff1[of "fetching m p" i] by (simp_all add: countable_finishes_def)
    have "given m ?q = given m p"
    proof
      show "given m ?q \<subseteq> given m p" using assms(2) True k by (auto simp: given_def split: if_splits)
      show "given m p \<subseteq> given m ?q"
      proof
        fix x assume "x \<in> given m p"
        then consider "x \<in> set (po_visits p)" | j where "j < m" "po_phases p j = Visiting x" | j where "j < m" "worker_has_data p j" "worker_thread_data p j = Some x"
          by (auto simp: given_def)
        then show "x \<in> given m ?q"
        proof cases
          case 2 then show ?thesis using AtWait by (auto simp: given_def)
        next
          case 3 then show ?thesis using k assms(2) by (cases "j = i") (auto simp: given_def)
        qed (simp add: given_def)
      qed
    qed
    with assms c True show ?thesis unfolding q by (auto simp: pool_ok_def)
  qed (use AtWait assms in \<open>simp add: worker_turn_def\<close>)
next
  case (Visiting k)
  let ?q = "p\<lparr>po_visits := po_visits p @ [k], worker_thread_busy := (worker_thread_busy p)(i := False), po_phases := (po_phases p)(i := Ending)\<rparr>"
  have q: "worker_turn i p = ?q" using Visiting by (simp add: worker_turn_def)
  have nh: "\<not> worker_has_data p i" using assms Visiting by (auto simp: pool_ok_def)
  have "visiting m ?q = visiting m p - {i}" "i \<in> visiting m p" "ending m ?q = insert i (ending m p)" "i \<notin> ending m p"
    "fetching m ?q = fetching m p" "finished m ?q = finished m p"
    using assms(2) Visiting by (auto simp: fetching_def visiting_def ending_def finished_def)
  then have c: "card (visiting m p) = card (visiting m ?q) + 1" "countable_finishes m ?q = countable_finishes m p + 1"
    "card (fetching m ?q) = card (fetching m p)"
    using card_Suc_Diff1[of "visiting m p" i] by (simp_all add: countable_finishes_def)
  have "given m ?q = given m p"
  proof
    show "given m ?q \<subseteq> given m p" using assms(2) Visiting by (auto simp: given_def split: if_splits)
    show "given m p \<subseteq> given m ?q"
    proof
      fix x assume "x \<in> given m p"
      then consider "x \<in> set (po_visits p)" | j where "j < m" "po_phases p j = Visiting x" | j where "j < m" "worker_has_data p j" "worker_thread_data p j = Some x"
        by (auto simp: given_def)
      then show "x \<in> given m ?q"
      proof cases
        case 2 then show ?thesis using Visiting by (cases "j = i") (auto simp: given_def)
      qed (auto simp: given_def)
    qed
  qed
  with assms c nh show ?thesis unfolding q by (auto simp: pool_ok_def)
next
  case Ending
  let ?q = "p\<lparr>worker_finished := (worker_finished p)(i := True), po_phases := (po_phases p)(i := AtWait)\<rparr>"
  have q: "worker_turn i p = ?q" using Ending by (simp add: worker_turn_def)
  have "ending m ?q = ending m p - {i}" "i \<in> ending m p" "finished m ?q = insert i (finished m p)" "visiting m ?q = visiting m p"
    "fetching m ?q = fetching m p"
    using assms(2) Ending by (auto simp: fetching_def visiting_def ending_def finished_def)
  then have c: "card (visiting m ?q) = card (visiting m p)" "card (fetching m ?q) = card (fetching m p)" "countable_finishes m ?q \<le> countable_finishes m p"
    using card_Suc_Diff1[of "ending m p" i] card_insert_le_m1[of "card (finished m p) + 1" "finished m p" i]
    by (simp_all add: countable_finishes_def)
  have "(\<exists>j<m. ((po_phases p)(i := AtWait)) j = Visiting k) \<longleftrightarrow> (\<exists>j<m. po_phases p j = Visiting k)" for k
    using Ending by (metis fun_upd_apply worker_phase.distinct(1,5))
  then have "given m ?q = given m p" by (simp add: given_def)
  with assms c show ?thesis unfolding q by (auto simp: pool_ok_def Ending)
qed

text \<open>Nor does a step of visitGroup.\<close>

lemma group_loop_balance [simp]:
  "countable_finishes m (group_loop p) = countable_finishes m p" "po_visits (group_loop p) = po_visits p"
  by (simp_all add: group_loop_def countable_finishes_def finished_def ending_def)

lemma give_balance [simp]:
  "countable_finishes m ((give i p)\<lparr>po_group := g\<rparr>) = countable_finishes m p" "po_visits (give i p) = po_visits p"
  by (simp_all add: give_def countable_finishes_def finished_def ending_def)

lemma countable_upd:
  "countable_finishes m (p\<lparr>worker_finished := f, n_visited_urls := n\<rparr>) = n + card {i. i < m \<and> f i} + card (ending m p)"
  by (simp add: countable_finishes_def finished_def ending_def)

lemma wait_any_balance: "countable_finishes m (wait_any m p) \<le> countable_finishes m p \<and> po_visits (wait_any m p) = po_visits p"
proof (cases rule: wait_any_cases[of m p])
  case (2 index)
  have "card (finished m p) = card (finished m p - {index}) + 1" using card_Suc_Diff1[OF _ 2(1)] by simp
  then show ?thesis
    unfolding 2(2) group_loop_balance countable_upd finished_upd by (simp add: countable_finishes_def)
qed simp

lemma group_turn_balance: "countable_finishes m (group_turn m p) \<le> countable_finishes m p \<and> po_visits (group_turn m p) = po_visits p"
  using wait_any_balance[of m p]
  by (auto simp: group_turn_def split: group_phase.splits) (simp_all add: countable_finishes_def finished_def ending_def)

lemma pool_step_balance:
  "pool_ok m p \<Longrightarrow>
     countable_finishes m (pool_step m op p) + length (po_visits p) \<le> countable_finishes m p + length (po_visits (pool_step m op p))"
  using group_turn_balance[of m p] by (cases op) (auto dest: worker_turn_ok)

lemma pool_step_ok: "pool_ok m p \<Longrightarrow> pool_ok m (pool_step m op p)"
  by (cases op) (auto simp: group_turn_ok dest: worker_turn_ok)

lemma pool_steps_ok: "pool_ok m p \<Longrightarrow> pool_ok m (pool_steps m ops p)"
  by (induction ops arbitrary: p) (simp_all add: pool_step_ok)

text \<open>Between the groups: no worker has anything to do or to say.\<close>

definition at_rest :: "nat \<Rightarrow> pool \<Rightarrow> bool" where
  "at_rest m p \<longleftrightarrow> (\<forall>i < m. \<not> worker_has_data p i \<and> \<not> worker_finished p i \<and> po_phases p i = AtWait \<and> \<not> worker_thread_busy p i)"

lemma begin_group_ok: "at_rest m p \<Longrightarrow> pool_ok m (begin_group n p)"
  by (auto simp: at_rest_def pool_ok_def begin_group_def group_loop_def given_def countable_finishes_def fetching_def visiting_def ending_def
      finished_def)

lemma pool_step_urls: "n_urls (pool_step m op p) = n_urls p"
  by (cases op) (auto simp: group_turn_def give_def wait_any_def group_loop_def worker_turn_def Let_def
      split: group_phase.splits list.splits worker_phase.splits option.splits)

lemma pool_steps_urls: "n_urls (pool_steps m ops (begin_group n p)) = n"
proof -
  have "n_urls (pool_steps m ops p) = n_urls p" for p by (induction ops arbitrary: p) (simp_all add: pool_step_urls)
  then show ?thesis by (simp add: begin_group_def group_loop_def)
qed

section \<open>A group that ends has been visited\<close>

text \<open>
  When visitGroup is through, whatever the order of the steps, each address of the group was
  visited exactly once, and nothing is left of the group: no worker has an address to visit and
  none has a finish to tell that the next group could take for one of its own.
\<close>

lemma group_visits:
  assumes "at_rest m p" "q = pool_steps m ops (begin_group n p)" "po_group q = GroupDone"
  shows "distinct (po_visits q) \<and> set (po_visits q) = {0..<n} \<and> at_rest m q"
proof -
  have ok: "pool_ok m q" unfolding assms(2) by (rule pool_steps_ok[OF begin_group_ok[OF assms(1)]])
  have n: "n_urls q = n" unfolding assms(2) by (rule pool_steps_urls)
  have le: "n \<le> n_visited_urls q" using ok assms(3) n by (simp add: pool_ok_def)
  have c: "n_visited_urls q + card (finished m q) + card (ending m q) \<le> length (po_visits q)"
    "length (po_visits q) + card (visiting m q) + card (fetching m q) = n_visiting q" "n_visiting q \<le> n" "given m q = {0..<n_visiting q}"
    using ok n by (simp_all add: pool_ok_def countable_finishes_def)
  then have "card (finished m q) = 0" "card (ending m q) = 0" "card (visiting m q) = 0" "card (fetching m q) = 0"
    "length (po_visits q) = n" "n_visiting q = n"
    using le by linarith+
  then have e: "finished m q = {}" "ending m q = {}" "visiting m q = {}" "fetching m q = {}" and l: "length (po_visits q) = n" "n_visiting q = n"
    by simp_all
  have "set (po_visits q) = {0..<n}"
    using c(4) e l(2) by (auto simp: given_def visiting_def fetching_def)
  moreover from this have "distinct (po_visits q)" using l(1) by (simp add: card_distinct)
  moreover have "at_rest m q"
    unfolding at_rest_def
  proof (intro allI impI)
    fix i assume i: "i < m"
    then have "\<not> worker_has_data q i" "\<not> worker_finished q i" "po_phases q i = AtWait"
      using e by (auto simp: finished_def ending_def visiting_def fetching_def) (metis worker_phase.exhaust)
    moreover from this have "\<not> worker_thread_busy q i" using ok i by (simp add: pool_ok_def)
    ultimately show "\<not> worker_has_data q i \<and> \<not> worker_finished q i \<and> po_phases q i = AtWait \<and> \<not> worker_thread_busy q i" by simp
  qed
  ultimately show ?thesis by simp
qed

definition example_group :: "pool_op list" where
  "example_group = [Group, Group, Group, Worker 0, Worker 0, Worker 0, Group]"

lemma new_pool_at_rest: "at_rest m new_pool"
  by (simp add: at_rest_def new_pool_def)

section \<open>A finish that is lost\<close>

text \<open>A finish that was not counted: fewer finishes can be counted than visits were made.\<close>

definition finish_lost :: "nat \<Rightarrow> pool \<Rightarrow> bool" where
  "finish_lost m p \<longleftrightarrow> pool_ok m p \<and> countable_finishes m p < length (po_visits p)"

lemma finish_lost_steps: "finish_lost m p \<Longrightarrow> finish_lost m (pool_steps m ops p)"
proof (induction ops arbitrary: p)
  case (Cons op ops)
  then have "finish_lost m (pool_step m op p)"
    using pool_step_balance[of m p op] pool_step_ok[of m p op] by (auto simp: finish_lost_def)
  then show ?case using Cons.IH by simp
qed simp

lemma finish_lost_not_done:
  assumes "finish_lost m p"
  shows "po_group p \<noteq> GroupDone"
proof
  assume "po_group p = GroupDone"
  then have "n_urls p \<le> n_visited_urls p" "length (po_visits p) \<le> n_urls p" "n_visited_urls p \<le> countable_finishes m p"
    using assms by (auto simp: finish_lost_def pool_ok_def countable_finishes_def)
  then show False using assms by (simp add: finish_lost_def)
qed

text \<open>The first turn of the loop over the workers, with more addresses than workers, and a turn that gives nothing.\<close>

definition after_giving :: "nat \<Rightarrow> nat \<Rightarrow> pool" where
  "after_giving m j = (begin_group (m + 1) new_pool)\<lparr>worker_thread_busy := (\<lambda>i. i < j), worker_thread_data := (\<lambda>i. if i < j then Some i else None),
     worker_has_data := (\<lambda>i. i < j), n_visiting := j, to_visit := j, po_group := Giving j\<rparr>"

lemma first_turn: "j \<le> m \<Longrightarrow> pool_steps m (replicate j Group) (begin_group (m + 1) new_pool) = after_giving m j"
proof (induction j)
  case 0
  then show ?case by (simp add: after_giving_def begin_group_def group_loop_def new_pool_def)
next
  case (Suc j)
  have "pool_steps m (replicate (Suc j) Group) (begin_group (m + 1) new_pool) = pool_step m Group (after_giving m j)"
    using Suc by (simp add: replicate_append_same[symmetric] del: replicate_append_same)
  also have "\<dots> = after_giving m (Suc j)"
    using Suc.prems by (auto simp: after_giving_def group_turn_def give_def begin_group_def group_loop_def new_pool_def fun_eq_iff less_Suc_eq)
  finally show ?case .
qed

lemma idle_turn:
  "n_visiting p = n_urls p \<Longrightarrow> po_group p = Giving i \<Longrightarrow> i + j = m \<Longrightarrow>
     pool_steps m (replicate (j + 1) Group) p = p\<lparr>po_group := WaitingAny\<rparr>"
proof (induction j arbitrary: p i)
  case 0
  then show ?case by (simp add: group_turn_def)
next
  case (Suc j)
  have "pool_step m Group p = p\<lparr>po_group := Giving (i + 1)\<rparr>" using Suc.prems by (simp add: group_turn_def give_def)
  moreover have "pool_steps m (replicate (j + 1) Group) (p\<lparr>po_group := Giving (i + 1)\<rparr>) = p\<lparr>po_group := WaitingAny\<rparr>"
    using Suc.IH[of "p\<lparr>po_group := Giving (i + 1)\<rparr>" "i + 1"] Suc.prems by simp
  ultimately show ?case by simp
qed

text \<open>
  The steps: all workers get an address; the first one visits and clears its flag, but has not set
  its event yet; the second one finishes and is counted; the first one gets the last address, sets
  its event for the first, and is found busy.
\<close>

definition losing_steps :: "nat \<Rightarrow> pool_op list" where
  "losing_steps m = replicate m Group @ [Group, Worker 0, Worker 0, Worker 1, Worker 1, Worker 1, Group, Group, Worker 0] @
     replicate ((m - 1) + 1) Group @ [Group]"

lemma losing_steps_lose:
  assumes "2 \<le> m"
  shows "finish_lost m (pool_steps m (losing_steps m) (begin_group (m + 1) new_pool))"
proof -
  let ?p = "after_giving m m"
  define q where "q = pool_steps m [Group, Worker 0, Worker 0, Worker 1, Worker 1, Worker 1, Group, Group, Worker 0] ?p"
  have f: "filter ((\<lambda>_. False)(Suc 0 := True)) [0..<m] = [1]"
  proof -
    have "[0..<m] = [0] @ [1] @ [2..<m]" using assms by (metis One_nat_def Suc_1 Suc_le_lessD append_Cons append_Nil upt_conv_Cons zero_less_Suc order_less_le_trans)
    moreover have "filter ((\<lambda>_. False)(Suc 0 := True)) [2..<m] = []" by (auto simp: filter_empty_conv)
    ultimately show ?thesis by simp
  qed
  have q: "n_visiting q = n_urls q" "po_group q = Giving 1" "worker_finished q 0" "worker_thread_busy q 0" "n_visited_urls q = 1"
    "po_visits q = [0, 1]" "worker_finished q = (\<lambda>_. False)(0 := True)" "\<forall>i. po_phases q i \<noteq> Ending"
    using assms f
    by (auto simp: q_def after_giving_def begin_group_def group_loop_def new_pool_def group_turn_def worker_turn_def wait_any_def give_def fun_eq_iff)
  define r where "r = q\<lparr>po_group := WaitingAny\<rparr>"
  have "pool_steps m (replicate ((m - 1) + 1) Group) q = r"
    unfolding r_def by (rule idle_turn[OF q(1,2)]) (use assms in simp)
  then have steps: "pool_steps m (losing_steps m) (begin_group (m + 1) new_pool) = group_turn m r"
    using first_turn[of m m] by (simp add: losing_steps_def q_def)
  have "[0..<m] = 0 # [1..<m]" using assms by (simp add: upt_conv_Cons)
  then have "wait_any m r = group_loop (r\<lparr>worker_finished := (worker_finished r)(0 := False)\<rparr>)"
    using q by (simp add: wait_any_def r_def)
  then have t: "countable_finishes m (group_turn m r) = 1" "po_visits (group_turn m r) = [0, 1]"
    using q by (simp_all add: group_turn_def r_def) (simp_all add: countable_finishes_def finished_def ending_def)
  have "pool_ok m (group_turn m r)"
    using pool_steps_ok[OF begin_group_ok[OF new_pool_at_rest], of m "losing_steps m" "m + 1"] unfolding steps .
  then show ?thesis unfolding finish_lost_def steps using t by simp
qed

text \<open>
  With one address more than there are workers a finish can be lost, and then visitGroup never
  ends: a worker clears its flag before it sets its event, may be given the next address in between,
  and is found busy when its event is taken.
\<close>

theorem group_hangs_for_ever:
  "\<exists>ops. \<forall>ops'. po_group (pool_steps MAX_WORKER_THREADS (ops @ ops') (begin_group (MAX_WORKER_THREADS + 1) new_pool)) \<noteq> GroupDone"
proof -
  have "finish_lost MAX_WORKER_THREADS (pool_steps MAX_WORKER_THREADS (losing_steps MAX_WORKER_THREADS) (begin_group (MAX_WORKER_THREADS + 1) new_pool))"
    by (rule losing_steps_lose) (simp add: MAX_WORKER_THREADS_def)
  from finish_lost_not_done[OF finish_lost_steps[OF this]]
  show ?thesis by (metis pool_steps_simps(3))
qed

section \<open>Groups no larger than the pool\<close>

text \<open>No worker is used twice, so nothing is lost.\<close>

definition fresh :: "pool \<Rightarrow> nat \<Rightarrow> bool" where
  "fresh p i \<longleftrightarrow> \<not> worker_thread_busy p i \<and> \<not> worker_has_data p i \<and> \<not> worker_finished p i \<and> po_phases p i = AtWait"

definition small_ok :: "nat \<Rightarrow> pool \<Rightarrow> bool" where
  "small_ok m p \<longleftrightarrow> pool_ok m p \<and> n_urls p \<le> m \<and> countable_finishes m p = length (po_visits p) \<and>
     (n_visiting p = n_urls p \<or> po_group p = Giving (n_visiting p) \<and> (\<forall>i < m. n_visiting p \<le> i \<longrightarrow> fresh p i)) \<and>
     (\<forall>i < m. worker_finished p i \<or> po_phases p i = Ending \<longrightarrow> \<not> worker_thread_busy p i) \<and>
     (\<forall>i < m. worker_finished p i \<longrightarrow> po_phases p i \<noteq> Ending) \<and>
     (po_group p = GroupDone \<or> n_visited_urls p < n_urls p)"

lemma small_begin: "at_rest m p \<Longrightarrow> n \<le> m \<Longrightarrow> small_ok m (begin_group n p)"
  using begin_group_ok[of m p n]
  by (auto simp: small_ok_def at_rest_def begin_group_def group_loop_def countable_finishes_def finished_def ending_def fresh_def)

lemma give_same: "\<not> (\<not> worker_thread_busy p i \<and> n_visiting p < n_urls p) \<Longrightarrow> give i p = p"
  unfolding give_def by (rule if_not_P)

lemma small_group_turn:
  assumes "small_ok m p"
  shows "small_ok m (group_turn m p)"
proof (cases "po_group p")
  case (Giving i)
  have ok: "pool_ok m (group_turn m p)" using assms group_turn_ok by (simp add: small_ok_def)
  show ?thesis
  proof (cases "n_visiting p = n_urls p")
    case True
    then have "group_turn m p = p\<lparr>po_group := (if i < m then Giving (i + 1) else WaitingAny)\<rparr>"
      using Giving give_same[of p i] by (simp add: group_turn_def)
    then show ?thesis
      using assms ok True Giving by (auto simp: small_ok_def countable_finishes_def finished_def ending_def fresh_def)
  next
    case False
    then have i: "i = n_visiting p" "n_visiting p < n_urls p" "i < m" "fresh p i"
      using assms Giving by (auto simp: small_ok_def pool_ok_def)
    let ?q = "(give i p)\<lparr>po_group := Giving (i + 1)\<rparr>"
    have q: "group_turn m p = ?q" using Giving i by (simp add: group_turn_def)
    have b: "countable_finishes m ?q = countable_finishes m p" "po_visits ?q = po_visits p" by simp_all
    show ?thesis
      using assms ok i(2-4) b unfolding q
      by (auto simp: small_ok_def i(1) give_def fresh_def)
  qed
next
  case WaitingAny
  have n: "n_visiting p = n_urls p" using assms WaitingAny by (auto simp: small_ok_def)
  have ok: "pool_ok m (wait_any m p)" using assms wait_any_ok by (simp add: small_ok_def)
  show ?thesis
  proof (cases rule: wait_any_cases[of m p])
    case 1
    then show ?thesis
      using assms WaitingAny n ok
      by (auto simp: group_turn_def small_ok_def) (auto simp: group_loop_def)
  next
    case (2 index)
    have nb: "\<not> worker_thread_busy p index" using assms 2(1) by (auto simp: small_ok_def finished_def)
    have "card (finished m p) = card (finished m p - {index}) + 1" using card_Suc_Diff1[OF _ 2(1)] by simp
    then have "countable_finishes m (wait_any m p) = countable_finishes m p"
      unfolding 2(2) group_loop_balance countable_upd finished_upd using nb by (simp add: countable_finishes_def)
    then show ?thesis
      using assms WaitingAny n ok 2(2) nb by (auto simp: group_turn_def small_ok_def group_loop_def)
  qed
qed (use assms in \<open>simp add: group_turn_def\<close>)

lemma small_worker_turn:
  assumes "small_ok m p" "i < m"
  shows "small_ok m (worker_turn i p)"
proof -
  let ?q = "worker_turn i p"
  have ok: "pool_ok m ?q" using worker_turn_ok assms by (simp add: small_ok_def)
  have pk: "pool_ok m p" using assms by (simp add: small_ok_def)
  have fr: "fresh p j \<Longrightarrow> fresh ?q j" for j
    by (cases "j = i") (auto simp: fresh_def worker_turn_def split: worker_phase.splits option.splits)
  have same: "n_urls ?q = n_urls p" "n_visiting ?q = n_visiting p" "po_group ?q = po_group p" "n_visited_urls ?q = n_visited_urls p"
    by (auto simp: worker_turn_def split: worker_phase.splits)
  have told: "worker_finished p j \<or> po_phases p j = Ending \<Longrightarrow> \<not> worker_thread_busy p j" "worker_finished p j \<Longrightarrow> po_phases p j \<noteq> Ending"
    if "j < m" for j
    using assms(1) that by (auto simp: small_ok_def)
  have busy: "po_phases p i = Visiting k \<or> worker_has_data p i \<Longrightarrow> worker_thread_busy p i" for k
    using pk assms(2) by (auto simp: pool_ok_def)
  have rest: "(worker_finished ?q j \<or> po_phases ?q j = Ending \<longrightarrow> \<not> worker_thread_busy ?q j) \<and>
     (worker_finished ?q j \<longrightarrow> po_phases ?q j \<noteq> Ending)" if "j < m" for j
  proof (cases "j = i")
    case True
    then show ?thesis
      using told[OF that] busy by (cases "po_phases p i") (auto simp: worker_turn_def split: option.splits)
  next
    case False
    then have "worker_finished ?q j = worker_finished p j" "po_phases ?q j = po_phases p j" "worker_thread_busy ?q j = worker_thread_busy p j"
      by (auto simp: worker_turn_def split: worker_phase.splits option.splits)
    then show ?thesis using told[OF that] by simp
  qed
  have "countable_finishes m ?q = length (po_visits ?q)"
  proof (cases "po_phases p i")
    case AtWait
    then have "finished m ?q = finished m p" "ending m ?q = ending m p" "n_visited_urls ?q = n_visited_urls p" "po_visits ?q = po_visits p"
      by (auto simp: worker_turn_def finished_def ending_def split: option.splits)
    then show ?thesis using assms by (simp add: small_ok_def countable_finishes_def)
  next
    case (Visiting k)
    then have "finished m ?q = finished m p" "ending m ?q = insert i (ending m p)" "i \<notin> ending m p" "n_visited_urls ?q = n_visited_urls p"
      "po_visits ?q = po_visits p @ [k]"
      using assms(2) by (auto simp: worker_turn_def finished_def ending_def)
    then show ?thesis using assms by (simp add: small_ok_def countable_finishes_def)
  next
    case Ending
    have "\<not> worker_finished p i" using assms Ending by (auto simp: small_ok_def)
    then have "finished m ?q = insert i (finished m p)" "i \<notin> finished m p" "ending m ?q = ending m p - {i}" "i \<in> ending m p"
      "n_visited_urls ?q = n_visited_urls p" "po_visits ?q = po_visits p"
      using assms(2) Ending by (auto simp: worker_turn_def finished_def ending_def)
    moreover from this have "card (ending m p) = card (ending m ?q) + 1" using card_Suc_Diff1[of "ending m p" i] by simp
    moreover from calculation have "card (finished m ?q) = card (finished m p) + 1" by simp
    ultimately have "countable_finishes m ?q = countable_finishes m p" "po_visits ?q = po_visits p"
      unfolding countable_finishes_def by simp_all
    then show ?thesis using assms by (simp add: small_ok_def)
  qed
  moreover have "n_visiting p = n_urls p \<or> po_group p = Giving (n_visiting p) \<and> (\<forall>j < m. n_visiting p \<le> j \<longrightarrow> fresh ?q j)"
    using assms(1) fr by (simp add: small_ok_def) blast
  moreover have "n_urls p \<le> m" "po_group p = GroupDone \<or> n_visited_urls p < n_urls p" using assms(1) by (simp_all add: small_ok_def)
  ultimately show ?thesis using ok rest by (simp add: small_ok_def same)
qed

lemma small_steps: "small_ok m p \<Longrightarrow> small_ok m (pool_steps m ops p)"
proof (induction ops arbitrary: p)
  case (Cons op ops)
  have "small_ok m (pool_step m op p)" using Cons.prems small_group_turn small_worker_turn by (cases op) simp_all
  then show ?case using Cons.IH by simp
qed simp



end
