(* ===== verification/Polling.thy ===== *)
theory Polling
  imports Prelude
begin

text \<open>
  The waiting loops of the plug-ins (Application_ClientConfigManager.cpp,
  InternetExplorerInstanceBulk.cpp): they look whether something is the case, sleep for a tenth of
  a second and add 0.1 to a double, until it is the case or the double has reached a number of
  seconds. The sums are those of the doubles of the machine, so the number of turns is proved and
  not guessed.
\<close>

section \<open>Doubles\<close>

text \<open>
  A double that is a multiple of \<open>2 ^ -55\<close> is held as that multiple: 0.1 is such a double, and all
  sums with it are. A sum is rounded to 53 bits, to the nearest such number and to the even one of
  two.
\<close>

definition tenth :: nat where "tenth = 3602879701896397"

definition in_double :: "nat \<Rightarrow> nat" where "in_double n = n * 2 ^ 55"

function dropped_bits :: "nat \<Rightarrow> nat \<Rightarrow> nat" where
  "dropped_bits e n = (if n < 2 ^ (53 + e) then e else dropped_bits (e + 1) n)"
  by auto
termination
proof (relation "measure (\<lambda>(e, n). n - e)")
  fix e n :: nat
  assume "\<not> n < 2 ^ (53 + e)"
  then have "2 ^ (53 + e) \<le> n" by (simp only: not_less)
  then have "2 ^ e \<le> n" by (rule order_trans[OF power_increasing, rotated 2]) simp_all
  then have "e < n" using less_exp[of e] by linarith
  then show "((e + 1, n), e, n) \<in> measure (\<lambda>(e, n). n - e)" by simp
qed simp

declare dropped_bits.simps [simp del]

definition round_double :: "nat \<Rightarrow> nat" where
  "round_double n =
     (let u = 2 ^ dropped_bits 0 n; q = n div u; r = 2 * (n mod u)
      in (if u < r \<or> r = u \<and> odd q then q + 1 else q) * u)"

definition add_double :: "nat \<Rightarrow> nat \<Rightarrow> nat" where "add_double a b = round_double (a + b)"

section \<open>The loop\<close>

text \<open>Whether it is the case when it is looked for the last time, and the double at the end.\<close>

partial_function (option) poll :: "(nat \<Rightarrow> bool) \<Rightarrow> nat \<Rightarrow> nat \<Rightarrow> nat \<Rightarrow> (bool \<times> nat) option" where
  "poll ready maxWaitTime k waitTime =
     (if \<not> ready k \<and> waitTime < maxWaitTime then poll ready maxWaitTime (k + 1) (add_double waitTime tenth)
      else Some (ready k, waitTime))"

section \<open>Sums of tenths\<close>

primrec waited :: "nat \<Rightarrow> nat" where
  "waited 0 = 0"
| "waited (Suc k) = add_double (waited k) tenth"

lemma dropped_bits_is:
  assumes "n < 2 ^ (53 + e)" "e = 0 \<or> 2 ^ (52 + e) \<le> n"
  shows "dropped_bits 0 n = e"
proof -
  have "dropped_bits i n = e" if "i \<le> e" for i
    using that
  proof (induction "e - i" arbitrary: i)
    case (Suc d)
    then have "i < e" by simp
    then have "2 ^ (53 + i) \<le> (2 :: nat) ^ (52 + e)" by (intro power_increasing) auto
    also have "\<dots> \<le> n" using assms(2) \<open>i < e\<close> by auto
    finally have "\<not> n < 2 ^ (53 + i)" by (simp only: not_less)
    then show ?case using Suc(1)[of "i + 1"] Suc(2) \<open>i < e\<close> by (subst dropped_bits.simps) simp
  next
    case 0
    then show ?case using assms(1) by (subst dropped_bits.simps) simp
  qed
  then show ?thesis by simp
qed

lemma round_double_eq:
  assumes "n < 2 ^ (53 + e)" "e = 0 \<or> 2 ^ (52 + e) \<le> n" "n = 2 ^ e * q + r" "r < 2 ^ e" "2 * r \<noteq> 2 ^ e"
  shows "round_double n = 2 ^ e * (if 2 ^ e < 2 * r then q + 1 else q)"
proof -
  have "n div 2 ^ e = q" "n mod 2 ^ e = r" using assms(3,4) by simp_all
  then show ?thesis using dropped_bits_is[OF assms(1,2)] assms(5) by (simp add: round_double_def Let_def)
qed

text \<open>Between two powers of two every step adds the same number.\<close>

lemma waited_stage:
  assumes "waited k = 2 ^ e * a" "tenth = 2 ^ e * q + r" "r < 2 ^ e" "2 * r \<noteq> 2 ^ e" "c = (if 2 ^ e < 2 * r then q + 1 else q)"
    and "e = 0 \<or> 2 ^ (52 + e) \<le> 2 ^ e * a + tenth" "2 ^ e * (a + (j - 1) * c) + tenth < 2 ^ (53 + e)" "i \<le> j"
  shows "waited (k + i) = 2 ^ e * (a + i * c)"
  using assms(8)
proof (induction i)
  case (Suc i)
  let ?w = "2 ^ e * (a + i * c)"
  have "i * c \<le> (j - 1) * c" using Suc.prems by (intro mult_right_mono) auto
  then have hi: "?w + tenth < 2 ^ (53 + e)" using assms(7) by (meson add_left_mono add_right_mono le_less_trans mult_le_mono2)
  have lo: "e = 0 \<or> 2 ^ (52 + e) \<le> ?w + tenth" using assms(6) by (auto simp: algebra_simps)
  have "?w + tenth = 2 ^ e * (a + i * c + q) + r" using assms(2) by (simp add: algebra_simps)
  from round_double_eq[OF hi lo this assms(3,4)] assms(5) Suc show ?case by (simp add: add_double_def algebra_simps)
qed (use assms(1) in simp)

lemma waited_step:
  assumes "waited k = w" "w + tenth < 2 ^ (53 + e)" "e = 0 \<or> 2 ^ (52 + e) \<le> w + tenth"
    and "(w + tenth) div 2 ^ e = q" "(w + tenth) mod 2 ^ e = r" "v = (if 2 ^ e < 2 * r \<or> 2 * r = 2 ^ e \<and> odd q then q + 1 else q) * 2 ^ e"
  shows "waited (Suc k) = v"
  using dropped_bits_is[OF assms(2,3)] assms(1,4-6) by (simp add: add_double_def round_double_def Let_def)

text \<open>A sum never gets smaller, as long as what is dropped is less than a tenth.\<close>

lemma dropped_bits_le:
  assumes "n < 2 ^ (53 + e)" "i \<le> e"
  shows "dropped_bits i n \<le> e"
  using assms(2)
proof (induction "e - i" arbitrary: i)
  case (Suc d)
  then show ?case using Suc(1)[of "i + 1"] by (subst dropped_bits.simps) simp
next
  case 0
  then show ?case using assms(1) by (subst dropped_bits.simps) simp
qed

lemma add_tenth_bounds:
  assumes "w < 2 ^ 62"
  shows "w \<le> add_double w tenth \<and> add_double w tenth \<le> w + (tenth + 1024)"
proof -
  define n u where "n = w + tenth" and "u = (2 :: nat) ^ dropped_bits 0 n"
  have "dropped_bits 0 n \<le> 10" using assms by (intro dropped_bits_le) (simp_all add: n_def tenth_def)
  then have "u \<le> 2 ^ 10" unfolding u_def by (rule power_increasing) simp
  then have u: "u \<le> 1024" "n mod u < u" by (simp_all add: u_def)
  obtain a b where ab: "n div u * u = a" "n mod u = b" by simp
  then have "a + b = w + tenth" using div_mult_mod_eq[of n u] by (simp add: n_def)
  moreover have "round_double n = a \<or> round_double n = a + u"
    by (simp add: round_double_def Let_def u_def flip: ab)
  ultimately show ?thesis using u ab(2) by (auto simp: add_double_def n_def tenth_def)
qed

lemma waited_bound: "k \<le> 1000 \<Longrightarrow> waited k \<le> k * (tenth + 1024)"
proof (induction k)
  case (Suc k)
  then have "waited k \<le> 1000 * (tenth + 1024)" by (meson Suc_leD le_trans mult_le_mono1)
  then have "waited k < 2 ^ 62" by (simp add: tenth_def)
  then show ?case using add_tenth_bounds[of "waited k"] Suc by simp
qed simp

lemma waited_mono: "i \<le> k \<Longrightarrow> k \<le> 1000 \<Longrightarrow> waited i \<le> waited k"
proof (induction k)
  case (Suc k)
  have "waited k \<le> 1000 * (tenth + 1024)" using waited_bound[of k] Suc.prems by (meson Suc_leD le_trans mult_le_mono1)
  then have "waited k \<le> waited (Suc k)" using add_tenth_bounds[of "waited k"] by (simp add: tenth_def)
  then show ?case using Suc by (cases "i = Suc k") auto
qed simp

lemma waited_1: "waited 1 = 3602879701896397"
  using waited_step[OF waited.simps(1), of 0 3602879701896397 0 3602879701896397] by (simp add: tenth_def)
lemma waited_2: "waited 2 = 7205759403792794"
  using waited_step[OF waited_1, of 0 7205759403792794 0 7205759403792794] by (simp add: tenth_def del: One_nat_def waited.simps)
lemma waited_3: "waited 3 = 10808639105689192"
  using waited_step[OF waited_2, of 1 5404319552844595 1 10808639105689192] by (simp add: tenth_def del: waited.simps(2))
lemma waited_4: "waited 4 = 14411518807585588"
  using waited_step[OF waited_3, of 1 7205759403792794 1 14411518807585588] by (simp add: tenth_def del: waited.simps(2))
lemma waited_10: "waited 10 = 36028797018963964"
  using waited_stage[of 4 2 3602879701896397 900719925474099 1 900719925474099 6 6] waited_4 by (simp add: tenth_def del: waited.simps(2))
lemma waited_11: "waited 11 = 39631676720860360"
  using waited_step[OF waited_10, of 3 4953959590107545 1 39631676720860360] by (simp add: tenth_def del: waited.simps(2))
lemma waited_19: "waited 19 = 68454714336031560"
  using waited_stage[of 11 3 4953959590107545 450359962737049 5 450359962737050 8 8] waited_11 by (simp add: tenth_def del: waited.simps(2))
lemma waited_20: "waited 20 = 72057594037927952"
  using waited_step[OF waited_19, of 4 4503599627370497 5 72057594037927952] by (simp add: tenth_def del: waited.simps(2))
lemma waited_39: "waited 39 = 140512308373959552"
  using waited_stage[of 20 4 4503599627370497 225179981368524 13 225179981368525 19 19] waited_20 by (simp add: tenth_def del: waited.simps(2))
lemma waited_80: "waited 80 = 288230376151711296"
  using waited_stage[of 39 5 4391009636686236 112589990684262 13 112589990684262 41 41] waited_39 by (simp add: tenth_def del: waited.simps(2))
lemma waited_160: "waited 160 = 576460752303422016"
  using waited_stage[of 80 6 4503599627370489 56294995342131 13 56294995342131 80 80] waited_80 by (simp add: tenth_def del: waited.simps(2))
lemma waited_161: "waited 161 = 580063632005318400"
  using waited_step[OF waited_160, of 7 4531747125041550 13 580063632005318400] by (simp add: tenth_def del: waited.simps(2))
lemma waited_199: "waited 199 = 716973060677383424"
  using waited_stage[of 161 7 4531747125041550 28147497671065 77 28147497671066 38 38] waited_161 by (simp add: tenth_def del: waited.simps(2))
lemma waited_200: "waited 200 = 720575940379279872"
  using waited_stage[of 161 7 4531747125041550 28147497671065 77 28147497671066 39 39] waited_161 by (simp add: tenth_def del: waited.simps(2))
lemma waited_299: "waited 299 = 1077261030867028224"
  using waited_stage[of 161 7 4531747125041550 28147497671065 77 28147497671066 138 138] waited_161 by (simp add: tenth_def del: waited.simps(2))
lemma waited_300: "waited 300 = 1080863910568924672"
  using waited_stage[of 161 7 4531747125041550 28147497671065 77 28147497671066 139 139] waited_161 by (simp add: tenth_def del: waited.simps(2))
lemma waited_319: "waited 319 = 1149318624904957184"
  using waited_stage[of 161 7 4531747125041550 28147497671065 77 28147497671066 158 158] waited_161 by (simp add: tenth_def del: waited.simps(2))
lemma waited_599: "waited 599 = 2158124941435962624"
  using waited_stage[of 319 8 4489525878534989 14073748835532 205 14073748835533 280 280] waited_319 by (simp add: tenth_def del: waited.simps(2))
lemma waited_600: "waited 600 = 2161727821137859072"
  using waited_stage[of 319 8 4489525878534989 14073748835532 205 14073748835533 281 281] waited_319 by (simp add: tenth_def del: waited.simps(2))
section \<open>How long a loop waits\<close>

text \<open>
  A loop looks after every tenth of a second: it is in time exactly when one of the looks before the last
  succeeds, and its number of turns is bounded.
\<close>

definition polled :: "(nat \<Rightarrow> bool) \<Rightarrow> nat \<Rightarrow> nat \<Rightarrow> (bool \<times> nat) option \<Rightarrow> bool" where
  "polled ready maxWaitTime turns r \<longleftrightarrow>
     (\<exists>open w. r = Some (open, w) \<and> (w < maxWaitTime \<longleftrightarrow> (\<exists>i < turns. ready i)) \<and> (w < maxWaitTime \<longrightarrow> open))"

lemma poll_skips:
  assumes "\<forall>i < k. \<not> ready i" "\<forall>i < k. waited i < m"
  shows "poll ready m 0 0 = poll ready m k (waited k)"
  using assms by (induction k) (simp_all add: poll.simps[of ready m "k" "waited k" for k])

lemma poll_polled:
  assumes "\<forall>i < n. waited i < m" "m \<le> waited n"
  shows "polled ready m n (poll ready m 0 0)"
proof (cases "\<exists>i < n. ready i")
  case True
  define k where "k = (LEAST k. ready k)"
  from True obtain i where i: "i < n" "ready i" by blast
  then have k: "ready k" "k \<le> i" by (auto simp: k_def intro: LeastI Least_le)
  moreover have "\<forall>j < k. \<not> ready j" using not_less_Least k_def by blast
  ultimately have "poll ready m 0 0 = Some (True, waited k)"
    using assms(1) i(1) by (subst poll_skips[of k]) (simp_all add: poll.simps)
  then show ?thesis using assms(1) i k by (auto simp: polled_def)
next
  case False
  then have "poll ready m 0 0 = Some (ready n, waited n)"
    using assms by (subst poll_skips[of n]) (simp_all add: poll.simps)
  then show ?thesis using assms(2) False by (auto simp: polled_def)
qed

lemma poll_exact:
  assumes "waited n < m" "m \<le> waited (Suc n)" "n < 1000"
  shows "polled ready m (Suc n) (poll ready m 0 0)"
  using assms waited_mono[of _ n] by (intro poll_polled) (auto simp: less_Suc_eq_le intro: le_less_trans)

lemma poll_20: "polled ready (in_double 20) 200 (poll ready (in_double 20) 0 0)"
  using poll_exact[of 199 "in_double 20"] waited_199 waited_200 by (simp add: in_double_def)

lemma poll_30: "polled ready (in_double 30) 300 (poll ready (in_double 30) 0 0)"
  using poll_exact[of 299 "in_double 30"] waited_299 waited_300 by (simp add: in_double_def)

lemma poll_60: "polled ready (in_double 60) 600 (poll ready (in_double 60) 0 0)"
  using poll_exact[of 599 "in_double 60"] waited_599 waited_600 by (simp add: in_double_def)

end
