(* ===== verification/BrowserVisit.thy ===== *)
theory BrowserVisit
  imports BrowserPool Polling
begin

text \<open>
  The two plug-ins for Internet Explorer (ApplicationPlugins/InternetExplorer and
  InternetExplorerBulk): one visit of an address (InternetExplorerInstance.cpp,
  InternetExplorerInstanceBulk.cpp) with the events of the browser, the code of a group and the
  end of all browsers (Application_InternetExplorer.cpp, Application_InternetExplorerBulk.cpp).
  Windows, COM and the browser answer through arguments. Composed with the workers of \<open>BrowserPool\<close>.
\<close>

abbreviation (input) CAPTURE_VISITATION_NETWORK_ERROR :: u32 where "CAPTURE_VISITATION_NETWORK_ERROR \<equiv> 0x10000110"
abbreviation (input) CAPTURE_VISITATION_PROCESS_ERROR :: u32 where "CAPTURE_VISITATION_PROCESS_ERROR \<equiv> 0x10000111"
abbreviation (input) CAPTURE_VISITATION_TIMEOUT_ERROR :: u32 where "CAPTURE_VISITATION_TIMEOUT_ERROR \<equiv> 0x10000112"
abbreviation (input) CAPTURE_VISITATION_ATTACH_PROCESS_ERROR :: u32 where "CAPTURE_VISITATION_ATTACH_PROCESS_ERROR \<equiv> 0x10000114"
abbreviation (input) CAPTURE_VISITATION_WARNING :: u32 where "CAPTURE_VISITATION_WARNING \<equiv> 0x10000300"
abbreviation (input) CAPTURE_PE_PROCESS_ALREADY_TERMINATED :: u32 where "CAPTURE_PE_PROCESS_ALREADY_TERMINATED \<equiv> 0x10005001"

section \<open>The events of the browser\<close>

text \<open>
  What the browser calls Invoke with: the address of a navigation, the address and the status of an
  error. 283 is handled as the end of a document is.
\<close>

datatype browser_event =
    BeforeNavigate2 "u16 list"
  | NavigateComplete2
  | Dispid283
  | DocumentComplete
  | NavigateError "u16 list" u32
  | OnQuit
  | OtherEvent

text \<open>The event that the visit waits for is set or not; no main address is a null text, which compares as an empty one.\<close>

record ie_instance =
  ie_major :: u32
  ie_minor :: u32
  ie_mainURL :: "u16 list option"
  ie_exited :: bool
  ie_networkErrorCode :: u32
  ie_visiting :: bool

definition Invoke :: "(u16 list \<Rightarrow> u16 list \<Rightarrow> bool) \<Rightarrow> browser_event \<Rightarrow> ie_instance \<Rightarrow> ie_instance" where
  "Invoke VarBstrCmp ev ie =
     (case ev of
        BeforeNavigate2 url \<Rightarrow> (if ie_mainURL ie = None then ie\<lparr>ie_mainURL := Some url\<rparr> else ie)
      | NavigateComplete2 \<Rightarrow> ie
      | Dispid283 \<Rightarrow> ie\<lparr>ie_visiting := True\<rparr>
      | DocumentComplete \<Rightarrow> ie\<lparr>ie_visiting := True\<rparr>
      | NavigateError url status \<Rightarrow>
          (if VarBstrCmp url (case ie_mainURL ie of None \<Rightarrow> [] | Some main \<Rightarrow> main) then
             ie\<lparr>ie_networkErrorCode := status, ie_major := CAPTURE_VISITATION_NETWORK_ERROR, ie_minor := status, ie_visiting := True\<rparr>
           else ie)
      | OnQuit \<Rightarrow> ie\<lparr>ie_exited := True, ie_visiting := True\<rparr>
      | OtherEvent \<Rightarrow> ie)"

section \<open>One visit\<close>

text \<open>
  What a visit is answered: whether a browser is made, whether it has a container and a connection
  point, whether Advise connects the object, the events that arrive until the wait is over and
  the codes are read, and whether the browser could be closed.
\<close>

record ie_env =
  iv_created :: bool
  iv_container :: bool
  iv_connection :: bool
  iv_advised :: bool
  iv_compare :: "u16 list \<Rightarrow> u16 list \<Rightarrow> bool"
  iv_events :: "browser_event list"
  iv_closed :: bool

text \<open>The address with its codes, the milliseconds slept, the browsers and the event handles that are left behind.\<close>

record ie_result =
  ir_url :: Url
  ir_slept :: "u32 option"
  ir_browsers_left :: nat
  ir_handles_left :: nat

definition new_instance :: ie_instance where
  "new_instance = \<lparr>ie_major = 0, ie_minor = 0, ie_mainURL = None, ie_exited = False, ie_networkErrorCode = 0, ie_visiting = False\<rparr>"

definition begin_visit :: "ie_instance \<Rightarrow> ie_instance" where
  "begin_visit ie = ie\<lparr>ie_visiting := False, ie_networkErrorCode := 0, ie_major := CAPTURE_VISITATION_OK, ie_mainURL := None, ie_exited := False\<rparr>"

definition browse :: "'a ie_env_scheme \<Rightarrow> ie_instance \<Rightarrow> ie_instance" where
  "browse env ie = (if iv_advised env then fold (Invoke (iv_compare env)) (iv_events env) ie else ie)"

text \<open>From the wait to the end of the sleep, the same in both plug-ins.\<close>

definition after_wait :: "ie_instance \<Rightarrow> Url \<Rightarrow> Url \<times> bool" where
  "after_wait ie url =
     (if \<not> ie_visiting ie then (url\<lparr>u_majorErrorCode := CAPTURE_VISITATION_TIMEOUT_ERROR\<rparr>, False)
      else
        let url = url\<lparr>u_majorErrorCode := ie_major ie, u_minorErrorCode := ie_minor ie\<rparr>
        in if 0x800C0000 \<le> ie_minor ie \<and> ie_minor ie \<le> 0x800CFFFF then (url, False) else (url\<lparr>u_visited := True\<rparr>, True))"

definition sleep_time :: "Url \<Rightarrow> bool \<Rightarrow> u32 option" where
  "sleep_time url wait = (if wait then Some (of_int (u_visitTime url * 1000)) else None)"

definition close_code :: "bool \<Rightarrow> Url \<Rightarrow> Url" where
  "close_code closed url =
     (if \<not> closed then
        url\<lparr>u_majorErrorCode := CAPTURE_VISITATION_WARNING, u_minorErrorCode := CAPTURE_PE_PROCESS_ALREADY_TERMINATED\<rparr>
      else url)"

definition visitUrl :: "ie_env \<Rightarrow> ie_instance \<Rightarrow> Url \<Rightarrow> ie_result" where
  "visitUrl env ie url =
     (if iv_created env then
        if iv_container env \<and> iv_connection env then
          let (url, wait) = after_wait (browse env (begin_visit ie)) url
          in \<lparr>ir_url = close_code (iv_closed env) url, ir_slept = sleep_time url wait,
              ir_browsers_left = of_bool (\<not> iv_closed env), ir_handles_left = 0\<rparr>
        else \<lparr>ir_url = url, ir_slept = None, ir_browsers_left = 1, ir_handles_left = 1\<rparr>
      else \<lparr>ir_url = url\<lparr>u_majorErrorCode := CAPTURE_VISITATION_PROCESS_ERROR\<rparr>, ir_slept = None,
            ir_browsers_left = 0, ir_handles_left = 1\<rparr>)"

section \<open>One visit of the bulk plug-in\<close>

text \<open>
  The windows of the shell: an item throws, is no browser, or is the browser of a process. The
  object keeps the interface it finds.
\<close>

datatype shell_item = Throws | NoBrowser | BrowserOf u32

fun find_browser :: "u32 \<Rightarrow> shell_item list \<Rightarrow> bool" where
  "find_browser processId [] = False"
| "find_browser processId (Throws # items) = False"
| "find_browser processId (NoBrowser # items) = find_browser processId items"
| "find_browser processId (BrowserOf p # items) = (p = processId \<or> find_browser processId items)"

text \<open>None: CreateInstance fails.\<close>

definition setCurrentWebBrowserIF :: "u32 \<Rightarrow> shell_item list option \<Rightarrow> bool" where
  "setCurrentWebBrowserIF processId shell = (case shell of None \<Rightarrow> False | Some items \<Rightarrow> find_browser processId items)"

text \<open>What Windows answers at one look: the processes (None: EnumProcesses fails), the windows of the shell.\<close>

record look =
  lk_processes :: "u32 list option"
  lk_shell :: "shell_item list option"

definition bulk_isOpen :: "u32 \<Rightarrow> look \<Rightarrow> bool" where
  "bulk_isOpen processId lk =
     (case lk_processes lk of
        None \<Rightarrow> False
      | Some ps \<Rightarrow> (\<exists>p \<in> set ps. p \<noteq> 0 \<and> p = processId \<and> setCurrentWebBrowserIF processId (lk_shell lk)))"

record bulk_env = ie_env +
  bv_create :: "u32 + u32"
  bv_look :: "nat \<Rightarrow> look"

text \<open>executeProcess: the error, or the id of the process. CreateProcess answers with an error or an id.\<close>

definition bulk_executeProcess :: "bulk_env \<Rightarrow> (u32 \<times> u32) option" where
  "bulk_executeProcess env =
     (case bv_create env of
        Inl lastError \<Rightarrow> Some (lastError, 0)
      | Inr processId \<Rightarrow>
          map_option (\<lambda>(open, waitTimeInSec). (if in_double 20 \<le> waitTimeInSec then - 5 else 0, processId))
            (poll (\<lambda>k. bulk_isOpen processId (bv_look env k)) (in_double 20) 0 0))"

text \<open>With no browser the call of QueryInterface is through a null pointer.\<close>

definition bulk_visitUrl :: "bulk_env \<Rightarrow> ie_instance \<Rightarrow> Url \<Rightarrow> (fault + ie_result) option" where
  "bulk_visitUrl env ie url =
     map_option (\<lambda>(iReturnVal, processId).
       if iReturnVal = 0 then
         if bv_create env = Inl 0 then Inl NullDeref
         else if iv_container env then
           if iv_connection env then
             let (url, wait) = after_wait (browse env (begin_visit ie)) url; url = url\<lparr>u_processId := processId\<rparr>
             in Inr \<lparr>ir_url = close_code (iv_closed env) url, ir_slept = sleep_time url wait,
                  ir_browsers_left = of_bool (\<not> iv_closed env), ir_handles_left = 0\<rparr>
           else Inr \<lparr>ir_url = url, ir_slept = None, ir_browsers_left = 1, ir_handles_left = 0\<rparr>
         else Inr \<lparr>ir_url = url\<lparr>u_majorErrorCode := CAPTURE_VISITATION_ATTACH_PROCESS_ERROR\<rparr>, ir_slept = None,
                ir_browsers_left = 1, ir_handles_left = 0\<rparr>
       else Inr \<lparr>ir_url = url\<lparr>u_majorErrorCode := CAPTURE_VISITATION_PROCESS_ERROR\<rparr>, ir_slept = None,
              ir_browsers_left = of_bool (isl (bv_create env) = False), ir_handles_left = 0\<rparr>) (bulk_executeProcess env)"

section \<open>The end of a group\<close>

text \<open>The last part of a path, and wcsicmp, which does not look at the case.\<close>

definition exe_name :: "u16 list \<Rightarrow> u16 list" where
  "exe_name path = (case find_last 0x5C path of None \<Rightarrow> path | Some i \<Rightarrow> drop (i + 1) path)"

definition same_name :: "u16 list \<Rightarrow> u16 list \<Rightarrow> bool" where
  "same_name a b \<longleftrightarrow> lower_case a = lower_case b"

definition iexplore :: "u16 list" where
  "iexplore = wide ''c:'' @ 0x5C # wide ''Program Files'' @ 0x5C # wide ''Internet Explorer'' @ 0x5C # wide ''iexplore.exe''"

text \<open>A process with the name that can be found out, and the error when it cannot be terminated.\<close>

record process_answer =
  pa_id :: u32
  pa_name :: "u16 list option"
  pa_error :: "u32 option"

definition compareName :: "process_answer \<Rightarrow> u16 list \<Rightarrow> bool" where
  "compareName p processName \<longleftrightarrow> same_name (case pa_name p of None \<Rightarrow> wide ''<unknown>'' | Some name \<Rightarrow> name) processName"

text \<open>The return value so far, and the processes that were told to end.\<close>

fun close_processes :: "u16 list \<Rightarrow> process_answer list \<Rightarrow> u32 \<times> u32 list \<Rightarrow> u32 \<times> u32 list" where
  "close_processes path [] r = r"
| "close_processes path (p # ps) (iReturnVal, told) =
     close_processes path ps
       (if pa_id p \<noteq> 0 \<and> compareName p (exe_name path) then
          ((case pa_error p of None \<Rightarrow> iReturnVal | Some e \<Rightarrow> e), told @ [pa_id p])
        else (iReturnVal, told))"

text \<open>
  The browser that is made to find the process of all of them: its process, whether it can be opened, and the
  error of its end. EnumProcesses fails or not; the list is what is found in the array.
\<close>

record close_env =
  ce_fake :: "(u32 \<times> bool \<times> u32 option) option"
  ce_enumerated :: bool
  ce_processes :: "process_answer list"

definition bulk_closeAllInternetExplorers :: "close_env \<Rightarrow> u32 \<times> u32 list \<Rightarrow> u32 \<times> u32 list" where
  "bulk_closeAllInternetExplorers env r =
     close_processes iexplore (ce_processes env) (if ce_enumerated env then fst r else - 1, snd r)"

definition closeAllInternetExplorers :: "close_env \<Rightarrow> u32 \<times> u32 list" where
  "closeAllInternetExplorers env =
     bulk_closeAllInternetExplorers env
       (case ce_fake env of
          Some (processId, True, e) \<Rightarrow> ((case e of None \<Rightarrow> 0 | Some lastError \<Rightarrow> lastError), [processId])
        | _ \<Rightarrow> (0, []))"

definition end_group :: "u32 \<Rightarrow> VisitEvent \<Rightarrow> VisitEvent" where
  "end_group errorCode v =
     (let v = fold (\<lambda>u v. setErrorCode v (u_majorErrorCode u)) (ve_urls v) v
      in if errorCode \<noteq> 0 then setErrorCode v CAPTURE_VISITATION_WARNING else v)"

text \<open>
  The workers visit the addresses in some order; each is an object of its own. \<open>visits\<close> is what a visit makes of
  an address. None: visitGroup is not through yet.
\<close>

definition visit_all :: "(nat \<Rightarrow> Url \<Rightarrow> Url) \<Rightarrow> nat list \<Rightarrow> Url list \<Rightarrow> Url list" where
  "visit_all visits order urls = fold (\<lambda>k us. us[k := visits k (us ! k)]) order urls"

definition visitGroup :: "nat \<Rightarrow> pool_op list \<Rightarrow> pool \<Rightarrow> (nat \<Rightarrow> Url \<Rightarrow> Url) \<Rightarrow> u32 \<Rightarrow> VisitEvent \<Rightarrow> (VisitEvent \<times> pool) option" where
  "visitGroup m ops p visits errorCode v =
     (let q = pool_steps m ops (begin_group (length (ve_urls v)) p)
      in if po_group q = GroupDone then
           Some (end_group errorCode (v\<lparr>ve_urls := visit_all visits (po_visits q) (ve_urls v)\<rparr>), q)
         else None)"

section \<open>What comes out of a visit\<close>

text \<open>The errors of the main address.\<close>

definition main_errors :: "(u16 list \<Rightarrow> u16 list \<Rightarrow> bool) \<Rightarrow> u16 list \<Rightarrow> browser_event list \<Rightarrow> u32 list" where
  "main_errors cmp main evs = [status. NavigateError url status \<leftarrow> evs, cmp url main]"

definition browser_ends :: "(u16 list \<Rightarrow> u16 list \<Rightarrow> bool) \<Rightarrow> u16 list \<Rightarrow> browser_event list \<Rightarrow> bool" where
  "browser_ends cmp main evs \<longleftrightarrow> main_errors cmp main evs \<noteq> [] \<or> DocumentComplete \<in> set evs \<or> Dispid283 \<in> set evs \<or> OnQuit \<in> set evs"

lemma main_errors_simps [simp]:
  "main_errors cmp main [] = []"
  "main_errors cmp main (ev # evs) =
     (case ev of NavigateError url status \<Rightarrow> (if cmp url main then status # main_errors cmp main evs else main_errors cmp main evs)
      | _ \<Rightarrow> main_errors cmp main evs)"
  by (auto simp: main_errors_def split: browser_event.splits)

lemma fold_Invoke:
  assumes "ie_mainURL ie = Some main"
  shows "ie_visiting (fold (Invoke cmp) evs ie) = (ie_visiting ie \<or> browser_ends cmp main evs) \<and>
     (ie_major (fold (Invoke cmp) evs ie), ie_minor (fold (Invoke cmp) evs ie)) =
       (if main_errors cmp main evs = [] then (ie_major ie, ie_minor ie)
        else (CAPTURE_VISITATION_NETWORK_ERROR, last (main_errors cmp main evs)))"
  using assms
proof (induction evs arbitrary: ie)
  case (Cons ev evs)
  have "ie_mainURL (Invoke cmp ev ie) = Some main" using Cons.prems by (cases ev) (simp_all add: Invoke_def)
  from Cons.IH[OF this] Cons.prems show ?case
    by (cases ev) (auto simp: Invoke_def browser_ends_def)
qed (simp add: browser_ends_def)

text \<open>The two statuses between which the visit does not count.\<close>

definition inet_error :: "u32 \<Rightarrow> bool" where
  "inet_error status \<longleftrightarrow> 0x800C0000 \<le> status \<and> status \<le> 0x800CFFFF"

definition visit_outcome :: "(u16 list \<Rightarrow> u16 list \<Rightarrow> bool) \<Rightarrow> u16 list \<Rightarrow> browser_event list \<Rightarrow> Url \<Rightarrow> Url" where
  "visit_outcome cmp main evs url =
     (if \<not> browser_ends cmp main evs then url\<lparr>u_majorErrorCode := CAPTURE_VISITATION_TIMEOUT_ERROR\<rparr>
      else case rev (main_errors cmp main evs) of
        [] \<Rightarrow> url\<lparr>u_visited := True, u_majorErrorCode := CAPTURE_VISITATION_OK, u_minorErrorCode := 0\<rparr>
      | status # _ \<Rightarrow> url\<lparr>u_visited := (u_visited url \<or> \<not> inet_error status),
          u_majorErrorCode := CAPTURE_VISITATION_NETWORK_ERROR, u_minorErrorCode := status\<rparr>)"

lemma after_wait_outcome:
  assumes "iv_advised env" "iv_events env = BeforeNavigate2 main # evs"
  shows "fst (after_wait (browse env (begin_visit new_instance)) url) = visit_outcome (iv_compare env) main evs url"
proof -
  let ?ie = "begin_visit new_instance\<lparr>ie_mainURL := Some main\<rparr>"
  have "browse env (begin_visit new_instance) = fold (Invoke (iv_compare env)) evs ?ie"
    using assms by (simp add: browse_def Invoke_def begin_visit_def)
  moreover have "ie_mainURL ?ie = Some main" "ie_major ?ie = 0" "ie_minor ?ie = 0" "\<not> ie_visiting ?ie"
    by (simp_all add: begin_visit_def new_instance_def)
  ultimately show ?thesis
    using fold_Invoke[of ?ie main "iv_compare env" evs]
    by (cases "main_errors (iv_compare env) main evs" rule: rev_cases)
       (auto simp: after_wait_def visit_outcome_def Let_def inet_error_def)
qed

text \<open>
  C11: What a visit says about its address, when the browser could be attached to: a time-out when
  none of the ends arrived, the last network error of the main address (errors of its frames do not
  count), and no error otherwise. The address counts as visited except after a time-out or an error
  of the internet functions. A browser that cannot be closed hides all of that behind a
  warning.
\<close>

theorem visit_tells:
  assumes "iv_created env" "iv_container env" "iv_connection env" "iv_advised env" "iv_events env = BeforeNavigate2 main # evs"
  shows "ir_url (visitUrl env new_instance url) =
     (let after = visit_outcome (iv_compare env) main evs url
      in if iv_closed env then after
         else after\<lparr>u_majorErrorCode := CAPTURE_VISITATION_WARNING, u_minorErrorCode := CAPTURE_PE_PROCESS_ALREADY_TERMINATED\<rparr>)"
  using after_wait_outcome[OF assms(4,5), of url] assms(1-3)
  by (cases "after_wait (browse env (begin_visit new_instance)) url") (simp add: visitUrl_def close_code_def Let_def)

definition example_ie_env :: ie_env where
  "example_ie_env = \<lparr>iv_created = True, iv_container = True, iv_connection = True, iv_advised = True, iv_compare = (=),
     iv_events = [BeforeNavigate2 (wide ''http://a''), BeforeNavigate2 (wide ''http://ad''),
       NavigateError (wide ''http://ad'') 404, NavigateError (wide ''http://a'') 0x800C0005], iv_closed = True\<rparr>"

theorem visit_tells_witness:
  "ir_url (visitUrl example_ie_env new_instance (new_Url (wide ''http://a'') [] 5)) =
     (new_Url (wide ''http://a'') [] 5)\<lparr>u_majorErrorCode := CAPTURE_VISITATION_NETWORK_ERROR, u_minorErrorCode := 0x800C0005\<rparr>"
proof -
  have n: "wide ''http://ad'' \<noteq> wide ''http://a''" by code_simp
  show ?thesis
    by (subst visit_tells[of _ "wide ''http://a''" "tl (iv_events example_ie_env)"])
       (simp_all add: example_ie_env_def visit_outcome_def browser_ends_def inet_error_def new_Url_def n)
qed

text \<open>
  A browser that has no connection point for its events leaves the address as it is, without an error,
  and stays open; so it counts neither as visited nor as failed.
\<close>

theorem unattached_without_error:
  assumes "iv_created env" "\<not> (iv_container env \<and> iv_connection env)"
  shows "ir_url (visitUrl env ie url) = url \<and> ir_browsers_left (visitUrl env ie url) = 1 \<and> ir_handles_left (visitUrl env ie url) = 1"
  using assms by (auto simp: visitUrl_def)

theorem unattached_without_error_witness:
  "ir_url (visitUrl (example_ie_env\<lparr>iv_container := False\<rparr>) new_instance (new_Url [] [] 5)) = new_Url [] [] 5"
  using unattached_without_error[of "example_ie_env\<lparr>iv_container := False\<rparr>" new_instance "new_Url [] [] 5"]
  by (simp add: example_ie_env_def)


definition example_bulk_env :: bulk_env where
  "example_bulk_env = ie_env.extend (example_ie_env\<lparr>iv_events := [BeforeNavigate2 [], DocumentComplete]\<rparr>)
     \<lparr>bv_create = Inr 7, bv_look = (\<lambda>k. \<lparr>lk_processes = Some [4, 7], lk_shell = (if k < 3 then None else Some [NoBrowser, BrowserOf 7])\<rparr>)\<rparr>"


section \<open>What comes out of a group\<close>

text \<open>The code of a group: no error, the only error when nothing comes after it, or several.\<close>

definition group_code :: "u32 list \<Rightarrow> u32" where
  "group_code codes =
     (case dropWhile (\<lambda>e. e = 0) codes of [] \<Rightarrow> CAPTURE_VISITATION_OK | [e] \<Rightarrow> e | _ \<Rightarrow> CAPTURE_VISITATION_MULTIPLE_ERRORS)"

lemma fold_error_stays:
  "ve_errorCode v \<noteq> 0 \<Longrightarrow> ve_errorCode (fold (\<lambda>e v. setErrorCode v e) es v) = (if es = [] then ve_errorCode v else 0x10000113)"
  by (induction es arbitrary: v) (simp_all add: setErrorCode_def)

lemma fold_error_code:
  "ve_errorCode v = 0 \<Longrightarrow> ve_errorCode (fold (\<lambda>e v. setErrorCode v e) es v) = group_code es"
proof (induction es arbitrary: v)
  case (Cons e es)
  show ?case
  proof (cases "e = 0")
    case True
    then show ?thesis using Cons by (simp add: group_code_def setErrorCode_def)
  next
    case False
    then show ?thesis
      using fold_error_stays[of "setErrorCode v e" es] Cons.prems by (simp add: group_code_def setErrorCode_def split: list.split)
  qed
qed (simp add: group_code_def)

lemma end_group_code:
  assumes "ve_errorCode v = 0"
  shows "ve_errorCode (end_group errorCode v) =
     group_code (map u_majorErrorCode (ve_urls v) @ (if errorCode = 0 then [] else [CAPTURE_VISITATION_WARNING]))"
  using fold_error_code[OF assms, of "map u_majorErrorCode (ve_urls v) @ (if errorCode = 0 then [] else [CAPTURE_VISITATION_WARNING])"]
  by (cases "errorCode = 0") (simp_all add: end_group_def Let_def fold_map comp_def)

lemma end_group_urls [simp]: "ve_urls (end_group errorCode v) = ve_urls v"
proof -
  have s: "ve_urls (setErrorCode v e) = ve_urls v" for v e by (simp add: setErrorCode_def)
  have "ve_urls (fold (\<lambda>u v. setErrorCode v (u_majorErrorCode u)) us v) = ve_urls v" for us :: "Url list"
    by (induction us arbitrary: v) (simp_all add: s)
  then show ?thesis by (simp add: end_group_def Let_def s)
qed

lemma visit_all_nth:
  assumes "distinct order" "\<forall>k \<in> set order. k < length urls"
  shows "length (visit_all visits order urls) = length urls \<and>
     (\<forall>i < length urls. visit_all visits order urls ! i = (if i \<in> set order then visits i (urls ! i) else urls ! i))"
  using assms
proof (induction order arbitrary: urls)
  case (Cons k order)
  from Cons.IH[of "urls[k := visits k (urls ! k)]"] Cons.prems show ?case
    by (auto simp: visit_all_def nth_list_update)
qed (simp add: visit_all_def)

text \<open>
  C12: A group that is through: in whatever order the workers took its addresses, each has
  what a single visit makes of it, the workers are at rest for the next group, and the
  event has the code of the group: its only error when the addresses after it and the end of the
  browsers bring nothing at all, so that a success after an error counts as several errors.
\<close>

theorem browser_group_tells:
  assumes "at_rest m p" "visitGroup m ops p visits errorCode v = Some (v', q)" "ve_errorCode v = CAPTURE_VISITATION_OK"
  shows "ve_urls v' = map (\<lambda>k. visits k (ve_urls v ! k)) [0..<length (ve_urls v)] \<and> at_rest m q \<and>
     ve_errorCode v' = group_code (map u_majorErrorCode (ve_urls v') @ (if errorCode = 0 then [] else [CAPTURE_VISITATION_WARNING]))"
proof -
  let ?n = "length (ve_urls v)"
  from assms(2) have q: "q = pool_steps m ops (begin_group ?n p)" "po_group q = GroupDone"
    and v': "v' = end_group errorCode (v\<lparr>ve_urls := visit_all visits (po_visits q) (ve_urls v)\<rparr>)"
    by (auto simp: visitGroup_def Let_def split: if_splits)
  from group_visits[OF assms(1) q] have o: "distinct (po_visits q)" "set (po_visits q) = {0..<?n}" "at_rest m q" by simp_all
  then have "visit_all visits (po_visits q) (ve_urls v) = map (\<lambda>k. visits k (ve_urls v ! k)) [0..<?n]"
    using visit_all_nth[of "po_visits q" "ve_urls v" visits] by (intro nth_equalityI) auto
  then show ?thesis using v' o(3) assms(3) end_group_code[of "v\<lparr>ve_urls := visit_all visits (po_visits q) (ve_urls v)\<rparr>" errorCode] by simp
qed

theorem browser_group_tells_witness:
  "\<exists>v' q. visitGroup 2 example_group new_pool (\<lambda>_ u. u\<lparr>u_majorErrorCode := 0x10000112\<rparr>) 0 (addUrl new_VisitEvent (new_Url [] [] 5)) = Some (v', q) \<and>
     ve_errorCode v' = CAPTURE_VISITATION_TIMEOUT_ERROR"
proof -
  let ?v = "addUrl new_VisitEvent (new_Url [] [] 5)" let ?f = "\<lambda>_ u. u\<lparr>u_majorErrorCode := 0x10000112\<rparr> :: Url"
  have u: "length (ve_urls ?v) = 1" "ve_errorCode ?v = 0" by (simp_all add: addUrl_def new_VisitEvent_def)
  have "po_group (pool_steps 2 example_group (begin_group 1 new_pool)) = GroupDone"
    by (simp add: example_group_def begin_group_def group_loop_def new_pool_def group_turn_def give_def worker_turn_def wait_any_def
        numeral_2_eq_2)
  then obtain v' q where r: "visitGroup 2 example_group new_pool ?f 0 ?v = Some (v', q)"
    using u by (simp add: visitGroup_def Let_def)
  from browser_group_tells[OF new_pool_at_rest this u(2)] u(1) r show ?thesis by (auto simp: group_code_def)
qed

section \<open>The end of all browsers\<close>

text \<open>The processes that are found with the name of the browser.\<close>

definition left_over :: "u16 list \<Rightarrow> process_answer \<Rightarrow> bool" where
  "left_over path p \<longleftrightarrow> pa_id p \<noteq> 0 \<and> compareName p (exe_name path)"

lemma close_processes_all:
  "snd (close_processes path ps r) = snd r @ map pa_id (filter (left_over path) ps) \<and>
   fst (close_processes path ps r) = last (fst r # [e. Some e \<leftarrow> map pa_error (filter (left_over path) ps)])"
proof (induction ps arbitrary: r)
  case (Cons p ps)
  then show ?case by (cases r; cases "pa_error p") (auto simp: left_over_def)
qed simp

text \<open>
  When the processes can be listed, the end of a group tells every process with the name of the
  browser to end, in the order of the list and whatever started it, and answers with 0 exactly
  when all of them could be.
\<close>

lemma all_browsers_told:
  assumes "ce_enumerated env" "\<forall>p \<in> set (ce_processes env). pa_error p \<noteq> Some 0"
  shows "snd (bulk_closeAllInternetExplorers env (0, [])) = map pa_id (filter (left_over iexplore) (ce_processes env)) \<and>
     (fst (bulk_closeAllInternetExplorers env (0, [])) = 0 \<longleftrightarrow> (\<forall>p \<in> set (ce_processes env). left_over iexplore p \<longrightarrow> pa_error p = None))"
proof -
  have l: "last (0 # [e. Some e \<leftarrow> map pa_error qs]) = 0 \<longleftrightarrow> (\<forall>p \<in> set qs. pa_error p = None)"
    if "\<forall>p \<in> set qs. pa_error p \<noteq> Some (0 :: u32)" for qs :: "process_answer list"
    using that
  proof (induction qs rule: rev_induct)
    case (snoc p qs)
    then show ?case by (cases "pa_error p") auto
  qed simp
  show ?thesis
    using l[of "filter (left_over iexplore) (ce_processes env)"] assms
    by (auto simp: bulk_closeAllInternetExplorers_def close_processes_all)
qed

end
