(* ===== verification/ConfigClient.thy ===== *)
theory ConfigClient
  imports BrowserVisit
begin

text \<open>
  The plug-in for the programs of Applications.conf (ApplicationPlugins/ClientConfigParser): the list
  of the programs and the visit of a group (Application_ClientConfigManager.cpp), the process of
  a program (ProcessHandler.cpp) and the download of a file for it (FileDownloader.cpp). Windows
  answers through arguments.
\<close>

section \<open>The list of the programs\<close>

record application =
  ap_name :: "u16 list"
  ap_path :: "u16 list"
  ap_downloadURL :: bool

definition config_line :: "u16 list \<Rightarrow> application option" where
  "config_line line =
     (case line of
        [] \<Rightarrow> None
      | c # _ \<Rightarrow>
          if c = 0x23 then None
          else (case split_at 9 line of
                  [name, path] \<Rightarrow> Some \<lparr>ap_name = name, ap_path = path, ap_downloadURL = False\<rparr>
                | [name, path, download] \<Rightarrow> Some \<lparr>ap_name = name, ap_path = path, ap_downloadURL = download = wide ''yes''\<rparr>
                | name # path # _ # _ \<Rightarrow> Some \<lparr>ap_name = name, ap_path = path, ap_downloadURL = False\<rparr>
                | _ \<Rightarrow> None))"

type_synonym applications = "(u16 list \<times> application) list"

definition insert_application :: "application \<Rightarrow> applications \<Rightarrow> applications" where
  "insert_application a apps = (if map_of apps (ap_name a) = None then apps @ [(ap_name a, a)] else apps)"

text \<open>None: the file cannot be opened. The order of the hash map is not that of the list; it shows only in supportedApplications.\<close>

definition loadApplicationsList :: "u16 list option \<Rightarrow> applications" where
  "loadApplicationsList config =
     (case config of
        None \<Rightarrow> []
      | Some content \<Rightarrow>
          fold (\<lambda>line apps. case config_line line of None \<Rightarrow> apps | Some a \<Rightarrow> insert_application a apps) (split_at 0x0A content) [])"

definition supportedApplications :: "applications \<Rightarrow> u16 list list" where
  "supportedApplications apps = map fst apps"

section \<open>The process of a program\<close>

record handler =
  ph_fullPathToExe :: "u16 list"
  ph_parameters :: "u16 list"
  ph_processId :: u32

definition new_handler :: "u16 list \<Rightarrow> u16 list \<Rightarrow> handler" where
  "new_handler fullPathToExe parameters =
     \<lparr>ph_fullPathToExe = fullPathToExe,
      ph_parameters = exe_name fullPathToExe @ (case parameters of [] \<Rightarrow> [] | c # _ \<Rightarrow> if c \<noteq> 0x20 then 0x20 # parameters else parameters),
      ph_processId = 0\<rparr>"

text \<open>CreateProcess: an error, or the id of the process.\<close>

definition executeProcess :: "u32 + u32 \<Rightarrow> handler \<Rightarrow> u32 \<times> handler" where
  "executeProcess created ph =
     (case created of Inl lastError \<Rightarrow> (lastError, ph) | Inr processId \<Rightarrow> (0, ph\<lparr>ph_processId := processId\<rparr>))"

text \<open>None: EnumProcesses fails.\<close>

definition isOpen :: "handler \<Rightarrow> process_answer list option \<Rightarrow> bool" where
  "isOpen ph processes =
     (case processes of
        None \<Rightarrow> False
      | Some ps \<Rightarrow> (\<exists>p \<in> set ps. pa_id p \<noteq> 0 \<and> compareName p (exe_name (ph_fullPathToExe ph))))"

text \<open>
  What is answered when a process is closed: whether its own handle can be terminated, whether the processes can be
  listed, and what the array holds. The return value, and the processes that are told to end.
\<close>

record closing =
  cl_error :: "u32 option"
  cl_enumerated :: bool
  cl_processes :: "process_answer list"

definition closeProcess :: "closing \<Rightarrow> handler \<Rightarrow> u32 \<times> u32 list" where
  "closeProcess env ph =
     (let iReturnVal = (case cl_error env of None \<Rightarrow> 0 | Some lastError \<Rightarrow> lastError)
      in close_processes (ph_fullPathToExe ph) (cl_processes env)
           (if cl_enumerated env then iReturnVal else - 1, [ph_processId ph]))"

section \<open>Downloading\<close>

datatype progress = DownloadingData | EndDownloadData | OtherProgress

record downloader =
  hDownloaded :: bool
  hConnected :: bool
  bDownloading :: bool

definition OnProgress :: "progress \<Rightarrow> downloader \<Rightarrow> downloader" where
  "OnProgress status d =
     (case status of
        DownloadingData \<Rightarrow> (if \<not> bDownloading d then d\<lparr>bDownloading := True, hConnected := True\<rparr> else d)
      | EndDownloadData \<Rightarrow>
          (if \<not> bDownloading d then d\<lparr>bDownloading := True, hConnected := True\<rparr> else d)\<lparr>hDownloaded := True\<rparr>
      | OtherProgress \<Rightarrow> d)"

definition CAPTURE_NE_CONNECT_ERROR_DL_TEMP_FILE :: u32 where "CAPTURE_NE_CONNECT_ERROR_DL_TEMP_FILE = 0x10005001"
definition CAPTURE_NE_CANT_DOWNLOAD_TEMP_FILE :: u32 where "CAPTURE_NE_CANT_DOWNLOAD_TEMP_FILE = 0x10005000"

text \<open>
  What arrives until the first wait is over and from then until the second is. The events reset
  themselves; substr throws when there is no extension. The answer and the file.
\<close>

definition Download :: "u16 list \<Rightarrow> progress list \<times> progress list \<Rightarrow> u16 list \<Rightarrow> fault + u32 \<times> u16 list" where
  "Download temp arrives what =
     (case find_last 0x2E what of
        None \<Rightarrow> Inl Uncaught
      | Some i \<Rightarrow>
          let toFile = temp @ wide ''tempFile'' @ drop i what;
              d = fold OnProgress (fst arrives) \<lparr>hDownloaded = False, hConnected = False, bDownloading = False\<rparr>
          in if \<not> hConnected d then Inr (CAPTURE_NE_CONNECT_ERROR_DL_TEMP_FILE, toFile)
             else if \<not> hDownloaded (fold OnProgress (snd arrives) (d\<lparr>hConnected := False\<rparr>)) then Inr (CAPTURE_NE_CANT_DOWNLOAD_TEMP_FILE, toFile)
             else Inr (0, toFile))"

section \<open>Visiting a group\<close>

text \<open>
  What is answered for each address, and at each look at its processes: while it is opened, and
  after it is closed. \<open>cv_temp\<close> is the full path of the directory for the files.
\<close>

record config_env =
  cv_temp :: "u16 list"
  cv_arrives :: "nat \<Rightarrow> progress list \<times> progress list"
  cv_created :: "nat \<Rightarrow> u32 + u32"
  cv_opening :: "nat \<Rightarrow> nat \<Rightarrow> process_answer list option"
  cv_lastError :: "nat \<Rightarrow> u32"
  cv_close :: "nat \<Rightarrow> closing"
  cv_closing :: "nat \<Rightarrow> nat \<Rightarrow> process_answer list option"

record config_visit =
  cs_event :: VisitEvent
  cs_handlers :: "nat \<Rightarrow> handler option"
  cs_error :: bool
  cs_slept :: "u32 list"
  cs_told :: "u32 list"

definition set_url :: "nat \<Rightarrow> (Url \<Rightarrow> Url) \<Rightarrow> config_visit \<Rightarrow> config_visit" where
  "set_url i f s = s\<lparr>cs_event := (cs_event s)\<lparr>ve_urls := (ve_urls (cs_event s))[i := f (ve_urls (cs_event s) ! i)]\<rparr>\<rparr>"

definition set_error :: "u32 \<Rightarrow> config_visit \<Rightarrow> config_visit" where
  "set_error e s = s\<lparr>cs_event := setErrorCode (cs_event s) e\<rparr>"

text \<open>The file that is opened, or the status of a download that failed.\<close>

definition fetch :: "config_env \<Rightarrow> application \<Rightarrow> nat \<Rightarrow> u16 list \<Rightarrow> fault + u32 \<times> u16 list" where
  "fetch env app i url =
     (if ap_downloadURL app then
        if find_last 0x2F url = None then Inl Uncaught else Download (cv_temp env) (cv_arrives env i) url
      else Inr (0, url))"

definition open_url :: "config_env \<Rightarrow> application \<Rightarrow> nat \<Rightarrow> config_visit \<Rightarrow> (fault + config_visit) option" where
  "open_url env app i s =
     rbind (Some (fetch env app i (u_url (ve_urls (cs_event s) ! i)))) (\<lambda>(downloadStatus, url_path).
     if 0 < downloadStatus then
       Some (Inr (set_url i (\<lambda>u. u\<lparr>u_majorErrorCode := CAPTURE_VISITATION_NETWORK_ERROR, u_minorErrorCode := downloadStatus\<rparr>)
                    (set_error CAPTURE_VISITATION_NETWORK_ERROR s)))
     else
       let ph = snd (executeProcess (cv_created env i) (new_handler (ap_path app) url_path));
           s = set_url i (\<lambda>u. u\<lparr>u_processId := ph_processId ph\<rparr>) (s\<lparr>cs_handlers := (cs_handlers s)(i := Some ph)\<rparr>);
           s = (if i = 0 then s\<lparr>cs_slept := cs_slept s @ [2000]\<rparr> else s)
       in map_option (\<lambda>(_, waitTimeInSec). Inr
            (if in_double 60 \<le> waitTimeInSec then
               (set_url i (\<lambda>u. u\<lparr>u_majorErrorCode := CAPTURE_VISITATION_PROCESS_ERROR, u_minorErrorCode := cv_lastError env i\<rparr>)
                  (set_error CAPTURE_VISITATION_PROCESS_ERROR s))\<lparr>cs_error := True\<rparr>
             else s))
          (poll (\<lambda>k. isOpen ph (cv_opening env i k)) (in_double 60) 0 0))"

text \<open>The sleep takes the time of the first address.\<close>

definition sleep_all :: "config_visit \<Rightarrow> fault + config_visit" where
  "sleep_all s =
     (if cs_error s then Inr s
      else case ve_urls (cs_event s) of
        [] \<Rightarrow> Inl OutOfBounds
      | u # _ \<Rightarrow> Inr (s\<lparr>cs_slept := cs_slept s @ [of_int (u_visitTime u * 1000)]\<rparr>))"

definition close_url :: "config_env \<Rightarrow> nat \<Rightarrow> config_visit \<Rightarrow> (fault + config_visit) option" where
  "close_url env i s =
     (case cs_handlers s i of
        None \<Rightarrow> Some (Inl NullDeref)
      | Some ph \<Rightarrow>
          let s = s\<lparr>cs_told := cs_told s @ snd (closeProcess (cv_close env i) ph)\<rparr>
          in map_option (\<lambda>(_, waitTimeInSec). Inr
               (if in_double 30 \<le> waitTimeInSec then
                  set_url i (\<lambda>u. u\<lparr>u_majorErrorCode := CAPTURE_VISITATION_PROCESS_ERROR, u_minorErrorCode := 0\<rparr>)
                    (set_error CAPTURE_VISITATION_PROCESS_ERROR s)
                else s))
             (poll (\<lambda>k. \<not> isOpen ph (cv_closing env i k)) (in_double 30) 0 0))"

definition new_visit :: "VisitEvent \<Rightarrow> config_visit" where
  "new_visit v = \<lparr>cs_event = v, cs_handlers = (\<lambda>_. None), cs_error = False, cs_slept = [], cs_told = []\<rparr>"

definition config_visitGroup :: "config_env \<Rightarrow> applications \<Rightarrow> VisitEvent \<Rightarrow> (fault + config_visit) option" where
  "config_visitGroup env apps v =
     (case map_of apps (ve_program v) of
        None \<Rightarrow> Some (Inr (set_error CAPTURE_VISITATION_PROCESS_ERROR (new_visit v)))
      | Some app \<Rightarrow>
          rbind (rfold (open_url env app) [0..<length (ve_urls v)] (new_visit v)) (\<lambda>s.
          rbind (Some (sleep_all s)) (rfold (close_url env) [0..<length (ve_urls v)])))"

section \<open>The list\<close>

lemma map_of_insert_application:
  "map_of (insert_application a apps) = (if map_of apps (ap_name a) = None then (map_of apps)(ap_name a \<mapsto> a) else map_of apps)"
  by (auto simp: insert_application_def map_add_def split: option.splits)

text \<open>
  A name of Applications.conf stands for the first line of the file with that name that is no
  comment and has at least two fields; later lines with the name do not count. The names of the plug-in are
  those of the file, each once.
\<close>

theorem first_line_wins:
  "let apps = loadApplicationsList (Some content) in
     map_of apps name = List.find (\<lambda>a. ap_name a = name) (List.map_filter config_line (split_at 0x0A content)) \<and>
     distinct (supportedApplications apps) \<and>
     set (supportedApplications apps) = ap_name ` set (List.map_filter config_line (split_at 0x0A content))"
proof -
  let ?step = "\<lambda>line apps. case config_line line of None \<Rightarrow> apps | Some a \<Rightarrow> insert_application a apps"
  have "map_of (fold ?step lines apps) name =
      (case map_of apps name of None \<Rightarrow> List.find (\<lambda>a. ap_name a = name) (List.map_filter config_line lines) | Some a \<Rightarrow> Some a)"
    for lines apps
    by (induction lines arbitrary: apps)
       (auto simp: map_filter_simps map_of_insert_application split: option.splits)
  moreover have "(distinct (map fst apps) \<longrightarrow> distinct (map fst (fold ?step lines apps))) \<and>
      fst ` set (fold ?step lines apps) = fst ` set apps \<union> ap_name ` set (List.map_filter config_line lines)" for lines apps
    by (induction lines arbitrary: apps)
       (auto simp: map_filter_simps insert_application_def map_of_eq_None_iff split: option.splits if_splits)
  ultimately show ?thesis by (simp add: loadApplicationsList_def supportedApplications_def)
qed

section \<open>What a group comes to\<close>

text \<open>Whether a program of that name runs, whether one is seen in time, and whether none is seen in time afterwards.\<close>

definition runs :: "application \<Rightarrow> process_answer list option \<Rightarrow> bool" where
  "runs app = isOpen (new_handler (ap_path app) [])"

definition opens :: "config_env \<Rightarrow> application \<Rightarrow> nat \<Rightarrow> bool" where
  "opens env app i \<longleftrightarrow> (\<exists>k < 600. runs app (cv_opening env i k))"

definition closes :: "config_env \<Rightarrow> application \<Rightarrow> nat \<Rightarrow> bool" where
  "closes env app i \<longleftrightarrow> (\<exists>k < 300. \<not> runs app (cv_closing env i k))"

text \<open>What opening makes of an address, and the error it brings.\<close>

definition program_process :: "config_env \<Rightarrow> nat \<Rightarrow> u32" where
  "program_process env i = (case cv_created env i of Inl _ \<Rightarrow> 0 | Inr processId \<Rightarrow> processId)"

definition opened_url :: "config_env \<Rightarrow> application \<Rightarrow> nat \<Rightarrow> u32 \<Rightarrow> Url \<Rightarrow> Url" where
  "opened_url env app i downloadStatus u =
     (if 0 < downloadStatus then u\<lparr>u_majorErrorCode := CAPTURE_VISITATION_NETWORK_ERROR, u_minorErrorCode := downloadStatus\<rparr>
      else if opens env app i then u\<lparr>u_processId := program_process env i\<rparr>
      else u\<lparr>u_processId := program_process env i, u_majorErrorCode := CAPTURE_VISITATION_PROCESS_ERROR, u_minorErrorCode := cv_lastError env i\<rparr>)"

definition open_codes :: "config_env \<Rightarrow> application \<Rightarrow> nat \<Rightarrow> u32 \<Rightarrow> u32 list" where
  "open_codes env app i downloadStatus =
     (if 0 < downloadStatus then [CAPTURE_VISITATION_NETWORK_ERROR] else if opens env app i then [] else [CAPTURE_VISITATION_PROCESS_ERROR])"

definition closed_url :: "config_env \<Rightarrow> application \<Rightarrow> nat \<Rightarrow> Url \<Rightarrow> Url" where
  "closed_url env app i u =
     (if closes env app i then u else u\<lparr>u_majorErrorCode := CAPTURE_VISITATION_PROCESS_ERROR, u_minorErrorCode := 0\<rparr>)"

definition close_codes :: "config_env \<Rightarrow> application \<Rightarrow> nat \<Rightarrow> u32 list" where
  "close_codes env app i = (if closes env app i then [] else [CAPTURE_VISITATION_PROCESS_ERROR])"

lemma isOpen_runs: "ph_fullPathToExe ph = ap_path app \<Longrightarrow> isOpen ph = runs app"
  by (auto simp: runs_def isOpen_def new_handler_def fun_eq_iff split: option.split)

lemma executeProcess_fields [simp]:
  "ph_fullPathToExe (snd (executeProcess created (new_handler path parameters))) = path"
  "ph_processId (snd (executeProcess created (new_handler path parameters))) = (case created of Inl _ \<Rightarrow> 0 | Inr processId \<Rightarrow> processId)"
  by (simp_all add: executeProcess_def new_handler_def split: sum.split)

lemma config_visit_simps [simp]:
  "ve_urls (cs_event (set_url i f s)) = (ve_urls (cs_event s))[i := f (ve_urls (cs_event s) ! i)]"
  "ve_urls (cs_event (set_error e s)) = ve_urls (cs_event s)"
  "ve_errorCode (cs_event (set_url i f s)) = ve_errorCode (cs_event s)"
  "ve_errorCode (cs_event (set_error e s)) = (if ve_errorCode (cs_event s) \<noteq> 0 then 0x10000113 else e)"
  "cs_handlers (set_url i f s) = cs_handlers s" "cs_handlers (set_error e s) = cs_handlers s"
  "cs_error (set_url i f s) = cs_error s" "cs_error (set_error e s) = cs_error s"
  "cs_slept (set_url i f s) = cs_slept s" "cs_slept (set_error e s) = cs_slept s"
  by (simp_all add: set_url_def set_error_def setErrorCode_def)

text \<open>The code after some more errors.\<close>

definition more_errors :: "u32 \<Rightarrow> u32 list \<Rightarrow> u32" where
  "more_errors code es = fold (\<lambda>e c. if c \<noteq> 0 then 0x10000113 else e) es code"

lemma more_errors_simps [simp]:
  "more_errors code [] = code" "more_errors code [e] = (if code \<noteq> 0 then 0x10000113 else e)"
  "more_errors (more_errors code es) es' = more_errors code (es @ es')"
  by (simp_all add: more_errors_def)

lemma more_errors_group: "more_errors 0 es = group_code es"
proof -
  have "ve_errorCode (fold (\<lambda>e v. setErrorCode v e) es v) = more_errors (ve_errorCode v) es" for v
    by (induction es arbitrary: v) (simp_all add: more_errors_def setErrorCode_def)
  from this[of new_VisitEvent] fold_error_code[of new_VisitEvent es] show ?thesis by (simp add: new_VisitEvent_def)
qed

lemma open_url_result:
  assumes "fetch env app i (u_url (ve_urls (cs_event s) ! i)) = Inr (st, path)" "i < length (ve_urls (cs_event s))" "cs_handlers s i = None"
  shows "\<exists>s'. open_url env app i s = Some (Inr s') \<and>
     ve_urls (cs_event s') = (ve_urls (cs_event s))[i := opened_url env app i st (ve_urls (cs_event s) ! i)] \<and>
     ve_errorCode (cs_event s') = more_errors (ve_errorCode (cs_event s)) (open_codes env app i st) \<and>
     cs_handlers s' = (cs_handlers s)(i := if 0 < st then None else
        Some (snd (executeProcess (cv_created env i) (new_handler (ap_path app) path)))) \<and>
     cs_error s' = (cs_error s \<or> st = 0 \<and> \<not> opens env app i) \<and>
     cs_slept s' = cs_slept s @ (if st = 0 \<and> i = 0 then [2000] else [])"
proof (cases "0 < st")
  case True
  then show ?thesis using assms by (auto simp: open_url_def opened_url_def open_codes_def fun_upd_idem)
next
  case False
  let ?ph = "snd (executeProcess (cv_created env i) (new_handler (ap_path app) path))"
  obtain o' w where "poll (\<lambda>k. isOpen ?ph (cv_opening env i k)) (in_double 60) 0 0 = Some (o', w)"
    "w < in_double 60 \<longleftrightarrow> opens env app i"
    using poll_60[of "\<lambda>k. isOpen ?ph (cv_opening env i k)"] by (auto simp: polled_def opens_def isOpen_runs[of ?ph app])
  then show ?thesis
    using assms False
    by (auto simp: open_url_def opened_url_def open_codes_def program_process_def word_gt_0 Let_def simp flip: not_less)
qed

lemma close_url_result:
  assumes "cs_handlers s i = Some ph" "ph_fullPathToExe ph = ap_path app" "i < length (ve_urls (cs_event s))"
  shows "\<exists>s'. close_url env i s = Some (Inr s') \<and>
     ve_urls (cs_event s') = (ve_urls (cs_event s))[i := closed_url env app i (ve_urls (cs_event s) ! i)] \<and>
     ve_errorCode (cs_event s') = more_errors (ve_errorCode (cs_event s)) (close_codes env app i) \<and>
     cs_handlers s' = cs_handlers s \<and> cs_slept s' = cs_slept s"
proof -
  obtain o' w where "poll (\<lambda>k. \<not> isOpen ph (cv_closing env i k)) (in_double 30) 0 0 = Some (o', w)"
    "w < in_double 30 \<longleftrightarrow> closes env app i"
    using poll_30[of "\<lambda>k. \<not> isOpen ph (cv_closing env i k)"] by (auto simp: polled_def closes_def isOpen_runs[OF assms(2)])
  then show ?thesis
    using assms by (auto simp: close_url_def closed_url_def close_codes_def Let_def simp flip: not_less)
qed

text \<open>The loops up to some address. \<open>sts\<close> are the answers of the downloads.\<close>

lemma opening_loop:
  assumes "\<forall>i < length us. \<exists>path. fetch env app i (u_url (us ! i)) = Inr (sts i, path)" "ve_urls v = us" "m \<le> length us"
  shows "\<exists>s. rfold (open_url env app) [0..<m] (new_visit v) = Some (Inr s) \<and>
     ve_urls (cs_event s) = map (\<lambda>i. opened_url env app i (sts i) (us ! i)) [0..<m] @ drop m us \<and>
     ve_errorCode (cs_event s) = more_errors (ve_errorCode v) (concat (map (\<lambda>i. open_codes env app i (sts i)) [0..<m])) \<and>
     (\<forall>i < m. case cs_handlers s i of None \<Rightarrow> 0 < sts i | Some ph \<Rightarrow> sts i = 0 \<and> ph_fullPathToExe ph = ap_path app) \<and>
     (\<forall>i \<ge> m. cs_handlers s i = None) \<and>
     cs_error s = (\<exists>i < m. sts i = 0 \<and> \<not> opens env app i) \<and>
     cs_slept s = (if 0 < m \<and> sts 0 = 0 then [2000] else [])"
  using assms(3)
proof (induction m)
  case 0
  show ?case using assms(2) by (simp add: new_visit_def)
next
  case (Suc m)
  then obtain s where s: "rfold (open_url env app) [0..<m] (new_visit v) = Some (Inr s)"
    "ve_urls (cs_event s) = map (\<lambda>i. opened_url env app i (sts i) (us ! i)) [0..<m] @ drop m us"
    "ve_errorCode (cs_event s) = more_errors (ve_errorCode v) (concat (map (\<lambda>i. open_codes env app i (sts i)) [0..<m]))"
    "\<forall>i < m. case cs_handlers s i of None \<Rightarrow> 0 < sts i | Some ph \<Rightarrow> sts i = 0 \<and> ph_fullPathToExe ph = ap_path app"
    "\<forall>i \<ge> m. cs_handlers s i = None" "cs_error s = (\<exists>i < m. sts i = 0 \<and> \<not> opens env app i)"
    "cs_slept s = (if 0 < m \<and> sts 0 = 0 then [2000] else [])"
    by auto
  have m: "m < length us" using Suc.prems by simp
  then have here: "ve_urls (cs_event s) ! m = us ! m" "m < length (ve_urls (cs_event s))" by (simp_all add: s(2) nth_append)
  obtain path where f: "fetch env app m (u_url (us ! m)) = Inr (sts m, path)" using assms(1) m by blast
  obtain s' where s': "open_url env app m s = Some (Inr s')"
    "ve_urls (cs_event s') = (ve_urls (cs_event s))[m := opened_url env app m (sts m) (us ! m)]"
    "ve_errorCode (cs_event s') = more_errors (ve_errorCode (cs_event s)) (open_codes env app m (sts m))"
    "cs_handlers s' = (cs_handlers s)(m := if 0 < sts m then None else
        Some (snd (executeProcess (cv_created env m) (new_handler (ap_path app) path))))"
    "cs_error s' = (cs_error s \<or> sts m = 0 \<and> \<not> opens env app m)" "cs_slept s' = cs_slept s @ (if sts m = 0 \<and> m = 0 then [2000] else [])"
    using open_url_result[of env app m s "sts m" path] here f s(5) by auto
  have urls: "(map (\<lambda>i. opened_url env app i (sts i) (us ! i)) [0..<m] @ drop m us)[m := x] =
      map (\<lambda>i. opened_url env app i (sts i) (us ! i)) [0..<m] @ x # drop (Suc m) us" for x
    using m by (simp add: list_update_append flip: Cons_nth_drop_Suc)
  show ?case
    using s s' urls by (intro exI[of _ s']) (auto simp: rfold_snoc less_Suc_eq word_gt_0)
qed

lemma closing_loop:
  assumes "\<forall>i < m. \<exists>ph. cs_handlers s0 i = Some ph \<and> ph_fullPathToExe ph = ap_path app" "m \<le> length us" "ve_urls (cs_event s0) = us"
  shows "\<exists>s. rfold (close_url env) [0..<m] s0 = Some (Inr s) \<and>
     ve_urls (cs_event s) = map (\<lambda>i. closed_url env app i (us ! i)) [0..<m] @ drop m us \<and>
     ve_errorCode (cs_event s) = more_errors (ve_errorCode (cs_event s0)) (concat (map (close_codes env app) [0..<m])) \<and>
     cs_handlers s = cs_handlers s0 \<and> cs_slept s = cs_slept s0"
  using assms(1,2)
proof (induction m)
  case 0
  show ?case using assms(3) by simp
next
  case (Suc m)
  then obtain s where s: "rfold (close_url env) [0..<m] s0 = Some (Inr s)"
    "ve_urls (cs_event s) = map (\<lambda>i. closed_url env app i (us ! i)) [0..<m] @ drop m us"
    "ve_errorCode (cs_event s) = more_errors (ve_errorCode (cs_event s0)) (concat (map (close_codes env app) [0..<m]))"
    "cs_handlers s = cs_handlers s0" "cs_slept s = cs_slept s0"
    by auto
  have m: "m < length us" using Suc.prems by simp
  then have here: "ve_urls (cs_event s) ! m = us ! m" "m < length (ve_urls (cs_event s))" by (simp_all add: s(2) nth_append)
  obtain ph where "cs_handlers s0 m = Some ph" "ph_fullPathToExe ph = ap_path app" using Suc.prems(1) by blast
  then obtain s' where s': "close_url env m s = Some (Inr s')"
    "ve_urls (cs_event s') = (ve_urls (cs_event s))[m := closed_url env app m (us ! m)]"
    "ve_errorCode (cs_event s') = more_errors (ve_errorCode (cs_event s)) (close_codes env app m)"
    "cs_handlers s' = cs_handlers s" "cs_slept s' = cs_slept s"
    using close_url_result[of s m ph app env] here s(4) by auto
  have urls: "(map (\<lambda>i. closed_url env app i (us ! i)) [0..<m] @ drop m us)[m := x] =
      map (\<lambda>i. closed_url env app i (us ! i)) [0..<m] @ x # drop (Suc m) us" for x
    using m by (simp add: list_update_append flip: Cons_nth_drop_Suc)
  show ?case
    using s s' urls by (intro exI[of _ s']) (auto simp: rfold_snoc)
qed

lemma rfold_faults:
  assumes "rfold f xs s0 = Some (Inr s)" "f x s = Some (Inl e)"
  shows "rfold f (xs @ x # ys) s0 = Some (Inl e)"
  using assms by (induction xs arbitrary: s0) (auto simp: rbind_def split: option.splits sum.splits)


definition example_program :: application where
  "example_program = \<lparr>ap_name = wide ''p'', ap_path = wide ''C:'' @ 0x5C # wide ''p.exe'', ap_downloadURL = False\<rparr>"

definition example_process :: process_answer where
  "example_process = \<lparr>pa_id = 9, pa_name = Some (wide ''P.exe''), pa_error = None\<rparr>"

definition example_config_env :: config_env where
  "example_config_env =
     \<lparr>cv_temp = wide ''temp'' @ [0x5C], cv_arrives = (\<lambda>_. ([DownloadingData], [])), cv_created = (\<lambda>_. Inr 9),
      cv_opening = (\<lambda>i k. if k < 5 then None else Some [example_process]), cv_lastError = (\<lambda>_. 0),
      cv_close = (\<lambda>_. \<lparr>cl_error = None, cl_enumerated = True, cl_processes = [example_process]\<rparr>),
      cv_closing = (\<lambda>i k. Some [])\<rparr>"

lemma example_program_runs: "runs example_program (Some [example_process])" "\<not> runs app (Some [])"
proof -
  have "exe_name (ap_path example_program) = wide ''p.exe''"
    by (simp add: exe_name_def example_program_def find_last_def wide_def)
  moreover have "same_name (wide ''P.exe'') (wide ''p.exe'')" by (simp add: same_name_def lower_case_def towlower_def wide_def)
  ultimately show "runs example_program (Some [example_process])"
    by (simp add: runs_def isOpen_def new_handler_def compareName_def example_process_def)
  show "\<not> runs app (Some [])" by (simp add: runs_def isOpen_def)
qed


text \<open>
  C37: As soon as one file of a group cannot be downloaded, the client crashes at the end of the visit: the address
  has no process, and it is closed through a null pointer.
\<close>

theorem failed_download_faults:
  assumes "map_of apps (ve_program v) = Some app"
    and "\<forall>i < length (ve_urls v). \<exists>path. fetch env app i (u_url (ve_urls v ! i)) = Inr (sts i, path)"
    and "k < length (ve_urls v)" "0 < sts k"
  shows "config_visitGroup env apps v = Some (Inl NullDeref)"
proof -
  define us n where "us = ve_urls v" and "n = length us"
  have "\<forall>i < length us. \<exists>path. fetch env app i (u_url (us ! i)) = Inr (sts i, path)" using assms(2) by (simp add: us_def)
  from opening_loop[OF this us_def[symmetric] order_refl] obtain s where s: "rfold (open_url env app) [0..<n] (new_visit v) = Some (Inr s)"
    "ve_urls (cs_event s) = map (\<lambda>i. opened_url env app i (sts i) (us ! i)) [0..<n]"
    "\<forall>i < n. case cs_handlers s i of None \<Rightarrow> 0 < sts i | Some ph \<Rightarrow> sts i = 0 \<and> ph_fullPathToExe ph = ap_path app"
    by (elim exE conjE) (rule that, simp_all add: n_def)
  obtain s1 where s1: "sleep_all s = Inr s1" "cs_handlers s1 = cs_handlers s" "cs_event s1 = cs_event s"
  proof -
    have "ve_urls (cs_event s) \<noteq> []" using s(2) assms(3) by (auto simp: n_def us_def)
    then obtain u us' where "ve_urls (cs_event s) = u # us'" by (auto simp: neq_Nil_conv)
    then show thesis using that by (cases "cs_error s") (auto simp: sleep_all_def)
  qed
  define j where "j = (LEAST i. 0 < sts i)"
  have j: "0 < sts j" "j \<le> k" unfolding j_def by (rule LeastI[of "\<lambda>i. 0 < sts i", OF assms(4)]) (rule Least_le[of "\<lambda>i. 0 < sts i", OF assms(4)])
  have before: "sts i = 0" if "i < j" for i
    using not_less_Least[of i "\<lambda>i. 0 < sts i"] that by (simp only: j_def word_gt_0) simp
  have jn: "j < n" using j(2) assms(3) by (simp add: n_def us_def)
  have "\<exists>ph. cs_handlers s1 i = Some ph \<and> ph_fullPathToExe ph = ap_path app" if "i < j" for i
    using s(3)[rule_format, of i] before[OF that] that jn s1(2) by (cases "cs_handlers s i") auto
  moreover have "cs_handlers s1 j = None"
    using s(3)[rule_format, OF jn] j(1) s1(2) by (cases "cs_handlers s j") auto
  ultimately have h: "\<forall>i < j. \<exists>ph. cs_handlers s1 i = Some ph \<and> ph_fullPathToExe ph = ap_path app" "cs_handlers s1 j = None"
    by simp_all
  obtain s2 where s2: "rfold (close_url env) [0..<j] s1 = Some (Inr s2)" "cs_handlers s2 = cs_handlers s1"
    using closing_loop[of j s1 app "ve_urls (cs_event s)" env] h(1) jn s(2) s1(3) by auto
  have "close_url env j s2 = Some (Inl NullDeref)" using s2(2) h(2) by (simp add: close_url_def)
  moreover have "[0..<n] = [0..<j] @ j # [Suc j..<n]" using upt_add_eq_append[of 0 j "n - j"] jn by (simp add: upt_conv_Cons)
  ultimately have "rfold (close_url env) [0..<n] s1 = Some (Inl NullDeref)" using rfold_faults[OF s2(1)] by metis
  then show ?thesis using assms(1) s(1) s1(1) by (simp add: config_visitGroup_def n_def us_def)
qed

theorem failed_download_faults_witness:
  "config_visitGroup example_config_env [(wide ''p'', example_program\<lparr>ap_downloadURL := True\<rparr>)]
     ((addUrl new_VisitEvent (new_Url (wide ''http://a/b.pdf'') [] 5))\<lparr>ve_program := wide ''p''\<rparr>) = Some (Inl NullDeref)"
proof (rule failed_download_faults[of _ _ _ _ "\<lambda>_. CAPTURE_NE_CANT_DOWNLOAD_TEMP_FILE" 0])
  let ?v = "(addUrl new_VisitEvent (new_Url (wide ''http://a/b.pdf'') [] 5))\<lparr>ve_program := wide ''p''\<rparr>"
  have v: "ve_urls ?v = [new_Url (wide ''http://a/b.pdf'') [] 5]" by (simp add: addUrl_def new_VisitEvent_def)
  show "map_of [(wide ''p'', example_program\<lparr>ap_downloadURL := True\<rparr>)] (ve_program ?v) = Some (example_program\<lparr>ap_downloadURL := True\<rparr>)" by simp
  have "find_last 0x2F (wide ''http://a/b.pdf'') \<noteq> None" "find_last 0x2E (wide ''http://a/b.pdf'') \<noteq> None"
    by (simp_all add: find_last_def wide_def)
  moreover have "u_url (new_Url (wide ''http://a/b.pdf'') [] 5) = wide ''http://a/b.pdf''" by (simp add: new_Url_def)
  ultimately show "\<forall>i < length (ve_urls ?v). \<exists>path. fetch example_config_env (example_program\<lparr>ap_downloadURL := True\<rparr>) i (u_url (ve_urls ?v ! i)) =
      Inr (CAPTURE_NE_CANT_DOWNLOAD_TEMP_FILE, path)"
    by (auto simp: v fetch_def Download_def example_config_env_def OnProgress_def Let_def)
  show "0 < length (ve_urls ?v)" by (simp add: v)
  show "0 < CAPTURE_NE_CANT_DOWNLOAD_TEMP_FILE" by (simp add: CAPTURE_NE_CANT_DOWNLOAD_TEMP_FILE_def)
qed

text \<open>
  Two addresses of a group with the same extension are downloaded into the same file.
\<close>

lemma same_extension_same_file:
  assumes "find_last 0x2E what = Some i" "find_last 0x2E other = Some j" "drop i what = drop j other"
  shows "map_sum id snd (Download temp arrives what) = map_sum id snd (Download temp arrives' other)"
  using assms by (simp add: Download_def Let_def)

end
