(* ===== verification/Safari.thy ===== *)
theory Safari
  imports BrowserVisit
begin

text \<open>
  The plug-in for Safari (ApplicationPlugins/Safari/Application_Safari.cpp): it writes the address
  into the preferences of the browser as its home page, starts the browser, waits and ends it.
  Windows and the files answer through arguments.
\<close>

section \<open>Searching\<close>

text \<open>find: the first position of a text in another one, at or behind an offset; None is npos, also as an offset.\<close>

fun find_text :: "u16 list \<Rightarrow> u16 list \<Rightarrow> nat option" where
  "find_text p s =
     (if take (length p) s = p then Some 0 else case s of [] \<Rightarrow> None | c # s \<Rightarrow> map_option Suc (find_text p s))"

declare find_text.simps [simp del]

definition find_text_from :: "u16 list \<Rightarrow> u16 list \<Rightarrow> nat option \<Rightarrow> nat option" where
  "find_text_from p s offset = Option.bind offset (\<lambda>k. map_option (\<lambda>i. k + i) (find_text p (drop k s)))"

section \<open>Preferences\<close>

definition homepageTag :: "u16 list" where "homepageTag = wide ''<key>HomePage</key>''"
definition startString :: "u16 list" where "startString = wide ''<string>''"
definition endString :: "u16 list" where "endString = wide ''</string>''"
definition lastTag :: "u16 list" where "lastTag = wide ''</dict>''"

definition safariBlankPreferences :: "u16 list" where
  "safariBlankPreferences =
     wide ''<?xml version='' @ 0x22 # wide ''1.0'' @ 0x22 # wide '' encoding='' @ 0x22 # wide ''UTF-8'' @ 0x22 # wide ''?>'' @ 0x0A #
     wide ''<!DOCTYPE plist PUBLIC '' @ 0x22 # wide ''-//Apple//DTD PLIST 1.0//EN'' @ 0x22 # 0x20 #
       0x22 # wide ''http://www.apple.com/DTDs/PropertyList-1.0.dtd'' @ 0x22 # wide ''>'' @ 0x0A #
     wide ''<plist version='' @ 0x22 # wide ''1.0'' @ 0x22 # wide ''>'' @ 0x0A #
     wide ''<dict>'' @ 0x0A # wide ''</dict>'' @ 0x0A # wide ''</plist>'' @ [0x0A]"

text \<open>The element that is added when there is none. The tabs before it are overwritten.\<close>

definition homepage_element :: "u16 list \<Rightarrow> u16 list" where
  "homepage_element url = homepageTag @ [0x0A, 9, 9] @ startString @ url @ endString @ [0x0A]"

definition edit_document :: "u16 list \<Rightarrow> u16 list \<Rightarrow> u16 list" where
  "edit_document document url =
     (case find_text homepageTag document of
        Some homepageKey \<Rightarrow>
          let homepageValueStart = find_text_from startString document (Some homepageKey);
              homepageValueEnd = find_text_from endString document homepageValueStart
          in (case (homepageValueStart, homepageValueEnd) of
                (Some start, Some end') \<Rightarrow>
                  replace_at document (start + length startString) (end' - start - length startString) url
              | _ \<Rightarrow> document)
      | None \<Rightarrow>
          (case find_text lastTag document of
             Some lastTagStart \<Rightarrow> take lastTagStart document @ homepage_element url @ drop lastTagStart document
           | None \<Rightarrow> document))"

text \<open>Lines are read until the end and put together with line ends between them.\<close>

fun join_lines :: "u16 list list \<Rightarrow> u16 list" where
  "join_lines [] = []"
| "join_lines [line] = line"
| "join_lines (line # lines) = line @ 0x0A # join_lines lines"

definition openDocument :: "u16 list option \<Rightarrow> u16 list option" where
  "openDocument content = map_option (\<lambda>c. join_lines (split_at 0x0A c)) content"

definition setHomePage :: "(u16 list \<Rightarrow> u16 list option) \<Rightarrow> u16 list \<Rightarrow> u16 list \<Rightarrow> u16 list \<Rightarrow> u16 list \<times> u16 list" where
  "setHomePage files userDataPath safariPath url =
     (let path = userDataPath @ safariPath;
          document = (case openDocument (files path) of None \<Rightarrow> safariBlankPreferences | Some d \<Rightarrow> d)
      in (path, edit_document document url))"

section \<open>Visits\<close>

text \<open>
  The folder of the user, the files in it, the error when the process is not made, and the error when
  it cannot be terminated.
\<close>

record safari_env =
  sv_folder :: "u16 list option"
  sv_files :: "u16 list \<Rightarrow> u16 list option"
  sv_createError :: "u32 option"
  sv_closeError :: "u32 option"

record safari_result =
  sr_status :: u32
  sr_url :: Url
  sr_written :: "(u16 list \<times> u16 list) list"
  sr_slept :: "u32 option"

definition preferences :: "u16 list list" where
  "preferences =
     [0x5C # wide ''Apple Computer'' @ 0x5C # wide ''Safari'' @ 0x5C # wide ''Preferences.plist'',
      0x5C # wide ''Apple Computer'' @ 0x5C # wide ''Safari'' @ 0x5C # wide ''Preferences'' @ 0x5C # wide ''com.apple.Safari.plist'']"

definition safari_visitUrl :: "safari_env \<Rightarrow> Url \<Rightarrow> safari_result" where
  "safari_visitUrl env url =
     (let written = (case sv_folder env of None \<Rightarrow> []
            | Some folder \<Rightarrow> map (\<lambda>path. setHomePage (sv_files env) folder path (u_url url)) preferences)
      in case sv_createError env of
           Some e \<Rightarrow> \<lparr>sr_status = e, sr_url = url\<lparr>u_majorErrorCode := CAPTURE_VISITATION_PROCESS_ERROR\<rparr>, sr_written = written, sr_slept = None\<rparr>
         | None \<Rightarrow>
             (case sv_closeError env of
                Some e \<Rightarrow> \<lparr>sr_status = e, sr_url = url\<lparr>u_majorErrorCode := CAPTURE_VISITATION_PROCESS_ERROR, u_minorErrorCode := e\<rparr>,
                            sr_written = written, sr_slept = sleep_time url True\<rparr>
              | None \<Rightarrow> \<lparr>sr_status = 0, sr_url = url, sr_written = written, sr_slept = sleep_time url True\<rparr>))"

definition safari_turn :: "(nat \<Rightarrow> safari_env) \<Rightarrow> nat \<Rightarrow> VisitEvent \<Rightarrow> VisitEvent" where
  "safari_turn env i v =
     (let r = safari_visitUrl (env i) (ve_urls v ! i);
          v = v\<lparr>ve_urls := (ve_urls v)[i := sr_url r]\<rparr>
      in if sr_status r \<noteq> 0 then setErrorCode v (sr_status r) else v)"

definition safari_visitGroup :: "(nat \<Rightarrow> safari_env) \<Rightarrow> VisitEvent \<Rightarrow> VisitEvent" where
  "safari_visitGroup env v = fold (safari_turn env) [0..<length (ve_urls v)] v"

section \<open>Where a text is found\<close>

lemma find_text_iff:
  assumes "p \<noteq> []"
  shows "find_text p s = Some i \<longleftrightarrow> i + length p \<le> length s \<and> take (length p) (drop i s) = p \<and>
     (\<forall>j < i. take (length p) (drop j s) \<noteq> p)"
proof (induction s arbitrary: i)
  case Nil
  then show ?case using assms by (simp add: find_text.simps)
next
  case (Cons c s)
  show ?case
  proof (cases "take (length p) (c # s) = p")
    case True
    moreover from this have "length p \<le> length (c # s)" by (metis length_take min.cobounded1 take_all_iff nat_le_linear)
    ultimately show ?thesis by (subst find_text.simps) (cases i; auto)
  next
    case False
    then show ?thesis using Cons.IH by (subst find_text.simps) (cases i; auto simp: All_less_Suc2)
  qed
qed

lemma find_text_agrees:
  assumes "find_text p s = Some i" "p \<noteq> []" "i + length p \<le> n" "take n s = take n s'" "n \<le> length s'"
  shows "find_text p s' = Some i"
proof -
  have "take (length p) (drop j s) = take (length p) (drop j s')" if "j \<le> i" for j
  proof -
    have "length p \<le> n - j" using that assms(3) by simp
    then have "take (length p) (drop j x) = take (length p) (drop j (take n x))" for x :: "u16 list"
      by (simp add: drop_take take_take min_absorb1)
    then show ?thesis using assms(4) by metis
  qed
  then show ?thesis using assms by (auto simp: find_text_iff)
qed

lemma find_text_plain:
  assumes "p = c # p'" "c \<notin> set t"
  shows "find_text p (t @ p @ rest) = Some (length t)"
  using assms(2)
proof (induction t)
  case Nil
  then show ?case by (simp add: find_text.simps)
next
  case (Cons x t)
  then show ?case using assms(1) by (subst find_text.simps) auto
qed

lemma find_text_absent: "c \<in> set p \<Longrightarrow> c \<notin> set s \<Longrightarrow> find_text p s = None"
proof (induction s)
  case (Cons x s)
  then have "take (length p) (x # s) \<noteq> p" by (metis in_set_takeD)
  then show ?case using Cons by (subst find_text.simps) simp
qed (auto simp: find_text.simps)

lemma find_text_None: "find_text p s = None \<Longrightarrow> take (length p) (drop j s) \<noteq> p"
proof (induction s arbitrary: j)
  case Nil
  then show ?case by (subst (asm) find_text.simps) (auto split: if_splits)
next
  case (Cons x s)
  then have "take (length p) (x # s) \<noteq> p" "find_text p s = None"
    by (subst (asm) (2) find_text.simps, auto split: if_splits)+
  then show ?case using Cons.IH by (cases j) auto
qed

lemma find_text_behind: "find_text p s \<noteq> None \<Longrightarrow> find_text p (a @ s) \<noteq> None"
proof (induction a)
  case (Cons x a)
  then show ?case by (subst find_text.simps) auto
qed simp

lemma find_text_first: "find_text p (p @ s) \<noteq> None"
  by (subst find_text.simps) simp

section \<open>The home page\<close>

text \<open>The value that the preferences have for the home page.\<close>

definition home_page :: "u16 list \<Rightarrow> u16 list option" where
  "home_page d =
     Option.bind (find_text homepageTag d) (\<lambda>key.
     Option.bind (find_text_from startString d (Some key)) (\<lambda>start.
     map_option (\<lambda>end'. take (end' - (start + length startString)) (drop (start + length startString) d))
       (find_text_from endString d (Some start))))"

text \<open>There is a complete element for the home page, or none and an end of the list.\<close>

definition editable :: "u16 list \<Rightarrow> bool" where
  "editable d \<longleftrightarrow> (if find_text homepageTag d = None then find_text lastTag d \<noteq> None else home_page d \<noteq> None)"

lemma tag_lengths [simp]: "length homepageTag = 19" "length startString = 8" "length endString = 9"
  by (simp_all add: homepageTag_def startString_def endString_def wide_def)

lemma find_start: "find_text startString (homepageTag @ 0x0A # 9 # 9 # startString @ rest) = Some 22"
  by (simp add: homepageTag_def startString_def wide_def find_text.simps)

lemma find_end:
  assumes "0x3C \<notin> set url"
  shows "find_text endString (startString @ url @ endString @ rest) = Some (8 + length url)"
proof -
  have "endString = 0x3C # tl endString" by (simp add: endString_def wide_def)
  note plain = find_text_plain[OF this, of "tl startString @ url" rest]
  define u where "u = tl startString @ url @ endString @ rest"
  have 1: "find_text endString u = Some (7 + length url)" using plain assms by (simp add: u_def startString_def wide_def)
  have 2: "startString @ url @ endString @ rest = 0x3C # u" by (simp add: u_def startString_def wide_def)
  have 3: "take 9 (0x3C # u) \<noteq> endString" by (simp add: u_def startString_def endString_def wide_def)
  show ?thesis unfolding 2 by (subst find_text.simps) (use 1 3 in simp)
qed

text \<open>No text for the value begins inside the key, and no end inside a start.\<close>

lemma start_behind_key:
  assumes "find_text homepageTag d = Some key" "find_text_from startString d (Some key) = Some start"
  shows "key + 19 \<le> start"
proof (rule ccontr)
  assume "\<not> key + 19 \<le> start"
  from assms obtain k where k: "find_text startString (drop key d) = Some k" "start = key + k" by (auto simp: find_text_from_def)
  have "homepageTag \<noteq> []" "startString \<noteq> []" by (simp_all add: homepageTag_def startString_def wide_def)
  then have tag: "take 19 (drop key d) = homepageTag" and st: "take 8 (drop k (drop key d)) = startString"
    using assms(1) k(1) by (auto simp: find_text_iff)
  then obtain r where r: "drop key d = homepageTag @ r" by (metis append_take_drop_id)
  have "k < 19" using \<open>\<not> key + 19 \<le> start\<close> k(2) by simp
  then have "k \<in> set [0..<19]" by simp
  then show False using st unfolding r by (auto simp: homepageTag_def startString_def wide_def upt_rec)
qed

lemma end_behind_start:
  assumes "find_text_from startString d (Some key) = Some start" "find_text_from endString d (Some start) = Some stop"
  shows "start + 8 \<le> stop"
proof (rule ccontr)
  assume "\<not> start + 8 \<le> stop"
  from assms obtain j k where k: "find_text startString (drop key d) = Some j" "start = key + j"
    "find_text endString (drop start d) = Some k" "stop = start + k" by (auto simp: find_text_from_def)
  have "startString \<noteq> []" "endString \<noteq> []" by (simp_all add: endString_def startString_def wide_def)
  then have st: "take 8 (drop start d) = startString" and e: "take 9 (drop k (drop start d)) = endString"
    using k(1,3) unfolding k(2) by (auto simp: find_text_iff add.commute)
  then obtain r where r: "drop start d = startString @ r" by (metis append_take_drop_id)
  have "k < 8" using \<open>\<not> start + 8 \<le> stop\<close> k(4) by simp
  then have "k \<in> set [0..<8]" by simp
  then show False using e unfolding r by (auto simp: endString_def startString_def wide_def upt_rec)
qed

lemma home_page_read:
  assumes "find_text homepageTag d = Some key" "find_text_from startString d (Some key) = Some start"
    and "drop start d = startString @ url @ endString @ rest" "0x3C \<notin> set url"
  shows "home_page d = Some url"
proof -
  have "find_text_from endString d (Some start) = Some (start + 8 + length url)"
    using find_end[OF assms(4), of rest] assms(3) by (simp add: find_text_from_def)
  moreover have "drop (start + 8) d = url @ endString @ rest"
    using arg_cong[OF assms(3), of "drop 8"] by (simp add: add.commute)
  ultimately show ?thesis using assms(1,2) by (simp add: home_page_def)
qed

lemma replaced_home_page:
  assumes "find_text homepageTag d = Some key" "find_text_from startString d (Some key) = Some start"
    "find_text_from endString d (Some start) = Some stop" "0x3C \<notin> set url"
  shows "home_page (replace_at d (start + 8) (stop - start - 8) url) = Some url"
proof -
  let ?d = "replace_at d (start + 8) (stop - start - 8) url"
  have ks: "key + 19 \<le> start" by (rule start_behind_key[OF assms(1,2)])
  have se: "start + 8 \<le> stop" by (rule end_behind_start[OF assms(2,3)])
  have ne: "homepageTag \<noteq> []" "startString \<noteq> []" "endString \<noteq> []" by (simp_all add: homepageTag_def startString_def endString_def wide_def)
  from assms(2,3) obtain j k where k: "find_text startString (drop key d) = Some j" "start = key + j"
    "find_text endString (drop start d) = Some k" "stop = start + k" by (auto simp: find_text_from_def)
  have st: "take 8 (drop start d) = startString" and e: "take 9 (drop stop d) = endString" and len: "stop + 9 \<le> length d"
    using k ne(2,3) se by (auto simp: find_text_iff add_ac)
  have d: "?d = take (start + 8) d @ url @ drop stop d" using se by (simp add: replace_at_def)
  have sl: "start + 8 \<le> length d" using len se by simp
  have key: "find_text homepageTag ?d = Some key"
    by (rule find_text_agrees[OF assms(1) ne(1), of "start + 8"]) (use ks sl in \<open>simp_all add: replace_at_def\<close>)
  have "find_text startString (drop key ?d) = Some j"
    by (rule find_text_agrees[OF k(1) ne(2), of "j + 8"]) (use ks sl k(2) in \<open>simp_all add: replace_at_def take_drop add_ac\<close>)
  then have start: "find_text_from startString ?d (Some key) = Some start" by (simp add: find_text_from_def k(2))
  have "drop start (take (start + 8) d) = startString" using st by (simp add: take_drop add.commute)
  moreover have "drop stop d = endString @ drop (stop + 9) d" using e by (metis append_take_drop_id drop_drop add.commute)
  ultimately have "drop start ?d = startString @ url @ endString @ drop (stop + 9) d" unfolding d using sl by simp
  from home_page_read[OF key start this assms(4)] show ?thesis .
qed

lemma no_border: "0 < k \<Longrightarrow> k < 19 \<Longrightarrow> drop k homepageTag \<noteq> take (19 - k) homepageTag"
proof -
  assume "0 < k" "k < 19"
  then have "k \<in> set [1..<19]" by simp
  then show ?thesis by (auto simp: homepageTag_def wide_def upt_rec)
qed

lemma inserted_home_page:
  assumes "find_text homepageTag (a @ b) = None" "0x3C \<notin> set url"
  shows "home_page (a @ homepage_element url @ b) = Some url"
proof -
  let ?d = "a @ homepage_element url @ b" let ?n = "length a"
  have ne: "homepageTag \<noteq> []" by (simp add: homepageTag_def wide_def)
  have el: "drop ?n ?d = homepageTag @ [0x0A, 9, 9] @ startString @ url @ endString @ 0x0A # b" by (simp add: homepage_element_def)
  have "take 19 (drop j ?d) \<noteq> homepageTag" if "j < ?n" for j
  proof
    assume t: "take 19 (drop j ?d) = homepageTag"
    show False
    proof (cases "j + 19 \<le> ?n")
      case True
      then have "take 19 (drop j (a @ b)) = homepageTag" using t by simp
      moreover have "length homepageTag = 19" by simp
      ultimately show False using find_text_None[OF assms(1), of j] by simp
    next
      case False
      define k where "k = ?n - j"
      have k: "0 < k" "k < 19" using False that by (auto simp: k_def)
      have "drop k homepageTag = take (19 - k) (drop (k + j) ?d)" using t by (metis drop_take drop_drop)
      also have "\<dots> = take (19 - k) homepageTag" using k that el by (simp add: k_def)
      finally show False using no_border[OF k] by simp
    qed
  qed
  then have "find_text homepageTag ?d = Some ?n"
    using ne el by (auto simp: find_text_iff homepage_element_def)
  moreover have "find_text_from startString ?d (Some ?n) = Some (?n + 22)"
    by (simp only: find_text_from_def el Option.bind.simps) (simp add: find_start)
  moreover have "drop (?n + 22) ?d = startString @ url @ endString @ 0x0A # b"
    by (simp add: homepage_element_def)
  ultimately show ?thesis using home_page_read assms(2) by blast
qed

lemma join_split: "join_lines (split_at 0x0A c) = c"
proof (induction c)
  case (Cons x c)
  have "split_at 0x0A c \<noteq> []" by (cases c) (auto split: list.splits)
  then show ?case using Cons by (cases "split_at 0x0A c" rule: join_lines.cases) auto
qed simp


definition example_preferences :: "u16 list" where
  "example_preferences = wide ''<dict><key>HomePage</key><string>old</string></dict>''"


text \<open>A group is visited one address after the other, and its code is the error of Windows itself.\<close>

lemma safari_group_code:
  assumes "ve_urls v = [u]" "ve_errorCode v = 0" "sv_createError (env 0) = Some e"
  shows "ve_errorCode (safari_visitGroup env v) = e"
  using assms by (simp add: safari_visitGroup_def safari_turn_def safari_visitUrl_def Let_def setErrorCode_def)

end
