(* ===== verification/PacketDumper.thy ===== *)
theory PacketDumper
  imports ClientMonitor
begin

text \<open>
  NetworkPacketDumper.cpp and NetworkAdapter.cpp: the adapters of the machine that have an address,
  and the files their packets are written to while a visit is analysed. The pcap library is loaded at
  run time and answers through arguments; its handles are numbers.
\<close>

section \<open>The adapters\<close>

text \<open>The functions of wpcap.dll the dumper looks for.\<close>

datatype pcap_function = Findalldevs | OpenLive | Close | DumpOpen | Freealldevs | DumpClose | NextEx | Dump

definition all_pcap_functions :: "pcap_function list" where
  "all_pcap_functions = [Findalldevs, OpenLive, Close, DumpOpen, Freealldevs, DumpClose, NextEx, Dump]"

text \<open>Calling a function that was not found is a call through a null pointer.\<close>

definition pcap_call :: "pcap_function list \<Rightarrow> pcap_function \<Rightarrow> 'a \<Rightarrow> fault + 'a" where
  "pcap_call found f a = (if f \<in> set found then Inr a else Inl NullDeref)"

text \<open>
  A device: whether it has a name, the handle when it can be opened, and its addresses: none (a null
  pointer), one of another family, or the text of an internet address.
\<close>

datatype device_address = NoAddress | OtherFamily | Internet "u8 list"

record device =
  dv_named :: bool
  dv_handle :: "nat option"
  dv_addresses :: "device_address list"

text \<open>No functions: the library cannot be loaded. No devices: they cannot be listed, and the list starts where the variable happens to point.\<close>

record pcap_env =
  pc_found :: "pcap_function list option"
  pc_devices :: "device list option"

record adapter =
  na_adapterName :: "u8 list"
  na_adapter :: nat
  na_running :: bool
  na_thread :: bool
  na_dumpFile :: "nat option"

text \<open>The handles that are open: of the devices and of the files.\<close>

record packet_dumper =
  nd_monitorRunning :: bool
  nd_driverInstalled :: bool
  nd_found :: "pcap_function list"
  nd_adapterList :: "adapter list"
  nd_open :: "nat set"
  nd_files :: "nat set"

definition new_adapter :: "u8 list \<Rightarrow> nat \<Rightarrow> adapter" where
  "new_adapter name fp = \<lparr>na_adapterName = name, na_adapter = fp, na_running = False, na_thread = False, na_dumpFile = None\<rparr>"

fun add_addresses :: "nat \<Rightarrow> device_address list \<Rightarrow> packet_dumper \<Rightarrow> fault + packet_dumper" where
  "add_addresses fp [] d = Inr d"
| "add_addresses fp (NoAddress # as) d = Inl NullDeref"
| "add_addresses fp (OtherFamily # as) d = add_addresses fp as d"
| "add_addresses fp (Internet name # as) d = add_addresses fp as (d\<lparr>nd_adapterList := nd_adapterList d @ [new_adapter name fp]\<rparr>)"

definition add_device :: "device \<Rightarrow> packet_dumper \<Rightarrow> fault + packet_dumper" where
  "add_device dv d =
     (if \<not> dv_named dv then Inr d
      else fbind (pcap_call (nd_found d) OpenLive ()) (\<lambda>_.
        case dv_handle dv of
          None \<Rightarrow> Inr d
        | Some fp \<Rightarrow> add_addresses fp (dv_addresses dv) (d\<lparr>nd_open := insert fp (nd_open d)\<rparr>)))"

fun add_devices :: "device list \<Rightarrow> packet_dumper \<Rightarrow> fault + packet_dumper" where
  "add_devices [] d = Inr d"
| "add_devices (dv # dvs) d = fbind (add_device dv d) (add_devices dvs)"

definition new_dumper :: "pcap_env \<Rightarrow> fault + packet_dumper" where
  "new_dumper env =
     (let d = \<lparr>nd_monitorRunning = False, nd_driverInstalled = False, nd_found = [], nd_adapterList = [], nd_open = {}, nd_files = {}\<rparr>
      in case pc_found env of
           None \<Rightarrow> Inr d
         | Some found \<Rightarrow>
             if \<exists>f \<in> set all_pcap_functions. f \<in> set found then
               let d = d\<lparr>nd_driverInstalled := True, nd_found := found\<rparr>
               in fbind (pcap_call found Findalldevs ()) (\<lambda>_.
                  case pc_devices env of
                    None \<Rightarrow> Inl BadPointer
                  | Some dvs \<Rightarrow> fbind (add_devices dvs d) (\<lambda>d. pcap_call found Freealldevs d))
             else Inr (d\<lparr>nd_found := found\<rparr>))"

section \<open>Starting and stopping\<close>

text \<open>\<open>opened\<close> is the answer of pcap_dump_open.\<close>

definition adapter_start :: "nat option \<Rightarrow> adapter \<Rightarrow> adapter" where
  "adapter_start opened a =
     (if \<not> na_running a then a\<lparr>na_dumpFile := opened, na_thread := True, na_running := True\<rparr> else a)"

definition start_file :: "nat option \<Rightarrow> adapter \<Rightarrow> nat set \<Rightarrow> nat set" where
  "start_file opened a files =
     (if \<not> na_running a then (case opened of None \<Rightarrow> files | Some f \<Rightarrow> insert f files) else files)"

definition adapter_stop :: "pcap_function list \<Rightarrow> adapter \<Rightarrow> nat set \<Rightarrow> fault + adapter \<times> nat set" where
  "adapter_stop found a files =
     (if na_running a then
        (if na_thread a then
           fbind (case na_dumpFile a of
                    None \<Rightarrow> Inr files
                  | Some f \<Rightarrow> fbind (pcap_call found DumpClose ()) (\<lambda>_. if f \<in> files then Inr (files - {f}) else Inl BadPointer)) (\<lambda>files.
           Inr (a\<lparr>na_thread := False, na_running := False\<rparr>, files))
         else Inl BadPointer)
      else Inr (a, files))"

fun start_adapters :: "(nat \<Rightarrow> nat option) \<Rightarrow> nat \<Rightarrow> adapter list \<Rightarrow> nat set \<Rightarrow> adapter list \<times> nat set" where
  "start_adapters opened i [] files = ([], files)"
| "start_adapters opened i (a # as) files =
     (let (as', files') = start_adapters opened (i + 1) as (start_file (opened i) a files)
      in (adapter_start (opened i) a # as', files'))"

fun stop_adapters :: "pcap_function list \<Rightarrow> adapter list \<Rightarrow> nat set \<Rightarrow> fault + adapter list \<times> nat set" where
  "stop_adapters found [] files = Inr ([], files)"
| "stop_adapters found (a # as) files =
     fbind (adapter_stop found a files) (\<lambda>(a, files).
     fbind (stop_adapters found as files) (\<lambda>(as, files). Inr (a # as, files)))"

definition dumper_start :: "(nat \<Rightarrow> nat option) \<Rightarrow> packet_dumper \<Rightarrow> fault + packet_dumper" where
  "dumper_start opened d =
     (if \<not> nd_monitorRunning d \<and> nd_driverInstalled d then
        if nd_adapterList d \<noteq> [] \<and> DumpOpen \<notin> set (nd_found d) then Inl NullDeref
        else
          let (as, files) = start_adapters opened 0 (nd_adapterList d) (nd_files d)
          in Inr (d\<lparr>nd_adapterList := as, nd_files := files, nd_monitorRunning := True\<rparr>)
      else Inr d)"

definition dumper_stop :: "packet_dumper \<Rightarrow> fault + packet_dumper" where
  "dumper_stop d =
     (if nd_monitorRunning d \<and> nd_driverInstalled d then
        fbind (stop_adapters (nd_found d) (nd_adapterList d) (nd_files d)) (\<lambda>(as, files).
        Inr (d\<lparr>nd_adapterList := as, nd_files := files, nd_monitorRunning := False\<rparr>))
      else Inr d)"

text \<open>The names of the files that are deleted.\<close>

definition deleteAdapterFiles :: "packet_dumper \<Rightarrow> u8 list list" where
  "deleteAdapterFiles d =
     map (\<lambda>a. map (of_nat \<circ> of_char) ''logs'' @ 0x5C # na_adapterName a @ map (of_nat \<circ> of_char) ''.pcap'') (nd_adapterList d)"

text \<open>The destructor: the handle of each adapter is closed; a handle that is not open is memory that was freed.\<close>

fun close_adapters :: "pcap_function list \<Rightarrow> adapter list \<Rightarrow> nat set \<Rightarrow> fault + nat set" where
  "close_adapters found [] handles = Inr handles"
| "close_adapters found (a # as) handles =
     fbind (pcap_call found Close ()) (\<lambda>_.
     if na_adapter a \<in> handles then close_adapters found as (handles - {na_adapter a}) else Inl BadPointer)"

definition destroy_dumper :: "packet_dumper \<Rightarrow> fault + packet_dumper" where
  "destroy_dumper d =
     fbind (dumper_stop d) (\<lambda>d.
     fbind (close_adapters (nd_found d) (nd_adapterList d) (nd_open d)) (\<lambda>handles.
     Inr (d\<lparr>nd_open := handles, nd_adapterList := []\<rparr>)))"

section \<open>The thread of an adapter\<close>

text \<open>
  What pcap_next_ex answers, and for each answer whether running still holds when it is asked; the
  packets that are written.
\<close>

fun adapter_run :: "nat option \<Rightarrow> (bool \<times> int \<times> 'p) list \<Rightarrow> 'p list" where
  "adapter_run dumpFile [] = []"
| "adapter_run dumpFile ((running, res, packet) # answers) =
     (if running \<and> 0 \<le> res then
        (if 0 < res \<and> dumpFile \<noteq> None then [packet] else []) @ adapter_run dumpFile answers
      else [])"

section \<open>Handles\<close>

text \<open>The internet addresses of a device, and the adapters that are made for it.\<close>

definition internet_names :: "device \<Rightarrow> u8 list list" where
  "internet_names dv = [name. Internet name \<leftarrow> dv_addresses dv]"

definition device_adapters :: "device \<Rightarrow> adapter list" where
  "device_adapters dv =
     (case dv_handle dv of Some fp \<Rightarrow> (if dv_named dv then map (\<lambda>name. new_adapter name fp) (internet_names dv) else []) | None \<Rightarrow> [])"

definition device_handles :: "device list \<Rightarrow> nat list" where
  "device_handles dvs = [fp. Some fp \<leftarrow> map dv_handle (filter dv_named dvs)]"

lemma add_addresses_adapters:
  "NoAddress \<notin> set as \<Longrightarrow>
   add_addresses fp as d = Inr (d\<lparr>nd_adapterList := nd_adapterList d @ map (\<lambda>name. new_adapter name fp) [name. Internet name \<leftarrow> as]\<rparr>)"
proof (induction as arbitrary: d)
  case (Cons a as)
  then show ?case by (cases a) simp_all
qed simp

lemma add_devices_adapters:
  assumes "OpenLive \<in> set (nd_found d)" "\<forall>dv \<in> set dvs. NoAddress \<notin> set (dv_addresses dv)"
  shows "add_devices dvs d = Inr (d\<lparr>nd_adapterList := nd_adapterList d @ concat (map device_adapters dvs),
     nd_open := nd_open d \<union> set (device_handles dvs)\<rparr>)"
  using assms
proof (induction dvs arbitrary: d)
  case (Cons dv dvs)
  obtain d' where d': "add_device dv d = Inr d'" "nd_found d' = nd_found d"
    "d' = d\<lparr>nd_adapterList := nd_adapterList d @ device_adapters dv, nd_open := nd_open d \<union> set (device_handles [dv])\<rparr>"
    using Cons.prems
    by (cases "dv_handle dv")
       (auto simp: add_device_def pcap_call_def add_addresses_adapters device_adapters_def device_handles_def internet_names_def)
  then show ?case using Cons.IH[of d'] Cons.prems by (simp add: device_handles_def Un_assoc)
qed (simp add: device_handles_def)

lemma close_adapters_result:
  assumes "Close \<in> set found"
  shows "close_adapters found as handles =
     (if distinct (map na_adapter as) \<and> set (map na_adapter as) \<subseteq> handles then Inr (handles - set (map na_adapter as)) else Inl BadPointer)"
  using assms
proof (induction as arbitrary: handles)
  case (Cons a as)
  then show ?case by (auto simp: pcap_call_def) (metis imageI)+
qed simp

lemma adapters_of_device:
  "map na_adapter (device_adapters dv) =
     (case dv_handle dv of Some fp \<Rightarrow> if dv_named dv then replicate (length (internet_names dv)) fp else [] | None \<Rightarrow> [])"
  by (auto simp: device_adapters_def new_adapter_def comp_def map_replicate_const split: option.split)

text \<open>A device with two internet addresses has two adapters with the same handle.\<close>

definition twice :: "device \<Rightarrow> bool" where
  "twice dv \<longleftrightarrow> dv_named dv \<and> dv_handle dv \<noteq> None \<and> 1 < length (internet_names dv)"

lemma adapters_used:
  assumes "distinct (device_handles dvs)"
  shows "distinct (concat (map (map na_adapter \<circ> device_adapters) dvs)) \<longleftrightarrow> (\<forall>dv \<in> set dvs. \<not> twice dv)"
    and "set (concat (map (map na_adapter \<circ> device_adapters) dvs)) \<subseteq> set (device_handles dvs)"
proof -
  have sub: "set (concat (map (map na_adapter \<circ> device_adapters) dvs)) \<subseteq> set (device_handles dvs)" for dvs
    by (induction dvs) (auto simp: device_handles_def adapters_of_device split: option.splits if_splits)
  show "set (concat (map (map na_adapter \<circ> device_adapters) dvs)) \<subseteq> set (device_handles dvs)" by (rule sub)
  show "distinct (concat (map (map na_adapter \<circ> device_adapters) dvs)) \<longleftrightarrow> (\<forall>dv \<in> set dvs. \<not> twice dv)"
    using assms
  proof (induction dvs)
    case (Cons dv dvs)
    have "distinct (replicate n x) \<longleftrightarrow> n \<le> 1" for n and x :: nat by (induction n) auto
    then have d: "distinct (map na_adapter (device_adapters dv)) \<longleftrightarrow> \<not> twice dv"
      by (auto simp: adapters_of_device twice_def split: option.split)
    have "set (map na_adapter (device_adapters dv)) \<inter> set (device_handles dvs) = {}"
      using Cons.prems by (auto simp: adapters_of_device device_handles_def split: option.splits if_splits)
    then have "set (map na_adapter (device_adapters dv)) \<inter> set (concat (map (map na_adapter \<circ> device_adapters) dvs)) = {}"
      using sub[of dvs] by blast
    moreover have "distinct (device_handles dvs)" using Cons.prems by (cases "dv_handle dv") (auto simp: device_handles_def split: if_splits)
    ultimately show ?case using Cons.IH d by auto
  qed simp
qed

text \<open>
  C39: From the construction of the dumper to its end: with a library that has all functions the
  adapters are those of the internet addresses; when no device has two of them the end closes
  every handle that has an adapter, and leaves those of the devices without an address open; a device with two
  addresses makes it close one handle twice.
\<close>

theorem dumper_handles:
  assumes "pc_found env = Some all_pcap_functions" "pc_devices env = Some dvs" "\<forall>dv \<in> set dvs. NoAddress \<notin> set (dv_addresses dv)"
    and "distinct (device_handles dvs)"
  shows "\<exists>d. new_dumper env = Inr d \<and> nd_adapterList d = concat (map device_adapters dvs) \<and>
     (if \<forall>dv \<in> set dvs. \<not> twice dv
      then \<exists>d'. destroy_dumper d = Inr d' \<and>
        nd_open d' = set (device_handles dvs) - set (concat (map (map na_adapter \<circ> device_adapters) dvs))
      else destroy_dumper d = Inl BadPointer)"
proof -
  define d0 where "d0 = \<lparr>nd_monitorRunning = False, nd_driverInstalled = True, nd_found = all_pcap_functions, nd_adapterList = [],
    nd_open = {}, nd_files = {}\<rparr>"
  define d where "d = d0\<lparr>nd_adapterList := concat (map device_adapters dvs), nd_open := set (device_handles dvs)\<rparr>"
  have f: "f \<in> set all_pcap_functions" for f by (cases f) (simp_all add: all_pcap_functions_def)
  have "add_devices dvs d0 = Inr d"
    using add_devices_adapters[of d0 dvs] assms(3) f by (simp add: d_def d0_def)
  then have "new_dumper env = Inr d"
    using assms(1,2) f by (auto simp: new_dumper_def pcap_call_def d0_def Let_def)
  moreover define used where "used = concat (map (map na_adapter \<circ> device_adapters) dvs)"
  have "map na_adapter (concat (map device_adapters dvs)) = used" by (simp only: used_def map_concat map_map)
  then have "close_adapters all_pcap_functions (concat (map device_adapters dvs)) (set (device_handles dvs)) =
      (if distinct used \<and> set used \<subseteq> set (device_handles dvs) then Inr (set (device_handles dvs) - set used) else Inl BadPointer)"
    using close_adapters_result[OF f, of "concat (map device_adapters dvs)" "set (device_handles dvs)"] by (simp only:)
  then have "close_adapters all_pcap_functions (concat (map device_adapters dvs)) (set (device_handles dvs)) =
      (if \<forall>dv \<in> set dvs. \<not> twice dv
       then Inr (set (device_handles dvs) - set used) else Inl BadPointer)"
    using adapters_used[OF assms(4)] by (simp only: used_def[symmetric] simp_thms)
  ultimately show ?thesis
    by (auto simp: destroy_dumper_def dumper_stop_def d_def d0_def used_def[symmetric])
qed

definition example_device :: device where
  "example_device = \<lparr>dv_named = True, dv_handle = Some 1, dv_addresses = [Internet [49], Internet [50]]\<rparr>"

theorem dumper_handles_witness:
  "\<exists>d. new_dumper \<lparr>pc_found = Some all_pcap_functions, pc_devices = Some [example_device]\<rparr> = Inr d \<and> destroy_dumper d = Inl BadPointer"
  using dumper_handles[of "\<lparr>pc_found = Some all_pcap_functions, pc_devices = Some [example_device]\<rparr>" "[example_device]"]
  by (auto simp: example_device_def twice_def internet_names_def device_handles_def)

section \<open>Files\<close>

text \<open>The files the adapters are given.\<close>

definition given_files :: "(nat \<Rightarrow> nat option) \<Rightarrow> nat \<Rightarrow> nat \<Rightarrow> nat list" where
  "given_files opened i n = [f. Some f \<leftarrow> map opened [i..<i + n]]"

lemma upt_step: "[i..<i + Suc n] = i # [Suc i..<Suc i + n]"
  by (simp add: upt_conv_Cons)

lemma given_files_Suc: "given_files opened i (Suc n) = (case opened i of None \<Rightarrow> [] | Some f \<Rightarrow> [f]) @ given_files opened (Suc i) n"
  unfolding given_files_def upt_step by (simp split: option.split)

lemma start_adapters_result:
  assumes "\<forall>a \<in> set as. \<not> na_running a"
  shows "start_adapters opened i as files =
     (map2 (\<lambda>k a. a\<lparr>na_dumpFile := opened k, na_thread := True, na_running := True\<rparr>) [i..<i + length as] as,
      files \<union> set (given_files opened i (length as)))"
  using assms
proof (induction as arbitrary: i files)
  case (Cons a as)
  have "[i..<i + length (a # as)] = i # [Suc i..<Suc i + length as]" using upt_step[of i "length as"] by (simp only: list.size add_Suc_right add_0_right)
  then show ?case using Cons
    by (auto simp: given_files_Suc adapter_start_def start_file_def split: option.split simp del: upt_Suc)
qed (simp add: given_files_def)

lemma stop_adapters_result:
  assumes "DumpClose \<in> set found" "distinct (given_files opened i (length as))" "set (given_files opened i (length as)) \<inter> files = {}"
  shows "\<exists>as'. stop_adapters found
      (map2 (\<lambda>k a. a\<lparr>na_dumpFile := opened k, na_thread := True, na_running := True\<rparr>) [i..<i + length as] as)
      (files \<union> set (given_files opened i (length as))) = Inr (as', files) \<and>
     length as' = length as \<and> (\<forall>a \<in> set as'. \<not> na_running a \<and> \<not> na_thread a)"
  using assms(2,3)
proof (induction as arbitrary: i)
  case (Cons a as)
  have u: "[i..<i + length (a # as)] = i # [Suc i..<Suc i + length as]" using upt_step[of i "length as"] by (simp only: list.size add_Suc_right add_0_right)
  have g: "given_files opened i (length (a # as)) = (case opened i of None \<Rightarrow> [] | Some f \<Rightarrow> [f]) @ given_files opened (Suc i) (length as)"
    by (simp add: given_files_Suc)
  have "adapter_stop found (a\<lparr>na_dumpFile := opened i, na_thread := True, na_running := True\<rparr>) (files \<union> set (given_files opened i (length (a # as)))) =
      Inr (a\<lparr>na_dumpFile := opened i, na_thread := False, na_running := False\<rparr>, files \<union> set (given_files opened (Suc i) (length as)))"
    using Cons.prems assms(1) unfolding g
    by (auto simp: adapter_stop_def pcap_call_def split: option.splits)
  moreover have "distinct (given_files opened (Suc i) (length as))" "set (given_files opened (Suc i) (length as)) \<inter> files = {}"
    using Cons.prems unfolding g by auto
  from Cons.IH[OF this] obtain as' where "stop_adapters found
      (map2 (\<lambda>k a. a\<lparr>na_dumpFile := opened k, na_thread := True, na_running := True\<rparr>) [Suc i..<Suc i + length as] as)
      (files \<union> set (given_files opened (Suc i) (length as))) = Inr (as', files)" "length as' = length as"
    "\<forall>a \<in> set as'. \<not> na_running a \<and> \<not> na_thread a" by blast
  ultimately show ?case unfolding u by (simp del: upt_Suc)
qed (simp add: given_files_def)

text \<open>
  What a visit opens for its packets it closes again: after start and stop the open files are
  those from before, no adapter runs or has a thread, and the dumper can be started again.
\<close>

theorem capture_files_closed:
  assumes "nd_driverInstalled d" "\<not> nd_monitorRunning d" "\<forall>a \<in> set (nd_adapterList d). \<not> na_running a"
    and "DumpOpen \<in> set (nd_found d)" "DumpClose \<in> set (nd_found d)"
    and "distinct (given_files opened 0 (length (nd_adapterList d)))" "set (given_files opened 0 (length (nd_adapterList d))) \<inter> nd_files d = {}"
  shows "\<exists>d1 d2. dumper_start opened d = Inr d1 \<and> nd_monitorRunning d1 \<and> (\<forall>a \<in> set (nd_adapterList d1). na_running a) \<and>
     dumper_stop d1 = Inr d2 \<and> \<not> nd_monitorRunning d2 \<and> nd_files d2 = nd_files d \<and>
     length (nd_adapterList d2) = length (nd_adapterList d) \<and> (\<forall>a \<in> set (nd_adapterList d2). \<not> na_running a \<and> \<not> na_thread a)"
proof -
  let ?as = "nd_adapterList d"
  let ?as1 = "map2 (\<lambda>k a. a\<lparr>na_dumpFile := opened k, na_thread := True, na_running := True\<rparr>) [0..<0 + length ?as] ?as"
  let ?f1 = "nd_files d \<union> set (given_files opened 0 (length ?as))"
  have s: "dumper_start opened d = Inr (d\<lparr>nd_adapterList := ?as1, nd_files := ?f1, nd_monitorRunning := True\<rparr>)"
    using assms(1,2,4) start_adapters_result[OF assms(3), of opened 0 "nd_files d"] by (simp add: dumper_start_def)
  obtain as' where "stop_adapters (nd_found d) ?as1 ?f1 = Inr (as', nd_files d)" "length as' = length ?as"
    "\<forall>a \<in> set as'. \<not> na_running a \<and> \<not> na_thread a"
    using stop_adapters_result[OF assms(5-7)] by blast
  then have "dumper_stop (d\<lparr>nd_adapterList := ?as1, nd_files := ?f1, nd_monitorRunning := True\<rparr>) =
      Inr (d\<lparr>nd_adapterList := as', nd_files := nd_files d, nd_monitorRunning := False\<rparr>)"
    using assms(1) by (simp add: dumper_stop_def)
  moreover have "\<forall>a \<in> set ?as1. na_running a" by (auto simp: set_zip)
  ultimately show ?thesis using s \<open>length as' = length ?as\<close> \<open>\<forall>a \<in> set as'. \<not> na_running a \<and> \<not> na_thread a\<close> by auto
qed

theorem capture_files_closed_witness:
  "\<exists>d1 d2. dumper_start (\<lambda>_. Some 3)
      \<lparr>nd_monitorRunning = False, nd_driverInstalled = True, nd_found = all_pcap_functions, nd_adapterList = [new_adapter [49] 1],
       nd_open = {1}, nd_files = {}\<rparr> = Inr d1 \<and> dumper_stop d1 = Inr d2 \<and> nd_files d2 = {}"
  using capture_files_closed[of "\<lparr>nd_monitorRunning = False, nd_driverInstalled = True, nd_found = all_pcap_functions,
       nd_adapterList = [new_adapter [49] 1], nd_open = {1}, nd_files = {}\<rparr>" "\<lambda>_. Some 3"]
  by (auto simp: new_adapter_def all_pcap_functions_def given_files_def)

text \<open>One function of the library is enough for the dumper to count as installed; the next one it calls may be missing.\<close>

theorem one_function_is_enough:
  "new_dumper \<lparr>pc_found = Some [Dump], pc_devices = Some []\<rparr> = Inl NullDeref"
  by (simp add: new_dumper_def all_pcap_functions_def pcap_call_def Let_def)

end
