(* ===== verification/ClientThreads.thy ===== *)
theory ClientThreads
  imports Prelude
begin

text \<open>
  Thread.h of the client and the threads that are started and stopped with it: those of the
  registry, file and process monitors and the one that receives from the server. The steps of a
  thread and of its owner are interleaved: a program is a sequence of steps, each of which names
  who takes it. CreateThread may fail; malloc and OpenEvent are taken to succeed. Whether a
  thread ends within the five seconds it is given or is terminated then makes no difference to
  what it leaves behind.
\<close>

section \<open>Sequences of steps\<close>

text \<open>Steps that may fault, the steps that are allowed on the way, and an invariant that the allowed ones keep.\<close>

fun run_steps :: "('op \<Rightarrow> 's \<Rightarrow> fault + 's) \<Rightarrow> 'op list \<Rightarrow> 's \<Rightarrow> fault + 's" where
  "run_steps step [] s = Inr s"
| "run_steps step (op # ops) s = fbind (step op s) (run_steps step ops)"

fun allowed_steps :: "('op \<Rightarrow> 's \<Rightarrow> fault + 's) \<Rightarrow> ('op \<Rightarrow> 's \<Rightarrow> bool) \<Rightarrow> 'op list \<Rightarrow> 's \<Rightarrow> bool" where
  "allowed_steps step allowed [] s \<longleftrightarrow> True"
| "allowed_steps step allowed (op # ops) s \<longleftrightarrow>
     allowed op s \<and> (case step op s of Inl _ \<Rightarrow> True | Inr s' \<Rightarrow> allowed_steps step allowed ops s')"

locale stepped =
  fixes step :: "'op \<Rightarrow> 's \<Rightarrow> fault + 's"
    and allowed :: "'op \<Rightarrow> 's \<Rightarrow> bool"
    and inv :: "'s \<Rightarrow> bool"
  assumes step_inv: "inv s \<Longrightarrow> allowed op s \<Longrightarrow> \<exists>s'. step op s = Inr s' \<and> inv s'"
begin

lemma steps_inv: "inv s \<Longrightarrow> allowed_steps step allowed ops s \<Longrightarrow> \<exists>s'. run_steps step ops s = Inr s' \<and> inv s'"
proof (induction ops arbitrary: s)
  case (Cons op ops)
  from step_inv[OF Cons.prems(1)] Cons show ?case by fastforce
qed simp

end

section \<open>A monitor and its thread\<close>

text \<open>What differs: the thread of the file monitor does not look at \<open>monitorRunning\<close>; the process monitor
  has the handle of an event where the others have a buffer, and closes it before the thread is told to stop.\<close>

datatype monitor_kind = RegistryKind | FileKind | ProcessKind

text \<open>
  Where a thread is: made, inside threadProc, at the head of its loop, in its body. The body of
  the loop is the request for events into the buffer, or the wait for the event.
\<close>

datatype thread_phase = Created | Entered | Looping | Working

text \<open>
  Threads and buffers are numbered in the order they are made. The pointer to the Thread is None
  until there is one and when it is deleted.
\<close>

record worker =
  wk_running :: bool
  monitorRunning :: bool
  driverInstalled :: bool
  wk_thread :: "nat option"
  wk_phases :: "nat \<rightharpoonup> thread_phase"
  wk_buffer :: nat
  wk_open :: "nat set"
  wk_next :: nat
  wk_stopping :: bool

definition new_worker :: "bool \<Rightarrow> bool \<Rightarrow> worker" where
  "new_worker garbage installed =
     \<lparr>wk_running = garbage, monitorRunning = False, driverInstalled = installed, wk_thread = None, wk_phases = Map.empty,
      wk_buffer = 0, wk_open = {}, wk_next = 0, wk_stopping = False\<rparr>"

text \<open>Thread::start, with the answer of CreateThread.\<close>

definition thread_start :: "bool \<Rightarrow> worker \<Rightarrow> worker" where
  "thread_start created w =
     w\<lparr>wk_thread := Some (wk_next w), wk_next := wk_next w + 1,
       wk_phases := (if created then (wk_phases w)(wk_next w \<mapsto> Created) else wk_phases w)\<rparr>"

definition monitor_start :: "bool \<Rightarrow> worker \<Rightarrow> worker" where
  "monitor_start created w =
     (if \<not> monitorRunning w \<and> driverInstalled w then
        thread_start created (w\<lparr>wk_buffer := wk_next w, wk_open := insert (wk_next w) (wk_open w)\<rparr>)
      else w)"

text \<open>free and CloseHandle.\<close>

definition release_buffer :: "worker \<Rightarrow> fault + worker" where
  "release_buffer w =
     (if wk_buffer w \<in> wk_open w then Inr (w\<lparr>wk_open := wk_open w - {wk_buffer w}\<rparr>) else Inl BadPointer)"

text \<open>stop until the thread is waited for: Thread::stop clears the flag of the object the thread runs.\<close>

definition stop_begin :: "monitor_kind \<Rightarrow> worker \<Rightarrow> fault + worker" where
  "stop_begin k w =
     (if monitorRunning w \<and> driverInstalled w then
        fbind (if k = ProcessKind then release_buffer (w\<lparr>monitorRunning := False\<rparr>) else Inr (w\<lparr>monitorRunning := False\<rparr>)) (\<lambda>w.
        case wk_thread w of
          None \<Rightarrow> Inl BadPointer
        | Some n \<Rightarrow> Inr (w\<lparr>wk_running := False, wk_stopping := True\<rparr>))
      else Inr w)"

text \<open>The thread has ended or is terminated, and the rest of stop.\<close>

definition stop_end :: "monitor_kind \<Rightarrow> worker \<Rightarrow> fault + worker" where
  "stop_end k w0 =
     (case wk_thread w0 of
        None \<Rightarrow> Inl BadPointer
      | Some n \<Rightarrow>
          let w = w0\<lparr>wk_phases := (wk_phases w0)(n := None), wk_thread := None, wk_stopping := False\<rparr>
          in if k = ProcessKind then Inr w else release_buffer w)"

text \<open>One step of a thread: threadProc, the beginning of run, the loop.\<close>

definition loop_condition :: "monitor_kind \<Rightarrow> worker \<Rightarrow> bool" where
  "loop_condition k w \<longleftrightarrow> wk_running w \<and> (k = FileKind \<or> monitorRunning w)"

definition thread_turn :: "monitor_kind \<Rightarrow> nat \<Rightarrow> worker \<Rightarrow> fault + worker" where
  "thread_turn k n w =
     (let at = (\<lambda>p w. w\<lparr>wk_phases := (wk_phases w)(n \<mapsto> p)\<rparr>) in
      case wk_phases w n of
        None \<Rightarrow> Inr w
      | Some Created \<Rightarrow> Inr (at Entered (w\<lparr>wk_running := True\<rparr>))
      | Some Entered \<Rightarrow> Inr (at Looping (w\<lparr>monitorRunning := True\<rparr>))
      | Some Looping \<Rightarrow>
          if loop_condition k w then Inr (at Working w) else Inr (w\<lparr>wk_phases := (wk_phases w)(n := None)\<rparr>)
      | Some Working \<Rightarrow>
          if k \<noteq> ProcessKind \<and> wk_buffer w \<notin> wk_open w then Inl BadPointer else Inr (at Looping w))"

datatype worker_op = Start bool | StopBegin | StopEnd | Turn nat

text \<open>The owner is inside stop until it has waited; what it cannot do there changes nothing.\<close>

fun worker_step :: "monitor_kind \<Rightarrow> worker_op \<Rightarrow> worker \<Rightarrow> fault + worker" where
  "worker_step k (Start created) w = Inr (if wk_stopping w then w else monitor_start created w)"
| "worker_step k StopBegin w = (if wk_stopping w then Inr w else stop_begin k w)"
| "worker_step k StopEnd w = (if wk_stopping w then stop_end k w else Inr w)"
| "worker_step k (Turn n) w = thread_turn k n w"

definition worker_steps :: "monitor_kind \<Rightarrow> worker_op list \<Rightarrow> worker \<Rightarrow> fault + worker" where
  "worker_steps k = run_steps (worker_step k)"

text \<open>The destructor: stop, then the driver or the port is closed.\<close>

definition destroy_begin :: "monitor_kind \<Rightarrow> worker \<Rightarrow> fault + worker" where
  "destroy_begin k w = stop_begin k w"

definition destroy_end :: "monitor_kind \<Rightarrow> worker \<Rightarrow> fault + worker" where
  "destroy_end k w =
     fbind (if wk_stopping w then stop_end k w else Inr w) (\<lambda>w.
       Inr (if driverInstalled w then w\<lparr>driverInstalled := False\<rparr> else w))"

section \<open>One thread at a time\<close>

text \<open>A thread has not begun while it has not said that the monitor runs.\<close>

definition beginning :: "worker \<Rightarrow> bool" where
  "beginning w \<longleftrightarrow> (\<exists>n. wk_phases w n = Some Created \<or> wk_phases w n = Some Entered)"

text \<open>The owner never starts the monitor while a thread is beginning, and its threads can be made.\<close>

fun start_ok :: "worker_op \<Rightarrow> worker \<Rightarrow> bool" where
  "start_ok (Start created) w \<longleftrightarrow> created \<and> \<not> beginning w"
| "start_ok op w \<longleftrightarrow> True"

definition starts_ok :: "monitor_kind \<Rightarrow> worker_op list \<Rightarrow> worker \<Rightarrow> bool" where
  "starts_ok k = allowed_steps (worker_step k) start_ok"

text \<open>The four shapes of a monitor: at rest, with a thread that is beginning, at work, being stopped.\<close>

inductive worker_ok :: "monitor_kind \<Rightarrow> worker \<Rightarrow> bool" for k where
  idle: "wk_thread w = None \<Longrightarrow> wk_phases w = Map.empty \<Longrightarrow> wk_open w = {} \<Longrightarrow> \<not> monitorRunning w \<Longrightarrow> \<not> wk_stopping w \<Longrightarrow> worker_ok k w"
| young: "wk_thread w = Some n \<Longrightarrow> wk_phases w = [n \<mapsto> p] \<Longrightarrow> p = Created \<or> p = Entered \<and> wk_running w \<Longrightarrow>
    wk_open w = {wk_buffer w} \<Longrightarrow> \<not> monitorRunning w \<Longrightarrow> \<not> wk_stopping w \<Longrightarrow> worker_ok k w"
| busy: "wk_thread w = Some n \<Longrightarrow> wk_phases w = [n \<mapsto> p] \<Longrightarrow> p = Looping \<or> p = Working \<Longrightarrow>
    wk_open w = {wk_buffer w} \<Longrightarrow> monitorRunning w \<Longrightarrow> \<not> wk_stopping w \<Longrightarrow> wk_running w \<Longrightarrow> worker_ok k w"
| ending: "wk_thread w = Some n \<Longrightarrow> wk_phases w = Map.empty \<or> wk_phases w = [n \<mapsto> Looping] \<or> wk_phases w = [n \<mapsto> Working] \<Longrightarrow>
    wk_open w = (if k = ProcessKind then {} else {wk_buffer w}) \<Longrightarrow> \<not> monitorRunning w \<Longrightarrow> wk_stopping w \<Longrightarrow> worker_ok k w"

lemma new_worker_ok: "worker_ok k (new_worker garbage installed)"
  by (rule worker_ok.idle) (simp_all add: new_worker_def)

lemma beginning_single [simp]: "wk_phases w = [n \<mapsto> p] \<Longrightarrow> beginning w \<longleftrightarrow> p = Created \<or> p = Entered"
  by (auto simp: beginning_def)

lemma beginning_empty [simp]: "wk_phases w = Map.empty \<Longrightarrow> \<not> beginning w"
  by (simp add: beginning_def)

lemma thread_turn_ok:
  assumes "worker_ok k w"
  shows "\<exists>w'. thread_turn k n w = Inr w' \<and> worker_ok k w'"
  using assms
proof cases
  case idle
  then show ?thesis using assms by (simp add: thread_turn_def Let_def)
next
  case (young m p)
  show ?thesis
  proof (cases "n = m")
    case True
    show ?thesis
    proof (cases "p = Created")
      case pc: True
      have "worker_ok k (w\<lparr>wk_running := True, wk_phases := [m \<mapsto> Entered]\<rparr>)"
        by (rule worker_ok.young[of _ m Entered]) (use young in auto)
      then show ?thesis using young pc True by (simp add: thread_turn_def)
    next
      case False
      have "worker_ok k (w\<lparr>monitorRunning := True, wk_phases := [m \<mapsto> Looping]\<rparr>)"
        by (rule worker_ok.busy[of _ m Looping]) (use young False in auto)
      then show ?thesis using young False True by (simp add: thread_turn_def)
    qed
  qed (use young assms in \<open>simp add: thread_turn_def Let_def\<close>)
next
  case (busy m p)
  have "worker_ok k (w\<lparr>wk_phases := [m \<mapsto> q]\<rparr>)" if "q = Looping \<or> q = Working" for q
    by (rule worker_ok.busy[of _ m q]) (use busy that in auto)
  then show ?thesis
    using busy assms by (cases "n = m") (auto simp: thread_turn_def Let_def loop_condition_def)
next
  case (ending m)
  have "worker_ok k (w\<lparr>wk_phases := f\<rparr>)" if "f = Map.empty \<or> f = [m \<mapsto> Looping] \<or> f = [m \<mapsto> Working]" for f
    by (rule worker_ok.ending[of _ m]) (use ending that in simp_all)
  then show ?thesis
    using ending assms by (cases "n = m") (auto simp: thread_turn_def Let_def)
qed

lemma monitor_start_ok:
  assumes "worker_ok k w" "\<not> beginning w" "\<not> wk_stopping w"
  shows "worker_ok k (monitor_start True w)"
  using assms(1)
proof cases
  case idle
  have "worker_ok k (thread_start True (w\<lparr>wk_buffer := wk_next w, wk_open := insert (wk_next w) (wk_open w)\<rparr>))"
    by (rule worker_ok.young[of _ "wk_next w" Created]) (use idle in \<open>simp_all add: thread_start_def\<close>)
  then show ?thesis using assms(1) by (simp add: monitor_start_def)
qed (use assms in \<open>auto simp: monitor_start_def\<close>)

lemma stop_begin_ok:
  assumes "worker_ok k w" "\<not> wk_stopping w"
  shows "\<exists>w'. stop_begin k w = Inr w' \<and> worker_ok k w'"
  using assms(1)
proof cases
  case (busy n p)
  have "worker_ok k (w\<lparr>monitorRunning := False, wk_open := {}, wk_running := False, wk_stopping := True\<rparr>)" if "k = ProcessKind"
    by (rule worker_ok.ending[of _ n]) (use busy that in auto)
  moreover have "worker_ok k (w\<lparr>monitorRunning := False, wk_running := False, wk_stopping := True\<rparr>)" if "k \<noteq> ProcessKind"
    by (rule worker_ok.ending[of _ n]) (use busy that in auto)
  ultimately show ?thesis
    using busy assms(1) by (cases "k = ProcessKind") (auto simp: stop_begin_def release_buffer_def)
qed (use assms in \<open>auto simp: stop_begin_def\<close>)

lemma stop_end_ok:
  assumes "worker_ok k w" "wk_stopping w"
  shows "\<exists>w'. stop_end k w = Inr w' \<and> worker_ok k w'"
  using assms(1)
proof cases
  case (ending n)
  let ?w = "w\<lparr>wk_phases := (wk_phases w)(n := None), wk_thread := None, wk_stopping := False\<rparr>"
  have "worker_ok k ?w" if "k = ProcessKind" by (rule worker_ok.idle) (use ending that in auto)
  moreover have "worker_ok k (?w\<lparr>wk_open := {}\<rparr>)" if "k \<noteq> ProcessKind" by (rule worker_ok.idle) (use ending that in auto)
  ultimately show ?thesis using ending(1,3) by (cases "k = ProcessKind") (simp_all add: stop_end_def release_buffer_def Let_def)
qed (use assms in auto)

interpretation mt: stepped "worker_step k" start_ok "worker_ok k" for k
proof
  fix w op assume ok: "worker_ok k w" "start_ok op w"
  show "\<exists>w'. worker_step k op w = Inr w' \<and> worker_ok k w'"
  proof (cases op)
    case (Start created)
    then show ?thesis using ok monitor_start_ok[OF ok(1)] by auto
  qed (use ok(1) in \<open>auto intro: stop_begin_ok stop_end_ok thread_turn_ok\<close>)
qed

lemma worker_ok_single:
  assumes "worker_ok k w"
  shows "(\<forall>m n p q. wk_phases w m = Some p \<longrightarrow> wk_phases w n = Some q \<longrightarrow> m = n) \<and> wk_open w \<subseteq> {wk_buffer w} \<and>
     (wk_thread w = None \<longrightarrow> wk_phases w = Map.empty \<and> wk_open w = {})"
  using assms by cases (auto split: if_splits)

text \<open>
  C10: Whatever the threads of a monitor and its owner do in whatever order, as long as the owner
  does not start it again while a thread is beginning, no memory that was freed is used, no
  deleted Thread either, there is never more than one thread and one buffer, and when a stop is
  through nothing is left of either.
\<close>

theorem monitor_thread_safe:
  assumes "starts_ok k ops (new_worker garbage installed)"
  shows "\<exists>w. worker_steps k ops (new_worker garbage installed) = Inr w \<and>
     (\<forall>m n p q. wk_phases w m = Some p \<longrightarrow> wk_phases w n = Some q \<longrightarrow> m = n) \<and> wk_open w \<subseteq> {wk_buffer w} \<and>
     (wk_thread w = None \<longrightarrow> wk_phases w = Map.empty \<and> wk_open w = {})"
  using mt.steps_inv[OF new_worker_ok assms[unfolded starts_ok_def]] worker_ok_single unfolding worker_steps_def by blast

definition example_life :: "worker_op list" where
  "example_life = [Start True, Turn 0, Turn 0, Turn 0, Start True, Turn 0, StopBegin, Turn 0, StopEnd, Start True, Turn 1]"

theorem monitor_thread_safe_witness:
  "\<exists>w. worker_steps FileKind example_life (new_worker False True) = Inr w \<and>
     (\<forall>m n p q. wk_phases w m = Some p \<longrightarrow> wk_phases w n = Some q \<longrightarrow> m = n)"
proof -
  have "starts_ok FileKind example_life (new_worker False True)"
    by (simp add: starts_ok_def example_life_def new_worker_def monitor_start_def thread_start_def thread_turn_def beginning_def loop_condition_def
        stop_begin_def stop_end_def release_buffer_def Let_def)
  from monitor_thread_safe[OF this] show ?thesis by blast
qed

text \<open>
  The hypothesis is needed: started twice before its thread has begun, the registry monitor and
  the file monitor free the buffer the first thread writes to. And a stop that comes before the
  thread has begun is lost.
\<close>

theorem double_start_uses_freed_buffer:
  assumes "k \<noteq> ProcessKind"
  shows "worker_steps k [Start True, Start True, Turn 0, Turn 0, Turn 0, StopBegin, StopEnd, Turn 0] (new_worker garbage True) =
     Inl BadPointer"
  using assms by (cases k)
    (simp_all add: worker_steps_def new_worker_def monitor_start_def thread_start_def thread_turn_def loop_condition_def
        stop_begin_def stop_end_def release_buffer_def Let_def)

theorem double_start_uses_freed_buffer_witness:
  "worker_steps RegistryKind [Start True, Start True, Turn 0, Turn 0, Turn 0, StopBegin, StopEnd, Turn 0] (new_worker False True) =
     Inl BadPointer"
  by (rule double_start_uses_freed_buffer) simp

theorem early_stop_lost:
  "\<exists>w. worker_steps k [Start True, StopBegin, StopEnd, Turn 0, Turn 0, Turn 0] (new_worker garbage True) = Inr w \<and>
     wk_phases w 0 = Some Working \<and> monitorRunning w"
  by (simp add: worker_steps_def new_worker_def monitor_start_def thread_start_def thread_turn_def loop_condition_def stop_begin_def Let_def)

text \<open>The thread of the process monitor is in its wait when the handle it waits for is closed.\<close>

theorem event_closed_while_waiting:
  "\<exists>w. worker_steps ProcessKind [Start True, Turn 0, Turn 0, Turn 0, StopBegin] (new_worker garbage True) = Inr w \<and>
     wk_phases w 0 = Some Working \<and> wk_buffer w \<notin> wk_open w"
  by (simp add: worker_steps_def new_worker_def monitor_start_def thread_start_def thread_turn_def loop_condition_def stop_begin_def
      release_buffer_def Let_def)

section \<open>The thread that receives\<close>

text \<open>
  ServerReceive has a flag \<open>running\<close> of its own beside the one of the class Runnable, which
  threadProc and Thread::stop set and which it never reads. \<open>connected\<close> is what the server says
  at the head of the loop.
\<close>

record receiver =
  rv_running :: bool
  rv_base_running :: bool
  rv_thread :: "nat option"
  rv_phases :: "nat \<rightharpoonup> thread_phase"
  rv_next :: nat
  rv_starting :: bool
  rv_stopping :: bool

definition new_receiver :: "bool \<Rightarrow> receiver" where
  "new_receiver garbage =
     \<lparr>rv_running = False, rv_base_running = garbage, rv_thread = None, rv_phases = Map.empty, rv_next = 0,
      rv_starting = False, rv_stopping = False\<rparr>"

datatype receiver_op = RStart | RStarted | RStopBegin | RStopEnd | RTurn nat bool

definition receiver_turn :: "nat \<Rightarrow> bool \<Rightarrow> receiver \<Rightarrow> receiver" where
  "receiver_turn n connected r =
     (case rv_phases r n of
        Some Created \<Rightarrow> r\<lparr>rv_base_running := True, rv_phases := (rv_phases r)(n \<mapsto> Looping)\<rparr>
      | Some Looping \<Rightarrow>
          if rv_running r \<and> connected then r\<lparr>rv_phases := (rv_phases r)(n \<mapsto> Working)\<rparr>
          else r\<lparr>rv_running := False, rv_phases := (rv_phases r)(n := None)\<rparr>
      | Some Working \<Rightarrow> r\<lparr>rv_phases := (rv_phases r)(n \<mapsto> Looping)\<rparr>
      | _ \<Rightarrow> r)"

text \<open>start sets its flag when the thread is already there; stop clears it when the thread is gone.\<close>

fun receiver_step :: "receiver_op \<Rightarrow> receiver \<Rightarrow> receiver" where
  "receiver_step RStart r =
     (if \<not> rv_running r \<and> \<not> rv_starting r \<and> \<not> rv_stopping r then
        r\<lparr>rv_thread := Some (rv_next r), rv_phases := (rv_phases r)(rv_next r \<mapsto> Created), rv_next := rv_next r + 1,
          rv_starting := True\<rparr>
      else r)"
| "receiver_step RStarted r = (if rv_starting r then r\<lparr>rv_running := True, rv_starting := False\<rparr> else r)"
| "receiver_step RStopBegin r =
     (if rv_starting r \<or> rv_stopping r then r
      else if rv_running r then r\<lparr>rv_base_running := False, rv_stopping := True\<rparr> else r\<lparr>rv_running := False\<rparr>)"
| "receiver_step RStopEnd r =
     (if rv_stopping r then
        r\<lparr>rv_phases := (case rv_thread r of Some n \<Rightarrow> (rv_phases r)(n := None) | None \<Rightarrow> rv_phases r),
          rv_running := False, rv_stopping := False\<rparr>
      else r)"
| "receiver_step (RTurn n connected) r = receiver_turn n connected r"

definition receiver_steps :: "receiver_op list \<Rightarrow> receiver \<Rightarrow> receiver" where
  "receiver_steps ops r = fold receiver_step ops r"

lemma receiver_turn_none: "rv_phases r = Map.empty \<Longrightarrow> receiver_turn n connected r = r"
  by (simp add: receiver_turn_def)

text \<open>
  When the new thread looks at the flag before start has set it, it ends at once, and from then
  on, until someone calls stop, there is a receiver that counts as running and has no thread: no
  later start makes one.
\<close>

theorem receiver_start_lost:
  assumes "RStopBegin \<notin> set ops" "rv_phases r = Map.empty" "\<not> rv_running r" "\<not> rv_starting r" "\<not> rv_stopping r"
  shows "rv_running (receiver_steps ([RStart, RTurn (rv_next r) c, RTurn (rv_next r) c', RStarted] @ ops) r) \<and>
     rv_phases (receiver_steps ([RStart, RTurn (rv_next r) c, RTurn (rv_next r) c', RStarted] @ ops) r) = Map.empty"
proof -
  let ?n = "rv_next r"
  have rest: "rv_running (fold receiver_step ops q) \<and> rv_phases (fold receiver_step ops q) = Map.empty"
    if "rv_running q" "rv_phases q = Map.empty" "\<not> rv_starting q" "\<not> rv_stopping q" "RStopBegin \<notin> set ops" for q ops
    using that
  proof (induction ops arbitrary: q)
    case (Cons op ops)
    then have "receiver_step op q = q" by (cases op) (auto simp: receiver_turn_none)
    then show ?case using Cons by simp
  qed simp
  define q where "q = receiver_steps [RStart, RTurn ?n c, RTurn ?n c', RStarted] r"
  have q: "rv_running q" "rv_phases q = Map.empty" "\<not> rv_starting q" "\<not> rv_stopping q"
    using assms by (auto simp: q_def receiver_steps_def receiver_turn_def)
  have "receiver_steps ([RStart, RTurn ?n c, RTurn ?n c', RStarted] @ ops) r = fold receiver_step ops q"
    by (simp add: q_def receiver_steps_def)
  with rest[OF q assms(1)] show ?thesis by simp
qed

theorem receiver_start_lost_witness:
  "rv_phases (receiver_steps [RStart, RTurn 0 True, RTurn 0 True, RStarted, RStart, RTurn 1 True] (new_receiver False)) = Map.empty"
  using receiver_start_lost[of "[RStart, RTurn 1 True]" "new_receiver False" True True] by (simp add: new_receiver_def)

text \<open>
  Asked to stop, the thread of a connection that is up never ends by itself, however many turns it
  takes: the flag that is cleared is not the one it looks at, and it is terminated in the end.
\<close>

theorem receiver_never_ends_itself:
  assumes "rv_running r" "rv_stopping r" "rv_phases r n = Some Looping \<or> rv_phases r n = Some Working"
  shows "rv_phases (receiver_steps (replicate k (RTurn n True)) r) n \<noteq> None"
proof -
  have "rv_running r \<Longrightarrow> rv_phases r n = Some Looping \<or> rv_phases r n = Some Working \<Longrightarrow>
      rv_phases (fold receiver_step (replicate k (RTurn n True)) r) n \<noteq> None" for r
    by (induction k arbitrary: r) (auto simp: receiver_turn_def)
  with assms show ?thesis by (simp add: receiver_steps_def)
qed

theorem receiver_never_ends_itself_witness:
  "rv_phases (receiver_steps (replicate 9 (RTurn 0 True)) (receiver_steps [RStart, RTurn 0 True, RStarted, RStopBegin] (new_receiver False))) 0 \<noteq> None"
  by (rule receiver_never_ends_itself) (simp_all add: new_receiver_def receiver_steps_def receiver_turn_def)

end
