(* ===== verification/FileBackup.thy ===== *)
theory FileBackup
  imports Bytes
begin

text \<open>
  The part of FileMonitor/CaptureFileMonitor.c that saves a file before it is deleted: the DOS
  name of its drive, the directories below the log directory, and the copy of the contents.
  What the code asks the kernel to do with the disk is a list of operations; what the kernel
  answers is in the environment. Temporary blocks are freed on the way and not counted.
\<close>

datatype disk_op =
    MakeDirectory "u16 list"
  | CreateCopy "u16 list" nat
  | WriteChunk nat "u8 list"
  | CloseCopy

section \<open>Copying the contents\<close>

text \<open>
  A read gives a status and the bytes read, a write a status. The offset is a signed 64-bit
  number: a read at an offset that would be negative fails.
\<close>

record copy_env =
  cv_query :: NTSTATUS
  cv_allocation :: nat
  cv_create :: NTSTATUS
  cv_reference :: NTSTATUS
  cv_buffer :: bool
  cv_read :: "nat \<Rightarrow> NTSTATUS \<times> u8 list"
  cv_write :: "nat \<Rightarrow> NTSTATUS"

definition chunk_size :: nat where "chunk_size = 65536"

lemma chunk_size_pos [simp]: "0 < chunk_size"
  by (simp add: chunk_size_def)

function copy_loop :: "copy_env \<Rightarrow> nat \<Rightarrow> disk_op list" where
  "copy_loop env offset =
     (if 2 ^ 63 \<le> offset then []
      else let (status, bytes) = cv_read env offset in
           if NT_SUCCESS status \<and> bytes \<noteq> [] then
             (if NT_SUCCESS (cv_write env offset) then [WriteChunk offset bytes] else []) @
             (if length bytes = chunk_size then copy_loop env (offset + chunk_size) else [])
           else [])"
  by pat_completeness auto
termination
  by (relation "measure (\<lambda>(env, offset). 2 ^ 63 - offset)") (auto simp: chunk_size_def)

declare copy_loop.simps [simp del]

text \<open>The status of the reads and writes does not reach the caller.\<close>

definition CopyFile :: "copy_env \<Rightarrow> u16 list \<Rightarrow> NTSTATUS \<times> disk_op list" where
  "CopyFile env path =
     (if \<not> NT_SUCCESS (cv_query env) then (cv_query env, [])
      else if NT_SUCCESS (cv_create env) then
        (if \<not> NT_SUCCESS (cv_reference env) then (cv_reference env, [CreateCopy path (cv_allocation env)])
         else (STATUS_SUCCESS, CreateCopy path (cv_allocation env) #
                 (if cv_buffer env then copy_loop env 0 else []) @ [CloseCopy]))
      else if cv_create env \<noteq> STATUS_OBJECT_NAME_COLLISION then (cv_create env, [])
      else (STATUS_SUCCESS, []))"

section \<open>Directories\<close>

definition CreateADirectory :: "u16 list \<Rightarrow> disk_op list" where
  "CreateADirectory path = [MakeDirectory path]"

text \<open>Appending a string that ends in a NUL: what stands before its first one.\<close>

definition RtlUnicodeStringCatString :: "unicode_string \<Rightarrow> u16 list \<Rightarrow> unicode_string" where
  "RtlUnicodeStringCatString d s = RtlUnicodeStringCat d (takeWhile (\<lambda>c. c \<noteq> 0) s)"

text \<open>The maximal length, in characters, of a string with room for some others and one more character.\<close>

definition room_for :: "nat list \<Rightarrow> nat" where
  "room_for ms = (2 * sum_list ms + 2) mod 65536 div 2"

text \<open>
  The loop over the characters of the directory. \<open>prev\<close> is the position of the last separator;
  \<open>blocks\<close> says for which positions there is memory for the part of the path.
\<close>

function directory_loop :: "(nat \<Rightarrow> bool) \<Rightarrow> u16 list \<Rightarrow> nat \<Rightarrow> nat \<Rightarrow> unicode_string \<Rightarrow> disk_op list" where
  "directory_loop blocks dir i prev tot =
     (if i < length dir then
        if dir ! i = 0x5C \<and> i \<noteq> 0 then
          if blocks i then
            let tot' = RtlUnicodeStringCatString tot (take (i - prev) (drop prev dir))
            in CreateADirectory (us_chars tot') @ directory_loop blocks dir (i + 1) i tot'
          else []
        else directory_loop blocks dir (i + 1) prev tot
      else [])"
  by pat_completeness auto
termination by (relation "measure (\<lambda>(blocks, dir, i, prev, tot). length dir - i)") auto

declare directory_loop.simps [simp del]

definition CreateAllDirectories :: "bool \<Rightarrow> (nat \<Rightarrow> bool) \<Rightarrow> unicode_string \<Rightarrow> unicode_string \<Rightarrow> disk_op list" where
  "CreateAllDirectories block blocks root dir =
     (if \<not> block then []
      else directory_loop blocks (us_chars dir) 0 0
             (RtlUnicodeStringCat \<lparr>us_chars = [], us_maximum = room_for [us_maximum root, us_maximum dir]\<rparr> (us_chars root)))"

section \<open>The name of the drive\<close>

text \<open>IoVolumeDeviceToDosName: status and name; whether there is memory for the result.\<close>

record drive_answers =
  dv_status :: NTSTATUS
  dv_name :: unicode_string
  dv_block :: bool

definition GetDosDeviceName :: "drive_answers \<Rightarrow> unicode_string option \<Rightarrow> fault + unicode_string" where
  "GetDosDeviceName a share =
     (if NT_SUCCESS (dv_status a) then
        let max = room_for [us_maximum (dv_name a)];
            chars = 0x5C # filter (\<lambda>c. c \<noteq> 0x3A) (us_chars (dv_name a))
        in if \<not> dv_block a then Inr \<lparr>us_chars = [], us_maximum = max\<rparr>
           else if max < length chars then Inl OutOfBounds
           else Inr \<lparr>us_chars = chars, us_maximum = max\<rparr>
      else case share of
        Some s \<Rightarrow> Inr (if dv_block a then RtlUnicodeStringCopy \<lparr>us_chars = [], us_maximum = us_maximum s\<rparr> (us_chars s)
                       else \<lparr>us_chars = [], us_maximum = us_maximum s\<rparr>)
      | None \<Rightarrow> Inr (if dv_block a then RtlUnicodeStringCatString \<lparr>us_chars = [], us_maximum = 15\<rparr> (0x5C # wide ''UNKNOWN DRIVE'')
                     else \<lparr>us_chars = [], us_maximum = 15\<rparr>))"

section \<open>Saving a file\<close>

record name_information =
  ni_Share :: unicode_string
  ni_ParentDir :: unicode_string
  ni_FinalComponent :: unicode_string

text \<open>What the operation asks for, and the answers while the file is saved.\<close>

record backup_env =
  bk_is_directory :: bool
  bk_major :: u8
  bk_disposition :: bool
  bk_delete :: bool
  bk_synchronous :: bool
  bk_parse :: NTSTATUS
  bk_drive :: drive_answers
  bk_path_block :: bool
  bk_directory_block :: bool
  bk_total_block :: bool
  bk_part_blocks :: "nat \<Rightarrow> bool"
  bk_copy :: copy_env

abbreviation (input) IRP_MJ_SET_INFORMATION :: u8 where "IRP_MJ_SET_INFORMATION \<equiv> 6"

definition marked_for_deletion :: "backup_env \<Rightarrow> bool" where
  "marked_for_deletion env \<longleftrightarrow> \<not> bk_is_directory env \<and> bk_major env = IRP_MJ_SET_INFORMATION \<and> bk_disposition env \<and> bk_delete env \<and> bk_synchronous env"

definition complete_file_path :: "unicode_string \<Rightarrow> unicode_string \<Rightarrow> name_information \<Rightarrow> unicode_string" where
  "complete_file_path logDirectory drive ni =
     RtlUnicodeStringCat (RtlUnicodeStringCat (RtlUnicodeStringCat (RtlUnicodeStringCat
       \<lparr>us_chars = [], us_maximum = room_for [us_maximum logDirectory, us_maximum drive, us_maximum (ni_FinalComponent ni), us_maximum (ni_ParentDir ni)]\<rparr>
       (us_chars logDirectory)) (us_chars drive)) (us_chars (ni_ParentDir ni))) (us_chars (ni_FinalComponent ni))"

definition file_directory :: "unicode_string \<Rightarrow> name_information \<Rightarrow> unicode_string" where
  "file_directory drive ni =
     RtlUnicodeStringCat (RtlUnicodeStringCat \<lparr>us_chars = [], us_maximum = room_for [us_maximum (ni_ParentDir ni), us_maximum drive]\<rparr>
       (us_chars drive)) (us_chars (ni_ParentDir ni))"

text \<open>
  The information about the name is None when the pointer to it was never set. A string
  without memory has no characters: the routines of the library refuse it.
\<close>

definition without_buffer :: "bool \<Rightarrow> unicode_string \<Rightarrow> unicode_string" where
  "without_buffer block s = (if block then s else s\<lparr>us_chars := []\<rparr>)"

definition save_file :: "backup_env \<Rightarrow> unicode_string \<Rightarrow> name_information \<Rightarrow> fault + disk_op list" where
  "save_file env logDirectory ni =
     fbind (GetDosDeviceName (bk_drive env) (Some (ni_Share ni))) (\<lambda>drive.
       let completeFilePath = without_buffer (bk_path_block env) (complete_file_path logDirectory drive ni);
           fileDirectory = without_buffer (bk_directory_block env) (file_directory drive ni)
       in Inr (CreateAllDirectories (bk_total_block env) (bk_part_blocks env) logDirectory fileDirectory @
               snd (CopyFile (bk_copy env) (us_chars completeFilePath))))"

definition CopyFileIfBeingDeleted :: "backup_env \<Rightarrow> bool \<Rightarrow> unicode_string \<Rightarrow> name_information option \<Rightarrow> fault + disk_op list" where
  "CopyFileIfBeingDeleted env collect logDirectory info =
     (if \<not> marked_for_deletion env then Inr []
      else case info of
        None \<Rightarrow> Inl BadPointer
      | Some ni \<Rightarrow> if NT_SUCCESS (bk_parse env) \<and> collect then save_file env logDirectory ni else Inr [])"

section \<open>The contents arrive\<close>

text \<open>A file that is read from: whole chunks, a last part, and then the end.\<close>

definition reads_file :: "copy_env \<Rightarrow> u8 list \<Rightarrow> bool" where
  "reads_file env data \<longleftrightarrow> length data < 2 ^ 63 \<and> (\<forall>offset. NT_SUCCESS (cv_write env offset) \<and>
     (if offset < length data then cv_read env offset = (STATUS_SUCCESS, take chunk_size (drop offset data))
      else \<not> NT_SUCCESS (fst (cv_read env offset)) \<or> snd (cv_read env offset) = []))"

text \<open>The contents of a file after writing at some offsets; a gap is filled with zeros.\<close>

fun write_at :: "u8 list \<Rightarrow> disk_op \<Rightarrow> u8 list" where
  "write_at file (WriteChunk offset bytes) =
     take offset (file @ replicate (offset - length file) 0) @ bytes @ drop (offset + length bytes) file"
| "write_at file _ = file"

definition written :: "disk_op list \<Rightarrow> u8 list" where
  "written ops = foldl write_at [] ops"

lemma write_at_end: "write_at file (WriteChunk (length file) bytes) = file @ bytes"
  by simp

lemma copy_loop_writes:
  assumes "reads_file env data" "offset \<le> length data"
  shows "foldl write_at (take offset data) (copy_loop env offset) = data"
  using assms(2)
proof (induction "length data - offset" arbitrary: offset rule: less_induct)
  case less
  have small: "\<not> 2 ^ 63 \<le> offset" using assms(1) less.prems by (simp add: reads_file_def)
  have w: "NT_SUCCESS (cv_write env offset)" using assms(1) by (simp add: reads_file_def)
  show ?case
  proof (cases "offset < length data")
    case True
    let ?chunk = "take chunk_size (drop offset data)"
    have read: "cv_read env offset = (STATUS_SUCCESS, ?chunk)" using assms(1) True by (auto simp: reads_file_def)
    have ne: "?chunk \<noteq> []" using True by (simp add: chunk_size_def)
    have first: "write_at (take offset data) (WriteChunk offset ?chunk) = take (offset + chunk_size) data"
      using write_at_end[of "take offset data" ?chunk] True by (simp add: take_add)
    show ?thesis
    proof (cases "length ?chunk = chunk_size")
      case True
      then have le: "offset + chunk_size \<le> length data" by (auto simp: min_def chunk_size_def split: if_splits)
      then have "length data - (offset + chunk_size) < length data - offset" using chunk_size_pos by linarith
      from less.hyps[OF this le] True show ?thesis
        using small w first ne by (subst copy_loop.simps) (simp add: read)
    next
      case False
      then have "length data \<le> offset + chunk_size" by simp
      then show ?thesis using small w first ne False by (subst copy_loop.simps) (simp add: read)
    qed
  next
    case False
    then have "\<not> (NT_SUCCESS (fst (cv_read env offset)) \<and> snd (cv_read env offset) \<noteq> [])"
      using assms(1) spec[of _ offset] unfolding reads_file_def by metis
    then have "copy_loop env offset = []"
      using small by (subst copy_loop.simps) (auto split: prod.splits)
    then show ?thesis using False less.prems by simp
  qed
qed

section \<open>The directories are there\<close>

definition separators :: "u16 list \<Rightarrow> nat \<Rightarrow> nat list" where
  "separators dir i = filter (\<lambda>k. dir ! k = 0x5C \<and> k \<noteq> 0) [i ..< length dir]"

lemma separators_step: "i < length dir \<Longrightarrow> separators dir i = (if dir ! i = 0x5C \<and> i \<noteq> 0 then [i] else []) @ separators dir (Suc i)"
  by (simp add: separators_def upt_conv_Cons)

lemma directory_loop_all:
  assumes "\<forall>i. blocks i" "0 \<notin> set dir" "prev \<le> i" "i \<le> length dir"
    and "us_chars tot = root @ take prev dir" "length root + length dir \<le> us_maximum tot"
  shows "directory_loop blocks dir i prev tot = map (\<lambda>k. MakeDirectory (root @ take k dir)) (separators dir i)"
  using assms(3-6)
proof (induction "length dir - i" arbitrary: i prev tot)
  case 0
  then show ?case by (subst directory_loop.simps) (simp add: separators_def)
next
  case (Suc n)
  then have i: "i < length dir" by simp
  show ?case
  proof (cases "dir ! i = 0x5C \<and> i \<noteq> 0")
    case True
    have "0 \<notin> set (take (i - prev) (drop prev dir))"
      using assms(2) by (meson in_set_dropD in_set_takeD)
    then have tw: "takeWhile (\<lambda>c. c \<noteq> 0) (take (i - prev) (drop prev dir)) = take (i - prev) (drop prev dir)"
      by (simp add: takeWhile_eq_all_conv) metis
    have split: "take prev dir @ take (i - prev) (drop prev dir) = take i dir"
      using Suc.prems(1) by (metis le_add_diff_inverse take_add)
    let ?t = "RtlUnicodeStringCatString tot (take (i - prev) (drop prev dir))"
    have t: "us_chars ?t = root @ take i dir" "us_maximum ?t = us_maximum tot"
      using Suc.prems(3,4) i split by (simp_all add: RtlUnicodeStringCatString_def tw RtlUnicodeStringCat_def)
    have "directory_loop blocks dir (Suc i) i ?t = map (\<lambda>k. MakeDirectory (root @ take k dir)) (separators dir (Suc i))"
      using Suc.hyps(1)[of "Suc i" i ?t] Suc.hyps(2) Suc.prems(4) i t by simp
    then show ?thesis
      using True i assms(1) t by (subst directory_loop.simps) (simp add: separators_step CreateADirectory_def Let_def)
  next
    case False
    have "directory_loop blocks dir (Suc i) prev tot = map (\<lambda>k. MakeDirectory (root @ take k dir)) (separators dir (Suc i))"
      using Suc.hyps(1)[of "Suc i" prev tot] Suc.hyps(2) Suc.prems i by simp
    then show ?thesis using False i by (subst directory_loop.simps) (auto simp: separators_step)
  qed
qed

lemma separators_last:
  assumes "dir = p @ [0x5C]" "p \<noteq> []"
  shows "separators dir 0 \<noteq> [] \<and> last (separators dir 0) = length p"
  using assms by (simp add: separators_def nth_append)

text \<open>Everything granted, and the lengths of the parts within what a counted string can hold.\<close>

definition backup_granted :: "backup_env \<Rightarrow> bool" where
  "backup_granted env \<longleftrightarrow> NT_SUCCESS (dv_status (bk_drive env)) \<and> dv_block (bk_drive env) \<and> bk_path_block env \<and> bk_directory_block env \<and>
     bk_total_block env \<and> (\<forall>i. bk_part_blocks env i) \<and> us_ok (dv_name (bk_drive env))"

definition parts_fit :: "backup_env \<Rightarrow> unicode_string \<Rightarrow> name_information \<Rightarrow> bool" where
  "parts_fit env logDirectory ni \<longleftrightarrow> us_ok logDirectory \<and> us_ok (ni_ParentDir ni) \<and> us_ok (ni_FinalComponent ni) \<and>
     us_maximum logDirectory + us_maximum (dv_name (bk_drive env)) + us_maximum (ni_ParentDir ni) + us_maximum (ni_FinalComponent ni) + 3 < 32768"

lemma room_for_fits: "sum_list ms + 1 < 32768 \<Longrightarrow> room_for ms = sum_list ms + 1"
  by (simp add: room_for_def)

lemma Cat_fits: "length (us_chars d) + length s \<le> us_maximum d \<Longrightarrow> RtlUnicodeStringCat d s = d\<lparr>us_chars := us_chars d @ s\<rparr>"
  by (simp add: RtlUnicodeStringCat_def)

lemma save_file_directories:
  assumes "backup_granted env" "parts_fit env logDirectory ni" "us_chars (ni_ParentDir ni) = p @ [0x5C]"
    and "drive = 0x5C # filter (\<lambda>c. c \<noteq> 0x3A) (us_chars (dv_name (bk_drive env)))" "0 \<notin> set drive" "0 \<notin> set p"
  shows "save_file env logDirectory ni = Inr
     (map (\<lambda>k. MakeDirectory (us_chars logDirectory @ take k (drive @ p @ [0x5C]))) (separators (drive @ p @ [0x5C]) 0) @
      snd (CopyFile (bk_copy env) (us_chars logDirectory @ drive @ p @ 0x5C # us_chars (ni_FinalComponent ni))))"
proof -
  let ?n = "us_maximum (dv_name (bk_drive env))" and ?l = "us_maximum logDirectory"
  let ?p = "us_maximum (ni_ParentDir ni)" and ?f = "us_maximum (ni_FinalComponent ni)"
  have sum: "?l + ?n + ?p + ?f + 3 < 32768" using assms(2) by (simp add: parts_fit_def)
  have len: "length (us_chars logDirectory) \<le> ?l" "length p + 1 \<le> ?p" "length (us_chars (ni_FinalComponent ni)) \<le> ?f"
    using assms(2,3) by (simp_all add: parts_fit_def us_ok_def)
  have "length (filter (\<lambda>c. c \<noteq> 0x3A) (us_chars (dv_name (bk_drive env)))) \<le> length (us_chars (dv_name (bk_drive env)))" by simp
  also have "\<dots> \<le> ?n" using assms(1) by (simp add: backup_granted_def us_ok_def)
  finally have dn: "length drive \<le> ?n + 1" by (simp add: assms(4))
  define N where "N = ?n + 1"
  define Q where "Q = ?p + N + 1"
  have d: "length drive \<le> N" "?p + N \<le> Q" using dn by (simp_all add: N_def Q_def)
  have r: "room_for [?n] = N" "room_for [?p, N] = Q" "room_for [?l, N, ?f, ?p] = ?l + N + ?f + ?p + 1" "room_for [?l, Q] = ?l + Q + 1"
    using sum by (simp_all add: room_for_fits N_def Q_def)
  let ?D = "\<lparr>us_chars = drive, us_maximum = N\<rparr>"
  have drv: "GetDosDeviceName (bk_drive env) (Some (ni_Share ni)) = Inr ?D"
    using assms(1) d by (simp add: GetDosDeviceName_def backup_granted_def r(1) assms(4)[symmetric] Let_def)
  have cp: "complete_file_path logDirectory ?D ni =
      \<lparr>us_chars = us_chars logDirectory @ drive @ p @ 0x5C # us_chars (ni_FinalComponent ni), us_maximum = ?l + N + ?f + ?p + 1\<rparr>"
    unfolding complete_file_path_def using len d by (simp add: r(3) assms(3) Cat_fits)
  have fd: "file_directory ?D ni = \<lparr>us_chars = drive @ p @ [0x5C], us_maximum = Q\<rparr>"
    unfolding file_directory_def using len d by (simp add: r(2) assms(3) Cat_fits)
  let ?t = "\<lparr>us_chars = us_chars logDirectory, us_maximum = ?l + Q + 1\<rparr>"
  have "CreateAllDirectories True (bk_part_blocks env) logDirectory \<lparr>us_chars = drive @ p @ [0x5C], us_maximum = Q\<rparr> =
      directory_loop (bk_part_blocks env) (drive @ p @ [0x5C]) 0 0 ?t"
    using len by (simp add: CreateAllDirectories_def r(4) Cat_fits)
  also have "\<dots> = map (\<lambda>k. MakeDirectory (us_chars logDirectory @ take k (drive @ p @ [0x5C]))) (separators (drive @ p @ [0x5C]) 0)"
    using assms(1,5,6) len d by (intro directory_loop_all) (simp_all add: backup_granted_def)
  finally show ?thesis
    using assms(1) by (simp add: save_file_def drv cp fd without_buffer_def backup_granted_def Let_def)
qed

section \<open>Properties\<close>

text \<open>
  C35: Copying a file that is about to be deleted ends, closes the copy, and puts into it
  exactly the bytes of the file, in chunks of 64 KiB, whatever their number.
\<close>

theorem CopyFile_copies:
  assumes "reads_file env data" "NT_SUCCESS (cv_query env)" "NT_SUCCESS (cv_create env)" "NT_SUCCESS (cv_reference env)" "cv_buffer env"
  shows "\<exists>writes. CopyFile env path = (STATUS_SUCCESS, CreateCopy path (cv_allocation env) # writes @ [CloseCopy]) \<and> written writes = data"
  using assms(2-5) copy_loop_writes[OF assms(1), of 0] by (simp add: CopyFile_def written_def)

definition copy_demo :: copy_env where
  "copy_demo = \<lparr>cv_query = STATUS_SUCCESS, cv_allocation = 4096, cv_create = STATUS_SUCCESS, cv_reference = STATUS_SUCCESS, cv_buffer = True,
     cv_read = (\<lambda>offset. if offset < 3 then (STATUS_SUCCESS, take chunk_size (drop offset [1, 2, 3])) else (0xC0000011, [])),
     cv_write = (\<lambda>_. STATUS_SUCCESS)\<rparr>"

lemma copy_demo_reads: "reads_file copy_demo [1, 2, 3]"
  by (simp add: reads_file_def copy_demo_def)

theorem CopyFile_copies_witness:
  "\<exists>writes. CopyFile copy_demo [7] = (STATUS_SUCCESS, CreateCopy [7] 4096 # writes @ [CloseCopy]) \<and> written writes = [1, 2, 3]"
  using CopyFile_copies[OF copy_demo_reads, of "[7]"] by (simp add: copy_demo_def)

text \<open>
  A saved file goes to the log directory, the drive without its colon, the directory of
  the file and its name; before the copy is made, each directory of that path below the log
  directory is asked for once, outermost first, and the last one is the directory of the copy.
\<close>

theorem save_file_makes_directories:
  assumes "backup_granted env" "parts_fit env logDirectory ni" "us_chars (ni_ParentDir ni) = p @ [0x5C]"
    and "drive = 0x5C # filter (\<lambda>c. c \<noteq> 0x3A) (us_chars (dv_name (bk_drive env)))" "0 \<notin> set drive" "0 \<notin> set p"
  shows "\<exists>dirs. save_file env logDirectory ni = Inr (map MakeDirectory dirs @
       snd (CopyFile (bk_copy env) (us_chars logDirectory @ drive @ p @ 0x5C # us_chars (ni_FinalComponent ni)))) \<and>
     dirs = map (\<lambda>k. us_chars logDirectory @ take k (drive @ p @ [0x5C])) (separators (drive @ p @ [0x5C]) 0) \<and>
     dirs \<noteq> [] \<and> last dirs = us_chars logDirectory @ drive @ p"
proof -
  let ?fd = "drive @ p @ [0x5C]"
  have "drive @ p \<noteq> []" by (simp add: assms(4))
  then have l: "separators ?fd 0 \<noteq> []" "last (separators ?fd 0) = length (drive @ p)"
    using separators_last[of ?fd "drive @ p"] by simp_all
  then have "last (map (\<lambda>k. us_chars logDirectory @ take k ?fd) (separators ?fd 0)) = us_chars logDirectory @ drive @ p"
    by (simp add: last_map)
  then show ?thesis using save_file_directories[OF assms] l(1) by simp
qed

definition backup_demo :: backup_env where
  "backup_demo = \<lparr>bk_is_directory = False, bk_major = IRP_MJ_SET_INFORMATION, bk_disposition = True, bk_delete = True, bk_synchronous = True,
     bk_parse = STATUS_SUCCESS, bk_drive = \<lparr>dv_status = STATUS_SUCCESS, dv_name = \<lparr>us_chars = wide ''C:'', us_maximum = 2\<rparr>, dv_block = True\<rparr>,
     bk_path_block = True, bk_directory_block = True, bk_total_block = True, bk_part_blocks = (\<lambda>_. True), bk_copy = copy_demo\<rparr>"

definition information_demo :: name_information where
  "information_demo = \<lparr>ni_Share = \<lparr>us_chars = [], us_maximum = 0\<rparr>, ni_ParentDir = \<lparr>us_chars = [0x5C] @ wide ''tmp'' @ [0x5C], us_maximum = 5\<rparr>,
     ni_FinalComponent = \<lparr>us_chars = wide ''a.txt'', us_maximum = 5\<rparr>\<rparr>"

definition log_demo :: unicode_string where
  "log_demo = \<lparr>us_chars = wide ''L'', us_maximum = 10\<rparr>"

theorem save_file_makes_directories_witness:
  "\<exists>dirs ops. save_file backup_demo log_demo information_demo = Inr (map MakeDirectory dirs @ ops) \<and>
     last dirs = wide ''L'' @ [0x5C] @ wide ''C'' @ [0x5C] @ wide ''tmp''"
proof -
  have g: "backup_granted backup_demo" "parts_fit backup_demo log_demo information_demo"
    "us_chars (ni_ParentDir information_demo) = ([0x5C] @ wide ''tmp'') @ [0x5C]"
    by (simp_all add: backup_granted_def backup_demo_def us_ok_def parts_fit_def log_demo_def information_demo_def wide_def)
  have d: "[0x5C] @ wide ''C'' = 0x5C # filter (\<lambda>c. c \<noteq> 0x3A) (us_chars (dv_name (bk_drive backup_demo)))"
    by (simp add: backup_demo_def wide_def)
  have "0 \<notin> set ([0x5C] @ wide ''C'')" "0 \<notin> set ([0x5C] @ wide ''tmp'')" by (simp_all add: wide_def)
  from save_file_makes_directories[OF g d this] obtain dirs ops where
    "save_file backup_demo log_demo information_demo = Inr (map MakeDirectory dirs @ ops)"
    "last dirs = us_chars log_demo @ ([0x5C] @ wide ''C'') @ [0x5C] @ wide ''tmp''"
    by (elim exE conjE)
  then show ?thesis by (intro exI[of _ dirs] exI[of _ ops]) (simp add: log_demo_def)
qed

end
