(* ===== verification/FileMonitor.thy ===== *)
theory FileMonitor
  imports PacketQueue FileBackup "HOL-Library.Multiset"
begin

text \<open>
  FileMonitor/CaptureFileMonitor.c: the filter that reports operations on files. An event is
  made before an operation, travels with it, and is completed and queued after it. The state
  is the manager and the events that are under way with their operations; the blocks of the
  pool that outlive a call are counted.
\<close>

abbreviation (input) USERSPACE_CONNECTION_TIMEOUT :: u32 where "USERSPACE_CONNECTION_TIMEOUT \<equiv> 10"
abbreviation (input) IRP_MJ_SHUTDOWN :: u8 where "IRP_MJ_SHUTDOWN \<equiv> 0x10"
abbreviation (input) FILE_DEVICE_NETWORK_FILE_SYSTEM :: u32 where "FILE_DEVICE_NETWORK_FILE_SYSTEM \<equiv> 0x14"

text \<open>The operations the filter is called for, and whether it is called after them, too.\<close>

definition Callbacks :: "(u8 \<times> bool) list" where
  "Callbacks = [(0x00, True), (0x01, True), (0x02, True), (0x03, True), (0x04, True), (0x05, True), (0x06, True), (0x07, True),
     (0x08, True), (0x09, True), (0x0A, True), (0x0B, True), (0x0C, True), (0x0D, True), (0x0E, True), (0x0F, True),
     (IRP_MJ_SHUTDOWN, False), (0x11, True), (0x12, True), (0x13, True), (0x14, True), (0x15, True), (0x19, True), (0x1A, True),
     (0x1B, True), (0xFF, True), (0xFE, True), (0xFD, True), (0xFC, True), (0xFB, True), (0xFA, True), (0xF3, True), (0xF2, True),
     (0xF1, True), (0xF0, True), (0xEF, True), (0xEE, True), (0xED, True), (0xEC, True)]"

section \<open>Events\<close>

text \<open>Two bytes that nothing sets follow the two types.\<close>

record file_event =
  fe_majorFileEventType :: u8
  fe_minorFileEventType :: u8
  fe_padding :: "u8 list"
  fe_status :: NTSTATUS
  fe_information :: u32
  fe_flags :: u32
  fe_time :: "u8 list"
  fe_processId :: u32
  fe_filePathLength :: u32
  fe_filePath :: "u16 list"

definition sizeof_FILE_EVENT :: u32 where "sizeof_FILE_EVENT = 40"

definition file_bytes :: "file_event \<Rightarrow> u8 list" where
  "file_bytes e = [fe_majorFileEventType e, fe_minorFileEventType e] @ fe_padding e @ le_bytes32 (fe_status e) @
     le_bytes32 (fe_information e) @ le_bytes32 (fe_flags e) @ fe_time e @ le_bytes32 (fe_processId e) @
     le_bytes32 (fe_filePathLength e) @ char_bytes (fe_filePath e)"

definition fileEventSize :: "file_event \<Rightarrow> u32" where
  "fileEventSize e = sizeof_FILE_EVENT + fe_filePathLength e"

datatype file_block = EventBlock | PacketBlock | LogBlock

text \<open>Without a buffer the log directory has no characters.\<close>

record file_manager =
  fm_bReady :: bool
  fm_bCollectDeletedFiles :: bool
  fm_client :: bool
  fm_logBuffer :: bool
  fm_logDirectory :: unicode_string
  fm_queue :: "file_event list"
  fm_lastContactTime :: u32
  fm_pool :: "file_block multiset"

definition free_log :: "file_manager \<Rightarrow> file_manager" where
  "free_log m = (if fm_logBuffer m then m\<lparr>fm_logBuffer := False, fm_logDirectory := (fm_logDirectory m)\<lparr>us_chars := []\<rparr>,
                                         fm_pool := fm_pool m - {#LogBlock#}\<rparr> else m)"

definition queued_file_blocks :: "nat \<Rightarrow> file_block multiset" where
  "queued_file_blocks n = repeat_mset n {#EventBlock, PacketBlock#}"

definition FreeQueuedEvents :: "file_manager \<Rightarrow> file_manager" where
  "FreeQueuedEvents m = m\<lparr>fm_queue := [], fm_pool := fm_pool m - queued_file_blocks (length (fm_queue m))\<rparr>"

definition ConnectionChecker :: "u32 \<Rightarrow> file_manager \<Rightarrow> file_manager" where
  "ConnectionChecker now m =
     (if USERSPACE_CONNECTION_TIMEOUT + USERSPACE_CONNECTION_TIMEOUT div 2 < now - fm_lastContactTime m then FreeQueuedEvents m else m)"

definition UpdateLastContactTime :: "u32 \<Rightarrow> file_manager \<Rightarrow> file_manager" where
  "UpdateLastContactTime now m = m\<lparr>fm_lastContactTime := now\<rparr>"

section \<open>Before an operation\<close>

record pre_env =
  pv_fs_filter :: bool
  pv_path_block :: bool
  pv_file_object :: bool
  pv_name :: "NTSTATUS \<times> u16 list"
  pv_information :: name_information
  pv_opened_name :: "NTSTATUS \<times> u16 list"
  pv_related :: bool
  pv_object_name :: unicode_string
  pv_device_block :: bool
  pv_volume_size :: "NTSTATUS \<times> u32"
  pv_temp_block :: bool
  pv_volume_name :: "NTSTATUS \<times> u16 list"
  pv_event :: "file_event option"
  pv_minor :: u8
  pv_flags :: u32
  pv_pid :: u32
  pv_time :: "u8 list"
  pv_backup :: backup_env

text \<open>
  The two queries for the name. When the first one fails the pointer to its result was never
  set, and the file is saved with it after the second one.
\<close>

definition query_file_name :: "pre_env \<Rightarrow> file_manager \<Rightarrow> fault + disk_op list \<times> u16 list option" where
  "query_file_name env m =
     (let save = CopyFileIfBeingDeleted (pv_backup env) (fm_bCollectDeletedFiles m) (fm_logDirectory m);
          found = (\<lambda>name. if name \<noteq> [] then Some name else None)
      in if \<not> pv_file_object env then Inr ([], None)
         else case pv_name env of (status, name) \<Rightarrow>
           if NT_SUCCESS status then fbind (save (Some (pv_information env))) (\<lambda>ops. Inr (ops, found name))
           else case pv_opened_name env of (lstatus, lname) \<Rightarrow>
             if NT_SUCCESS lstatus then fbind (save None) (\<lambda>ops. Inr (ops, found lname))
             else Inr ([], None))"

definition upcase :: "u16 \<Rightarrow> u16" where
  "upcase c = (if 0x61 \<le> c \<and> c \<le> 0x7A then c - 0x20 else c)"

definition is_device_path :: "u16 list \<Rightarrow> bool" where
  "is_device_path name \<longleftrightarrow> 7 \<le> length name \<and> map upcase (take 7 name) = map upcase (0x5C # wide ''Device'')"

text \<open>The name in the file object, as it is or behind that of its volume.\<close>

definition object_file_name :: "pre_env \<Rightarrow> fault + u16 list option" where
  "object_file_name env =
     (if \<not> pv_file_object env \<or> pv_related env \<or> us_chars (pv_object_name env) = [] then Inr None
      else if \<not> pv_device_block env then Inl NullDeref
      else let name = us_chars (pv_object_name env) in
           if is_device_path name then Inr (Some name)
           else case pv_volume_size env of (status, needed) \<Rightarrow>
             if status = STATUS_BUFFER_TOO_SMALL \<and> pv_temp_block env then
               let maximum = (2 * us_maximum (pv_object_name env) + 2 + unat (ucast needed :: u16)) mod 65536 div 2
               in case pv_volume_name env of (status', volume) \<Rightarrow>
                 if NT_SUCCESS status' then
                   Inr (Some (us_chars (RtlUnicodeStringCat \<lparr>us_chars = take maximum volume, us_maximum = maximum\<rparr> name)))
                 else Inr None
             else Inr None)"

definition make_file_event :: "pre_env \<Rightarrow> u16 list \<Rightarrow> file_event \<Rightarrow> file_event" where
  "make_file_event env path e =
     e\<lparr>fe_filePathLength := of_nat (2 * length path) + 2,
       fe_filePath := RtlStringCbCopyUnicodeString (2 * length path + 2) path,
       fe_majorFileEventType :=
         (if bk_major (pv_backup env) = IRP_MJ_SET_INFORMATION \<and> bk_disposition (pv_backup env) \<and> bk_delete (pv_backup env) then 0x99
          else bk_major (pv_backup env)),
       fe_minorFileEventType := pv_minor env,
       fe_flags := (if pv_file_object env then pv_flags env else fe_flags e),
       fe_processId := pv_pid env,
       fe_time := pv_time env\<rparr>"

section \<open>After an operation\<close>

record post_env =
  po_draining :: bool
  po_status :: NTSTATUS
  po_information :: u32
  po_now :: u32
  po_packet_block :: bool

definition QueueFileEvent :: "post_env \<Rightarrow> file_event \<Rightarrow> file_manager \<Rightarrow> bool \<times> file_manager" where
  "QueueFileEvent env e m =
     (if po_now env - fm_lastContactTime m \<le> USERSPACE_CONNECTION_TIMEOUT \<and> po_packet_block env then
        (True, m\<lparr>fm_queue := fm_queue m @ [e], fm_pool := add_mset PacketBlock (fm_pool m)\<rparr>)
      else (False, m))"

definition free_event :: "file_manager \<Rightarrow> file_manager" where
  "free_event m = m\<lparr>fm_pool := fm_pool m - {#EventBlock#}\<rparr>"

definition PostFileOperationCallback :: "post_env \<Rightarrow> file_event option \<Rightarrow> file_manager \<Rightarrow> file_manager" where
  "PostFileOperationCallback env ctx m =
     (case ctx of
        None \<Rightarrow> m
      | Some e \<Rightarrow>
          if po_draining env then free_event m
          else let (queued, m') = QueueFileEvent env (e\<lparr>fe_status := po_status env, fe_information := po_information env\<rparr>) m
               in if queued then m' else free_event m')"

datatype pre_result = NO_CALLBACK | WITH_CALLBACK file_event

text \<open>With \<open>post\<close>, should the operation be a shutdown: then nothing is called after it.\<close>

definition PreFileOperationCallback ::
    "pre_env \<Rightarrow> post_env \<Rightarrow> file_manager \<Rightarrow> fault + disk_op list \<times> pre_result \<times> file_manager" where
  "PreFileOperationCallback env post m =
     (if pv_fs_filter env \<or> \<not> pv_path_block env then Inr ([], NO_CALLBACK, m)
      else fbind (query_file_name env m) (\<lambda>(ops, found).
           fbind (if found = None then object_file_name env else Inr found) (\<lambda>found'.
             let path = take 32767 (case found' of None \<Rightarrow> wide ''UNKNOWN'' | Some p \<Rightarrow> p) in
             case pv_event env of
               None \<Rightarrow> Inr (ops, NO_CALLBACK, m)
             | Some block \<Rightarrow>
                 let e = make_file_event env path block;
                     m1 = m\<lparr>fm_pool := add_mset EventBlock (fm_pool m)\<rparr>
                 in if bk_major (pv_backup env) = IRP_MJ_SHUTDOWN then
                      Inr (ops, NO_CALLBACK, PostFileOperationCallback (post\<lparr>po_draining := False\<rparr>) (Some e) m1)
                    else Inr (ops, WITH_CALLBACK e, m1))))"

section \<open>Messages of the process\<close>

text \<open>The setup, or None when reading it raises an exception.\<close>

record file_setup =
  fs_bCollectDeletedFiles :: bool
  fs_nLogDirectorySize :: u32
  fs_wszLogDirectory :: "u16 list"

record message_env =
  mg_input_null :: bool
  mg_input_size :: u32
  mg_input_raises :: bool
  mg_command :: u32
  mg_output_size :: u32
  mg_raises :: "u32 \<Rightarrow> u32 \<Rightarrow> bool"
  mg_exception :: NTSTATUS
  mg_setup :: "file_setup option"
  mg_block :: bool
  mg_now :: u32

definition sizeof_FILEMONITOR_SETUP :: u32 where "sizeof_FILEMONITOR_SETUP = 2056"

definition GetFileEvents :: "message_env \<Rightarrow> file_manager \<Rightarrow> NTSTATUS \<times> u32 \<times> file_event list \<times> file_manager" where
  "GetFileEvents env m =
     (let (out, used, raised, q) = drain sizeof_FILE_EVENT fileEventSize (mg_raises env) (mg_output_size env) 0 (fm_queue m);
          m1 = m\<lparr>fm_pool := fm_pool m - queued_file_blocks (length out)\<rparr>
      in (case raised of
            None \<Rightarrow> (STATUS_SUCCESS, used, out, m1\<lparr>fm_queue := q\<rparr>)
          | Some e \<Rightarrow> (mg_exception env, 0, out, m1\<lparr>fm_queue := e # q\<rparr>)))"

definition log_directory :: "file_setup \<Rightarrow> unicode_string" where
  "log_directory s =
     (let size = (12 + unat (fs_nLogDirectorySize s)) mod 65536;
          empty = \<lparr>us_chars = [], us_maximum = size div 2\<rparr>
      in if odd size then empty
         else RtlUnicodeStringCatString (RtlUnicodeStringCat empty [0x5C, 0x3F, 0x3F, 0x5C]) (fs_wszLogDirectory s))"

definition SetupMonitor :: "message_env \<Rightarrow> file_setup \<Rightarrow> file_manager \<Rightarrow> file_manager" where
  "SetupMonitor env s m =
     (if fs_bCollectDeletedFiles s then
        let m1 = free_log m
        in if mg_block env then
             m1\<lparr>fm_logBuffer := True, fm_bCollectDeletedFiles := True, fm_logDirectory := log_directory s,
                fm_pool := add_mset LogBlock (fm_pool m1)\<rparr>
           else m1
      else free_log (m\<lparr>fm_bCollectDeletedFiles := False\<rparr>))"

text \<open>
  Status, number of bytes returned, the events in the buffer, the manager. The case of the
  setup runs on into the default.
\<close>

definition MessageCallback :: "message_env \<Rightarrow> file_manager \<Rightarrow> NTSTATUS \<times> u32 \<times> file_event list \<times> file_manager" where
  "MessageCallback env m =
     (if mg_input_null env \<or> \<not> 4 \<le> mg_input_size env then (STATUS_INVALID_PARAMETER, 0, [], m)
      else if mg_input_raises env then (mg_exception env, 0, [], m)
      else if mg_command env = 0 then GetFileEvents env (UpdateLastContactTime (mg_now env) m)
      else if mg_command env = 1 \<and> mg_output_size env = sizeof_FILEMONITOR_SETUP then
        (case mg_setup env of
           None \<Rightarrow> (mg_exception env, 0, [], m)
         | Some s \<Rightarrow> (STATUS_INVALID_PARAMETER, 0, [], SetupMonitor env s m))
      else (STATUS_INVALID_PARAMETER, 0, [], m))"

definition ConnectCallback :: "file_manager \<Rightarrow> NTSTATUS \<times> file_manager" where
  "ConnectCallback m = (STATUS_SUCCESS, m\<lparr>fm_client := True\<rparr>)"

definition DisconnectCallback :: "file_manager \<Rightarrow> file_manager" where
  "DisconnectCallback m = (free_log (FreeQueuedEvents m))\<lparr>fm_bCollectDeletedFiles := False, fm_client := False\<rparr>"

section \<open>Loading and unloading\<close>

record file_driver =
  fd_filter :: bool
  fd_port :: bool
  fd_filtering :: bool
  fd_timer :: bool
  fd_manager :: file_manager

record file_load =
  fl_register :: NTSTATUS
  fl_descriptor :: NTSTATUS
  fl_port :: NTSTATUS
  fl_start :: NTSTATUS
  fl_now :: u32

definition DriverEntry :: "file_load \<Rightarrow> file_driver \<Rightarrow> NTSTATUS \<times> file_driver" where
  "DriverEntry a d =
     (let d0 = d\<lparr>fd_manager := (fd_manager d)\<lparr>fm_bReady := False, fm_bCollectDeletedFiles := False, fm_queue := []\<rparr>\<rparr>
      in if \<not> NT_SUCCESS (fl_register a) then (fl_register a, d0)
         else let d1 = d0\<lparr>fd_filter := True\<rparr>
              in if \<not> NT_SUCCESS (fl_descriptor a) then (fl_descriptor a, d1)
                 else if \<not> NT_SUCCESS (fl_port a) then (fl_port a, d1\<lparr>fd_port := False, fd_filter := False\<rparr>)
                 else if \<not> NT_SUCCESS (fl_start a) then (fl_start a, d1\<lparr>fd_port := False, fd_filter := False\<rparr>)
                 else (STATUS_SUCCESS,
                       d1\<lparr>fd_port := True, fd_filtering := True, fd_timer := True,
                          fd_manager := (UpdateLastContactTime (fl_now a) (fd_manager d1))
                            \<lparr>fm_bReady := True, fm_logBuffer := False, fm_logDirectory := (fm_logDirectory (fd_manager d1))\<lparr>us_chars := []\<rparr>\<rparr>\<rparr>))"

definition FilterUnload :: "file_driver \<Rightarrow> NTSTATUS \<times> file_driver" where
  "FilterUnload d =
     (let d1 = d\<lparr>fd_port := False\<rparr>;
          d2 = (if fm_bReady (fd_manager d1) then d1\<lparr>fd_filter := False, fd_filtering := False, fd_timer := False\<rparr> else d1)
      in (STATUS_SUCCESS, d2\<lparr>fd_manager := FreeQueuedEvents ((free_log (fd_manager d2))\<lparr>fm_bCollectDeletedFiles := False\<rparr>)\<rparr>))"

definition SetupCallback :: "u32 \<Rightarrow> NTSTATUS" where
  "SetupCallback volumeDeviceType =
     (if volumeDeviceType = FILE_DEVICE_NETWORK_FILE_SYSTEM then STATUS_FLT_DO_NOT_ATTACH else STATUS_SUCCESS)"

section \<open>The filter at work\<close>

text \<open>
  The filter manager calls before and after an operation as the table says; \<open>After k\<close> completes
  the k-th event under way. The process gets events only with a successful status.
\<close>

datatype file_op =
    Before pre_env post_env
  | After nat post_env
  | Message message_env
  | Tick u32
  | Connect
  | Disconnect

type_synonym file_state = "file_manager \<times> file_event list"

definition called_after :: "u8 \<Rightarrow> bool" where
  "called_after major \<longleftrightarrow> (major, True) \<in> set Callbacks"

definition accepted :: "file_manager \<Rightarrow> file_manager \<Rightarrow> file_event list" where
  "accepted m m' = drop (length (fm_queue m)) (fm_queue m')"

definition file_step :: "file_op \<Rightarrow> file_state \<Rightarrow> (file_event list \<times> file_event list \<times> file_state) option" where
  "file_step op s =
     (case (op, s) of
        (Before env post, m, under_way) \<Rightarrow>
          if bk_major (pv_backup env) \<in> fst ` set Callbacks then
            (case PreFileOperationCallback env post m of
               Inl _ \<Rightarrow> None
             | Inr (ops, NO_CALLBACK, m') \<Rightarrow> Some (accepted m m', [], m', under_way)
             | Inr (ops, WITH_CALLBACK e, m') \<Rightarrow>
                 Some ([], [], m', if called_after (bk_major (pv_backup env)) then under_way @ [e] else under_way))
          else Some ([], [], s)
      | (After k post, m, under_way) \<Rightarrow>
          if k < length under_way then
            let m' = PostFileOperationCallback post (Some (under_way ! k)) m
            in Some (accepted m m', [], m', take k under_way @ drop (Suc k) under_way)
          else Some ([], [], s)
      | (Message env, m, under_way) \<Rightarrow> (case MessageCallback env m of
           (status, n, out, m') \<Rightarrow> Some ([], if NT_SUCCESS status then out else [], m', under_way))
      | (Tick now, m, under_way) \<Rightarrow> Some ([], [], ConnectionChecker now m, under_way)
      | (Connect, m, under_way) \<Rightarrow> Some ([], [], snd (ConnectCallback m), under_way)
      | (Disconnect, m, under_way) \<Rightarrow> Some ([], [], DisconnectCallback m, under_way))"

definition file_items :: "file_state \<Rightarrow> file_event list" where
  "file_items s = fm_queue (fst s)"

definition file_keeps :: "file_op \<Rightarrow> file_state \<Rightarrow> bool" where
  "file_keeps op s \<longleftrightarrow>
     (case op of Tick now \<Rightarrow> now - fm_lastContactTime (fst s) \<le> 15 | Disconnect \<Rightarrow> fm_queue (fst s) = []
      | Message env \<Rightarrow> \<forall>used n. \<not> mg_raises env used n | _ \<Rightarrow> True)"

lemma free_log_queue [simp]: "fm_queue (free_log m) = fm_queue m" "fm_lastContactTime (free_log m) = fm_lastContactTime m"
  by (simp_all add: free_log_def)

text \<open>What the part after an operation queues.\<close>

definition posted :: "post_env \<Rightarrow> file_event option \<Rightarrow> file_manager \<Rightarrow> file_event list" where
  "posted env ctx m =
     (case ctx of None \<Rightarrow> []
      | Some e \<Rightarrow> if \<not> po_draining env \<and> po_now env - fm_lastContactTime m \<le> USERSPACE_CONNECTION_TIMEOUT \<and> po_packet_block env
                  then [e\<lparr>fe_status := po_status env, fe_information := po_information env\<rparr>] else [])"

lemma Post_queue [simp]: "fm_queue (PostFileOperationCallback env ctx m) = fm_queue m @ posted env ctx m"
  by (cases ctx) (auto simp: PostFileOperationCallback_def QueueFileEvent_def free_event_def posted_def)

lemma Pre_queue:
  assumes "PreFileOperationCallback env post m = Inr (ops, r, m')"
  shows "\<exists>l. fm_queue m' = fm_queue m @ l \<and> (r = NO_CALLBACK \<or> l = [])"
  using assms by (auto simp: PreFileOperationCallback_def fbind_eq_Inr Let_def split: if_splits option.splits)

lemma GetFileEvents_queue:
  assumes "GetFileEvents env m = (status, n, out, m')"
  shows "out @ fm_queue m' = fm_queue m \<and> (NT_SUCCESS status \<or> (\<exists>used n. mg_raises env used n))"
proof -
  obtain o1 used x q where d: "drain sizeof_FILE_EVENT fileEventSize (mg_raises env) (mg_output_size env) 0 (fm_queue m) = (o1, used, x, q)"
    by (metis prod_cases4)
  show ?thesis
  proof (cases x)
    case None
    then show ?thesis using drain_split[OF d] assms d by (simp add: GetFileEvents_def) force
  next
    case (Some e)
    then have "\<exists>u. mg_raises env u (fileEventSize e)" using drain_raised d by fastforce
    then show ?thesis using drain_split[OF d] assms d Some by (auto simp: GetFileEvents_def)
  qed
qed

lemma MessageCallback_queue:
  assumes "MessageCallback env m = (status, n, out, m')"
  shows "out @ fm_queue m' = fm_queue m \<and> (NT_SUCCESS status \<or> out = [] \<or> (\<exists>used n. mg_raises env used n))"
  using assms GetFileEvents_queue[of env "UpdateLastContactTime (mg_now env) m" status n out m']
  by (auto simp: MessageCallback_def UpdateLastContactTime_def SetupMonitor_def Let_def split: if_splits option.splits)

lemma file_step_order:
  assumes "file_step x s = Some (ps, ds, s')"
  shows "ds @ file_items s' = file_items s @ ps \<or> (ps = [] \<and> \<not> file_keeps x s \<and> ds = [] \<and> (\<exists>l. file_items s = l @ file_items s'))"
proof (cases x)
  case (Before env post)
  obtain m u where s: "s = (m, u)" by (cases s)
  show ?thesis
  proof (cases "bk_major (pv_backup env) \<in> fst ` set Callbacks")
    case True
    then obtain ops r m' where p: "PreFileOperationCallback env post m = Inr (ops, r, m')"
      using assms Before s by (auto simp: file_step_def split: sum.splits)
    then show ?thesis using Pre_queue[OF p] assms Before s True
      by (auto simp: file_step_def file_items_def accepted_def split: pre_result.splits)
  qed (use assms Before s in \<open>simp add: file_step_def\<close>)
next
  case (After k post)
  obtain m u where s: "s = (m, u)" by (cases s)
  show ?thesis using assms After s
    by (auto simp: file_step_def file_items_def accepted_def Let_def split: if_splits)
next
  case (Message env)
  obtain m u where s: "s = (m, u)" by (cases s)
  obtain status n out m' where k: "MessageCallback env m = (status, n, out, m')" by (metis prod_cases4)
  then have r: "ps = []" "ds = (if NT_SUCCESS status then out else [])" "s' = (m', u)"
    using assms Message s by (simp_all add: file_step_def)
  show ?thesis
  proof (cases "NT_SUCCESS status \<or> out = []")
    case True
    then show ?thesis using r s MessageCallback_queue[OF k] by (auto simp: file_items_def)
  next
    case False
    then have "\<not> file_keeps x s" "ds = []" "fm_queue m = out @ fm_queue m'"
      using r s Message MessageCallback_queue[OF k] by (auto simp: file_keeps_def)
    then show ?thesis using r s by (auto simp: file_items_def)
  qed
qed (use assms in \<open>auto simp: file_step_def file_items_def file_keeps_def ConnectionChecker_def FreeQueuedEvents_def ConnectCallback_def
       DisconnectCallback_def not_less[symmetric] split: prod.splits if_splits\<close>)

interpretation fq: event_queue file_items file_step
proof
  fix x s ps ds s' assume "file_step x s = Some (ps, ds, s')"
  from file_step_order[OF this] show "subseq (ds @ file_items s') (file_items s @ ps)" by (auto intro: list_emb_append2)
qed

interpretation fq: lossless_queue file_items file_step file_keeps
proof
  fix x s ps ds s' assume "file_step x s = Some (ps, ds, s')" "file_keeps x s"
  from file_step_order[OF this(1)] this(2) show "ds @ file_items s' = file_items s @ ps" by auto
qed

section \<open>The blocks of the pool\<close>

text \<open>Two for each queued event, one for each event under way, one for the log directory.\<close>

definition held :: "file_state \<Rightarrow> file_block multiset" where
  "held s = queued_file_blocks (length (fm_queue (fst s))) + repeat_mset (length (snd s)) {#EventBlock#} +
     (if fm_logBuffer (fst s) then {#LogBlock#} else {#})"

definition pool_ok :: "file_state \<Rightarrow> bool" where
  "pool_ok s \<longleftrightarrow> fm_pool (fst s) = held s"

lemma queued_file_blocks_Suc [simp]: "queued_file_blocks (Suc n) = add_mset EventBlock (add_mset PacketBlock (queued_file_blocks n))"
  by (simp add: queued_file_blocks_def)

lemma queued_file_blocks_0 [simp]: "queued_file_blocks 0 = {#}"
  by (simp add: queued_file_blocks_def)

lemma queued_file_blocks_add: "queued_file_blocks (a + b) = queued_file_blocks a + queued_file_blocks b"
  by (induction a) simp_all

lemma Post_pool:
  assumes "fm_pool m = X + queued_file_blocks (length (fm_queue m)) + {#EventBlock#}"
  shows "fm_pool (PostFileOperationCallback env (Some e) m) =
    X + queued_file_blocks (length (fm_queue (PostFileOperationCallback env (Some e) m)))"
  using assms by (simp add: PostFileOperationCallback_def QueueFileEvent_def free_event_def)

lemma Post_log [simp]: "fm_logBuffer (PostFileOperationCallback env ctx m) = fm_logBuffer m"
  by (simp add: PostFileOperationCallback_def QueueFileEvent_def free_event_def split: option.split)

lemma called_after_all: "major \<in> fst ` set Callbacks \<Longrightarrow> major \<noteq> IRP_MJ_SHUTDOWN \<Longrightarrow> called_after major"
  by (auto simp: called_after_def Callbacks_def)

lemma Pre_result:
  assumes "PreFileOperationCallback env post m = Inr (ops, r, m')"
  shows "(r = NO_CALLBACK \<and> m' = m) \<or>
    (r = NO_CALLBACK \<and> (\<exists>e p. m' = PostFileOperationCallback p (Some e) (m\<lparr>fm_pool := add_mset EventBlock (fm_pool m)\<rparr>))) \<or>
    (\<exists>e. r = WITH_CALLBACK e \<and> bk_major (pv_backup env) \<noteq> IRP_MJ_SHUTDOWN \<and> m' = m\<lparr>fm_pool := add_mset EventBlock (fm_pool m)\<rparr>)"
  using assms by (auto simp: PreFileOperationCallback_def fbind_eq_Inr Let_def split: if_splits option.splits)

lemma GetFileEvents_pool:
  assumes "GetFileEvents env m = (status, n, out, m')" "fm_pool m = queued_file_blocks (length (fm_queue m)) + X"
  shows "fm_pool m' = queued_file_blocks (length (fm_queue m')) + X \<and> fm_logBuffer m' = fm_logBuffer m"
proof -
  have q: "fm_queue m = out @ fm_queue m'" using GetFileEvents_queue[OF assms(1)] by simp
  have "fm_pool m' = fm_pool m - queued_file_blocks (length out) \<and> fm_logBuffer m' = fm_logBuffer m"
    using assms(1) by (auto simp: GetFileEvents_def Let_def split: prod.splits option.splits)
  then show ?thesis using assms(2) q by (simp add: queued_file_blocks_add)
qed

lemma free_log_pool:
  "fm_pool m = X + (if fm_logBuffer m then {#LogBlock#} else {#}) \<Longrightarrow> fm_pool (free_log m) = X \<and> \<not> fm_logBuffer (free_log m)"
  by (simp add: free_log_def)

lemma SetupMonitor_pool:
  assumes "fm_pool m = X + (if fm_logBuffer m then {#LogBlock#} else {#})"
  shows "fm_pool (SetupMonitor env s m) = X + (if fm_logBuffer (SetupMonitor env s m) then {#LogBlock#} else {#}) \<and>
    fm_queue (SetupMonitor env s m) = fm_queue m"
proof -
  have "fm_pool (m\<lparr>fm_bCollectDeletedFiles := False\<rparr>) = X + (if fm_logBuffer (m\<lparr>fm_bCollectDeletedFiles := False\<rparr>) then {#LogBlock#} else {#})"
    using assms by simp
  from free_log_pool[OF assms] free_log_pool[OF this] show ?thesis by (simp add: SetupMonitor_def Let_def)
qed

lemma MessageCallback_pool:
  assumes "MessageCallback env m = (status, n, out, m')"
    "fm_pool m = queued_file_blocks (length (fm_queue m)) + X + (if fm_logBuffer m then {#LogBlock#} else {#})"
  shows "fm_pool m' = queued_file_blocks (length (fm_queue m')) + X + (if fm_logBuffer m' then {#LogBlock#} else {#})"
proof (cases "GetFileEvents env (UpdateLastContactTime (mg_now env) m) = (status, n, out, m')")
  case True
  have "fm_pool (UpdateLastContactTime (mg_now env) m) = queued_file_blocks (length (fm_queue (UpdateLastContactTime (mg_now env) m))) +
      (X + (if fm_logBuffer m then {#LogBlock#} else {#}))"
    using assms(2) by (simp add: UpdateLastContactTime_def)
  from GetFileEvents_pool[OF True this] show ?thesis by (simp add: UpdateLastContactTime_def)
next
  case False
  then have "m' = m \<or> (\<exists>s. m' = SetupMonitor env s m)"
    using assms(1) by (auto simp: MessageCallback_def split: if_splits option.splits)
  then show ?thesis using assms(2) SetupMonitor_pool[OF assms(2)] by auto
qed

lemma file_step_pool:
  assumes "file_step x s = Some (ps, ds, s')" "pool_ok s"
  shows "pool_ok s'"
proof -
  obtain m u where s: "s = (m, u)" by (cases s)
  have p: "fm_pool m = held (m, u)" using assms(2) s by (simp add: pool_ok_def)
  show ?thesis
  proof (cases x)
    case (Before env post)
    show ?thesis
    proof (cases "bk_major (pv_backup env) \<in> fst ` set Callbacks")
      case True
      then obtain ops r m' where pr: "PreFileOperationCallback env post m = Inr (ops, r, m')"
        using assms(1) Before s by (auto simp: file_step_def split: sum.splits)
      from Pre_result[OF pr] show ?thesis
      proof (elim disjE exE conjE)
        assume "r = NO_CALLBACK" "m' = m"
        then show ?thesis using assms Before s True pr by (simp add: file_step_def)
      next
        fix e pp assume r: "r = NO_CALLBACK" "m' = PostFileOperationCallback pp (Some e) (m\<lparr>fm_pool := add_mset EventBlock (fm_pool m)\<rparr>)"
        have "s' = (m', u)" using assms(1) Before s True pr r(1) by (simp add: file_step_def)
        then show ?thesis
          using Post_pool[of "m\<lparr>fm_pool := add_mset EventBlock (fm_pool m)\<rparr>" "repeat_mset (length u) {#EventBlock#} + (if fm_logBuffer m then {#LogBlock#} else {#})" pp e]
            p r(2) by (simp add: pool_ok_def held_def ac_simps)
      next
        fix e assume r: "r = WITH_CALLBACK e" "bk_major (pv_backup env) \<noteq> IRP_MJ_SHUTDOWN" "m' = m\<lparr>fm_pool := add_mset EventBlock (fm_pool m)\<rparr>"
        then have "s' = (m', u @ [e])" using assms(1) Before s True pr called_after_all by (simp add: file_step_def)
        then show ?thesis using p r(3) by (simp add: pool_ok_def held_def)
      qed
    qed (use assms Before s in \<open>simp add: file_step_def\<close>)
  next
    case (After k post)
    show ?thesis
    proof (cases "k < length u")
      case True
      let ?m = "PostFileOperationCallback post (Some (u ! k)) m"
      have s': "s' = (?m, take k u @ drop (Suc k) u)" using assms(1) After s True by (simp add: file_step_def Let_def)
      have len: "length u = Suc (length (take k u @ drop (Suc k) u))" using True by simp
      have "fm_pool m = (repeat_mset (length (take k u @ drop (Suc k) u)) {#EventBlock#} + (if fm_logBuffer m then {#LogBlock#} else {#})) +
          queued_file_blocks (length (fm_queue m)) + {#EventBlock#}"
        using p unfolding held_def fst_conv snd_conv len by simp
      from Post_pool[OF this, of post "u ! k"] show ?thesis unfolding s' pool_ok_def held_def by (simp add: ac_simps)
    qed (use assms After s in \<open>simp add: file_step_def\<close>)
  next
    case (Message env)
    obtain status n out m' where k: "MessageCallback env m = (status, n, out, m')" by (metis prod_cases4)
    then have "s' = (m', u)" using assms(1) Message s by (simp add: file_step_def)
    then show ?thesis using MessageCallback_pool[OF k, of "repeat_mset (length u) {#EventBlock#}"] p by (simp add: pool_ok_def held_def)
  next
    case (Tick now)
    then show ?thesis using assms(1) s p
      by (auto simp: file_step_def ConnectionChecker_def FreeQueuedEvents_def pool_ok_def held_def split: if_splits)
  next
    case Connect
    then show ?thesis using assms(1) s p by (auto simp: file_step_def ConnectCallback_def pool_ok_def held_def)
  next
    case Disconnect
    then have "s' = (DisconnectCallback m, u)" using assms(1) s by (simp add: file_step_def)
    then show ?thesis using p
      by (cases "fm_logBuffer m") (simp_all add: DisconnectCallback_def FreeQueuedEvents_def free_log_def pool_ok_def held_def)
  qed
qed

section \<open>What is reported\<close>

definition file_event_ok :: "file_event \<Rightarrow> bool" where
  "file_event_ok e \<longleftrightarrow> length (fe_padding e) = 2 \<and> length (fe_time e) = 16 \<and>
     (\<exists>cs. fe_filePath e = cs @ [0] \<and> unat (fe_filePathLength e) = 2 * length cs + 2 \<and> length cs \<le> 32767)"

lemma unat_path_length: "n \<le> 32767 \<Longrightarrow> unat (of_nat (2 * n) + 2 :: u32) = 2 * n + 2"
  using unat_add_no_wrap[of "of_nat (2 * n)" 2] by (simp add: unat_of_nat take_bit_nat_eq_self del: of_nat_mult)

lemma make_file_event_ok:
  assumes "length path \<le> 32767" "length (fe_padding block) = 2" "length (pv_time env) = 16"
  shows "file_event_ok (make_file_event env path block)"
  using assms unat_path_length[OF assms(1)]
  by (simp add: file_event_ok_def make_file_event_def RtlStringCbCopyUnicodeString_def del: of_nat_mult)

lemma unat_fileEventSize: "file_event_ok e \<Longrightarrow> unat (fileEventSize e) = 40 + unat (fe_filePathLength e)"
  using unat_add_no_wrap[of sizeof_FILE_EVENT "fe_filePathLength e"]
  by (auto simp: file_event_ok_def fileEventSize_def sizeof_FILE_EVENT_def)

lemma length_file_bytes: "file_event_ok e \<Longrightarrow> length (file_bytes e) = unat (fileEventSize e)"
  by (simp add: unat_fileEventSize) (auto simp: file_event_ok_def file_bytes_def)

text \<open>An operation on a file whose name is found, with memory granted.\<close>

definition pre_granted :: "pre_env \<Rightarrow> bool" where
  "pre_granted env \<longleftrightarrow> \<not> pv_fs_filter env \<and> pv_path_block env \<and> pv_file_object env \<and> NT_SUCCESS (fst (pv_name env)) \<and>
     snd (pv_name env) \<noteq> [] \<and> length (snd (pv_name env)) \<le> 32767 \<and> bk_major (pv_backup env) \<noteq> IRP_MJ_SHUTDOWN"

lemma Pre_granted:
  assumes "pre_granted env" "pv_event env = Some block"
    and "CopyFileIfBeingDeleted (pv_backup env) (fm_bCollectDeletedFiles m) (fm_logDirectory m) (Some (pv_information env)) = Inr ops"
  shows "PreFileOperationCallback env post m = Inr (ops, WITH_CALLBACK (make_file_event env (snd (pv_name env)) block),
     m\<lparr>fm_pool := add_mset EventBlock (fm_pool m)\<rparr>)"
  using assms by (cases "pv_name env")
    (simp add: PreFileOperationCallback_def pre_granted_def query_file_name_def Let_def)

section \<open>Properties\<close>

text \<open>
  C19: Whatever operations begin and end, in whatever order they end, and whatever messages,
  connections and timer ticks come between them: the events the process got with a successful
  status followed by those still queued are, in order, among those queued at the start
  followed by the accepted ones; and nothing is missing if no write to its buffer raised an
  exception, it was not silent for more than fifteen seconds at a tick and left no events
  behind when it disconnected.
\<close>

theorem file_events_in_order:
  assumes "run_steps file_step ops s = Some (accepted_events, delivered, s')"
  shows "subseq (delivered @ fm_queue (fst s')) (fm_queue (fst s) @ accepted_events) \<and>
    (all_keep file_keeps file_step ops s \<longrightarrow> delivered @ fm_queue (fst s') = fm_queue (fst s) @ accepted_events)"
  using fq.run_order[OF assms] fq.run_exact[OF assms] by (simp add: file_items_def)

definition fmanager_demo :: file_manager where
  "fmanager_demo = \<lparr>fm_bReady = True, fm_bCollectDeletedFiles = True, fm_client = True, fm_logBuffer = True, fm_logDirectory = log_demo,
     fm_queue = [], fm_lastContactTime = 1000, fm_pool = {#LogBlock#}\<rparr>"

definition block_demo :: file_event where
  "block_demo = \<lparr>fe_majorFileEventType = 0xCC, fe_minorFileEventType = 0xCC, fe_padding = [0xCC, 0xCC], fe_status = 0, fe_information = 0,
     fe_flags = 0, fe_time = replicate 16 0xCC, fe_processId = 0, fe_filePathLength = 0, fe_filePath = []\<rparr>"

definition fpre_demo :: pre_env where
  "fpre_demo = \<lparr>pv_fs_filter = False, pv_path_block = True, pv_file_object = True, pv_name = (STATUS_SUCCESS, wide ''/a''),
     pv_information = information_demo, pv_opened_name = (STATUS_SUCCESS, wide ''/a''), pv_related = False,
     pv_object_name = \<lparr>us_chars = [], us_maximum = 0\<rparr>, pv_device_block = True, pv_volume_size = (STATUS_SUCCESS, 0), pv_temp_block = True,
     pv_volume_name = (STATUS_SUCCESS, []), pv_event = Some block_demo, pv_minor = 0, pv_flags = 0, pv_pid = 99,
     pv_time = replicate 16 5, pv_backup = backup_demo\<lparr>bk_major := 4\<rparr>\<rparr>"

definition fpost_demo :: post_env where
  "fpost_demo = \<lparr>po_draining = False, po_status = STATUS_SUCCESS, po_information = 7, po_now = 1003, po_packet_block = True\<rparr>"

lemma file_demo_run:
  "run_steps file_step [Before fpre_demo fpost_demo, After 0 fpost_demo] (fmanager_demo, []) =
     Some ([make_file_event fpre_demo (wide ''/a'') block_demo\<lparr>fe_status := STATUS_SUCCESS, fe_information := 7\<rparr>], [],
       fmanager_demo\<lparr>fm_queue := [make_file_event fpre_demo (wide ''/a'') block_demo\<lparr>fe_status := STATUS_SUCCESS, fe_information := 7\<rparr>],
         fm_pool := {#PacketBlock, EventBlock, LogBlock#}\<rparr>, [])"
proof -
  have g: "pre_granted fpre_demo" by (simp add: pre_granted_def fpre_demo_def wide_def)
  have "CopyFileIfBeingDeleted (pv_backup fpre_demo) True log_demo (Some (pv_information fpre_demo)) = Inr []"
    by (simp add: CopyFileIfBeingDeleted_def marked_for_deletion_def fpre_demo_def)
  then have p: "PreFileOperationCallback fpre_demo fpost_demo fmanager_demo =
      Inr ([], WITH_CALLBACK (make_file_event fpre_demo (wide ''/a'') block_demo), fmanager_demo\<lparr>fm_pool := {#EventBlock, LogBlock#}\<rparr>)"
    using Pre_granted[OF g, of block_demo fmanager_demo "[]" fpost_demo] by (simp add: fpre_demo_def fmanager_demo_def)
  have c: "bk_major (pv_backup fpre_demo) = 4" by (simp add: fpre_demo_def)
  have "file_step (Before fpre_demo fpost_demo) (fmanager_demo, []) =
      Some ([], [], fmanager_demo\<lparr>fm_pool := {#EventBlock, LogBlock#}\<rparr>, [make_file_event fpre_demo (wide ''/a'') block_demo])"
    by (simp add: file_step_def p c called_after_def) (simp add: Callbacks_def)
  moreover have "file_step (After 0 fpost_demo) (fmanager_demo\<lparr>fm_pool := {#EventBlock, LogBlock#}\<rparr>, [make_file_event fpre_demo (wide ''/a'') block_demo]) =
      Some ([make_file_event fpre_demo (wide ''/a'') block_demo\<lparr>fe_status := STATUS_SUCCESS, fe_information := 7\<rparr>], [],
       fmanager_demo\<lparr>fm_queue := [make_file_event fpre_demo (wide ''/a'') block_demo\<lparr>fe_status := STATUS_SUCCESS, fe_information := 7\<rparr>],
         fm_pool := {#PacketBlock, EventBlock, LogBlock#}\<rparr>, [])"
    by (simp add: file_step_def Let_def accepted_def posted_def fpost_demo_def fmanager_demo_def PostFileOperationCallback_def QueueFileEvent_def)
  ultimately show ?thesis by simp
qed

theorem file_events_in_order_witness:
  "\<exists>accepted_events delivered s'. run_steps file_step [Before fpre_demo fpost_demo, After 0 fpost_demo] (fmanager_demo, []) =
       Some (accepted_events, delivered, s') \<and> length accepted_events = 1 \<and> subseq (delivered @ fm_queue (fst s')) accepted_events"
  using file_events_in_order[OF file_demo_run] file_demo_run by (simp add: fmanager_demo_def)



text \<open>
  With memory granted and the process heard of in the last ten seconds, an operation on a
  file whose name is found queues, after it, one event with the type of the operation (or the
  one for a deletion), the process, the path with its final NUL, and the status and the
  information of the result.
\<close>

theorem file_operation_reported:
  assumes "pre_granted env" "pv_event env = Some block"
    and "CopyFileIfBeingDeleted (pv_backup env) (fm_bCollectDeletedFiles m) (fm_logDirectory m) (Some (pv_information env)) = Inr ops"
    and "\<not> po_draining post" "po_packet_block post" "po_now post - fm_lastContactTime m \<le> USERSPACE_CONNECTION_TIMEOUT"
  shows "\<exists>e m1. PreFileOperationCallback env post m = Inr (ops, WITH_CALLBACK e, m1) \<and>
     fm_queue (PostFileOperationCallback post (Some e) m1) =
       fm_queue m @ [e\<lparr>fe_status := po_status post, fe_information := po_information post\<rparr>] \<and>
     fe_majorFileEventType e = (if bk_major (pv_backup env) = IRP_MJ_SET_INFORMATION \<and> bk_disposition (pv_backup env) \<and>
        bk_delete (pv_backup env) then 0x99 else bk_major (pv_backup env)) \<and>
     fe_processId e = pv_pid env \<and> fe_time e = pv_time env \<and> fe_filePath e = snd (pv_name env) @ [0] \<and>
     unat (fe_filePathLength e) = 2 * length (fe_filePath e)"
proof -
  let ?e = "make_file_event env (snd (pv_name env)) block"
  have l: "length (snd (pv_name env)) \<le> 32767" using assms(1) by (simp add: pre_granted_def)
  have "fe_filePath ?e = snd (pv_name env) @ [0]" "fe_processId ?e = pv_pid env" "fe_time ?e = pv_time env"
    "fe_filePathLength ?e = of_nat (2 * length (snd (pv_name env))) + 2"
    "fe_majorFileEventType ?e = (if bk_major (pv_backup env) = IRP_MJ_SET_INFORMATION \<and> bk_disposition (pv_backup env) \<and>
        bk_delete (pv_backup env) then 0x99 else bk_major (pv_backup env))"
    by (simp_all add: make_file_event_def RtlStringCbCopyUnicodeString_def)
  then show ?thesis using Pre_granted[OF assms(1-3), of post] unat_path_length[OF l] assms(4-6) by (simp add: posted_def del: of_nat_mult)
qed

theorem file_operation_reported_witness:
  "\<exists>e m1. PreFileOperationCallback fpre_demo fpost_demo fmanager_demo = Inr ([], WITH_CALLBACK e, m1) \<and>
     fe_majorFileEventType e = 4 \<and> fe_filePath e = wide ''/a'' @ [0]"
proof -
  have g: "pre_granted fpre_demo" by (simp add: pre_granted_def fpre_demo_def wide_def)
  have c: "CopyFileIfBeingDeleted (pv_backup fpre_demo) (fm_bCollectDeletedFiles fmanager_demo) (fm_logDirectory fmanager_demo)
      (Some (pv_information fpre_demo)) = Inr []"
    by (simp add: CopyFileIfBeingDeleted_def marked_for_deletion_def fpre_demo_def)
  have b: "pv_event fpre_demo = Some block_demo" by (simp add: fpre_demo_def)
  have p: "\<not> po_draining fpost_demo" "po_packet_block fpost_demo" "po_now fpost_demo - fm_lastContactTime fmanager_demo \<le> USERSPACE_CONNECTION_TIMEOUT"
    by (simp_all add: fpost_demo_def fmanager_demo_def)
  from file_operation_reported[OF g b c p] obtain e m1 where
    "PreFileOperationCallback fpre_demo fpost_demo fmanager_demo = Inr ([], WITH_CALLBACK e, m1)"
    "fe_majorFileEventType e = (if bk_major (pv_backup fpre_demo) = IRP_MJ_SET_INFORMATION \<and> bk_disposition (pv_backup fpre_demo) \<and>
        bk_delete (pv_backup fpre_demo) then 0x99 else bk_major (pv_backup fpre_demo))"
    "fe_filePath e = snd (pv_name fpre_demo) @ [0]"
    by (elim exE conjE)
  then show ?thesis by (simp add: fpre_demo_def)
qed

text \<open>
  When the normalized name cannot be had but the opened one can, a deletion is handled
  with a pointer to file name information that was never set, whether or not deleted files are
  collected.
\<close>

theorem deletion_uses_unset_pointer:
  assumes "\<not> pv_fs_filter env" "pv_path_block env" "pv_file_object env" "\<not> NT_SUCCESS (fst (pv_name env))"
    and "NT_SUCCESS (fst (pv_opened_name env))" "marked_for_deletion (pv_backup env)"
  shows "PreFileOperationCallback env post m = Inl BadPointer"
  using assms
  by (cases "pv_name env"; cases "pv_opened_name env")
    (simp add: PreFileOperationCallback_def query_file_name_def CopyFileIfBeingDeleted_def Let_def)

theorem deletion_uses_unset_pointer_witness:
  "PreFileOperationCallback (fpre_demo\<lparr>pv_name := (STATUS_UNSUCCESSFUL, []), pv_backup := backup_demo\<rparr>) fpost_demo fmanager_demo = Inl BadPointer"
  by (rule deletion_uses_unset_pointer) (simp_all add: fpre_demo_def marked_for_deletion_def backup_demo_def)

text \<open>
  A message that sets the log directory up takes effect and is then reported as having an
  invalid parameter. After it, with memory granted, deleted files are collected, and the log
  directory is the one of the message behind the prefix for native paths, complete when its
  given length is at least its real one.
\<close>

theorem setup_takes_effect_but_fails:
  assumes "\<not> mg_input_null env" "4 \<le> mg_input_size env" "\<not> mg_input_raises env" "mg_command env = 1"
    and "mg_output_size env = sizeof_FILEMONITOR_SETUP" "mg_setup env = Some s" "fs_bCollectDeletedFiles s" "mg_block env"
    and "even (unat (fs_nLogDirectorySize s))" "12 + unat (fs_nLogDirectorySize s) < 65536"
    and "2 * length (takeWhile (\<lambda>c. c \<noteq> 0) (fs_wszLogDirectory s)) \<le> unat (fs_nLogDirectorySize s)"
  shows "\<exists>m'. MessageCallback env m = (STATUS_INVALID_PARAMETER, 0, [], m') \<and> fm_bCollectDeletedFiles m' \<and> fm_logBuffer m' \<and>
     us_chars (fm_logDirectory m') = [0x5C, 0x3F, 0x3F, 0x5C] @ takeWhile (\<lambda>c. c \<noteq> 0) (fs_wszLogDirectory s)"
proof -
  have "length (takeWhile (\<lambda>c. c \<noteq> 0) (fs_wszLogDirectory s)) \<le> unat (fs_nLogDirectorySize s) div 2" using assms(11) by linarith
  then have "us_chars (log_directory s) = [0x5C, 0x3F, 0x3F, 0x5C] @ takeWhile (\<lambda>c. c \<noteq> 0) (fs_wszLogDirectory s)"
    using assms(9,10) by (simp add: log_directory_def Let_def RtlUnicodeStringCatString_def RtlUnicodeStringCat_def)
  then show ?thesis using assms(1-8) by (simp add: MessageCallback_def SetupMonitor_def Let_def)
qed

definition setup_demo :: message_env where
  "setup_demo = \<lparr>mg_input_null = False, mg_input_size = 4, mg_input_raises = False, mg_command = 1, mg_output_size = 2056,
     mg_raises = (\<lambda>_ _. False), mg_exception = 0xC0000005,
     mg_setup = Some \<lparr>fs_bCollectDeletedFiles = True, fs_nLogDirectorySize = 10, fs_wszLogDirectory = wide ''C/log'' @ [0]\<rparr>, mg_block = True, mg_now = 1001\<rparr>"

theorem setup_takes_effect_but_fails_witness:
  "\<exists>m'. MessageCallback setup_demo fmanager_demo = (STATUS_INVALID_PARAMETER, 0, [], m') \<and>
     us_chars (fm_logDirectory m') = [0x5C, 0x3F, 0x3F, 0x5C] @ wide ''C/log''"
proof -
  have t: "takeWhile (\<lambda>c. c \<noteq> 0) (wide ''C/log'' @ [0]) = wide ''C/log''" by (simp add: wide_def)
  show ?thesis
    using setup_takes_effect_but_fails[of setup_demo "\<lparr>fs_bCollectDeletedFiles = True, fs_nLogDirectorySize = 10, fs_wszLogDirectory = wide ''C/log'' @ [0]\<rparr>" fmanager_demo]
    by (simp add: setup_demo_def sizeof_FILEMONITOR_SETUP_def t) (auto simp: wide_def)
qed

end
