(* ===== verification/FileClient.thy ===== *)
theory FileClient
  imports FileMonitor ClientMonitor
begin

text \<open>
  FileMonitor.cpp of the client: the thread that asks the filter for file events, takes the
  buffer apart, keeps the set of the modified files and signals the events that are not
  excluded. It is put together with the filter's side of the message. The path of a process
  and whether a path is a directory are arguments; the map of the volume names is the list of
  its pairs in the order the program goes through them.
\<close>

definition FILE_EVENTS_BUFFER_SIZE :: u32 where "FILE_EVENTS_BUFFER_SIZE = 5 * 65536"
definition FILE_EVENT_WAIT_TIME :: nat where "FILE_EVENT_WAIT_TIME = 50"
definition FILE_EVENT_BUFFER_FULL_WAIT_TIME :: nat where "FILE_EVENT_BUFFER_FULL_WAIT_TIME = 5"

abbreviation (input) IRP_MJ_CREATE :: u8 where "IRP_MJ_CREATE \<equiv> 0"
abbreviation (input) IRP_MJ_READ :: u8 where "IRP_MJ_READ \<equiv> 3"
abbreviation (input) IRP_MJ_WRITE :: u8 where "IRP_MJ_WRITE \<equiv> 4"
abbreviation (input) IRP_MJ_DELETE :: u8 where "IRP_MJ_DELETE \<equiv> 0x99"

section \<open>Names\<close>

text \<open>None: the event is not found to be one that is reported.\<close>

definition getFileEventName :: "u8 \<Rightarrow> u32 \<Rightarrow> u16 list \<Rightarrow> u16 list option" where
  "getFileEventName major information path =
     (if major = IRP_MJ_CREATE then
        if 0x3A \<in> set path then None
        else if information = 2 \<or> information = 3 \<or> information = 0 then Some (wide ''Create'')
        else if information = 1 then Some (wide ''Open'') else None
      else if major = IRP_MJ_READ then Some (wide ''Read'')
      else if major = IRP_MJ_WRITE then Some (wide ''Write'')
      else if major = IRP_MJ_DELETE then Some (wide ''Delete'')
      else None)"

definition convertFileObjectNameToDosName :: "(u16 list \<times> u16 list) list \<Rightarrow> u16 list \<Rightarrow> u16 list" where
  "convertFileObjectNameToDosName dosNameMap fileObjectName = replace_prefix dosNameMap fileObjectName"

section \<open>Taking the buffer apart\<close>

record file_signal =
  sg_name :: "u16 list"
  sg_time :: "u8 list"
  sg_processId :: u32
  sg_processPath :: "u16 list"
  sg_filePath :: "u16 list"

text \<open>What an event makes the thread do.\<close>

datatype file_action = Modified "u16 list" | Deleted "u16 list" | Signal file_signal

record 'r file_client =
  fc_permissions :: "'r permission_map"
  fc_matches :: "'r \<Rightarrow> u16 list \<Rightarrow> bool"
  fc_names :: "(u16 list \<times> u16 list) list"
  fc_process_path :: "u32 \<Rightarrow> u16 list"
  fc_monitorModifiedFiles :: bool
  fc_is_directory :: "u16 list \<Rightarrow> bool"

definition track_modified :: "'r file_client \<Rightarrow> u8 \<Rightarrow> u16 list \<Rightarrow> file_action list" where
  "track_modified fc major path =
     (if fc_monitorModifiedFiles fc \<and> \<not> fc_is_directory fc path then
        if major = IRP_MJ_CREATE \<or> major = IRP_MJ_WRITE then [Modified path]
        else if major = IRP_MJ_DELETE then [Deleted path] else []
      else [])"

definition handle_event :: "'r file_client \<Rightarrow> u8 \<Rightarrow> u32 \<Rightarrow> u8 list \<Rightarrow> u32 \<Rightarrow> u16 list \<Rightarrow> file_action list" where
  "handle_event fc major information time processId path =
     (case getFileEventName major information path of
        None \<Rightarrow> []
      | Some fileEventName \<Rightarrow>
          let processPath = fc_process_path fc processId;
              fileEventPath = convertFileObjectNameToDosName (fc_names fc) path
          in if fileEventPath = wide ''UNKNOWN'' then []
             else if isEventAllowed (fc_matches fc) (fc_permissions fc) fileEventName processPath fileEventPath then []
             else track_modified fc major fileEventPath @
                  [Signal \<lparr>sg_name = fileEventName, sg_time = time, sg_processId = processId, sg_processPath = processPath,
                           sg_filePath = fileEventPath\<rparr>])"

text \<open>A byte of the buffer, and the text that begins at an offset and ends with a NUL.\<close>

definition read8 :: "u8 list \<Rightarrow> nat \<Rightarrow> fault + u8" where
  "read8 b i = (if i < length b then Inr (b ! i) else Inl OutOfBounds)"

definition read_string :: "u8 list \<Rightarrow> nat \<Rightarrow> fault + u16 list" where
  "read_string b i = c_string (bytes_chars (drop i b))"

definition event_path :: "u8 list \<Rightarrow> u32 \<Rightarrow> u8 \<Rightarrow> fault + u16 list" where
  "event_path b offset major =
     (if major \<in> {IRP_MJ_CREATE, IRP_MJ_READ, IRP_MJ_WRITE, IRP_MJ_DELETE} then read_string b (unat offset + 40) else Inr [])"

definition read_event :: "'r file_client \<Rightarrow> u8 list \<Rightarrow> u32 \<Rightarrow> fault + file_action list \<times> u32" where
  "read_event fc b offset =
     fbind (read8 b (unat offset)) (\<lambda>major.
     fbind (read32 b (unat offset + 8)) (\<lambda>information.
     fbind (read_bytes b (unat offset + 16) 16) (\<lambda>time.
     fbind (read32 b (unat offset + 32)) (\<lambda>processId.
     fbind (read32 b (unat offset + 36)) (\<lambda>filePathLength.
     fbind (event_path b offset major) (\<lambda>path.
       Inr (handle_event fc major information time processId path, offset + (40 + filePathLength))))))))"

definition received :: "'r file_client \<Rightarrow> u8 list \<Rightarrow> u32 \<Rightarrow> (fault + file_action list) option" where
  "received fc b bytesReturned = (if 40 \<le> bytesReturned then read_packed (read_event fc b) bytesReturned 0 else Some (Inr []))"

text \<open>One round of the thread, with the filter answering.\<close>

definition client_message :: "message_env \<Rightarrow> message_env" where
  "client_message env = env\<lparr>mg_input_null := False, mg_input_size := 4, mg_input_raises := False, mg_command := 0,
     mg_output_size := FILE_EVENTS_BUFFER_SIZE\<rparr>"

definition run :: "'r file_client \<Rightarrow> message_env \<Rightarrow> file_manager \<Rightarrow> (fault + file_action list) option \<times> nat \<times> file_manager" where
  "run fc env m =
     (case MessageCallback (client_message env) m of
        (status, bytesReturned, out, m') \<Rightarrow>
          let bytes = concat (map file_bytes out);
              b = bytes @ replicate (unat FILE_EVENTS_BUFFER_SIZE - length bytes) 0
          in (received fc b bytesReturned,
              if bytesReturned = FILE_EVENTS_BUFFER_SIZE then FILE_EVENT_BUFFER_FULL_WAIT_TIME else FILE_EVENT_WAIT_TIME, m'))"

text \<open>The set of the modified files after some actions, in which a deleted file is not any more.\<close>

fun track :: "u16 list set \<Rightarrow> file_action list \<Rightarrow> u16 list set" where
  "track files [] = files"
| "track files (Modified p # acts) = track (insert p files) acts"
| "track files (Deleted p # acts) = track (files - {p}) acts"
| "track files (Signal s # acts) = track files acts"

section \<open>The buffer of the filter is understood\<close>

definition event_actions :: "'r file_client \<Rightarrow> file_event \<Rightarrow> file_action list" where
  "event_actions fc e = handle_event fc (fe_majorFileEventType e) (fe_information e) (fe_time e) (fe_processId e)
     (takeWhile (\<lambda>c. c \<noteq> 0) (fe_filePath e))"

lemma getFileEventName_majors:
  "major \<notin> {IRP_MJ_CREATE, IRP_MJ_READ, IRP_MJ_WRITE, IRP_MJ_DELETE} \<Longrightarrow> getFileEventName major information path = None"
  by (simp add: getFileEventName_def)

lemma bytes_chars_char_bytes_append: "bytes_chars (char_bytes s @ b) = s @ bytes_chars b"
  by (induction s) (auto simp: le_bytes16_def word16_of_le_bytes)

lemma c_string_append: "c_string (s @ 0 # t) = Inr (takeWhile (\<lambda>c. c \<noteq> 0) s)"
proof (cases "0 \<in> set s")
  case True
  then show ?thesis by (auto simp: c_string_def takeWhile_append1)
next
  case False
  then show ?thesis using takeWhile_before[OF False, of t] takeWhile_before[OF False, of "[]"] c_string_NUL[of s]
    by (simp add: c_string_def)
qed

lemma file_event_read_at:
  assumes "file_event_ok e" "unat offset = length pre"
  shows "read_event fc (pre @ file_bytes e @ rest) offset = Inr (event_actions fc e, offset + fileEventSize e)"
proof -
  let ?b = "pre @ file_bytes e @ rest"
  from assms(1) obtain cs where cs: "fe_filePath e = cs @ [0]" by (auto simp: file_event_ok_def)
  have t: "length (fe_time e) = 16" "length (fe_padding e) = 2" using assms(1) by (simp_all add: file_event_ok_def)
  define head where "head = [fe_majorFileEventType e, fe_minorFileEventType e] @ fe_padding e @ le_bytes32 (fe_status e)"
  define h2 where "h2 = head @ le_bytes32 (fe_information e) @ le_bytes32 (fe_flags e)"
  have len: "length head = 8" "length h2 = 16" by (simp_all add: head_def h2_def t)
  have b: "?b = (pre @ head) @ le_bytes32 (fe_information e) @ (le_bytes32 (fe_flags e) @ fe_time e @ le_bytes32 (fe_processId e) @
      le_bytes32 (fe_filePathLength e) @ char_bytes (fe_filePath e) @ rest)"
    "?b = (pre @ h2) @ fe_time e @ (le_bytes32 (fe_processId e) @ le_bytes32 (fe_filePathLength e) @ char_bytes (fe_filePath e) @ rest)"
    "?b = (pre @ h2 @ fe_time e) @ le_bytes32 (fe_processId e) @ (le_bytes32 (fe_filePathLength e) @ char_bytes (fe_filePath e) @ rest)"
    "?b = (pre @ h2 @ fe_time e @ le_bytes32 (fe_processId e)) @ le_bytes32 (fe_filePathLength e) @ (char_bytes (fe_filePath e) @ rest)"
    "?b = (pre @ h2 @ fe_time e @ le_bytes32 (fe_processId e) @ le_bytes32 (fe_filePathLength e)) @ (char_bytes (fe_filePath e) @ rest)"
    by (simp_all add: file_bytes_def head_def h2_def)
  have 1: "read8 ?b (unat offset) = Inr (fe_majorFileEventType e)"
    by (simp add: read8_def file_bytes_def assms(2) nth_append)
  have 2: "read32 ?b (unat offset + 8) = Inr (fe_information e)"
    unfolding b(1) by (rule read32_at) (simp add: assms(2) len)
  have 3: "read_bytes ?b (unat offset + 16) 16 = Inr (fe_time e)"
    unfolding b(2) by (rule read_bytes_at) (simp_all add: assms(2) len t)
  have 4: "read32 ?b (unat offset + 32) = Inr (fe_processId e)"
    unfolding b(3) by (rule read32_at) (simp add: assms(2) len t)
  have 5: "read32 ?b (unat offset + 36) = Inr (fe_filePathLength e)"
    unfolding b(4) by (rule read32_at) (simp add: assms(2) len t)
  have "drop (unat offset + 40) ?b = char_bytes (fe_filePath e) @ rest"
    unfolding b(5) by (simp add: assms(2) len t)
  then have path: "read_string ?b (unat offset + 40) = Inr (takeWhile (\<lambda>c. c \<noteq> 0) (fe_filePath e))"
    using c_string_append[of cs "bytes_chars rest"] c_string_NUL[of cs]
    by (simp add: read_string_def bytes_chars_char_bytes_append cs c_string_def del: char_bytes_append)
  show ?thesis
  proof (cases "fe_majorFileEventType e \<in> {IRP_MJ_CREATE, IRP_MJ_READ, IRP_MJ_WRITE, IRP_MJ_DELETE}")
    case True
    then show ?thesis
      by (simp add: read_event_def 1 2 3 4 5 event_path_def path event_actions_def fileEventSize_def sizeof_FILE_EVENT_def del: insert_iff)
  next
    case False
    then have "event_path ?b offset (fe_majorFileEventType e) = Inr []" by (simp add: event_path_def)
    moreover have "handle_event fc (fe_majorFileEventType e) i tm p path = []" for i tm p path
      using getFileEventName_majors[OF False] by (simp add: handle_event_def)
    ultimately show ?thesis
      by (simp add: read_event_def 1 2 3 4 5 event_actions_def fileEventSize_def sizeof_FILE_EVENT_def)
  qed
qed

interpretation fp: packed_events file_event_ok file_bytes fileEventSize "event_actions fc" "read_event fc" sizeof_FILE_EVENT
  for fc :: "'r file_client"
proof
  fix e :: file_event assume "file_event_ok e"
  then show "length (file_bytes e) = unat (fileEventSize e)" "sizeof_FILE_EVENT \<le> fileEventSize e"
    by (simp_all add: length_file_bytes unat_fileEventSize word_le_nat_alt sizeof_FILE_EVENT_def)
qed (simp_all add: file_event_read_at sizeof_FILE_EVENT_def)

lemma file_received_ok:
  assumes "\<forall>e \<in> set es. file_event_ok e" "length (concat (map file_bytes es)) = unat bytesReturned"
  shows "received fc (concat (map file_bytes es) @ rest) bytesReturned = Some (Inr (concat (map (event_actions fc) es)))"
  unfolding received_def by (rule fp.read_buffer[OF assms, unfolded sizeof_FILE_EVENT_def])

lemma file_run_ok:
  assumes "\<forall>u z. \<not> mg_raises env u z" "\<forall>e \<in> set (fm_queue m). file_event_ok e"
  shows "\<exists>out wait m'. run fc env m = (Some (Inr (concat (map (event_actions fc) out))), wait, m') \<and> fm_queue m = out @ fm_queue m' \<and>
     (fm_queue m' = [] \<or> unat FILE_EVENTS_BUFFER_SIZE < length (concat (map file_bytes (out @ [hd (fm_queue m')]))))"
proof -
  obtain out used x q where d: "drain sizeof_FILE_EVENT fileEventSize (mg_raises env) FILE_EVENTS_BUFFER_SIZE 0 (fm_queue m) = (out, used, x, q)"
    by (metis prod_cases4)
  have "x = None"
  proof (cases x)
    case (Some e)
    then show ?thesis using drain_raised d assms(1) by fastforce
  qed
  note d = d[unfolded this]
  note b = fp.drain_bytes[OF d assms(2)]
  have ok: "\<forall>e \<in> set out. file_event_ok e" using b assms(2) by auto
  have len: "length (concat (map file_bytes out)) = unat used" using b by blast
  obtain m' where k: "MessageCallback (client_message env) m = (STATUS_SUCCESS, used, out, m')" "fm_queue m' = q"
    using d by (simp add: MessageCallback_def client_message_def GetFileEvents_def UpdateLastContactTime_def)
  have "run fc env m = (Some (Inr (concat (map (event_actions fc) out))),
      if used = FILE_EVENTS_BUFFER_SIZE then FILE_EVENT_BUFFER_FULL_WAIT_TIME else FILE_EVENT_WAIT_TIME, m')"
    unfolding run_def k(1) by (simp add: Let_def file_received_ok[OF ok len])
  then show ?thesis using b k(2) by (auto simp del: length_concat)
qed

section \<open>Properties\<close>

text \<open>
  C26: The client takes the buffer of the filter apart the way it was filled: a round of the
  thread ends and does, in order, what each event the filter took off its queue asks for by its
  own type, result, time, process and path; what stays queued is there because the next event
  would not have fitted into the buffer.
\<close>

theorem file_client_reads:
  assumes "\<forall>u z. \<not> mg_raises env u z" "\<forall>e \<in> set (fm_queue m). file_event_ok e"
  shows "\<exists>out wait m'. run fc env m = (Some (Inr (concat (map (event_actions fc) out))), wait, m') \<and> fm_queue m = out @ fm_queue m' \<and>
     (fm_queue m' = [] \<or> unat FILE_EVENTS_BUFFER_SIZE < length (concat (map file_bytes (out @ [hd (fm_queue m')]))))"
  by (rule file_run_ok[OF assms])

definition fclient_demo :: "u16 list file_client" where
  "fclient_demo = \<lparr>fc_permissions = Map.empty, fc_matches = (=), fc_names = [(wide ''/'', wide ''C/'')], fc_process_path = (\<lambda>_. wide ''p''),
     fc_monitorModifiedFiles = True, fc_is_directory = (\<lambda>_. False)\<rparr>"

definition write_event :: file_event where
  "write_event = make_file_event fpre_demo (wide ''/a'') block_demo"

theorem file_client_reads_witness:
  "\<exists>acts wait m'. run fclient_demo setup_demo (fmanager_demo\<lparr>fm_queue := [write_event]\<rparr>) = (Some (Inr acts), wait, m') \<and>
     track {} acts = {wide ''C/a''}"
proof -
  have p: "\<forall>u z. \<not> mg_raises setup_demo u z" by (simp add: setup_demo_def)
  have q: "fm_queue (fmanager_demo\<lparr>fm_queue := [write_event]\<rparr>) = [write_event]" by simp
  have ok: "file_event_ok write_event"
    unfolding write_event_def by (rule make_file_event_ok) (simp_all add: wide_def block_demo_def fpre_demo_def)
  then have "\<forall>e \<in> set (fm_queue (fmanager_demo\<lparr>fm_queue := [write_event]\<rparr>)). file_event_ok e" by simp
  from file_client_reads[OF p this, of fclient_demo] obtain out wait m' where
    r: "run fclient_demo setup_demo (fmanager_demo\<lparr>fm_queue := [write_event]\<rparr>) =
      (Some (Inr (concat (map (event_actions fclient_demo) out))), wait, m')" "[write_event] = out @ fm_queue m'"
    "fm_queue m' = [] \<or> unat FILE_EVENTS_BUFFER_SIZE < length (concat (map file_bytes (out @ [hd (fm_queue m')])))"
    unfolding q by (elim exE conjE)
  have len: "fe_filePathLength write_event = 6"
    by (simp add: write_event_def make_file_event_def wide_def)
  have "length (file_bytes write_event) = 46"
    unfolding length_file_bytes[OF ok] unat_fileEventSize[OF ok] len by simp
  then have "out = [write_event]" using only_event_delivered[OF r(2,3)] by (simp add: FILE_EVENTS_BUFFER_SIZE_def)
  moreover have "track {} (event_actions fclient_demo write_event) = {wide ''C/a''}"
    by (simp add: event_actions_def write_event_def make_file_event_def RtlStringCbCopyUnicodeString_def wide_def handle_event_def
        getFileEventName_def fclient_demo_def convertFileObjectNameToDosName_def begins_with_def replace_at_def isEventAllowed_def
        track_modified_def fpre_demo_def backup_demo_def Let_def)
  ultimately show ?thesis using r(1) by simp
qed

end
