(* ===== verification/RegistryMonitor.thy ===== *)
theory RegistryMonitor
  imports PacketQueue "HOL-Library.Multiset"
begin

text \<open>
  RegistryMonitor/CaptureRegistryMonitor.c: the driver that reports registry events. What
  the configuration manager passes to the callback is a datatype with one constructor per
  notification that is looked at; what the kernel answers is in the environment of a call.
  The pool blocks the driver holds are a multiset of the kinds of blocks.
\<close>

abbreviation (input) USERSPACE_CONNECTION_TIMEOUT :: u32 where "USERSPACE_CONNECTION_TIMEOUT \<equiv> 10"

text \<open>CTL_CODE(0x22, 0x803, METHOD_NEITHER, FILE_READ_DATA | FILE_WRITE_DATA)\<close>

definition IOCTL_CAPTURE_GET_REGEVENTS :: u32 where
  "IOCTL_CAPTURE_GET_REGEVENTS = push_bit 16 0x22 OR push_bit 14 3 OR push_bit 2 0x803 OR 3"

section \<open>Events\<close>

record registry_event =
  re_eventType :: u32
  re_time :: "u8 list"
  re_processId :: u32
  re_dataType :: u32
  re_dataLengthB :: u32
  re_registryPathLengthB :: u32
  re_registryData :: "u8 list"

definition sizeof_REGISTRY_EVENT :: u32 where "sizeof_REGISTRY_EVENT = 36"

text \<open>The event in memory: the header, and behind it the path and the data.\<close>

definition registry_bytes :: "registry_event \<Rightarrow> u8 list" where
  "registry_bytes e = le_bytes32 (re_eventType e) @ re_time e @ le_bytes32 (re_processId e) @ le_bytes32 (re_dataType e) @
     le_bytes32 (re_dataLengthB e) @ le_bytes32 (re_registryPathLengthB e) @ re_registryData e"

definition registryEventSize :: "registry_event \<Rightarrow> u32" where
  "registryEventSize e = sizeof_REGISTRY_EVENT + re_registryPathLengthB e + re_dataLengthB e"

datatype reg_block = PathBlock | DataBlock | EventBlock | PacketBlock

record registry_manager =
  rm_bReady :: bool
  rm_queue :: "registry_event list"
  rm_lastContactTime :: u32
  rm_pool :: "reg_block multiset"

text \<open>The two blocks of a queued event.\<close>

definition queued_blocks :: "nat \<Rightarrow> reg_block multiset" where
  "queued_blocks n = repeat_mset n {#EventBlock, PacketBlock#}"

section \<open>The name of a key\<close>

text \<open>
  What is found out about a key object: whether its address is valid, and the two queries
  for its name with the block between them.
\<close>

record object_answers =
  oa_valid :: bool
  oa_status1 :: NTSTATUS
  oa_block :: bool
  oa_status2 :: NTSTATUS
  oa_name :: "u16 list"

text \<open>A character of a name; behind its end there is taken to be a NUL.\<close>

definition char_at :: "u16 list \<Rightarrow> nat \<Rightarrow> u16" where
  "char_at s i = (if i < length s then s ! i else 0)"

definition is_complete_name :: "u16 list \<Rightarrow> bool" where
  "is_complete_name p \<longleftrightarrow> char_at p 0 = 0x5C \<or> char_at p 0 = 0x25 \<or>
     (char_at p 0 = 0x54 \<and> char_at p 1 = 0x52 \<and> char_at p 2 = 0x59 \<and> char_at p 3 = 0x5C)"

text \<open>
  With no memory for the name the code goes on with a null pointer: the query gets it, and
  whatever the query says, it is then freed.
\<close>

definition query_name :: "unicode_string \<Rightarrow> object_answers \<Rightarrow> fault + bool \<times> unicode_string" where
  "query_name path obj =
     (if oa_status1 obj = STATUS_INFO_LENGTH_MISMATCH then
        if \<not> oa_block obj then Inl NullDeref
        else if NT_SUCCESS (oa_status2 obj) then Inr (True, RtlUnicodeStringCopy path (oa_name obj))
        else Inr (False, path)
      else Inr (False, path))"

definition GetRegistryObjectCompleteName ::
    "unicode_string \<Rightarrow> u16 list option \<Rightarrow> object_answers \<Rightarrow> fault + bool \<times> unicode_string" where
  "GetRegistryObjectCompleteName path partial obj =
     (if \<not> oa_valid obj then Inr (False, path)
      else case partial of
        Some p \<Rightarrow> if is_complete_name p then Inr (True, RtlUnicodeStringCopy path p) else query_name path obj
      | None \<Rightarrow> query_name path obj)"

section \<open>The callback\<close>

datatype reg_argument =
    PostCreateKey NTSTATUS "u16 list option"
  | PostOpenKey NTSTATUS "u16 list option"
  | PreDeleteKey
  | DeleteValueKey "u16 list"
  | PreSetValueKey "u16 list" u32 "u8 list"
  | EnumerateKey u32
  | EnumerateValueKey u32
  | QueryKey u32
  | QueryValueKey "u16 list" u32
  | KeyHandleClose
  | OtherNotification u32

text \<open>The numbers of the notifications (the client has them in RegistryMonitor.h).\<close>

fun notify_class :: "reg_argument \<Rightarrow> u32" where
  "notify_class (PostCreateKey _ _) = 11"
| "notify_class (PostOpenKey _ _) = 13"
| "notify_class PreDeleteKey = 0"
| "notify_class (DeleteValueKey _) = 2"
| "notify_class (PreSetValueKey _ _ _) = 1"
| "notify_class (EnumerateKey _) = 5"
| "notify_class (EnumerateValueKey _) = 6"
| "notify_class (QueryKey _) = 7"
| "notify_class (QueryValueKey _ _) = 8"
| "notify_class KeyHandleClose = 14"
| "notify_class (OtherNotification c) = c"

record callback_env =
  ce_object :: object_answers
  ce_raises :: bool
  ce_data_raises :: bool
  ce_path_block :: bool
  ce_data_block :: bool
  ce_event_block :: bool
  ce_packet_block :: bool
  ce_time :: "u8 list"
  ce_pid :: u32
  ce_now :: u32

text \<open>What the guarded part of the callback leaves in its local variables.\<close>

record captured =
  cp_path :: unicode_string
  cp_valid :: bool
  cp_data :: "u8 list option"
  cp_length :: u32
  cp_type :: u32

definition no_capture :: "unicode_string \<Rightarrow> captured" where
  "no_capture path = \<lparr>cp_path = path, cp_valid = False, cp_data = None, cp_length = 0, cp_type = 0\<rparr>"

text \<open>The path of the key; an exception while it is looked at is handled.\<close>

definition capture_name :: "callback_env \<Rightarrow> unicode_string \<Rightarrow> u16 list option \<Rightarrow> u32 \<Rightarrow> fault + captured" where
  "capture_name env path partial type =
     (if ce_raises env then Inr (no_capture path)
      else fbind (GetRegistryObjectCompleteName path partial (ce_object env)) (\<lambda>(found, path').
             Inr \<lparr>cp_path = path', cp_valid = found, cp_data = None, cp_length = 0, cp_type = type\<rparr>))"

definition append_value_name :: "unicode_string \<Rightarrow> u16 list \<Rightarrow> unicode_string" where
  "append_value_name path val = RtlUnicodeStringCat (RtlUnicodeStringCat path [0x5C]) val"

definition capture :: "callback_env \<Rightarrow> unicode_string \<Rightarrow> reg_argument \<Rightarrow> fault + captured" where
  "capture env path arg =
     (case arg of
        PostCreateKey status name \<Rightarrow> if NT_SUCCESS status then capture_name env path name 0 else Inr (no_capture path)
      | PostOpenKey status name \<Rightarrow> if NT_SUCCESS status then capture_name env path name 0 else Inr (no_capture path)
      | PreDeleteKey \<Rightarrow> capture_name env path None 0
      | DeleteValueKey val \<Rightarrow>
          fbind (capture_name env path None 0) (\<lambda>c.
            Inr (if cp_valid c \<and> val \<noteq> [] then c\<lparr>cp_path := append_value_name (cp_path c) val\<rparr> else c))
      | PreSetValueKey val type data \<Rightarrow>
          fbind (capture_name env path None 0) (\<lambda>c.
            if cp_valid c \<and> val \<noteq> [] then
              if ce_data_block env \<and> ce_data_raises env then
                Inr (c\<lparr>cp_valid := False, cp_type := type, cp_length := of_nat (length data), cp_data := Some []\<rparr>)
              else Inr (c\<lparr>cp_type := type, cp_length := of_nat (length data),
                          cp_data := (if ce_data_block env then Some data else None),
                          cp_path := append_value_name (cp_path c) val\<rparr>)
            else Inr c)
      | EnumerateKey class \<Rightarrow> capture_name env path None class
      | EnumerateValueKey class \<Rightarrow> capture_name env path None class
      | QueryKey class \<Rightarrow> capture_name env path None class
      | QueryValueKey val class \<Rightarrow>
          fbind (capture_name env path None 0) (\<lambda>c.
            Inr (if cp_valid c \<and> val \<noteq> [] then c\<lparr>cp_type := class, cp_path := append_value_name (cp_path c) val\<rparr> else c))
      | KeyHandleClose \<Rightarrow> capture_name env path None 0
      | OtherNotification _ \<Rightarrow> Inr (no_capture path))"

definition QueueRegistryEvent :: "callback_env \<Rightarrow> registry_event \<Rightarrow> registry_manager \<Rightarrow> fault + bool \<times> registry_manager" where
  "QueueRegistryEvent env e m =
     (if ce_now env - rm_lastContactTime m \<le> USERSPACE_CONNECTION_TIMEOUT then
        if \<not> ce_packet_block env then Inl NullDeref
        else Inr (True, m\<lparr>rm_queue := rm_queue m @ [e], rm_pool := add_mset PacketBlock (rm_pool m)\<rparr>)
      else Inr (False, m))"

definition make_registry_event :: "callback_env \<Rightarrow> u32 \<Rightarrow> captured \<Rightarrow> registry_event" where
  "make_registry_event env type c =
     \<lparr>re_eventType = type, re_time = ce_time env, re_processId = ce_pid env, re_dataType = cp_type c,
      re_dataLengthB = cp_length c, re_registryPathLengthB = of_nat (2 * length (us_chars (cp_path c))) + 2,
      re_registryData = char_bytes (us_chars (cp_path c)) @ [0, 0] @ (case cp_data c of None \<Rightarrow> [] | Some d \<Rightarrow> d)\<rparr>"

text \<open>
  The last part: the event is built and queued. Writing past the block that was asked for,
  or reading the data of a value when there was no memory for them, is not caught here.
\<close>

definition publish_registry_event ::
    "callback_env \<Rightarrow> u32 \<Rightarrow> captured \<Rightarrow> registry_manager \<Rightarrow> fault + registry_manager" where
  "publish_registry_event env type c m =
     (let path_length = 2 * length (us_chars (cp_path c));
          eventSize = sizeof_REGISTRY_EVENT + of_nat path_length + 2 + cp_length c
      in if \<not> ce_event_block env then Inr m
         else if unat eventSize < 36 + path_length + 2 + unat (cp_length c) then Inl OutOfBounds
         else if cp_data c = None \<and> cp_length c \<noteq> 0 then Inl NullDeref
         else let m1 = m\<lparr>rm_pool := add_mset EventBlock
                        (if cp_data c \<noteq> None then rm_pool m - {#DataBlock#} else rm_pool m)\<rparr>
              in fbind (QueueRegistryEvent env (make_registry_event env type c) m1) (\<lambda>(queued, m2).
                   Inr (if queued then m2 else m2\<lparr>rm_pool := rm_pool m2 - {#EventBlock#}\<rparr>)))"

definition empty_path :: unicode_string where
  "empty_path = \<lparr>us_chars = [], us_maximum = 32767\<rparr>"

definition RegistryCallback :: "callback_env \<Rightarrow> reg_argument \<Rightarrow> registry_manager \<Rightarrow> fault + registry_manager" where
  "RegistryCallback env arg m =
     (if \<not> ce_path_block env then Inr m
      else fbind (capture env empty_path arg) (\<lambda>c.
        let m1 = m\<lparr>rm_pool := add_mset PathBlock
                      (if cp_data c \<noteq> None then add_mset DataBlock (rm_pool m) else rm_pool m)\<rparr>
        in fbind (if cp_valid c then publish_registry_event env (notify_class arg) c m1 else Inr m1) (\<lambda>m2.
             Inr (m2\<lparr>rm_pool := rm_pool m2 - {#PathBlock#}\<rparr>))))"

section \<open>Requests of the process\<close>

record ioctl_env =
  io_code :: u32
  io_buffer_null :: bool
  io_length :: u32
  io_probe_raises :: bool
  io_raises :: "u32 \<Rightarrow> u32 \<Rightarrow> bool"
  io_exception :: NTSTATUS
  io_now :: u32

text \<open>An event whose copy raises an exception is off the queue already and stays allocated.
  The result: status, number of bytes written, the bytes, the manager.\<close>

definition HandleIoctlGetRegEvents ::
    "ioctl_env \<Rightarrow> registry_manager \<Rightarrow> NTSTATUS \<times> u32 \<times> registry_event list \<times> registry_manager" where
  "HandleIoctlGetRegEvents env m =
     (if io_buffer_null env then (STATUS_UNSUCCESSFUL, 0, [], m)
      else if io_probe_raises env then (io_exception env, 0, [], m)
      else if sizeof_REGISTRY_EVENT \<le> io_length env then
        let (out, used, raised, q) = drain sizeof_REGISTRY_EVENT registryEventSize (io_raises env) (io_length env) 0 (rm_queue m);
            m' = m\<lparr>rm_queue := q, rm_pool := rm_pool m - queued_blocks (length out)\<rparr>
        in (case raised of None \<Rightarrow> (STATUS_SUCCESS, used, out, m') | Some _ \<Rightarrow> (io_exception env, 0, out, m'))
      else (STATUS_BUFFER_TOO_SMALL, sizeof_REGISTRY_EVENT, [], m))"

definition UpdateLastContactTime :: "u32 \<Rightarrow> registry_manager \<Rightarrow> registry_manager" where
  "UpdateLastContactTime now m = m\<lparr>rm_lastContactTime := now\<rparr>"

text \<open>The status of the request, its Information, and the events in the buffer.\<close>

definition KDispatchIoctl :: "ioctl_env \<Rightarrow> registry_manager \<Rightarrow> NTSTATUS \<times> u32 \<times> registry_event list \<times> registry_manager" where
  "KDispatchIoctl env m =
     (if io_code env = IOCTL_CAPTURE_GET_REGEVENTS then
        let (status, written, out, m') = HandleIoctlGetRegEvents env (UpdateLastContactTime (io_now env) m)
        in (status, if NT_SUCCESS status then written else 0, out, m')
      else (STATUS_UNSUCCESSFUL, 0, [], m))"

definition KDispatchCreateClose :: "NTSTATUS \<times> u32" where
  "KDispatchCreateClose = (STATUS_SUCCESS, 0)"

text \<open>Freeing what is queued, when the process was silent for too long and on unloading.\<close>

definition free_queued :: "registry_manager \<Rightarrow> registry_manager" where
  "free_queued m = m\<lparr>rm_queue := [], rm_pool := rm_pool m - queued_blocks (length (rm_queue m))\<rparr>"

definition ConnectionChecker :: "u32 \<Rightarrow> registry_manager \<Rightarrow> registry_manager" where
  "ConnectionChecker now m =
     (if USERSPACE_CONNECTION_TIMEOUT + USERSPACE_CONNECTION_TIMEOUT div 2 < now - rm_lastContactTime m then free_queued m else m)"

section \<open>Loading and unloading\<close>

record registry_driver =
  rd_device :: bool
  rd_link :: bool
  rd_dispatch :: bool
  rd_callback :: bool
  rd_timer :: bool
  rd_manager :: registry_manager

record load_answers =
  la_device :: NTSTATUS
  la_link :: NTSTATUS
  la_callback :: NTSTATUS
  la_now :: u32

definition DriverEntry :: "load_answers \<Rightarrow> registry_driver \<Rightarrow> NTSTATUS \<times> registry_driver" where
  "DriverEntry a d =
     (if \<not> NT_SUCCESS (la_device a) then (la_device a, d)
      else let d1 = d\<lparr>rd_device := True, rd_manager := (rd_manager d)\<lparr>rm_bReady := False\<rparr>\<rparr>
           in if \<not> NT_SUCCESS (la_link a) then (la_link a, d1\<lparr>rd_device := False\<rparr>)
              else let d2 = d1\<lparr>rd_link := True, rd_dispatch := True, rd_manager := (rd_manager d1)\<lparr>rm_queue := []\<rparr>\<rparr>
                   in if \<not> NT_SUCCESS (la_callback a) then (la_callback a, d2)
                      else (STATUS_SUCCESS,
                            d2\<lparr>rd_callback := True, rd_timer := True,
                               rd_manager := (UpdateLastContactTime (la_now a) (rd_manager d2))\<lparr>rm_bReady := True\<rparr>\<rparr>))"

definition UnloadDriver :: "registry_driver \<Rightarrow> registry_driver" where
  "UnloadDriver d =
     (let d1 = (if rm_bReady (rd_manager d) then
                  d\<lparr>rd_timer := False, rd_callback := False, rd_manager := (rd_manager d)\<lparr>rm_bReady := False\<rparr>\<rparr>
                else d)
      in d1\<lparr>rd_manager := free_queued (rd_manager d1), rd_link := False, rd_device := False\<rparr>)"

section \<open>The driver as an event queue\<close>

datatype registry_op =
    Notify callback_env reg_argument
  | Request ioctl_env
  | Tick u32

definition registry_step ::
    "registry_op \<Rightarrow> registry_manager \<Rightarrow> (registry_event list \<times> registry_event list \<times> registry_manager) option" where
  "registry_step op m =
     (case op of
        Notify env arg \<Rightarrow>
          (case RegistryCallback env arg m of
             Inl _ \<Rightarrow> None | Inr m' \<Rightarrow> Some (drop (length (rm_queue m)) (rm_queue m'), [], m'))
      | Request env \<Rightarrow> (case KDispatchIoctl env m of (status, _, out, m') \<Rightarrow> Some ([], if NT_SUCCESS status then out else [], m'))
      | Tick now \<Rightarrow> Some ([], [], ConnectionChecker now m))"

definition registry_keeps :: "registry_op \<Rightarrow> registry_manager \<Rightarrow> bool" where
  "registry_keeps op m \<longleftrightarrow>
     (case op of Notify _ _ \<Rightarrow> True
      | Request env \<Rightarrow> \<forall>used sz. \<not> io_raises env used sz
      | Tick now \<Rightarrow> now - rm_lastContactTime m \<le> 15)"

lemma publish_queue:
  assumes "publish_registry_event env type c m = Inr m'"
  shows "rm_queue m' = rm_queue m \<or> rm_queue m' = rm_queue m @ [make_registry_event env type c]"
  using assms by (auto simp: publish_registry_event_def Let_def QueueRegistryEvent_def split: if_splits)

text \<open>The manager while the callback holds the path and, perhaps, the data.\<close>

definition holding :: "captured \<Rightarrow> registry_manager \<Rightarrow> registry_manager" where
  "holding c m = m\<lparr>rm_pool := add_mset PathBlock
     (if cp_data c \<noteq> None then add_mset DataBlock (rm_pool m) else rm_pool m)\<rparr>"

lemma holding_queue [simp]: "rm_queue (holding c m) = rm_queue m" "rm_lastContactTime (holding c m) = rm_lastContactTime m"
  by (simp_all add: holding_def)

lemma RegistryCallback_cases:
  assumes "RegistryCallback env arg m = Inr m'" "ce_path_block env"
  obtains c m2 where "capture env empty_path arg = Inr c"
    "(if cp_valid c then publish_registry_event env (notify_class arg) c (holding c m) else Inr (holding c m)) = Inr m2"
    "m' = m2\<lparr>rm_pool := rm_pool m2 - {#PathBlock#}\<rparr>"
proof -
  have "fbind (capture env empty_path arg) (\<lambda>c.
      fbind (if cp_valid c then publish_registry_event env (notify_class arg) c (holding c m) else Inr (holding c m)) (\<lambda>m2.
        Inr (m2\<lparr>rm_pool := rm_pool m2 - {#PathBlock#}\<rparr>))) = Inr m'"
    using assms unfolding RegistryCallback_def Let_def holding_def by simp
  then show ?thesis using that unfolding fbind_eq_Inr by blast
qed

lemma RegistryCallback_queue:
  assumes "RegistryCallback env arg m = Inr m'"
  shows "rm_queue m' = rm_queue m \<or> (\<exists>c. rm_queue m' = rm_queue m @ [make_registry_event env (notify_class arg) c])"
proof (cases "ce_path_block env")
  case True
  show ?thesis
  proof (rule RegistryCallback_cases[OF assms True])
    fix c m2
    assume "(if cp_valid c then publish_registry_event env (notify_class arg) c (holding c m) else Inr (holding c m)) = Inr m2"
      "m' = m2\<lparr>rm_pool := rm_pool m2 - {#PathBlock#}\<rparr>"
    then show ?thesis using publish_queue[of env "notify_class arg" c "holding c m" m2] by (auto split: if_splits)
  qed
qed (use assms in \<open>simp add: RegistryCallback_def\<close>)

lemma HandleIoctl_queue:
  assumes "HandleIoctlGetRegEvents env m = (st, w, out, m')"
  shows "(out @ rm_queue m' = rm_queue m \<and> (NT_SUCCESS st \<or> out = [])) \<or>
    (\<exists>e used sz. io_raises env used sz \<and> rm_queue m = out @ e # rm_queue m')"
proof -
  obtain o1 used x q where d: "drain sizeof_REGISTRY_EVENT registryEventSize (io_raises env) (io_length env) 0 (rm_queue m) = (o1, used, x, q)"
    by (metis prod_cases4)
  have s: "rm_queue m = o1 @ (case x of None \<Rightarrow> [] | Some e \<Rightarrow> [e]) @ q" by (rule drain_split[OF d])
  show ?thesis
  proof (cases x)
    case None
    then show ?thesis using assms d s by (auto simp: HandleIoctlGetRegEvents_def split: if_splits)
  next
    case (Some e)
    then have "\<exists>u z. io_raises env u z" using drain_raised d by fastforce
    then show ?thesis using assms d s Some by (auto simp: HandleIoctlGetRegEvents_def split: if_splits)
  qed
qed

lemma free_queued_queue [simp]: "rm_queue (free_queued m) = []"
  by (simp add: free_queued_def)

lemma KDispatchIoctl_queue:
  assumes "KDispatchIoctl env m = (st, w, out, m')"
  shows "(out @ rm_queue m' = rm_queue m \<and> (NT_SUCCESS st \<or> out = [])) \<or>
    (\<exists>e used sz. io_raises env used sz \<and> rm_queue m = out @ e # rm_queue m')"
proof -
  obtain st1 w1 out1 m1 where h: "HandleIoctlGetRegEvents env (UpdateLastContactTime (io_now env) m) = (st1, w1, out1, m1)"
    by (metis prod_cases4)
  show ?thesis using assms h HandleIoctl_queue[OF h]
    by (auto simp: KDispatchIoctl_def UpdateLastContactTime_def split: if_splits)
qed

text \<open>Steps either keep everything in order, or drop a part at the head of the queue.\<close>

lemma registry_step_order:
  assumes "registry_step x s = Some (ps, ds, s')"
  shows "ds @ rm_queue s' = rm_queue s @ ps \<or>
    (ps = [] \<and> \<not> registry_keeps x s \<and> (\<exists>e l. rm_queue s = l @ e # rm_queue s' \<and> ds \<in> {[], l})) \<or>
    (ps = [] \<and> ds = [] \<and> rm_queue s' = [] \<and> \<not> registry_keeps x s)"
proof (cases x)
  case (Notify env arg)
  then have "RegistryCallback env arg s = Inr s'" "ps = drop (length (rm_queue s)) (rm_queue s')" "ds = []"
    using assms by (auto simp: registry_step_def split: sum.splits)
  then show ?thesis using RegistryCallback_queue[of env arg s s'] by auto
next
  case (Request env)
  obtain st w out m' where k: "KDispatchIoctl env s = (st, w, out, m')" by (metis prod_cases4)
  then have r: "ps = []" "ds = (if NT_SUCCESS st then out else [])" "s' = m'"
    using assms Request by (simp_all add: registry_step_def)
  from KDispatchIoctl_queue[OF k] show ?thesis
  proof (elim disjE exE conjE)
    fix e used sz assume "io_raises env used sz" "rm_queue s = out @ e # rm_queue m'"
    then show ?thesis using r Request by (auto simp: registry_keeps_def)
  qed (use r in auto)
next
  case (Tick now)
  then show ?thesis using assms
    by (auto simp: registry_step_def ConnectionChecker_def registry_keeps_def not_less[symmetric] split: if_splits)
qed

interpretation rq: event_queue rm_queue registry_step
proof
  fix x s ps ds s' assume "registry_step x s = Some (ps, ds, s')"
  from registry_step_order[OF this] show "subseq (ds @ rm_queue s') (rm_queue s @ ps)"
    by (auto simp: subseq_without_one subseq_suffix)
qed

interpretation rq: lossless_queue rm_queue registry_step registry_keeps
proof
  fix x s ps ds s' assume "registry_step x s = Some (ps, ds, s')" "registry_keeps x s"
  from registry_step_order[OF this(1)] this(2) show "ds @ rm_queue s' = rm_queue s @ ps" by auto
qed

section \<open>Well-formed events\<close>

definition re_ok :: "registry_event \<Rightarrow> bool" where
  "re_ok e \<longleftrightarrow> length (re_time e) = 16 \<and> 36 + length (re_registryData e) < 2 ^ 32 \<and>
     (\<exists>cs d. re_registryData e = char_bytes (cs @ [0]) @ d \<and>
        unat (re_registryPathLengthB e) = 2 * length cs + 2 \<and> unat (re_dataLengthB e) = length d)"

lemma unat_registryEventSize:
  assumes "re_ok e" shows "unat (registryEventSize e) = 36 + length (re_registryData e)"
proof -
  obtain cs d where d: "re_registryData e = char_bytes (cs @ [0]) @ d" "unat (re_registryPathLengthB e) = 2 * length cs + 2"
    "unat (re_dataLengthB e) = length d" using assms by (auto simp: re_ok_def)
  have n: "36 + (2 * length cs + 2) + length d < 2 ^ 32" using assms d(1) by (simp add: re_ok_def)
  have "unat (sizeof_REGISTRY_EVENT + re_registryPathLengthB e) = 36 + (2 * length cs + 2)"
    using n d(2) unat_add_no_wrap[of sizeof_REGISTRY_EVENT "re_registryPathLengthB e"] by (simp add: sizeof_REGISTRY_EVENT_def)
  then show ?thesis
    using n d unat_add_no_wrap[of "sizeof_REGISTRY_EVENT + re_registryPathLengthB e" "re_dataLengthB e"]
    by (simp add: registryEventSize_def)
qed

lemma length_registry_bytes: "re_ok e \<Longrightarrow> length (registry_bytes e) = unat (registryEventSize e)"
  by (simp add: unat_registryEventSize) (simp add: registry_bytes_def re_ok_def)

definition capture_ok :: "captured \<Rightarrow> bool" where
  "capture_ok c \<longleftrightarrow> us_ok (cp_path c) \<and> (\<forall>d. cp_data c = Some d \<longrightarrow> cp_valid c \<longrightarrow> unat (cp_length c) = length d)"

definition arg_ok :: "reg_argument \<Rightarrow> bool" where
  "arg_ok arg \<longleftrightarrow> (\<forall>val type data. arg = PreSetValueKey val type data \<longrightarrow> length data < 2 ^ 32)"

lemma name_ok:
  "us_ok path \<Longrightarrow> GetRegistryObjectCompleteName path partial obj = Inr (b, path') \<Longrightarrow> us_ok path'"
  by (auto simp: GetRegistryObjectCompleteName_def query_name_def split: if_splits option.splits)

lemma capture_name_ok:
  "us_ok path \<Longrightarrow> capture_name env path partial type = Inr c \<Longrightarrow> us_ok (cp_path c) \<and> cp_data c = None \<and> cp_length c = 0"
  by (auto simp: capture_name_def no_capture_def fbind_eq_Inr dest: name_ok split: if_splits)

lemma append_value_name_ok [simp]: "us_ok path \<Longrightarrow> us_ok (append_value_name path val)"
  by (simp add: append_value_name_def)

lemma unat_of_nat_u32: "n < 2 ^ 32 \<Longrightarrow> unat (of_nat n :: u32) = n"
  by (simp add: unat_of_nat take_bit_nat_eq_self)

lemma capture_capture_ok:
  assumes "us_ok path" "capture env path arg = Inr c" "arg_ok arg"
  shows "capture_ok c"
proof -
  have nc: "capture_ok (no_capture path)" using assms(1) by (simp add: capture_ok_def no_capture_def)
  have name: "capture_ok c'" if "capture_name env path p t = Inr c'" for p t c'
    using capture_name_ok[OF assms(1) that] by (simp add: capture_ok_def)
  show ?thesis
  proof (cases arg)
    case (PreSetValueKey val type data)
    then have l: "unat (of_nat (length data) :: u32) = length data" using assms(3) by (simp add: arg_ok_def unat_of_nat_u32)
    obtain c0 where c0: "capture_name env path None 0 = Inr c0" using assms(2) PreSetValueKey by (auto simp: capture_def fbind_eq_Inr)
    note ok = capture_name_ok[OF assms(1) c0]
    show ?thesis using assms(2) PreSetValueKey c0 ok l
      by (auto simp: capture_def capture_ok_def split: if_splits)
  next
    case (DeleteValueKey val)
    then show ?thesis using assms(2) capture_name_ok[OF assms(1)]
      by (auto simp: capture_def fbind_eq_Inr capture_ok_def split: if_splits)
  next
    case (QueryValueKey val k)
    then show ?thesis using assms(2) capture_name_ok[OF assms(1)]
      by (auto simp: capture_def fbind_eq_Inr capture_ok_def split: if_splits)
  qed (use assms(2) nc name in \<open>auto simp: capture_def split: if_splits\<close>)
qed

lemma make_registry_event_ok:
  assumes "capture_ok c" "cp_valid c" "length (ce_time env) = 16"
    and "\<not> unat (sizeof_REGISTRY_EVENT + of_nat (2 * length (us_chars (cp_path c))) + 2 + cp_length c) <
           36 + 2 * length (us_chars (cp_path c)) + 2 + unat (cp_length c)"
    and "\<not> (cp_data c = None \<and> cp_length c \<noteq> 0)"
  shows "re_ok (make_registry_event env type c)"
proof -
  let ?n = "length (us_chars (cp_path c))"
  have n: "2 * ?n \<le> 65534" using assms(1) by (simp add: capture_ok_def us_ok_def)
  define d where "d = (case cp_data c of None \<Rightarrow> [] | Some d \<Rightarrow> d)"
  have d: "unat (cp_length c) = length d"
    using assms(1,2,5) by (auto simp: d_def capture_ok_def split: option.splits)
  have "unat (sizeof_REGISTRY_EVENT + of_nat (2 * ?n) + 2 + cp_length c) < 2 ^ 32"
    using unsigned_less[where 'b = 32 and 'a = nat] by simp
  then have total: "36 + 2 * ?n + 2 + length d < 2 ^ 32" using assms(4) d by simp
  have "unat (of_nat (2 * ?n) :: u32) = 2 * ?n" using n by (intro unat_of_nat_u32) simp
  then have p: "unat (of_nat (2 * ?n) + 2 :: u32) = 2 * ?n + 2"
    using n unat_add_no_wrap[of "of_nat (2 * ?n)" 2] by simp
  show ?thesis
    unfolding re_ok_def
  proof (intro conjI exI[of _ "us_chars (cp_path c)"] exI[of _ d])
    show "unat (re_registryPathLengthB (make_registry_event env type c)) = 2 * ?n + 2"
      using p by (simp add: make_registry_event_def)
    show "re_registryData (make_registry_event env type c) = char_bytes (us_chars (cp_path c) @ [0]) @ d"
      by (simp add: make_registry_event_def d_def le_bytes16_def)
    show "36 + length (re_registryData (make_registry_event env type c)) < 2 ^ 32"
      using total by (simp add: make_registry_event_def d_def[symmetric])
  qed (use assms(3) d in \<open>simp_all add: make_registry_event_def\<close>)
qed

lemma publish_event_ok:
  assumes "publish_registry_event env type c m = Inr m'" "capture_ok c" "cp_valid c" "length (ce_time env) = 16"
    and "\<forall>e \<in> set (rm_queue m). re_ok e"
  shows "\<forall>e \<in> set (rm_queue m'). re_ok e"
proof -
  have "rm_queue m' = rm_queue m \<or> (rm_queue m' = rm_queue m @ [make_registry_event env type c] \<and>
      re_ok (make_registry_event env type c))"
    using publish_queue[OF assms(1)] assms(1) make_registry_event_ok[OF assms(2-4), of type]
    by (auto simp: publish_registry_event_def Let_def split: if_splits)
  then show ?thesis using assms(5) by auto
qed

lemma RegistryCallback_events_ok:
  assumes "RegistryCallback env arg m = Inr m'" "arg_ok arg" "length (ce_time env) = 16" "\<forall>e \<in> set (rm_queue m). re_ok e"
  shows "\<forall>e \<in> set (rm_queue m'). re_ok e"
proof (cases "ce_path_block env")
  case True
  show ?thesis
  proof (rule RegistryCallback_cases[OF assms(1) True])
    fix c m2
    assume c: "capture env empty_path arg = Inr c"
      "(if cp_valid c then publish_registry_event env (notify_class arg) c (holding c m) else Inr (holding c m)) = Inr m2"
      "m' = m2\<lparr>rm_pool := rm_pool m2 - {#PathBlock#}\<rparr>"
    have "us_ok empty_path" by (simp add: us_ok_def empty_path_def)
    from capture_capture_ok[OF this c(1) assms(2)] show ?thesis
      using c(2,3) publish_event_ok[of env "notify_class arg" c "holding c m" m2] assms(3,4) by (auto split: if_splits)
  qed
qed (use assms in \<open>simp add: RegistryCallback_def\<close>)

section \<open>The pool\<close>

lemma queued_blocks_simps [simp]:
  "queued_blocks 0 = {#}" "queued_blocks (Suc n) = add_mset EventBlock (add_mset PacketBlock (queued_blocks n))"
  by (simp_all add: queued_blocks_def)

lemma queued_blocks_add: "queued_blocks (a + b) = queued_blocks a + queued_blocks b"
  by (induction a) simp_all

lemma capture_name_data [simp]: "capture_name env path p t = Inr c \<Longrightarrow> cp_data c = None"
  by (auto simp: capture_name_def no_capture_def fbind_eq_Inr split: if_splits)

lemma capture_data:
  assumes "capture env path arg = Inr c" "cp_data c \<noteq> None"
  shows "(\<exists>val type data. arg = PreSetValueKey val type data) \<and> ce_data_block env \<and> (cp_valid c \<or> ce_data_raises env)"
  using assms
  by (cases arg) (auto simp: capture_def fbind_eq_Inr no_capture_def split: if_splits)

lemma publish_pool:
  assumes "publish_registry_event env type c (holding c m) = Inr m2" "rm_pool m = queued_blocks (length (rm_queue m)) + L"
  shows "rm_pool m2 = add_mset PathBlock (queued_blocks (length (rm_queue m2)) + L +
     (if cp_data c \<noteq> None \<and> \<not> ce_event_block env then {#DataBlock#} else {#}))"
  using assms by (auto simp: publish_registry_event_def Let_def QueueRegistryEvent_def holding_def split: if_splits)

lemma RegistryCallback_pool:
  assumes "RegistryCallback env arg m = Inr m'" "rm_pool m = queued_blocks (length (rm_queue m)) + L"
  shows "\<exists>leak. rm_pool m' = queued_blocks (length (rm_queue m')) + L + leak \<and>
     (leak \<noteq> {#} \<longrightarrow> (\<exists>val type data. arg = PreSetValueKey val type data) \<and> ce_data_block env \<and>
        (ce_data_raises env \<or> \<not> ce_event_block env) \<and> leak = {#DataBlock#})"
proof (cases "ce_path_block env")
  case True
  show ?thesis
  proof (rule RegistryCallback_cases[OF assms(1) True])
    fix c m2
    assume c: "capture env empty_path arg = Inr c"
      and m2: "(if cp_valid c then publish_registry_event env (notify_class arg) c (holding c m) else Inr (holding c m)) = Inr m2"
      and m': "m' = m2\<lparr>rm_pool := rm_pool m2 - {#PathBlock#}\<rparr>"
    let ?leak = "if cp_data c \<noteq> None \<and> \<not> (cp_valid c \<and> ce_event_block env) then {#DataBlock#} else {#}"
    have "rm_pool m2 = add_mset PathBlock (queued_blocks (length (rm_queue m2)) + L + ?leak)"
    proof (cases "cp_valid c")
      case True
      with m2 publish_pool[of env "notify_class arg" c m m2 L] assms(2) show ?thesis by simp
    next
      case False
      with m2 have "m2 = holding c m" by simp
      with False assms(2) show ?thesis by (simp add: holding_def)
    qed
    then have "rm_pool m' = queued_blocks (length (rm_queue m')) + L + ?leak" using m' by simp
    then show ?thesis using capture_data[OF c] by (intro exI[of _ ?leak]) auto
  qed
qed (use assms in \<open>simp add: RegistryCallback_def\<close>)

lemma HandleIoctl_pool:
  assumes "HandleIoctlGetRegEvents env m = (st, w, out, m')" "rm_pool m = queued_blocks (length (rm_queue m)) + L"
  shows "\<exists>leak. rm_pool m' = queued_blocks (length (rm_queue m')) + L + leak \<and>
     (leak \<noteq> {#} \<longrightarrow> (\<exists>u z. io_raises env u z) \<and> leak = {#EventBlock, PacketBlock#})"
proof -
  obtain o1 used x q where d: "drain sizeof_REGISTRY_EVENT registryEventSize (io_raises env) (io_length env) 0 (rm_queue m) = (o1, used, x, q)"
    by (metis prod_cases4)
  have s: "rm_queue m = o1 @ (case x of None \<Rightarrow> [] | Some e \<Rightarrow> [e]) @ q" by (rule drain_split[OF d])
  show ?thesis
  proof (cases x)
    case None
    then show ?thesis using assms d s
      by (intro exI[of _ "{#}"]) (auto simp: HandleIoctlGetRegEvents_def queued_blocks_add split: if_splits)
  next
    case (Some e)
    then have "\<exists>u z. io_raises env u z" using drain_raised d by fastforce
    moreover have "rm_pool m' = queued_blocks (length (rm_queue m')) + L +
        (if io_buffer_null env \<or> io_probe_raises env \<or> \<not> sizeof_REGISTRY_EVENT \<le> io_length env then {#} else {#EventBlock, PacketBlock#})"
      using assms d s Some by (auto simp: HandleIoctlGetRegEvents_def queued_blocks_add split: if_splits)
    ultimately show ?thesis by (auto split: if_splits)
  qed
qed

lemma registry_step_pool:
  assumes "registry_step op m = Some (ps, ds, m')" "rm_pool m = queued_blocks (length (rm_queue m)) + L"
  shows "\<exists>leak. rm_pool m' = queued_blocks (length (rm_queue m')) + L + leak \<and>
     (leak \<noteq> {#} \<longrightarrow>
        (\<exists>env val type data. op = Notify env (PreSetValueKey val type data) \<and> ce_data_block env \<and>
           (ce_data_raises env \<or> \<not> ce_event_block env) \<and> leak = {#DataBlock#}) \<or>
        (\<exists>env u z. op = Request env \<and> io_raises env u z \<and> leak = {#EventBlock, PacketBlock#}))"
proof (cases op)
  case (Notify env arg)
  then have "RegistryCallback env arg m = Inr m'" using assms(1) by (auto simp: registry_step_def split: sum.splits)
  from RegistryCallback_pool[OF this assms(2)] Notify show ?thesis by fastforce
next
  case (Request env)
  then obtain st w out where k: "KDispatchIoctl env m = (st, w, out, m')"
    using assms(1) by (auto simp: registry_step_def split: prod.splits)
  obtain st1 w1 out1 m1 where h: "HandleIoctlGetRegEvents env (UpdateLastContactTime (io_now env) m) = (st1, w1, out1, m1)"
    by (metis prod_cases4)
  have "m' = (if io_code env = IOCTL_CAPTURE_GET_REGEVENTS then m1 else m)"
    using k h by (simp add: KDispatchIoctl_def split: if_splits)
  then show ?thesis using HandleIoctl_pool[OF h, of L] assms(2) Request
    by (cases "io_code env = IOCTL_CAPTURE_GET_REGEVENTS") (fastforce simp: UpdateLastContactTime_def)+
next
  case (Tick now)
  then show ?thesis using assms
    by (intro exI[of _ "{#}"]) (auto simp: registry_step_def ConnectionChecker_def free_queued_def split: if_splits)
qed

section \<open>What is reported\<close>

definition value_path :: "u16 list \<Rightarrow> u16 list \<Rightarrow> u16 list" where
  "value_path name val = (if val = [] then name else name @ 0x5C # val)"

definition key_path :: "u16 list \<Rightarrow> u16 list option \<Rightarrow> u16 list" where
  "key_path name partial = (case partial of Some p \<Rightarrow> if is_complete_name p then p else name | None \<Rightarrow> name)"

text \<open>Path, data type and data that a notification about a key of the given name is to report.\<close>

fun reported :: "u16 list \<Rightarrow> reg_argument \<Rightarrow> (u16 list \<times> u32 \<times> u8 list) option" where
  "reported name (PostCreateKey status p) = (if NT_SUCCESS status then Some (key_path name p, 0, []) else None)"
| "reported name (PostOpenKey status p) = (if NT_SUCCESS status then Some (key_path name p, 0, []) else None)"
| "reported name PreDeleteKey = Some (name, 0, [])"
| "reported name (DeleteValueKey val) = Some (value_path name val, 0, [])"
| "reported name (PreSetValueKey val type data) = Some (value_path name val, if val = [] then 0 else type, if val = [] then [] else data)"
| "reported name (EnumerateKey k) = Some (name, k, [])"
| "reported name (EnumerateValueKey k) = Some (name, k, [])"
| "reported name (QueryKey k) = Some (name, k, [])"
| "reported name (QueryValueKey val k) = Some (value_path name val, if val = [] then 0 else k, [])"
| "reported name KeyHandleClose = Some (name, 0, [])"
| "reported name (OtherNotification _) = None"

definition all_granted :: "callback_env \<Rightarrow> bool" where
  "all_granted env \<longleftrightarrow> \<not> ce_raises env \<and> \<not> ce_data_raises env \<and> ce_path_block env \<and> ce_data_block env \<and> ce_event_block env \<and>
     ce_packet_block env \<and> oa_valid (ce_object env) \<and> oa_status1 (ce_object env) = STATUS_INFO_LENGTH_MISMATCH \<and>
     oa_block (ce_object env) \<and> NT_SUCCESS (oa_status2 (ce_object env))"

lemma value_path_length: "length name \<le> length (value_path name val)"
  by (simp add: value_path_def)

lemma capture_name_granted:
  assumes "all_granted env" "length (key_path (oa_name (ce_object env)) p) \<le> 32767"
  shows "capture_name env empty_path p t = Inr \<lparr>cp_path = \<lparr>us_chars = key_path (oa_name (ce_object env)) p, us_maximum = 32767\<rparr>,
     cp_valid = True, cp_data = None, cp_length = 0, cp_type = t\<rparr>"
  using assms
  by (auto simp: capture_name_def all_granted_def GetRegistryObjectCompleteName_def query_name_def key_path_def
      RtlUnicodeStringCopy_def empty_path_def split: option.splits)

lemma append_value_name_fits:
  assumes "val \<noteq> []" "length (value_path name val) \<le> 32767"
  shows "append_value_name \<lparr>us_chars = name, us_maximum = 32767\<rparr> val = \<lparr>us_chars = value_path name val, us_maximum = 32767\<rparr>"
  using assms by (simp add: append_value_name_def RtlUnicodeStringCat_def value_path_def)

lemma capture_granted:
  assumes "all_granted env" "reported (oa_name (ce_object env)) arg = Some (path, ty, data)" "length path \<le> 32767"
  shows "\<exists>c. capture env empty_path arg = Inr c \<and> cp_valid c \<and> us_chars (cp_path c) = path \<and> cp_type c = ty \<and>
     cp_length c = of_nat (length data) \<and> cp_data c \<in> {None, Some data} \<and> (cp_data c = None \<longrightarrow> data = [])"
proof -
  let ?name = "oa_name (ce_object env)"
  have kn: "key_path ?name None = ?name" by (simp add: key_path_def)
  have nm: "length ?name \<le> 32767 \<Longrightarrow> capture_name env empty_path None t = Inr \<lparr>cp_path = \<lparr>us_chars = ?name, us_maximum = 32767\<rparr>,
     cp_valid = True, cp_data = None, cp_length = 0, cp_type = t\<rparr>" for t
    using capture_name_granted[OF assms(1), of None] by (simp add: kn)
  have g: "\<not> ce_data_raises env" "ce_data_block env" using assms(1) by (simp_all add: all_granted_def)
  have vl: "length (value_path ?name val) \<le> 32767 \<Longrightarrow> length ?name \<le> 32767" for val
    using value_path_length[of ?name val] by simp
  have ve: "value_path ?name [] = ?name" by (simp add: value_path_def)
  show ?thesis
    using assms(2,3) vl g capture_name_granted[OF assms(1)]
    by (cases arg) (auto simp: capture_def nm ve append_value_name_fits split: if_splits)
qed

lemma RegistryCallback_granted:
  assumes "all_granted env" "reported (oa_name (ce_object env)) arg = Some (path, ty, data)" "length path \<le> 32767"
    and "38 + 2 * length path + length data < 2 ^ 32" "ce_now env - rm_lastContactTime m \<le> USERSPACE_CONNECTION_TIMEOUT"
  shows "\<exists>m'. RegistryCallback env arg m = Inr m' \<and> rm_queue m' = rm_queue m @
     [\<lparr>re_eventType = notify_class arg, re_time = ce_time env, re_processId = ce_pid env, re_dataType = ty,
       re_dataLengthB = of_nat (length data), re_registryPathLengthB = of_nat (2 * length path + 2),
       re_registryData = char_bytes path @ [0, 0] @ data\<rparr>]"
proof -
  from capture_granted[OF assms(1-3)]
  obtain c where c: "capture env empty_path arg = Inr c" "cp_valid c" "us_chars (cp_path c) = path" "cp_type c = ty"
     "cp_length c = of_nat (length data)" "cp_data c \<in> {None, Some data}" "cp_data c = None \<longrightarrow> data = []"
    by (elim exE conjE)
  have u: "unat (of_nat (2 * length path) :: u32) = 2 * length path" "unat (cp_length c) = length data"
    using assms(4) c(5) by (simp_all add: unat_of_nat_u32 del: of_nat_mult)
  have "unat (sizeof_REGISTRY_EVENT + of_nat (2 * length path)) = 36 + 2 * length path"
    using u assms(4) unat_add_no_wrap[of sizeof_REGISTRY_EVENT "of_nat (2 * length path)"]
    by (simp add: sizeof_REGISTRY_EVENT_def del: of_nat_mult)
  then have "unat (sizeof_REGISTRY_EVENT + of_nat (2 * length path) + 2) = 38 + 2 * length path"
    using assms(4) unat_add_no_wrap[of "sizeof_REGISTRY_EVENT + of_nat (2 * length path)" 2] by (simp del: of_nat_mult)
  then have fits: "unat (sizeof_REGISTRY_EVENT + of_nat (2 * length path) + 2 + cp_length c) = 38 + 2 * length path + length data"
    using u assms(4) unat_add_no_wrap[of "sizeof_REGISTRY_EVENT + of_nat (2 * length path) + 2" "cp_length c"] by (simp del: of_nat_mult)
  have data: "\<not> (cp_data c = None \<and> cp_length c \<noteq> 0)" using c(5,7) by auto
  have contents: "(case cp_data c of None \<Rightarrow> [] | Some d \<Rightarrow> d) = data" using c(6,7) by (cases "cp_data c") auto
  have g: "ce_path_block env" "ce_event_block env" "ce_packet_block env" using assms(1) by (simp_all add: all_granted_def)
  have wrap: "\<not> unat (sizeof_REGISTRY_EVENT + of_nat (2 * length (us_chars (cp_path c))) + 2 + cp_length c) <
      36 + 2 * length (us_chars (cp_path c)) + 2 + unat (cp_length c)"
    unfolding c(3) using fits u(2) by linarith
  have e: "make_registry_event env (notify_class arg) c =
      \<lparr>re_eventType = notify_class arg, re_time = ce_time env, re_processId = ce_pid env, re_dataType = ty,
       re_dataLengthB = of_nat (length data), re_registryPathLengthB = of_nat (2 * length path + 2),
       re_registryData = char_bytes path @ [0, 0] @ data\<rparr>"
    using c contents by (simp add: make_registry_event_def)
  have "\<exists>m2. publish_registry_event env (notify_class arg) c (holding c m) = Inr m2 \<and>
      rm_queue m2 = rm_queue m @ [make_registry_event env (notify_class arg) c]"
    using g(2,3) wrap data assms(5) by (simp add: publish_registry_event_def Let_def QueueRegistryEvent_def)
  then show ?thesis using c(1,2) g(1) e by (auto simp: RegistryCallback_def Let_def holding_def)
qed

text \<open>A request that goes through: the buffer is there and writing to it raises nothing.\<close>

definition good_request :: "ioctl_env \<Rightarrow> bool" where
  "good_request env \<longleftrightarrow> io_code env = IOCTL_CAPTURE_GET_REGEVENTS \<and> \<not> io_buffer_null env \<and> \<not> io_probe_raises env \<and>
     (\<forall>u z. \<not> io_raises env u z) \<and> sizeof_REGISTRY_EVENT \<le> io_length env"

lemma good_request_drain:
  assumes "good_request env"
  obtains out used q where
    "drain sizeof_REGISTRY_EVENT registryEventSize (io_raises env) (io_length env) 0 (rm_queue m) = (out, used, None, q)"
    "KDispatchIoctl env m = (STATUS_SUCCESS, used, out,
       m\<lparr>rm_lastContactTime := io_now env, rm_queue := q, rm_pool := rm_pool m - queued_blocks (length out)\<rparr>)"
proof -
  obtain out used x q where d: "drain sizeof_REGISTRY_EVENT registryEventSize (io_raises env) (io_length env) 0 (rm_queue m) = (out, used, x, q)"
    by (metis prod_cases4)
  have "x = None"
  proof (cases x)
    case (Some e)
    then show ?thesis using drain_raised d assms by (fastforce simp: good_request_def)
  qed
  with d that assms show ?thesis
    by (simp add: good_request_def KDispatchIoctl_def HandleIoctlGetRegEvents_def UpdateLastContactTime_def)
qed

lemma registry_bytes_out:
  "\<forall>e \<in> set es. re_ok e \<Longrightarrow> length (concat (map registry_bytes es)) = sum_list (map (\<lambda>e. unat (registryEventSize e)) es)"
  by (induction es) (simp_all add: length_registry_bytes)

section \<open>Properties\<close>

definition key_name :: "u16 list" where "key_name = wide ''/REGISTRY/MACHINE/Software''"

definition granted_demo :: callback_env where
  "granted_demo = \<lparr>ce_object = \<lparr>oa_valid = True, oa_status1 = STATUS_INFO_LENGTH_MISMATCH, oa_block = True,
        oa_status2 = STATUS_SUCCESS, oa_name = key_name\<rparr>, ce_raises = False, ce_data_raises = False, ce_path_block = True,
     ce_data_block = True, ce_event_block = True, ce_packet_block = True, ce_time = replicate 16 7, ce_pid = 1234, ce_now = 1005\<rparr>"

definition manager_demo :: registry_manager where
  "manager_demo = \<lparr>rm_bReady = True, rm_queue = [], rm_lastContactTime = 1000, rm_pool = {#}\<rparr>"

definition set_run_key :: reg_argument where
  "set_run_key = PreSetValueKey (wide ''Run'') 1 [65, 0, 0, 0]"

lemma granted_demo_ok: "all_granted granted_demo"
  by (simp add: all_granted_def granted_demo_def)

lemma demo_callback:
  "\<exists>m'. RegistryCallback granted_demo set_run_key manager_demo = Inr m' \<and> length (rm_queue m') = 1"
proof -
  have r: "reported (oa_name (ce_object granted_demo)) set_run_key = Some (key_name @ 0x5C # wide ''Run'', 1, [65, 0, 0, 0])"
    by (simp add: granted_demo_def set_run_key_def value_path_def wide_def)
  have "length (key_name @ 0x5C # wide ''Run'') = 30" by (simp add: key_name_def wide_def)
  with RegistryCallback_granted[OF granted_demo_ok r, of manager_demo] show ?thesis
    by (auto simp: manager_demo_def granted_demo_def)
qed

text \<open>
  With memory granted and the process heard of in the last ten seconds, a notification
  about a key whose name is found out queues exactly one event, last in the queue, with the
  number of the notification, the complete path (the name of the value behind that of the
  key, where it has one), the kind and the bytes of the data; notifications of failed
  operations and of other kinds queue nothing. The data and the kind of a value without a
  name are not reported.
\<close>

theorem RegistryCallback_reports:
  assumes "all_granted env" "ce_now env - rm_lastContactTime m \<le> USERSPACE_CONNECTION_TIMEOUT"
    and "\<forall>path ty data. reported (oa_name (ce_object env)) arg = Some (path, ty, data) \<longrightarrow>
           length path \<le> 32767 \<and> 38 + 2 * length path + length data < 2 ^ 32"
  shows "\<exists>m'. RegistryCallback env arg m = Inr m' \<and> rm_queue m' = rm_queue m @
     (case reported (oa_name (ce_object env)) arg of None \<Rightarrow> []
      | Some (path, ty, data) \<Rightarrow>
          [\<lparr>re_eventType = notify_class arg, re_time = ce_time env, re_processId = ce_pid env, re_dataType = ty,
            re_dataLengthB = of_nat (length data), re_registryPathLengthB = of_nat (2 * length path + 2),
            re_registryData = char_bytes path @ [0, 0] @ data\<rparr>])"
proof (cases "reported (oa_name (ce_object env)) arg")
  case None
  then have "capture env empty_path arg = Inr (no_capture empty_path)"
    by (cases arg) (auto simp: capture_def split: if_splits)
  then show ?thesis using None assms(1) by (simp add: RegistryCallback_def all_granted_def Let_def no_capture_def)
next
  case (Some r)
  obtain path ty data where r: "r = (path, ty, data)" by (metis prod_cases3)
  then have l: "length path \<le> 32767" "38 + 2 * length path + length data < 2 ^ 32" using assms(3) Some by simp_all
  show ?thesis using RegistryCallback_granted[OF assms(1) Some[unfolded r] l assms(2)] Some r by simp
qed

theorem RegistryCallback_reports_witness:
  "\<exists>m'. RegistryCallback granted_demo set_run_key manager_demo = Inr m' \<and> length (rm_queue m') = 1 \<and>
     re_dataType (hd (rm_queue m')) = 1"
proof -
  have r: "reported (oa_name (ce_object granted_demo)) set_run_key = Some (key_name @ 0x5C # wide ''Run'', 1, [65, 0, 0, 0])"
    by (simp add: granted_demo_def set_run_key_def value_path_def wide_def)
  from RegistryCallback_reports[of granted_demo manager_demo set_run_key] r granted_demo_ok
  show ?thesis by (auto simp: manager_demo_def granted_demo_def key_name_def wide_def)
qed

text \<open>
  C16: Whatever notifications, requests and timer ticks come, in any order: the events
  the process got with a successful status followed by those still queued are, in order, among the queued ones at
  the start followed by the accepted ones, so that nothing is invented, repeated or
  overtaken; and if no write to the buffer raised an exception and the process was never
  silent for more than fifteen seconds when the timer ran, nothing is missing either.
\<close>

theorem registry_events_in_order:
  assumes "run_steps registry_step ops m = Some (accepted, delivered, m')"
  shows "subseq (delivered @ rm_queue m') (rm_queue m @ accepted) \<and>
    (all_keep registry_keeps registry_step ops m \<longrightarrow> delivered @ rm_queue m' = rm_queue m @ accepted)"
  using rq.run_order[OF assms] rq.run_exact[OF assms] by blast

definition request_demo :: ioctl_env where
  "request_demo = \<lparr>io_code = IOCTL_CAPTURE_GET_REGEVENTS, io_buffer_null = False, io_length = 327680, io_probe_raises = False,
     io_raises = (\<lambda>_ _. False), io_exception = 0xC0000005, io_now = 1006\<rparr>"

theorem registry_events_in_order_witness:
  "\<exists>accepted delivered m'. run_steps registry_step [Notify granted_demo set_run_key, Request request_demo] manager_demo =
       Some (accepted, delivered, m') \<and> length accepted = 1 \<and> delivered @ rm_queue m' = accepted"
proof -
  obtain m1 where m1: "RegistryCallback granted_demo set_run_key manager_demo = Inr m1" "length (rm_queue m1) = 1"
    using demo_callback by blast
  have "good_request request_demo" by (simp add: good_request_def request_demo_def sizeof_REGISTRY_EVENT_def)
  then obtain w out m2 where k: "KDispatchIoctl request_demo m1 = (STATUS_SUCCESS, w, out, m2)" using good_request_drain by metis
  have n: "registry_step (Notify granted_demo set_run_key) manager_demo = Some (rm_queue m1, [], m1)"
    "registry_step (Request request_demo) m1 = Some ([], out, m2)"
    using m1(1) k by (simp_all add: registry_step_def) (simp add: manager_demo_def)
  then have r: "run_steps registry_step [Notify granted_demo set_run_key, Request request_demo] manager_demo = Some (rm_queue m1, out, m2)"
    by simp
  have "all_keep registry_keeps registry_step [Notify granted_demo set_run_key, Request request_demo] manager_demo"
    using n by (simp add: registry_keeps_def request_demo_def)
  with registry_events_in_order[OF r] r m1(2) show ?thesis by (simp add: manager_demo_def)
qed

text \<open>
  The pool blocks the driver holds are always two for each queued event, besides what
  it has lost; a step loses blocks only in two ways: the copy of the data of a value that is
  set, when reading the data raised an exception or there was no memory for the event, and
  the two blocks of an event whose copy to the buffer of the process raised an exception.
\<close>

theorem registry_pool_accounting:
  assumes "registry_step op m = Some (ps, ds, m')" "rm_pool m = queued_blocks (length (rm_queue m)) + lost"
  shows "\<exists>more. rm_pool m' = queued_blocks (length (rm_queue m')) + lost + more \<and>
     (more \<noteq> {#} \<longrightarrow>
        (\<exists>env val type data. op = Notify env (PreSetValueKey val type data) \<and> ce_data_block env \<and>
           (ce_data_raises env \<or> \<not> ce_event_block env) \<and> more = {#DataBlock#}) \<or>
        (\<exists>env u z. op = Request env \<and> io_raises env u z \<and> more = {#EventBlock, PacketBlock#}))"
  by (rule registry_step_pool[OF assms])

theorem registry_pool_accounting_witness:
  "\<exists>m'. registry_step (Tick 1010) manager_demo = Some ([], [], m') \<and> rm_pool m' = queued_blocks (length (rm_queue m'))"
proof -
  have "registry_step (Tick 1010) manager_demo = Some ([], [], manager_demo)"
    by (simp add: registry_step_def ConnectionChecker_def manager_demo_def)
  from registry_pool_accounting[OF this, of "{#}"] this show ?thesis by (auto simp: manager_demo_def)
qed

text \<open>
  A request for events never writes outside the buffer of the process: it delivers a
  prefix of the queue, as bytes that are as many as it reports, and stops only when the
  queue is empty or the next event does not fit into what is left.
\<close>

theorem GetRegEvents_fills_buffer:
  assumes "good_request env" "\<forall>e \<in> set (rm_queue m). re_ok e"
  shows "\<exists>written out m'. KDispatchIoctl env m = (STATUS_SUCCESS, written, out, m') \<and> written \<le> io_length env \<and>
     length (concat (map registry_bytes out)) = unat written \<and> out @ rm_queue m' = rm_queue m \<and>
     (rm_queue m' = [] \<or> unat (io_length env) < unat written + length (registry_bytes (hd (rm_queue m'))))"
proof -
  obtain out used q where
    d: "drain sizeof_REGISTRY_EVENT registryEventSize (io_raises env) (io_length env) 0 (rm_queue m) = (out, used, None, q)"
    and k: "KDispatchIoctl env m = (STATUS_SUCCESS, used, out,
       m\<lparr>rm_lastContactTime := io_now env, rm_queue := q, rm_pool := rm_pool m - queued_blocks (length out)\<rparr>)"
    using good_request_drain[OF assms(1), of m] by metis
  have s: "rm_queue m = out @ q" using drain_split[OF d] by simp
  note u = drain_used[OF d]
  have bytes: "length (concat (map registry_bytes out)) = unat used"
    using registry_bytes_out[of out] assms(2) s u by simp
  have "q = [] \<or> unat (io_length env) < unat used + length (registry_bytes (hd q))"
  proof (cases q)
    case (Cons e r)
    then have e: "re_ok e" using assms(2) s by simp
    have le: "used \<le> io_length env" using u by simp
    have "unat (io_length env) - unat used < 36 + length (re_registryData e)"
      using drain_stops[OF d] Cons le unat_registryEventSize[OF e]
      by (auto simp: word_less_nat_alt unat_sub sizeof_REGISTRY_EVENT_def)
    then show ?thesis using Cons length_registry_bytes[OF e] unat_registryEventSize[OF e] le
      by (simp add: word_le_nat_alt)
  qed simp
  with k s bytes u show ?thesis by simp
qed

theorem GetRegEvents_fills_buffer_witness:
  "\<exists>written out m'. KDispatchIoctl request_demo manager_demo = (STATUS_SUCCESS, written, out, m') \<and> written \<le> 327680"
proof -
  have "good_request request_demo" by (simp add: good_request_def request_demo_def sizeof_REGISTRY_EVENT_def)
  from GetRegEvents_fills_buffer[OF this, of manager_demo] show ?thesis by (auto simp: manager_demo_def request_demo_def)
qed

text \<open>
  An event that is larger than the buffer of the process is never removed from the
  head of the queue: every request then succeeds, delivers nothing and leaves the whole queue
  as it is, and as each of them counts as a contact with the process, the timer will not
  clear the queue either. The data of one large value are enough for that.
\<close>

theorem GetRegEvents_starves:
  assumes "good_request env" "rm_queue m = e # q" "re_ok e" "unat (io_length env) < length (registry_bytes e)"
    and "now - io_now env \<le> 15"
  shows "\<exists>m'. KDispatchIoctl env m = (STATUS_SUCCESS, 0, [], m') \<and> rm_queue m' = rm_queue m \<and>
     ConnectionChecker now m' = m' \<and> KDispatchIoctl env m' = (STATUS_SUCCESS, 0, [], m')"
proof -
  have stuck: "drain sizeof_REGISTRY_EVENT registryEventSize (io_raises env) (io_length env) 0 (e # q) = ([], 0, None, e # q)"
    using assms(4) length_registry_bytes[OF assms(3)] by (intro drain_stuck) (simp add: word_less_nat_alt)
  let ?m = "m\<lparr>rm_lastContactTime := io_now env\<rparr>"
  have k: "KDispatchIoctl env m0 = (STATUS_SUCCESS, 0, [], m0\<lparr>rm_lastContactTime := io_now env\<rparr>)" if "rm_queue m0 = e # q" for m0
  proof -
    obtain out used q' where
      "drain sizeof_REGISTRY_EVENT registryEventSize (io_raises env) (io_length env) 0 (rm_queue m0) = (out, used, None, q')"
      "KDispatchIoctl env m0 = (STATUS_SUCCESS, used, out,
         m0\<lparr>rm_lastContactTime := io_now env, rm_queue := q', rm_pool := rm_pool m0 - queued_blocks (length out)\<rparr>)"
      by (rule good_request_drain[OF assms(1)])
    then show ?thesis using stuck that by simp
  qed
  show ?thesis using k[OF assms(2)] k[of ?m] assms(2,5)
    by (intro exI[of _ ?m]) (simp add: ConnectionChecker_def not_less[symmetric])
qed

definition large_event :: registry_event where
  "large_event = \<lparr>re_eventType = 1, re_time = replicate 16 0, re_processId = 4, re_dataType = 3, re_dataLengthB = 100,
     re_registryPathLengthB = 2, re_registryData = [0, 0] @ replicate 100 0\<rparr>"

lemma large_event_ok: "re_ok large_event"
  unfolding re_ok_def
  by (intro conjI exI[of _ "[]"] exI[of _ "replicate 100 0"]) (simp_all add: large_event_def le_bytes16_def)

theorem GetRegEvents_starves_witness:
  "\<exists>m'. KDispatchIoctl (request_demo\<lparr>io_length := 64\<rparr>) (manager_demo\<lparr>rm_queue := [large_event]\<rparr>) = (STATUS_SUCCESS, 0, [], m') \<and>
     rm_queue m' = [large_event]"
proof -
  have "good_request (request_demo\<lparr>io_length := 64\<rparr>)" by (simp add: good_request_def request_demo_def sizeof_REGISTRY_EVENT_def)
  moreover have "unat (io_length (request_demo\<lparr>io_length := 64\<rparr>)) < length (registry_bytes large_event)"
    by (simp add: registry_bytes_def large_event_def)
  ultimately show ?thesis
    using GetRegEvents_starves[of "request_demo\<lparr>io_length := 64\<rparr>" "manager_demo\<lparr>rm_queue := [large_event]\<rparr>" large_event "[]" 1010] large_event_ok
    by (auto simp: request_demo_def)
qed

text \<open>
  Two failed allocations are not survived: when there is no memory for the data of a
  value with a name that is set to at least one byte, the event is built with a copy from a
  null pointer, outside the part in which exceptions are handled; and when there is none for
  the packet of an event, the event is stored through a null pointer.
\<close>

theorem registry_allocation_faults:
  assumes "all_granted env" "val \<noteq> []" "data \<noteq> []" "length (value_path (oa_name (ce_object env)) val) \<le> 32767"
    and "38 + 2 * length (value_path (oa_name (ce_object env)) val) + length data < 2 ^ 32"
    and "ce_now env - rm_lastContactTime m \<le> USERSPACE_CONNECTION_TIMEOUT"
  shows "RegistryCallback (env\<lparr>ce_data_block := False\<rparr>) (PreSetValueKey val type data) m = Inl NullDeref \<and>
     RegistryCallback (env\<lparr>ce_packet_block := False\<rparr>) (PreSetValueKey val type data) m = Inl NullDeref"
proof -
  let ?path = "value_path (oa_name (ce_object env)) val"
  let ?n = "of_nat (2 * length ?path) :: u32"
  let ?d = "of_nat (length data) :: u32"
  have nm: "length (oa_name (ce_object env)) \<le> 32767" using assms(4) value_path_length[of "oa_name (ce_object env)" val] by simp
  have cn: "capture_name (env\<lparr>ce_data_block := a, ce_packet_block := b\<rparr>) empty_path None 0 =
     Inr \<lparr>cp_path = \<lparr>us_chars = oa_name (ce_object env), us_maximum = 32767\<rparr>, cp_valid = True, cp_data = None, cp_length = 0, cp_type = 0\<rparr>" for a b
    using capture_name_granted[OF assms(1), of None 0] nm assms(1) by (simp add: capture_name_def key_path_def all_granted_def)
  have u: "unat ?n = 2 * length ?path" "unat ?d = length data"
    using assms(5) by (simp_all add: unat_of_nat_u32 del: of_nat_mult)
  have "unat (36 + ?n) = 36 + 2 * length ?path" using u assms(5) unat_add_no_wrap[of 36 ?n] by (simp del: of_nat_mult)
  then have "unat (36 + ?n + 2) = 38 + 2 * length ?path" using assms(5) unat_add_no_wrap[of "36 + ?n" 2] by (simp del: of_nat_mult)
  then have w: "unat (36 + ?n + 2 + ?d) = 38 + 2 * length ?path + length data"
    using u assms(5) unat_add_no_wrap[of "36 + ?n + 2" ?d] by (simp del: of_nat_mult)
  have nz: "?d \<noteq> 0" using u(2) assms(3) by auto
  have g: "ce_path_block env" "ce_event_block env" "\<not> ce_data_raises env" "ce_data_block env"
    using assms(1) by (simp_all add: all_granted_def)
  have c: "capture (env\<lparr>ce_data_block := a, ce_packet_block := b\<rparr>) empty_path (PreSetValueKey val type data) =
     Inr \<lparr>cp_path = \<lparr>us_chars = ?path, us_maximum = 32767\<rparr>, cp_valid = True, cp_data = (if a then Some data else None),
       cp_length = ?d, cp_type = type\<rparr>" for a b
    using assms(2,4) g by (simp add: capture_def cn append_value_name_fits)
  have r: "RegistryCallback (env\<lparr>ce_data_block := a, ce_packet_block := b\<rparr>) (PreSetValueKey val type data) m = Inl NullDeref"
    if "\<not> a \<or> \<not> b" for a b
    using that g w u nz assms(6)
    by (simp add: RegistryCallback_def c Let_def publish_registry_event_def sizeof_REGISTRY_EVENT_def QueueRegistryEvent_def
        del: of_nat_mult)
  have "env\<lparr>ce_data_block := False\<rparr> = env\<lparr>ce_data_block := False, ce_packet_block := ce_packet_block env\<rparr>"
    "env\<lparr>ce_packet_block := False\<rparr> = env\<lparr>ce_data_block := ce_data_block env, ce_packet_block := False\<rparr>"
    by (cases env, simp)+
  then show ?thesis using r[of False "ce_packet_block env"] r[of "ce_data_block env" False] by (metis (full_types))
qed

theorem registry_allocation_faults_witness:
  "RegistryCallback (granted_demo\<lparr>ce_data_block := False\<rparr>) set_run_key manager_demo = Inl NullDeref"
proof -
  have "length (value_path (oa_name (ce_object granted_demo)) (wide ''Run'')) = 30"
    by (simp add: granted_demo_def value_path_def key_name_def wide_def)
  with registry_allocation_faults[OF granted_demo_ok, of "wide ''Run''" "[65, 0, 0, 0]" manager_demo 1] show ?thesis
    by (simp add: set_run_key_def wide_def granted_demo_def manager_demo_def)
qed

end
