(* ===== verification/RegistryClient.thy ===== *)
theory RegistryClient
  imports RegistryMonitor ClientMonitor
begin

text \<open>
  RegistryMonitor.cpp of the client: the thread that asks the driver for registry events,
  takes the buffer apart and signals the events that are not excluded. It is put together
  with the driver's side of the request. The path of a process is asked of the process
  manager, here the argument \<open>process_path\<close>; malloc is taken to succeed.
\<close>

definition REGISTRY_EVENTS_BUFFER_SIZE :: u32 where "REGISTRY_EVENTS_BUFFER_SIZE = 5 * 65536"
definition REGISTRY_DEFAULT_WAIT_TIME :: nat where "REGISTRY_DEFAULT_WAIT_TIME = 65"
definition REGISTRY_BUFFER_FULL_WAIT_TIME :: nat where "REGISTRY_BUFFER_FULL_WAIT_TIME = 5"

definition getRegistryEventName :: "u32 \<Rightarrow> u16 list" where
  "getRegistryEventName t =
     wide (if t = 11 then ''CreateKey'' else if t = 13 then ''OpenKey'' else if t = 0 then ''DeleteKey''
       else if t = 2 then ''DeleteValueKey'' else if t = 1 then ''SetValueKey'' else if t = 5 then ''EnumerateKey''
       else if t = 6 then ''EnumerateValueKey'' else if t = 7 then ''QueryKey'' else if t = 8 then ''QueryValueKey''
       else if t = 14 then ''CloseKey'' else ''<UNKNOWN>'')"

section \<open>Hive names\<close>

text \<open>The pairs, in their order, for the name of the key of the current user.\<close>

definition initialiseObjectNameMap :: "u16 list \<Rightarrow> (u16 list \<times> u16 list) list" where
  "initialiseObjectNameMap szTemp =
     [(szTemp @ wide ''_CLASSES'', wide ''HKCR''), (szTemp, wide ''HKCU''),
      (wide [CHR 0x5C] @ wide ''REGISTRY'' @ wide [CHR 0x5C] @ wide ''MACHINE'', wide ''HKLM''),
      (wide [CHR 0x5C] @ wide ''REGISTRY'' @ wide [CHR 0x5C] @ wide ''USER'', wide ''HKU''),
      (wide [CHR 0x5C] @ wide ''Registry'' @ wide [CHR 0x5C] @ wide ''Machine'', wide ''HKLM'')]"

definition convertRegistryObjectNameToHiveName :: "(u16 list \<times> u16 list) list \<Rightarrow> u16 list \<Rightarrow> u16 list" where
  "convertRegistryObjectNameToHiveName objectNameMap registryObjectName = replace_prefix objectNameMap registryObjectName"

section \<open>Taking the buffer apart\<close>

record registry_signal =
  rs_name :: "u16 list"
  rs_time :: "u8 list"
  rs_processId :: u32
  rs_processPath :: "u16 list"
  rs_registryPath :: "u16 list"

record 'r registry_client =
  rc_permissions :: "'r permission_map"
  rc_matches :: "'r \<Rightarrow> u16 list \<Rightarrow> bool"
  rc_names :: "(u16 list \<times> u16 list) list"
  rc_process_path :: "u32 \<Rightarrow> u16 list"

text \<open>The path and the data of an event; the data are copied and then not used.\<close>

definition registry_path :: "u8 list \<Rightarrow> u32 \<Rightarrow> u32 \<Rightarrow> u32 \<Rightarrow> fault + u16 list" where
  "registry_path b offset pathLengthB dataLengthB =
     fbind (read_bytes b (unat offset + 36) (unat pathLengthB)) (\<lambda>path.
     fbind (c_string (bytes_chars path)) (\<lambda>s.
     if 0 < dataLengthB then
       fbind (read_bytes b (unat offset + 36 + unat pathLengthB) (unat dataLengthB)) (\<lambda>_. Inr s)
     else Inr s))"

definition signal_event :: "'r registry_client \<Rightarrow> u32 \<Rightarrow> u8 list \<Rightarrow> u32 \<Rightarrow> u16 list \<Rightarrow> registry_signal list" where
  "signal_event rc eventType time processId path =
     (let registryEventName = getRegistryEventName eventType;
          registryPath = convertRegistryObjectNameToHiveName (rc_names rc) path;
          processPath = rc_process_path rc processId
      in if isEventAllowed (rc_matches rc) (rc_permissions rc) registryEventName processPath registryPath then []
         else [\<lparr>rs_name = registryEventName, rs_time = time, rs_processId = processId, rs_processPath = processPath,
                rs_registryPath = registryPath\<rparr>])"

text \<open>One event: what it signals and where the next one begins.\<close>

definition read_event :: "'r registry_client \<Rightarrow> u8 list \<Rightarrow> u32 \<Rightarrow> fault + registry_signal list \<times> u32" where
  "read_event rc b offset =
     fbind (read32 b (unat offset)) (\<lambda>eventType.
     fbind (read_bytes b (unat offset + 4) 16) (\<lambda>time.
     fbind (read32 b (unat offset + 20)) (\<lambda>processId.
     fbind (read32 b (unat offset + 28)) (\<lambda>dataLengthB.
     fbind (read32 b (unat offset + 32)) (\<lambda>pathLengthB.
     fbind (registry_path b offset pathLengthB dataLengthB) (\<lambda>path.
       Inr (signal_event rc eventType time processId path, offset + (36 + pathLengthB + dataLengthB))))))))"

definition received :: "'r registry_client \<Rightarrow> u8 list \<Rightarrow> u32 \<Rightarrow> (fault + registry_signal list) option" where
  "received rc b dwReturn = (if 36 \<le> dwReturn then read_packed (read_event rc b) dwReturn 0 else Some (Inr []))"

text \<open>
  One round of the thread with the driver answering: the buffer is zeroed, the driver writes
  its events into it, and how long the thread then waits depends on how full it was.
\<close>

definition run :: "'r registry_client \<Rightarrow> ioctl_env \<Rightarrow> registry_manager \<Rightarrow>
    (fault + registry_signal list) option \<times> nat \<times> registry_manager" where
  "run rc env m =
     (case KDispatchIoctl (env\<lparr>io_code := IOCTL_CAPTURE_GET_REGEVENTS, io_buffer_null := False,
                               io_length := REGISTRY_EVENTS_BUFFER_SIZE\<rparr>) m of
        (status, dwReturn, out, m') \<Rightarrow>
          let bytes = concat (map registry_bytes out);
              b = bytes @ replicate (unat REGISTRY_EVENTS_BUFFER_SIZE - length bytes) 0
          in (received rc b dwReturn,
              if dwReturn = REGISTRY_EVENTS_BUFFER_SIZE then REGISTRY_BUFFER_FULL_WAIT_TIME else REGISTRY_DEFAULT_WAIT_TIME, m'))"

section \<open>The buffer of the driver is understood\<close>

text \<open>What an event of the driver signals: its path is the one up to the first NUL.\<close>

definition event_path :: "registry_event \<Rightarrow> u16 list" where
  "event_path e = takeWhile (\<lambda>c. c \<noteq> 0) (bytes_chars (take (unat (re_registryPathLengthB e)) (re_registryData e)))"

definition event_signals :: "'r registry_client \<Rightarrow> registry_event \<Rightarrow> registry_signal list" where
  "event_signals rc e = signal_event rc (re_eventType e) (re_time e) (re_processId e) (event_path e)"

lemma registry_path_at:
  assumes "re_ok e" "unat offset = length pre"
  shows "registry_path (pre @ registry_bytes e @ rest) offset (re_registryPathLengthB e) (re_dataLengthB e) = Inr (event_path e)"
proof -
  from assms(1) obtain cs d where d: "re_registryData e = char_bytes (cs @ [0]) @ d"
    "unat (re_registryPathLengthB e) = 2 * length cs + 2" "unat (re_dataLengthB e) = length d"
    by (auto simp: re_ok_def)
  define h where "h = le_bytes32 (re_eventType e) @ re_time e @ le_bytes32 (re_processId e) @ le_bytes32 (re_dataType e) @
     le_bytes32 (re_dataLengthB e) @ le_bytes32 (re_registryPathLengthB e)"
  have h: "length h = 36" using assms(1) by (simp add: h_def re_ok_def)
  have b: "pre @ registry_bytes e @ rest = (pre @ h) @ char_bytes (cs @ [0]) @ (d @ rest)"
    "pre @ registry_bytes e @ rest = (pre @ h @ char_bytes (cs @ [0])) @ d @ rest"
    by (simp_all add: registry_bytes_def h_def d(1))
  have path: "read_bytes (pre @ registry_bytes e @ rest) (unat offset + 36) (unat (re_registryPathLengthB e)) = Inr (char_bytes (cs @ [0]))"
    unfolding b(1) by (rule read_bytes_at) (simp_all add: assms(2) h d(2))
  have data: "read_bytes (pre @ registry_bytes e @ rest) (unat offset + 36 + unat (re_registryPathLengthB e)) (unat (re_dataLengthB e)) = Inr d"
    unfolding b(2) by (rule read_bytes_at) (simp_all add: assms(2) h d(2,3))
  have "event_path e = takeWhile (\<lambda>c. c \<noteq> 0) (cs @ [0])"
    unfolding event_path_def d(1) d(2) by (simp del: char_bytes_append)
  also have "\<dots> = takeWhile (\<lambda>c. c \<noteq> 0) cs"
    using c_string_NUL[of cs] by (simp add: c_string_def)
  finally have "c_string (bytes_chars (char_bytes (cs @ [0]))) = Inr (event_path e)"
    by (simp add: c_string_NUL del: char_bytes_append)
  then show ?thesis by (simp add: registry_path_def path data del: char_bytes_append)
qed

lemma read_event_at:
  assumes "re_ok e" "unat offset = length pre"
  shows "read_event rc (pre @ registry_bytes e @ rest) offset = Inr (event_signals rc e, offset + registryEventSize e)"
proof -
  let ?b = "pre @ registry_bytes e @ rest"
  have t: "length (re_time e) = 16" using assms(1) by (simp add: re_ok_def)
  note f = registry_bytes_def append.assoc
  have 1: "read32 ?b (unat offset) = Inr (re_eventType e)"
    unfolding f by (rule read32_at) (simp add: assms(2))
  have 2: "read_bytes ?b (unat offset + 4) 16 = Inr (re_time e)"
    using read_bytes_at[of _ "pre @ le_bytes32 (re_eventType e)" 16 "re_time e"] by (simp add: f assms(2) t)
  have 3: "read32 ?b (unat offset + 20) = Inr (re_processId e)"
    using read32_at[of _ "pre @ le_bytes32 (re_eventType e) @ re_time e" "re_processId e"] by (simp add: f assms(2) t)
  have 4: "read32 ?b (unat offset + 28) = Inr (re_dataLengthB e)"
    using read32_at[of _ "pre @ le_bytes32 (re_eventType e) @ re_time e @ le_bytes32 (re_processId e) @ le_bytes32 (re_dataType e)" "re_dataLengthB e"]
    by (simp add: f assms(2) t)
  have 5: "read32 ?b (unat offset + 32) = Inr (re_registryPathLengthB e)"
    using read32_at[of _ "pre @ le_bytes32 (re_eventType e) @ re_time e @ le_bytes32 (re_processId e) @ le_bytes32 (re_dataType e) @
      le_bytes32 (re_dataLengthB e)" "re_registryPathLengthB e"]
    by (simp add: f assms(2) t)
  show ?thesis
    by (simp add: read_event_def 1 2 3 4 5 registry_path_at[OF assms] event_signals_def registryEventSize_def sizeof_REGISTRY_EVENT_def)
qed

interpretation rp: packed_events re_ok registry_bytes registryEventSize "event_signals rc" "read_event rc" sizeof_REGISTRY_EVENT
  for rc :: "'r registry_client"
proof
  fix e :: registry_event assume "re_ok e"
  then show "length (registry_bytes e) = unat (registryEventSize e)" "sizeof_REGISTRY_EVENT \<le> registryEventSize e"
    by (simp_all add: length_registry_bytes unat_registryEventSize word_le_nat_alt sizeof_REGISTRY_EVENT_def)
qed (simp_all add: read_event_at sizeof_REGISTRY_EVENT_def)

lemma received_ok:
  assumes "\<forall>e \<in> set es. re_ok e" "length (concat (map registry_bytes es)) = unat dwReturn"
  shows "received rc (concat (map registry_bytes es) @ rest) dwReturn = Some (Inr (concat (map (event_signals rc) es)))"
  unfolding received_def by (rule rp.read_buffer[OF assms, unfolded sizeof_REGISTRY_EVENT_def])

text \<open>The request the thread makes, and what it gets.\<close>

definition client_request :: "ioctl_env \<Rightarrow> ioctl_env" where
  "client_request env = env\<lparr>io_code := IOCTL_CAPTURE_GET_REGEVENTS, io_buffer_null := False, io_length := REGISTRY_EVENTS_BUFFER_SIZE\<rparr>"

lemma client_request_good:
  "\<not> io_probe_raises env \<Longrightarrow> \<forall>u z. \<not> io_raises env u z \<Longrightarrow> good_request (client_request env)"
  by (simp add: good_request_def client_request_def sizeof_REGISTRY_EVENT_def REGISTRY_EVENTS_BUFFER_SIZE_def)

lemma run_request:
  assumes "KDispatchIoctl (client_request env) m = (STATUS_SUCCESS, w, out, m')" "\<forall>e \<in> set out. re_ok e"
    and "length (concat (map registry_bytes out)) = unat w"
  shows "run rc env m = (Some (Inr (concat (map (event_signals rc) out))),
     if w = REGISTRY_EVENTS_BUFFER_SIZE then REGISTRY_BUFFER_FULL_WAIT_TIME else REGISTRY_DEFAULT_WAIT_TIME, m')"
  unfolding run_def client_request_def[symmetric] assms(1)
  by (simp add: Let_def received_ok[OF assms(2,3)])

lemma run_ok:
  assumes "\<not> io_probe_raises env" "\<forall>u z. \<not> io_raises env u z" "\<forall>e \<in> set (rm_queue m). re_ok e"
  shows "\<exists>out wait m'. run rc env m = (Some (Inr (concat (map (event_signals rc) out))), wait, m') \<and> rm_queue m = out @ rm_queue m' \<and>
     (rm_queue m' = [] \<or> unat REGISTRY_EVENTS_BUFFER_SIZE < length (concat (map registry_bytes (out @ [hd (rm_queue m')]))))"
proof -
  have g: "good_request (client_request env)" using assms(1,2) by (rule client_request_good)
  obtain out used q where d: "drain sizeof_REGISTRY_EVENT registryEventSize (io_raises (client_request env)) (io_length (client_request env)) 0 (rm_queue m) =
      (out, used, None, q)"
    and k: "KDispatchIoctl (client_request env) m = (STATUS_SUCCESS, used, out,
      m\<lparr>rm_lastContactTime := io_now (client_request env), rm_queue := q, rm_pool := rm_pool m - queued_blocks (length out)\<rparr>)"
    by (rule good_request_drain[OF g])
  have io: "io_length (client_request env) = REGISTRY_EVENTS_BUFFER_SIZE" by (simp add: client_request_def)
  note b = rp.drain_bytes[OF d[unfolded io] assms(3)]
  have ok: "\<forall>e \<in> set out. re_ok e" using b assms(3) by auto
  have len: "length (concat (map registry_bytes out)) = unat used" using b by blast
  from run_request[OF k ok len, of rc] b show ?thesis by (auto simp del: length_concat)
qed

lemma getRegistryEventName_reported:
  "reported name arg = Some r \<Longrightarrow> getRegistryEventName (notify_class arg) \<noteq> wide ''<UNKNOWN>''"
  by (cases arg) (auto simp: getRegistryEventName_def wide_def split: if_splits)

section \<open>Properties\<close>

text \<open>
  C25: The client takes the buffer apart the way the driver put it together: a round of the
  thread ends, and signals, in order and each with its own fields and path, exactly the events
  the driver took off its queue, but for those the exclusions let go; what stays queued is
  there because the next event would not have fitted into the buffer.
\<close>

theorem client_reads_what_driver_wrote:
  assumes "\<not> io_probe_raises env" "\<forall>u z. \<not> io_raises env u z" "\<forall>e \<in> set (rm_queue m). re_ok e"
  shows "\<exists>out wait m'. run rc env m = (Some (Inr (concat (map (event_signals rc) out))), wait, m') \<and> rm_queue m = out @ rm_queue m' \<and>
     (rm_queue m' = [] \<or> unat REGISTRY_EVENTS_BUFFER_SIZE < length (concat (map registry_bytes (out @ [hd (rm_queue m')]))))"
  by (rule run_ok[OF assms])

definition client_demo :: "u16 list registry_client" where
  "client_demo = \<lparr>rc_permissions = Map.empty, rc_matches = (=), rc_names = initialiseObjectNameMap (wide ''user''),
     rc_process_path = (\<lambda>_. wide ''explorer.exe'')\<rparr>"

theorem client_reads_what_driver_wrote_witness:
  "\<exists>wait m'. run client_demo request_demo (manager_demo\<lparr>rm_queue := [large_event]\<rparr>) =
     (Some (Inr [\<lparr>rs_name = wide ''SetValueKey'', rs_time = replicate 16 0, rs_processId = 4, rs_processPath = wide ''explorer.exe'',
        rs_registryPath = []\<rparr>]), wait, m')"
proof -
  have p: "\<not> io_probe_raises request_demo" "\<forall>u z. \<not> io_raises request_demo u z" by (simp_all add: request_demo_def)
  have q: "rm_queue (manager_demo\<lparr>rm_queue := [large_event]\<rparr>) = [large_event]" by simp
  have "\<forall>e \<in> set (rm_queue (manager_demo\<lparr>rm_queue := [large_event]\<rparr>)). re_ok e" by (simp add: large_event_ok)
  from client_reads_what_driver_wrote[OF p this, of client_demo]
  obtain out wait m' where r: "run client_demo request_demo (manager_demo\<lparr>rm_queue := [large_event]\<rparr>) =
      (Some (Inr (concat (map (event_signals client_demo) out))), wait, m')" "[large_event] = out @ rm_queue m'"
    "rm_queue m' = [] \<or> unat REGISTRY_EVENTS_BUFFER_SIZE < length (concat (map registry_bytes (out @ [hd (rm_queue m')])))"
    unfolding q by (elim exE conjE)
  have s: "length (registry_bytes large_event) = 138" by (simp add: registry_bytes_def large_event_def)
  have "out = [large_event]"
    using only_event_delivered[OF r(2,3)] s by (simp add: REGISTRY_EVENTS_BUFFER_SIZE_def)
  moreover have "event_signals client_demo large_event = [\<lparr>rs_name = wide ''SetValueKey'', rs_time = replicate 16 0, rs_processId = 4,
      rs_processPath = wide ''explorer.exe'', rs_registryPath = []\<rparr>]"
    by (simp add: event_signals_def signal_event_def event_path_def large_event_def client_demo_def getRegistryEventName_def
        initialiseObjectNameMap_def convertRegistryObjectNameToHiveName_def begins_with_def wide_def isEventAllowed_def Let_def word16_of_def)
  ultimately show ?thesis using r(1) by simp
qed

text \<open>
  C33: From the notification to the signal: with memory granted, the next round of the client
  reports an operation on a key under the name of the operation, never as unknown, with the
  time and the process of the notification and the complete path, its hive shortened, unless
  an exclusion lets it go.
\<close>

theorem registry_end_to_end:
  assumes "all_granted cenv" "ce_now cenv - rm_lastContactTime m \<le> USERSPACE_CONNECTION_TIMEOUT" "rm_queue m = []"
    and "length (ce_time cenv) = 16"
    and "reported (oa_name (ce_object cenv)) arg = Some (path, ty, data)"
    and "length path \<le> 32767" "0 \<notin> set path" "38 + 2 * length path + length data \<le> unat REGISTRY_EVENTS_BUFFER_SIZE"
    and "\<not> io_probe_raises env" "\<forall>u z. \<not> io_raises env u z"
  shows "\<exists>m1 wait m2. RegistryCallback cenv arg m = Inr m1 \<and>
     run rc env m1 = (Some (Inr (signal_event rc (notify_class arg) (ce_time cenv) (ce_pid cenv) path)), wait, m2) \<and>
     rm_queue m2 = [] \<and> getRegistryEventName (notify_class arg) \<noteq> wide ''<UNKNOWN>''"
proof -
  let ?e = "\<lparr>re_eventType = notify_class arg, re_time = ce_time cenv, re_processId = ce_pid cenv, re_dataType = ty,
       re_dataLengthB = of_nat (length data), re_registryPathLengthB = of_nat (2 * length path + 2),
       re_registryData = char_bytes path @ [0, 0] @ data\<rparr>"
  have small: "38 + 2 * length path + length data < 2 ^ 32" using assms(8) by (simp add: REGISTRY_EVENTS_BUFFER_SIZE_def)
  from RegistryCallback_granted[OF assms(1,5,6) small assms(2)] assms(3)
  obtain m1 where m1: "RegistryCallback cenv arg m = Inr m1" "rm_queue m1 = [?e]" by auto
  have u: "unat (of_nat (2 * length path + 2) :: u32) = 2 * length path + 2" "unat (of_nat (length data) :: u32) = length data"
    using small by (intro unat_of_nat_u32, simp)+
  have ok: "re_ok ?e"
    unfolding re_ok_def
  proof (intro conjI exI[of _ path] exI[of _ data])
    show "unat (re_registryPathLengthB ?e) = 2 * length path + 2" using u(1) by simp
  qed (use assms(4) small u(2) in \<open>simp_all add: le_bytes16_def\<close>)
  have "length (registry_bytes ?e) = 36 + length (re_registryData ?e)"
    by (simp only: length_registry_bytes[OF ok] unat_registryEventSize[OF ok])
  moreover have "length (re_registryData ?e) = 2 * length path + 2 + length data" by simp
  ultimately have fits: "length (registry_bytes ?e) \<le> unat REGISTRY_EVENTS_BUFFER_SIZE" using assms(8) by linarith
  have "\<forall>e \<in> set (rm_queue m1). re_ok e" using ok m1(2) by simp
  from run_ok[OF assms(9,10) this, of rc]
  obtain out wait m2 where r: "run rc env m1 = (Some (Inr (concat (map (event_signals rc) out))), wait, m2)" "[?e] = out @ rm_queue m2"
    "rm_queue m2 = [] \<or> unat REGISTRY_EVENTS_BUFFER_SIZE < length (concat (map registry_bytes (out @ [hd (rm_queue m2)])))"
    unfolding m1(2) by (elim exE conjE)
  note out = only_event_delivered[OF r(2,3) fits]
  have "take (2 * length path + 2) (char_bytes path @ [0, 0] @ data) = char_bytes (path @ [0])"
    by (simp add: le_bytes16_def)
  then have "event_path ?e = takeWhile (\<lambda>c. c \<noteq> 0) (path @ [0])"
    unfolding event_path_def using u(1) by (simp del: char_bytes_append)
  then have "event_path ?e = path" using takeWhile_before[OF assms(7), of "[]"] by simp
  then have "event_signals rc ?e = signal_event rc (notify_class arg) (ce_time cenv) (ce_pid cenv) path"
    by (simp add: event_signals_def)
  then show ?thesis using m1(1) r(1) out getRegistryEventName_reported[OF assms(5)] by simp
qed

theorem registry_end_to_end_witness:
  "\<exists>m1 wait m2 s. RegistryCallback granted_demo set_run_key manager_demo = Inr m1 \<and>
     run client_demo request_demo m1 = (Some (Inr [s]), wait, m2) \<and> rs_name s = wide ''SetValueKey''"
proof -
  have r: "reported (oa_name (ce_object granted_demo)) set_run_key = Some (key_name @ 0x5C # wide ''Run'', 1, [65, 0, 0, 0])"
    by (simp add: granted_demo_def set_run_key_def value_path_def wide_def)
  have l: "length (key_name @ 0x5C # wide ''Run'') = 30" by (simp add: key_name_def wide_def)
  have n: "0 \<notin> set (key_name @ 0x5C # wide ''Run'')" by (simp add: key_name_def wide_def)
  have "signal_event client_demo (notify_class set_run_key) (ce_time granted_demo) (ce_pid granted_demo) (key_name @ 0x5C # wide ''Run'') =
      [\<lparr>rs_name = wide ''SetValueKey'', rs_time = ce_time granted_demo, rs_processId = ce_pid granted_demo,
        rs_processPath = wide ''explorer.exe'',
        rs_registryPath = convertRegistryObjectNameToHiveName (rc_names client_demo) (key_name @ 0x5C # wide ''Run'')\<rparr>]"
    by (simp add: signal_event_def set_run_key_def getRegistryEventName_def client_demo_def isEventAllowed_def Let_def)
  with registry_end_to_end[OF granted_demo_ok _ _ _ r _ n, of manager_demo request_demo client_demo] l show ?thesis
    by (auto simp: manager_demo_def granted_demo_def request_demo_def REGISTRY_EVENTS_BUFFER_SIZE_def)
qed

end
