(* ===== verification/MonitorSetup.thy ===== *)
theory MonitorSetup
  imports FileClient RegistryClient ProcessMonitor EventController
begin

text \<open>
  How the monitors of the client are set up: the kernel drivers of Monitor.cpp, the exclusions the
  server sends and those Capture makes for itself, the constructors and destructors of the
  registry, file and process monitors, and the copies of the modified files in FileMonitor.cpp.
  Windows answers through arguments; the threads are in theory ClientThreads.
\<close>

section \<open>Kernel drivers\<close>

text \<open>NULL: the service cannot be created, or opened.\<close>

record service_env =
  sv_manager :: bool
  sv_create :: addr
  sv_open :: addr
  sv_start :: bool
  sv_error :: u32

datatype service_call =
    CreateService | OpenService | StartService addr | ControlServiceStop addr | DeleteService addr | CloseServiceHandle addr
  | CloseManager

abbreviation (input) ERROR_SERVICE_ALREADY_RUNNING :: u32 where "ERROR_SERVICE_ALREADY_RUNNING \<equiv> 1056"

text \<open>Whether the driver is loaded, \<open>hService\<close>, and what was asked of the service manager.\<close>

definition installKernelDriver :: "service_env \<Rightarrow> addr \<Rightarrow> bool \<times> addr \<times> service_call list" where
  "installKernelDriver env hService =
     (if sv_manager env then
        let (h, calls) = (if sv_create env \<noteq> NULL then (sv_create env, [CreateService]) else (sv_open env, [CreateService, OpenService]))
        in if h \<noteq> NULL then
             (if sv_start env then True else sv_error env = ERROR_SERVICE_ALREADY_RUNNING, h, calls @ [StartService h, CloseManager])
           else (False, h, calls @ [CloseManager])
      else (False, hService, []))"

definition unInstallKernelDriver :: "addr \<Rightarrow> addr \<times> service_call list" where
  "unInstallKernelDriver hService =
     (NULL, if hService \<noteq> NULL then [ControlServiceStop hService, DeleteService hService, CloseServiceHandle hService] else [])"

text \<open>What is installed is uninstalled: the service that was started is stopped, deleted and closed once, and nothing else is.\<close>

lemma install_uninstall:
  assumes "installKernelDriver env NULL = (ok, h, calls)" "unInstallKernelDriver h = (h', calls')"
  shows "h' = NULL \<and> count_list (calls @ calls') CloseManager = (if sv_manager env then 1 else 0) \<and>
     (\<forall>s. StartService s \<in> set calls \<longleftrightarrow> calls' = [ControlServiceStop s, DeleteService s, CloseServiceHandle s]) \<and>
     (ok \<longrightarrow> StartService h \<in> set calls)"
  using assms by (auto simp: installKernelDriver_def unInstallKernelDriver_def Let_def split: if_splits prod.splits)

section \<open>Exclusions of the server\<close>

record server_exclusion =
  sx_excluded :: "u16 list"
  sx_action :: "u16 list"
  sx_subject :: "u16 list"
  sx_object :: "u16 list"

text \<open>A turn of the loop over the attributes; it is the same in the three monitors up to the order of the tests.\<close>

definition exclusion_attribute :: "Attribute \<Rightarrow> server_exclusion \<Rightarrow> server_exclusion" where
  "exclusion_attribute a x =
     (if at_name a = wide ''action'' then x\<lparr>sx_action := at_value a\<rparr>
      else if at_name a = wide ''object'' then x\<lparr>sx_object := at_value a\<rparr>
      else if at_name a = wide ''subject'' then x\<lparr>sx_subject := at_value a\<rparr>
      else if at_name a = wide ''excluded'' then x\<lparr>sx_excluded := at_value a\<rparr>
      else x)"

definition read_exclusion :: "Element \<Rightarrow> server_exclusion" where
  "read_exclusion e =
     fold exclusion_attribute (el_attributes e) \<lparr>sx_excluded = [], sx_action = [], sx_subject = [], sx_object = []\<rparr>"

text \<open>onFileExclusionReceived, onRegistryExclusionReceived, onProcessExclusionReceived. Nobody catches what a regular expression throws.\<close>

definition onExclusionReceived ::
    "(u16 list \<Rightarrow> 'r option) \<Rightarrow> bool \<Rightarrow> Element \<Rightarrow> 'r permission_map \<Rightarrow> fault + 'r permission_map" where
  "onExclusionReceived compile garbage e m =
     (let x = read_exclusion e in
      case addExclusion compile garbage (sx_excluded x) (sx_action x) (sx_subject x) (sx_object x) False m of
        None \<Rightarrow> Inl Uncaught
      | Some m' \<Rightarrow> Inr m')"

text \<open>Whether a list says no to an event.\<close>

definition denied :: "('r \<Rightarrow> u16 list \<Rightarrow> bool) \<Rightarrow> 'r permission_map \<Rightarrow> u16 list \<Rightarrow> u16 list \<Rightarrow> u16 list \<Rightarrow> bool" where
  "denied matches m eventType subject object \<longleftrightarrow> (\<exists>p \<in> set (rules m eventType). Check matches p subject object = DISALLOWED)"

lemma isEventAllowed_denied:
  "isEventAllowed matches m eventType subject object \<longleftrightarrow>
     (\<exists>p \<in> set (rules m eventType). Check matches p subject object = ALLOWED) \<and> \<not> denied matches m eventType subject object"
  by (simp add: isEventAllowed_rules denied_def)

lemma Check_single:
  "Check matches \<lparr>pm_subjects = [s], pm_objects = [t], pm_allow = a, pm_permaneant = q\<rparr> subject object =
     (if matches s subject \<and> matches t object then if a then ALLOWED else DISALLOWED else NO_MATCH)"
  by (simp add: Check_def)

text \<open>What one more exclusion changes.\<close>

lemma isEventAllowed_added:
  assumes "addExclusion compile garbage excluded action subject object permaneant m = Some m'"
    and "compile subject = Some s" "compile object = Some t"
  shows "isEventAllowed matches m' eventType sub obj \<longleftrightarrow>
     (let applies = lower_case eventType = lower_case action \<and> matches s sub \<and> matches t obj in
      if applies then sign_allows garbage excluded \<and> \<not> denied matches m eventType sub obj
      else isEventAllowed matches m eventType sub obj)"
    and "denied matches m' eventType sub obj \<longleftrightarrow> denied matches m eventType sub obj \<or>
      lower_case eventType = lower_case action \<and> matches s sub \<and> matches t obj \<and> \<not> sign_allows garbage excluded"
proof -
  have m': "m' = m(lower_case action \<mapsto> rules m action @
      [\<lparr>pm_subjects = [s], pm_objects = [t], pm_allow = sign_allows garbage excluded, pm_permaneant = permaneant\<rparr>])"
    using assms by (simp add: addExclusion_rules rule_of_def)
  have r: "rules m eventType = rules m action" if "lower_case eventType = lower_case action"
    using that by (simp add: rules_def)
  show "isEventAllowed matches m' eventType sub obj \<longleftrightarrow>
     (let applies = lower_case eventType = lower_case action \<and> matches s sub \<and> matches t obj in
      if applies then sign_allows garbage excluded \<and> \<not> denied matches m eventType sub obj
      else isEventAllowed matches m eventType sub obj)"
    unfolding m' isEventAllowed_rules denied_def rules_update
    using r by (auto simp: Check_single Let_def)
  show "denied matches m' eventType sub obj \<longleftrightarrow> denied matches m eventType sub obj \<or>
      lower_case eventType = lower_case action \<and> matches s sub \<and> matches t obj \<and> \<not> sign_allows garbage excluded"
    unfolding m' denied_def rules_update using r by (auto simp: Check_single)
qed

lemma addExclusion_compiles:
  assumes "addExclusion compile garbage excluded action subject object permaneant m = Some m'"
  shows "\<exists>s t. compile subject = Some s \<and> compile object = Some t"
  using assms by (auto simp: addExclusion_def bind_eq_Some_conv)

section \<open>The registry and the process monitor\<close>

text \<open>What the constructors leave: the lists, the service and the driver; \<open>dm_listens\<close>: the slot for the exclusions of the server is connected.\<close>

record 'r driver_monitor =
  dm_permissions :: "'r permission_map"
  dm_hService :: addr
  dm_calls :: "service_call list"
  dm_listens :: bool
  dm_driverInstalled :: bool

text \<open>The file of the exclusion list, the service manager, and whether CreateFile opens the device.\<close>

record driver_env =
  de_file :: "u8 list option"
  de_service :: service_env
  de_opened :: bool

definition load_driver :: "(u16 list \<Rightarrow> 'r option) \<Rightarrow> bool \<Rightarrow> driver_env \<Rightarrow> bool \<times> 'r driver_monitor" where
  "load_driver compile garbage env =
     (let (installed, h, calls) = installKernelDriver (de_service env) NULL in
      (installed \<and> de_opened env,
       \<lparr>dm_permissions = loadExclusionList compile garbage (de_file env) Map.empty, dm_hService = h, dm_calls = calls,
        dm_listens = True, dm_driverInstalled = False\<rparr>))"

definition new_registry_monitor :: "(u16 list \<Rightarrow> 'r option) \<Rightarrow> bool \<Rightarrow> driver_env \<Rightarrow> 'r driver_monitor" where
  "new_registry_monitor compile garbage env =
     (case load_driver compile garbage env of (opened, dm) \<Rightarrow> if opened then dm\<lparr>dm_driverInstalled := True\<rparr> else dm)"

text \<open>
  The tuples of the processes that are known, sent to the driver one by one: the path is copied
  into an array of 1024 characters, whatever its length. The driver has no case for the request.
\<close>

record process_tuple =
  pt_processID :: u32
  pt_name :: "u16 list"

definition IOCTL_CAPTURE_PROC_LIST :: u32 where
  "IOCTL_CAPTURE_PROC_LIST = push_bit 16 0x22 OR push_bit 14 3 OR push_bit 2 0x807 OR 3"

definition make_tuple :: "u32 \<Rightarrow> u16 list \<Rightarrow> fault + process_tuple" where
  "make_tuple processId path =
     (if length path \<le> 1024 then Inr \<lparr>pt_processID = processId, pt_name = path @ replicate (1024 - length path) 0\<rparr>
      else Inl OutOfBounds)"

fun initialiseKernelDriverProcessMap :: "(u32 \<times> u16 list) list \<Rightarrow> fault + process_tuple list" where
  "initialiseKernelDriverProcessMap [] = Inr []"
| "initialiseKernelDriverProcessMap ((processId, path) # processMap) =
     fbind (make_tuple processId path) (\<lambda>t. fbind (initialiseKernelDriverProcessMap processMap) (\<lambda>ts. Inr (t # ts)))"

definition new_process_monitor ::
    "(u16 list \<Rightarrow> 'r option) \<Rightarrow> bool \<Rightarrow> driver_env \<Rightarrow> (u32 \<times> u16 list) list \<Rightarrow> fault + process_tuple list \<times> 'r driver_monitor" where
  "new_process_monitor compile garbage env processMap =
     (case load_driver compile garbage env of (opened, dm) \<Rightarrow>
        if opened then
          fbind (initialiseKernelDriverProcessMap processMap) (\<lambda>ts. Inr (ts, dm\<lparr>dm_driverInstalled := True\<rparr>))
        else Inr ([], dm))"

text \<open>The destructors after stop, with that of Monitor: the permissions and the driver go; the slot stays connected.\<close>

definition destroy_driver_monitor :: "'r driver_monitor \<Rightarrow> 'r driver_monitor" where
  "destroy_driver_monitor dm =
     (case unInstallKernelDriver (dm_hService dm) of (h, calls) \<Rightarrow>
        dm\<lparr>dm_driverInstalled := False, dm_permissions := Map.empty, dm_hService := h, dm_calls := dm_calls dm @ calls\<rparr>)"

lemma process_list_ignored:
  assumes "pi_code env = IOCTL_CAPTURE_PROC_LIST"
  shows "\<exists>status. KDispatchIoctl env m = (status, 0, [], False, m)"
  using assms by (simp add: KDispatchIoctl_def IOCTL_CAPTURE_PROC_LIST_def IOCTL_CAPTURE_GET_PROCINFO_def)

text \<open>A path too long for the tuple overflows it before the driver is used.\<close>

lemma long_path_overflows:
  "1024 < length path \<Longrightarrow> \<exists>e. initialiseKernelDriverProcessMap (pre @ (processId, path) # processMap) = Inl e"
proof (induction pre)
  case (Cons x pre)
  then show ?case by (cases x) (auto simp: make_tuple_def)
qed (simp add: make_tuple_def)

section \<open>The file monitor\<close>

definition IS_ERROR :: "u32 \<Rightarrow> bool" where
  "IS_ERROR hResult \<longleftrightarrow> sint hResult < 0"

text \<open>The names of the volumes with their drive letters, as far as there are any; a name that is there stays.\<close>

fun insert_names :: "(u16 list \<times> u16 list option) list \<Rightarrow> (u16 list \<times> u16 list) list \<Rightarrow> (u16 list \<times> u16 list) list" where
  "insert_names [] names = names"
| "insert_names ((volume, dosName) # volumes) names =
     insert_names volumes
       (case dosName of None \<Rightarrow> names | Some d \<Rightarrow> if volume \<in> fst ` set names then names else names @ [(volume, d)])"

definition initialiseDosNameMap :: "(u16 list \<times> u16 list option) list \<Rightarrow> (u16 list \<times> u16 list) list" where
  "initialiseDosNameMap volumes = insert_names volumes []"

record file_env =
  fv_loaded :: u32
  fv_connected :: u32
  fv_file :: "u8 list option"
  fv_logs :: "u16 list"
  fv_temp :: "u16 list"
  fv_executable :: "u16 list"
  fv_log_option :: "u16 list"
  fv_log_file :: "u16 list"
  fv_volumes :: "(u16 list \<times> u16 list option) list"

record 'r file_state =
  fo_driverInstalled :: bool
  fo_monitorModifiedFiles :: bool
  fo_permissions :: "'r permission_map"
  fo_dosNameMap :: "(u16 list \<times> u16 list) list"
  fo_modifiedFiles :: "u16 list set"
  fo_listens :: bool

text \<open>The permanent exclusions, in order: action, process, object.\<close>

definition directory_exclusions :: "u16 list \<Rightarrow> (u16 list \<times> u16 list \<times> u16 list) list" where
  "directory_exclusions directory =
     map (\<lambda>action. (wide action, wide ''.*'', prepareStringForExclusion directory @ [0x5C, 0x5C] @ wide ''.*''))
       [''write'', ''create'', ''delete'', ''open'', ''read'']"

definition own_exclusions :: "file_env \<Rightarrow> (u16 list \<times> u16 list \<times> u16 list) list" where
  "own_exclusions env =
     directory_exclusions (fv_logs env) @ directory_exclusions (fv_temp env) @
     (if fv_log_option env \<noteq> [] then
        map (\<lambda>action. (wide action, prepareStringForExclusion (fv_executable env), prepareStringForExclusion (fv_log_file env)))
          [''create'', ''write'']
      else [])"

fun add_permanent ::
    "(u16 list \<Rightarrow> 'r option) \<Rightarrow> bool \<Rightarrow> (u16 list \<times> u16 list \<times> u16 list) list \<Rightarrow> 'r permission_map \<Rightarrow> fault + 'r permission_map" where
  "add_permanent compile garbage [] m = Inr m"
| "add_permanent compile garbage ((action, subject, object) # xs) m =
     (case addExclusion compile garbage (wide ''+'') action subject object True m of
        None \<Rightarrow> Inl Uncaught
      | Some m' \<Rightarrow> add_permanent compile garbage xs m')"

definition unloaded_file_monitor :: "'r file_state" where
  "unloaded_file_monitor =
     \<lparr>fo_driverInstalled = False, fo_monitorModifiedFiles = False, fo_permissions = Map.empty, fo_dosNameMap = [],
      fo_modifiedFiles = {}, fo_listens = False\<rparr>"

definition new_file_monitor :: "(u16 list \<Rightarrow> 'r option) \<Rightarrow> bool \<Rightarrow> file_env \<Rightarrow> fault + 'r file_state" where
  "new_file_monitor compile garbage env =
     (if \<not> IS_ERROR (fv_loaded env) then
        fbind (add_permanent compile garbage (own_exclusions env) (loadExclusionList compile garbage (fv_file env) Map.empty)) (\<lambda>m.
          Inr (unloaded_file_monitor\<lparr>fo_driverInstalled := \<not> IS_ERROR (fv_connected env), fo_permissions := m,
                 fo_dosNameMap := initialiseDosNameMap (fv_volumes env), fo_listens := True\<rparr>))
      else Inr unloaded_file_monitor)"

definition destroy_file_monitor :: "'r file_state \<Rightarrow> 'r file_state" where
  "destroy_file_monitor fo = fo\<lparr>fo_driverInstalled := False, fo_permissions := Map.empty\<rparr>"

section \<open>Modified and deleted files\<close>

text \<open>The message to the filter; the array behind the path is not set. Its answer is not looked at.\<close>

definition setup_message :: "bool \<Rightarrow> u16 list \<Rightarrow> u16 list \<Rightarrow> file_setup" where
  "setup_message monitor logDirectory garbage =
     \<lparr>fs_bCollectDeletedFiles = monitor, fs_nLogDirectorySize = of_nat (length logDirectory) * 2,
      fs_wszLogDirectory = take 1024 (logDirectory @ 0 # garbage)\<rparr>"

definition setMonitorModifiedFiles ::
    "bool \<Rightarrow> u16 list \<Rightarrow> u16 list \<Rightarrow> message_env \<Rightarrow> 'r file_state \<Rightarrow> file_manager \<Rightarrow> 'r file_state \<times> file_manager" where
  "setMonitorModifiedFiles monitor logDirectory garbage env fo m =
     (case MessageCallback (env\<lparr>mg_input_null := False, mg_input_size := 4, mg_input_raises := False, mg_command := 1,
            mg_output_size := sizeof_FILEMONITOR_SETUP, mg_setup := Some (setup_message monitor logDirectory garbage)\<rparr>) m of
        (_, _, _, m') \<Rightarrow> (fo\<lparr>fo_monitorModifiedFiles := monitor\<rparr>, m'))"

text \<open>
  Positions are those of the string, where nothing found is the largest size, one more of which is
  0; a length less than 0 is the largest size, too, and means the rest.
\<close>

definition path_drive :: "u16 list \<Rightarrow> u16 list" where
  "path_drive p = (case find_char 0x3A p of Some i \<Rightarrow> take i p | None \<Rightarrow> p)"

definition path_file :: "u16 list \<Rightarrow> u16 list" where
  "path_file p = (case find_last 0x5C p of Some i \<Rightarrow> drop (i + 1) p | None \<Rightarrow> p)"

definition path_directories :: "u16 list \<Rightarrow> u16 list" where
  "path_directories p =
     (case (find_char 0x5C p, find_last 0x5C p) of
        (Some f, Some l) \<Rightarrow> if f < l then take (l - f - 1) (drop (f + 1) p) else drop (f + 1) p
      | _ \<Rightarrow> p)"

datatype copy_action = MakeDirectories "u16 list" | CopyTo "u16 list" "u16 list"

definition createFilePathAndCopy :: "u16 list \<Rightarrow> u16 list \<Rightarrow> copy_action list" where
  "createFilePathAndCopy logPath filePath =
     (let intermediateDirectory = logPath @ path_drive filePath @ [0x5C] @ path_directories filePath
      in [MakeDirectories intermediateDirectory, CopyTo filePath (intermediateDirectory @ [0x5C] @ path_file filePath)])"

text \<open>The set is gone through in some order of its elements.\<close>

definition copyCreatedFiles :: "u16 list \<Rightarrow> u16 list list \<Rightarrow> 'r file_state \<Rightarrow> copy_action list \<times> 'r file_state" where
  "copyCreatedFiles logPath order fo =
     (concat (map (createFilePathAndCopy logPath) order), fo\<lparr>fo_modifiedFiles := {}\<rparr>)"

section \<open>What the exclusions do\<close>

definition excludes ::
    "(u16 list \<Rightarrow> 'r option) \<Rightarrow> ('r \<Rightarrow> u16 list \<Rightarrow> bool) \<Rightarrow> u16 list \<Rightarrow> u16 list \<Rightarrow> u16 list \<Rightarrow>
     u16 list \<times> u16 list \<times> u16 list \<Rightarrow> bool" where
  "excludes compile matches eventType subject object x \<longleftrightarrow>
     (case x of (action, sub, obj) \<Rightarrow> lower_case eventType = lower_case action \<and>
        (\<exists>s t. compile sub = Some s \<and> compile obj = Some t \<and> matches s subject \<and> matches t object))"

lemma add_permanent_allowed:
  "add_permanent compile garbage xs m = Inr m' \<Longrightarrow>
     (denied matches m' ev sub obj \<longleftrightarrow> denied matches m ev sub obj) \<and>
     (isEventAllowed matches m' ev sub obj \<longleftrightarrow> \<not> denied matches m ev sub obj \<and>
        (isEventAllowed matches m ev sub obj \<or> (\<exists>x \<in> set xs. excludes compile matches ev sub obj x)))"
proof (induction xs arbitrary: m)
  case Nil
  then show ?case by (auto simp: isEventAllowed_denied)
next
  case (Cons x xs)
  obtain action s t where x: "x = (action, s, t)" by (metis prod_cases3)
  then obtain m1 where m1: "addExclusion compile garbage (wide ''+'') action s t True m = Some m1" "add_permanent compile garbage xs m1 = Inr m'"
    using Cons.prems by (auto split: option.splits)
  obtain r q where c: "compile s = Some r" "compile t = Some q" using addExclusion_compiles[OF m1(1)] by blast
  have "sign_allows garbage (wide ''+'')" by (simp add: sign_allows_def)
  then have d: "denied matches m1 ev sub obj \<longleftrightarrow> denied matches m ev sub obj"
    and a: "isEventAllowed matches m1 ev sub obj \<longleftrightarrow> \<not> denied matches m ev sub obj \<and>
      (isEventAllowed matches m ev sub obj \<or> excludes compile matches ev sub obj x)"
    using isEventAllowed_added[OF m1(1) c] by (auto simp: x c excludes_def Let_def isEventAllowed_denied)
  from Cons.IH[OF m1(2)] d a show ?case by auto
qed

text \<open>A client that the constructor has set up.\<close>

definition file_client_of :: "('r \<Rightarrow> u16 list \<Rightarrow> bool) \<Rightarrow> (u32 \<Rightarrow> u16 list) \<Rightarrow> (u16 list \<Rightarrow> bool) \<Rightarrow> 'r file_state \<Rightarrow> 'r file_client" where
  "file_client_of matches process_path is_directory fo =
     \<lparr>fc_permissions = fo_permissions fo, fc_matches = matches, fc_names = fo_dosNameMap fo, fc_process_path = process_path,
      fc_monitorModifiedFiles = fo_monitorModifiedFiles fo, fc_is_directory = is_directory\<rparr>"

lemma file_event_names:
  "getFileEventName major information path = Some name \<Longrightarrow>
     lower_case name \<in> {lower_case (wide a) |a. a \<in> {''write'', ''create'', ''delete'', ''open'', ''read''}}"
proof -
  have l: "lower_case (wide ''Create'') = lower_case (wide ''create'')" "lower_case (wide ''Open'') = lower_case (wide ''open'')"
    "lower_case (wide ''Read'') = lower_case (wide ''read'')" "lower_case (wide ''Write'') = lower_case (wide ''write'')"
    "lower_case (wide ''Delete'') = lower_case (wide ''delete'')"
    by code_simp+
  assume "getFileEventName major information path = Some name"
  then show ?thesis using l by (auto simp: getFileEventName_def split: if_splits)
qed

text \<open>
  What Capture itself does to its log and temporary directories is never reported: an event
  of any process on a file in one of them signals nothing and counts no file as modified, unless
  a line of the exclusion list forbids the exclusion.
\<close>

theorem own_files_not_reported:
  assumes "new_file_monitor compile garbage env = Inr fo" "\<not> IS_ERROR (fv_loaded env)" "directory \<in> {fv_logs env, fv_temp env}"
    and "compile (wide ''.*'') = Some any" "\<forall>p. matches any p"
    and "compile (prepareStringForExclusion directory @ [0x5C, 0x5C] @ wide ''.*'') = Some inside"
    and "matches inside (convertFileObjectNameToDosName (fo_dosNameMap fo) path)"
    and "\<not> (\<exists>action p. denied matches (loadExclusionList compile garbage (fv_file env) Map.empty) action p
             (convertFileObjectNameToDosName (fo_dosNameMap fo) path))"
  shows "FileClient.handle_event (file_client_of matches pp dir fo) major information time processId path = []"
proof (cases "getFileEventName major information path")
  case (Some name)
  let ?path = "convertFileObjectNameToDosName (fo_dosNameMap fo) path"
  obtain a where a: "a \<in> {''write'', ''create'', ''delete'', ''open'', ''read''}" "lower_case name = lower_case (wide a)"
    using file_event_names[OF Some] by auto
  have add: "add_permanent compile garbage (own_exclusions env) (loadExclusionList compile garbage (fv_file env) Map.empty) =
      Inr (fo_permissions fo)"
    using assms(1,2) by (auto simp: new_file_monitor_def fbind_eq_Inr)
  have mem: "(wide a, wide ''.*'', prepareStringForExclusion directory @ [0x5C, 0x5C] @ wide ''.*'') \<in> set (own_exclusions env)"
    using a(1) assms(3) by (auto simp: own_exclusions_def directory_exclusions_def)
  have "excludes compile matches name (pp processId) ?path
      (wide a, wide ''.*'', prepareStringForExclusion directory @ [0x5C, 0x5C] @ wide ''.*'')"
    using a(2) assms(4-7) by (simp add: excludes_def)
  then have "isEventAllowed matches (fo_permissions fo) name (pp processId) ?path"
    using add_permanent_allowed[OF add] assms(8) mem by blast
  then show ?thesis by (simp add: FileClient.handle_event_def Some file_client_of_def Let_def)
qed (simp add: FileClient.handle_event_def)

definition example_logs :: "u16 list" where
  "example_logs = wide ''C:'' @ 0x5C # wide ''logs''"

definition example_matches :: "u16 list \<Rightarrow> u16 list \<Rightarrow> bool" where
  "example_matches r p \<longleftrightarrow> r = wide ''.*'' \<or>
     r = prepareStringForExclusion example_logs @ [0x5C, 0x5C] @ wide ''.*'' \<and> begins_with p (example_logs @ [0x5C])"

definition example_file_env :: file_env where
  "example_file_env = \<lparr>fv_loaded = 0, fv_connected = 0, fv_file = None, fv_logs = example_logs, fv_temp = wide ''C:'' @ 0x5C # wide ''temp'',
     fv_executable = [], fv_log_option = [], fv_log_file = [], fv_volumes = [(wide ''D1'', Some (wide ''C:''))]\<rparr>"

lemma addExclusion_Some: "\<exists>m'. addExclusion Some garbage excluded action subject object permaneant m = Some m'"
  by (simp add: addExclusion_rules rule_of_def)

lemma add_permanent_Some: "\<exists>m'. add_permanent Some garbage xs m = Inr m'"
proof (induction xs arbitrary: m)
  case (Cons x xs)
  obtain action s t where x: "x = (action, s, t)" by (metis prod_cases3)
  obtain m1 where "addExclusion Some garbage (wide ''+'') action s t True m = Some m1" using addExclusion_Some by blast
  then show ?case using Cons.IH[of m1] by (simp add: x)
qed simp

theorem own_files_not_reported_witness:
  "\<exists>fo. new_file_monitor Some False example_file_env = Inr fo \<and>
     FileClient.handle_event (file_client_of example_matches (\<lambda>_. wide ''p'') (\<lambda>_. False) fo) 4 0 [] 8
       (wide ''D1'' @ 0x5C # wide ''logs'' @ 0x5C # wide ''a'') = []"
proof -
  have l: "\<not> IS_ERROR (fv_loaded example_file_env)" by (simp add: IS_ERROR_def example_file_env_def)
  obtain ps where "add_permanent Some False (own_exclusions example_file_env) (loadExclusionList Some False (fv_file example_file_env) Map.empty) = Inr ps"
    using add_permanent_Some by blast
  with l have "\<exists>fo. new_file_monitor Some False example_file_env = Inr fo" by (simp add: new_file_monitor_def)
  then obtain fo where fo: "new_file_monitor Some False example_file_env = Inr fo" ..
  have "fo_dosNameMap fo = [(wide ''D1'', wide ''C:'')]"
    using fo l by (auto simp: new_file_monitor_def fbind_eq_Inr example_file_env_def initialiseDosNameMap_def)
  then have p: "convertFileObjectNameToDosName (fo_dosNameMap fo) (wide ''D1'' @ 0x5C # wide ''logs'' @ 0x5C # wide ''a'') =
      example_logs @ 0x5C # wide ''a''"
    by (simp add: convertFileObjectNameToDosName_def begins_with_def replace_at_def example_logs_def wide_def)
  have "FileClient.handle_event (file_client_of example_matches (\<lambda>_. wide ''p'') (\<lambda>_. False) fo) 4 0 [] 8
       (wide ''D1'' @ 0x5C # wide ''logs'' @ 0x5C # wide ''a'') = []"
    by (rule own_files_not_reported[OF fo l, where directory = example_logs and any = "wide ''.*''"
          and inside = "prepareStringForExclusion example_logs @ [0x5C, 0x5C] @ wide ''.*''"])
      (simp_all add: p example_matches_def begins_with_def denied_def rules_def loadExclusionList_def, simp_all add: example_file_env_def)
  with fo show ?thesis by blast
qed

text \<open>
  An exclusion of the server changes exactly what it applies to: events of its action, in
  any case, whose subject and object its expressions match. Of these, those it allows are excluded
  unless an exclusion that was there before denies it, and those it denies are reported.
\<close>

theorem server_exclusion_applies:
  assumes "onExclusionReceived compile garbage e m = Inr m'"
    and "compile (sx_subject (read_exclusion e)) = Some s" "compile (sx_object (read_exclusion e)) = Some t"
  shows "isEventAllowed matches m' eventType subject object \<longleftrightarrow>
     (if lower_case eventType = lower_case (sx_action (read_exclusion e)) \<and> matches s subject \<and> matches t object
      then sign_allows garbage (sx_excluded (read_exclusion e)) \<and> \<not> denied matches m eventType subject object
      else isEventAllowed matches m eventType subject object)"
proof -
  have "addExclusion compile garbage (sx_excluded (read_exclusion e)) (sx_action (read_exclusion e)) (sx_subject (read_exclusion e))
      (sx_object (read_exclusion e)) False m = Some m'"
    using assms(1) by (auto simp: onExclusionReceived_def Let_def split: option.splits)
  from isEventAllowed_added(1)[OF this assms(2,3)] show ?thesis by (simp add: Let_def)
qed

definition example_exclusion :: Element where
  "example_exclusion = Elem (wide ''file-exclusion'') [attribute (wide ''excluded'') (wide ''yes''), attribute (wide ''action'') (wide ''Write''),
     attribute (wide ''subject'') (wide ''s''), attribute (wide ''object'') (wide ''o'')] [] []"

lemma read_example_exclusion:
  "read_exclusion example_exclusion = \<lparr>sx_excluded = wide ''yes'', sx_action = wide ''Write'', sx_subject = wide ''s'', sx_object = wide ''o''\<rparr>"
  by (simp add: read_exclusion_def example_exclusion_def exclusion_attribute_def attribute_def)

theorem server_exclusion_applies_witness:
  "\<exists>m'. onExclusionReceived Some False example_exclusion Map.empty = Inr m' \<and>
     isEventAllowed (=) m' (wide ''write'') (wide ''s'') (wide ''o'')"
proof -
  obtain m0 where "addExclusion Some False (wide ''yes'') (wide ''Write'') (wide ''s'') (wide ''o'') False Map.empty = Some m0"
    using addExclusion_Some by blast
  then have "\<exists>m'. onExclusionReceived Some False example_exclusion Map.empty = Inr m'"
    by (simp add: onExclusionReceived_def read_example_exclusion)
  then obtain m' where m': "onExclusionReceived Some False example_exclusion Map.empty = Inr m'" ..
  have l: "lower_case (wide ''write'') = lower_case (wide ''Write'')" by code_simp
  show ?thesis
    using server_exclusion_applies[OF m' refl refl, of "(=)" "wide ''write''" "wide ''s''" "wide ''o''"] m'
    by (simp add: read_example_exclusion l sign_allows_def denied_def rules_def)
qed

lemma SetupMonitor_message:
  "SetupMonitor (env\<lparr>mg_input_null := a, mg_input_size := b, mg_input_raises := c, mg_command := d, mg_output_size := e, mg_setup := f\<rparr>) s m =
     SetupMonitor env s m"
  by (simp add: SetupMonitor_def Let_def)

text \<open>
  Switching the collection of deleted files on or off in the client reaches the filter, although
  the filter answers that the message is not valid: with memory granted it collects from then on
  below the log directory of the client, or stops and gives its memory back.
\<close>

theorem collection_switched:
  assumes "setMonitorModifiedFiles monitor logDirectory garbage env fo m = (fo', m')" "mg_block env"
    and "0 \<notin> set logDirectory" "length logDirectory < 1024"
  shows "fo_monitorModifiedFiles fo' = monitor \<and> fm_bCollectDeletedFiles m' = monitor \<and> fm_logBuffer m' = monitor \<and>
     (monitor \<longrightarrow> us_chars (fm_logDirectory m') = [0x5C, 0x3F, 0x3F, 0x5C] @ logDirectory)"
proof -
  let ?s = "setup_message monitor logDirectory garbage"
  have tw: "takeWhile (\<lambda>c. c \<noteq> 0) (fs_wszLogDirectory ?s) = logDirectory"
  proof -
    have "fs_wszLogDirectory ?s = logDirectory @ 0 # take (1023 - length logDirectory) garbage"
      using assms(4) by (simp add: setup_message_def take_Cons')
    then show ?thesis using takeWhile_before[OF assms(3)] by simp
  qed
  have size: "unat (fs_nLogDirectorySize ?s) = 2 * length logDirectory"
    using assms(4) by (simp add: setup_message_def unat_word_ariths unat_of_nat)
  have m': "m' = SetupMonitor env ?s m" "fo' = fo\<lparr>fo_monitorModifiedFiles := monitor\<rparr>"
    using assms(1) by (simp_all add: setMonitorModifiedFiles_def MessageCallback_def SetupMonitor_message)
  show ?thesis
  proof (cases monitor)
    case True
    then have c: "fs_bCollectDeletedFiles ?s" by (simp add: setup_message_def)
    have "us_chars (log_directory ?s) = [0x5C, 0x3F, 0x3F, 0x5C] @ logDirectory"
      using size assms(4) tw by (simp add: log_directory_def Let_def RtlUnicodeStringCatString_def RtlUnicodeStringCat_def)
    then show ?thesis using m' c True assms(2) by (simp add: SetupMonitor_def Let_def)
  next
    case False
    then have "\<not> fs_bCollectDeletedFiles ?s" by (simp add: setup_message_def)
    then show ?thesis using m' False by (simp add: SetupMonitor_def free_log_def)
  qed
qed

theorem collection_switched_witness:
  "us_chars (fm_logDirectory (snd (setMonitorModifiedFiles True (wide ''C/log'') [7] setup_demo (unloaded_file_monitor :: nat file_state) fmanager_demo))) =
     [0x5C, 0x3F, 0x3F, 0x5C] @ wide ''C/log''"
proof -
  obtain fo' m' where r: "setMonitorModifiedFiles True (wide ''C/log'') [7] setup_demo (unloaded_file_monitor :: nat file_state) fmanager_demo = (fo', m')"
    by fastforce
  have "mg_block setup_demo" "0 \<notin> set (wide ''C/log'')" "length (wide ''C/log'') < 1024" by (simp_all add: setup_demo_def wide_def)
  from collection_switched[OF r this] show ?thesis by (simp add: r)
qed

section \<open>Copies of the modified files\<close>

text \<open>A path with a drive, a colon, at least one directory and a file name.\<close>

definition local_path :: "u16 list \<Rightarrow> u16 list \<Rightarrow> u16 list \<Rightarrow> u16 list" where
  "local_path drive directory file = drive @ [0x3A, 0x5C] @ directory @ [0x5C] @ file"

definition local_path_ok :: "u16 list \<times> u16 list \<times> u16 list \<Rightarrow> bool" where
  "local_path_ok = (\<lambda>(drive, directory, file). 0x3A \<notin> set drive \<and> 0x5C \<notin> set drive \<and> 0x5C \<notin> set file)"

lemma path_parts:
  assumes "local_path_ok (drive, directory, file)"
  shows "path_drive (local_path drive directory file) = drive" "path_file (local_path drive directory file) = file"
    "path_directories (local_path drive directory file) = directory"
proof -
  let ?p = "local_path drive directory file"
  have c: "0x3A \<notin> set drive" "0x5C \<notin> set (drive @ [0x3A])" "0x5C \<notin> set file" using assms by (auto simp: local_path_ok_def)
  have colon: "find_char 0x3A ?p = Some (length drive)" using find_char_first[OF c(1)] by (simp add: local_path_def)
  have first: "find_char 0x5C ?p = Some (length drive + 1)" using find_char_first[OF c(2)] by (simp add: local_path_def)
  have last: "find_last 0x5C ?p = Some (length drive + 2 + length directory)"
    using find_last_last[OF c(3), of "drive @ [0x3A, 0x5C] @ directory"] by (simp add: local_path_def)
  show "path_drive ?p = drive" using colon by (simp add: path_drive_def local_path_def)
  have "?p = (drive @ [0x3A, 0x5C] @ directory @ [0x5C]) @ file" by (simp add: local_path_def)
  moreover have "length (drive @ [0x3A, 0x5C] @ directory @ [0x5C]) = length drive + 2 + length directory + 1" by simp
  ultimately have "drop (length drive + 2 + length directory + 1) ?p = file" by (metis append_eq_conv_conj)
  then show "path_file ?p = file" using last by (simp only: path_file_def option.simps)
  show "path_directories ?p = directory" using first last by (simp add: path_directories_def local_path_def)
qed

lemma createFilePathAndCopy_local:
  assumes "local_path_ok (drive, directory, file)"
  shows "createFilePathAndCopy logPath (local_path drive directory file) =
     [MakeDirectories (logPath @ drive @ [0x5C] @ directory),
      CopyTo (local_path drive directory file) (logPath @ drive @ [0x5C] @ directory @ [0x5C] @ file)]"
  using path_parts[OF assms] by (simp add: createFilePathAndCopy_def)

text \<open>The place of a copy tells which file it is of.\<close>

lemma split_first: "c \<notin> set a \<Longrightarrow> c \<notin> set b \<Longrightarrow> a @ c # x = b @ c # y \<Longrightarrow> a = b \<and> x = y"
proof (induction a arbitrary: b)
  case Nil
  then show ?case by (cases b) auto
next
  case (Cons z a)
  then show ?case by (cases b) auto
qed

lemma copy_place_inj:
  assumes "local_path_ok (d, r, f)" "local_path_ok (d', r', f')"
    and "logPath @ d @ [0x5C] @ r @ [0x5C] @ f = logPath @ d' @ [0x5C] @ r' @ [0x5C] @ f'"
  shows "(d, r, f) = (d', r', f')"
proof -
  have "d = d' \<and> r @ [0x5C] @ f = r' @ [0x5C] @ f'"
    using split_first[of "0x5C" d d'] assms by (simp add: local_path_ok_def)
  moreover from this have "rev f @ 0x5C # rev r = rev f' @ 0x5C # rev r'"
    by (metis append_Cons append_assoc append_Nil rev.simps(2) rev_append)
  then have "rev f = rev f' \<and> rev r = rev r'"
    by (rule split_first[rotated 2]) (use assms(1,2) in \<open>simp_all add: local_path_ok_def\<close>)
  ultimately show ?thesis by simp
qed

text \<open>
  Every modified file that lies in a directory is copied once, to the path it has, without the
  colon, below the directory for the modified files; different files go to different places, whatever
  the order of the set, and afterwards no file counts as modified.
\<close>

theorem modified_files_copied:
  assumes "distinct parts" "\<forall>x \<in> set parts. local_path_ok x"
    and "copyCreatedFiles logPath (map (\<lambda>(d, r, f). local_path d r f) parts) fo = (actions, fo')"
  shows "actions = concat (map (\<lambda>(d, r, f). [MakeDirectories (logPath @ d @ [0x5C] @ r),
       CopyTo (local_path d r f) (logPath @ d @ [0x5C] @ r @ [0x5C] @ f)]) parts) \<and>
     distinct (map (\<lambda>(d, r, f). logPath @ d @ [0x5C] @ r @ [0x5C] @ f) parts) \<and> fo_modifiedFiles fo' = {}"
proof -
  have "actions = concat (map (createFilePathAndCopy logPath) (map (\<lambda>(d, r, f). local_path d r f) parts))"
    using assms(3) by (simp add: copyCreatedFiles_def)
  also have "\<dots> = concat (map (\<lambda>(d, r, f). [MakeDirectories (logPath @ d @ [0x5C] @ r),
       CopyTo (local_path d r f) (logPath @ d @ [0x5C] @ r @ [0x5C] @ f)]) parts)"
    using assms(2) by (induction parts) (auto simp: createFilePathAndCopy_local)
  finally have a: "actions = concat (map (\<lambda>(d, r, f). [MakeDirectories (logPath @ d @ [0x5C] @ r),
       CopyTo (local_path d r f) (logPath @ d @ [0x5C] @ r @ [0x5C] @ f)]) parts)" .
  have "inj_on (\<lambda>(d, r, f). logPath @ d @ [0x5C] @ r @ [0x5C] @ f) (set parts)"
  proof (rule inj_onI)
    fix x y assume xy: "x \<in> set parts" "y \<in> set parts"
      "(\<lambda>(d, r, f). logPath @ d @ [0x5C] @ r @ [0x5C] @ f) x = (\<lambda>(d, r, f). logPath @ d @ [0x5C] @ r @ [0x5C] @ f) y"
    obtain d r f d' r' f' where p: "x = (d, r, f)" "y = (d', r', f')" by (metis prod_cases3)
    show "x = y" using copy_place_inj[of d r f d' r' f' logPath] xy assms(2) by (simp add: p)
  qed
  with a assms(1,3) show ?thesis by (auto simp: distinct_map copyCreatedFiles_def)
qed

definition example_parts :: "(u16 list \<times> u16 list \<times> u16 list) list" where
  "example_parts = [(wide ''C'', wide ''a'', wide ''b''), (wide ''C'', wide ''ab'', [])]"

theorem modified_files_copied_witness:
  "fo_modifiedFiles (snd (copyCreatedFiles [] (map (\<lambda>(d, r, f). local_path d r f) example_parts)
     ((unloaded_file_monitor :: nat file_state)\<lparr>fo_modifiedFiles := {wide ''C:a''}\<rparr>))) = {}"
proof -
  let ?fo = "(unloaded_file_monitor :: nat file_state)\<lparr>fo_modifiedFiles := {wide ''C:a''}\<rparr>"
  have d: "distinct example_parts" by (simp add: example_parts_def)
  have ok: "\<forall>x \<in> set example_parts. local_path_ok x" by (simp add: example_parts_def local_path_ok_def) (simp add: wide_def)
  obtain actions fo' where c: "copyCreatedFiles [] (map (\<lambda>(d, r, f). local_path d r f) example_parts) ?fo = (actions, fo')" by fastforce
  from modified_files_copied[OF d ok c] show ?thesis by (simp add: c)
qed

text \<open>
  A file in the root of a drive is copied into a directory of its own name: the length between
  the two backslashes is less than 0 then and stands for the rest.
\<close>

theorem root_file_in_its_own_directory:
  assumes "0x3A \<notin> set drive" "0x5C \<notin> set drive" "0x5C \<notin> set file"
  shows "createFilePathAndCopy logPath (drive @ [0x3A, 0x5C] @ file) =
     [MakeDirectories (logPath @ drive @ [0x5C] @ file), CopyTo (drive @ [0x3A, 0x5C] @ file) (logPath @ drive @ [0x5C] @ file @ [0x5C] @ file)]"
proof -
  let ?p = "drive @ [0x3A, 0x5C] @ file"
  have c: "0x5C \<notin> set (drive @ [0x3A])" using assms by auto
  have "find_char 0x3A ?p = Some (length drive)" using find_char_first[OF assms(1)] by simp
  moreover have "find_char 0x5C ?p = Some (length drive + 1)" using find_char_first[OF c] by simp
  moreover have "find_last 0x5C ?p = Some (length drive + 1)" using find_last_last[OF assms(3), of "drive @ [0x3A]"] by simp
  ultimately show ?thesis by (simp add: createFilePathAndCopy_def path_drive_def path_file_def path_directories_def)
qed

theorem root_file_in_its_own_directory_witness:
  "createFilePathAndCopy [] (wide ''C:'' @ [0x5C] @ wide ''a'') =
     [MakeDirectories (wide ''C'' @ [0x5C] @ wide ''a''), CopyTo (wide ''C:'' @ [0x5C] @ wide ''a'') (wide ''C'' @ [0x5C] @ wide ''a'' @ [0x5C] @ wide ''a'')]"
  using root_file_in_its_own_directory[of "wide ''C''" "wide ''a''" "[]"] by (simp add: wide_def)

text \<open>
  When the name of one volume begins with that of another, as those of the first and the tenth
  volume of a disk do, the files of the longer one are reported on the drive of the shorter one if
  it comes first.
\<close>

theorem volume_prefix_confused:
  assumes "fo_dosNameMap fo = (volume, drive) # names" "path = volume @ rest"
  shows "convertFileObjectNameToDosName (fo_dosNameMap fo) path = drive @ rest"
  using assms by (simp add: convertFileObjectNameToDosName_def begins_with_def replace_at_def)

theorem volume_prefix_confused_witness:
  "convertFileObjectNameToDosName
     (fo_dosNameMap ((unloaded_file_monitor :: nat file_state)\<lparr>fo_dosNameMap :=
        initialiseDosNameMap [(wide ''V1'', Some (wide ''C:'')), (wide ''V10'', Some (wide ''D:''))]\<rparr>)) (wide ''V10/a'') = wide ''C:0/a''"
  by (subst volume_prefix_confused[where volume = "wide ''V1''" and drive = "wide ''C:''" and rest = "wide ''0/a''" and names = "[(wide ''V10'', wide ''D:'')]"])
    (simp_all add: initialiseDosNameMap_def, simp_all add: wide_def)

end
