(* ===== verification/Connection.thy ===== *)
theory Connection
  imports Prelude
begin

text \<open>
  NetworkMonitor/Connection.c: a connection, the raw transport addresses of its two ends,
  their textual form, and the query that asks the transport driver for the local address.
  Addresses are the bytes of a TA_ADDRESS: length and type as 16-bit little-endian numbers,
  then the address, for TDI_ADDRESS_TYPE_IP the port and the IPv4 address in network order.
  The sizes that tdi.h gives the structures are the argument \<open>sz\<close>.
\<close>

datatype ConnectionState =
    TCP_STATE_CLOSED | TCP_STATE_LISTEN | TCP_STATE_SYN_SENT | TCP_STATE_SYN_RCVD
  | TCP_STATE_ESTABLISHED | TCP_STATE_FIN_WAIT_1 | TCP_STATE_FIN_WAIT_2 | TCP_STATE_CLOSING
  | TCP_STATE_TIME_WAIT | TCP_STATE_CLOSE_WAIT | TCP_STATE_LAST_ACK
  | UDP_STATE_CLOSED | UDP_STATE_CONNECT | UDP_STATE_ESTABLISHED | UDP_STATE_SEND
  | UDP_STATE_RECEIVE | UDP_STATE_SEND_DATAGRAM | UDP_STATE_RECEIVE_DATAGRAM

text \<open>The values of the enumeration.\<close>

definition all_states :: "ConnectionState list" where
  "all_states =
     [TCP_STATE_CLOSED, TCP_STATE_LISTEN, TCP_STATE_SYN_SENT, TCP_STATE_SYN_RCVD,
      TCP_STATE_ESTABLISHED, TCP_STATE_FIN_WAIT_1, TCP_STATE_FIN_WAIT_2, TCP_STATE_CLOSING,
      TCP_STATE_TIME_WAIT, TCP_STATE_CLOSE_WAIT, TCP_STATE_LAST_ACK,
      UDP_STATE_CLOSED, UDP_STATE_CONNECT, UDP_STATE_ESTABLISHED, UDP_STATE_SEND,
      UDP_STATE_RECEIVE, UDP_STATE_SEND_DATAGRAM, UDP_STATE_RECEIVE_DATAGRAM]"

definition state_code :: "ConnectionState \<Rightarrow> u32" where
  "state_code st = of_nat (length (takeWhile (\<lambda>s. s \<noteq> st) all_states))"

record Connection =
  local_node :: addr
  remote_node :: addr
  local_node_address :: "u8 list"
  remote_node_address :: "u8 list"
  state :: ConnectionState
  process_id :: u32

record tdi_sizes =
  sizeof_TA_ADDRESS :: nat
  TDI_ADDRESS_INFO_MAX :: nat

abbreviation (input) TDI_ADDRESS_TYPE_IP :: u16 where "TDI_ADDRESS_TYPE_IP \<equiv> 2"

definition le16 :: "u8 list \<Rightarrow> nat \<Rightarrow> u16" where
  "le16 b i = (ucast (b ! i) :: u16) OR push_bit 8 (ucast (b ! Suc i))"

definition AddressLength :: "u8 list \<Rightarrow> u16" where "AddressLength a = le16 a 0"
definition AddressType :: "u8 list \<Rightarrow> u16" where "AddressType a = le16 a 2"

definition ntohs :: "u16 \<Rightarrow> u16" where
  "ntohs x = (push_bit 8 (x AND 0xff)) OR (drop_bit 8 (x AND 0xff00))"

definition ntohl :: "u32 \<Rightarrow> u32" where
  "ntohl x = push_bit 24 (x AND 0xff) OR push_bit 8 (x AND 0xff00) OR
     drop_bit 8 (x AND 0xff0000) OR drop_bit 24 (x AND 0xff000000)"

section \<open>The fields of a connection\<close>

definition InitialiseConnection :: "Connection \<Rightarrow> Connection" where
  "InitialiseConnection c = c"

definition DestroyConnection :: "Connection \<Rightarrow> Connection" where
  "DestroyConnection c = c"

definition SetLocalNode :: "Connection \<Rightarrow> addr \<Rightarrow> Connection" where
  "SetLocalNode c node = c\<lparr>local_node := node\<rparr>"

definition SetRemoteNode :: "Connection \<Rightarrow> addr \<Rightarrow> Connection" where
  "SetRemoteNode c node = c\<lparr>remote_node := node\<rparr>"

text \<open>
  As many bytes as the address says it has are copied over the start of the buffer, which
  has room for TDI_ADDRESS_INFO_MAX; the length is not compared with it.
\<close>

definition SetNodeAddress :: "tdi_sizes \<Rightarrow> u8 list \<Rightarrow> u8 list \<Rightarrow> fault + u8 list" where
  "SetNodeAddress sz address_buffer address =
     (if length address < 2 then Inl OutOfBounds
      else let n = sizeof_TA_ADDRESS sz + unat (AddressLength address)
           in if length address < n \<or> TDI_ADDRESS_INFO_MAX sz < n then Inl OutOfBounds
              else Inr (take n address @ drop n address_buffer))"

definition SetLocalNodeAddress :: "tdi_sizes \<Rightarrow> Connection \<Rightarrow> u8 list \<Rightarrow> fault + Connection" where
  "SetLocalNodeAddress sz c address =
     fbind (SetNodeAddress sz (local_node_address c) address) (\<lambda>b. Inr (c\<lparr>local_node_address := b\<rparr>))"

definition SetRemoteNodeAddress :: "tdi_sizes \<Rightarrow> Connection \<Rightarrow> u8 list \<Rightarrow> fault + Connection" where
  "SetRemoteNodeAddress sz c address =
     fbind (SetNodeAddress sz (remote_node_address c) address) (\<lambda>b. Inr (c\<lparr>remote_node_address := b\<rparr>))"

section \<open>Addresses as text\<close>

text \<open>Decimal digits as ASCII codes, most significant first.\<close>

fun decimal :: "nat \<Rightarrow> u8 list" where
  "decimal n = (if n < 10 then [of_nat (48 + n)] else decimal (n div 10) @ [of_nat (48 + n mod 10)])"

declare decimal.simps [simp del]

text \<open>"0.0.0.0:-1"\<close>

definition no_address :: "u8 list" where
  "no_address = [48, 46, 48, 46, 48, 46, 48, 58, 45, 49]"

text \<open>The format "%d.%d.%d.%d:%u" of the four address bytes and the port.\<close>

definition ip_text :: "u8 list \<Rightarrow> u8 list" where
  "ip_text a = decimal (unat (a ! 6)) @ [46] @ decimal (unat (a ! 7)) @ [46] @
     decimal (unat (a ! 8)) @ [46] @ decimal (unat (a ! 9)) @ [58] @ decimal (unat (ntohs (le16 a 4)))"

text \<open>The counted string functions: the text and a NUL, cut to the buffer.\<close>

definition cch_write :: "u8 list \<Rightarrow> u8 list \<Rightarrow> u8 list" where
  "cch_write buffer s =
     (if buffer = [] then []
      else let t = take (length buffer - 1) s @ [0] in t @ drop (length t) buffer)"

text \<open>An address that is not an IP address leaves the buffer as it is.\<close>

definition AddressToString :: "u8 list option \<Rightarrow> u8 list \<Rightarrow> fault + u8 list" where
  "AddressToString address buffer =
     (case address of None \<Rightarrow> Inr (cch_write buffer no_address)
      | Some a \<Rightarrow>
          if length a < 4 then Inl OutOfBounds
          else if AddressType a = TDI_ADDRESS_TYPE_IP then
            (if length a < 10 then Inl OutOfBounds else Inr (cch_write buffer (ip_text a)))
          else Inr buffer)"

text \<open>What is printed; the 256 bytes of the local buffer start as whatever the stack holds.\<close>

definition PrintAddress :: "u8 list \<Rightarrow> u8 list option \<Rightarrow> fault + u8 list" where
  "PrintAddress stack address = AddressToString address stack"

text \<open>The length of a NUL-terminated string, when there is a NUL in the buffer.\<close>

fun strlen :: "u8 list \<Rightarrow> nat option" where
  "strlen [] = None"
| "strlen (c # cs) = (if c = 0 then Some 0 else map_option Suc (strlen cs))"

section \<open>The query for the local address\<close>

text \<open>
  What the kernel and the transport driver answer: whether the context, the IRP and the MDL
  are granted, whether the call runs at DISPATCH_LEVEL or below, whether the driver answers
  pending, and the status and the TDI_ADDRESS_INFO it completes the query with.
\<close>

record local_query =
  q_context :: bool
  q_irp :: bool
  q_mdl :: bool
  q_low_irql :: bool
  q_pending :: bool
  q_status :: NTSTATUS
  q_info :: "u8 list"

datatype query_call = AllocContext | AllocIrp | AllocMdl | CallDriver | WaitForIrp | FreeContext | FreeMdl | FreeIrp

text \<open>The completion: the first address of the answer starts at offset 8.\<close>

definition GetLocalAddressComplete ::
    "tdi_sizes \<Rightarrow> Connection \<Rightarrow> local_query \<Rightarrow> fault + Connection \<times> query_call list \<times> NTSTATUS" where
  "GetLocalAddressComplete sz c q =
     fbind (if q_status q = STATUS_SUCCESS then SetLocalNodeAddress sz c (drop 8 (q_info q)) else Inr c)
       (\<lambda>c'. Inr (c', [FreeContext, FreeMdl, FreeIrp], STATUS_MORE_PROCESSING_REQUIRED))"

text \<open>
  Above DISPATCH_LEVEL a pending query is not waited for: its completion runs later.
\<close>

definition GetLocalAddress ::
    "tdi_sizes \<Rightarrow> Connection \<Rightarrow> addr \<Rightarrow> local_query \<Rightarrow> fault + Connection \<times> query_call list" where
  "GetLocalAddress sz c device_object q =
     (if \<not> q_context q then Inr (c, [])
      else if device_object = NULL then Inl NullDeref
      else if \<not> q_irp q then Inr (c, [AllocContext])
      else if \<not> q_mdl q then Inr (c, [AllocContext, AllocIrp, FreeIrp])
      else let waits = q_low_irql q \<and> q_pending q
           in if q_pending q \<and> \<not> waits then Inr (c, [AllocContext, AllocIrp, AllocMdl, CallDriver])
              else fbind (GetLocalAddressComplete sz c q) (\<lambda>(c', calls, _).
                     Inr (c', [AllocContext, AllocIrp, AllocMdl, CallDriver] @ (if waits then [WaitForIrp] else []) @ calls)))"

section \<open>Lemmas\<close>

lemma all_states_complete: "st \<in> set all_states"
  by (cases st) (simp_all add: all_states_def)

lemma state_code_inj: "state_code s = state_code t \<Longrightarrow> s = t"
  by (cases s; cases t) (simp_all add: state_code_def all_states_def)

lemma byte_masks: "(0xff :: u16) = mask 8" "(0xff00 :: u16) = push_bit 8 (mask 8)"
  by (simp_all add: mask_eq_exp_minus_1)

lemma ntohs_involutive: "ntohs (ntohs x) = x"
  unfolding ntohs_def byte_masks by (rule bit_word_eqI) (auto simp: bit_simps)

lemma cch_write_length [simp]: "length (cch_write buffer s) = length buffer"
  by (cases buffer) (simp_all add: cch_write_def Let_def)

lemma strlen_text: "0 \<notin> set s \<Longrightarrow> strlen (s @ 0 # r) = Some (length s)"
  by (induction s) auto

lemma strlen_cch_write:
  "length s < length buffer \<Longrightarrow> 0 \<notin> set s \<Longrightarrow>
     strlen (cch_write buffer s) = Some (length s) \<and> take (Suc (length s)) (cch_write buffer s) = s @ [0]"
  by (auto simp: cch_write_def Let_def strlen_text)

section \<open>Decimal text\<close>

definition digits_value :: "u8 list \<Rightarrow> nat" where
  "digits_value ds = foldl (\<lambda>n d. 10 * n + (unat d - 48)) 0 ds"

lemma digits_value_snoc [simp]: "digits_value (ds @ [d]) = 10 * digits_value ds + (unat d - 48)"
  by (simp add: digits_value_def)

lemma digits_value_Nil [simp]: "digits_value [] = 0"
  by (simp add: digits_value_def)

lemma unat_digit: "n < 10 \<Longrightarrow> unat (of_nat (48 + n) :: u8) = 48 + n"
  by (simp add: unat_of_nat take_bit_nat_eq_self del: of_nat_add)

lemma digits_value_decimal: "digits_value (decimal n) = n"
proof (induction n rule: decimal.induct)
  case (1 n)
  show ?case
  proof (cases "n < 10")
    case True
    then have "digits_value [of_nat (48 + n)] = n"
      using digits_value_snoc[of "[]" "of_nat (48 + n)"] unat_digit[OF True] by (simp del: of_nat_add)
    with True show ?thesis by (simp add: decimal.simps del: of_nat_add)
  next
    case False
    have m: "unat (of_nat (48 + n mod 10) :: u8) = 48 + n mod 10" by (rule unat_digit) simp
    have "decimal n = decimal (n div 10) @ [of_nat (48 + n mod 10)]"
      using False by (subst decimal.simps) (simp del: of_nat_add)
    then have "digits_value (decimal n) = 10 * (n div 10) + n mod 10"
      using "1.IH"[OF False] by (simp only: digits_value_snoc m add_diff_cancel_left')
    then show ?thesis by simp
  qed
qed

lemma decimal_digits: "d \<in> set (decimal n) \<Longrightarrow> 48 \<le> unat d \<and> unat d < 58"
proof (induction n rule: decimal.induct)
  case (1 n)
  have "unat (of_nat (48 + n mod 10) :: u8) = 48 + n mod 10" by (rule unat_digit) simp
  moreover have "n < 10 \<Longrightarrow> n mod 10 = n" by simp
  ultimately show ?case using 1 unat_digit[of n] by (subst (asm) (2) decimal.simps) (auto split: if_splits simp del: of_nat_add)
qed

lemma decimal_inj: "decimal m = decimal n \<Longrightarrow> m = n"
  by (metis digits_value_decimal)

lemma decimal_length: "n < 10 ^ k \<Longrightarrow> 0 < k \<Longrightarrow> length (decimal n) \<le> k"
proof (induction k arbitrary: n)
  case (Suc k)
  show ?case
  proof (cases "n < 10")
    case True
    then show ?thesis by (simp add: decimal.simps)
  next
    case False
    with Suc.prems have "k \<noteq> 0" by (cases k) auto
    moreover have "n div 10 < 10 ^ k" using Suc.prems by (simp add: less_mult_imp_div_less mult.commute)
    ultimately have "length (decimal (n div 10)) \<le> k" using Suc.IH by simp
    with False show ?thesis by (subst decimal.simps) simp
  qed
qed simp

lemma decimal_sep:
  assumes "decimal m @ [c] @ xs = decimal n @ [c] @ ys" "unat c < 48 \<or> 58 \<le> unat c"
  shows "m = n \<and> xs = ys"
proof -
  have t: "takeWhile (\<lambda>d. d \<noteq> c) (decimal k @ [c] @ zs) = decimal k" for k zs
    using decimal_digits[of _ k] assms(2) by (subst takeWhile_append2) fastforce+
  have "decimal m = decimal n" using arg_cong[OF assms(1), of "takeWhile (\<lambda>d. d \<noteq> c)"] by (simp only: t)
  then show ?thesis using assms(1) decimal_inj by auto
qed

lemma ip_text_inj:
  assumes "ip_text a = ip_text b"
  shows "a ! 6 = b ! 6 \<and> a ! 7 = b ! 7 \<and> a ! 8 = b ! 8 \<and> a ! 9 = b ! 9 \<and> le16 a 4 = le16 b 4"
proof -
  note eq = assms[unfolded ip_text_def]
  have s: "unat (46 :: u8) < 48 \<or> 58 \<le> unat (46 :: u8)" "unat (58 :: u8) < 48 \<or> 58 \<le> unat (58 :: u8)" by simp_all
  from decimal_sep[OF eq s(1)] have 1: "unat (a ! 6) = unat (b ! 6)" and eq1: "decimal (unat (a ! 7)) @ [46] @
     decimal (unat (a ! 8)) @ [46] @ decimal (unat (a ! 9)) @ [58] @ decimal (unat (ntohs (le16 a 4))) =
     decimal (unat (b ! 7)) @ [46] @
     decimal (unat (b ! 8)) @ [46] @ decimal (unat (b ! 9)) @ [58] @ decimal (unat (ntohs (le16 b 4)))" by blast+
  from decimal_sep[OF eq1 s(1)] have 2: "unat (a ! 7) = unat (b ! 7)" and eq2:
     "decimal (unat (a ! 8)) @ [46] @ decimal (unat (a ! 9)) @ [58] @ decimal (unat (ntohs (le16 a 4))) =
     decimal (unat (b ! 8)) @ [46] @ decimal (unat (b ! 9)) @ [58] @ decimal (unat (ntohs (le16 b 4)))" by blast+
  from decimal_sep[OF eq2 s(1)] have 3: "unat (a ! 8) = unat (b ! 8)" and eq3:
     "decimal (unat (a ! 9)) @ [58] @ decimal (unat (ntohs (le16 a 4))) =
     decimal (unat (b ! 9)) @ [58] @ decimal (unat (ntohs (le16 b 4)))" by blast+
  from decimal_sep[OF eq3 s(2)] have 4: "unat (a ! 9) = unat (b ! 9)" and
    "decimal (unat (ntohs (le16 a 4))) = decimal (unat (ntohs (le16 b 4)))" by blast+
  then have "ntohs (le16 a 4) = ntohs (le16 b 4)" by (metis decimal_inj unsigned_word_eqI)
  then have "le16 a 4 = le16 b 4" by (metis ntohs_involutive)
  with 1 2 3 4 show ?thesis by (auto intro: unsigned_word_eqI)
qed

lemma ip_text_NUL: "0 \<notin> set (ip_text a)"
  using decimal_digits[of 0] by (auto simp: ip_text_def)

lemma ip_text_length: "length (ip_text a) \<le> 21"
proof -
  have b: "length (decimal (unat (w :: u8))) \<le> 3" for w
    by (intro decimal_length) (rule order.strict_trans2[OF unsigned_less], simp_all)
  have p: "length (decimal (unat (w :: u16))) \<le> 5" for w
    by (intro decimal_length) (rule order.strict_trans2[OF unsigned_less], simp_all)
  show ?thesis using b[of "a ! 6"] b[of "a ! 7"] b[of "a ! 8"] b[of "a ! 9"] p[of "ntohs (le16 a 4)"]
    by (simp add: ip_text_def)
qed

section \<open>Properties\<close>

text \<open>
  The text of an IP address is complete: it always fits a buffer of 22 bytes with its
  NUL, and two addresses with the same text have the same four address bytes and the same
  port, whatever the buffers held before.
\<close>

theorem AddressToString_faithful:
  assumes "10 \<le> length a" "10 \<le> length b"
    and "AddressType a = TDI_ADDRESS_TYPE_IP" "AddressType b = TDI_ADDRESS_TYPE_IP"
    and "22 \<le> length buf" "22 \<le> length buf'"
    and "AddressToString (Some a) buf = Inr s" "AddressToString (Some b) buf' = Inr t"
  shows "\<exists>n m. strlen s = Some n \<and> strlen t = Some m \<and> n \<le> 21 \<and>
     (take n s = take m t \<longrightarrow>
        a ! 6 = b ! 6 \<and> a ! 7 = b ! 7 \<and> a ! 8 = b ! 8 \<and> a ! 9 = b ! 9 \<and> le16 a 4 = le16 b 4)"
proof -
  have s: "s = cch_write buf (ip_text a)" and t: "t = cch_write buf' (ip_text b)"
    using assms by (auto simp: AddressToString_def)
  have l: "length (ip_text a) < length buf" "length (ip_text b) < length buf'"
    using ip_text_length[of a] ip_text_length[of b] assms(5,6) by auto
  have ps: "strlen s = Some (length (ip_text a))" "take (length (ip_text a)) s = ip_text a"
    using strlen_cch_write[OF l(1) ip_text_NUL] s
    by (simp, metis append_eq_conv_conj length_append_singleton lessI less_imp_le_nat min.absorb1 take_take)
  have pt: "strlen t = Some (length (ip_text b))" "take (length (ip_text b)) t = ip_text b"
    using strlen_cch_write[OF l(2) ip_text_NUL] t
    by (simp, metis append_eq_conv_conj length_append_singleton lessI less_imp_le_nat min.absorb1 take_take)
  show ?thesis using ps pt ip_text_length[of a] ip_text_inj[of a b] by auto
qed

theorem AddressToString_faithful_witness:
  "\<exists>s. AddressToString (Some [14, 0, 2, 0, 0, 80, 10, 0, 0, 1]) (replicate 22 7) = Inr s \<and> strlen s = Some 11"
proof -
  let ?a = "[14, 0, 2, 0, 0, 80, 10, 0, 0, 1] :: u8 list"
  obtain s where s: "AddressToString (Some ?a) (replicate 22 7) = Inr s" "s = cch_write (replicate 22 7) (ip_text ?a)"
    by (simp add: AddressToString_def AddressType_def le16_def)
  from AddressToString_faithful[OF _ _ _ _ _ _ s(1) s(1)]
  obtain n where "strlen s = Some n" "n \<le> 21" by (auto simp: AddressType_def le16_def)
  moreover have "length (ip_text ?a) = 11"
    by (simp add: ip_text_def le16_def ntohs_def decimal.simps)
  ultimately show ?thesis using s strlen_cch_write[of "ip_text ?a" "replicate 22 7"] ip_text_NUL by auto
qed

end
