(* ===== verification/SharedBuffer.thy ===== *)
theory SharedBuffer
  imports Prelude
begin

text \<open>
  Common/SharedBuffer.c: a block of locked pages mapped into kernel space and, once, into a
  user process. The answers of the memory manager are arguments: the MDL it allocates (NULL
  when it cannot), the address a mapping gets, None when the mapping raises an exception.
  The calls that give memory back are listed in order.
\<close>

record SharedBuffer =
  u_buffer :: addr
  k_buffer :: addr
  mdl :: addr
  u_process_id :: u32

datatype sb_call =
    MmUnmapLockedPages addr addr
  | MmFreePagesFromMdl addr
  | ExFreePool addr

definition DestroySharedBuffer :: "SharedBuffer \<Rightarrow> sb_call list" where
  "DestroySharedBuffer sb =
     (if u_buffer sb \<noteq> NULL then [MmUnmapLockedPages (u_buffer sb) (mdl sb)] else []) @
     (if k_buffer sb \<noteq> NULL then [MmUnmapLockedPages (k_buffer sb) (mdl sb)] else []) @
     [MmFreePagesFromMdl (mdl sb), ExFreePool (mdl sb)]"

definition InitialiseSharedBuffer ::
    "SharedBuffer \<Rightarrow> addr \<Rightarrow> addr option \<Rightarrow> bool \<times> SharedBuffer \<times> sb_call list" where
  "InitialiseSharedBuffer sb mdl_answer map_answer =
     (let sb1 = sb\<lparr>mdl := mdl_answer\<rparr>
      in if mdl sb1 = NULL then (False, sb1, [])
         else (let sb2 = (case map_answer of Some a \<Rightarrow> sb1\<lparr>k_buffer := a\<rparr> | None \<Rightarrow> sb1)
               in if k_buffer sb2 = NULL then (False, sb2, DestroySharedBuffer sb2)
                  else (True, sb2, [])))"

definition MapUserSpaceSharedBuffer ::
    "SharedBuffer \<Rightarrow> u32 \<Rightarrow> addr option \<Rightarrow> bool \<times> SharedBuffer" where
  "MapUserSpaceSharedBuffer sb current_process map_answer =
     (if u_buffer sb \<noteq> NULL then (False, sb)
      else (let sb1 = sb\<lparr>u_process_id := current_process\<rparr>
            in case map_answer of None \<Rightarrow> (False, sb1)
               | Some a \<Rightarrow> (True, sb1\<lparr>u_buffer := a\<rparr>)))"

section \<open>What the mappings leave\<close>

lemma InitialiseSharedBuffer_cases:
  "InitialiseSharedBuffer sb m k = (ok, sb', calls) \<Longrightarrow>
     (ok \<longrightarrow> calls = [] \<and> mdl sb' = m \<and> m \<noteq> NULL \<and> k_buffer sb' \<noteq> NULL \<and> u_buffer sb' = u_buffer sb) \<and>
     (\<not> ok \<and> m \<noteq> NULL \<and> u_buffer sb = NULL \<longrightarrow> calls = [MmFreePagesFromMdl m, ExFreePool m]) \<and>
     (m = NULL \<longrightarrow> \<not> ok \<and> calls = [])"
  by (auto simp: InitialiseSharedBuffer_def DestroySharedBuffer_def Let_def split: if_splits option.splits)

lemma MapUserSpaceSharedBuffer_once:
  "MapUserSpaceSharedBuffer sb p (Some a) = (True, sb') \<Longrightarrow> a \<noteq> NULL \<Longrightarrow>
     MapUserSpaceSharedBuffer sb' q b = (False, sb')"
  by (auto simp: MapUserSpaceSharedBuffer_def Let_def split: if_splits)

text \<open>A mapping that fails with NULL instead of an exception is reported as a success.\<close>

lemma MapUserSpaceSharedBuffer_NULL:
  "u_buffer sb = NULL \<Longrightarrow> fst (MapUserSpaceSharedBuffer sb p (Some NULL)) \<and>
     u_buffer (snd (MapUserSpaceSharedBuffer sb p (Some NULL))) = NULL"
  by (simp add: MapUserSpaceSharedBuffer_def)

end
