(* ===== verification/Linked.thy ===== *)
theory Linked
  imports Prelude
begin

text \<open>
  Null-terminated singly-linked lists in a heap, seen through a successor function: what
  the event lists, the data lists of an event and the handler lists have in common.
\<close>

fun lseg :: "(u32 \<rightharpoonup> u32) \<Rightarrow> u32 \<Rightarrow> u32 list \<Rightarrow> u32 \<Rightarrow> bool" where
  "lseg N p [] q \<longleftrightarrow> p = q"
| "lseg N p (a # xs) q \<longleftrightarrow> p = a \<and> a \<noteq> NULL \<and> (\<exists>n. N a = Some n \<and> lseg N n xs q)"

text \<open>Following the list; None when it runs into memory that is not there or never ends.\<close>

partial_function (option) walk :: "(u32 \<rightharpoonup> u32) \<Rightarrow> u32 \<Rightarrow> u32 list option" where
  "walk N p =
     (if p = NULL then Some []
      else case N p of None \<Rightarrow> None
           | Some n \<Rightarrow> Option.bind (walk N n) (\<lambda>xs. Some (p # xs)))"

lemma walk_lseg: "lseg N p xs NULL \<Longrightarrow> walk N p = Some xs"
  by (induction xs arbitrary: p) (auto simp: walk.simps)

lemma lseg_append: "lseg N p (xs @ ys) q \<longleftrightarrow> (\<exists>m. lseg N p xs m \<and> lseg N m ys q)"
  by (induction xs arbitrary: p) auto

lemma lseg_cong: "lseg N p xs q \<Longrightarrow> (\<And>x. x \<in> set xs \<Longrightarrow> N' x = N x) \<Longrightarrow> lseg N' p xs q"
  by (induction xs arbitrary: p) auto

lemma lseg_NULL: "lseg N p xs NULL \<Longrightarrow> p = NULL \<longleftrightarrow> xs = []"
  by (cases xs) auto

lemma lseg_not_NULL: "lseg N p xs q \<Longrightarrow> NULL \<notin> set xs"
  by (induction xs arbitrary: p) auto

lemma lseg_dom: "lseg N p xs q \<Longrightarrow> set xs \<subseteq> dom N"
  by (induction xs arbitrary: p) auto

lemma lseg_acyclic:
  assumes "lseg N a (a # xs) NULL" shows "a \<notin> set xs"
proof
  assume "a \<in> set xs"
  then obtain us vs where eq: "xs = us @ a # vs" by (meson split_list)
  with assms have "lseg N a (a # vs) NULL" by (auto simp: lseg_append)
  then have "walk N a = Some (a # vs)" by (rule walk_lseg)
  moreover have "walk N a = Some (a # xs)" using assms by (rule walk_lseg)
  ultimately show False using eq by auto
qed

lemma lseg_distinct: "lseg N p xs NULL \<Longrightarrow> distinct xs"
proof (induction xs arbitrary: p)
  case (Cons a xs)
  then have "lseg N a (a # xs) NULL" by simp
  then have "a \<notin> set xs" by (rule lseg_acyclic)
  with Cons show ?case by auto
qed simp

text \<open>A new cell behind the last one.\<close>

lemma lseg_snocI:
  assumes "lseg N h xs NULL" "N' a = Some NULL" "a \<noteq> NULL"
    and "xs \<noteq> [] \<Longrightarrow> N' (last xs) = Some a" "\<And>x. x \<in> set (butlast xs) \<Longrightarrow> N' x = N x"
  shows "lseg N' (if h = NULL then a else h) (xs @ [a]) NULL"
proof (cases xs rule: rev_cases)
  case Nil
  with assms show ?thesis by simp
next
  case (snoc ys y)
  with assms(1) obtain "lseg N h ys y" "y \<noteq> NULL" by (auto simp: lseg_append)
  moreover from this have "lseg N' h ys y" using assms(5) snoc by (auto intro: lseg_cong)
  moreover have "h \<noteq> NULL" using assms(1) snoc by (cases ys) auto
  ultimately show ?thesis using assms snoc by (auto simp: lseg_append)
qed

definition last_or_NULL :: "u32 list \<Rightarrow> u32" where
  "last_or_NULL xs = (if xs = [] then NULL else last xs)"

lemma last_or_NULL_simps [simp]:
  "last_or_NULL [] = NULL" "last_or_NULL (xs @ [a]) = a"
  by (simp_all add: last_or_NULL_def)

lemma last_or_NULL_iff: "NULL \<notin> set xs \<Longrightarrow> last_or_NULL xs = NULL \<longleftrightarrow> xs = []"
  by (cases xs rule: rev_cases) auto

end
