(* ===== verification/EventList.thy ===== *)
theory EventList
  imports SharedBuffer Linked
begin

text \<open>
  Common/EventList.c: the event list of the network monitor, kept whole in a shared buffer.
  A bitmap manages the 16-byte blocks of the buffer; events and data containers are typed
  objects at their addresses; the links between them are offsets from the start of the list
  so that kernel and user space can follow them. RtlFindClearBitsAndSet is the kernel's: the
  search it makes is the argument \<open>search\<close>, which answers a position or 0xFFFFFFFF.
\<close>

definition BLOCK_SIZE :: nat where "BLOCK_SIZE = 16"
definition BUFFER_SIZE :: nat where "BUFFER_SIZE = 512 * 1024"
definition BUFFER_BITMAP_SIZE :: nat where "BUFFER_BITMAP_SIZE = BUFFER_SIZE div (4 * BLOCK_SIZE * 8)"

text \<open>The bits of the bitmap, and the offset of the buffer in an EventList (head, tail,
  RTL_BITMAP of two words, lock, hint, bitmap words).\<close>

definition BITMAP_BITS :: nat where "BITMAP_BITS = BUFFER_BITMAP_SIZE * 32"
definition BUFFER_OFFSET :: nat where "BUFFER_OFFSET = 4 + 4 + 8 + 4 + 4 + BUFFER_BITMAP_SIZE * 4"

lemma sizes [simp]: "BITMAP_BITS = 32768" "BUFFER_OFFSET = 4120"
  by (simp_all add: BITMAP_BITS_def BUFFER_OFFSET_def BUFFER_BITMAP_SIZE_def BUFFER_SIZE_def BLOCK_SIZE_def)

record DataContainer =
  dc_next :: u32
  dc_key :: u32
  dc_type :: u32
  dc_size :: u32
  dc_data :: "u8 option list"

record Event =
  ev_next :: u32
  ev_previous :: u32
  ev_ready :: u32
  ev_head :: u32
  ev_tail :: u32

record EventList =
  el_head :: u32
  el_tail :: u32
  bitmap :: "nat \<Rightarrow> bool"
  bitmap_hint_index :: u32
  el_events :: "addr \<rightharpoonup> Event"
  el_containers :: "addr \<rightharpoonup> DataContainer"

record SharedEventList =
  event_list :: addr
  el :: EventList
  semaphore :: addr
  semaphore_count :: nat
  shared_buffer :: SharedBuffer

type_synonym find_bits = "(nat \<Rightarrow> bool) \<Rightarrow> u32 \<Rightarrow> u32 \<Rightarrow> u32"

definition ALIGN_UP_Block :: "u32 \<Rightarrow> u32" where
  "ALIGN_UP_Block len = (len + 15) AND NOT 15"

definition ADDRESS_TO_OFFSET :: "addr \<Rightarrow> addr \<Rightarrow> u32" where
  "ADDRESS_TO_OFFSET base address = address - base"

definition OFFSET_TO_POINTER :: "addr \<Rightarrow> u32 \<Rightarrow> addr" where
  "OFFSET_TO_POINTER base off = off + base"

lemma OFFSET_TO_POINTER_inverse [simp]:
  "OFFSET_TO_POINTER base (ADDRESS_TO_OFFSET base a) = a"
  "ADDRESS_TO_OFFSET base (OFFSET_TO_POINTER base off) = off"
  by (simp_all add: OFFSET_TO_POINTER_def ADDRESS_TO_OFFSET_def)

lemma OFFSET_TO_POINTER_eq [simp]: "OFFSET_TO_POINTER base x = OFFSET_TO_POINTER base y \<longleftrightarrow> x = y"
  by (simp add: OFFSET_TO_POINTER_def)

section \<open>The operations\<close>

definition InitialiseBufferManager :: "EventList \<Rightarrow> EventList" where
  "InitialiseBufferManager l =
     l\<lparr>bitmap := \<lambda>_. False, bitmap_hint_index := 0, el_events := Map.empty, el_containers := Map.empty\<rparr>"

definition ReserveSpace :: "find_bits \<Rightarrow> addr \<Rightarrow> EventList \<Rightarrow> u32 \<Rightarrow> addr \<times> EventList" where
  "ReserveSpace search base l sz =
     (let bits = ALIGN_UP_Block sz div 16;
          position = search (bitmap l) bits (bitmap_hint_index l)
      in if position \<noteq> 0xFFFFFFFF then
           (base + of_nat BUFFER_OFFSET + position * 16,
            l\<lparr>bitmap := (\<lambda>i. bitmap l i \<or> unat position \<le> i \<and> i < unat position + unat bits),
              bitmap_hint_index := position\<rparr>)
         else (NULL, l))"

text \<open>The first two words of the fresh pages are what the memory manager left in them.\<close>

definition InitialiseSharedEventList ::
    "SharedEventList \<Rightarrow> addr \<Rightarrow> addr option \<Rightarrow> u32 \<Rightarrow> u32 \<Rightarrow> bool \<times> SharedEventList \<times> sb_call list" where
  "InitialiseSharedEventList s mdl_answer map_answer head0 tail0 =
     (let (success, sb, calls) = InitialiseSharedBuffer (shared_buffer s) mdl_answer map_answer;
          s1 = s\<lparr>shared_buffer := sb\<rparr>
      in if \<not> success then (False, s1, calls)
         else (True,
               s1\<lparr>semaphore := NULL, event_list := k_buffer sb,
                  el := InitialiseBufferManager ((el s1)\<lparr>el_head := head0, el_tail := tail0\<rparr>)\<rparr>,
               calls))"

definition DestroySharedEventList :: "SharedEventList \<Rightarrow> sb_call list \<times> addr option \<times> SharedEventList" where
  "DestroySharedEventList s =
     (DestroySharedBuffer (shared_buffer s),
      (if semaphore s \<noteq> NULL then Some (semaphore s) else None),
      s\<lparr>event_list := NULL, semaphore := NULL,
        shared_buffer := \<lparr>u_buffer = NULL, k_buffer = NULL, mdl = NULL, u_process_id = 0\<rparr>\<rparr>)"

text \<open>
  The request that hands the list to a process: what the caller passes, and what the kernel
  answers (the current process, the mapping, whether the probes raise, the semaphore object
  stored for the handle).
\<close>

record ioctl_request =
  UserBuffer :: addr
  Type3InputBuffer :: addr
  InputBufferLength :: u32
  OutputBufferLength :: u32

record ioctl_answers =
  current_process :: u32
  user_mapping :: "addr option"
  probes_ok :: bool
  semaphore_object :: addr

text \<open>The result: the status, the list, and on success what is copied to the caller.\<close>

definition GetSharedEventListIoctlHandler ::
    "SharedEventList \<Rightarrow> ioctl_request \<Rightarrow> ioctl_answers \<Rightarrow> NTSTATUS \<times> SharedEventList \<times> (addr \<times> u32) option" where
  "GetSharedEventListIoctlHandler s req ans =
     (let (mapped, sb) = MapUserSpaceSharedBuffer (shared_buffer s) (current_process ans) (user_mapping ans);
          s1 = s\<lparr>shared_buffer := sb\<rparr>
      in if \<not> mapped then (STATUS_SEVERITY_ERROR, s1, None)
         else if InputBufferLength req < 4 then (STATUS_BUFFER_TOO_SMALL, s1, None)
         else if OutputBufferLength req < 4 then (STATUS_BUFFER_TOO_SMALL, s1, None)
         else if \<not> probes_ok ans then (STATUS_SEVERITY_ERROR, s1, None)
         else if Type3InputBuffer req = NULL then (STATUS_BUFFER_TOO_SMALL, s1, None)
         else if UserBuffer req = NULL then (STATUS_BUFFER_TOO_SMALL, s1, None)
         else (STATUS_SUCCESS, s1\<lparr>semaphore := semaphore_object ans\<rparr>, Some (UserBuffer req, u_buffer sb)))"

definition sizeof_Event :: u32 where "sizeof_Event = 20"
definition sizeof_DataContainer :: u32 where "sizeof_DataContainer = 16"

definition CreateEvent :: "find_bits \<Rightarrow> SharedEventList \<Rightarrow> addr \<times> SharedEventList" where
  "CreateEvent search s =
     (let (event, l) = ReserveSpace search (event_list s) (el s) sizeof_Event
      in if event = NULL then (NULL, s\<lparr>el := l\<rparr>)
         else (event, s\<lparr>el := l\<lparr>el_events := (el_events l)(event \<mapsto>
                 \<lparr>ev_next = 0, ev_previous = 0, ev_ready = 0, ev_head = 0, ev_tail = 0\<rparr>)\<rparr>\<rparr>))"

text \<open>The event behind the tail of the list; its own cell first, then the old tail's.\<close>

definition link_event :: "addr \<Rightarrow> EventList \<Rightarrow> addr \<Rightarrow> Event \<Rightarrow> fault + EventList" where
  "link_event base l event e =
     (let off = ADDRESS_TO_OFFSET base event;
          evs = (el_events l)(event \<mapsto> e\<lparr>ev_ready := 1, ev_previous := el_tail l\<rparr>);
          h = (if el_head l = 0 then off else el_head l)
      in if el_tail l \<noteq> 0 then
           fbind (deref evs (OFFSET_TO_POINTER base (el_tail l))) (\<lambda>t.
             Inr (l\<lparr>el_events := evs(OFFSET_TO_POINTER base (el_tail l) \<mapsto> t\<lparr>ev_next := off\<rparr>),
                    el_head := h, el_tail := off\<rparr>))
         else Inr (l\<lparr>el_events := evs, el_head := h, el_tail := off\<rparr>))"

definition InsertEvent :: "SharedEventList \<Rightarrow> addr \<Rightarrow> fault + SharedEventList" where
  "InsertEvent s event =
     fbind (deref (el_events (el s)) event) (\<lambda>e.
     fbind (link_event (event_list s) (el s) event e) (\<lambda>l.
       Inr (s\<lparr>el := l,
              semaphore_count := (if semaphore s \<noteq> NULL then Suc (semaphore_count s) else semaphore_count s)\<rparr>)))"

text \<open>
  The bytes of a container: copied from the source buffer, which must hold as many as are
  copied, or left as they are when no data is given.
\<close>

definition container_bytes :: "u32 \<Rightarrow> u8 list option \<Rightarrow> fault + u8 option list" where
  "container_bytes sz data =
     (case data of None \<Rightarrow> Inr (replicate (unat sz) None)
      | Some bs \<Rightarrow> if length bs < unat sz then Inl OutOfBounds else Inr (map Some (take (unat sz) bs)))"

text \<open>The container behind the tail of the event's data.\<close>

definition link_container :: "addr \<Rightarrow> EventList \<Rightarrow> addr \<Rightarrow> Event \<Rightarrow> addr \<Rightarrow> fault + EventList" where
  "link_container base l event e dc =
     (let off = ADDRESS_TO_OFFSET base dc;
          l1 = l\<lparr>el_events := (el_events l)(event \<mapsto>
                   e\<lparr>ev_head := (if ev_head e = 0 then off else ev_head e), ev_tail := off\<rparr>)\<rparr>
      in if ev_tail e \<noteq> 0 then
           fbind (deref (el_containers l) (OFFSET_TO_POINTER base (ev_tail e))) (\<lambda>t.
             Inr (l1\<lparr>el_containers := (el_containers l)(OFFSET_TO_POINTER base (ev_tail e) \<mapsto> t\<lparr>dc_next := off\<rparr>)\<rparr>))
         else Inr l1)"

text \<open>
  A container whose bytes do not fit in the blocks reserved for it (the sum of the sizes can
  wrap) would overwrite its neighbours: out of bounds.
\<close>

definition AddEventData ::
    "find_bits \<Rightarrow> SharedEventList \<Rightarrow> addr \<Rightarrow> u32 \<Rightarrow> u32 \<Rightarrow> u32 \<Rightarrow> u8 list option \<Rightarrow>
     fault + addr \<times> SharedEventList" where
  "AddEventData search s event key type sz data =
     (let (dc, l) = ReserveSpace search (event_list s) (el s) (sizeof_DataContainer + sz)
      in if dc = NULL then Inr (NULL, s\<lparr>el := l\<rparr>)
         else if unat (ALIGN_UP_Block (sizeof_DataContainer + sz)) < 16 + unat sz then Inl OutOfBounds
         else fbind (container_bytes sz data) (\<lambda>bytes.
                let l1 = l\<lparr>el_containers := (el_containers l)(dc \<mapsto>
                       \<lparr>dc_next = 0, dc_key = key, dc_type = type, dc_size = sz, dc_data = bytes\<rparr>)\<rparr>
                in fbind (deref (el_events l1) event) (\<lambda>e.
                   fbind (link_container (event_list s) l1 event e dc) (\<lambda>l2.
                     Inr (dc, s\<lparr>el := l2\<rparr>)))))"

definition ReserveEventData ::
    "find_bits \<Rightarrow> SharedEventList \<Rightarrow> addr \<Rightarrow> u32 \<Rightarrow> u32 \<Rightarrow> u32 \<Rightarrow> fault + addr \<times> SharedEventList" where
  "ReserveEventData search s event key type sz = AddEventData search s event key type sz None"

section \<open>Reservations\<close>

text \<open>The kernel's promise: no run found, or a run of clear bits inside the bitmap.\<close>

definition find_bits_ok :: "find_bits \<Rightarrow> bool" where
  "find_bits_ok search \<longleftrightarrow> (\<forall>bm n h. search bm n h \<noteq> 0xFFFFFFFF \<longrightarrow>
     unat (search bm n h) + unat n \<le> BITMAP_BITS \<and>
     (\<forall>i. unat (search bm n h) \<le> i \<and> i < unat (search bm n h) + unat n \<longrightarrow> \<not> bm i))"

text \<open>The list lies in the address space, above NULL.\<close>

definition base_ok :: "addr \<Rightarrow> bool" where
  "base_ok base \<longleftrightarrow> base \<noteq> NULL \<and> unat base + BUFFER_OFFSET + BUFFER_SIZE \<le> 2 ^ 32"

definition block_addr :: "addr \<Rightarrow> nat \<Rightarrow> addr" where
  "block_addr base p = base + of_nat (BUFFER_OFFSET + 16 * p)"

definition blk :: "addr \<Rightarrow> addr \<Rightarrow> nat" where
  "blk base a = (unat (a - base) - BUFFER_OFFSET) div 16"

definition run :: "addr \<Rightarrow> addr \<Rightarrow> nat \<Rightarrow> nat set" where
  "run base a sz = {blk base a ..< blk base a + (sz + 15) div 16}"

lemma unat_block_offset: "p < 32768 \<Longrightarrow> unat (of_nat (4120 + 16 * p) :: u32) = 4120 + 16 * p"
  by (simp add: unat_of_nat take_bit_nat_eq_self del: of_nat_add of_nat_mult)

lemma unat_block_addr_diff: "p < 32768 \<Longrightarrow> unat (block_addr base p - base) = 4120 + 16 * p"
  using unat_block_offset[of p] by (simp add: block_addr_def)

lemma blk_block_addr: "p < 32768 \<Longrightarrow> blk base (block_addr base p) = p"
  by (simp add: blk_def unat_block_addr_diff)

lemma block_addr_not_NULL:
  assumes "base_ok base" "p < 32768" shows "block_addr base p \<noteq> NULL"
proof
  assume "block_addr base p = NULL"
  then have "unat (base + of_nat (4120 + 16 * p)) = 0" by (simp add: block_addr_def)
  moreover have "unat (of_nat (4120 + 16 * p) :: u32) = 4120 + 16 * p"
    using assms(2) by (rule unat_block_offset)
  ultimately show False
    using assms unat_add_no_wrap[of base "of_nat (4120 + 16 * p)"] by (simp add: base_ok_def BUFFER_SIZE_def)
qed

lemma ALIGN_UP_Block_blocks:
  assumes "unat sz + 15 < 2 ^ 32"
  shows "unat (ALIGN_UP_Block sz) = 16 * ((unat sz + 15) div 16)"
    and "unat (ALIGN_UP_Block sz div 16) = (unat sz + 15) div 16"
proof -
  have u: "unat (sz + 15) = unat sz + 15" using assms unat_add_no_wrap[of sz 15] by simp
  have "ALIGN_UP_Block sz = (sz + 15) AND NOT (mask 4)"
    by (simp add: ALIGN_UP_Block_def mask_eq_exp_minus_1)
  then have "unat (ALIGN_UP_Block sz) = unat (push_bit 4 (drop_bit 4 (sz + 15)))"
    by (simp only: and_not_mask_shift)
  also have "\<dots> = 16 * ((unat sz + 15) div 16)"
    using assms u by (simp add: unat_drop_bit_eq drop_bit_eq_div push_bit_eq_mult unat_word_ariths)
  finally show r: "unat (ALIGN_UP_Block sz) = 16 * ((unat sz + 15) div 16)" .
  then show "unat (ALIGN_UP_Block sz div 16) = (unat sz + 15) div 16" by (simp add: unat_div)
qed

lemma ReserveSpace_cases:
  assumes "find_bits_ok search" "base_ok base" "0 < unat sz" "unat sz + 15 < 2 ^ 32"
    and "ReserveSpace search base l sz = (a, l')"
  shows "(a = NULL \<and> l' = l) \<or>
    (\<exists>p n. a = block_addr base p \<and> a \<noteq> NULL \<and> n = (unat sz + 15) div 16 \<and> 0 < n \<and> p + n \<le> 32768 \<and>
       (\<forall>i \<in> {p..<p + n}. \<not> bitmap l i) \<and>
       l' = l\<lparr>bitmap := (\<lambda>i. bitmap l i \<or> i \<in> {p..<p + n}), bitmap_hint_index := of_nat p\<rparr>)"
proof (cases "search (bitmap l) (ALIGN_UP_Block sz div 16) (bitmap_hint_index l) = 0xFFFFFFFF")
  case True
  with assms(5) show ?thesis by (simp add: ReserveSpace_def)
next
  case False
  let ?p = "unat (search (bitmap l) (ALIGN_UP_Block sz div 16) (bitmap_hint_index l))"
  have n: "unat (ALIGN_UP_Block sz div 16) = (unat sz + 15) div 16" "0 < (unat sz + 15) div 16"
    using ALIGN_UP_Block_blocks(2)[OF assms(4)] assms(3) by (auto simp: div_greater_zero_iff)
  have p: "?p + (unat sz + 15) div 16 \<le> 32768" "\<forall>i \<in> {?p..<?p + (unat sz + 15) div 16}. \<not> bitmap l i"
    using assms(1)[unfolded find_bits_ok_def, rule_format, OF False] n(1) by auto
  have a: "a = block_addr base ?p"
    using assms(5) False by (auto simp: ReserveSpace_def Let_def block_addr_def mult.commute)
  moreover have "a \<noteq> NULL" unfolding a using block_addr_not_NULL[OF assms(2)] p n(2) by simp
  moreover have "l' = l\<lparr>bitmap := (\<lambda>i. bitmap l i \<or> i \<in> {?p..<?p + (unat sz + 15) div 16}), bitmap_hint_index := of_nat ?p\<rparr>"
    using assms(5) False n(1) by (auto simp: ReserveSpace_def Let_def)
  ultimately show ?thesis using p n(2) by blast
qed

section \<open>The layout of the buffer\<close>

definition objs :: "EventList \<Rightarrow> addr set" where
  "objs l = dom (el_events l) \<union> dom (el_containers l)"

definition obj_size :: "EventList \<Rightarrow> addr \<Rightarrow> nat" where
  "obj_size l a = (case el_containers l a of Some c \<Rightarrow> 16 + unat (dc_size c) | None \<Rightarrow> 20)"

text \<open>
  Every object starts at a block boundary, lies in blocks that are inside the buffer and
  marked used, and shares no block with another object.
\<close>

definition layout :: "addr \<Rightarrow> EventList \<Rightarrow> bool" where
  "layout base l \<longleftrightarrow> dom (el_events l) \<inter> dom (el_containers l) = {} \<and>
     (\<forall>a \<in> objs l. (\<exists>p < 32768. a = block_addr base p) \<and>
        (\<forall>i \<in> run base a (obj_size l a). i < 32768 \<and> bitmap l i)) \<and>
     (\<forall>a \<in> objs l. \<forall>b \<in> objs l. a \<noteq> b \<longrightarrow> run base a (obj_size l a) \<inter> run base b (obj_size l b) = {})"

lemma layout_cong:
  assumes "layout base l" "dom (el_events l') = dom (el_events l)"
    "\<And>a. map_option dc_size (el_containers l' a) = map_option dc_size (el_containers l a)"
    "bitmap l' = bitmap l"
  shows "layout base l'"
proof -
  have d: "dom (el_containers l') = dom (el_containers l)"
    using assms(3) by (metis (no_types, opaque_lifting) domIff option.map_disc_iff subsetI subset_antisym)
  have "obj_size l' a = obj_size l a" for a
    using assms(3)[of a] by (auto simp: obj_size_def split: option.splits)
  then show ?thesis using assms(1) unfolding layout_def objs_def assms(2,4) d by simp
qed

lemma layout_addr:
  assumes "layout base l" "base_ok base" "a \<in> objs l"
  shows "a \<noteq> NULL" "ADDRESS_TO_OFFSET base a \<noteq> 0"
proof -
  obtain p where p: "p < 32768" "a = block_addr base p" using assms by (auto simp: layout_def)
  show "a \<noteq> NULL" using p assms(2) block_addr_not_NULL by simp
  have "unat (ADDRESS_TO_OFFSET base a) \<noteq> 0"
    unfolding ADDRESS_TO_OFFSET_def p(2) by (simp add: unat_block_addr_diff[OF p(1)])
  then show "ADDRESS_TO_OFFSET base a \<noteq> 0" by auto
qed

lemma layout_new:
  assumes "layout base l" "p + n \<le> 32768" "0 < n" "\<forall>i \<in> {p..<p + n}. \<not> bitmap l i"
    and "n = (sz + 15) div 16" "16 \<le> sz"
  shows "block_addr base p \<notin> objs l"
    and "sz = 20 \<Longrightarrow> bitmap l' = (\<lambda>i. bitmap l i \<or> i \<in> {p..<p + n}) \<Longrightarrow>
      el_events l' = (el_events l)(block_addr base p \<mapsto> e) \<Longrightarrow> el_containers l' = el_containers l \<Longrightarrow> layout base l'"
    and "sz = 16 + unat (dc_size c) \<Longrightarrow> bitmap l' = (\<lambda>i. bitmap l i \<or> i \<in> {p..<p + n}) \<Longrightarrow>
      el_events l' = el_events l \<Longrightarrow> el_containers l' = (el_containers l)(block_addr base p \<mapsto> c) \<Longrightarrow> layout base l'"
proof -
  let ?a = "block_addr base p"
  have b: "blk base ?a = p" using assms(2,3) by (simp add: blk_block_addr)
  then have run: "run base ?a sz = {p..<p + n}" by (simp add: run_def assms(5))
  have used: "i < 32768 \<and> bitmap l i" if "b \<in> objs l" "i \<in> run base b (obj_size l b)" for b i
    using assms(1) that by (auto simp: layout_def)
  have pos: "blk base b \<in> run base b (obj_size l b)" for b
    by (auto simp: run_def obj_size_def split: option.splits)
  show new: "?a \<notin> objs l"
  proof
    assume "?a \<in> objs l"
    then have "bitmap l (blk base ?a)" using used[OF _ pos] by blast
    then have "bitmap l p" by (simp only: b)
    with assms(3,4) show False by auto
  qed
  have disj: "run base b (obj_size l b) \<inter> {p..<p + n} = {}" if "b \<in> objs l" for b
    using used[OF that] assms(4) by blast
  {
    fix L assume L: "objs L = insert ?a (objs l)" "obj_size L ?a = sz"
      "\<forall>b \<in> objs l. obj_size L b = obj_size l b" "bitmap L = (\<lambda>i. bitmap l i \<or> i \<in> {p..<p + n})"
      "dom (el_events L) \<inter> dom (el_containers L) = {}"
    have "layout base L"
      unfolding layout_def L(1)
    proof (intro conjI ballI impI)
      fix b assume "b \<in> insert ?a (objs l)"
      then show "\<exists>q < 32768. b = block_addr base q"
        using assms(1-3) by (auto simp: layout_def intro: exI[of _ p])
    next
      fix b i assume "b \<in> insert ?a (objs l)" and i: "i \<in> run base b (obj_size L b)"
      then show "i < 32768" "bitmap L i"
        using used run L assms(2) by auto
    next
      fix b b' assume "b \<in> insert ?a (objs l)" "b' \<in> insert ?a (objs l)" "b \<noteq> b'"
      then show "run base b (obj_size L b) \<inter> run base b' (obj_size L b') = {}"
        using assms(1) disj run L(2,3) unfolding layout_def by (metis inf_commute insert_iff)
    qed (rule L(5))
  }
  note new_layout = this
  show "layout base l'" if "sz = 20" "bitmap l' = (\<lambda>i. bitmap l i \<or> i \<in> {p..<p + n})"
      "el_events l' = (el_events l)(?a \<mapsto> e)" "el_containers l' = el_containers l"
    by (rule new_layout) (use that new assms(1) in \<open>auto simp: objs_def obj_size_def layout_def split: option.splits\<close>)
  show "layout base l'" if "sz = 16 + unat (dc_size c)" "bitmap l' = (\<lambda>i. bitmap l i \<or> i \<in> {p..<p + n})"
      "el_events l' = el_events l" "el_containers l' = (el_containers l)(?a \<mapsto> c)"
    by (rule new_layout) (use that new assms(1) in \<open>auto simp: objs_def obj_size_def layout_def split: option.splits\<close>)
qed

section \<open>The linked lists\<close>

definition succ_ev :: "addr \<Rightarrow> EventList \<Rightarrow> u32 \<rightharpoonup> u32" where
  "succ_ev base l off = map_option ev_next (el_events l (OFFSET_TO_POINTER base off))"

definition succ_dc :: "addr \<Rightarrow> EventList \<Rightarrow> u32 \<rightharpoonup> u32" where
  "succ_dc base l off = map_option dc_next (el_containers l (OFFSET_TO_POINTER base off))"

text \<open>What a reader of the shared memory sees: the events in the list, the data of an event.\<close>

definition read_events :: "SharedEventList \<Rightarrow> addr list option" where
  "read_events s = map_option (map (OFFSET_TO_POINTER (event_list s)))
     (walk (succ_ev (event_list s) (el s)) (el_head (el s)))"

definition datum_at :: "addr \<Rightarrow> EventList \<Rightarrow> u32 \<Rightarrow> u32 \<times> u32 \<times> u8 option list" where
  "datum_at base l off = (case el_containers l (OFFSET_TO_POINTER base off) of
      Some c \<Rightarrow> (dc_key c, dc_type c, dc_data c) | None \<Rightarrow> (0, 0, []))"

definition read_data :: "SharedEventList \<Rightarrow> addr \<Rightarrow> (u32 \<times> u32 \<times> u8 option list) list option" where
  "read_data s event =
     Option.bind (el_events (el s) event) (\<lambda>e.
       map_option (map (datum_at (event_list s) (el s))) (walk (succ_dc (event_list s) (el s)) (ev_head e)))"

text \<open>
  The representation: \<open>xs\<close> are the offsets of the inserted events in order, \<open>D a\<close> those of
  the data of the event at \<open>a\<close>. The list is doubly linked, an event not yet inserted has no
  successor, and no two events share data.
\<close>

definition ev_chain :: "addr \<Rightarrow> EventList \<Rightarrow> u32 list \<Rightarrow> bool" where
  "ev_chain base l xs \<longleftrightarrow>
     lseg (succ_ev base l) (el_head l) xs NULL \<and> el_tail l = last_or_NULL xs \<and>
     map (\<lambda>off. map_option ev_previous (el_events l (OFFSET_TO_POINTER base off))) xs = map Some (butlast (0 # xs)) \<and>
     (\<forall>a e. el_events l a = Some e \<longrightarrow> ADDRESS_TO_OFFSET base a \<notin> set xs \<longrightarrow> ev_next e = 0)"

definition dc_chains :: "addr \<Rightarrow> EventList \<Rightarrow> (addr \<Rightarrow> u32 list) \<Rightarrow> bool" where
  "dc_chains base l D \<longleftrightarrow>
     (\<forall>a e. el_events l a = Some e \<longrightarrow>
        lseg (succ_dc base l) (ev_head e) (D a) NULL \<and> ev_tail e = last_or_NULL (D a)) \<and>
     (\<forall>a \<in> dom (el_events l). \<forall>b \<in> dom (el_events l). a \<noteq> b \<longrightarrow> set (D a) \<inter> set (D b) = {})"

definition el_rep :: "SharedEventList \<Rightarrow> u32 list \<Rightarrow> (addr \<Rightarrow> u32 list) \<Rightarrow> bool" where
  "el_rep s xs D \<longleftrightarrow> base_ok (event_list s) \<and> layout (event_list s) (el s) \<and>
     ev_chain (event_list s) (el s) xs \<and> dc_chains (event_list s) (el s) D"

definition el_ok :: "SharedEventList \<Rightarrow> bool" where
  "el_ok s \<longleftrightarrow> (\<exists>xs D. el_rep s xs D)"

lemma read_events_rep:
  "el_rep s xs D \<Longrightarrow> read_events s = Some (map (OFFSET_TO_POINTER (event_list s)) xs)"
  unfolding read_events_def el_rep_def ev_chain_def by (elim conjE, drule walk_lseg) simp

lemma read_data_rep:
  "el_rep s xs D \<Longrightarrow> el_events (el s) a = Some e \<Longrightarrow>
     read_data s a = Some (map (datum_at (event_list s) (el s)) (D a))"
  unfolding read_data_def el_rep_def dc_chains_def
  by (elim conjE allE[of _ a] allE[of _ e] impE, assumption) (drule walk_lseg, simp)

lemma ev_chain_dom:
  assumes "ev_chain base l xs" "off \<in> set xs" shows "OFFSET_TO_POINTER base off \<in> dom (el_events l)"
proof -
  have "off \<in> dom (succ_ev base l)" using assms unfolding ev_chain_def by (meson lseg_dom subsetD)
  then show ?thesis by (auto simp: succ_ev_def)
qed

lemma dc_chains_dom:
  assumes "dc_chains base l D" "a \<in> dom (el_events l)" "off \<in> set (D a)"
  shows "OFFSET_TO_POINTER base off \<in> dom (el_containers l)"
proof -
  have "off \<in> dom (succ_dc base l)" using assms unfolding dc_chains_def by (meson domIff lseg_dom not_None_eq subsetD)
  then show ?thesis by (auto simp: succ_dc_def)
qed

lemma offset_eq_iff: "ADDRESS_TO_OFFSET base a = off \<longleftrightarrow> a = OFFSET_TO_POINTER base off"
  by (auto simp: ADDRESS_TO_OFFSET_def OFFSET_TO_POINTER_def)

text \<open>Changes that leave the links of the listed events alone keep the chain.\<close>

lemma ev_chain_cong:
  assumes "ev_chain base l xs" "el_head l' = el_head l" "el_tail l' = el_tail l"
    and "\<And>off. off \<in> set xs \<Longrightarrow>
      map_option (\<lambda>e. (ev_next e, ev_previous e)) (el_events l' (OFFSET_TO_POINTER base off)) =
      map_option (\<lambda>e. (ev_next e, ev_previous e)) (el_events l (OFFSET_TO_POINTER base off))"
    and "\<And>a e. el_events l' a = Some e \<Longrightarrow> ADDRESS_TO_OFFSET base a \<notin> set xs \<Longrightarrow> ev_next e = 0"
  shows "ev_chain base l' xs"
proof -
  have n: "succ_ev base l' off = succ_ev base l off" if "off \<in> set xs" for off
    using arg_cong[OF assms(4)[OF that], of "map_option fst"] by (simp add: succ_ev_def option.map_comp comp_def)
  have p: "map_option ev_previous (el_events l' (OFFSET_TO_POINTER base off)) =
      map_option ev_previous (el_events l (OFFSET_TO_POINTER base off))" if "off \<in> set xs" for off
    using arg_cong[OF assms(4)[OF that], of "map_option snd"] by (simp add: option.map_comp comp_def)
  have "lseg (succ_ev base l') (el_head l') xs NULL"
    using assms(1) n unfolding ev_chain_def assms(2) by (auto elim: lseg_cong)
  moreover have "map (\<lambda>off. map_option ev_previous (el_events l' (OFFSET_TO_POINTER base off))) xs = map Some (butlast (0 # xs))"
    using assms(1) p unfolding ev_chain_def by (metis (mono_tags, lifting) map_eq_conv)
  ultimately show ?thesis using assms(1,3,5) unfolding ev_chain_def by simp
qed

section \<open>Creating an event\<close>

lemma CreateEvent_rep:
  assumes "find_bits_ok search" "el_rep s xs D" "CreateEvent search s = (a, s')"
  shows "event_list s' = event_list s \<and> semaphore s' = semaphore s \<and>
     (a = NULL \<and> el s' = el s \<or>
      a \<noteq> NULL \<and> a \<notin> objs (el s) \<and> el_rep s' xs (D(a := [])) \<and>
      el_containers (el s') = el_containers (el s) \<and>
      el_events (el s') = (el_events (el s))(a \<mapsto> \<lparr>ev_next = 0, ev_previous = 0, ev_ready = 0, ev_head = 0, ev_tail = 0\<rparr>))"
proof -
  let ?base = "event_list s"
  have base: "base_ok ?base" and lay: "layout ?base (el s)" and ev: "ev_chain ?base (el s) xs"
    and dc: "dc_chains ?base (el s) D"
    using assms(2) by (auto simp: el_rep_def)
  obtain l' where r: "ReserveSpace search ?base (el s) sizeof_Event = (a, l')"
    using assms(3) by (auto simp: CreateEvent_def split: prod.splits if_splits)
  consider "a = NULL" "l' = el s"
    | p where "a = block_addr ?base p" "a \<noteq> NULL" "p + 2 \<le> 32768" "\<forall>i \<in> {p..<p + 2}. \<not> bitmap (el s) i"
      "l' = (el s)\<lparr>bitmap := (\<lambda>i. bitmap (el s) i \<or> i \<in> {p..<p + 2}), bitmap_hint_index := of_nat p\<rparr>"
    using ReserveSpace_cases[OF assms(1) base _ _ r] by (auto simp: sizeof_Event_def)
  then show ?thesis
  proof cases
    case 1
    with assms(3) r show ?thesis by (simp add: CreateEvent_def)
  next
    case 2
    let ?e = "\<lparr>ev_next = 0, ev_previous = 0, ev_ready = 0, ev_head = 0, ev_tail = 0\<rparr>"
    let ?l = "l'\<lparr>el_events := (el_events l')(a \<mapsto> ?e)\<rparr>"
    have s': "s' = s\<lparr>el := ?l\<rparr>" using assms(3) r 2 by (simp add: CreateEvent_def)
    have new1: "a \<notin> objs (el s)" unfolding 2(1)
      by (rule layout_new(1)[OF lay 2(3) _ 2(4), where sz = 20]) simp_all
    have new2: "layout ?base ?l"
      by (rule layout_new(2)[OF lay 2(3) _ 2(4), where sz = 20 and e = ?e]) (simp_all add: 2(1,5))
    note new = new1 new2
    have fresh: "OFFSET_TO_POINTER ?base off \<noteq> a" if "off \<in> set xs" for off
      using ev_chain_dom[OF ev that] new(1) by (auto simp: objs_def)
    have "ev_chain ?base ?l xs"
    proof (rule ev_chain_cong[OF ev])
      fix b e assume "el_events ?l b = Some e" "ADDRESS_TO_OFFSET ?base b \<notin> set xs"
      then show "ev_next e = 0" using ev 2(5) by (auto simp: ev_chain_def split: if_splits)
    qed (use fresh 2(5) in auto)
    moreover have "dc_chains ?base ?l (D(a := []))"
    proof -
      have "succ_dc ?base ?l = succ_dc ?base (el s)" using 2(5) by (auto simp: succ_dc_def)
      then show ?thesis using dc 2(5) by (auto simp: dc_chains_def)
    qed
    ultimately show ?thesis using s' new base 2 by (simp add: el_rep_def)
  qed
qed

section \<open>Adding data to an event\<close>

lemma link_container_rep:
  assumes base: "base_ok base" and lay: "layout base l" and D: "dc_chains base l D"
    and e: "el_events l event = Some e" and c: "el_containers l dc = Some c" "dc_next c = 0"
    and new: "\<forall>a \<in> dom (el_events l). ADDRESS_TO_OFFSET base dc \<notin> set (D a)"
  shows "\<exists>l'. link_container base l event e dc = Inr l' \<and> layout base l' \<and>
     dc_chains base l' (D(event := D event @ [ADDRESS_TO_OFFSET base dc])) \<and>
     (\<forall>xs. ev_chain base l xs \<longrightarrow> ev_chain base l' xs) \<and> (\<forall>off. datum_at base l' off = datum_at base l off) \<and>
     dom (el_events l') = dom (el_events l) \<and> dom (el_containers l') = dom (el_containers l)"
proof -
  let ?off = "ADDRESS_TO_OFFSET base dc"
  let ?P = "OFFSET_TO_POINTER base"
  let ?e = "e\<lparr>ev_head := (if ev_head e = 0 then ?off else ev_head e), ev_tail := ?off\<rparr>"
  let ?t = "?P (ev_tail e)"
  have ch: "lseg (succ_dc base l) (ev_head e) (D event) NULL" "ev_tail e = last_or_NULL (D event)"
    using D e by (auto simp: dc_chains_def)
  have off0: "?off \<noteq> 0" using layout_addr(2)[OF lay base] c by (auto simp: objs_def)
  have tail0: "ev_tail e = 0 \<longleftrightarrow> D event = []"
    using last_or_NULL_iff[OF lseg_not_NULL[OF ch(1)]] ch(2) by simp
  have old: "?P off \<noteq> dc" if "a \<in> dom (el_events l)" "off \<in> set (D a)" for a off
    using new that by auto
  have tail_in: "ev_tail e \<in> set (D event)" if "D event \<noteq> []"
    using ch(2) that by (simp add: last_or_NULL_def)
  define l' where "l' = l\<lparr>el_events := (el_events l)(event \<mapsto> ?e),
      el_containers := (if ev_tail e = 0 then el_containers l
        else (el_containers l)(?t \<mapsto> (the (el_containers l ?t))\<lparr>dc_next := ?off\<rparr>))\<rparr>"
  have t: "\<exists>ct. el_containers l ?t = Some ct \<and> ?t \<noteq> NULL" if "D event \<noteq> []"
  proof -
    have "?t \<in> dom (el_containers l)" using dc_chains_dom[OF D _ tail_in[OF that]] e by auto
    then show ?thesis using layout_addr(1)[OF lay base] by (auto simp: objs_def)
  qed
  have eq: "link_container base l event e dc = Inr l'"
    using t tail0 by (cases "D event = []") (auto simp: link_container_def l'_def Let_def)
  have size: "map_option dc_size (el_containers l' a) = map_option dc_size (el_containers l a)" for a
    using t tail0 by (auto simp: l'_def)
  have domc: "dom (el_containers l') = dom (el_containers l)" using t tail0 by (auto simp: l'_def)
  have dome: "dom (el_events l') = dom (el_events l)" using e by (auto simp: l'_def)
  have "layout base l'" by (rule layout_cong[OF lay dome size]) (simp add: l'_def)
  moreover have "datum_at base l' off = datum_at base l off" for off
    using t tail0 by (auto simp: l'_def datum_at_def split: option.split)
  moreover have "ev_chain base l' xs" if "ev_chain base l xs" for xs
    by (rule ev_chain_cong[OF that]) (use e that in \<open>auto simp: l'_def ev_chain_def split: if_splits\<close>)
  moreover have "dc_chains base l' (D(event := D event @ [?off]))"
  proof -
    have seg: "lseg (succ_dc base l') (ev_head ?e) (D event @ [?off]) NULL"
    proof -
      have "succ_dc base l' ?off = Some NULL"
        using c old[of event "ev_tail e"] e tail_in tail0 by (auto simp: succ_dc_def l'_def)
      moreover have "succ_dc base l' (last (D event)) = Some ?off" if "D event \<noteq> []"
        using that tail0 t[OF that] ch(2) by (simp add: succ_dc_def l'_def last_or_NULL_def)
      moreover have "succ_dc base l' x = succ_dc base l x" if "x \<in> set (butlast (D event))" for x
      proof -
        have "D event \<noteq> []" using that by auto
        then have "x \<noteq> ev_tail e" using that lseg_distinct[OF ch(1)] ch(2)
          by (metis distinct_butlast append_butlast_last_id distinct_append disjoint_iff last_or_NULL_def list.set_intros(1))
        then show ?thesis by (simp add: succ_dc_def l'_def)
      qed
      ultimately show ?thesis using lseg_snocI[OF ch(1) _ off0, of "succ_dc base l'"] by simp
    qed
    have other: "lseg (succ_dc base l') (ev_head f) (D a) NULL \<and> ev_tail f = last_or_NULL (D a)"
      if a: "el_events l a = Some f" "a \<noteq> event" for a f
    proof -
      have "set (D a) \<inter> set (D event) = {}" using D a e unfolding dc_chains_def by blast
      then have "x \<noteq> ev_tail e" if "x \<in> set (D a)" "ev_tail e \<noteq> 0" for x
        using that tail_in tail0 by blast
      then have same: "succ_dc base l' x = succ_dc base l x" if "x \<in> set (D a)" for x
        using that by (simp add: succ_dc_def l'_def)
      have "lseg (succ_dc base l) (ev_head f) (D a) NULL" "ev_tail f = last_or_NULL (D a)"
        using D a unfolding dc_chains_def by blast+
      then show ?thesis using same by (simp add: lseg_cong)
    qed
    show ?thesis unfolding dc_chains_def dome
    proof (intro conjI allI impI ballI)
      fix a f assume "el_events l' a = Some f"
      then show "lseg (succ_dc base l') (ev_head f) ((D(event := D event @ [?off])) a) NULL"
        "ev_tail f = last_or_NULL ((D(event := D event @ [?off])) a)"
        using seg other by (auto simp: l'_def split: if_splits)
    next
      fix a b assume ab: "a \<in> dom (el_events l)" "b \<in> dom (el_events l)" "a \<noteq> b"
      then have "set (D a) \<inter> set (D b) = {}" using D unfolding dc_chains_def by blast
      then show "set ((D(event := D event @ [?off])) a) \<inter> set ((D(event := D event @ [?off])) b) = {}"
        using new[rule_format, OF ab(1)] new[rule_format, OF ab(2)] ab(3) by auto
    qed
  qed
  ultimately show ?thesis using eq dome domc by blast
qed

lemma AddEventData_rep:
  assumes "find_bits_ok search" "el_rep s xs D" "event \<in> dom (el_events (el s))"
    and "unat sz + 31 < 2 ^ 32" "container_bytes sz data = Inr bytes"
  shows "\<exists>a s'. AddEventData search s event key type sz data = Inr (a, s') \<and>
     event_list s' = event_list s \<and> semaphore s' = semaphore s \<and>
     (a = NULL \<and> el s' = el s \<or>
      a \<noteq> NULL \<and> a \<notin> objs (el s) \<and>
      el_rep s' xs (D(event := D event @ [ADDRESS_TO_OFFSET (event_list s) a])) \<and>
      dom (el_events (el s')) = dom (el_events (el s)) \<and>
      datum_at (event_list s) (el s') (ADDRESS_TO_OFFSET (event_list s) a) = (key, type, bytes) \<and>
      (\<forall>off. off \<noteq> ADDRESS_TO_OFFSET (event_list s) a \<longrightarrow>
         datum_at (event_list s) (el s') off = datum_at (event_list s) (el s) off))"
proof -
  let ?base = "event_list s"
  have base: "base_ok ?base" and lay: "layout ?base (el s)" and ev: "ev_chain ?base (el s) xs"
    and dc: "dc_chains ?base (el s) D"
    using assms(2) by (auto simp: el_rep_def)
  let ?sz = "sizeof_DataContainer + sz"
  have sz: "unat ?sz = 16 + unat sz"
    using assms(4) unat_add_no_wrap[of 16 sz] by (simp add: sizeof_DataContainer_def)
  have fits: "\<not> unat (ALIGN_UP_Block ?sz) < 16 + unat sz"
    using ALIGN_UP_Block_blocks(1)[of ?sz] assms(4) sz by simp
  obtain a l1 where r: "ReserveSpace search ?base (el s) ?sz = (a, l1)" by fastforce
  consider "a = NULL" "l1 = el s"
    | p n where "a = block_addr ?base p" "a \<noteq> NULL" "n = (unat ?sz + 15) div 16" "0 < n" "p + n \<le> 32768"
      "\<forall>i \<in> {p..<p + n}. \<not> bitmap (el s) i"
      "l1 = (el s)\<lparr>bitmap := (\<lambda>i. bitmap (el s) i \<or> i \<in> {p..<p + n}), bitmap_hint_index := of_nat p\<rparr>"
    using ReserveSpace_cases[OF assms(1) base _ _ r] assms(4) sz by auto
  then show ?thesis
  proof cases
    case 1
    with r show ?thesis by (simp add: AddEventData_def)
  next
    case 2
    let ?c = "\<lparr>dc_next = 0, dc_key = key, dc_type = type, dc_size = sz, dc_data = bytes\<rparr>"
    let ?l = "l1\<lparr>el_containers := (el_containers l1)(a \<mapsto> ?c)\<rparr>"
    let ?off = "ADDRESS_TO_OFFSET ?base a"
    have new: "a \<notin> objs (el s)" unfolding 2(1)
      by (rule layout_new(1)[OF lay 2(5,4,6,3)]) (simp add: sz)
    have lay1: "layout ?base ?l"
      by (rule layout_new(3)[OF lay 2(5,4,6,3), where c = ?c]) (simp_all add: 2(1,7) sz)
    have same: "el_events ?l = el_events (el s)" "el_head ?l = el_head (el s)" "el_tail ?l = el_tail (el s)"
      "el_containers ?l = (el_containers (el s))(a \<mapsto> ?c)"
      using 2(7) by simp_all
    have old: "off \<noteq> ?off" if "b \<in> dom (el_events (el s))" "off \<in> set (D b)" for b off
      using dc_chains_dom[OF dc that] new by (auto simp: objs_def)
    have dc1: "dc_chains ?base ?l D"
    proof -
      have s: "succ_dc ?base ?l off = succ_dc ?base (el s) off" if "off \<noteq> ?off" for off
        using that unfolding succ_dc_def same(4) by auto
      have "lseg (succ_dc ?base ?l) (ev_head e) (D b) NULL" if "el_events (el s) b = Some e" for b e
      proof (rule lseg_cong)
        show "lseg (succ_dc ?base (el s)) (ev_head e) (D b) NULL" using dc that by (simp add: dc_chains_def)
      qed (use s old[of b] that in blast)
      then show ?thesis using dc unfolding dc_chains_def same(1) by simp
    qed
    have ev1: "ev_chain ?base ?l xs"
      by (rule ev_chain_cong[OF ev]) (use ev same in \<open>auto simp: ev_chain_def\<close>)
    have new1: "\<forall>b \<in> dom (el_events ?l). ?off \<notin> set (D b)"
      using old unfolding same(1) by blast
    obtain e where e: "el_events ?l event = Some e" using assms(3) unfolding same(1) by blast
    have "event \<noteq> NULL" using layout_addr(1)[OF lay1 base] e by (auto simp: objs_def)
    then have de: "deref (el_events ?l) event = Inr e" using e by (rule deref_Some)
    have ca: "el_containers ?l a = Some ?c" "dc_next ?c = 0" by simp_all
    obtain l2 where l2: "link_container ?base ?l event e a = Inr l2" "layout ?base l2"
      "dc_chains ?base l2 (D(event := D event @ [?off]))" "\<forall>xs. ev_chain ?base ?l xs \<longrightarrow> ev_chain ?base l2 xs"
      "\<forall>off. datum_at ?base l2 off = datum_at ?base ?l off" "dom (el_events l2) = dom (el_events ?l)"
      using link_container_rep[OF base lay1 dc1 e ca new1] by (elim exE conjE) (rule that)
    have eq: "AddEventData search s event key type sz data = Inr (a, s\<lparr>el := l2\<rparr>)"
      using r 2(2) fits assms(5) de l2(1) by (simp add: AddEventData_def Let_def del: fun_upd_apply)
    have d1: "datum_at ?base ?l ?off = (key, type, bytes)" by (simp add: datum_at_def)
    have d2: "datum_at ?base ?l off = datum_at ?base (el s) off" if "off \<noteq> ?off" for off
      using that unfolding datum_at_def same(4) by (auto simp: offset_eq_iff)
    show ?thesis
      by (rule exI[of _ a], rule exI[of _ "s\<lparr>el := l2\<rparr>"])
        (use eq 2(2) new base l2 ev1 d1 d2 same(1) in \<open>simp add: el_rep_def\<close>)
  qed
qed

section \<open>Inserting an event\<close>

lemma InsertEvent_rep:
  assumes "el_rep s xs D" "event \<in> dom (el_events (el s))"
    and "ADDRESS_TO_OFFSET (event_list s) event \<notin> set xs"
  shows "\<exists>s'. InsertEvent s event = Inr s' \<and> event_list s' = event_list s \<and>
     semaphore s' = semaphore s \<and>
     semaphore_count s' = semaphore_count s + (if semaphore s = NULL then 0 else 1) \<and>
     el_rep s' (xs @ [ADDRESS_TO_OFFSET (event_list s) event]) D \<and>
     el_containers (el s') = el_containers (el s) \<and> dom (el_events (el s')) = dom (el_events (el s)) \<and>
     map_option ev_ready (el_events (el s') event) = Some 1"
proof -
  let ?base = "event_list s"
  let ?l = "el s"
  let ?off = "ADDRESS_TO_OFFSET ?base event"
  let ?P = "OFFSET_TO_POINTER ?base"
  have base: "base_ok ?base" and lay: "layout ?base ?l" and ev: "ev_chain ?base ?l xs"
    and dc: "dc_chains ?base ?l D"
    using assms(1) by (auto simp: el_rep_def)
  obtain e where e: "el_events ?l event = Some e" using assms(2) by blast
  have nn: "event \<noteq> NULL" "?off \<noteq> 0" using layout_addr[OF lay base] e by (auto simp: objs_def)
  have ch: "lseg (succ_ev ?base ?l) (el_head ?l) xs NULL" "el_tail ?l = last_or_NULL xs" "ev_next e = 0"
    using ev e assms(3) by (auto simp: ev_chain_def)
  have tail0: "el_tail ?l = 0 \<longleftrightarrow> xs = []"
    using last_or_NULL_iff[OF lseg_not_NULL[OF ch(1)]] ch(2) by simp
  have tail_in: "el_tail ?l \<in> set xs" if "xs \<noteq> []" using ch(2) that by (simp add: last_or_NULL_def)
  let ?t = "?P (el_tail ?l)"
  have t: "\<exists>et. el_events ?l ?t = Some et \<and> ?t \<noteq> NULL \<and> ?t \<noteq> event" if "xs \<noteq> []"
  proof -
    have "?t \<in> dom (el_events ?l)" using ev_chain_dom[OF ev tail_in[OF that]] .
    moreover have "?t \<noteq> event" using tail_in[OF that] assms(3) by auto
    ultimately show ?thesis using layout_addr(1)[OF lay base] by (auto simp: objs_def)
  qed
  define evs where "evs = (el_events ?l)(event \<mapsto> e\<lparr>ev_ready := 1, ev_previous := el_tail ?l\<rparr>)"
  define l' where "l' = ?l\<lparr>el_events := (if el_tail ?l = 0 then evs else evs(?t \<mapsto> (the (el_events ?l ?t))\<lparr>ev_next := ?off\<rparr>)),
      el_head := (if el_head ?l = 0 then ?off else el_head ?l), el_tail := ?off\<rparr>"
  have eq: "link_event ?base ?l event e = Inr l'"
    using t tail0 by (cases "xs = []") (auto simp: link_event_def l'_def evs_def Let_def)
  have upd: "el_events l' event = Some (e\<lparr>ev_ready := 1, ev_previous := el_tail ?l\<rparr>)"
    using t tail0 by (auto simp: l'_def evs_def)
  have updt: "map_option ev_next (el_events l' ?t) = Some ?off" if "xs \<noteq> []"
    using that tail0 by (simp add: l'_def)
  have oth: "el_events l' b = el_events ?l b" if "b \<noteq> event" "xs \<noteq> [] \<longrightarrow> b \<noteq> ?t" for b
    using that tail0 by (auto simp: l'_def evs_def)
  have prev: "map_option ev_previous (el_events l' b) = map_option ev_previous (el_events ?l b)" if "b \<noteq> event" for b
    using that t tail0 by (auto simp: l'_def evs_def)
  have hdtl: "map_option (\<lambda>e. (ev_head e, ev_tail e)) (el_events l' b) = map_option (\<lambda>e. (ev_head e, ev_tail e)) (el_events ?l b)" for b
    using e t tail0 by (auto simp: l'_def evs_def)
  have cons: "el_containers l' = el_containers ?l" by (simp add: l'_def)
  have dome: "dom (el_events l') = dom (el_events ?l)" using e t tail0 by (auto simp: l'_def evs_def)
  have lay': "layout ?base l'" by (rule layout_cong[OF lay dome]) (simp_all add: l'_def)
  have notev: "?P x \<noteq> event" if "x \<in> set xs" for x using that assms(3) by auto
  have "ev_chain ?base l' (xs @ [?off])"
    unfolding ev_chain_def
  proof (intro conjI allI impI)
    have "lseg (succ_ev ?base l') (if el_head ?l = NULL then ?off else el_head ?l) (xs @ [?off]) NULL"
    proof (rule lseg_snocI[OF ch(1)])
      show "succ_ev ?base l' ?off = Some NULL" using upd ch(3) by (simp add: succ_ev_def)
      show "succ_ev ?base l' (last xs) = Some ?off" if "xs \<noteq> []"
        using updt[OF that] ch(2) that by (simp add: succ_ev_def last_or_NULL_def)
      fix x assume x: "x \<in> set (butlast xs)"
      then have "xs \<noteq> []" by auto
      then obtain ys where "xs = ys @ [el_tail ?l]" using ch(2) by (metis append_butlast_last_id last_or_NULL_def)
      then have "x \<noteq> el_tail ?l" using lseg_distinct[OF ch(1)] x by auto
      moreover have "?P x \<noteq> event" using notev x in_set_butlastD by fast
      ultimately show "succ_ev ?base l' x = succ_ev ?base ?l x" using oth[of "?P x"] by (simp add: succ_ev_def)
    qed (rule nn)
    then show "lseg (succ_ev ?base l') (el_head l') (xs @ [?off]) NULL" by (simp add: l'_def)
    show "el_tail l' = last_or_NULL (xs @ [?off])" by (simp add: l'_def)
    have "map (\<lambda>off. map_option ev_previous (el_events l' (?P off))) xs = map Some (butlast (0 # xs))"
      using ev prev notev unfolding ev_chain_def by (metis (mono_tags, lifting) map_eq_conv)
    moreover have "butlast (0 # xs @ [?off]) = butlast (0 # xs) @ [el_tail ?l]"
      using ch(2) by (cases xs rule: rev_cases) (auto simp: butlast_append)
    ultimately show "map (\<lambda>off. map_option ev_previous (el_events l' (?P off))) (xs @ [?off]) =
        map Some (butlast (0 # xs @ [?off]))"
      using upd by simp
  next
    fix b f assume b: "el_events l' b = Some f" "ADDRESS_TO_OFFSET ?base b \<notin> set (xs @ [?off])"
    then have "b \<noteq> event" by auto
    moreover have "b \<noteq> ?t" if "xs \<noteq> []" using b(2) tail_in[OF that] by auto
    ultimately have "el_events ?l b = Some f" using oth b(1) by simp
    then show "ev_next f = 0" using ev b(2) by (simp add: ev_chain_def)
  qed
  moreover have "dc_chains ?base l' D"
  proof -
    have s: "succ_dc ?base l' = succ_dc ?base ?l" by (simp add: succ_dc_def cons fun_eq_iff)
    have "\<exists>f'. el_events ?l b = Some f' \<and> ev_head f' = ev_head f \<and> ev_tail f' = ev_tail f"
      if "el_events l' b = Some f" for b f
      using hdtl[of b] that by (cases "el_events ?l b") auto
    then have "lseg (succ_dc ?base ?l) (ev_head f) (D b) NULL \<and> ev_tail f = last_or_NULL (D b)"
      if "el_events l' b = Some f" for b f
      using dc that unfolding dc_chains_def by metis
    then show ?thesis using dc unfolding dc_chains_def dome s by blast
  qed
  moreover have "deref (el_events ?l) event = Inr e" using nn(1) e by (rule deref_Some)
  ultimately show ?thesis
    using eq base lay' cons dome upd by (simp add: InsertEvent_def el_rep_def)
qed

section \<open>Initialisation\<close>

lemma el_rep_initial:
  assumes "base_ok (event_list s)" "el s = InitialiseBufferManager l" "el_head l = 0" "el_tail l = 0"
  shows "el_rep s [] (\<lambda>_. [])"
  using assms by (simp add: el_rep_def layout_def objs_def ev_chain_def dc_chains_def InitialiseBufferManager_def)

text \<open>Fresh pages are zero-filled: the list starts empty.\<close>

lemma InitialiseSharedEventList_rep:
  assumes "InitialiseSharedEventList s m k 0 0 = (True, s', calls)" "base_ok (k_buffer (shared_buffer s'))"
  shows "el_rep s' [] (\<lambda>_. []) \<and> semaphore s' = NULL \<and> read_events s' = Some []"
proof -
  obtain sb where "InitialiseSharedBuffer (shared_buffer s) m k = (True, sb, calls)"
    and s': "s' = s\<lparr>shared_buffer := sb, semaphore := NULL, event_list := k_buffer sb,
                  el := InitialiseBufferManager ((el s)\<lparr>el_head := 0, el_tail := 0\<rparr>)\<rparr>"
    using assms(1) by (auto simp: InitialiseSharedEventList_def Let_def split: prod.splits if_splits)
  then have "el_rep s' [] (\<lambda>_. [])"
    using assms(2) by (intro el_rep_initial) auto
  then show ?thesis using read_events_rep s' by fastforce
qed

section \<open>Examples\<close>

text \<open>A search that takes the run 16 blocks after the last one, when it is free.\<close>

definition next_fit :: find_bits where
  "next_fit bm n h =
     (let p = unat h + 16
      in if p + unat n \<le> 32768 \<and> list_all (\<lambda>i. \<not> bm i) [p..<p + unat n] then of_nat p else 0xFFFFFFFF)"

lemma next_fit_ok: "find_bits_ok next_fit"
  unfolding find_bits_ok_def
proof (intro allI impI)
  fix bm n h assume h: "next_fit bm n h \<noteq> 0xFFFFFFFF"
  let ?p = "unat (h :: u32) + 16"
  have p: "next_fit bm n h = of_nat ?p" "?p + unat n \<le> 32768" "list_all (\<lambda>i. \<not> bm i) [?p..<?p + unat n]"
    using h by (auto simp: next_fit_def Let_def split: if_splits)
  have u: "unat (next_fit bm n h) = ?p"
    unfolding p(1) using p(2) by (simp add: unat_of_nat take_bit_nat_eq_self del: of_nat_add)
  show "unat (next_fit bm n h) + unat n \<le> BITMAP_BITS \<and>
     (\<forall>i. unat (next_fit bm n h) \<le> i \<and> i < unat (next_fit bm n h) + unat n \<longrightarrow> \<not> bm i)"
    unfolding u using p(2,3) by (auto simp: list_all_iff)
qed

definition el_blank :: EventList where
  "el_blank = \<lparr>el_head = 0, el_tail = 0, bitmap = \<lambda>_. False, bitmap_hint_index = 0,
     el_events = Map.empty, el_containers = Map.empty\<rparr>"

definition sel_demo :: SharedEventList where
  "sel_demo = \<lparr>event_list = 0x80000000, el = InitialiseBufferManager el_blank,
     semaphore = 0x500, semaphore_count = 0,
     shared_buffer = \<lparr>u_buffer = NULL, k_buffer = 0x80000000, mdl = 0x600, u_process_id = 0\<rparr>\<rparr>"

definition sel_demo1 :: SharedEventList where
  "sel_demo1 = snd (CreateEvent next_fit sel_demo)"

lemma sel_demo_rep: "el_rep sel_demo [] (\<lambda>_. [])"
  by (rule el_rep_initial[where l = el_blank]) (simp_all add: sel_demo_def el_blank_def base_ok_def BUFFER_SIZE_def)

lemma sel_demo_create: "fst (CreateEvent next_fit sel_demo) = 0x80001118"
  by (simp add: CreateEvent_def ReserveSpace_def next_fit_def sel_demo_def el_blank_def InitialiseBufferManager_def
      sizeof_Event_def ALIGN_UP_Block_def Let_def upt_rec[of 16] upt_rec[of 17])

lemma sel_demo1_rep:
  "el_rep sel_demo1 [] ((\<lambda>_. [])(0x80001118 := [])) \<and> 0x80001118 \<in> dom (el_events (el sel_demo1)) \<and>
   event_list sel_demo1 = 0x80000000"
proof -
  have "CreateEvent next_fit sel_demo = (0x80001118, sel_demo1)"
    using sel_demo_create by (metis prod.collapse sel_demo1_def)
  from CreateEvent_rep[OF next_fit_ok sel_demo_rep this] show ?thesis by (auto simp: sel_demo_def)
qed

section \<open>What a reader sees of each operation\<close>

lemma read_events_dom:
  assumes "el_ok s" "read_events s = Some evs" shows "set evs \<subseteq> dom (el_events (el s))"
proof -
  obtain xs D where rep: "el_rep s xs D" using assms(1) by (auto simp: el_ok_def)
  then have "evs = map (OFFSET_TO_POINTER (event_list s)) xs" using read_events_rep assms(2) by fastforce
  moreover have "ev_chain (event_list s) (el s) xs" using rep by (simp add: el_rep_def)
  ultimately show ?thesis using ev_chain_dom[of "event_list s" "el s" xs] by auto
qed

lemma read_data_dom: "read_data s a = Some ds \<Longrightarrow> a \<in> dom (el_events (el s))"
  by (cases "el_events (el s) a") (auto simp: read_data_def)

lemma el_ok_read_events: "el_ok s \<Longrightarrow> \<exists>evs. read_events s = Some evs"
  using read_events_rep by (auto simp: el_ok_def)

lemma CreateEvent_reads:
  assumes "find_bits_ok search" "el_ok s" "CreateEvent search s = (a, s')"
  shows "a = NULL \<and> el_ok s' \<and> read_events s' = read_events s \<or>
    a \<noteq> NULL \<and> el_ok s' \<and> a \<notin> dom (el_events (el s)) \<and> read_data s' a = Some [] \<and>
    read_events s' = read_events s \<and> (\<forall>b \<in> dom (el_events (el s)). read_data s' b = read_data s b)"
proof -
  obtain xs D where rep: "el_rep s xs D" using assms(2) by (auto simp: el_ok_def)
  note c = CreateEvent_rep[OF assms(1) rep assms(3)]
  show ?thesis
  proof (cases "a = NULL")
    case True
    with c have s: "event_list s' = event_list s" "el s' = el s" by auto
    then have "el_rep s' xs D" using rep by (simp add: el_rep_def)
    with True s show ?thesis by (auto simp: el_ok_def read_events_def)
  next
    case False
    let ?e = "\<lparr>ev_next = 0, ev_previous = 0, ev_ready = 0, ev_head = 0, ev_tail = 0\<rparr>"
    from c False have s: "event_list s' = event_list s" "a \<notin> objs (el s)" "el_rep s' xs (D(a := []))"
      "el_containers (el s') = el_containers (el s)" "el_events (el s') = (el_events (el s))(a \<mapsto> ?e)" by auto
    have "read_data s' a = Some []" using read_data_rep[OF s(3)] s(5) by simp
    moreover have "read_data s' b = read_data s b" if b: "b \<in> dom (el_events (el s))" for b
    proof -
      have "b \<noteq> a" using s(2) b by (auto simp: objs_def)
      moreover obtain e where "el_events (el s) b = Some e" using b by blast
      ultimately show ?thesis using read_data_rep[OF rep] read_data_rep[OF s(3)] s(1,4,5)
        by (simp add: datum_at_def[abs_def])
    qed
    moreover have "read_events s' = read_events s" using read_events_rep[OF rep] read_events_rep[OF s(3)] s(1) by simp
    ultimately show ?thesis using False s(2,3) by (auto simp: el_ok_def objs_def)
  qed
qed

lemma AddEventData_reads:
  assumes "find_bits_ok search" "el_ok s" "event \<in> dom (el_events (el s))" "read_data s event = Some ds"
    and "unat sz + 31 < 2 ^ 32" "container_bytes sz data = Inr bytes"
  shows "\<exists>a s'. AddEventData search s event key type sz data = Inr (a, s') \<and> el_ok s' \<and>
     read_data s' event = Some (if a = NULL then ds else ds @ [(key, type, bytes)]) \<and>
     (\<forall>b. b \<noteq> event \<longrightarrow> read_data s' b = read_data s b) \<and> read_events s' = read_events s"
proof -
  obtain xs D where rep: "el_rep s xs D" using assms(2) by (auto simp: el_ok_def)
  let ?base = "event_list s"
  obtain a s' where r: "AddEventData search s event key type sz data = Inr (a, s')" "event_list s' = ?base"
    and alt: "a = NULL \<and> el s' = el s \<or> a \<noteq> NULL \<and> a \<notin> objs (el s) \<and>
      el_rep s' xs (D(event := D event @ [ADDRESS_TO_OFFSET ?base a])) \<and>
      dom (el_events (el s')) = dom (el_events (el s)) \<and>
      datum_at ?base (el s') (ADDRESS_TO_OFFSET ?base a) = (key, type, bytes) \<and>
      (\<forall>off. off \<noteq> ADDRESS_TO_OFFSET ?base a \<longrightarrow> datum_at ?base (el s') off = datum_at ?base (el s) off)"
    using AddEventData_rep[OF assms(1) rep assms(3,5,6), of key type] by blast
  show ?thesis
  proof (cases "a = NULL")
    case True
    then have same: "el s' = el s" using alt by auto
    have rd: "read_data s' b = read_data s b" for b by (simp add: read_data_def same r(2))
    have "read_events s' = read_events s" by (simp add: read_events_def same r(2))
    moreover have "el_ok s'" using rep by (auto simp: el_ok_def el_rep_def same r(2))
    ultimately show ?thesis using r True rd assms(4) by auto
  next
    case False
    let ?D = "D(event := D event @ [ADDRESS_TO_OFFSET ?base a])"
    have rep': "el_rep s' xs ?D" and dom': "dom (el_events (el s')) = dom (el_events (el s))"
      and new: "a \<notin> objs (el s)"
      and d1: "datum_at ?base (el s') (ADDRESS_TO_OFFSET ?base a) = (key, type, bytes)"
      and d2: "\<forall>off. off \<noteq> ADDRESS_TO_OFFSET ?base a \<longrightarrow> datum_at ?base (el s') off = datum_at ?base (el s) off"
      using alt False by auto
    have old: "off \<noteq> ADDRESS_TO_OFFSET ?base a" if "b \<in> dom (el_events (el s))" "off \<in> set (D b)" for b off
      using dc_chains_dom[of ?base "el s" D b off] rep that new by (auto simp: el_rep_def objs_def)
    have keep: "map (datum_at ?base (el s')) (D b) = map (datum_at ?base (el s)) (D b)"
      if "b \<in> dom (el_events (el s))" for b
      using old[OF that] d2 by (intro map_cong) auto
    have rd: "read_data s' b = Some (map (datum_at ?base (el s')) (?D b))"
      "read_data s b = Some (map (datum_at ?base (el s)) (D b))" if b: "b \<in> dom (el_events (el s))" for b
    proof -
      obtain e e' where "el_events (el s) b = Some e" "el_events (el s') b = Some e'"
        using b dom' by (metis domD)
      then show "read_data s' b = Some (map (datum_at ?base (el s')) (?D b))"
        "read_data s b = Some (map (datum_at ?base (el s)) (D b))"
        using read_data_rep[OF rep'] read_data_rep[OF rep] r(2) by simp_all
    qed
    have "read_data s' event = Some (ds @ [(key, type, bytes)])"
      using rd[OF assms(3)] keep[OF assms(3)] d1 assms(4) by simp
    moreover have "read_data s' b = read_data s b" if "b \<noteq> event" for b
    proof (cases "b \<in> dom (el_events (el s))")
      case True
      then show ?thesis using rd[OF True] keep[OF True] that by simp
    next
      case False
      then show ?thesis using dom' by (metis domIff read_data_def Option.bind.simps(1))
    qed
    moreover have "read_events s' = read_events s"
      using read_events_rep[OF rep'] read_events_rep[OF rep] r(2) by simp
    ultimately show ?thesis using r False rep' by (auto simp: el_ok_def)
  qed
qed

lemma InsertEvent_reads:
  assumes "el_ok s" "event \<in> dom (el_events (el s))" "read_events s = Some evs" "event \<notin> set evs"
  shows "\<exists>s'. InsertEvent s event = Inr s' \<and> el_ok s' \<and> read_events s' = Some (evs @ [event]) \<and>
     map_option ev_ready (el_events (el s') event) = Some 1 \<and>
     (\<forall>b \<in> dom (el_events (el s)). read_data s' b = read_data s b) \<and>
     semaphore_count s' = semaphore_count s + (if semaphore s = NULL then 0 else 1)"
proof -
  obtain xs D where rep: "el_rep s xs D" using assms(1) by (auto simp: el_ok_def)
  let ?off = "ADDRESS_TO_OFFSET (event_list s) event"
  have evs: "evs = map (OFFSET_TO_POINTER (event_list s)) xs" using read_events_rep[OF rep] assms(3) by simp
  then have "?off \<notin> set xs" using assms(4) by (metis OFFSET_TO_POINTER_inverse(1) image_eqI list.set_map)
  from InsertEvent_rep[OF rep assms(2) this]
  obtain s' where r: "InsertEvent s event = Inr s'" "event_list s' = event_list s"
    "semaphore_count s' = semaphore_count s + (if semaphore s = NULL then 0 else 1)"
    "el_rep s' (xs @ [?off]) D" "el_containers (el s') = el_containers (el s)"
    "dom (el_events (el s')) = dom (el_events (el s))" "map_option ev_ready (el_events (el s') event) = Some 1"
    by blast
  have "read_events s' = Some (evs @ [event])" using read_events_rep[OF r(4)] r(2) evs by simp
  moreover have "read_data s' b = read_data s b" if b: "b \<in> dom (el_events (el s))" for b
  proof -
    obtain e e' where "el_events (el s) b = Some e" "el_events (el s') b = Some e'" using b r(6) by (metis domD)
    then show ?thesis using read_data_rep[OF rep] read_data_rep[OF r(4)] r(2,5) by (simp add: datum_at_def[abs_def])
  qed
  ultimately show ?thesis using r by (auto simp: el_ok_def)
qed

section \<open>Properties\<close>

text \<open>
  C38: A successful reservation is a 16-byte aligned run inside the 512 KB buffer that is long
  enough for the size asked for, every block of it was free and is now marked used, and no
  other block changes state: two reservations never overlap.
\<close>

theorem ReserveSpace_safe:
  assumes "find_bits_ok search" "base_ok base" "0 < unat sz" "unat sz + 15 < 2 ^ 32"
    and "ReserveSpace search base l sz = (a, l')" "a \<noteq> NULL"
  shows "\<exists>p n. unat a = unat base + BUFFER_OFFSET + BLOCK_SIZE * p \<and> unat sz \<le> BLOCK_SIZE * n \<and>
     BLOCK_SIZE * n < unat sz + BLOCK_SIZE \<and> unat a + BLOCK_SIZE * n \<le> unat base + BUFFER_OFFSET + BUFFER_SIZE \<and>
     (\<forall>i. bitmap l' i \<longleftrightarrow> bitmap l i \<or> p \<le> i \<and> i < p + n) \<and> (\<forall>i. p \<le> i \<and> i < p + n \<longrightarrow> \<not> bitmap l i)"
proof -
  obtain p n where p: "a = block_addr base p" "n = (unat sz + 15) div 16" "p + n \<le> 32768" "0 < n"
    "\<forall>i \<in> {p..<p + n}. \<not> bitmap l i" "bitmap l' = (\<lambda>i. bitmap l i \<or> i \<in> {p..<p + n})"
    using ReserveSpace_cases[OF assms(1-5)] assms(6) by auto
  have "unat a = unat base + (4120 + 16 * p)"
    unfolding p(1) block_addr_def
    using unat_block_offset[of p] unat_add_no_wrap[of base "of_nat (4120 + 16 * p)"] p(3,4) assms(2)
    by (simp add: base_ok_def BUFFER_SIZE_def)
  moreover have "unat sz \<le> 16 * n" "16 * n < unat sz + 16" unfolding p(2) by auto
  ultimately show ?thesis using p(3,5,6)
    by (intro exI[of _ p] exI[of _ n]) (auto simp: BLOCK_SIZE_def BUFFER_SIZE_def)
qed

theorem ReserveSpace_safe_witness:
  "unat (0x80001118 :: u32) = unat (0x80000000 :: u32) + BUFFER_OFFSET + BLOCK_SIZE * 16 \<and>
   (\<exists>p n. unat (0x80001118 :: u32) = unat (0x80000000 :: u32) + BUFFER_OFFSET + BLOCK_SIZE * p \<and> 20 \<le> BLOCK_SIZE * n)"
proof -
  have r: "ReserveSpace next_fit 0x80000000 el_blank 20 =
      (0x80001118, el_blank\<lparr>bitmap := (\<lambda>i. bitmap el_blank i \<or> 16 \<le> i \<and> i < 18), bitmap_hint_index := 16\<rparr>)"
    by (simp add: ReserveSpace_def next_fit_def el_blank_def ALIGN_UP_Block_def Let_def upt_rec[of 16] upt_rec[of 17])
  have "base_ok 0x80000000" by (simp add: base_ok_def BUFFER_SIZE_def)
  from ReserveSpace_safe[OF next_fit_ok this _ _ r] show ?thesis by (auto simp: BLOCK_SIZE_def)
qed

text \<open>
  C15: Adding data to an event of a well-formed list never faults. Either there is no space,
  NULL is returned and nothing changes, or the event's data, as a reader of the shared memory
  sees them, are the old ones followed by the new key, type and bytes; the other events'
  data and the list of events stay as they were, and the list stays well formed.
\<close>

theorem AddEventData_correct:
  assumes "find_bits_ok search" "el_ok s" "event \<in> dom (el_events (el s))" "read_data s event = Some ds"
    and "unat sz + 31 < 2 ^ 32" "container_bytes sz data = Inr bytes"
  shows "\<exists>a s'. AddEventData search s event key type sz data = Inr (a, s') \<and> el_ok s' \<and>
     read_data s' event = Some (if a = NULL then ds else ds @ [(key, type, bytes)]) \<and>
     (\<forall>b. b \<noteq> event \<longrightarrow> read_data s' b = read_data s b) \<and> read_events s' = read_events s"
  by (rule AddEventData_reads[OF assms])

theorem AddEventData_correct_witness:
  "\<exists>a s'. AddEventData next_fit sel_demo1 0x80001118 1 1 2 (Some [65, 0]) = Inr (a, s') \<and>
     read_data s' 0x80001118 = Some [(1, 1, [Some 65, Some 0])]"
proof -
  have r: "read_data sel_demo1 0x80001118 = Some []"
    using sel_demo1_rep read_data_rep[of sel_demo1 "[]" "(\<lambda>_. [])(0x80001118 := [])" "0x80001118"] by auto
  have "\<exists>a s'. AddEventData next_fit sel_demo1 0x80001118 1 1 2 (Some [65, 0]) = Inr (a, s') \<and> a \<noteq> NULL"
    by (simp add: AddEventData_def sel_demo1_def CreateEvent_def ReserveSpace_def next_fit_def sel_demo_def el_blank_def
        InitialiseBufferManager_def sizeof_Event_def sizeof_DataContainer_def ALIGN_UP_Block_def Let_def
        upt_rec[of 16] upt_rec[of 17] upt_rec[of 32] upt_rec[of 33] container_bytes_def link_container_def deref_def)
  moreover have "el_ok sel_demo1" using sel_demo1_rep by (auto simp: el_ok_def)
  ultimately show ?thesis
    using AddEventData_correct[OF next_fit_ok _ _ r, of 2 "Some [65, 0]" "[Some 65, Some 0]" 1 1] sel_demo1_rep
    by (auto simp: container_bytes_def)
qed

text \<open>
  C17: Inserting an event that is not in the list yet never faults: it becomes the last of
  the events a reader finds, marked ready, with all data as before, the semaphore (if one is
  set) is released exactly once, and the doubly-linked list stays well formed.
\<close>

theorem InsertEvent_correct:
  assumes "el_ok s" "event \<in> dom (el_events (el s))" "read_events s = Some evs" "event \<notin> set evs"
  shows "\<exists>s'. InsertEvent s event = Inr s' \<and> el_ok s' \<and> read_events s' = Some (evs @ [event]) \<and>
     map_option ev_ready (el_events (el s') event) = Some 1 \<and>
     (\<forall>b \<in> dom (el_events (el s)). read_data s' b = read_data s b) \<and>
     semaphore_count s' = semaphore_count s + (if semaphore s = NULL then 0 else 1)"
  by (rule InsertEvent_reads[OF assms])

theorem InsertEvent_correct_witness:
  "\<exists>s'. InsertEvent sel_demo1 0x80001118 = Inr s' \<and> read_events s' = Some [0x80001118]"
proof -
  have "read_events sel_demo1 = Some []" "el_ok sel_demo1"
    using sel_demo1_rep read_events_rep[of sel_demo1 "[]"] by (auto simp: el_ok_def)
  with InsertEvent_correct[of sel_demo1 "0x80001118" "[]"] sel_demo1_rep show ?thesis by auto
qed

text \<open>
  The request that maps the list into a process checks its arguments only after the
  mapping is made. A first request with a buffer that is too small, or that fails the
  probes, maps the list and is refused; from then on every further request, well formed or
  not, is refused, with STATUS_SEVERITY_ERROR, a code that NT_SUCCESS takes for a success,
  and hands nothing back.
\<close>

theorem ioctl_refused_for_ever:
  assumes "GetSharedEventListIoctlHandler s req ans = (status, s', reply)"
    and "u_buffer (shared_buffer s) = NULL" "user_mapping ans = Some a" "a \<noteq> NULL"
    and "InputBufferLength req < 4 \<or> OutputBufferLength req < 4 \<or> \<not> probes_ok ans"
  shows "status \<noteq> STATUS_SUCCESS \<and> reply = None \<and>
     (\<forall>req' ans'. GetSharedEventListIoctlHandler s' req' ans' = (STATUS_SEVERITY_ERROR, s', None)) \<and>
     NT_SUCCESS STATUS_SEVERITY_ERROR"
  using assms
  by (auto simp: GetSharedEventListIoctlHandler_def MapUserSpaceSharedBuffer_def NT_SUCCESS_def Let_def split: if_splits)

theorem ioctl_refused_for_ever_witness:
  "\<exists>s'. GetSharedEventListIoctlHandler sel_demo \<lparr>UserBuffer = 0x700, Type3InputBuffer = 0x10, InputBufferLength = 0, OutputBufferLength = 4\<rparr>
       \<lparr>current_process = 8, user_mapping = Some 0x900, probes_ok = True, semaphore_object = 0x500\<rparr> =
       (STATUS_BUFFER_TOO_SMALL, s', None) \<and>
     (\<forall>req' ans'. GetSharedEventListIoctlHandler s' req' ans' = (STATUS_SEVERITY_ERROR, s', None))"
proof -
  let ?req = "\<lparr>UserBuffer = 0x700, Type3InputBuffer = 0x10, InputBufferLength = 0, OutputBufferLength = 4\<rparr>"
  let ?ans = "\<lparr>current_process = 8, user_mapping = Some 0x900, probes_ok = True, semaphore_object = 0x500\<rparr>"
  obtain s' where r: "GetSharedEventListIoctlHandler sel_demo ?req ?ans = (STATUS_BUFFER_TOO_SMALL, s', None)"
    by (simp add: GetSharedEventListIoctlHandler_def MapUserSpaceSharedBuffer_def sel_demo_def)
  from ioctl_refused_for_ever[OF r, of "0x900"] r show ?thesis by (auto simp: sel_demo_def)
qed

end
