(* ===== verification/KeyStore.thy ===== *)
theory KeyStore
  imports Prelude
begin

text \<open>
  The interface the network monitor uses of its maps: a store from 32-bit keys to pointers.
  A key may have several values, oldest first; a lookup sees the oldest, NULL when there is
  none; an insert may fail for lack of memory; a removal drops the oldest. The laws are
  what the hash map provides (theory HashMap interprets the locale on its operations) and
  what the connection table and the node table rely on.
\<close>

locale key_store =
  fixes insert :: "'s \<Rightarrow> u32 \<Rightarrow> addr \<Rightarrow> (bool \<times> 's) option"
    and lookup :: "'s \<Rightarrow> u32 \<Rightarrow> addr option"
    and remove :: "'s \<Rightarrow> u32 \<Rightarrow> (bool \<times> 's) option"
    and invar :: "'s \<Rightarrow> bool"
    and vals :: "'s \<Rightarrow> u32 \<Rightarrow> addr list"
  assumes insert_law: "invar s \<Longrightarrow> \<exists>ok s'. insert s k v = Some (ok, s') \<and> invar s' \<and>
      (\<forall>k'. vals s' k' = vals s k' @ (if ok \<and> k' = k then [v] else []))"
    and lookup_law: "invar s \<Longrightarrow> lookup s k = Some (case vals s k of [] \<Rightarrow> NULL | v # _ \<Rightarrow> v)"
    and remove_law: "invar s \<Longrightarrow> \<exists>s'. remove s k = Some (vals s k \<noteq> [], s') \<and> invar s' \<and>
      (\<forall>k'. vals s' k' = (if k' = k then tl (vals s k) else vals s k'))"
begin

lemma insertE:
  assumes "invar s" "insert s k v = Some (ok, s')"
  shows "invar s'" and "vals s' k' = vals s k' @ (if ok \<and> k' = k then [v] else [])"
  using insert_law[OF assms(1), of k v] assms(2) by auto

lemma removeE:
  assumes "invar s" "remove s k = Some (ok, s')"
  shows "invar s'" and "vals s' k' = (if k' = k then tl (vals s k) else vals s k')"
    and "ok \<longleftrightarrow> vals s k \<noteq> []"
  using remove_law[OF assms(1), of k] assms(2) by auto

lemma insert_total: "invar s \<Longrightarrow> insert s k v \<noteq> None"
  using insert_law[of s k v] by auto

lemma lookup_insert_absent:
  "invar s \<Longrightarrow> insert s k v = Some (True, s') \<Longrightarrow> vals s k = [] \<Longrightarrow> lookup s' k = Some v"
  using insertE[of s k v True s'] by (simp add: lookup_law)

lemma lookup_insert_present:
  "invar s \<Longrightarrow> insert s k v = Some (ok, s') \<Longrightarrow> vals s k \<noteq> [] \<Longrightarrow> lookup s' k = lookup s k"
  using insertE[of s k v ok s'] by (auto simp: lookup_law neq_Nil_conv)

lemma lookup_insert_other:
  "invar s \<Longrightarrow> insert s k v = Some (ok, s') \<Longrightarrow> k' \<noteq> k \<Longrightarrow> lookup s' k' = lookup s k'"
  using insertE[of s k v ok s'] by (simp add: lookup_law)

lemma lookup_remove_other:
  "invar s \<Longrightarrow> remove s k = Some (ok, s') \<Longrightarrow> k' \<noteq> k \<Longrightarrow> lookup s' k' = lookup s k'"
  using removeE[of s k ok s'] by (simp add: lookup_law)

text \<open>A store in which no key has two values is kept so by inserts of absent keys.\<close>

definition single_valued :: "'s \<Rightarrow> bool" where
  "single_valued s \<longleftrightarrow> (\<forall>k. length (vals s k) \<le> 1)"

lemma single_valued_insert:
  "invar s \<Longrightarrow> single_valued s \<Longrightarrow> vals s k = [] \<Longrightarrow> insert s k v = Some (ok, s') \<Longrightarrow> single_valued s'"
  using insertE[of s k v ok s'] by (auto simp: single_valued_def)

lemma single_valued_remove:
  assumes "invar s" "single_valued s" "remove s k = Some (ok, s')" shows "single_valued s'"
proof -
  have "length (tl (vals s k)) \<le> 1" using assms(2) by (simp add: single_valued_def le_diff_conv trans_le_add1)
  then show ?thesis using removeE[OF assms(1,3)] assms(2) by (simp add: single_valued_def)
qed

lemma lookup_remove_same:
  assumes "invar s" "single_valued s" "remove s k = Some (ok, s')" shows "lookup s' k = Some NULL"
proof -
  have "tl (vals s k) = []"
    using assms(2) by (cases "vals s k") (auto simp: single_valued_def dest: spec[of _ k])
  then show ?thesis using removeE[OF assms(1,3)] by (simp add: lookup_law)
qed

text \<open>What the absent key's lookup says, when no NULL is stored.\<close>

lemma lookup_NULL_iff:
  "invar s \<Longrightarrow> NULL \<notin> set (vals s k) \<Longrightarrow> lookup s k = Some NULL \<longleftrightarrow> vals s k = []"
  by (auto simp: lookup_law split: list.splits)

lemma remove_insert:
  assumes "invar s" "vals s k = []" "insert s k v = Some (True, s1)" "remove s1 k = Some (ok, s2)"
  shows "ok \<and> (\<forall>k'. vals s2 k' = vals s k')"
  using insertE[OF assms(1,3)] removeE[OF _ assms(4)] assms(2) by simp

end

end
