(* ===== verification/HashMap.thy ===== *)
theory HashMap
  imports KeyStore
begin

text \<open>
  Common/HashMap.c: the chained hash map of the drivers. A map has HASH_MAP_SIZE slots;
  a slot points to an Entry, made on first use, that holds the head and the tail of a
  doubly-linked list of Pairs. The Entries and the Pairs are pool memory, so the state has
  one heap for each. The locks of the source are initialised and never taken.

  A result None of an operation means that the code has no defined result there: it follows
  a pointer to memory that is not allocated, or walks a list that never ends. The lemmas
  show that this cannot happen on a well-formed map.
\<close>

definition HASH_MAP_SIZE :: nat where
  "HASH_MAP_SIZE = 1024"

record Pair_hm =
  next_pair :: addr
  prev_pair :: addr
  pair_key :: u32
  pair_value :: addr

record Entry =
  head_pair :: addr
  tail_pair :: addr

record HashMap =
  slots :: "nat \<Rightarrow> addr"
  entries :: "addr \<rightharpoonup> Entry"
  pairs :: "addr \<rightharpoonup> Pair_hm"
  answers :: "addr list"

definition hash_of :: "u32 \<Rightarrow> nat" where
  "hash_of key = unat key mod HASH_MAP_SIZE"

lemma hash_of_less [simp]: "hash_of k < HASH_MAP_SIZE"
  by (simp add: hash_of_def HASH_MAP_SIZE_def)

section \<open>The operations\<close>

definition InitialiseHashMap :: "HashMap \<Rightarrow> bool \<times> HashMap" where
  "InitialiseHashMap hm = (True, hm\<lparr>slots := \<lambda>_. NULL\<rparr>)"

text \<open>The slot's Entry, made when there is none yet.\<close>

definition ensure_entry :: "HashMap \<Rightarrow> nat \<Rightarrow> bool \<times> HashMap" where
  "ensure_entry hm hash =
     (if slots hm hash = NULL then
        (let (e, rest) = next_answer (answers hm);
             hm' = hm\<lparr>slots := (slots hm)(hash := e), answers := rest\<rparr>
         in if e = NULL then (False, hm')
            else (True, hm'\<lparr>entries := (entries hm)(e \<mapsto> \<lparr>head_pair = NULL, tail_pair = NULL\<rparr>)\<rparr>))
      else (True, hm))"

text \<open>The new Pair linked behind the tail of the slot's list.\<close>

definition link_pair :: "HashMap \<Rightarrow> nat \<Rightarrow> addr \<Rightarrow> u32 \<Rightarrow> addr \<Rightarrow> HashMap option" where
  "link_pair hm hash pair key val =
     (case entries hm (slots hm hash) of None \<Rightarrow> None
      | Some entry \<Rightarrow>
          let tail = tail_pair entry;
              ps = (pairs hm)(pair \<mapsto> \<lparr>next_pair = NULL, prev_pair = tail, pair_key = key, pair_value = val\<rparr>);
              es = (entries hm)(slots hm hash \<mapsto>
                     \<lparr>head_pair = (if head_pair entry = NULL then pair else head_pair entry), tail_pair = pair\<rparr>)
          in if tail \<noteq> NULL then
               (case ps tail of None \<Rightarrow> None
                | Some t \<Rightarrow> Some (hm\<lparr>pairs := ps(tail \<mapsto> t\<lparr>next_pair := pair\<rparr>), entries := es\<rparr>))
             else Some (hm\<lparr>pairs := ps, entries := es\<rparr>))"

definition InsertHashMap :: "HashMap \<Rightarrow> u32 \<Rightarrow> addr \<Rightarrow> (bool \<times> HashMap) option" where
  "InsertHashMap hm key val =
     (let (ok, hm1) = ensure_entry hm (hash_of key)
      in if \<not> ok then Some (False, hm1)
         else (let (pair, rest) = next_answer (answers hm1);
                   hm2 = hm1\<lparr>answers := rest\<rparr>
               in if pair = NULL then Some (False, hm2)
                  else (case link_pair hm2 (hash_of key) pair key val of
                          None \<Rightarrow> None | Some hm3 \<Rightarrow> Some (True, hm3))))"

partial_function (option) find_pair :: "(addr \<rightharpoonup> Pair_hm) \<Rightarrow> addr \<Rightarrow> u32 \<Rightarrow> addr option" where
  "find_pair h pair key =
     (if pair = NULL then Some NULL
      else case h pair of None \<Rightarrow> None
           | Some p \<Rightarrow> if pair_key p = key then Some pair else find_pair h (next_pair p) key)"

definition FindHashMap :: "HashMap \<Rightarrow> u32 \<Rightarrow> addr option" where
  "FindHashMap hm key =
     (if slots hm (hash_of key) = NULL then Some NULL
      else case entries hm (slots hm (hash_of key)) of None \<Rightarrow> None
           | Some entry \<Rightarrow> find_pair (pairs hm) (head_pair entry) key)"

definition FindHashMapValue :: "HashMap \<Rightarrow> u32 \<Rightarrow> addr option" where
  "FindHashMapValue hm key =
     (case FindHashMap hm key of None \<Rightarrow> None
      | Some pair \<Rightarrow> if pair = NULL then Some NULL else map_option pair_value (pairs hm pair))"

text \<open>The two neighbours of a Pair made to bypass it.\<close>

definition bypass_next :: "(addr \<rightharpoonup> Pair_hm) \<Rightarrow> Pair_hm \<Rightarrow> (addr \<rightharpoonup> Pair_hm) option" where
  "bypass_next h p =
     (if next_pair p \<noteq> NULL then
        (case h (next_pair p) of None \<Rightarrow> None
         | Some n \<Rightarrow> Some (h(next_pair p \<mapsto> n\<lparr>prev_pair := prev_pair p\<rparr>)))
      else Some h)"

definition bypass_prev :: "(addr \<rightharpoonup> Pair_hm) \<Rightarrow> Pair_hm \<Rightarrow> (addr \<rightharpoonup> Pair_hm) option" where
  "bypass_prev h p =
     (if prev_pair p \<noteq> NULL then
        (case h (prev_pair p) of None \<Rightarrow> None
         | Some n \<Rightarrow> Some (h(prev_pair p \<mapsto> n\<lparr>next_pair := next_pair p\<rparr>)))
      else Some h)"

definition unlink_entry :: "Entry \<Rightarrow> addr \<Rightarrow> Pair_hm \<Rightarrow> Entry" where
  "unlink_entry entry pair p =
     \<lparr>head_pair = (if head_pair entry = pair then next_pair p else head_pair entry),
      tail_pair = (if tail_pair entry = pair then prev_pair p else tail_pair entry)\<rparr>"

definition RemoveHashMap :: "HashMap \<Rightarrow> u32 \<Rightarrow> (bool \<times> HashMap) option" where
  "RemoveHashMap hm key =
     (case FindHashMap hm key of None \<Rightarrow> None
      | Some pair \<Rightarrow>
          if pair = NULL then Some (False, hm)
          else Option.bind (pairs hm pair) (\<lambda>p.
               Option.bind (bypass_next (pairs hm) p) (\<lambda>h1.
               Option.bind (h1 pair) (\<lambda>p1.
               Option.bind (bypass_prev h1 p1) (\<lambda>h2.
               Option.bind (h2 pair) (\<lambda>p2.
               Option.bind (entries hm (slots hm (hash_of key))) (\<lambda>entry.
                 Some (True, hm\<lparr>entries := (entries hm)(slots hm (hash_of key) \<mapsto> unlink_entry entry pair p2),
                                pairs := h2(pair := None)\<rparr>))))))))"

partial_function (option) visit_chain ::
    "(u32 \<Rightarrow> addr \<Rightarrow> 's \<Rightarrow> 's) \<Rightarrow> (addr \<rightharpoonup> Pair_hm) \<Rightarrow> addr \<Rightarrow> 's \<Rightarrow> 's option" where
  "visit_chain visitor h pair s =
     (if pair = NULL then Some s
      else case h pair of None \<Rightarrow> None
           | Some p \<Rightarrow> visit_chain visitor h (next_pair p) (visitor (pair_key p) (pair_value p) s))"

fun visit_slots :: "(u32 \<Rightarrow> addr \<Rightarrow> 's \<Rightarrow> 's) \<Rightarrow> HashMap \<Rightarrow> nat list \<Rightarrow> 's \<Rightarrow> 's option" where
  "visit_slots visitor hm [] s = Some s"
| "visit_slots visitor hm (i # is) s =
     (if slots hm i = NULL then visit_slots visitor hm is s
      else case entries hm (slots hm i) of None \<Rightarrow> None
           | Some entry \<Rightarrow> Option.bind (visit_chain visitor (pairs hm) (head_pair entry) s)
                            (visit_slots visitor hm is))"

definition IterateHashMap :: "HashMap \<Rightarrow> (u32 \<Rightarrow> addr \<Rightarrow> 's \<Rightarrow> 's) \<Rightarrow> 's \<Rightarrow> 's option" where
  "IterateHashMap hm visitor s = visit_slots visitor hm [0..<HASH_MAP_SIZE] s"

partial_function (option) free_chain :: "(addr \<rightharpoonup> Pair_hm) \<Rightarrow> addr \<Rightarrow> (addr \<rightharpoonup> Pair_hm) option" where
  "free_chain h pair =
     (if pair = NULL then Some h
      else case h pair of None \<Rightarrow> None
           | Some p \<Rightarrow> free_chain (h(pair := None)) (next_pair p))"

fun free_slots :: "HashMap \<Rightarrow> nat list \<Rightarrow> HashMap option" where
  "free_slots hm [] = Some hm"
| "free_slots hm (i # is) =
     (if slots hm i = NULL then free_slots hm is
      else case entries hm (slots hm i) of None \<Rightarrow> None
           | Some entry \<Rightarrow> Option.bind (free_chain (pairs hm) (head_pair entry)) (\<lambda>h.
               free_slots (hm\<lparr>pairs := h, entries := (entries hm)(slots hm i := None)\<rparr>) is))"

definition DestroyHashMap :: "HashMap \<Rightarrow> HashMap option" where
  "DestroyHashMap hm = free_slots hm [0..<HASH_MAP_SIZE]"

section \<open>The representation invariant\<close>

text \<open>
  \<open>dseg h prv p ps lst nxt\<close>: from pointer \<open>p\<close> the next fields lead through the pairs at \<open>ps\<close>
  to \<open>nxt\<close>, the prev fields lead back from \<open>lst\<close> to \<open>prv\<close>.
\<close>

fun dseg :: "(addr \<rightharpoonup> Pair_hm) \<Rightarrow> addr \<Rightarrow> addr \<Rightarrow> addr list \<Rightarrow> addr \<Rightarrow> addr \<Rightarrow> bool" where
  "dseg h prv p [] lst nxt \<longleftrightarrow> p = nxt \<and> lst = prv"
| "dseg h prv p (a # ps) lst nxt \<longleftrightarrow>
     p = a \<and> a \<noteq> NULL \<and> (\<exists>pr. h a = Some pr \<and> prev_pair pr = prv \<and> dseg h a (next_pair pr) ps lst nxt)"

lemma dseg_append:
  "dseg h prv p (xs @ ys) lst nxt \<longleftrightarrow> (\<exists>m q. dseg h prv p xs m q \<and> dseg h m q ys lst nxt)"
  by (induction xs arbitrary: prv p) auto

lemma dseg_upd [simp]: "a \<notin> set ps \<Longrightarrow> dseg (h(a := v)) prv p ps lst nxt = dseg h prv p ps lst nxt"
  by (induction ps arbitrary: prv p) auto

lemma dseg_last: "dseg h prv p ps lst nxt \<Longrightarrow> lst = (if ps = [] then prv else last ps)"
  by (induction ps arbitrary: prv p) auto

lemma dseg_hd: "dseg h prv p ps lst nxt \<Longrightarrow> p = (if ps = [] then nxt else hd ps)"
  by (cases ps) auto

lemma dseg_dom: "dseg h prv p ps lst nxt \<Longrightarrow> set ps \<subseteq> dom h"
  by (induction ps arbitrary: prv p) auto

lemma dseg_not_NULL: "dseg h prv p ps lst nxt \<Longrightarrow> NULL \<notin> set ps"
  by (induction ps arbitrary: prv p) auto

text \<open>Relinking the last pair of a segment to another successor, the first to another predecessor.\<close>

lemma dseg_relink_last:
  "dseg h prv p (xs @ [a]) lst nxt \<Longrightarrow> distinct (xs @ [a]) \<Longrightarrow> h a = Some pr \<Longrightarrow>
     dseg (h(a \<mapsto> pr\<lparr>next_pair := n\<rparr>)) prv p (xs @ [a]) lst n"
  by (fastforce simp: dseg_append)

lemma dseg_relink_first:
  "dseg h prv p (a # xs) lst nxt \<Longrightarrow> a \<notin> set xs \<Longrightarrow> h a = Some pr \<Longrightarrow>
     dseg (h(a \<mapsto> pr\<lparr>prev_pair := n\<rparr>)) n p (a # xs) lst nxt"
  by auto

lemma dseg_snoc:
  assumes "dseg h NULL p ps lst NULL" "a \<notin> set ps" "a \<noteq> NULL" "distinct ps"
    and "h' = (if ps = [] then h(a \<mapsto> new) else (h(a \<mapsto> new))(lst \<mapsto> (the (h lst))\<lparr>next_pair := a\<rparr>))"
    and "prev_pair new = lst" "next_pair new = NULL"
  shows "dseg h' NULL (if p = NULL then a else p) (ps @ [a]) a NULL"
proof (cases ps rule: rev_cases)
  case Nil
  with assms show ?thesis by auto
next
  case (snoc xs b)
  with assms have lst: "lst = b" and b: "b \<noteq> a" "b \<in> dom h"
    using dseg_last dseg_dom by (fastforce, auto dest: dseg_dom)
  then obtain pb where pb: "h b = Some pb" by auto
  have "dseg (h(a \<mapsto> new)) NULL p (xs @ [b]) b NULL"
    using assms snoc lst by simp
  then have "dseg ((h(a \<mapsto> new))(b \<mapsto> pb\<lparr>next_pair := a\<rparr>)) NULL p (xs @ [b]) b a"
    using assms(4) snoc pb b by (intro dseg_relink_last) auto
  moreover have "p \<noteq> NULL"
    using assms(1) snoc by (cases xs) auto
  ultimately show ?thesis
    using assms snoc lst pb b unfolding dseg_append[of _ _ _ ps] by auto
qed

text \<open>The address lists of the slots and what makes them a representation of the map.\<close>

definition hm_rep :: "HashMap \<Rightarrow> (nat \<Rightarrow> addr list) \<Rightarrow> bool" where
  "hm_rep hm C \<longleftrightarrow>
     (\<forall>i < HASH_MAP_SIZE.
        (if slots hm i = NULL then C i = []
         else \<exists>e. entries hm (slots hm i) = Some e \<and>
                  dseg (pairs hm) NULL (head_pair e) (C i) (tail_pair e) NULL) \<and>
        distinct (C i) \<and>
        (\<forall>a \<in> set (C i). \<forall>pr. pairs hm a = Some pr \<longrightarrow> hash_of (pair_key pr) = i) \<and>
        (\<forall>j < HASH_MAP_SIZE. slots hm i \<noteq> NULL \<longrightarrow> slots hm i = slots hm j \<longrightarrow> i = j))"

lemma hm_repI:
  assumes "\<And>i. i < HASH_MAP_SIZE \<Longrightarrow> S i = NULL \<Longrightarrow> C i = []"
    and "\<And>i. i < HASH_MAP_SIZE \<Longrightarrow> S i \<noteq> NULL \<Longrightarrow> \<exists>e. E (S i) = Some e \<and>
           dseg H NULL (head_pair e) (C i) (tail_pair e) NULL"
    and "\<And>i. i < HASH_MAP_SIZE \<Longrightarrow> distinct (C i)"
    and "\<And>i a pr. i < HASH_MAP_SIZE \<Longrightarrow> a \<in> set (C i) \<Longrightarrow> H a = Some pr \<Longrightarrow> hash_of (pair_key pr) = i"
    and "\<And>i j. i < HASH_MAP_SIZE \<Longrightarrow> j < HASH_MAP_SIZE \<Longrightarrow> S i \<noteq> NULL \<Longrightarrow> S i = S j \<Longrightarrow> i = j"
    and "slots hm = S" "entries hm = E" "pairs hm = H"
  shows "hm_rep hm C"
  unfolding hm_rep_def assms(6-8) using assms(1-5) by (auto simp del: fun_upd_apply)

lemma hm_rep_seg:
  assumes "hm_rep hm C" "i < HASH_MAP_SIZE" "slots hm i \<noteq> NULL"
  obtains e where "entries hm (slots hm i) = Some e"
    "dseg (pairs hm) NULL (head_pair e) (C i) (tail_pair e) NULL"
  using assms unfolding hm_rep_def by force

lemma hm_rep_empty: "hm_rep hm C \<Longrightarrow> i < HASH_MAP_SIZE \<Longrightarrow> slots hm i = NULL \<Longrightarrow> C i = []"
  unfolding hm_rep_def by force

lemma hm_rep_distinct: "hm_rep hm C \<Longrightarrow> i < HASH_MAP_SIZE \<Longrightarrow> distinct (C i)"
  unfolding hm_rep_def by blast

lemma hm_rep_key:
  "hm_rep hm C \<Longrightarrow> i < HASH_MAP_SIZE \<Longrightarrow> a \<in> set (C i) \<Longrightarrow> pairs hm a = Some pr \<Longrightarrow> hash_of (pair_key pr) = i"
  unfolding hm_rep_def by blast

lemma hm_rep_inj:
  "hm_rep hm C \<Longrightarrow> i < HASH_MAP_SIZE \<Longrightarrow> j < HASH_MAP_SIZE \<Longrightarrow> slots hm i \<noteq> NULL \<Longrightarrow>
     slots hm i = slots hm j \<Longrightarrow> i = j"
  unfolding hm_rep_def by blast

lemma hm_rep_dom:
  assumes "hm_rep hm C" "i < HASH_MAP_SIZE" shows "set (C i) \<subseteq> dom (pairs hm)"
proof (cases "slots hm i = NULL")
  case True with assms show ?thesis by (simp add: hm_rep_empty)
next
  case False with assms show ?thesis by (metis hm_rep_seg dseg_dom)
qed

lemma hm_rep_disjoint:
  assumes "hm_rep hm C" "i < HASH_MAP_SIZE" "j < HASH_MAP_SIZE" "a \<in> set (C i)" "a \<in> set (C j)"
  shows "i = j"
  using assms hm_rep_dom[OF assms(1,2)] hm_rep_key[OF assms(1)] by blast

section \<open>The association list of a slot\<close>

text \<open>What the slots hold, read off the heap: the key and value pairs in list order.\<close>

partial_function (option) chain_of :: "(addr \<rightharpoonup> Pair_hm) \<Rightarrow> addr \<Rightarrow> (u32 \<times> addr) list option" where
  "chain_of h pair =
     (if pair = NULL then Some []
      else case h pair of None \<Rightarrow> None
           | Some p \<Rightarrow> Option.bind (chain_of h (next_pair p)) (\<lambda>kvs. Some ((pair_key p, pair_value p) # kvs)))"

definition bucket :: "HashMap \<Rightarrow> nat \<Rightarrow> (u32 \<times> addr) list" where
  "bucket hm i =
     (case entries hm (slots hm i) of
        Some e \<Rightarrow> if slots hm i = NULL then [] else (case chain_of (pairs hm) (head_pair e) of Some kvs \<Rightarrow> kvs | None \<Rightarrow> [])
      | None \<Rightarrow> [])"

definition hm_contents :: "HashMap \<Rightarrow> (u32 \<times> addr) list" where
  "hm_contents hm = concat (map (bucket hm) [0..<HASH_MAP_SIZE])"

text \<open>The map owns the pool memory of its heaps: nothing is lost, nothing is left over.\<close>

definition hm_own :: "HashMap \<Rightarrow> (nat \<Rightarrow> addr list) \<Rightarrow> bool" where
  "hm_own hm C \<longleftrightarrow> dom (pairs hm) = (\<Union>i \<in> {..<HASH_MAP_SIZE}. set (C i)) \<and>
     dom (entries hm) = slots hm ` {..<HASH_MAP_SIZE} - {NULL}"

lemma UN_upd:
  fixes i n :: nat assumes "i < n"
  shows "(\<Union>j \<in> {..<n}. set ((C(i := l)) j)) = set l \<union> (\<Union>j \<in> {..<n} - {i}. set (C j))"
proof -
  have "{..<n} = insert i ({..<n} - {i})" using assms by auto
  then have "(\<Union>j \<in> {..<n}. set ((C(i := l)) j)) = set l \<union> (\<Union>j \<in> {..<n} - {i}. set ((C(i := l)) j))"
    by (metis UN_insert fun_upd_same)
  also have "(\<Union>j \<in> {..<n} - {i}. set ((C(i := l)) j)) = (\<Union>j \<in> {..<n} - {i}. set (C j))" by auto
  finally show ?thesis .
qed

lemma UN_same:
  fixes i n :: nat assumes "i < n"
  shows "(\<Union>j \<in> {..<n}. set (C j)) = set (C i) \<union> (\<Union>j \<in> {..<n} - {i}. set (C j))"
  using UN_upd[OF assms, of C "C i"] by (simp only: fun_upd_triv)

lemma hm_own_add:
  assumes "hm_own hm C" "i < HASH_MAP_SIZE" "slots hm' = slots hm" "dom (entries hm') = dom (entries hm)"
    and "dom (pairs hm') = insert a (dom (pairs hm))" "set l = insert a (set (C i))"
  shows "hm_own hm' (C(i := l))"
  using assms(1) unfolding hm_own_def assms(3-6) UN_upd[OF assms(2)] UN_same[OF assms(2)] by simp

lemma hm_own_del:
  assumes "hm_own hm C" "i < HASH_MAP_SIZE" "slots hm' = slots hm" "dom (entries hm') = dom (entries hm)"
    and "dom (pairs hm') = dom (pairs hm) - {a}" "set (C i) = insert a (set l)" "a \<notin> set l"
    and "\<And>j. j < HASH_MAP_SIZE \<Longrightarrow> j \<noteq> i \<Longrightarrow> a \<notin> set (C j)"
  shows "hm_own hm' (C(i := l))"
proof -
  have "a \<notin> (\<Union>j \<in> {..<HASH_MAP_SIZE} - {i}. set (C j))" using assms(8) by auto
  with assms(1,7) show ?thesis
    unfolding hm_own_def assms(3-6) UN_upd[OF assms(2)] UN_same[OF assms(2), of C] by auto
qed

definition hm_wf :: "HashMap \<Rightarrow> bool" where
  "hm_wf hm \<longleftrightarrow> (\<exists>C. hm_rep hm C \<and> hm_own hm C)"

definition hm_fresh :: "HashMap \<Rightarrow> bool" where
  "hm_fresh hm \<longleftrightarrow> answers_fresh (answers hm) (dom (entries hm) \<union> dom (pairs hm) \<union> slots hm ` {..<HASH_MAP_SIZE})"

definition kv_at :: "(addr \<rightharpoonup> Pair_hm) \<Rightarrow> addr \<Rightarrow> u32 \<times> addr" where
  "kv_at h a = (pair_key (the (h a)), pair_value (the (h a)))"

lemma kv_at_upd [simp]: "a \<noteq> b \<Longrightarrow> kv_at (h(b := v)) a = kv_at h a"
  by (simp add: kv_at_def)

lemma map_kv_at_upd [simp]: "b \<notin> set ps \<Longrightarrow> map (kv_at (h(b := v))) ps = map (kv_at h) ps"
  by (auto simp: kv_at_def)

lemma chain_of_dseg: "dseg h prv p ps lst NULL \<Longrightarrow> chain_of h p = Some (map (kv_at h) ps)"
proof (induction ps arbitrary: prv p)
  case Nil
  then show ?case by (simp add: chain_of.simps)
next
  case (Cons a ps)
  then obtain pr where "h a = Some pr" "chain_of h (next_pair pr) = Some (map (kv_at h) ps)"
    by auto
  with Cons.prems show ?case by (subst chain_of.simps) (simp add: kv_at_def)
qed

lemma bucket_rep:
  assumes "hm_rep hm C" "i < HASH_MAP_SIZE"
  shows "bucket hm i = map (kv_at (pairs hm)) (C i)"
proof (cases "slots hm i = NULL")
  case True
  with assms show ?thesis by (simp add: bucket_def hm_rep_empty split: option.split)
next
  case False
  with assms obtain e where "entries hm (slots hm i) = Some e"
    "dseg (pairs hm) NULL (head_pair e) (C i) (tail_pair e) NULL"
    by (rule hm_rep_seg)
  with False show ?thesis by (simp add: bucket_def chain_of_dseg)
qed

text \<open>The keys of a slot all hash to it.\<close>

lemma bucket_hash:
  assumes "hm_wf hm" "i < HASH_MAP_SIZE" "(k, v) \<in> set (bucket hm i)"
  shows "hash_of k = i"
proof -
  from assms(1) obtain C where C: "hm_rep hm C" by (auto simp: hm_wf_def)
  with assms obtain a where a: "a \<in> set (C i)" "(k, v) = kv_at (pairs hm) a"
    by (auto simp: bucket_rep)
  with hm_rep_dom[OF C assms(2)] obtain pr where "pairs hm a = Some pr" by blast
  with a hm_rep_key[OF C assms(2) a(1)] show ?thesis by (simp add: kv_at_def)
qed

section \<open>Lookup\<close>

lemma find_pair_dseg:
  "dseg h prv p ps lst NULL \<Longrightarrow>
     find_pair h p key = Some (case find (\<lambda>a. fst (kv_at h a) = key) ps of None \<Rightarrow> NULL | Some a \<Rightarrow> a)"
proof (induction ps arbitrary: prv p)
  case Nil
  then show ?case by (simp add: find_pair.simps)
next
  case (Cons a ps)
  then obtain pr where "h a = Some pr" "dseg h a (next_pair pr) ps lst NULL" by auto
  with Cons show ?case by (subst find_pair.simps) (auto simp: kv_at_def)
qed

lemma find_map_of:
  "(case find (\<lambda>a. fst (kv_at h a) = key) ps of None \<Rightarrow> None | Some a \<Rightarrow> Some (snd (kv_at h a)))
     = map_of (map (kv_at h) ps) key"
  by (induction ps) (auto simp: kv_at_def)

lemma FindHashMap_rep:
  assumes "hm_rep hm C"
  shows "FindHashMap hm key =
    Some (case find (\<lambda>a. fst (kv_at (pairs hm) a) = key) (C (hash_of key)) of None \<Rightarrow> NULL | Some a \<Rightarrow> a)"
proof (cases "slots hm (hash_of key) = NULL")
  case True
  with assms hm_rep_empty[OF assms hash_of_less] show ?thesis by (simp add: FindHashMap_def)
next
  case False
  with assms obtain e where "entries hm (slots hm (hash_of key)) = Some e"
    "dseg (pairs hm) NULL (head_pair e) (C (hash_of key)) (tail_pair e) NULL"
    by (rule hm_rep_seg[OF _ hash_of_less])
  with False show ?thesis by (simp add: FindHashMap_def find_pair_dseg)
qed

lemma FindHashMap_wf:
  assumes "hm_wf hm"
  shows "\<exists>pair. FindHashMap hm key = Some pair \<and>
     (pair = NULL \<longleftrightarrow> map_of (bucket hm (hash_of key)) key = None)"
proof -
  from assms obtain C where C: "hm_rep hm C" by (auto simp: hm_wf_def)
  let ?f = "find (\<lambda>a. fst (kv_at (pairs hm) a) = key) (C (hash_of key))"
  have nn: "NULL \<notin> set (C (hash_of key))"
  proof (cases "slots hm (hash_of key) = NULL")
    case True with C show ?thesis by (simp add: hm_rep_empty)
  next
    case False with C show ?thesis by (metis hash_of_less hm_rep_seg dseg_not_NULL)
  qed
  have "map_of (bucket hm (hash_of key)) key = (case ?f of None \<Rightarrow> None | Some a \<Rightarrow> Some (snd (kv_at (pairs hm) a)))"
    using C by (simp add: bucket_rep find_map_of)
  moreover have "?f = Some a \<Longrightarrow> a \<noteq> NULL" for a
    using nn by (auto simp: find_Some_iff dest: nth_mem)
  ultimately show ?thesis
    using FindHashMap_rep[OF C, of key] by (auto split: option.splits)
qed

lemma FindHashMapValue_wf:
  assumes "hm_wf hm"
  shows "FindHashMapValue hm key =
    Some (case map_of (bucket hm (hash_of key)) key of None \<Rightarrow> NULL | Some v \<Rightarrow> v)"
proof -
  from assms obtain C where C: "hm_rep hm C" by (auto simp: hm_wf_def)
  let ?f = "find (\<lambda>a. fst (kv_at (pairs hm) a) = key) (C (hash_of key))"
  have b: "map_of (bucket hm (hash_of key)) key = (case ?f of None \<Rightarrow> None | Some a \<Rightarrow> Some (snd (kv_at (pairs hm) a)))"
    using C by (simp add: bucket_rep find_map_of)
  show ?thesis
  proof (cases ?f)
    case None
    then show ?thesis using b by (simp add: FindHashMapValue_def FindHashMap_rep[OF C])
  next
    case (Some a)
    then have "a \<in> set (C (hash_of key))" by (auto simp: find_Some_iff dest: nth_mem)
    moreover obtain pair where "FindHashMap hm key = Some pair" "pair \<noteq> NULL"
      using FindHashMap_wf[OF assms, of key] b Some by auto
    ultimately show ?thesis
      using Some b hm_rep_dom[OF C hash_of_less[of key]]
      by (auto simp: FindHashMapValue_def FindHashMap_rep[OF C] kv_at_def)
  qed
qed

section \<open>Insertion\<close>

lemma ensure_entry_rep:
  assumes C: "hm_rep hm C" and fresh: "hm_fresh hm" and i: "i < HASH_MAP_SIZE"
    and e: "ensure_entry hm i = (ok, hm1)"
  shows "hm_rep hm1 C \<and> hm_fresh hm1 \<and> pairs hm1 = pairs hm \<and> (ok \<longrightarrow> slots hm1 i \<noteq> NULL) \<and>
     (hm_own hm C \<longrightarrow> hm_own hm1 C)"
proof (cases "slots hm i = NULL")
  case False
  with e C fresh show ?thesis by (auto simp: ensure_entry_def)
next
  case True
  obtain a rest where a: "next_answer (answers hm) = (a, rest)" by fastforce
  let ?used = "dom (entries hm) \<union> dom (pairs hm) \<union> slots hm ` {..<HASH_MAP_SIZE}"
  have Ci: "C i = []" using C i True by (simp add: hm_rep_empty)
  show ?thesis
  proof (cases "a = NULL")
    case True
    with e a \<open>slots hm i = NULL\<close> have hm1: "hm1 = hm\<lparr>answers := rest\<rparr>" "\<not> ok"
      by (auto simp: ensure_entry_def fun_upd_idem)
    with C fresh a show ?thesis
      by (auto simp: hm_rep_def hm_fresh_def hm_own_def intro: answers_fresh_tail)
  next
    case False
    with e a \<open>slots hm i = NULL\<close> have hm1: "hm1 = hm\<lparr>slots := (slots hm)(i := a), answers := rest,
        entries := (entries hm)(a \<mapsto> \<lparr>head_pair = NULL, tail_pair = NULL\<rparr>)\<rparr>" "ok"
      by (auto simp: ensure_entry_def)
    have new: "a \<notin> ?used" "answers_fresh rest (insert a ?used)"
      using answers_fresh_head[OF _ a False] fresh by (auto simp: hm_fresh_def)
    have slot: "slots hm j \<noteq> a" "a \<noteq> slots hm j" if "j < HASH_MAP_SIZE" for j
      using new that by auto
    have "answers_fresh rest (dom (entries hm1) \<union> dom (pairs hm1) \<union> slots hm1 ` {..<HASH_MAP_SIZE})"
      using new(2) by (rule answers_fresh_mono) (auto simp: hm1)
    then have "hm_fresh hm1" by (simp add: hm_fresh_def hm1)
    moreover have "hm_rep hm1 C"
    proof (rule hm_repI[OF _ _ _ _ _ refl refl refl])
      fix j assume j: "j < HASH_MAP_SIZE" "slots hm1 j \<noteq> NULL"
      show "\<exists>e. entries hm1 (slots hm1 j) = Some e \<and>
           dseg (pairs hm1) NULL (head_pair e) (C j) (tail_pair e) NULL"
      proof (cases "j = i")
        case True then show ?thesis using Ci by (simp add: hm1)
      next
        case False
        with j have "slots hm j \<noteq> NULL" by (simp add: hm1)
        with C j obtain e where "entries hm (slots hm j) = Some e"
          "dseg (pairs hm) NULL (head_pair e) (C j) (tail_pair e) NULL" by (meson hm_rep_seg)
        with False slot[OF j(1)] show ?thesis by (simp add: hm1)
      qed
    qed (use C Ci False slot in \<open>auto simp: hm1 hm_rep_empty hm_rep_distinct hm_rep_key hm_rep_inj split: if_splits\<close>)
    moreover have "hm_own hm C \<longrightarrow> hm_own hm1 C"
      using i \<open>slots hm i = NULL\<close> False by (auto simp: hm_own_def hm1 image_iff)
    ultimately show ?thesis using False by (simp add: hm1)
  qed
qed

lemma link_pair_rep:
  assumes C: "hm_rep hm C" and i: "i < HASH_MAP_SIZE" and slot: "slots hm i \<noteq> NULL"
    and a: "a \<noteq> NULL" "a \<notin> dom (pairs hm)" and key: "hash_of key = i"
  shows "\<exists>hm'. link_pair hm i a key val = Some hm' \<and> hm_rep hm' (C(i := C i @ [a])) \<and>
     slots hm' = slots hm \<and> answers hm' = answers hm \<and>
     dom (entries hm') = dom (entries hm) \<and> dom (pairs hm') = insert a (dom (pairs hm)) \<and>
     kv_at (pairs hm') a = (key, val) \<and> (\<forall>b. b \<noteq> a \<longrightarrow> kv_at (pairs hm') b = kv_at (pairs hm) b)"
proof -
  obtain e where e: "entries hm (slots hm i) = Some e"
    and seg: "dseg (pairs hm) NULL (head_pair e) (C i) (tail_pair e) NULL"
    using C i slot by (rule hm_rep_seg)
  let ?new = "\<lparr>next_pair = NULL, prev_pair = tail_pair e, pair_key = key, pair_value = val\<rparr>"
  let ?h = "if C i = [] then (pairs hm)(a \<mapsto> ?new)
     else ((pairs hm)(a \<mapsto> ?new))(tail_pair e \<mapsto> (the (pairs hm (tail_pair e)))\<lparr>next_pair := a\<rparr>)"
  let ?es = "(entries hm)(slots hm i \<mapsto>
     \<lparr>head_pair = (if head_pair e = NULL then a else head_pair e), tail_pair = a\<rparr>)"
  have dist: "distinct (C i)" using C i by (rule hm_rep_distinct)
  have notin: "a \<notin> set (C j)" if "j < HASH_MAP_SIZE" for j
    using hm_rep_dom[OF C that] a by auto
  have tail: "tail_pair e = (if C i = [] then NULL else last (C i))"
    using dseg_last[OF seg] by simp
  have tail_in: "C i \<noteq> [] \<Longrightarrow> tail_pair e \<in> set (C i)" using tail by simp
  then have tail_ok: "C i \<noteq> [] \<Longrightarrow> tail_pair e \<noteq> NULL \<and> tail_pair e \<noteq> a \<and> tail_pair e \<in> dom (pairs hm)"
    using dseg_not_NULL[OF seg] notin[OF i] hm_rep_dom[OF C i] by auto
  have eq: "link_pair hm i a key val = Some (hm\<lparr>pairs := ?h, entries := ?es\<rparr>)"
    using e tail tail_ok by (auto simp: link_pair_def Let_def)
  have seg': "dseg ?h NULL (if head_pair e = NULL then a else head_pair e) (C i @ [a]) a NULL"
    using seg notin[OF i] a dist by (intro dseg_snoc[where new = ?new]) (auto simp: tail_ok)
  have other: "tail_pair e \<notin> set (C j)" if "j < HASH_MAP_SIZE" "j \<noteq> i" "C i \<noteq> []" for j
    using hm_rep_disjoint[OF C that(1) i _ tail_in] that by auto
  have keys: "hash_of (pair_key pr) = j"
    if "j < HASH_MAP_SIZE" "b \<in> set ((C(i := C i @ [a])) j)" "?h b = Some pr" for j b pr
    using that hm_rep_key[OF C] key tail_ok notin by (auto split: if_splits)
  have segs: "\<exists>f. ?es (slots hm j) = Some f \<and>
      dseg ?h NULL (head_pair f) ((C(i := C i @ [a])) j) (tail_pair f) NULL"
    if j: "j < HASH_MAP_SIZE" "slots hm j \<noteq> NULL" for j
  proof (cases "j = i")
    case True
    with seg' show ?thesis by simp
  next
    case False
    obtain f where "entries hm (slots hm j) = Some f"
      "dseg (pairs hm) NULL (head_pair f) (C j) (tail_pair f) NULL"
      using C j by (rule hm_rep_seg)
    moreover have "slots hm j \<noteq> slots hm i" using hm_rep_inj[OF C j(1) i j(2)] False by blast
    ultimately show ?thesis using notin[OF j(1)] other[OF j(1) False] False by auto
  qed
  have dists: "distinct ((C(i := C i @ [a])) j)" if "j < HASH_MAP_SIZE" for j
    using hm_rep_distinct[OF C that] notin[OF that] by auto
  have empt: "(C(i := C i @ [a])) j = []" if "j < HASH_MAP_SIZE" "slots hm j = NULL" for j
    using hm_rep_empty[OF C that] slot that by auto
  have "hm_rep (hm\<lparr>pairs := ?h, entries := ?es\<rparr>) (C(i := C i @ [a]))"
    by (rule hm_repI[where S = "slots hm" and H = ?h and E = ?es and C = "C(i := C i @ [a])",
          OF empt segs dists keys hm_rep_inj[OF C]]) simp_all
  moreover have "dom ?h = insert a (dom (pairs hm))" using tail_ok by auto
  moreover have "dom ?es = dom (entries hm)" using e by auto
  moreover have "kv_at ?h a = (key, val)" using tail_ok by (auto simp: kv_at_def)
  moreover have "kv_at ?h b = kv_at (pairs hm) b" if "b \<noteq> a" for b
    using that by (auto simp: kv_at_def)
  ultimately show ?thesis using eq by simp
qed

lemma InsertHashMap_wf:
  assumes "hm_wf hm" and "hm_fresh hm"
  shows "\<exists>ok hm'. InsertHashMap hm key val = Some (ok, hm') \<and> hm_wf hm' \<and> hm_fresh hm' \<and>
    (\<forall>i < HASH_MAP_SIZE. bucket hm' i = bucket hm i @ (if ok \<and> i = hash_of key then [(key, val)] else []))"
proof -
  from assms(1) obtain C where C: "hm_rep hm C" and own: "hm_own hm C" by (auto simp: hm_wf_def)
  let ?i = "hash_of key"
  obtain ok1 hm1 where e: "ensure_entry hm ?i = (ok1, hm1)" by fastforce
  have h1: "hm_rep hm1 C" "hm_fresh hm1" "pairs hm1 = pairs hm" "ok1 \<longrightarrow> slots hm1 ?i \<noteq> NULL" "hm_own hm1 C"
    using ensure_entry_rep[OF C assms(2) hash_of_less e] own by auto
  have b1: "bucket hm1 j = bucket hm j" if "j < HASH_MAP_SIZE" for j
    using h1 C that by (simp add: bucket_rep)
  obtain a rest where a: "next_answer (answers hm1) = (a, rest)" by fastforce
  let ?hm2 = "hm1\<lparr>answers := rest\<rparr>"
  have h2: "hm_rep ?hm2 C" using h1(1) by (simp add: hm_rep_def)
  have o2: "hm_own ?hm2 C" using h1(5) by (simp add: hm_own_def)
  have f2: "hm_fresh ?hm2" using h1(2) a by (auto simp: hm_fresh_def intro: answers_fresh_tail)
  have b2: "bucket ?hm2 j = bucket hm j" if "j < HASH_MAP_SIZE" for j
    using h2 h1(3) C that by (simp add: bucket_rep)
  consider "\<not> ok1" | "ok1" "a = NULL" | "ok1" "a \<noteq> NULL" by blast
  then show ?thesis
  proof cases
    case 1
    then show ?thesis using e h1 b1 by (auto simp: InsertHashMap_def hm_wf_def)
  next
    case 2
    then show ?thesis using e a h2 o2 f2 b2 by (auto simp: InsertHashMap_def hm_wf_def)
  next
    case 3
    let ?used = "dom (entries hm1) \<union> dom (pairs hm1) \<union> slots hm1 ` {..<HASH_MAP_SIZE}"
    have new: "a \<notin> ?used" "answers_fresh rest (insert a ?used)"
      using answers_fresh_head[OF _ a] "3"(2) h1(2) by (auto simp: hm_fresh_def)
    obtain hm3 where hm3: "link_pair ?hm2 ?i a key val = Some hm3" "hm_rep hm3 (C(?i := C ?i @ [a]))"
      "slots hm3 = slots hm1" "answers hm3 = rest" "dom (entries hm3) = dom (entries hm1)"
      "dom (pairs hm3) = insert a (dom (pairs hm1))" "kv_at (pairs hm3) a = (key, val)"
      "\<forall>b. b \<noteq> a \<longrightarrow> kv_at (pairs hm3) b = kv_at (pairs hm) b"
      using link_pair_rep[OF h2 hash_of_less, of key a key val] 3 h1 new by auto
    have "hm_fresh hm3" unfolding hm_fresh_def hm3(3-6)
      using new(2) by (rule answers_fresh_mono) auto
    moreover have "hm_own hm3 (C(?i := C ?i @ [a]))"
      by (rule hm_own_add[OF h1(5) hash_of_less hm3(3,5,6)]) simp
    moreover have "bucket hm3 j = bucket hm j @ (if j = ?i then [(key, val)] else [])"
      if j: "j < HASH_MAP_SIZE" for j
    proof -
      have "a \<notin> set (C j)" using hm_rep_dom[OF h1(1) j] new by auto
      then have "map (kv_at (pairs hm3)) (C j) = map (kv_at (pairs hm)) (C j)"
        using hm3(8) by auto
      then show ?thesis using hm3(2,7) C j by (simp add: bucket_rep)
    qed
    ultimately show ?thesis using 3 e a hm3(1,2) by (auto simp: InsertHashMap_def hm_wf_def)
  qed
qed

section \<open>Removal\<close>

lemma bypass_next_seg:
  assumes "dseg h a (next_pair pa) ys lst NULL" "distinct (xs @ a # ys)" "dseg h NULL p xs m a" "h a = Some pa"
    "prev_pair pa = m"
  shows "\<exists>h1. bypass_next h pa = Some h1 \<and> h1 a = Some pa \<and> dom h1 = dom h \<and> dseg h1 NULL p xs m a \<and>
     dseg h1 m (next_pair pa) ys (if ys = [] then m else lst) NULL \<and>
     (\<forall>b. kv_at h1 b = kv_at h b) \<and> (\<forall>b. b \<notin> set (xs @ a # ys) \<longrightarrow> h1 b = h b)"
proof (cases ys)
  case Nil
  with assms show ?thesis by (auto simp: bypass_next_def)
next
  case (Cons y ys')
  with assms(1) obtain py where y: "next_pair pa = y" "y \<noteq> NULL" "h y = Some py" by auto
  let ?h1 = "h(y \<mapsto> py\<lparr>prev_pair := m\<rparr>)"
  have "dseg ?h1 m y (y # ys') lst NULL"
    using assms(1,2) Cons y by (intro dseg_relink_first) auto
  moreover have "bypass_next h pa = Some ?h1" using y assms(5) by (simp add: bypass_next_def)
  moreover have "dseg ?h1 NULL p xs m a" using assms(2,3) Cons by simp
  moreover have "?h1 a = Some pa" using assms(2,4) Cons by auto
  moreover have "dom ?h1 = dom h" using y by auto
  moreover have "kv_at ?h1 b = kv_at h b" for b using y by (simp add: kv_at_def)
  ultimately show ?thesis using Cons y by auto
qed

lemma bypass_prev_seg:
  assumes "dseg h m n ys lst NULL" "distinct (xs @ a # ys)" "dseg h NULL p xs m a" "h a = Some pa"
    "prev_pair pa = m" "next_pair pa = n"
  shows "\<exists>h2. bypass_prev h pa = Some h2 \<and> h2 a = Some pa \<and> dom h2 = dom h \<and>
     dseg h2 NULL (if xs = [] then n else p) (xs @ ys) lst NULL \<and>
     (\<forall>b. kv_at h2 b = kv_at h b) \<and> (\<forall>b. b \<notin> set (xs @ a # ys) \<longrightarrow> h2 b = h b)"
proof (cases xs rule: rev_cases)
  case Nil
  with assms show ?thesis by (auto simp: bypass_prev_def)
next
  case (snoc xs' x)
  have m: "m = x" using dseg_last[OF assms(3)] snoc by simp
  then have x: "m \<noteq> NULL" "m \<in> dom h"
    using dseg_not_NULL[OF assms(3)] dseg_dom[OF assms(3)] snoc by auto
  then obtain px where px: "h m = Some px" by auto
  let ?h2 = "h(m \<mapsto> px\<lparr>next_pair := n\<rparr>)"
  have "dseg ?h2 NULL p xs m n"
    using assms(2,3) snoc m px by (simp add: dseg_relink_last del: fun_upd_apply)
  moreover have "dseg ?h2 m n ys lst NULL" using assms(1,2) snoc m by simp
  ultimately have "dseg ?h2 NULL p (xs @ ys) lst NULL" by (auto simp: dseg_append simp del: fun_upd_apply)
  moreover have "bypass_prev h pa = Some ?h2" using x px assms(5,6) by (simp add: bypass_prev_def)
  moreover have "?h2 a = Some pa" using assms(2,4) snoc m by auto
  moreover have "dom ?h2 = dom h" using px by auto
  moreover have "kv_at ?h2 b = kv_at h b" for b using px by (simp add: kv_at_def)
  ultimately show ?thesis using snoc m by auto
qed

lemma find_split:
  "find P l = Some a \<Longrightarrow> \<exists>xs ys. l = xs @ a # ys \<and> P a \<and> (\<forall>x \<in> set xs. \<not> P x)"
proof (induction l)
  case (Cons b l)
  then show ?case by (cases "P b") (auto intro: exI[of _ "[]"] exI[of _ "b # _"], metis append_Cons set_ConsD)
qed simp

lemma RemoveHashMap_rep:
  assumes C: "hm_rep hm C" and i: "hash_of key = i" and Ci: "C i = xs @ a # ys"
    and a: "fst (kv_at (pairs hm) a) = key" and first: "\<forall>x \<in> set xs. fst (kv_at (pairs hm) x) \<noteq> key"
  shows "\<exists>hm'. RemoveHashMap hm key = Some (True, hm') \<and> hm_rep hm' (C(i := xs @ ys)) \<and>
     slots hm' = slots hm \<and> answers hm' = answers hm \<and> dom (entries hm') = dom (entries hm) \<and>
     dom (pairs hm') = dom (pairs hm) - {a} \<and> (\<forall>b. b \<noteq> a \<longrightarrow> kv_at (pairs hm') b = kv_at (pairs hm) b)"
proof -
  have il: "i < HASH_MAP_SIZE" using i by auto
  have dist: "distinct (xs @ a # ys)" using hm_rep_distinct[OF C il] Ci by simp
  have slot: "slots hm i \<noteq> NULL" using hm_rep_empty[OF C il] Ci by auto
  obtain e where e: "entries hm (slots hm i) = Some e"
    and seg: "dseg (pairs hm) NULL (head_pair e) (xs @ a # ys) (tail_pair e) NULL"
    using C il slot Ci by (metis hm_rep_seg)
  from seg obtain m pa where pa: "dseg (pairs hm) NULL (head_pair e) xs m a" "pairs hm a = Some pa"
    "prev_pair pa = m" "a \<noteq> NULL" "dseg (pairs hm) a (next_pair pa) ys (tail_pair e) NULL"
    by (auto simp: dseg_append)
  have hdp: "head_pair e = (if xs = [] then a else hd xs)" using dseg_hd[OF pa(1)] .
  have tl: "tail_pair e = (if ys = [] then a else last ys)" using dseg_last[OF pa(5)] .
  obtain h1 where h1: "bypass_next (pairs hm) pa = Some h1" "h1 a = Some pa" "dom h1 = dom (pairs hm)"
    "dseg h1 NULL (head_pair e) xs m a" "dseg h1 m (next_pair pa) ys (if ys = [] then m else tail_pair e) NULL"
    "\<forall>b. kv_at h1 b = kv_at (pairs hm) b" "\<forall>b. b \<notin> set (xs @ a # ys) \<longrightarrow> h1 b = pairs hm b"
    using bypass_next_seg[OF pa(5) dist pa(1) pa(2) pa(3)] by blast
  obtain h2 where h2: "bypass_prev h1 pa = Some h2" "h2 a = Some pa" "dom h2 = dom h1"
    "dseg h2 NULL (if xs = [] then next_pair pa else head_pair e) (xs @ ys) (if ys = [] then m else tail_pair e) NULL"
    "\<forall>b. kv_at h2 b = kv_at h1 b" "\<forall>b. b \<notin> set (xs @ a # ys) \<longrightarrow> h2 b = h1 b"
    using bypass_prev_seg[OF h1(5) dist h1(4) h1(2) pa(3) refl] by blast
  let ?h = "h2(a := None)"
  let ?es = "(entries hm)(slots hm i \<mapsto> unlink_entry e a pa)"
  let ?C = "C(i := xs @ ys)"
  have ue: "unlink_entry e a pa = \<lparr>head_pair = (if xs = [] then next_pair pa else head_pair e),
      tail_pair = (if ys = [] then m else tail_pair e)\<rparr>"
    using hd_in_set[of xs] last_in_set[of ys] hdp tl dist pa(3)
    by (cases "xs = []"; cases "ys = []") (auto simp: unlink_entry_def simp del: hd_in_set last_in_set)
  have find: "FindHashMap hm key = Some a"
  proof -
    have "find (\<lambda>a. fst (kv_at (pairs hm) a) = key) (xs @ a # ys) = Some a"
      using a first by (induction xs) auto
    then show ?thesis using FindHashMap_rep[OF C, of key] i Ci by simp
  qed
  have eq: "RemoveHashMap hm key = Some (True, hm\<lparr>entries := ?es, pairs := ?h\<rparr>)"
    using find pa(2,4) h1(1,2) h2(1,2) e i by (simp add: RemoveHashMap_def)
  have outside: "b \<notin> set (xs @ a # ys)" if "j < HASH_MAP_SIZE" "j \<noteq> i" "b \<in> set (C j)" for j b
    using hm_rep_disjoint[OF C that(1) il that(3)] that(2) Ci by auto
  have same: "?h b = pairs hm b" if "j < HASH_MAP_SIZE" "j \<noteq> i" "b \<in> set (C j)" for j b
    using outside[OF that] h1(7) h2(6) by auto
  have dseg_cong: "dseg h' prv p l lst nxt" if "dseg h prv p l lst nxt" "\<forall>b \<in> set l. h' b = h b" for h h' prv p l lst nxt
    using that by (induction l arbitrary: prv p) auto
  have segs: "\<exists>f. ?es (slots hm j) = Some f \<and> dseg ?h NULL (head_pair f) (?C j) (tail_pair f) NULL"
    if j: "j < HASH_MAP_SIZE" "slots hm j \<noteq> NULL" for j
  proof (cases "j = i")
    case True
    have "dseg ?h NULL (head_pair (unlink_entry e a pa)) (xs @ ys) (tail_pair (unlink_entry e a pa)) NULL"
      using h2(4) dist by (simp add: ue)
    with True show ?thesis by simp
  next
    case False
    obtain f where "entries hm (slots hm j) = Some f"
      "dseg (pairs hm) NULL (head_pair f) (C j) (tail_pair f) NULL"
      using C j by (rule hm_rep_seg)
    moreover have "slots hm j \<noteq> slots hm i" using hm_rep_inj[OF C j(1) il j(2)] False by blast
    ultimately show ?thesis using dseg_cong same[OF j(1) False] False by fastforce
  qed
  have dists: "distinct (?C j)" if "j < HASH_MAP_SIZE" for j
    using hm_rep_distinct[OF C that] dist by auto
  have kv: "\<forall>b. b \<noteq> a \<longrightarrow> kv_at ?h b = kv_at (pairs hm) b" using h1(6) h2(5) by simp
  have doms: "dom ?h = dom (pairs hm) - {a}" using h1(3) h2(3) by auto
  have keys: "hash_of (pair_key pr) = j" if "j < HASH_MAP_SIZE" "b \<in> set (?C j)" "?h b = Some pr" for j b pr
  proof -
    have b: "b \<in> set (C j)" "b \<noteq> a" using that Ci dist by (auto split: if_splits)
    have "b \<in> dom (pairs hm)" using hm_rep_dom[OF C that(1)] b by blast
    then obtain pr0 where "pairs hm b = Some pr0" by blast
    then show ?thesis
      using hm_rep_key[OF C that(1) b(1)] kv[rule_format, OF b(2)] that(3) by (simp add: kv_at_def)
  qed
  have empt: "?C j = []" if "j < HASH_MAP_SIZE" "slots hm j = NULL" for j
    using hm_rep_empty[OF C that] slot that by auto
  have "hm_rep (hm\<lparr>entries := ?es, pairs := ?h\<rparr>) ?C"
    by (rule hm_repI[where S = "slots hm" and H = ?h and E = ?es and C = ?C,
          OF empt segs dists keys hm_rep_inj[OF C]]) simp_all
  moreover have "dom ?es = dom (entries hm)" using e by auto
  ultimately show ?thesis using eq kv doms by simp
qed

lemma RemoveHashMap_wf:
  assumes "hm_wf hm"
  shows "\<exists>hm'. RemoveHashMap hm key = Some (key \<in> fst ` set (bucket hm (hash_of key)), hm') \<and> hm_wf hm' \<and>
    (hm_fresh hm \<longrightarrow> hm_fresh hm') \<and>
    (\<forall>i < HASH_MAP_SIZE. bucket hm' i = (if i = hash_of key then remove_first key (bucket hm i) else bucket hm i))"
proof -
  from assms obtain C where C: "hm_rep hm C" and own: "hm_own hm C" by (auto simp: hm_wf_def)
  let ?i = "hash_of key"
  let ?f = "find (\<lambda>a. fst (kv_at (pairs hm) a) = key) (C ?i)"
  show ?thesis
  proof (cases ?f)
    case None
    then have "key \<notin> fst ` set (bucket hm ?i)"
      using C by (auto simp: bucket_rep find_None_iff)
    moreover from None have "RemoveHashMap hm key = Some (False, hm)"
      by (simp add: RemoveHashMap_def FindHashMap_rep[OF C])
    ultimately show ?thesis using assms by (simp add: remove_first_absent)
  next
    case (Some a)
    then obtain xs ys where sp: "C ?i = xs @ a # ys" "fst (kv_at (pairs hm) a) = key"
      "\<forall>x \<in> set xs. fst (kv_at (pairs hm) x) \<noteq> key"
      using find_split[OF Some] by blast
    obtain hm' where hm': "RemoveHashMap hm key = Some (True, hm')" "hm_rep hm' (C(?i := xs @ ys))"
      "slots hm' = slots hm" "answers hm' = answers hm" "dom (entries hm') = dom (entries hm)"
      "dom (pairs hm') = dom (pairs hm) - {a}" "\<forall>b. b \<noteq> a \<longrightarrow> kv_at (pairs hm') b = kv_at (pairs hm) b"
      using RemoveHashMap_rep[OF C refl sp] by (elim exE conjE) (rule that)
    have dist: "distinct (C ?i)" by (rule hm_rep_distinct[OF C hash_of_less])
    have "bucket hm' j = (if j = ?i then remove_first key (bucket hm j) else bucket hm j)"
      if j: "j < HASH_MAP_SIZE" for j
    proof (cases "j = ?i")
      case True
      have "bucket hm' j = map (kv_at (pairs hm)) (xs @ ys)"
        using hm'(2,7) j True dist sp(1) by (auto simp: bucket_rep)
      moreover have "bucket hm j = map (kv_at (pairs hm)) xs @ (key, snd (kv_at (pairs hm) a)) # map (kv_at (pairs hm)) ys"
        using C j True sp(1,2) by (simp add: bucket_rep prod_eq_iff)
      moreover have "key \<notin> fst ` set (map (kv_at (pairs hm)) xs)" using sp(3) by (auto simp: image_iff)
      ultimately show ?thesis using True by (simp add: remove_first_append)
    next
      case False
      have "a \<notin> set (C j)" using hm_rep_disjoint[OF C j hash_of_less] sp(1) False by force
      then have "map (kv_at (pairs hm')) (C j) = map (kv_at (pairs hm)) (C j)" using hm'(7) by auto
      with hm'(2) C j False show ?thesis by (simp add: bucket_rep)
    qed
    moreover have "hm_own hm' (C(?i := xs @ ys))"
    proof (rule hm_own_del[OF own hash_of_less hm'(3,5,6)])
      fix j assume "j < HASH_MAP_SIZE" "j \<noteq> ?i"
      then show "a \<notin> set (C j)"
        using hm_rep_disjoint[OF C _ hash_of_less] sp(1) by force
    qed (use sp(1) dist in auto)
    moreover have "hm_fresh hm \<longrightarrow> hm_fresh hm'"
      unfolding hm_fresh_def hm'(3-6) by (intro impI, erule answers_fresh_mono) blast
    moreover have "key \<in> fst ` set (bucket hm ?i)" using C sp(1,2) by (auto simp: bucket_rep)
    ultimately show ?thesis using hm'(1,2) by (auto simp: hm_wf_def)
  qed
qed

section \<open>Initialisation, iteration and destruction\<close>

lemma InitialiseHashMap_wf:
  assumes "pairs hm = Map.empty" and "entries hm = Map.empty"
  shows "fst (InitialiseHashMap hm) \<and> hm_wf (snd (InitialiseHashMap hm)) \<and>
     (\<forall>i. bucket (snd (InitialiseHashMap hm)) i = [])"
proof -
  let ?hm = "hm\<lparr>slots := \<lambda>_. NULL\<rparr>"
  have "hm_rep ?hm (\<lambda>_. [])" "hm_own ?hm (\<lambda>_. [])"
    using assms by (auto simp: hm_rep_def hm_own_def)
  then show ?thesis using assms by (auto simp: InitialiseHashMap_def hm_wf_def bucket_def)
qed

lemma visit_chain_dseg:
  "dseg h prv p ps lst NULL \<Longrightarrow>
     visit_chain visitor h p s = Some (fold (\<lambda>(k, v). visitor k v) (map (kv_at h) ps) s)"
proof (induction ps arbitrary: prv p s)
  case Nil
  then show ?case by (simp add: visit_chain.simps)
next
  case (Cons a ps)
  then obtain pr where "h a = Some pr" "dseg h a (next_pair pr) ps lst NULL" by auto
  moreover from this(1) have "kv_at h a = (pair_key pr, pair_value pr)" by (simp add: kv_at_def)
  ultimately show ?case using Cons by (subst visit_chain.simps) auto
qed

lemma visit_slots_rep:
  assumes C: "hm_rep hm C"
  shows "set is \<subseteq> {..<HASH_MAP_SIZE} \<Longrightarrow>
     visit_slots visitor hm is s = Some (fold (\<lambda>(k, v). visitor k v) (concat (map (bucket hm) is)) s)"
proof (induction "is" arbitrary: s)
  case (Cons i "is")
  then have i: "i < HASH_MAP_SIZE" by simp
  show ?case
  proof (cases "slots hm i = NULL")
    case True
    with Cons C i show ?thesis by (simp add: bucket_rep hm_rep_empty)
  next
    case False
    then obtain e where "entries hm (slots hm i) = Some e"
      "dseg (pairs hm) NULL (head_pair e) (C i) (tail_pair e) NULL"
      using C i by (meson hm_rep_seg)
    with Cons C i False show ?thesis by (simp add: visit_chain_dseg bucket_rep)
  qed
qed simp

lemma IterateHashMap_wf:
  assumes "hm_wf hm"
  shows "IterateHashMap hm visitor s = Some (fold (\<lambda>(k, v). visitor k v) (hm_contents hm) s)"
proof -
  from assms obtain C where "hm_rep hm C" by (auto simp: hm_wf_def)
  then show ?thesis 
    unfolding IterateHashMap_def hm_contents_def by (rule visit_slots_rep) auto
qed

lemma free_chain_dseg:
  "dseg h prv p ps lst NULL \<Longrightarrow> distinct ps \<Longrightarrow> free_chain h p = Some (h |` (- set ps))"
proof (induction ps arbitrary: prv p h)
  case Nil
  then show ?case by (simp add: free_chain.simps)
next
  case (Cons a ps)
  then obtain pr where pr: "h a = Some pr" "dseg h a (next_pair pr) ps lst NULL" "p = a" "a \<noteq> NULL" by auto
  then have "free_chain (h(a := None)) (next_pair pr) = Some ((h(a := None)) |` (- set ps))"
    using Cons.prems by (intro Cons.IH[of _ a]) (auto simp del: fun_upd_apply)
  moreover have "(h(a := None)) |` (- set ps) = h |` (- set (a # ps))"
    by (auto simp: restrict_map_def fun_eq_iff)
  ultimately show ?case using pr by (subst free_chain.simps) simp
qed

lemma free_slots_rep:
  assumes "\<And>i. i \<in> set is \<Longrightarrow> slots hm i = NULL \<Longrightarrow> C i = []"
    and "\<And>i. i \<in> set is \<Longrightarrow> slots hm i \<noteq> NULL \<Longrightarrow> \<exists>e. entries hm (slots hm i) = Some e \<and>
           dseg (pairs hm) NULL (head_pair e) (C i) (tail_pair e) NULL"
    and "\<And>i. i \<in> set is \<Longrightarrow> distinct (C i)"
    and "\<And>i j. i \<in> set is \<Longrightarrow> j \<in> set is \<Longrightarrow> i \<noteq> j \<Longrightarrow> set (C i) \<inter> set (C j) = {}"
    and "\<And>i j. i \<in> set is \<Longrightarrow> j \<in> set is \<Longrightarrow> slots hm i \<noteq> NULL \<Longrightarrow> slots hm i = slots hm j \<Longrightarrow> i = j"
    and "distinct is"
  shows "free_slots hm is = Some (hm\<lparr>pairs := pairs hm |` (- (\<Union>i \<in> set is. set (C i))),
     entries := entries hm |` (- (slots hm ` set is - {NULL}))\<rparr>)"
  using assms
proof (induction "is" arbitrary: hm)
  case Nil
  then show ?case by simp
next
  case (Cons i "is")
  show ?case
  proof (cases "slots hm i = NULL")
    case True
    have "free_slots hm is = Some (hm\<lparr>pairs := pairs hm |` (- (\<Union>i \<in> set is. set (C i))),
     entries := entries hm |` (- (slots hm ` set is - {NULL}))\<rparr>)"
      by (rule Cons.IH) (use Cons.prems in auto)
    moreover have "insert NULL (slots hm ` set is) - {NULL} = slots hm ` set is - {NULL}" by auto
    ultimately show ?thesis using True Cons.prems(1)[of i] by simp
  next
    case False
    obtain e where e: "entries hm (slots hm i) = Some e"
      "dseg (pairs hm) NULL (head_pair e) (C i) (tail_pair e) NULL"
      using Cons.prems(2)[of i] False by auto
    have fc: "free_chain (pairs hm) (head_pair e) = Some (pairs hm |` (- set (C i)))"
      using free_chain_dseg[OF e(2)] Cons.prems(3) by simp
    let ?hm = "hm\<lparr>pairs := pairs hm |` (- set (C i)), entries := (entries hm)(slots hm i := None)\<rparr>"
    have keep: "dseg (h |` (- set l)) prv p ps lst nxt" if "dseg h prv p ps lst nxt" "set ps \<inter> set l = {}"
      for h l prv p ps lst nxt
      using that by (induction ps arbitrary: prv p) auto
    have "free_slots ?hm is = Some (?hm\<lparr>pairs := pairs ?hm |` (- (\<Union>i \<in> set is. set (C i))),
       entries := entries ?hm |` (- (slots ?hm ` set is - {NULL}))\<rparr>)"
    proof (rule Cons.IH)
      fix j assume j: "j \<in> set is" "slots ?hm j \<noteq> NULL"
      then have ne: "j \<noteq> i" using Cons.prems(6) by auto
      obtain f where f: "entries hm (slots hm j) = Some f"
        "dseg (pairs hm) NULL (head_pair f) (C j) (tail_pair f) NULL"
        using Cons.prems(2)[of j] j by auto
      moreover have "slots hm j \<noteq> slots hm i" using Cons.prems(5)[of j i] j ne by auto
      ultimately show "\<exists>e. entries ?hm (slots ?hm j) = Some e \<and>
           dseg (pairs ?hm) NULL (head_pair e) (C j) (tail_pair e) NULL"
        using keep Cons.prems(4)[of j i] j ne by simp
    qed (use Cons.prems in auto)
    moreover have "(pairs hm |` (- set (C i))) |` (- (\<Union>i \<in> set is. set (C i))) =
        pairs hm |` (- (\<Union>i \<in> set (i # is). set (C i)))"
      by (auto simp: restrict_map_def fun_eq_iff)
    moreover have "((entries hm)(slots hm i := None)) |` (- (slots hm ` set is - {NULL})) =
        entries hm |` (- (slots hm ` set (i # is) - {NULL}))"
      using False by (auto simp: restrict_map_def fun_eq_iff)
    ultimately show ?thesis using False e fc by simp
  qed
qed

lemma DestroyHashMap_wf:
  assumes "hm_wf hm"
  shows "DestroyHashMap hm = Some (hm\<lparr>pairs := Map.empty, entries := Map.empty\<rparr>)"
proof -
  from assms obtain C where C: "hm_rep hm C" and own: "hm_own hm C" by (auto simp: hm_wf_def)
  have "free_slots hm [0..<HASH_MAP_SIZE] = Some (hm\<lparr>pairs := pairs hm |` (- (\<Union>i \<in> set [0..<HASH_MAP_SIZE]. set (C i))),
     entries := entries hm |` (- (slots hm ` set [0..<HASH_MAP_SIZE] - {NULL}))\<rparr>)"
  proof (rule free_slots_rep)
    fix i assume "i \<in> set [0..<HASH_MAP_SIZE]" and s: "slots hm i \<noteq> NULL"
    then have "i < HASH_MAP_SIZE" by simp
    then show "\<exists>e. entries hm (slots hm i) = Some e \<and> dseg (pairs hm) NULL (head_pair e) (C i) (tail_pair e) NULL"
      using hm_rep_seg[OF C _ s] by metis
  next
    fix i j assume "i \<in> set [0..<HASH_MAP_SIZE]" "j \<in> set [0..<HASH_MAP_SIZE]" "i \<noteq> j"
    then show "set (C i) \<inter> set (C j) = {}" using hm_rep_disjoint[OF C] by auto
  next
    fix i j assume "i \<in> set [0..<HASH_MAP_SIZE]" "j \<in> set [0..<HASH_MAP_SIZE]" "slots hm i \<noteq> NULL" "slots hm i = slots hm j"
    then show "i = j" using hm_rep_inj[OF C] by simp
  qed (use hm_rep_empty[OF C] hm_rep_distinct[OF C] in auto)
  then have "free_slots hm [0..<HASH_MAP_SIZE] = Some (hm\<lparr>pairs := pairs hm |` (- dom (pairs hm)),
     entries := entries hm |` (- dom (entries hm))\<rparr>)"
    using own by (simp only: hm_own_def set_upt atLeast0LessThan)
  then show ?thesis unfolding DestroyHashMap_def by simp
qed

section \<open>The hash map as a key store\<close>

definition hm_vals :: "HashMap \<Rightarrow> u32 \<Rightarrow> addr list" where
  "hm_vals hm key = map snd (filter (\<lambda>kv. fst kv = key) (bucket hm (hash_of key)))"

definition hm_ok :: "HashMap \<Rightarrow> bool" where
  "hm_ok hm \<longleftrightarrow> hm_wf hm \<and> hm_fresh hm"

lemma map_of_filter_hd:
  "map_of xs k = (case map snd (filter (\<lambda>kv. fst kv = k) xs) of [] \<Rightarrow> None | v # _ \<Rightarrow> Some v)"
  by (induction xs) auto

lemma filter_remove_first:
  "filter (\<lambda>kv. fst kv = k') (remove_first k xs) =
     (if k' = k then tl (filter (\<lambda>kv. fst kv = k) xs) else filter (\<lambda>kv. fst kv = k') xs)"
  by (induction xs) auto

lemma hm_vals_insert:
  assumes "hm_ok hm"
  shows "\<exists>ok hm'. InsertHashMap hm key val = Some (ok, hm') \<and> hm_ok hm' \<and>
     (\<forall>k'. hm_vals hm' k' = hm_vals hm k' @ (if ok \<and> k' = key then [val] else []))"
proof -
  obtain ok hm' where h: "InsertHashMap hm key val = Some (ok, hm')" "hm_wf hm'" "hm_fresh hm'"
    "\<forall>i < HASH_MAP_SIZE. bucket hm' i = bucket hm i @ (if ok \<and> i = hash_of key then [(key, val)] else [])"
    using InsertHashMap_wf[of hm key val] assms unfolding hm_ok_def by blast
  then show ?thesis by (auto simp: hm_ok_def hm_vals_def)
qed

lemma hm_vals_remove:
  assumes "hm_ok hm"
  shows "\<exists>hm'. RemoveHashMap hm key = Some (hm_vals hm key \<noteq> [], hm') \<and> hm_ok hm' \<and>
     (\<forall>k'. hm_vals hm' k' = (if k' = key then tl (hm_vals hm key) else hm_vals hm k'))"
proof -
  obtain hm' where h: "RemoveHashMap hm key = Some (key \<in> fst ` set (bucket hm (hash_of key)), hm')"
    "hm_wf hm'" "hm_fresh hm'"
    "\<forall>i < HASH_MAP_SIZE. bucket hm' i = (if i = hash_of key then remove_first key (bucket hm i) else bucket hm i)"
    using RemoveHashMap_wf[of hm key] assms unfolding hm_ok_def by blast
  have "(key \<in> fst ` set (bucket hm (hash_of key))) = (hm_vals hm key \<noteq> [])"
    by (auto simp: hm_vals_def filter_empty_conv)
  moreover have "hm_vals hm' k' = (if k' = key then tl (hm_vals hm key) else hm_vals hm k')" for k'
    using h(4) by (auto simp: hm_vals_def filter_remove_first map_tl)
  ultimately show ?thesis using h by (simp add: hm_ok_def)
qed

lemma hm_vals_lookup:
  "hm_ok hm \<Longrightarrow> FindHashMapValue hm key = Some (case hm_vals hm key of [] \<Rightarrow> NULL | v # _ \<Rightarrow> v)"
  by (simp add: hm_ok_def FindHashMapValue_wf map_of_filter_hd hm_vals_def split: list.split)

lemma hm_vals_find:
  assumes "hm_ok hm" shows "\<exists>p. FindHashMap hm key = Some p \<and> (p = NULL \<longleftrightarrow> hm_vals hm key = [])"
proof -
  have "map_of (bucket hm (hash_of key)) key = None \<longleftrightarrow> hm_vals hm key = []"
    by (auto simp: map_of_filter_hd hm_vals_def split: list.split)
  then show ?thesis using FindHashMap_wf[of hm key] assms by (auto simp: hm_ok_def)
qed

interpretation hms: key_store InsertHashMap FindHashMapValue RemoveHashMap hm_ok hm_vals
  by unfold_locales (simp_all add: hm_vals_insert hm_vals_remove hm_vals_lookup)

section \<open>Lookups see the whole contents\<close>

lemma bucket_keys:
  assumes "hm_wf hm" "i < HASH_MAP_SIZE" "(k, v) \<in> set (bucket hm i)" shows "hash_of k = i"
proof -
  from assms(1) obtain C where C: "hm_rep hm C" by (auto simp: hm_wf_def)
  obtain a where a: "a \<in> set (C i)" "kv_at (pairs hm) a = (k, v)"
    using assms(3) bucket_rep[OF C assms(2)] by auto
  then obtain pr where "pairs hm a = Some pr" using hm_rep_dom[OF C assms(2)] by blast
  with a show ?thesis using hm_rep_key[OF C assms(2) a(1)] by (simp add: kv_at_def)
qed

lemma map_of_buckets:
  assumes "hm_wf hm" "set js \<subseteq> {..<HASH_MAP_SIZE}" "hash_of k \<in> set js"
  shows "map_of (concat (map (bucket hm) js)) k = map_of (bucket hm (hash_of k)) k"
  using assms(2,3)
proof (induction js)
  case (Cons j js)
  show ?case
  proof (cases "j = hash_of k")
    case True
    show ?thesis
    proof (cases "hash_of k \<in> set js")
      case True
      with Cons \<open>j = hash_of k\<close> show ?thesis by (auto simp: map_add_def split: option.split)
    next
      case False
      then have "k \<notin> fst ` set (concat (map (bucket hm) js))"
        using bucket_keys[OF assms(1)] Cons.prems(1) by fastforce
      then have "map_of (concat (map (bucket hm) js)) k = None" by (simp only: map_of_eq_None_iff not_False_eq_True)
      with True show ?thesis by (simp add: map_add_def split: option.split)
    qed
  next
    case False
    then have "k \<notin> fst ` set (bucket hm j)"
      using bucket_keys[OF assms(1)] Cons.prems(1) by fastforce
    then have "map_of (bucket hm j) k = None" by (simp add: map_of_eq_None_iff)
    with False Cons show ?thesis by (simp add: map_add_def split: option.split)
  qed
qed simp

lemma map_of_hm_contents: "hm_wf hm \<Longrightarrow> map_of (hm_contents hm) k = map_of (bucket hm (hash_of k)) k"
  unfolding hm_contents_def by (rule map_of_buckets) auto

lemma hm_contents_vals:
  assumes "hm_wf hm" "(k, v) \<in> set (hm_contents hm)" shows "v \<in> set (hm_vals hm k)"
proof -
  obtain i where "i < HASH_MAP_SIZE" "(k, v) \<in> set (bucket hm i)"
    using assms(2) by (auto simp: hm_contents_def)
  with bucket_keys[OF assms(1)] show ?thesis by (force simp: hm_vals_def)
qed

text \<open>When the allocations an insert needs are granted.\<close>

definition insert_succeeds :: "HashMap \<Rightarrow> u32 \<Rightarrow> bool" where
  "insert_succeeds hm key =
     (if slots hm (hash_of key) = NULL
      then (case answers hm of e # p # _ \<Rightarrow> e \<noteq> NULL \<and> p \<noteq> NULL | _ \<Rightarrow> False)
      else (case answers hm of p # _ \<Rightarrow> p \<noteq> NULL | _ \<Rightarrow> False))"

lemma InsertHashMap_ok: "InsertHashMap hm key val = Some (ok, hm') \<Longrightarrow> ok = insert_succeeds hm key"
  by (auto simp: InsertHashMap_def insert_succeeds_def ensure_entry_def Let_def next_answer_def
      split: if_splits list.splits prod.splits option.splits)

section \<open>Properties\<close>

text \<open>An empty map whose allocations succeed three times, for the examples.\<close>

definition hm_demo :: HashMap where
  "hm_demo = \<lparr>slots = \<lambda>_. NULL, entries = Map.empty, pairs = Map.empty, answers = [0x100, 0x200, 0x300, 0]\<rparr>"

definition hm_demo2 :: HashMap where
  "hm_demo2 = snd (the (InsertHashMap (snd (the (InsertHashMap hm_demo 5 0xA0))) 1029 0xB0))"

lemma hm_demo_ok: "hm_ok hm_demo"
  using InitialiseHashMap_wf[of hm_demo]
  by (auto simp: hm_ok_def hm_demo_def InitialiseHashMap_def hm_fresh_def answers_fresh_def)

lemma hm_demo_vals: "hm_vals hm_demo k = []"
  using InitialiseHashMap_wf[of hm_demo] by (simp add: hm_vals_def hm_demo_def InitialiseHashMap_def)

lemma hm_demo2_ok: "hm_ok hm_demo2"
proof -
  obtain ok h1 where h1: "InsertHashMap hm_demo 5 0xA0 = Some (ok, h1)" "hm_ok h1"
    using hm_vals_insert[OF hm_demo_ok, of 5 "0xA0"] by blast
  obtain ok h2 where h2: "InsertHashMap h1 1029 0xB0 = Some (ok, h2)" "hm_ok h2"
    using hm_vals_insert[OF h1(2), of 1029 "0xB0"] by blast
  show ?thesis using h1(1) h2 by (simp add: hm_demo2_def)
qed

lemma hm_demo2_eval:
  "hm_demo2 = \<lparr>slots = (\<lambda>_. NULL)(5 := 0x100), entries = [0x100 \<mapsto> \<lparr>head_pair = 0x200, tail_pair = 0x300\<rparr>],
     pairs = [0x200 \<mapsto> \<lparr>next_pair = 0x300, prev_pair = NULL, pair_key = 5, pair_value = 0xA0\<rparr>,
              0x300 \<mapsto> \<lparr>next_pair = NULL, prev_pair = 0x200, pair_key = 1029, pair_value = 0xB0\<rparr>],
     answers = [0]\<rparr>"
  by (simp add: hm_demo2_def hm_demo_def InsertHashMap_def ensure_entry_def link_pair_def hash_of_def
      HASH_MAP_SIZE_def fun_upd_twist)

text \<open>
  C32: On a well-formed map InsertHashMap always returns. It succeeds exactly when the pool
  grants the Pair and, for an unused slot, the Entry; it then appends the key and the value
  to the key's slot and leaves every other slot as it was, and when it fails no slot changes.
  The doubly-linked lists stay well formed and own all the pool memory of the map either way.
\<close>

theorem InsertHashMap_correct:
  assumes "hm_ok hm"
  shows "\<exists>hm'. InsertHashMap hm key val = Some (insert_succeeds hm key, hm') \<and> hm_ok hm' \<and>
    (\<forall>i < HASH_MAP_SIZE. bucket hm' i =
       bucket hm i @ (if insert_succeeds hm key \<and> i = hash_of key then [(key, val)] else []))"
proof -
  obtain ok hm' where h: "InsertHashMap hm key val = Some (ok, hm')" "hm_wf hm'" "hm_fresh hm'"
    "\<forall>i < HASH_MAP_SIZE. bucket hm' i = bucket hm i @ (if ok \<and> i = hash_of key then [(key, val)] else [])"
    using InsertHashMap_wf[of hm key val] assms unfolding hm_ok_def by blast
  from InsertHashMap_ok[OF h(1)] h show ?thesis by (auto simp: hm_ok_def)
qed

theorem InsertHashMap_correct_witness:
  "\<exists>hm'. InsertHashMap hm_demo2 5 0xC0 = Some (False, hm') \<and> bucket hm' 5 = bucket hm_demo2 5"
proof -
  have n: "\<not> insert_succeeds hm_demo2 5"
    by (simp add: insert_succeeds_def hm_demo2_eval hash_of_def HASH_MAP_SIZE_def)
  show ?thesis using InsertHashMap_correct[OF hm_demo2_ok, of 5 "0xC0"] n
    by (auto simp: HASH_MAP_SIZE_def)
qed

text \<open>
  On a well-formed map a lookup always terminates without following a bad pointer.
  FindHashMapValue returns the oldest value stored under the key anywhere in the map, NULL
  when there is none, and FindHashMap returns NULL or a live Pair with that key and value.
\<close>

theorem FindHashMap_correct:
  assumes "hm_ok hm"
  shows "FindHashMapValue hm key = Some (case map_of (hm_contents hm) key of None \<Rightarrow> NULL | Some v \<Rightarrow> v) \<and>
    (\<exists>pair. FindHashMap hm key = Some pair \<and> (pair = NULL \<longleftrightarrow> key \<notin> fst ` set (hm_contents hm)) \<and>
       (pair \<noteq> NULL \<longrightarrow> map_option pair_value (pairs hm pair) = map_of (hm_contents hm) key))"
proof -
  have wf: "hm_wf hm" using assms by (simp add: hm_ok_def)
  obtain pair where p: "FindHashMap hm key = Some pair"
    "pair = NULL \<longleftrightarrow> map_of (hm_contents hm) key = None"
    using FindHashMap_wf[OF wf] map_of_hm_contents[OF wf] by metis
  moreover have v: "FindHashMapValue hm key = Some (case map_of (hm_contents hm) key of None \<Rightarrow> NULL | Some v \<Rightarrow> v)"
    using FindHashMapValue_wf[OF wf] map_of_hm_contents[OF wf] by simp
  moreover have "map_option pair_value (pairs hm pair) = map_of (hm_contents hm) key" if "pair \<noteq> NULL"
    using v p that by (auto simp: FindHashMapValue_def)
  ultimately show ?thesis by (auto simp: map_of_eq_None_iff)
qed

theorem FindHashMap_correct_witness:
  "FindHashMapValue hm_demo2 1029 = Some 0xB0 \<and> hm_ok hm_demo2"
proof -
  have "map_of (hm_contents hm_demo2) 1029 = Some 0xB0"
    using hm_demo2_ok by (simp add: map_of_hm_contents hm_ok_def)
      (simp add: hm_demo2_eval bucket_def chain_of.simps hash_of_def HASH_MAP_SIZE_def)
  then show ?thesis using FindHashMap_correct[OF hm_demo2_ok, of 1029] hm_demo2_ok by simp
qed

text \<open>
  On a well-formed map RemoveHashMap always returns. It succeeds exactly when the key is
  stored, unlinks and frees the oldest Pair of that key alone, so that older duplicates are
  uncovered in order, and leaves every other slot as it was; the two-way links stay
  consistent and no freed Pair stays reachable.
\<close>

theorem RemoveHashMap_correct:
  assumes "hm_ok hm"
  shows "\<exists>hm'. RemoveHashMap hm key = Some (key \<in> fst ` set (hm_contents hm), hm') \<and> hm_ok hm' \<and>
    (\<forall>i < HASH_MAP_SIZE. bucket hm' i =
       (if i = hash_of key then remove_first key (bucket hm i) else bucket hm i))"
proof -
  have wf: "hm_wf hm" using assms by (simp add: hm_ok_def)
  have "key \<in> fst ` set (hm_contents hm) \<longleftrightarrow> key \<in> fst ` set (bucket hm (hash_of key))"
    using map_of_hm_contents[OF wf, of key] map_of_eq_None_iff[of _ key] by metis
  then show ?thesis using RemoveHashMap_wf[OF wf, of key] assms unfolding hm_ok_def by auto
qed

theorem RemoveHashMap_correct_witness:
  "\<exists>hm'. RemoveHashMap hm_demo2 5 = Some (True, hm') \<and> bucket hm' 5 = [(1029, 0xB0)]"
proof -
  have b: "bucket hm_demo2 5 = [(5, 0xA0), (1029, 0xB0)]"
    by (simp add: hm_demo2_eval bucket_def chain_of.simps)
  have h: "hash_of 5 = 5" by (simp add: hash_of_def HASH_MAP_SIZE_def)
  have "hm_wf hm_demo2" using hm_demo2_ok by (simp add: hm_ok_def)
  then have "map_of (hm_contents hm_demo2) 5 = Some 0xA0" by (simp add: map_of_hm_contents h b)
  then have "5 \<in> fst ` set (hm_contents hm_demo2)"
    by (metis map_of_eq_None_iff option.distinct(1))
  then show ?thesis using RemoveHashMap_correct[OF hm_demo2_ok, of 5] b h
    by (auto simp: HASH_MAP_SIZE_def)
qed

text \<open>
  Iterating a well-formed map calls the visitor exactly once for every stored key and
  value, slot by slot and oldest first, and destroying it frees every Pair and every Entry
  (each once, since freeing memory that is not allocated has no result). The slots keep
  their pointers to the freed Entries, so a later lookup of a stored key has no result.
\<close>

theorem Iterate_Destroy_correct:
  assumes "hm_ok hm"
  shows "IterateHashMap hm visitor s = Some (fold (\<lambda>(k, v). visitor k v) (hm_contents hm) s) \<and>
    (\<exists>hm'. DestroyHashMap hm = Some hm' \<and> pairs hm' = Map.empty \<and> entries hm' = Map.empty \<and>
       (\<forall>key \<in> fst ` set (hm_contents hm). FindHashMap hm' key = None))"
proof -
  have wf: "hm_wf hm" using assms by (simp add: hm_ok_def)
  have "slots hm (hash_of key) \<noteq> NULL" if "key \<in> fst ` set (hm_contents hm)" for key
  proof -
    have "map_of (bucket hm (hash_of key)) key \<noteq> None"
      using that by (metis map_of_hm_contents[OF wf] map_of_eq_None_iff)
    then show ?thesis by (auto simp: bucket_def split: option.splits if_splits)
  qed
  then show ?thesis using IterateHashMap_wf[OF wf] DestroyHashMap_wf[OF wf]
    by (auto simp: FindHashMap_def)
qed

theorem Iterate_Destroy_correct_witness:
  "\<exists>hm'. DestroyHashMap hm_demo2 = Some hm' \<and> pairs hm' = Map.empty"
  using Iterate_Destroy_correct[OF hm_demo2_ok, where visitor = "\<lambda>_ _ n. n + (1 :: nat)" and s = 0] by auto

end
