(* ===== verification/EventHandlerManager.thy ===== *)
theory EventHandlerManager
  imports HashMap
begin

text \<open>
  NetworkMonitor/EventHandlerManager.c: the hooks on the TDI event callbacks of a file object
  (a node). For every node with hooks there is a NodeEventHandler with room for one
  EventHandler per event type; it remembers the client's callback, and its address is the
  context our callback gets. The EventHandlers of a node are cells of their own heap, at the
  addresses they have inside the NodeEventHandler.
\<close>

definition TDI_EVENT_HANDLERS_MAX :: nat where "TDI_EVENT_HANDLERS_MAX = 11"

datatype tdi_hook =
    Hook_TdiConnectEventHandler
  | Hook_TdiDisconnectEventHandler
  | Hook_TdiErrorEventHandler
  | Hook_TdiReceiveEventHandler
  | Hook_TdiReceiveDatagramEventHandler
  | Hook_TdiReceiveExpeditedEventHandler
  | Hook_TdiSendPossibleEventHandler
  | Hook_TdiChainedReceiveEventHandler
  | Hook_TdiChainedReceiveDatagramEventHandler
  | Hook_TdiChainedReceiveExpeditedEventHandler
  | Hook_TdiErrorExEventHandler

text \<open>A callback pointer: NULL, one of a client driver, or one of ours.\<close>

datatype event_callback = CB_NULL | CB_client addr | CB_capture tdi_hook

definition TdiEventHandlers :: "event_callback list" where
  "TdiEventHandlers =
     [CB_capture Hook_TdiConnectEventHandler,
      CB_capture Hook_TdiDisconnectEventHandler,
      CB_capture Hook_TdiErrorEventHandler,
      CB_capture Hook_TdiReceiveEventHandler,
      CB_capture Hook_TdiReceiveDatagramEventHandler,
      CB_capture Hook_TdiReceiveExpeditedEventHandler,
      CB_capture Hook_TdiSendPossibleEventHandler,
      CB_capture Hook_TdiChainedReceiveEventHandler,
      CB_capture Hook_TdiChainedReceiveDatagramEventHandler,
      CB_capture Hook_TdiChainedReceiveExpeditedEventHandler,
      CB_capture Hook_TdiErrorExEventHandler]"

record set_event =
  EventType :: u32
  EventHandler_cb :: event_callback
  EventContext :: u32

record EventHandler =
  eh_node :: addr
  eh_connection_manager :: addr
  original_handler :: set_event

record NodeEventHandler =
  neh_node :: addr
  num_handlers :: u32

record EventHandlerManager =
  ehm_initialised :: bool
  event_handlers :: HashMap
  neh_heap :: "addr \<rightharpoonup> NodeEventHandler"
  eh_heap :: "addr \<rightharpoonup> EventHandler"
  event_handlers_pool :: "addr list"
  ehm_connection_manager :: addr

definition zero_handler :: EventHandler where
  "zero_handler = \<lparr>eh_node = NULL, eh_connection_manager = NULL,
     original_handler = \<lparr>EventType = 0, EventHandler_cb = CB_NULL, EventContext = 0\<rparr>\<rparr>"

text \<open>The address of handlers[i]: the array starts behind two words, an element is five words.\<close>

definition handler_ptr :: "addr \<Rightarrow> nat \<Rightarrow> addr" where
  "handler_ptr neh i = neh + 8 + 20 * of_nat i"

definition set_cells :: "EventHandler option \<Rightarrow> addr \<Rightarrow> (addr \<rightharpoonup> EventHandler) \<Rightarrow> (addr \<rightharpoonup> EventHandler)" where
  "set_cells v neh h = foldl (\<lambda>h i. h(handler_ptr neh i := v)) h [0..<TDI_EVENT_HANDLERS_MAX]"

section \<open>The operations\<close>

definition InitialiseEventHandlerManager :: "EventHandlerManager \<Rightarrow> addr \<Rightarrow> bool \<times> EventHandlerManager" where
  "InitialiseEventHandlerManager m connection_manager =
     (True, m\<lparr>ehm_connection_manager := connection_manager,
             event_handlers := snd (InitialiseHashMap (event_handlers m)),
             ehm_initialised := True\<rparr>)"

definition CreateNodeEventHandler :: "EventHandlerManager \<Rightarrow> addr \<Rightarrow> fault + addr \<times> EventHandlerManager" where
  "CreateNodeEventHandler m node =
     (let (neh, rest) = next_answer (event_handlers_pool m);
          m1 = m\<lparr>event_handlers_pool := rest\<rparr>
      in if neh = NULL then Inr (NULL, m1)
         else let m2 = m1\<lparr>neh_heap := (neh_heap m)(neh \<mapsto> \<lparr>neh_node = node, num_handlers = 0\<rparr>),
                         eh_heap := set_cells (Some zero_handler) neh (eh_heap m)\<rparr>
              in fbind (defined_or_fault (InsertHashMap (event_handlers m2) node neh)) (\<lambda>(_, hm).
                   Inr (neh, m2\<lparr>event_handlers := hm\<rparr>)))"

text \<open>The index must be inside the array; the source compares it as a signed number.\<close>

definition RemoveEventHandler :: "EventHandlerManager \<Rightarrow> set_event \<Rightarrow> addr \<Rightarrow> fault + EventHandlerManager" where
  "RemoveEventHandler m hooked node =
     (if int TDI_EVENT_HANDLERS_MAX \<le> sint (EventType hooked) then Inr m
      else fbind (defined_or_fault (FindHashMapValue (event_handlers m) node)) (\<lambda>neh.
        if neh = NULL then Inr m
        else if sint (EventType hooked) < 0 then Inl OutOfBounds
        else fbind (deref (neh_heap m) neh) (\<lambda>n.
          let n' = n\<lparr>num_handlers := num_handlers n - 1\<rparr>;
              m1 = m\<lparr>neh_heap := (neh_heap m)(neh \<mapsto> n'),
                     eh_heap := (eh_heap m)(handler_ptr neh (unat (EventType hooked)) \<mapsto> zero_handler)\<rparr>
          in if num_handlers n' = 0 then
               fbind (defined_or_fault (RemoveHashMap (event_handlers m1) node)) (\<lambda>(_, hm).
                 Inr (m1\<lparr>neh_heap := (neh_heap m1)(neh := None),
                         eh_heap := set_cells None neh (eh_heap m1), event_handlers := hm\<rparr>))
             else Inr m1)))"

text \<open>The client's request is rewritten to our callback and our context.\<close>

definition SetEventHandler :: "EventHandlerManager \<Rightarrow> set_event \<Rightarrow> addr \<Rightarrow> fault + EventHandlerManager \<times> set_event" where
  "SetEventHandler m req node =
     (if int TDI_EVENT_HANDLERS_MAX \<le> sint (EventType req) then Inr (m, req)
      else if sint (EventType req) < 0 then Inl OutOfBounds
      else if TdiEventHandlers ! unat (EventType req) = CB_NULL then Inr (m, req)
      else fbind (defined_or_fault (FindHashMapValue (event_handlers m) node)) (\<lambda>found.
           fbind (if found = NULL then CreateNodeEventHandler m node else Inr (found, m)) (\<lambda>(neh, m1).
             if neh = NULL then Inr (m1, req)
             else let ptr = handler_ptr neh (unat (EventType req))
                  in fbind (deref (eh_heap m1) ptr) (\<lambda>_.
                     Inr (m1\<lparr>eh_heap := (eh_heap m1)(ptr \<mapsto>
                            \<lparr>eh_node = node, eh_connection_manager = ehm_connection_manager m1, original_handler = req\<rparr>)\<rparr>,
                          req\<lparr>EventContext := ptr, EventHandler_cb := TdiEventHandlers ! unat (EventType req)\<rparr>)))))"

text \<open>
  The visitor that gives a node its own callbacks back. The state it threads through is the
  list of the requests sent to the next device; \<open>irp_granted\<close> says for which of them the
  kernel can build an IRP.
\<close>

definition restore_handler ::
    "(set_event \<Rightarrow> bool) \<Rightarrow> (addr \<rightharpoonup> EventHandler) \<Rightarrow> addr \<Rightarrow> nat \<Rightarrow>
     fault + (addr \<times> set_event) list \<Rightarrow> fault + (addr \<times> set_event) list" where
  "restore_handler irp_granted h neh i sent =
     fbind sent (\<lambda>rs. fbind (deref h (handler_ptr neh i)) (\<lambda>e.
       if EventHandler_cb (original_handler e) = CB_NULL then Inr rs
       else if \<not> irp_granted (original_handler e) then Inr rs
       else Inr (rs @ [(eh_node e, original_handler e)])))"

definition DestroyNodeEventHandlerVisitor ::
    "(set_event \<Rightarrow> bool) \<Rightarrow> EventHandlerManager \<Rightarrow> u32 \<Rightarrow> addr \<Rightarrow>
     fault + (addr \<times> set_event) list \<Rightarrow> fault + (addr \<times> set_event) list" where
  "DestroyNodeEventHandlerVisitor irp_granted m key val sent =
     (if val = NULL then sent
      else fold (restore_handler irp_granted (eh_heap m) val) [0..<TDI_EVENT_HANDLERS_MAX] sent)"

definition DestroyEventHandlerManager ::
    "(set_event \<Rightarrow> bool) \<Rightarrow> EventHandlerManager \<Rightarrow> fault + (addr \<times> set_event) list \<times> EventHandlerManager" where
  "DestroyEventHandlerManager irp_granted m =
     fbind (defined_or_fault (IterateHashMap (event_handlers m) (DestroyNodeEventHandlerVisitor irp_granted m) (Inr []))) (\<lambda>res.
     fbind res (\<lambda>sent.
     fbind (defined_or_fault (DestroyHashMap (event_handlers m))) (\<lambda>hm.
       Inr (sent, m\<lparr>event_handlers := hm\<rparr>))))"

section \<open>The cells of a node\<close>

definition cells :: "addr \<Rightarrow> addr set" where
  "cells a = handler_ptr a ` {..<TDI_EVENT_HANDLERS_MAX}"

lemma handler_ptr_inj:
  assumes "i < TDI_EVENT_HANDLERS_MAX" "j < TDI_EVENT_HANDLERS_MAX" "handler_ptr a i = handler_ptr a j" shows "i = j"
proof -
  have u: "unat (20 * of_nat k :: u32) = 20 * k" if "k < TDI_EVENT_HANDLERS_MAX" for k
  proof -
    have "unat (of_nat (20 * k) :: u32) = 20 * k"
      using that by (simp add: unat_of_nat take_bit_nat_eq_self TDI_EVENT_HANDLERS_MAX_def del: of_nat_mult)
    then show ?thesis by simp
  qed
  have "(20 * of_nat i :: u32) = 20 * of_nat j" using assms(3) by (simp add: handler_ptr_def)
  then show ?thesis using u[OF assms(1)] u[OF assms(2)] by (metis mult_cancel1 zero_neq_numeral)
qed

lemma foldl_upd: "foldl (\<lambda>h i. h(f i := v)) h is p = (if p \<in> f ` set is then v else h p)"
  by (induction "is" arbitrary: h) auto

lemma set_cells_apply: "set_cells v a h p = (if p \<in> cells a then v else h p)"
  by (simp add: set_cells_def foldl_upd cells_def lessThan_atLeast0)

lemma handler_ptr_in_cells [simp]: "i < TDI_EVENT_HANDLERS_MAX \<Longrightarrow> handler_ptr a i \<in> cells a"
  by (simp add: cells_def)

section \<open>The invariant\<close>

text \<open>The pool hands out memory that overlaps nothing in use, never the null page.\<close>

fun pool_ok :: "addr list \<Rightarrow> addr set \<Rightarrow> bool" where
  "pool_ok [] used \<longleftrightarrow> True"
| "pool_ok (a # as) used \<longleftrightarrow>
     (if a = NULL then pool_ok as used
      else a \<notin> used \<and> NULL \<notin> cells a \<and> (\<forall>w \<in> used. cells a \<inter> cells w = {}) \<and> pool_ok as (insert a used))"

lemma pool_ok_mono: "pool_ok as used \<Longrightarrow> used' \<subseteq> used \<Longrightarrow> pool_ok as used'"
proof (induction as used arbitrary: used' rule: pool_ok.induct)
  case (2 a as used)
  have "insert a used' \<subseteq> insert a used" using "2.prems"(2) by blast
  with 2 show ?case by (auto split: if_splits)
qed simp

definition ehm_ok :: "EventHandlerManager \<Rightarrow> bool" where
  "ehm_ok m \<longleftrightarrow> hm_ok (event_handlers m) \<and> hms.single_valued (event_handlers m) \<and>
     (\<forall>k. \<forall>v \<in> set (hm_vals (event_handlers m) k). v \<noteq> NULL \<and> (\<exists>n. neh_heap m v = Some n \<and> neh_node n = k)) \<and>
     dom (eh_heap m) = (\<Union>v \<in> dom (neh_heap m). cells v) \<and>
     (\<forall>v \<in> dom (neh_heap m). NULL \<notin> cells v \<and> (\<forall>w \<in> dom (neh_heap m). v \<noteq> w \<longrightarrow> cells v \<inter> cells w = {})) \<and>
     pool_ok (event_handlers_pool m) (dom (neh_heap m))"

lemma ehm_ok_lookup:
  assumes "ehm_ok m"
  shows "\<exists>v. FindHashMapValue (event_handlers m) node = Some v \<and>
     (v = NULL \<longrightarrow> hm_vals (event_handlers m) node = []) \<and>
     (v \<noteq> NULL \<longrightarrow> hm_vals (event_handlers m) node = [v] \<and> (\<exists>n. neh_heap m v = Some n \<and> neh_node n = node))"
proof -
  have l: "length (hm_vals (event_handlers m) node) \<le> 1"
    using assms by (simp add: ehm_ok_def hms.single_valued_def)
  have "FindHashMapValue (event_handlers m) node =
      Some (case hm_vals (event_handlers m) node of [] \<Rightarrow> NULL | v # _ \<Rightarrow> v)"
    using assms by (intro hms.lookup_law) (simp add: ehm_ok_def)
  then show ?thesis using l assms
    by (cases "hm_vals (event_handlers m) node") (auto simp: ehm_ok_def dest!: spec[of _ node])
qed

lemma CreateNodeEventHandler_ok:
  assumes ok: "ehm_ok m" and none: "hm_vals (event_handlers m) node = []"
  shows "\<exists>a m'. CreateNodeEventHandler m node = Inr (a, m') \<and> ehm_ok m' \<and>
     ehm_connection_manager m' = ehm_connection_manager m \<and>
     (a = NULL \<and> neh_heap m' = neh_heap m \<and> eh_heap m' = eh_heap m \<or>
      a \<noteq> NULL \<and> a \<notin> dom (neh_heap m) \<and> neh_heap m' = (neh_heap m)(a \<mapsto> \<lparr>neh_node = node, num_handlers = 0\<rparr>) \<and>
      eh_heap m' = set_cells (Some zero_handler) a (eh_heap m) \<and> cells a \<inter> dom (eh_heap m) = {})"
proof -
  obtain a rest where n: "next_answer (event_handlers_pool m) = (a, rest)" by fastforce
  show ?thesis
  proof (cases "a = NULL")
    case True
    then have "pool_ok rest (dom (neh_heap m))"
      using ok n by (cases "event_handlers_pool m") (auto simp: ehm_ok_def)
    then show ?thesis using True n ok by (auto simp: CreateNodeEventHandler_def ehm_ok_def)
  next
    case False
    then have fresh: "a \<notin> dom (neh_heap m)" "NULL \<notin> cells a" "\<forall>w \<in> dom (neh_heap m). cells a \<inter> cells w = {}"
      "pool_ok rest (insert a (dom (neh_heap m)))"
      using ok n by (cases "event_handlers_pool m"; simp add: ehm_ok_def)+
    have hmok: "hm_ok (event_handlers m)" "hms.single_valued (event_handlers m)" using ok by (auto simp: ehm_ok_def)
    obtain b hm where i: "InsertHashMap (event_handlers m) node a = Some (b, hm)"
      using hms.insert_law[OF hmok(1), of node a] by blast
    note v = hms.insertE[OF hmok(1) i]
    have sv: "hms.single_valued hm" using hms.single_valued_insert[OF hmok none i] .
    let ?m = "m\<lparr>event_handlers_pool := rest, neh_heap := (neh_heap m)(a \<mapsto> \<lparr>neh_node = node, num_handlers = 0\<rparr>),
       eh_heap := set_cells (Some zero_handler) a (eh_heap m), event_handlers := hm\<rparr>"
    have eq: "CreateNodeEventHandler m node = Inr (a, ?m)"
      using n False i by (simp add: CreateNodeEventHandler_def)
    have "dom (set_cells (Some zero_handler) a (eh_heap m)) = cells a \<union> dom (eh_heap m)"
      by (auto simp: set_cells_apply dom_def)
    moreover have "v \<noteq> NULL \<and> (\<exists>n. ((neh_heap m)(a \<mapsto> \<lparr>neh_node = node, num_handlers = 0\<rparr>)) v = Some n \<and> neh_node n = k)"
      if "v \<in> set (hm_vals hm k)" for k v
    proof (cases "v \<in> set (hm_vals (event_handlers m) k)")
      case True
      then have "v \<noteq> NULL \<and> (\<exists>n. neh_heap m v = Some n \<and> neh_node n = k)" using ok by (simp add: ehm_ok_def)
      then show ?thesis using fresh(1) by auto
    next
      case False
      with that v(2)[of k] have "v = a" "k = node" by (auto split: if_splits)
      then show ?thesis using \<open>a \<noteq> NULL\<close> by simp
    qed
    ultimately have "ehm_ok ?m"
      using v(1) sv ok fresh by (auto simp: ehm_ok_def)
    moreover have "cells a \<inter> dom (eh_heap m) = {}" using ok fresh(3) by (auto simp: ehm_ok_def)
    ultimately show ?thesis using eq False fresh(1) by auto
  qed
qed

section \<open>Setting and removing hooks\<close>

lemma TdiEventHandlers_nth: "i < TDI_EVENT_HANDLERS_MAX \<Longrightarrow> TdiEventHandlers ! i \<in> range CB_capture"
  by (auto simp: TdiEventHandlers_def TDI_EVENT_HANDLERS_MAX_def less_Suc_eq numeral_eq_Suc)

lemma sint_index:
  assumes "0 \<le> sint (w :: u32)" "sint w < 11" shows "unat w < TDI_EVENT_HANDLERS_MAX"
proof -
  have "uint w = sint w" using assms by (simp add: uint_sint take_bit_int_eq_self)
  then show ?thesis using assms(2) by (simp add: TDI_EVENT_HANDLERS_MAX_def unat_eq_nat_uint nat_less_iff)
qed

text \<open>A cell of a node can be overwritten without disturbing anything else.\<close>

lemma ehm_ok_cell_upd:
  assumes "ehm_ok m" "p \<in> dom (eh_heap m)"
  shows "ehm_ok (m\<lparr>eh_heap := (eh_heap m)(p \<mapsto> e)\<rparr>)"
  using assms unfolding ehm_ok_def by (auto simp: insert_absorb)

lemma ehm_ok_count_upd:
  assumes "ehm_ok m" "neh_heap m v = Some n" "neh_node n' = neh_node n"
  shows "ehm_ok (m\<lparr>neh_heap := (neh_heap m)(v \<mapsto> n')\<rparr>)"
proof -
  have "dom ((neh_heap m)(v \<mapsto> n')) = dom (neh_heap m)" using assms(2) by auto
  moreover have "\<exists>n''. ((neh_heap m)(v \<mapsto> n')) w = Some n'' \<and> neh_node n'' = k" if "\<exists>n''. neh_heap m w = Some n'' \<and> neh_node n'' = k" for w k
    using that assms(2,3) by auto
  ultimately show ?thesis using assms(1) unfolding ehm_ok_def by simp
qed

lemma SetEventHandler_ok:
  assumes ok: "ehm_ok m" and ty: "0 \<le> sint (EventType req)" "sint (EventType req) < 11"
  shows "\<exists>m' req'. SetEventHandler m req node = Inr (m', req') \<and> ehm_ok m' \<and>
     dom (neh_heap m) \<subseteq> dom (neh_heap m') \<and>
     (\<forall>v n. neh_heap m' v = Some n \<longrightarrow> neh_heap m v = Some n \<or> num_handlers n = 0) \<and>
     (req' = req \<and> eh_heap m' = eh_heap m \<or>
      EventHandler_cb req' = TdiEventHandlers ! unat (EventType req) \<and> EventType req' = EventType req \<and>
      eh_heap m' (EventContext req') = Some \<lparr>eh_node = node, eh_connection_manager = ehm_connection_manager m, original_handler = req\<rparr> \<and>
      EventContext req' \<noteq> NULL \<and>
      (\<forall>p \<in> dom (eh_heap m). p \<noteq> EventContext req' \<longrightarrow> eh_heap m' p = eh_heap m p))"
proof -
  let ?i = "unat (EventType req)"
  have i: "?i < TDI_EVENT_HANDLERS_MAX" by (rule sint_index[OF ty])
  have cb: "TdiEventHandlers ! ?i \<noteq> CB_NULL" using TdiEventHandlers_nth[OF i] by auto
  have start: "\<not> int TDI_EVENT_HANDLERS_MAX \<le> sint (EventType req)" "\<not> sint (EventType req) < 0"
    using ty by (simp_all add: TDI_EVENT_HANDLERS_MAX_def)
  obtain v where v: "FindHashMapValue (event_handlers m) node = Some v"
    "v = NULL \<longrightarrow> hm_vals (event_handlers m) node = []"
    "v \<noteq> NULL \<longrightarrow> (\<exists>n. neh_heap m v = Some n \<and> neh_node n = node)"
    using ehm_ok_lookup[OF ok] by blast
  have put: "deref (eh_heap m1) (handler_ptr a ?i) = Inr (the (eh_heap m1 (handler_ptr a ?i))) \<and>
      handler_ptr a ?i \<noteq> NULL \<and> ehm_ok (m1\<lparr>eh_heap := (eh_heap m1)(handler_ptr a ?i \<mapsto> e)\<rparr>)"
    if m1: "ehm_ok m1" "a \<in> dom (neh_heap m1)" for m1 a e
  proof -
    have "handler_ptr a ?i \<in> dom (eh_heap m1)" "handler_ptr a ?i \<noteq> NULL"
      using m1 i handler_ptr_in_cells[OF i, of a] by (auto simp: ehm_ok_def simp del: handler_ptr_in_cells)
    then show ?thesis using ehm_ok_cell_upd[OF m1(1)] by auto
  qed
  show ?thesis
  proof (cases "v = NULL")
    case False
    then have "v \<in> dom (neh_heap m)" using v(3) by auto
    from put[OF ok this] show ?thesis using False v(1) start cb by (auto simp: SetEventHandler_def Let_def)
  next
    case True
    obtain a m1 where c: "CreateNodeEventHandler m node = Inr (a, m1)" "ehm_ok m1"
      "ehm_connection_manager m1 = ehm_connection_manager m"
      "a = NULL \<and> neh_heap m1 = neh_heap m \<and> eh_heap m1 = eh_heap m \<or>
       a \<noteq> NULL \<and> a \<notin> dom (neh_heap m) \<and> neh_heap m1 = (neh_heap m)(a \<mapsto> \<lparr>neh_node = node, num_handlers = 0\<rparr>) \<and>
       eh_heap m1 = set_cells (Some zero_handler) a (eh_heap m) \<and> cells a \<inter> dom (eh_heap m) = {}"
      using CreateNodeEventHandler_ok[OF ok] v(2) True by blast
    show ?thesis
    proof (cases "a = NULL")
      case True
      then show ?thesis using c v(1) \<open>v = NULL\<close> start cb by (auto simp: SetEventHandler_def)
    next
      case False
      then have "a \<in> dom (neh_heap m1)" using c(4) by auto
      note p = put[OF c(2) this]
      have keep: "eh_heap m1 q = eh_heap m q" if "q \<in> dom (eh_heap m)" for q
        using c(4) False that by (auto simp: set_cells_apply)
      have "dom (neh_heap m) \<subseteq> dom (neh_heap m1)"
        "\<forall>v n. neh_heap m1 v = Some n \<longrightarrow> neh_heap m v = Some n \<or> num_handlers n = 0"
        using c(4) False by auto
      then show ?thesis using p False c(1,3) v(1) \<open>v = NULL\<close> start cb keep
        by (auto simp: SetEventHandler_def Let_def)
    qed
  qed
qed

lemma RemoveEventHandler_ok:
  assumes ok: "ehm_ok m" and ty: "0 \<le> sint (EventType req)"
  shows "\<exists>m'. RemoveEventHandler m req node = Inr m' \<and> ehm_ok m' \<and>
     (\<forall>v n'. neh_heap m' v = Some n' \<longrightarrow> (\<exists>n. neh_heap m v = Some n \<and> (n' = n \<or> num_handlers n' = num_handlers n - 1))) \<and>
     (\<forall>v \<in> dom (neh_heap m) - dom (neh_heap m'). \<exists>n. neh_heap m v = Some n \<and> num_handlers n = 1)"
proof -
  obtain v where v: "FindHashMapValue (event_handlers m) node = Some v"
    "v \<noteq> NULL \<longrightarrow> hm_vals (event_handlers m) node = [v] \<and> (\<exists>n. neh_heap m v = Some n \<and> neh_node n = node)"
    using ehm_ok_lookup[OF ok] by blast
  consider "int TDI_EVENT_HANDLERS_MAX \<le> sint (EventType req)" | "v = NULL"
    | "\<not> int TDI_EVENT_HANDLERS_MAX \<le> sint (EventType req)" "v \<noteq> NULL" by blast
  then show ?thesis
  proof cases
    case 3
    let ?i = "unat (EventType req)"
    have i: "?i < TDI_EVENT_HANDLERS_MAX" using sint_index[OF ty] 3(1) by (simp add: TDI_EVENT_HANDLERS_MAX_def)
    obtain n where n: "neh_heap m v = Some n" "neh_node n = node" using v(2) 3 by blast
    let ?n' = "n\<lparr>num_handlers := num_handlers n - 1\<rparr>"
    let ?p = "handler_ptr v ?i"
    let ?m1 = "m\<lparr>neh_heap := (neh_heap m)(v \<mapsto> ?n'), eh_heap := (eh_heap m)(?p \<mapsto> zero_handler)\<rparr>"
    have "?p \<in> dom (eh_heap m)" using ok n(1) handler_ptr_in_cells[OF i, of v]
      by (auto simp: ehm_ok_def simp del: handler_ptr_in_cells)
    then have ok1: "ehm_ok ?m1"
      using ehm_ok_cell_upd[OF ehm_ok_count_upd[OF ok n(1), of ?n'], of ?p zero_handler] by simp
    have dn: "deref (neh_heap m) v = Inr n" using 3(2) n(1) by (rule deref_Some)
    show ?thesis
    proof (cases "num_handlers n = 1")
      case False
      then have "RemoveEventHandler m req node = Inr ?m1"
        using v(1) 3 ty dn by (simp add: RemoveEventHandler_def)
      then show ?thesis using ok1 n(1) by auto
    next
      case True
      have hmok: "hm_ok (event_handlers m)" "hms.single_valued (event_handlers m)" using ok by (auto simp: ehm_ok_def)
      obtain b hm where r: "RemoveHashMap (event_handlers m) node = Some (b, hm)"
        using hms.remove_law[OF hmok(1), of node] by blast
      note rv = hms.removeE[OF hmok(1) r]
      have sv: "hms.single_valued hm" using hms.single_valued_remove[OF hmok r] .
      let ?m2 = "?m1\<lparr>neh_heap := (neh_heap ?m1)(v := None), eh_heap := set_cells None v (eh_heap ?m1), event_handlers := hm\<rparr>"
      have eq: "RemoveEventHandler m req node = Inr ?m2"
        using v(1) 3 ty dn True r by (simp add: RemoveEventHandler_def)
      have dv: "dom (neh_heap ?m2) = dom (neh_heap m) - {v}" by auto
      have cells: "\<forall>w \<in> dom (neh_heap m). v \<noteq> w \<longrightarrow> cells v \<inter> cells w = {}"
        using ok n(1) unfolding ehm_ok_def by blast
      have "dom (eh_heap ?m2) = dom (eh_heap ?m1) - cells v"
        by (auto simp: set_cells_apply dom_def)
      also have "\<dots> = (\<Union>w \<in> dom (neh_heap m). cells w) - cells v"
        using ok i n(1) handler_ptr_in_cells[OF i, of v] unfolding ehm_ok_def by auto
      also have "\<dots> = (\<Union>w \<in> dom (neh_heap ?m2). cells w)"
        unfolding dv using cells by auto
      finally have de: "dom (eh_heap ?m2) = (\<Union>w \<in> dom (neh_heap ?m2). cells w)" .
      have val: "w \<noteq> NULL \<and> (\<exists>n. neh_heap ?m2 w = Some n \<and> neh_node n = k)" if w: "w \<in> set (hm_vals hm k)" for k w
      proof -
        have k: "k \<noteq> node" using w rv(2)[of k] v(2) 3(2) by (auto split: if_splits)
        then have "w \<in> set (hm_vals (event_handlers m) k)" using w rv(2)[of k] by simp
        then have "w \<noteq> NULL \<and> (\<exists>n. neh_heap m w = Some n \<and> neh_node n = k)" using ok by (simp add: ehm_ok_def)
        moreover from this have "w \<noteq> v" using n k by auto
        ultimately show ?thesis by simp
      qed
      have "pool_ok (event_handlers_pool m) (dom (neh_heap m) - {v})"
        using ok pool_ok_mono[of "event_handlers_pool m" "dom (neh_heap m)"] by (auto simp: ehm_ok_def)
      then have "ehm_ok ?m2"
        unfolding ehm_ok_def de using rv(1) sv val ok unfolding dv ehm_ok_def by auto
      then show ?thesis using eq True n(1) by auto
    qed
  qed (use v ok in \<open>auto simp: RemoveEventHandler_def\<close>)
qed

section \<open>Sequences of requests\<close>

datatype hook_op = SetOp set_event addr | RemoveOp set_event addr

fun hook_step :: "hook_op \<Rightarrow> EventHandlerManager \<Rightarrow> fault + EventHandlerManager" where
  "hook_step (SetOp req node) m = fbind (SetEventHandler m req node) (\<lambda>(m', _). Inr m')"
| "hook_step (RemoveOp req node) m = RemoveEventHandler m req node"

fun hook_steps :: "hook_op list \<Rightarrow> EventHandlerManager \<Rightarrow> fault + EventHandlerManager" where
  "hook_steps [] m = Inr m"
| "hook_steps (op # ops) m = fbind (hook_step op m) (hook_steps ops)"

fun op_event :: "hook_op \<Rightarrow> set_event" where
  "op_event (SetOp req node) = req"
| "op_event (RemoveOp req node) = req"

definition is_remove :: "hook_op \<Rightarrow> bool" where
  "is_remove op \<longleftrightarrow> (case op of RemoveOp _ _ \<Rightarrow> True | SetOp _ _ \<Rightarrow> False)"

text \<open>Every count is zero less some of the removals made so far.\<close>

definition counts :: "nat \<Rightarrow> EventHandlerManager \<Rightarrow> bool" where
  "counts r m \<longleftrightarrow> (\<forall>v n. neh_heap m v = Some n \<longrightarrow> (\<exists>k \<le> r. num_handlers n = - of_nat k))"

lemma hook_step_ok:
  assumes "ehm_ok m" "counts r m" "0 \<le> sint (EventType (op_event op))" "sint (EventType (op_event op)) < 11"
    and "Suc r < 2 ^ 32"
  shows "\<exists>m'. hook_step op m = Inr m' \<and> ehm_ok m' \<and> counts (if is_remove op then Suc r else r) m' \<and>
     dom (neh_heap m) \<subseteq> dom (neh_heap m')"
proof (cases op)
  case (SetOp req node)
  then obtain m' req' where s: "SetEventHandler m req node = Inr (m', req')" "ehm_ok m'"
    "dom (neh_heap m) \<subseteq> dom (neh_heap m')" "\<forall>v n. neh_heap m' v = Some n \<longrightarrow> neh_heap m v = Some n \<or> num_handlers n = 0"
    using SetEventHandler_ok[OF assms(1), of req node] assms(3,4) by auto
  have "\<exists>k \<le> r. num_handlers n = - of_nat k" if n: "neh_heap m' v = Some n" for v n
    using s(4)[rule_format, OF n]
  proof
    assume "neh_heap m v = Some n" then show ?thesis using assms(2) by (simp add: counts_def)
  next
    assume "num_handlers n = 0" then show ?thesis by (intro exI[of _ 0]) simp
  qed
  then have "counts r m'" by (simp add: counts_def)
  with s SetOp show ?thesis by (simp add: is_remove_def)
next
  case (RemoveOp req node)
  then obtain m' where s: "RemoveEventHandler m req node = Inr m'" "ehm_ok m'"
    "\<forall>v n'. neh_heap m' v = Some n' \<longrightarrow> (\<exists>n. neh_heap m v = Some n \<and> (n' = n \<or> num_handlers n' = num_handlers n - 1))"
    "\<forall>v \<in> dom (neh_heap m) - dom (neh_heap m'). \<exists>n. neh_heap m v = Some n \<and> num_handlers n = 1"
    using RemoveEventHandler_ok[OF assms(1), of req node] assms(3) by auto
  have "counts (Suc r) m'"
    unfolding counts_def
  proof (intro allI impI)
    fix v n' assume "neh_heap m' v = Some n'"
    then obtain n where n: "neh_heap m v = Some n" "n' = n \<or> num_handlers n' = num_handlers n - 1" using s(3) by blast
    then obtain k where "k \<le> r" "num_handlers n = - of_nat k" using assms(2) by (auto simp: counts_def)
    with n(2) show "\<exists>k \<le> Suc r. num_handlers n' = - of_nat k"
      by (elim disjE) (auto intro: exI[of _ k] exI[of _ "Suc k"])
  qed
  moreover have "dom (neh_heap m) \<subseteq> dom (neh_heap m')"
  proof (rule ccontr)
    assume "\<not> ?thesis"
    then obtain v n where n: "neh_heap m v = Some n" "num_handlers n = 1" using s(4) by blast
    then obtain k where k: "k \<le> r" "(1 :: u32) = - of_nat k" using assms(2) by (force simp: counts_def)
    have "(of_nat (Suc k) :: u32) = of_nat k + 1" by simp
    also have "\<dots> = 0" by (subst k(2)) simp
    finally have "(of_nat (Suc k) :: u32) = 0" .
    moreover have "unat (of_nat (Suc k) :: u32) = Suc k"
      using k(1) assms(5) by (simp add: unat_of_nat take_bit_nat_eq_self del: of_nat_Suc)
    ultimately show False by simp
  qed
  ultimately show ?thesis using s RemoveOp by (simp add: is_remove_def)
qed

lemma hook_steps_ok:
  assumes "ehm_ok m" "counts r m" "\<forall>op \<in> set ops. 0 \<le> sint (EventType (op_event op)) \<and> sint (EventType (op_event op)) < 11"
    and "r + length (filter is_remove ops) < 2 ^ 32 - 1"
  shows "\<exists>m'. hook_steps ops m = Inr m' \<and> ehm_ok m' \<and> dom (neh_heap m) \<subseteq> dom (neh_heap m')"
  using assms
proof (induction ops arbitrary: m r)
  case (Cons op ops)
  let ?r = "if is_remove op then Suc r else r"
  obtain m1 where m1: "hook_step op m = Inr m1" "ehm_ok m1" "counts ?r m1" "dom (neh_heap m) \<subseteq> dom (neh_heap m1)"
    using hook_step_ok[OF Cons.prems(1,2), of op] Cons.prems(3,4) by auto
  obtain m2 where "hook_steps ops m1 = Inr m2" "ehm_ok m2" "dom (neh_heap m1) \<subseteq> dom (neh_heap m2)"
    using Cons.IH[OF m1(2,3)] Cons.prems(3,4) by (cases "is_remove op") auto
  with m1 show ?case by auto
qed auto

section \<open>Restoring the originals\<close>

definition node_restores :: "(set_event \<Rightarrow> bool) \<Rightarrow> (addr \<rightharpoonup> EventHandler) \<Rightarrow> addr \<Rightarrow> nat list \<Rightarrow> (addr \<times> set_event) list" where
  "node_restores granted h neh is =
     [(eh_node e, original_handler e). e \<leftarrow> map (\<lambda>i. the (h (handler_ptr neh i))) is,
        EventHandler_cb (original_handler e) \<noteq> CB_NULL \<and> granted (original_handler e)]"

lemma fold_restore_handler:
  assumes "\<forall>i \<in> set is. handler_ptr neh i \<in> dom h \<and> handler_ptr neh i \<noteq> NULL"
  shows "fold (restore_handler granted h neh) is (Inr rs) = Inr (rs @ node_restores granted h neh is)"
  using assms
proof (induction "is" arbitrary: rs)
  case (Cons i "is")
  then obtain e where e: "deref h (handler_ptr neh i) = Inr e" "h (handler_ptr neh i) = Some e" by (auto simp: dom_def)
  then show ?case using Cons by (simp add: restore_handler_def node_restores_def)
qed (simp add: node_restores_def)

lemma DestroyEventHandlerManager_ok:
  assumes ok: "ehm_ok m"
  shows "\<exists>m'. DestroyEventHandlerManager granted m =
     Inr (concat (map (\<lambda>kv. node_restores granted (eh_heap m) (snd kv) [0..<TDI_EVENT_HANDLERS_MAX]) (hm_contents (event_handlers m))), m')"
proof -
  have hmok: "hm_ok (event_handlers m)" using ok by (simp add: ehm_ok_def)
  then have wf: "hm_wf (event_handlers m)" by (simp add: hm_ok_def)
  have node: "v \<noteq> NULL \<and> (\<forall>i \<in> set [0..<TDI_EVENT_HANDLERS_MAX]. handler_ptr v i \<in> dom (eh_heap m) \<and> handler_ptr v i \<noteq> NULL)"
    if "(k, v) \<in> set (hm_contents (event_handlers m))" for k v
  proof -
    have "v \<in> set (hm_vals (event_handlers m) k)" using hm_contents_vals[OF wf that] .
    then have v: "v \<noteq> NULL" "v \<in> dom (neh_heap m)" using ok unfolding ehm_ok_def by blast+
    have "cells v \<subseteq> dom (eh_heap m)" "NULL \<notin> cells v" using ok v(2) unfolding ehm_ok_def by auto
    with v show ?thesis using handler_ptr_in_cells[of _ v] by (metis atLeastLessThan_iff set_upt subsetD)
  qed
  have f: "fold (\<lambda>(k, v). DestroyNodeEventHandlerVisitor granted m k v) kvs (Inr rs) =
      Inr (rs @ concat (map (\<lambda>kv. node_restores granted (eh_heap m) (snd kv) [0..<TDI_EVENT_HANDLERS_MAX]) kvs))"
    if "set kvs \<subseteq> set (hm_contents (event_handlers m))" for kvs rs
    using that
  proof (induction kvs arbitrary: rs)
    case (Cons kv kvs)
    obtain k v where kv: "kv = (k, v)" by fastforce
    with Cons.prems node[of k v] have "DestroyNodeEventHandlerVisitor granted m k v (Inr rs) =
        Inr (rs @ node_restores granted (eh_heap m) v [0..<TDI_EVENT_HANDLERS_MAX])"
      by (auto simp: DestroyNodeEventHandlerVisitor_def intro!: fold_restore_handler)
    with Cons kv show ?case by simp
  qed simp
  have "IterateHashMap (event_handlers m) (DestroyNodeEventHandlerVisitor granted m) (Inr []) =
      Some (Inr (concat (map (\<lambda>kv. node_restores granted (eh_heap m) (snd kv) [0..<TDI_EVENT_HANDLERS_MAX]) (hm_contents (event_handlers m)))))"
    using IterateHashMap_wf[OF wf, of "DestroyNodeEventHandlerVisitor granted m" "Inr []"]
      f[of "hm_contents (event_handlers m)" "[]"] by simp
  then show ?thesis using DestroyHashMap_wf[OF wf] by (simp add: DestroyEventHandlerManager_def)
qed

section \<open>Properties\<close>

definition ehm_demo :: EventHandlerManager where
  "ehm_demo = \<lparr>ehm_initialised = True, event_handlers = hm_demo, neh_heap = Map.empty, eh_heap = Map.empty,
     event_handlers_pool = [0x10000], ehm_connection_manager = 0x77\<rparr>"

lemma cells_code: "cells a = set (map (handler_ptr a) [0..<TDI_EVENT_HANDLERS_MAX])"
  by (simp add: cells_def lessThan_atLeast0)

lemma ehm_demo_ok: "ehm_ok ehm_demo"
proof -
  have "NULL \<notin> cells 0x10000"
    by (simp add: cells_code handler_ptr_def TDI_EVENT_HANDLERS_MAX_def upt_rec del: set_upt)
  then show ?thesis
    by (simp add: ehm_ok_def ehm_demo_def hm_demo_ok hms.single_valued_def hm_demo_vals)
qed

definition receive_request :: set_event where
  "receive_request = \<lparr>EventType = 3, EventHandler_cb = CB_client 0x5000, EventContext = 0x6000\<rparr>"



text \<open>
  The code means to delete the NodeEventHandler of a node with its last hook, but
  nothing ever counts the hooks that are set: in whatever order hooks of valid types are set
  and removed, no request faults and no NodeEventHandler is ever freed (the count goes from
  zero to 0xFFFFFFFF; it would take 2^32 removals to get back to zero).
\<close>

theorem node_handlers_never_freed:
  assumes "ehm_ok m" "\<forall>v n. neh_heap m v = Some n \<longrightarrow> num_handlers n = 0"
    and "\<forall>op \<in> set ops. 0 \<le> sint (EventType (op_event op)) \<and> sint (EventType (op_event op)) < 11"
    and "length (filter is_remove ops) < 2 ^ 32 - 1"
  shows "\<exists>m'. hook_steps ops m = Inr m' \<and> ehm_ok m' \<and> dom (neh_heap m) \<subseteq> dom (neh_heap m')"
proof -
  have "counts 0 m" using assms(2) by (simp add: counts_def)
  from hook_steps_ok[OF assms(1) this assms(3)] assms(4) show ?thesis by simp
qed

theorem node_handlers_never_freed_witness:
  "\<exists>m'. hook_steps [SetOp receive_request 0x30, RemoveOp receive_request 0x30] ehm_demo = Inr m' \<and> ehm_ok m'"
proof -
  have "\<forall>v n. neh_heap ehm_demo v = Some n \<longrightarrow> num_handlers n = 0" by (simp add: ehm_demo_def)
  from node_handlers_never_freed[OF ehm_demo_ok this, of "[SetOp receive_request 0x30, RemoveOp receive_request 0x30]"]
  show ?thesis by (auto simp: receive_request_def is_remove_def)
qed

text \<open>
  Destroying the manager never faults: it sends down exactly one request for every hook
  that is set and for which an IRP can be built, node by node and type by type, each
  carrying the client's original callback and context for the hooked node.
\<close>

theorem DestroyEventHandlerManager_restores:
  assumes "ehm_ok m"
  shows "\<exists>m'. DestroyEventHandlerManager granted m =
     Inr ([(eh_node e, original_handler e). (k, neh) \<leftarrow> hm_contents (event_handlers m),
            e \<leftarrow> map (\<lambda>i. the (eh_heap m (handler_ptr neh i))) [0..<TDI_EVENT_HANDLERS_MAX],
            EventHandler_cb (original_handler e) \<noteq> CB_NULL \<and> granted (original_handler e)], m')"
  using DestroyEventHandlerManager_ok[OF assms, of granted]
  by (simp add: node_restores_def split_def)

theorem DestroyEventHandlerManager_restores_witness:
  "\<exists>sent m'. DestroyEventHandlerManager (\<lambda>_. True) ehm_demo = Inr (sent, m')"
  using DestroyEventHandlerManager_restores[OF ehm_demo_ok, of "\<lambda>_. True"] by blast

end
