(* ===== verification/ConnectionManager.thy ===== *)
theory ConnectionManager
  imports Bytes Connection EventList EventHandlerManager "HOL-Library.Sublist"
begin

text \<open>
  NetworkMonitor/ConnectionManager.c: the connections of one transport device. The hash map
  takes a file object (node) to its ConnectionNode, which points to the node's connection or
  to NULL. Connections and ConnectionNodes are lookaside-list memory: each has its heap, and
  the pools are the answers of the allocator. Lookaside memory is not cleared, so an answer
  of the connections pool comes with what the memory holds.
\<close>

definition TCP_DEVICE :: u8 where "TCP_DEVICE = 0x01"
definition UDP_DEVICE :: u8 where "UDP_DEVICE = 0x02"

record ConnectionNode =
  cn_node :: addr
  cn_connection :: addr

record ConnectionManager =
  intialised :: bool
  device_type :: u8
  device :: addr
  next_device :: addr
  connections :: HashMap
  cm_event_list :: SharedEventList
  event_handler_manager :: EventHandlerManager
  conn_heap :: "addr \<rightharpoonup> Connection"
  cnode_heap :: "addr \<rightharpoonup> ConnectionNode"
  connections_pool :: "(addr \<times> Connection) list"
  connection_nodes_pool :: "addr list"

text \<open>The names of the states, as the debug output and the client have them.\<close>

definition ConnectionStateNames :: "string list" where
  "ConnectionStateNames =
     [''TCP_STATE_CLOSED'', ''TCP_STATE_LISTEN'', ''TCP_STATE_SYN_SENT'', ''TCP_STATE_SYN_RCVD'',
      ''TCP_STATE_ESTABLISHED'', ''TCP_STATE_FIN_WAIT_1'', ''TCP_STATE_FIN_WAIT_2'', ''TCP_STATE_CLOSING'',
      ''TCP_STATE_TIME_WAIT'', ''TCP_STATE_CLOSE_WAIT'', ''TCP_STATE_LAST_ACK'',
      ''UDP_STATE_CLOSE'', ''UDP_STATE_CONNECT'', ''UDP_STATE_ESTABLISHED'', ''UDP_STATE_SEND'',
      ''UDP_STATE_RECEIVE'', ''UDP_STATE_SEND_DATAGRAM'', ''UDP_STATE_RECEIVE_DATAGRAM'']"

section \<open>Setting up and tearing down\<close>

text \<open>The results of the parts are not looked at. The manager's own address is \<open>self\<close>.\<close>

definition InitialiseConnectionManager ::
    "ConnectionManager \<Rightarrow> addr \<Rightarrow> addr \<Rightarrow> addr option \<Rightarrow> u32 \<Rightarrow> u32 \<Rightarrow> bool \<times> ConnectionManager" where
  "InitialiseConnectionManager cm self mdl_answer map_answer head0 tail0 =
     (let (_, sel, _) = InitialiseSharedEventList (cm_event_list cm) mdl_answer map_answer head0 tail0;
          (_, ehm) = InitialiseEventHandlerManager (event_handler_manager cm) self;
          (_, hm) = InitialiseHashMap (connections cm)
      in (True, cm\<lparr>cm_event_list := sel, event_handler_manager := ehm, connections := hm, intialised := True\<rparr>))"

definition DestroyConnectionManager ::
    "(set_event \<Rightarrow> bool) \<Rightarrow> ConnectionManager \<Rightarrow>
     fault + (addr \<times> set_event) list \<times> sb_call list \<times> addr option \<times> ConnectionManager" where
  "DestroyConnectionManager irp_granted cm =
     (let cm1 = cm\<lparr>intialised := False\<rparr>
      in fbind (defined_or_fault (DestroyHashMap (connections cm1))) (\<lambda>hm.
         fbind (DestroyEventHandlerManager irp_granted (event_handler_manager cm1)) (\<lambda>(sent, ehm).
           let (calls, dereferenced, sel) = DestroySharedEventList (cm_event_list cm1)
           in Inr (sent, calls, dereferenced,
                   cm1\<lparr>connections := hm, event_handler_manager := ehm, cm_event_list := sel\<rparr>))))"

section \<open>Connections and their nodes\<close>

definition find_node :: "ConnectionManager \<Rightarrow> addr \<Rightarrow> fault + addr" where
  "find_node cm node = defined_or_fault (FindHashMapValue (connections cm) node)"

definition GetConnection :: "ConnectionManager \<Rightarrow> addr \<Rightarrow> fault + addr" where
  "GetConnection cm node =
     fbind (find_node cm node) (\<lambda>p.
       if p \<noteq> NULL then fbind (deref (cnode_heap cm) p) (\<lambda>n. Inr (cn_connection n))
       else Inr NULL)"

definition CreateConnection :: "ConnectionManager \<Rightarrow> addr \<times> ConnectionManager" where
  "CreateConnection cm =
     (case connections_pool cm of [] \<Rightarrow> (NULL, cm)
      | (a, stale) # rest \<Rightarrow>
          let cm1 = cm\<lparr>connections_pool := rest\<rparr>
          in if a = NULL then (NULL, cm1)
             else let c = (if device_type cm = TCP_DEVICE then stale\<lparr>state := TCP_STATE_CLOSED\<rparr>
                           else if device_type cm = UDP_DEVICE then stale\<lparr>state := UDP_STATE_CLOSED\<rparr>
                           else stale)
                  in (a, cm1\<lparr>conn_heap := (conn_heap cm)(a \<mapsto> c)\<rparr>))"

definition upd_connection :: "ConnectionManager \<Rightarrow> addr \<Rightarrow> (Connection \<Rightarrow> Connection) \<Rightarrow> fault + ConnectionManager" where
  "upd_connection cm connection f =
     fbind (deref (conn_heap cm) connection) (\<lambda>c. Inr (cm\<lparr>conn_heap := (conn_heap cm)(connection \<mapsto> f c)\<rparr>))"

definition set_node_connection :: "ConnectionManager \<Rightarrow> addr \<Rightarrow> addr \<Rightarrow> fault + ConnectionManager" where
  "set_node_connection cm p connection =
     fbind (deref (cnode_heap cm) p) (\<lambda>n.
       Inr (cm\<lparr>cnode_heap := (cnode_heap cm)(p \<mapsto> n\<lparr>cn_connection := connection\<rparr>)\<rparr>))"

definition ReleaseConnectionNode :: "ConnectionManager \<Rightarrow> addr \<Rightarrow> addr \<Rightarrow> fault + ConnectionManager" where
  "ReleaseConnectionNode cm connection node =
     (if node = NULL then Inr cm
      else fbind (upd_connection cm connection (\<lambda>c.
                  let c1 = (if local_node c = node then c\<lparr>local_node := NULL\<rparr> else c)
                  in if remote_node c1 = node then c1\<lparr>remote_node := NULL\<rparr> else c1)) (\<lambda>cm1.
           fbind (find_node cm1 node) (\<lambda>p. set_node_connection cm1 p NULL)))"

definition RemoveConnection :: "ConnectionManager \<Rightarrow> addr \<Rightarrow> fault + ConnectionManager" where
  "RemoveConnection cm connection =
     (if connection = NULL then Inr cm
      else fbind (deref (conn_heap cm) connection) (\<lambda>_.
             Inr (cm\<lparr>conn_heap := (conn_heap cm)(connection := None)\<rparr>)))"

definition RemoveConnectionNode :: "ConnectionManager \<Rightarrow> addr \<Rightarrow> fault + ConnectionManager" where
  "RemoveConnectionNode cm node =
     fbind (find_node cm node) (\<lambda>p.
       if p = NULL then Inr cm
       else fbind (deref (cnode_heap cm) p) (\<lambda>n.
            fbind (if cn_connection n \<noteq> NULL then RemoveConnection cm (cn_connection n) else Inr cm) (\<lambda>cm1.
            fbind (defined_or_fault (RemoveHashMap (connections cm1) node)) (\<lambda>(_, hm).
              Inr (cm1\<lparr>connections := hm, cnode_heap := (cnode_heap cm1)(p := None)\<rparr>)))))"

definition AddConnectionNode :: "ConnectionManager \<Rightarrow> addr \<Rightarrow> addr \<Rightarrow> fault + ConnectionManager" where
  "AddConnectionNode cm connection node =
     fbind (defined_or_fault (FindHashMap (connections cm) node)) (\<lambda>pair.
       if pair \<noteq> NULL then Inr cm
       else let (p, rest) = next_answer (connection_nodes_pool cm);
                cm1 = cm\<lparr>connection_nodes_pool := rest\<rparr>
            in if p = NULL then Inr cm1
               else let cm2 = cm1\<lparr>cnode_heap := (cnode_heap cm)(p \<mapsto> \<lparr>cn_node = node, cn_connection = connection\<rparr>)\<rparr>
                    in fbind (defined_or_fault (InsertHashMap (connections cm2) node p)) (\<lambda>(_, hm).
                         Inr (cm2\<lparr>connections := hm\<rparr>)))"

definition SetLocalConnectionNode :: "ConnectionManager \<Rightarrow> addr \<Rightarrow> addr \<Rightarrow> fault + ConnectionManager" where
  "SetLocalConnectionNode cm connection node =
     fbind (upd_connection cm connection (\<lambda>c. SetLocalNode c node)) (\<lambda>cm1. AddConnectionNode cm1 connection node)"

definition SetRemoteConnectionNode :: "ConnectionManager \<Rightarrow> addr \<Rightarrow> addr \<Rightarrow> fault + ConnectionManager" where
  "SetRemoteConnectionNode cm connection node =
     fbind (upd_connection cm connection (\<lambda>c. SetRemoteNode c node)) (\<lambda>cm1. AddConnectionNode cm1 connection node)"

section \<open>Publishing a change of state\<close>

text \<open>What a change of state depends on besides the manager: the search for free blocks, and
  the 128 bytes of the local text buffer, which are whatever the stack holds.\<close>

record publish_env =
  search_bits :: find_bits
  stack_bytes :: "u8 list"

text \<open>The four data of the event, each added with AddEventData; the results are not looked at.\<close>

definition add_text :: "publish_env \<Rightarrow> SharedEventList \<Rightarrow> addr \<Rightarrow> u32 \<Rightarrow> u8 list \<Rightarrow> fault + SharedEventList" where
  "add_text env s event key buffer =
     (case strlen buffer of None \<Rightarrow> Inl OutOfBounds
      | Some n \<Rightarrow> fbind (AddEventData (search_bits env) s event key key (of_nat n + 1) (Some buffer)) (\<lambda>(_, s'). Inr s'))"

definition add_word :: "publish_env \<Rightarrow> SharedEventList \<Rightarrow> addr \<Rightarrow> u32 \<Rightarrow> u32 \<Rightarrow> fault + SharedEventList" where
  "add_word env s event key w =
     fbind (AddEventData (search_bits env) s event key key 4 (Some (le_bytes32 w))) (\<lambda>(_, s'). Inr s')"

definition publish_state :: "publish_env \<Rightarrow> SharedEventList \<Rightarrow> Connection \<Rightarrow> fault + SharedEventList" where
  "publish_state env s c =
     (let (event, s0) = CreateEvent (search_bits env) s
      in fbind (add_word env s0 event 0 (state_code (state c))) (\<lambda>s1.
         fbind (AddressToString (Some (local_node_address c)) (stack_bytes env)) (\<lambda>buffer1.
         fbind (add_text env s1 event 1 buffer1) (\<lambda>s2.
         fbind (AddressToString (Some (remote_node_address c)) buffer1) (\<lambda>buffer2.
         fbind (add_text env s2 event 2 buffer2) (\<lambda>s3.
         fbind (add_word env s3 event 3 (process_id c)) (\<lambda>s4.
           InsertEvent s4 event)))))))"

definition SetConnectionState :: "publish_env \<Rightarrow> ConnectionManager \<Rightarrow> addr \<Rightarrow> ConnectionState \<Rightarrow> fault + ConnectionManager" where
  "SetConnectionState env cm connection tcp_state =
     (if connection = NULL then Inr cm
      else fbind (deref (conn_heap cm) connection) (\<lambda>c.
           let c' = c\<lparr>state := tcp_state\<rparr>;
               cm1 = cm\<lparr>conn_heap := (conn_heap cm)(connection \<mapsto> c')\<rparr>
           in fbind (publish_state env (cm_event_list cm1) c') (\<lambda>s. Inr (cm1\<lparr>cm_event_list := s\<rparr>))))"

section \<open>The published event\<close>

lemma container_bytes_take:
  "unat sz = n \<Longrightarrow> n \<le> length bs \<Longrightarrow> container_bytes sz (Some bs) = Inr (map Some (take n bs))"
  by (simp add: container_bytes_def)

lemma strlen_less: "strlen buf = Some n \<Longrightarrow> n < length buf"
  by (induction buf arbitrary: n) (auto split: if_splits)

lemma unat_strlen:
  assumes "n < 2 ^ 31" shows "unat (of_nat n + 1 :: u32) = Suc n"
proof -
  have "unat (of_nat (Suc n) :: u32) = Suc n"
    using assms by (simp add: unat_of_nat take_bit_nat_eq_self del: of_nat_Suc)
  then show ?thesis by (simp add: add.commute)
qed

lemma add_text_ok:
  assumes "find_bits_ok (search_bits env)" "el_ok s" "read_data s event = Some ds"
    and "strlen buffer = Some n" "length buffer < 2 ^ 31"
  shows "\<exists>s' x. add_text env s event key buffer = Inr s' \<and> el_ok s' \<and> read_data s' event = Some (ds @ x) \<and>
     subseq x [(key, key, map Some (take (Suc n) buffer))] \<and> read_events s' = read_events s \<and>
     (\<forall>b. b \<noteq> event \<longrightarrow> read_data s' b = read_data s b)"
proof -
  have n: "n < length buffer" using strlen_less[OF assms(4)] .
  then have u: "unat (of_nat n + 1 :: u32) = Suc n" using assms(5) by (intro unat_strlen) simp
  then have cb: "container_bytes (of_nat n + 1) (Some buffer) = Inr (map Some (take (Suc n) buffer))"
    using n by (intro container_bytes_take) auto
  have "unat (of_nat n + 1 :: u32) + 31 < 2 ^ 32" using u n assms(5) by simp
  from AddEventData_reads[OF assms(1,2) read_data_dom[OF assms(3)] assms(3) this cb, of key key]
  obtain a s' where r: "AddEventData (search_bits env) s event key key (of_nat n + 1) (Some buffer) = Inr (a, s')"
    "el_ok s'" "read_data s' event = Some (if a = NULL then ds else ds @ [(key, key, map Some (take (Suc n) buffer))])"
    "\<forall>b. b \<noteq> event \<longrightarrow> read_data s' b = read_data s b" "read_events s' = read_events s" by blast
  then show ?thesis using assms(4)
    by (intro exI[of _ s'] exI[of _ "if a = NULL then [] else [(key, key, map Some (take (Suc n) buffer))]"])
      (auto simp: add_text_def)
qed

lemma add_word_ok:
  assumes "find_bits_ok (search_bits env)" "el_ok s" "read_data s event = Some ds"
  shows "\<exists>s' x. add_word env s event key w = Inr s' \<and> el_ok s' \<and> read_data s' event = Some (ds @ x) \<and>
     subseq x [(key, key, map Some (le_bytes32 w))] \<and> read_events s' = read_events s \<and>
     (\<forall>b. b \<noteq> event \<longrightarrow> read_data s' b = read_data s b)"
proof -
  have cb: "container_bytes 4 (Some (le_bytes32 w)) = Inr (map Some (le_bytes32 w))"
    by (simp add: container_bytes_def le_bytes32_def)
  from AddEventData_reads[OF assms(1,2) read_data_dom[OF assms(3)] assms(3) _ cb, of key key]
  obtain a s' where r: "AddEventData (search_bits env) s event key key 4 (Some (le_bytes32 w)) = Inr (a, s')"
    "el_ok s'" "read_data s' event = Some (if a = NULL then ds else ds @ [(key, key, map Some (le_bytes32 w))])"
    "\<forall>b. b \<noteq> event \<longrightarrow> read_data s' b = read_data s b" "read_events s' = read_events s" by auto
  then show ?thesis
    by (intro exI[of _ s'] exI[of _ "if a = NULL then [] else [(key, key, map Some (le_bytes32 w))]"])
      (auto simp: add_word_def)
qed

text \<open>With no event, data are refused or written behind a null pointer.\<close>

lemma AddEventData_NULL:
  assumes "unat sz + 31 < 2 ^ 32" "container_bytes sz data = Inr bytes"
  shows "AddEventData search s NULL key type sz data = Inl NullDeref \<or>
     (\<exists>s'. AddEventData search s NULL key type sz data = Inr (NULL, s'))"
proof -
  have "unat (sizeof_DataContainer + sz) = 16 + unat sz"
    using assms(1) unat_add_no_wrap[of 16 sz] by (simp add: sizeof_DataContainer_def)
  then have "\<not> unat (ALIGN_UP_Block (sizeof_DataContainer + sz)) < 16 + unat sz"
    using ALIGN_UP_Block_blocks(1)[of "sizeof_DataContainer + sz"] assms(1) by simp
  then show ?thesis using assms(2) by (auto simp: AddEventData_def split: prod.split)
qed

lemma add_NULL:
  "add_word env s NULL key w = Inl NullDeref \<or> (\<exists>s'. add_word env s NULL key w = Inr s')"
  "strlen buffer = Some n \<Longrightarrow> length buffer < 2 ^ 31 \<Longrightarrow>
     add_text env s NULL key buffer = Inl NullDeref \<or> (\<exists>s'. add_text env s NULL key buffer = Inr s')"
proof -
  have "container_bytes 4 (Some (le_bytes32 w)) = Inr (map Some (le_bytes32 w))"
    by (simp add: container_bytes_def le_bytes32_def)
  from AddEventData_NULL[OF _ this, of "search_bits env" s key key]
  show "add_word env s NULL key w = Inl NullDeref \<or> (\<exists>s'. add_word env s NULL key w = Inr s')"
    by (auto simp: add_word_def)
  assume b: "strlen buffer = Some n" "length buffer < 2 ^ 31"
  have n: "n < length buffer" using strlen_less[OF b(1)] .
  then have u: "unat (of_nat n + 1 :: u32) = Suc n" using b(2) by (intro unat_strlen) simp
  then have "container_bytes (of_nat n + 1) (Some buffer) = Inr (map Some (take (Suc n) buffer))"
    using n by (intro container_bytes_take) auto
  moreover have "unat (of_nat n + 1 :: u32) + 31 < 2 ^ 32" using u n b(2) by simp
  ultimately show "add_text env s NULL key buffer = Inl NullDeref \<or> (\<exists>s'. add_text env s NULL key buffer = Inr s')"
    using AddEventData_NULL[of "of_nat n + 1" "Some buffer" _ "search_bits env" s key key] b(1) by (auto simp: add_text_def)
qed

lemma InsertEvent_NULL: "InsertEvent s NULL = Inl NullDeref"
  by (simp add: InsertEvent_def)

text \<open>A connection whose two addresses are IP addresses, and the data of its event.\<close>

definition ip_address :: "u8 list \<Rightarrow> bool" where
  "ip_address a \<longleftrightarrow> 10 \<le> length a \<and> AddressType a = TDI_ADDRESS_TYPE_IP"

definition state_data :: "Connection \<Rightarrow> (u32 \<times> u32 \<times> u8 option list) list" where
  "state_data c =
     [(0, 0, map Some (le_bytes32 (state_code (state c)))),
      (1, 1, map Some (ip_text (local_node_address c) @ [0])),
      (2, 2, map Some (ip_text (remote_node_address c) @ [0])),
      (3, 3, map Some (le_bytes32 (process_id c)))]"

lemma AddressToString_ip:
  assumes "ip_address a" "length buffer = 128"
  shows "AddressToString (Some a) buffer = Inr (cch_write buffer (ip_text a)) \<and>
     strlen (cch_write buffer (ip_text a)) = Some (length (ip_text a)) \<and>
     take (Suc (length (ip_text a))) (cch_write buffer (ip_text a)) = ip_text a @ [0]"
  using assms ip_text_length[of a] strlen_cch_write[of "ip_text a" buffer] ip_text_NUL[of a]
  by (auto simp: AddressToString_def ip_address_def)

lemma publish_state_ok:
  assumes fb: "find_bits_ok (search_bits env)" and ok: "el_ok s" "read_events s = Some evs"
    and st: "length (stack_bytes env) = 128"
    and ip: "ip_address (local_node_address c)" "ip_address (remote_node_address c)"
  shows "publish_state env s c = Inl NullDeref \<and> fst (CreateEvent (search_bits env) s) = NULL \<or>
    (\<exists>s' event ds. publish_state env s c = Inr s' \<and> el_ok s' \<and> event \<notin> set evs \<and>
       read_events s' = Some (evs @ [event]) \<and> read_data s' event = Some ds \<and> subseq ds (state_data c) \<and>
       (\<forall>b \<in> dom (el_events (el s)). read_data s' b = read_data s b))"
proof -
  let ?b1 = "cch_write (stack_bytes env) (ip_text (local_node_address c))"
  let ?b2 = "cch_write ?b1 (ip_text (remote_node_address c))"
  note a1 = AddressToString_ip[OF ip(1) st]
  have "length ?b1 = 128" using st by simp
  note a2 = AddressToString_ip[OF ip(2) this]
  have l: "length ?b1 < 2 ^ 31" "length ?b2 < 2 ^ 31" using st by simp_all
  obtain event s0 where c: "CreateEvent (search_bits env) s = (event, s0)" by fastforce
  show ?thesis
  proof (cases "event = NULL")
    case True
    have "publish_state env s c = Inl NullDeref"
      using a1 a2
      by (simp add: publish_state_def c True InsertEvent_NULL fbind_Inl_intro[OF add_NULL(1)]
          fbind_Inl_intro[OF add_NULL(2)[OF _ l(1)]] fbind_Inl_intro[OF add_NULL(2)[OF _ l(2)]])
    then show ?thesis using c True by simp
  next
    case False
    with CreateEvent_reads[OF fb ok(1) c] have s0: "el_ok s0" "event \<notin> dom (el_events (el s))"
      "read_data s0 event = Some []" "read_events s0 = Some evs"
      "\<forall>b \<in> dom (el_events (el s)). read_data s0 b = read_data s b" using ok(2) by auto
    obtain s1 x0 where s1: "add_word env s0 event 0 (state_code (state c)) = Inr s1" "el_ok s1" "read_data s1 event = Some ([] @ x0)"
      "subseq x0 [(0, 0, map Some (le_bytes32 (state_code (state c))))]" "read_events s1 = read_events s0"
      "\<forall>b. b \<noteq> event \<longrightarrow> read_data s1 b = read_data s0 b" using add_word_ok[OF fb s0(1,3)] by blast
    obtain s2 x1 where s2: "add_text env s1 event 1 ?b1 = Inr s2" "el_ok s2" "read_data s2 event = Some (([] @ x0) @ x1)"
      "subseq x1 [(1, 1, map Some (take (Suc (length (ip_text (local_node_address c)))) ?b1))]" "read_events s2 = read_events s1"
      "\<forall>b. b \<noteq> event \<longrightarrow> read_data s2 b = read_data s1 b" using add_text_ok[OF fb s1(2,3) _ l(1)] a1 by blast
    obtain s3 x2 where s3: "add_text env s2 event 2 ?b2 = Inr s3" "el_ok s3" "read_data s3 event = Some ((([] @ x0) @ x1) @ x2)"
      "subseq x2 [(2, 2, map Some (take (Suc (length (ip_text (remote_node_address c)))) ?b2))]" "read_events s3 = read_events s2"
      "\<forall>b. b \<noteq> event \<longrightarrow> read_data s3 b = read_data s2 b" using add_text_ok[OF fb s2(2,3) _ l(2)] a2 by blast
    obtain s4 x3 where s4: "add_word env s3 event 3 (process_id c) = Inr s4" "el_ok s4" "read_data s4 event = Some (((([] @ x0) @ x1) @ x2) @ x3)"
      "subseq x3 [(3, 3, map Some (le_bytes32 (process_id c)))]" "read_events s4 = read_events s3"
      "\<forall>b. b \<noteq> event \<longrightarrow> read_data s4 b = read_data s3 b" using add_word_ok[OF fb s3(2,3)] by blast
    have new: "event \<notin> set evs" using read_events_dom[OF ok] s0(2) by blast
    have r4: "read_events s4 = Some evs" using s0(4) s1(5) s2(5) s3(5) s4(5) by simp
    obtain s' where s': "InsertEvent s4 event = Inr s'" "el_ok s'" "read_events s' = Some (evs @ [event])"
      "\<forall>b \<in> dom (el_events (el s4)). read_data s' b = read_data s4 b"
      using InsertEvent_reads[OF s4(2) read_data_dom[OF s4(3)] r4 new] by blast
    have "publish_state env s c = Inr s'" using c s1(1) s2(1) s3(1) s4(1) s'(1) a1 a2 by (simp add: publish_state_def)
    moreover have "subseq (((([] @ x0) @ x1) @ x2) @ x3) (((([] @ [(0, 0, map Some (le_bytes32 (state_code (state c))))]) @
        [(1, 1, map Some (ip_text (local_node_address c) @ [0]))]) @ [(2, 2, map Some (ip_text (remote_node_address c) @ [0]))]) @
        [(3, 3, map Some (le_bytes32 (process_id c)))])"
      using s1(4) s2(4) s3(4) s4(4) a1 a2 by (intro list_emb_append_mono) auto
    then have "subseq (((([] @ x0) @ x1) @ x2) @ x3) (state_data c)" by (simp add: state_data_def)
    moreover have "read_data s' event = Some (((([] @ x0) @ x1) @ x2) @ x3)"
      using s'(4) s4(3) read_data_dom[OF s4(3)] by simp
    moreover have "read_data s' b = read_data s b" if b: "b \<in> dom (el_events (el s))" for b
    proof -
      have ne: "b \<noteq> event" using b s0(2) by blast
      have e4: "read_data s4 b = read_data s b" using b ne s0(5) s1(6) s2(6) s3(6) s4(6) by simp
      obtain ds where "read_data s b = Some ds"
        using ok(1) b read_data_rep by (force simp: el_ok_def)
      with e4 have "b \<in> dom (el_events (el s4))" by (simp add: read_data_dom)
      with s'(4) e4 show ?thesis by simp
    qed
    ultimately show ?thesis using s'(2,3) new by blast
  qed
qed

section \<open>The pointer invariant\<close>

text \<open>
  Every registered node has its ConnectionNode; a ConnectionNode points to NULL or to a live
  connection, and no two of them to the same one; the pools hand out memory not in use.
\<close>

definition ptr_ok :: "ConnectionManager \<Rightarrow> bool" where
  "ptr_ok cm \<longleftrightarrow> hm_ok (connections cm) \<and> hms.single_valued (connections cm) \<and>
     (\<forall>k. \<forall>v \<in> set (hm_vals (connections cm) k). v \<noteq> NULL \<and> (\<exists>n. cnode_heap cm v = Some n \<and> cn_node n = k)) \<and>
     (\<forall>v n. cnode_heap cm v = Some n \<longrightarrow> cn_connection n \<noteq> NULL \<longrightarrow> cn_connection n \<in> dom (conn_heap cm)) \<and>
     (\<forall>v w n m. cnode_heap cm v = Some n \<longrightarrow> cnode_heap cm w = Some m \<longrightarrow>
        cn_connection n = cn_connection m \<longrightarrow> cn_connection n \<noteq> NULL \<longrightarrow> v = w) \<and>
     NULL \<notin> dom (conn_heap cm) \<and>
     answers_fresh (map fst (connections_pool cm)) (dom (conn_heap cm)) \<and>
     answers_fresh (connection_nodes_pool cm) (dom (cnode_heap cm))"

text \<open>No ConnectionNode points to the connection.\<close>

definition unowned :: "ConnectionManager \<Rightarrow> addr \<Rightarrow> bool" where
  "unowned cm c \<longleftrightarrow> (\<forall>v n. cnode_heap cm v = Some n \<longrightarrow> cn_connection n \<noteq> c)"

lemma ptr_ok_cong:
  assumes "ptr_ok cm" "connections cm' = connections cm" "cnode_heap cm' = cnode_heap cm"
    "dom (conn_heap cm') = dom (conn_heap cm)" "connections_pool cm' = connections_pool cm"
    "connection_nodes_pool cm' = connection_nodes_pool cm"
  shows "ptr_ok cm'"
  using assms(1) unfolding ptr_ok_def assms(2-6) .

lemma find_node_ok:
  assumes "ptr_ok cm"
  shows "\<exists>p. find_node cm node = Inr p \<and> (p = NULL \<longleftrightarrow> hm_vals (connections cm) node = []) \<and>
     (p \<noteq> NULL \<longrightarrow> hm_vals (connections cm) node = [p] \<and> (\<exists>n. cnode_heap cm p = Some n \<and> cn_node n = node))"
proof -
  have l: "length (hm_vals (connections cm) node) \<le> 1"
    using assms by (simp add: ptr_ok_def hms.single_valued_def)
  have v: "v \<noteq> NULL \<and> (\<exists>n. cnode_heap cm v = Some n \<and> cn_node n = node)" if "v \<in> set (hm_vals (connections cm) node)" for v
    using assms that by (simp add: ptr_ok_def)
  have "FindHashMapValue (connections cm) node =
      Some (case hm_vals (connections cm) node of [] \<Rightarrow> NULL | v # _ \<Rightarrow> v)"
    using assms by (intro hms.lookup_law) (simp add: ptr_ok_def)
  then show ?thesis using l v by (cases "hm_vals (connections cm) node") (auto simp: find_node_def)
qed

lemma GetConnection_ok:
  assumes "ptr_ok cm"
  shows "\<exists>c. GetConnection cm node = Inr c \<and> (c \<noteq> NULL \<longrightarrow> c \<in> dom (conn_heap cm) \<and>
     (\<exists>p n. find_node cm node = Inr p \<and> p \<noteq> NULL \<and> cnode_heap cm p = Some n \<and> cn_connection n = c))"
proof -
  obtain p where p: "find_node cm node = Inr p" "p \<noteq> NULL \<longrightarrow> (\<exists>n. cnode_heap cm p = Some n)"
    using find_node_ok[OF assms] by blast
  show ?thesis
  proof (cases "p = NULL")
    case False
    then obtain n where n: "cnode_heap cm p = Some n" using p(2) by blast
    then have "cn_connection n \<noteq> NULL \<longrightarrow> cn_connection n \<in> dom (conn_heap cm)"
      using assms unfolding ptr_ok_def by blast
    then show ?thesis using p n False by (auto simp: GetConnection_def)
  qed (use p in \<open>simp add: GetConnection_def\<close>)
qed

lemma CreateConnection_ok:
  assumes "ptr_ok cm" "CreateConnection cm = (a, cm')"
  shows "ptr_ok cm' \<and> connections cm' = connections cm \<and> cnode_heap cm' = cnode_heap cm \<and>
     dom (conn_heap cm) \<subseteq> dom (conn_heap cm') \<and>
     (a \<noteq> NULL \<longrightarrow> a \<in> dom (conn_heap cm') \<and> a \<notin> dom (conn_heap cm) \<and> unowned cm' a)"
proof (cases "connections_pool cm")
  case Nil
  with assms show ?thesis by (simp add: CreateConnection_def)
next
  case (Cons x rest)
  obtain b stale where x: "x = (b, stale)" by fastforce
  show ?thesis
  proof (cases "b = NULL")
    case True
    then have "answers_fresh (map fst rest) (dom (conn_heap cm))"
      using assms(1) Cons x answers_fresh_tail[of "map fst (connections_pool cm)"] by (auto simp: ptr_ok_def)
    moreover have "cm' = cm\<lparr>connections_pool := rest\<rparr>" "a = NULL"
      using assms(2) Cons x True by (auto simp: CreateConnection_def)
    ultimately show ?thesis using assms(1) unfolding ptr_ok_def by simp
  next
    case False
    have "next_answer (map fst (connections_pool cm)) = (b, map fst rest)" using Cons x by simp
    moreover have "answers_fresh (map fst (connections_pool cm)) (dom (conn_heap cm))" using assms(1) by (simp add: ptr_ok_def)
    ultimately have fresh: "b \<notin> dom (conn_heap cm)" "answers_fresh (map fst rest) (insert b (dom (conn_heap cm)))"
      using answers_fresh_head False by blast+
    define c where "c = (if device_type cm = TCP_DEVICE then stale\<lparr>state := TCP_STATE_CLOSED\<rparr>
       else if device_type cm = UDP_DEVICE then stale\<lparr>state := UDP_STATE_CLOSED\<rparr> else stale)"
    have "CreateConnection cm = (b, cm\<lparr>connections_pool := rest, conn_heap := (conn_heap cm)(b \<mapsto> c)\<rparr>)"
      using Cons x False by (simp add: CreateConnection_def Let_def c_def)
    then have cm': "cm' = cm\<lparr>connections_pool := rest, conn_heap := (conn_heap cm)(b \<mapsto> c)\<rparr>" "a = b"
      using assms(2) by simp_all
    have live: "cnode_heap cm v = Some n \<Longrightarrow> cn_connection n \<noteq> NULL \<Longrightarrow> cn_connection n \<in> dom (conn_heap cm)" for v n
      using assms(1) unfolding ptr_ok_def by blast
    have "ptr_ok cm'" using assms(1) fresh(2) False unfolding ptr_ok_def cm'(1) by simp
    moreover have "unowned cm' b"
      using live fresh(1) False unfolding unowned_def cm'(1) by fastforce
    ultimately show ?thesis using fresh(1) unfolding cm'(2) by (simp add: cm'(1) subset_insertI)
  qed
qed

lemma upd_connection_ok:
  assumes "ptr_ok cm" "c \<in> dom (conn_heap cm)"
  shows "\<exists>cm'. upd_connection cm c f = Inr cm' \<and> ptr_ok cm' \<and> connections cm' = connections cm \<and>
     cnode_heap cm' = cnode_heap cm \<and> dom (conn_heap cm') = dom (conn_heap cm) \<and>
     conn_heap cm' c = map_option f (conn_heap cm c)"
proof -
  obtain x where x: "conn_heap cm c = Some x" using assms(2) by blast
  have "c \<noteq> NULL" using assms by (auto simp: ptr_ok_def)
  then have eq: "upd_connection cm c f = Inr (cm\<lparr>conn_heap := (conn_heap cm)(c \<mapsto> f x)\<rparr>)"
    using x by (simp add: upd_connection_def)
  have d: "dom ((conn_heap cm)(c \<mapsto> f x)) = dom (conn_heap cm)" using x by auto
  have "ptr_ok (cm\<lparr>conn_heap := (conn_heap cm)(c \<mapsto> f x)\<rparr>)"
    by (rule ptr_ok_cong[OF assms(1)]) (simp_all add: insert_absorb domI[where m = "conn_heap cm", OF x])
  then show ?thesis using eq d x by auto
qed

lemma set_node_connection_ok:
  assumes "ptr_ok cm" "p \<noteq> NULL" "cnode_heap cm p = Some n" "c = NULL \<or> c \<in> dom (conn_heap cm) \<and> unowned cm c"
  shows "\<exists>cm'. set_node_connection cm p c = Inr cm' \<and> ptr_ok cm' \<and> connections cm' = connections cm \<and>
     conn_heap cm' = conn_heap cm \<and> cnode_heap cm' = (cnode_heap cm)(p \<mapsto> n\<lparr>cn_connection := c\<rparr>)"
proof -
  let ?h = "(cnode_heap cm)(p \<mapsto> n\<lparr>cn_connection := c\<rparr>)"
  let ?cm = "cm\<lparr>cnode_heap := ?h\<rparr>"
  have d: "dom ?h = dom (cnode_heap cm)" using assms(3) by auto
  have names: "\<exists>m. ?h v = Some m \<and> cn_node m = k" if "\<exists>m. cnode_heap cm v = Some m \<and> cn_node m = k" for v k
    using that assms(3) by auto
  have live: "cn_connection m \<in> dom (conn_heap cm)" if "?h v = Some m" "cn_connection m \<noteq> NULL" for v m
    using that assms(1,4) unfolding ptr_ok_def by (cases "v = p") auto
  have inj: "v = w" if "?h v = Some m" "?h w = Some m'" "cn_connection m = cn_connection m'" "cn_connection m \<noteq> NULL" for v w m m'
  proof -
    have old: "u = p \<or> cnode_heap cm u = Some k" "u = p \<Longrightarrow> cn_connection k = c" if "?h u = Some k" for u k
      using that by (auto split: if_splits)
    have un: "cnode_heap cm u = Some k \<Longrightarrow> cn_connection k = c \<Longrightarrow> c = NULL" for u k
      using assms(4) by (auto simp: unowned_def)
    consider "v = p" "w = p" | "v = p" "w \<noteq> p" | "v \<noteq> p" "w = p" | "v \<noteq> p" "w \<noteq> p" by blast
    then show ?thesis
    proof cases
      case 2
      then show ?thesis using old[OF that(1)] old[OF that(2)] un[of w m'] that(3,4) by auto
    next
      case 3
      then show ?thesis using old[OF that(1)] old[OF that(2)] un[of v m] that(3,4) by auto
    next
      case 4
      then have "cnode_heap cm v = Some m" "cnode_heap cm w = Some m'" using old that(1,2) by auto
      then show ?thesis using assms(1) that(3,4) unfolding ptr_ok_def by blast
    qed simp
  qed
  have "ptr_ok ?cm"
    using assms(1) names live inj d unfolding ptr_ok_def by (simp del: fun_upd_apply dom_fun_upd)
  moreover have "set_node_connection cm p c = Inr ?cm"
    using assms(2,3) by (simp add: set_node_connection_def)
  ultimately show ?thesis by auto
qed

lemma SetConnectionState_ptr_ok:
  assumes "ptr_ok cm" "SetConnectionState env cm c st = Inr cm'"
  shows "ptr_ok cm' \<and> connections cm' = connections cm \<and> cnode_heap cm' = cnode_heap cm \<and>
     dom (conn_heap cm') = dom (conn_heap cm)"
proof (cases "c = NULL")
  case True
  with assms show ?thesis by (simp add: SetConnectionState_def)
next
  case False
  with assms(2) obtain x s where x: "conn_heap cm c = Some x"
    "cm' = cm\<lparr>conn_heap := (conn_heap cm)(c \<mapsto> x\<lparr>state := st\<rparr>), cm_event_list := s\<rparr>"
    by (auto simp: SetConnectionState_def Let_def fbind_eq_Inr deref_def split: option.splits)
  have "ptr_ok cm'" by (rule ptr_ok_cong[OF assms(1)]) (simp_all add: x(2) insert_absorb domI[where m = "conn_heap cm", OF x(1)])
  then show ?thesis using x(2) by (simp add: insert_absorb domI[where m = "conn_heap cm", OF x(1)])
qed

text \<open>The parts of the invariant by name.\<close>

lemma ptr_okD:
  assumes "ptr_ok cm"
  shows "hm_ok (connections cm)" "hms.single_valued (connections cm)"
    and "v \<in> set (hm_vals (connections cm) k) \<Longrightarrow> v \<noteq> NULL \<and> (\<exists>n. cnode_heap cm v = Some n \<and> cn_node n = k)"
    and "cnode_heap cm v = Some n \<Longrightarrow> cn_connection n \<noteq> NULL \<Longrightarrow> cn_connection n \<in> dom (conn_heap cm)"
    and "cnode_heap cm v = Some n \<Longrightarrow> cnode_heap cm w = Some m \<Longrightarrow> cn_connection n = cn_connection m \<Longrightarrow>
      cn_connection n \<noteq> NULL \<Longrightarrow> v = w"
    and "NULL \<notin> dom (conn_heap cm)" "answers_fresh (map fst (connections_pool cm)) (dom (conn_heap cm))"
    "answers_fresh (connection_nodes_pool cm) (dom (cnode_heap cm))"
  using assms unfolding ptr_ok_def by blast+

lemma ptr_okI:
  assumes "hm_ok (connections cm)" "hms.single_valued (connections cm)"
    and "\<And>v k. v \<in> set (hm_vals (connections cm) k) \<Longrightarrow> v \<noteq> NULL \<and> (\<exists>n. cnode_heap cm v = Some n \<and> cn_node n = k)"
    and "\<And>v n. cnode_heap cm v = Some n \<Longrightarrow> cn_connection n \<noteq> NULL \<Longrightarrow> cn_connection n \<in> dom (conn_heap cm)"
    and "\<And>v n w m. cnode_heap cm v = Some n \<Longrightarrow> cnode_heap cm w = Some m \<Longrightarrow> cn_connection n = cn_connection m \<Longrightarrow>
      cn_connection n \<noteq> NULL \<Longrightarrow> v = w"
    and "NULL \<notin> dom (conn_heap cm)" "answers_fresh (map fst (connections_pool cm)) (dom (conn_heap cm))"
    "answers_fresh (connection_nodes_pool cm) (dom (cnode_heap cm))"
  shows "ptr_ok cm"
  using assms unfolding ptr_ok_def by blast

lemma RemoveConnection_ok:
  assumes "ptr_ok cm" "c \<in> dom (conn_heap cm)" "unowned cm c"
  shows "\<exists>cm'. RemoveConnection cm c = Inr cm' \<and> ptr_ok cm' \<and> connections cm' = connections cm \<and>
     cnode_heap cm' = cnode_heap cm \<and> conn_heap cm' = (conn_heap cm)(c := None)"
proof -
  note I = ptr_okD[OF assms(1)]
  let ?cm = "cm\<lparr>conn_heap := (conn_heap cm)(c := None)\<rparr>"
  have "c \<noteq> NULL" using I(6) assms(2) by auto
  moreover obtain x where "conn_heap cm c = Some x" using assms(2) by blast
  ultimately have "RemoveConnection cm c = Inr ?cm" by (simp add: RemoveConnection_def)
  moreover have "ptr_ok ?cm"
  proof (rule ptr_okI)
    fix v n assume n: "cnode_heap ?cm v = Some n" "cn_connection n \<noteq> NULL"
    then have "cn_connection n \<noteq> c" using assms(3) by (simp add: unowned_def)
    then show "cn_connection n \<in> dom (conn_heap ?cm)" using I(4)[of v n] n by auto
  next
    show "answers_fresh (map fst (connections_pool ?cm)) (dom (conn_heap ?cm))"
      using I(7) by (simp, rule answers_fresh_mono) auto
  qed (use I in auto)
  ultimately show ?thesis by auto
qed

lemma ReleaseConnectionNode_ok:
  assumes "ptr_ok cm" "node \<noteq> NULL" "find_node cm node = Inr p" "p \<noteq> NULL" "cnode_heap cm p = Some n"
    and "cn_connection n = c" "c \<noteq> NULL"
  shows "\<exists>cm'. ReleaseConnectionNode cm c node = Inr cm' \<and> ptr_ok cm' \<and> connections cm' = connections cm \<and>
     dom (conn_heap cm') = dom (conn_heap cm) \<and> unowned cm' c \<and>
     cnode_heap cm' = (cnode_heap cm)(p \<mapsto> n\<lparr>cn_connection := NULL\<rparr>)"
proof -
  note I = ptr_okD[OF assms(1)]
  have "c \<in> dom (conn_heap cm)" using I(4)[of p n] assms(5-7) by simp
  from upd_connection_ok[OF assms(1) this, of "\<lambda>c.
      let c1 = (if local_node c = node then c\<lparr>local_node := NULL\<rparr> else c)
      in if remote_node c1 = node then c1\<lparr>remote_node := NULL\<rparr> else c1"]
  obtain cm1 where 1: "upd_connection cm c (\<lambda>c. let c1 = (if local_node c = node then c\<lparr>local_node := NULL\<rparr> else c)
      in if remote_node c1 = node then c1\<lparr>remote_node := NULL\<rparr> else c1) = Inr cm1"
    "ptr_ok cm1" "connections cm1 = connections cm" "cnode_heap cm1 = cnode_heap cm" "dom (conn_heap cm1) = dom (conn_heap cm)"
    by (elim exE conjE) (rule that)
  have n1: "cnode_heap cm1 p = Some n" using assms(5) 1(4) by simp
  obtain cm2 where 2: "set_node_connection cm1 p NULL = Inr cm2" "ptr_ok cm2" "connections cm2 = connections cm1"
    "conn_heap cm2 = conn_heap cm1" "cnode_heap cm2 = (cnode_heap cm1)(p \<mapsto> n\<lparr>cn_connection := NULL\<rparr>)"
    using set_node_connection_ok[OF 1(2) assms(4) n1] by blast
  have f: "find_node cm1 node = Inr p" using assms(3) 1(3) by (simp add: find_node_def)
  have "unowned cm2 c"
    unfolding unowned_def 2(5) 1(4)
  proof (intro allI impI)
    fix v m assume m: "((cnode_heap cm)(p \<mapsto> n\<lparr>cn_connection := NULL\<rparr>)) v = Some m"
    show "cn_connection m \<noteq> c"
    proof (cases "v = p")
      case True with m assms(7) show ?thesis by auto
    next
      case False with m I(5)[of v m p n] assms(5-7) show ?thesis by auto
    qed
  qed
  then show ?thesis using assms(2) 1 2 f by (simp add: ReleaseConnectionNode_def)
qed

lemma RemoveConnectionNode_ok:
  assumes "ptr_ok cm"
  shows "\<exists>cm'. RemoveConnectionNode cm node = Inr cm' \<and> ptr_ok cm' \<and>
     (\<forall>k. hm_vals (connections cm') k = (if k = node then [] else hm_vals (connections cm) k))"
proof -
  note I = ptr_okD[OF assms]
  obtain p where p: "find_node cm node = Inr p" "p = NULL \<longleftrightarrow> hm_vals (connections cm) node = []"
    "p \<noteq> NULL \<longrightarrow> hm_vals (connections cm) node = [p] \<and> (\<exists>n. cnode_heap cm p = Some n \<and> cn_node n = node)"
    using find_node_ok[OF assms] by blast
  show ?thesis
  proof (cases "p = NULL")
    case True
    then show ?thesis using p(1,2) assms by (intro exI[of _ cm]) (simp add: RemoveConnectionNode_def)
  next
    case False
    then obtain n where n: "cnode_heap cm p = Some n" "cn_node n = node" using p(3) by blast
    let ?c = "cn_connection n"
    obtain b hm where r: "RemoveHashMap (connections cm) node = Some (b, hm)"
      using hms.remove_law[OF I(1), of node] by blast
    note rv = hms.removeE[OF I(1) r]
    have sv: "hms.single_valued hm" using hms.single_valued_remove[OF I(1,2) r] .
    have vals: "hm_vals hm k = (if k = node then [] else hm_vals (connections cm) k)" for k
      using rv(2)[of k] p(3) False by simp
    let ?h = "if ?c = NULL then conn_heap cm else (conn_heap cm)(?c := None)"
    let ?cm = "cm\<lparr>conn_heap := ?h, connections := hm, cnode_heap := (cnode_heap cm)(p := None)\<rparr>"
    have live: "?c \<noteq> NULL \<Longrightarrow> ?c \<in> dom (conn_heap cm)" using I(4)[OF n(1)] .
    have sub: "dom ?h \<subseteq> dom (conn_heap cm)" by auto
    have eq: "RemoveConnectionNode cm node = Inr ?cm"
      using p(1) False n(1) r live by (auto simp: RemoveConnectionNode_def RemoveConnection_def)
    have "ptr_ok ?cm"
    proof (rule ptr_okI)
      fix v k assume v: "v \<in> set (hm_vals (connections ?cm) k)"
      then have k: "k \<noteq> node" "v \<in> set (hm_vals (connections cm) k)" using vals[of k] by (auto split: if_splits)
      from I(3)[OF k(2)] show "v \<noteq> NULL \<and> (\<exists>n. cnode_heap ?cm v = Some n \<and> cn_node n = k)" using n k(1) by auto
    next
      fix v m assume m: "cnode_heap ?cm v = Some m" "cn_connection m \<noteq> NULL"
      then have "v \<noteq> p" "cnode_heap cm v = Some m" by (auto split: if_splits)
      then show "cn_connection m \<in> dom (conn_heap ?cm)"
        using I(4)[of v m] I(5)[of v m p n] n(1) m(2) by auto
    next
      fix v m w m' assume "cnode_heap ?cm v = Some m" "cnode_heap ?cm w = Some m'" "cn_connection m = cn_connection m'" "cn_connection m \<noteq> NULL"
      then show "v = w" using I(5)[of v m w m'] by (auto split: if_splits)
    next
      show "answers_fresh (map fst (connections_pool ?cm)) (dom (conn_heap ?cm))"
        using answers_fresh_mono[OF I(7) sub] by simp
      show "answers_fresh (connection_nodes_pool ?cm) (dom (cnode_heap ?cm))"
        using answers_fresh_mono[OF I(8), of "dom (cnode_heap cm) - {p}"] by auto
    qed (use rv(1) sv I(6) in auto)
    then show ?thesis using eq vals by auto
  qed
qed

lemma AddConnectionNode_ok:
  assumes "ptr_ok cm" "c = NULL"
  shows "\<exists>cm'. AddConnectionNode cm c node = Inr cm' \<and> ptr_ok cm' \<and> conn_heap cm' = conn_heap cm \<and>
     (\<forall>k. k \<noteq> node \<longrightarrow> hm_vals (connections cm') k = hm_vals (connections cm) k) \<and>
     (hm_vals (connections cm) node \<noteq> [] \<longrightarrow> cm' = cm)"
proof -
  note I = ptr_okD[OF assms(1)]
  obtain pair where f: "FindHashMap (connections cm) node = Some pair" "pair = NULL \<longleftrightarrow> hm_vals (connections cm) node = []"
    using hm_vals_find[OF I(1)] by blast
  obtain p rest where a: "next_answer (connection_nodes_pool cm) = (p, rest)" by fastforce
  consider "pair \<noteq> NULL" | "pair = NULL" "p = NULL" | "pair = NULL" "p \<noteq> NULL" by blast
  then show ?thesis
  proof cases
    case 1
    then show ?thesis using f assms by (intro exI[of _ cm]) (simp add: AddConnectionNode_def)
  next
    case 2
    have "ptr_ok (cm\<lparr>connection_nodes_pool := rest\<rparr>)"
      using assms(1) answers_fresh_tail[OF I(8) a] unfolding ptr_ok_def by simp
    then show ?thesis using 2 f a by (auto simp: AddConnectionNode_def)
  next
    case 3
    have fresh: "p \<notin> dom (cnode_heap cm)" "answers_fresh rest (insert p (dom (cnode_heap cm)))"
      using answers_fresh_head[OF I(8) a 3(2)] by auto
    obtain b hm where i: "InsertHashMap (connections cm) node p = Some (b, hm)"
      using hms.insert_law[OF I(1), of node p] by blast
    note iv = hms.insertE[OF I(1) i]
    have none: "hm_vals (connections cm) node = []" using f 3 by simp
    let ?h = "(cnode_heap cm)(p \<mapsto> \<lparr>cn_node = node, cn_connection = NULL\<rparr>)"
    let ?cm = "cm\<lparr>connection_nodes_pool := rest, cnode_heap := ?h, connections := hm\<rparr>"
    have eq: "AddConnectionNode cm c node = Inr ?cm"
      using f(1) 3 a i assms(2) by (simp add: AddConnectionNode_def)
    have "ptr_ok ?cm"
    proof (rule ptr_okI)
      show "hms.single_valued (connections ?cm)" using hms.single_valued_insert[OF I(1,2) none i] by simp
      fix v k assume "v \<in> set (hm_vals (connections ?cm) k)"
      then consider "v \<in> set (hm_vals (connections cm) k)" | "v = p" "k = node"
        using iv(2)[of k] by (auto split: if_splits)
      then show "v \<noteq> NULL \<and> (\<exists>n. cnode_heap ?cm v = Some n \<and> cn_node n = k)"
      proof cases
        case 1
        with I(3)[OF 1] fresh(1) show ?thesis by auto
      qed (use 3 in simp)
    next
      fix v m assume "cnode_heap ?cm v = Some m" "cn_connection m \<noteq> NULL"
      then show "cn_connection m \<in> dom (conn_heap ?cm)" using I(4)[of v m] by (auto split: if_splits)
    next
      fix v m w m' assume "cnode_heap ?cm v = Some m" "cnode_heap ?cm w = Some m'" "cn_connection m = cn_connection m'" "cn_connection m \<noteq> NULL"
      then show "v = w" using I(5)[of v m w m'] by (auto split: if_splits)
    qed (use iv(1) fresh(2) I(6,7) in auto)
    then show ?thesis using eq iv(2) none by auto
  qed
qed

section \<open>Properties\<close>

definition conn_demo :: Connection where
  "conn_demo = \<lparr>local_node = 0x30, remote_node = 0x40,
     local_node_address = [14, 0, 2, 0, 0x1F, 0x90, 10, 0, 0, 1] @ replicate 22 0,
     remote_node_address = [14, 0, 2, 0, 0, 80, 192, 168, 1, 7] @ replicate 22 0,
     state = TCP_STATE_SYN_SENT, process_id = 1234\<rparr>"

definition cm_demo :: ConnectionManager where
  "cm_demo = \<lparr>intialised = True, device_type = TCP_DEVICE, device = 0x20, next_device = 0x28,
     connections = hm_demo, cm_event_list = sel_demo, event_handler_manager = ehm_demo,
     conn_heap = [0x900 \<mapsto> conn_demo], cnode_heap = Map.empty, connections_pool = [], connection_nodes_pool = [0xA00]\<rparr>"

definition publish_demo :: publish_env where
  "publish_demo = \<lparr>search_bits = next_fit, stack_bytes = replicate 128 0xCC\<rparr>"



end
