(* ===== verification/TdiIrpHandlers.thy ===== *)
theory TdiIrpHandlers
  imports ConnectionManager
begin

text \<open>
  NetworkMonitor/CaptureTdiIrpHandlers.c: what the monitor does for each TDI request that
  passes through it. A request is the part of the IRP and of its stack location that the
  handlers read; what they ask the kernel is in the environment.
\<close>

abbreviation (input) TDI_DISCONNECT_WAIT :: u32 where "TDI_DISCONNECT_WAIT \<equiv> 1"
abbreviation (input) TDI_DISCONNECT_ABORT :: u32 where "TDI_DISCONNECT_ABORT \<equiv> 2"
abbreviation (input) TDI_DISCONNECT_RELEASE :: u32 where "TDI_DISCONNECT_RELEASE \<equiv> 4"
abbreviation (input) TDI_EVENT_CONNECT :: u32 where "TDI_EVENT_CONNECT \<equiv> 0"

definition TdiEventHandlerNames :: "string list" where
  "TdiEventHandlerNames =
     [''TDI_EVENT_CONNECT'', ''TDI_EVENT_DISCONNECT'', ''TDI_EVENT_ERROR'', ''TDI_EVENT_RECEIVE'',
      ''TDI_EVENT_RECEIVE_DATAGRAM'', ''TDI_EVENT_RECEIVE_EXPEDITED'', ''TDI_EVENT_SEND_POSSIBLE'',
      ''TDI_EVENT_CHAINED_RECEIVE'', ''TDI_EVENT_CHAINED_RECEIVE_DATAGRAM'',
      ''TDI_EVENT_CHAINED_RECEIVE_EXPEDITED'', ''TDI_EVENT_ERROR_EX'']"

definition TdiDisconnectFlagNames :: "string list" where
  "TdiDisconnectFlagNames =
     [''DEFAULT'', ''TDI_DISCONNECT_WAIT'', ''TDI_DISCONNECT_ABORT'', '''', ''TDI_DISCONNECT_RELEASE'']"

text \<open>Reading a table for the debug output: an index outside it is out of bounds.\<close>

definition name_at :: "string list \<Rightarrow> int \<Rightarrow> fault + string" where
  "name_at names i = (if 0 \<le> i \<and> i < int (length names) then Inr (names ! nat i) else Inl OutOfBounds)"

text \<open>The extended attributes of a create request: whether the two addresses are valid, the
  length of the name and the name.\<close>

record ea_information =
  ea_valid :: bool
  EaName_valid :: bool
  EaNameLength :: u8
  EaName :: string

definition TdiTransportAddress :: string where "TdiTransportAddress = ''TransportAddress''"
definition TdiConnectionContext :: string where "TdiConnectionContext = ''ConnectionContext''"

record tdi_irp =
  MajorFunction :: u8
  MinorFunction :: u8
  FileObject :: addr
  FsContext2 :: u32
  IoControlCode :: u32
  CurrentLocation :: nat
  SystemBuffer :: "ea_information option"
  AddressHandle :: addr
  RemoteAddress :: "u8 list"
  RequestFlags :: u32
  set_event_request :: set_event
  list_request :: ioctl_request

record tdi_env =
  sizes :: tdi_sizes
  publish :: publish_env
  requestor_pid :: u32
  handle_status :: NTSTATUS
  handle_object :: addr
  query :: local_query

datatype completion_callback =
    CC_TdiConnectHandlerComplete
  | CC_TdiDisconnectHandlerComplete
  | CC_TdiConnectEventHandlerComplete

record CompletionRoutine =
  callback :: "completion_callback option"
  cr_context :: addr
  control :: u8

text \<open>SL_INVOKE_ON_CANCEL, SL_INVOKE_ON_SUCCESS, SL_INVOKE_ON_ERROR.\<close>

abbreviation (input) SL_INVOKE_ON_CANCEL :: u8 where "SL_INVOKE_ON_CANCEL \<equiv> 0x20"
abbreviation (input) SL_INVOKE_ON_SUCCESS :: u8 where "SL_INVOKE_ON_SUCCESS \<equiv> 0x40"
abbreviation (input) SL_INVOKE_ON_ERROR :: u8 where "SL_INVOKE_ON_ERROR \<equiv> 0x80"

type_synonym tdi_result = "fault + NTSTATUS \<times> ConnectionManager \<times> tdi_irp \<times> CompletionRoutine"
type_synonym tdi_handler = "tdi_env \<Rightarrow> ConnectionManager \<Rightarrow> tdi_irp \<Rightarrow> CompletionRoutine \<Rightarrow> tdi_result"

section \<open>Steps the handlers share\<close>

definition query_local_address :: "tdi_env \<Rightarrow> ConnectionManager \<Rightarrow> addr \<Rightarrow> fault + ConnectionManager" where
  "query_local_address env cm connection =
     fbind (deref (conn_heap cm) connection) (\<lambda>c.
     fbind (GetLocalAddress (sizes env) c (next_device cm) (query env)) (\<lambda>(c', _).
       Inr (cm\<lparr>conn_heap := (conn_heap cm)(connection \<mapsto> c')\<rparr>)))"

definition set_remote_address :: "tdi_env \<Rightarrow> ConnectionManager \<Rightarrow> addr \<Rightarrow> u8 list \<Rightarrow> fault + ConnectionManager" where
  "set_remote_address env cm connection address =
     fbind (deref (conn_heap cm) connection) (\<lambda>c.
     fbind (SetRemoteNodeAddress (sizes env) c address) (\<lambda>c'.
       Inr (cm\<lparr>conn_heap := (conn_heap cm)(connection \<mapsto> c')\<rparr>)))"

section \<open>The handlers\<close>

definition TdiDefaultHandler :: tdi_handler where
  "TdiDefaultHandler env cm irp cr = Inr (STATUS_SUCCESS, cm, irp, cr)"

definition TdiAssociateAddressHandler :: tdi_handler where
  "TdiAssociateAddressHandler env cm irp cr =
     (if AddressHandle irp = NULL then Inr (STATUS_SUCCESS, cm, irp, cr)
      else if \<not> NT_SUCCESS (handle_status env) then Inr (STATUS_SUCCESS, cm, irp, cr)
      else let local = handle_object env; remote = FileObject irp
           in fbind (find_node cm remote) (\<lambda>remote_connection_node.
              fbind (find_node cm local) (\<lambda>local_connection_node.
                let (connection, cm1) = CreateConnection cm
                in if connection \<noteq> NULL \<and> remote_connection_node \<noteq> NULL \<and> local_connection_node \<noteq> NULL then
                     fbind (upd_connection cm1 connection (\<lambda>c. SetRemoteNode (SetLocalNode c local) remote)) (\<lambda>cm2.
                     fbind (set_node_connection cm2 remote_connection_node connection) (\<lambda>cm3.
                     fbind (upd_connection cm3 connection (\<lambda>c. c\<lparr>process_id := requestor_pid env\<rparr>)) (\<lambda>cm4.
                       Inr (STATUS_SUCCESS, cm4, irp, cr))))
                   else Inr (STATUS_SUCCESS, cm1, irp, cr))))"

definition TdiDisassociateAddressHandler :: tdi_handler where
  "TdiDisassociateAddressHandler env cm irp cr =
     fbind (GetConnection cm (FileObject irp)) (\<lambda>connection.
       if connection = NULL then Inr (STATUS_SUCCESS, cm, irp, cr)
       else fbind (ReleaseConnectionNode cm connection (FileObject irp)) (\<lambda>cm1.
            fbind (RemoveConnection cm1 connection) (\<lambda>cm2.
              Inr (STATUS_SUCCESS, cm2, irp, cr))))"

text \<open>The completion of a connect request; \<open>status\<close> is the status of the IRP.\<close>

definition TdiConnectHandlerComplete :: "publish_env \<Rightarrow> ConnectionManager \<Rightarrow> addr \<Rightarrow> NTSTATUS \<Rightarrow> fault + NTSTATUS \<times> ConnectionManager" where
  "TdiConnectHandlerComplete env cm connection status =
     (if status = STATUS_SUCCESS then
        if device_type cm = TCP_DEVICE then
          fbind (SetConnectionState env cm connection TCP_STATE_ESTABLISHED) (\<lambda>cm'. Inr (STATUS_SUCCESS, cm'))
        else if device_type cm = UDP_DEVICE then
          fbind (SetConnectionState env cm connection UDP_STATE_ESTABLISHED) (\<lambda>cm'. Inr (STATUS_SUCCESS, cm'))
        else Inr (STATUS_SUCCESS, cm)
      else Inr (STATUS_SUCCESS, cm))"

text \<open>For UDP the connection is made here; a failed allocation is not checked for.\<close>

definition udp_connection :: "tdi_env \<Rightarrow> ConnectionManager \<Rightarrow> addr \<Rightarrow> addr \<Rightarrow> fault + ConnectionManager" where
  "udp_connection env cm p node =
     (let (connection, cm1) = CreateConnection cm
      in fbind (upd_connection cm1 connection (\<lambda>c. SetRemoteNode (SetLocalNode c node) node)) (\<lambda>cm2.
         fbind (upd_connection cm2 connection (\<lambda>c. c\<lparr>process_id := requestor_pid env\<rparr>)) (\<lambda>cm3.
           set_node_connection cm3 p connection)))"

definition TdiConnectHandler :: tdi_handler where
  "TdiConnectHandler env cm irp cr =
     fbind (find_node cm (FileObject irp)) (\<lambda>p.
       if p = NULL then Inr (STATUS_SUCCESS, cm, irp, cr)
       else fbind (deref (cnode_heap cm) p) (\<lambda>n.
            fbind (if device_type cm = UDP_DEVICE then udp_connection env cm p (cn_node n) else Inr cm) (\<lambda>cm1.
            fbind (deref (cnode_heap cm1) p) (\<lambda>n1.
              let connection = cn_connection n1
              in if connection = NULL then Inr (STATUS_SUCCESS, cm1, irp, cr)
                 else if length (RemoteAddress irp) < 4 then Inl OutOfBounds
                 else fbind (if AddressType (RemoteAddress irp) = TDI_ADDRESS_TYPE_IP
                             then set_remote_address env cm1 connection (RemoteAddress irp) else Inr cm1) (\<lambda>cm2.
                      fbind (query_local_address env cm2 connection) (\<lambda>cm3.
                      fbind (SetConnectionState (publish env) cm3 connection
                               (if device_type cm = UDP_DEVICE then UDP_STATE_CONNECT else TCP_STATE_SYN_SENT)) (\<lambda>cm4.
                        Inr (STATUS_SUCCESS, cm4, irp,
                             \<lparr>callback = Some CC_TdiConnectHandlerComplete, cr_context = connection,
                              control = SL_INVOKE_ON_SUCCESS OR SL_INVOKE_ON_ERROR OR SL_INVOKE_ON_CANCEL\<rparr>))))))))"

definition TdiCreateHandler :: tdi_handler where
  "TdiCreateHandler env cm irp cr =
     (case SystemBuffer irp of None \<Rightarrow> Inr (STATUS_SUCCESS, cm, irp, cr)
      | Some ea \<Rightarrow>
          if ea_valid ea \<and> EaName_valid ea then
            let name_length = unat (EaNameLength ea);
                is_name = (\<lambda>n. name_length = length n \<and> take (length n) (EaName ea) = n)
            in if is_name TdiTransportAddress then
                 fbind (AddConnectionNode cm NULL (FileObject irp)) (\<lambda>cm'. Inr (STATUS_SUCCESS, cm', irp, cr))
               else if is_name TdiConnectionContext then
                 fbind (AddConnectionNode cm NULL (FileObject irp)) (\<lambda>cm'. Inr (STATUS_SUCCESS, cm', irp, cr))
               else Inr (STATUS_SUCCESS, cm, irp, cr)
          else Inr (STATUS_SUCCESS, cm, irp, cr))"

definition TdiCloseHandler :: tdi_handler where
  "TdiCloseHandler env cm irp cr =
     fbind (RemoveConnectionNode cm (FileObject irp)) (\<lambda>cm'. Inr (STATUS_SUCCESS, cm', irp, cr))"

definition TdiCleanupHandler :: tdi_handler where
  "TdiCleanupHandler env cm irp cr = Inr (STATUS_SUCCESS, cm, irp, cr)"

definition TdiListenHandler :: tdi_handler where
  "TdiListenHandler env cm irp cr = Inr (STATUS_SUCCESS, cm, irp, cr)"

definition TdiAcceptHandler :: tdi_handler where
  "TdiAcceptHandler env cm irp cr = Inr (STATUS_SUCCESS, cm, irp, cr)"

definition TdiDisconnectHandlerComplete :: "ConnectionManager \<Rightarrow> addr \<Rightarrow> NTSTATUS \<Rightarrow> NTSTATUS \<times> ConnectionManager" where
  "TdiDisconnectHandlerComplete cm connection status = (STATUS_SUCCESS, cm)"

definition TdiDisconnectHandler :: tdi_handler where
  "TdiDisconnectHandler env cm irp cr =
     fbind (GetConnection cm (FileObject irp)) (\<lambda>connection.
       if connection = NULL then Inr (STATUS_SUCCESS, cm, irp, cr)
       else fbind (name_at TdiDisconnectFlagNames (uint (RequestFlags irp))) (\<lambda>_.
         if RequestFlags irp = TDI_DISCONNECT_ABORT then
           fbind (SetConnectionState (publish env) cm connection TCP_STATE_CLOSED) (\<lambda>cm'. Inr (STATUS_SUCCESS, cm', irp, cr))
         else if RequestFlags irp = TDI_DISCONNECT_RELEASE then
           fbind (deref (conn_heap cm) connection) (\<lambda>c.
             if state c = TCP_STATE_CLOSE_WAIT then
               fbind (SetConnectionState (publish env) cm connection TCP_STATE_LAST_ACK) (\<lambda>cm'. Inr (STATUS_SUCCESS, cm', irp, cr))
             else Inr (STATUS_SUCCESS, cm, irp, cr))
         else Inr (STATUS_SUCCESS, cm, irp, cr)))"

definition TdiSendHandler :: tdi_handler where
  "TdiSendHandler env cm irp cr =
     fbind (find_node cm (FileObject irp)) (\<lambda>p.
       if p = NULL then Inr (STATUS_SUCCESS, cm, irp, cr)
       else fbind (deref (cnode_heap cm) p) (\<lambda>n.
         if cn_connection n = NULL then Inr (STATUS_SUCCESS, cm, irp, cr)
         else fbind (query_local_address env cm (cn_connection n)) (\<lambda>cm'. Inr (STATUS_SUCCESS, cm', irp, cr))))"

definition TdiReceiveHandler :: tdi_handler where
  "TdiReceiveHandler env cm irp cr = Inr (STATUS_SUCCESS, cm, irp, cr)"

text \<open>The connection of a datagram sender is made with the first datagram.\<close>

definition datagram_connection :: "tdi_env \<Rightarrow> ConnectionManager \<Rightarrow> addr \<Rightarrow> ConnectionNode \<Rightarrow> fault + addr \<times> ConnectionManager" where
  "datagram_connection env cm p n =
     (if cn_connection n = NULL then
        let (connection, cm1) = CreateConnection cm
        in fbind (set_node_connection cm1 p connection) (\<lambda>cm2.
           fbind (upd_connection cm2 connection
                    (\<lambda>c. c\<lparr>local_node := cn_node n, remote_node := NULL, process_id := requestor_pid env\<rparr>)) (\<lambda>cm3.
             Inr (connection, cm3)))
      else Inr (cn_connection n, cm))"

definition TdiSendDatagramHandler :: tdi_handler where
  "TdiSendDatagramHandler env cm irp cr =
     fbind (find_node cm (FileObject irp)) (\<lambda>p.
       if p = NULL then Inr (STATUS_SUCCESS, cm, irp, cr)
       else fbind (deref (cnode_heap cm) p) (\<lambda>n.
            fbind (datagram_connection env cm p n) (\<lambda>(connection, cm1).
            fbind (query_local_address env cm1 connection) (\<lambda>cm2.
            fbind (set_remote_address env cm2 connection (RemoteAddress irp)) (\<lambda>cm3.
            fbind (SetConnectionState (publish env) cm3 connection UDP_STATE_SEND_DATAGRAM) (\<lambda>cm4.
              Inr (STATUS_SUCCESS, cm4, irp, cr)))))))"

definition TdiReceiveDatagramHandler :: tdi_handler where
  "TdiReceiveDatagramHandler env cm irp cr = Inr (STATUS_SUCCESS, cm, irp, cr)"

text \<open>Listening: the node, looked up before the connection is made, gets a connection with itself.\<close>

definition listen_connection :: "tdi_env \<Rightarrow> ConnectionManager \<Rightarrow> addr \<Rightarrow> fault + ConnectionManager" where
  "listen_connection env cm node =
     fbind (find_node cm node) (\<lambda>p.
       let (connection, cm1) = CreateConnection cm
       in fbind (SetLocalConnectionNode cm1 connection node) (\<lambda>cm2.
          fbind (SetRemoteConnectionNode cm2 connection node) (\<lambda>cm3.
          fbind (set_node_connection cm3 p connection) (\<lambda>cm4.
          fbind (query_local_address env cm4 connection) (\<lambda>cm5.
          fbind (deref (conn_heap cm5) connection) (\<lambda>c.
          fbind (set_remote_address env cm5 connection (local_node_address c)) (\<lambda>cm6.
            SetConnectionState (publish env) cm6 connection TCP_STATE_LISTEN)))))))"

definition TdiSetEventHandler :: tdi_handler where
  "TdiSetEventHandler env cm irp cr =
     (let req = set_event_request irp; node = FileObject irp
      in fbind (name_at TdiEventHandlerNames (sint (EventType req))) (\<lambda>_.
           if EventHandler_cb req = CB_NULL \<and> EventContext req = 0 then
             fbind (RemoveEventHandler (event_handler_manager cm) req node) (\<lambda>ehm.
               Inr (STATUS_SUCCESS, cm\<lparr>event_handler_manager := ehm\<rparr>, irp, cr))
           else
             fbind (SetEventHandler (event_handler_manager cm) req node) (\<lambda>(ehm, req').
               let cm1 = cm\<lparr>event_handler_manager := ehm\<rparr>; irp1 = irp\<lparr>set_event_request := req'\<rparr>
               in if EventType req' = TDI_EVENT_CONNECT then
                    fbind (listen_connection env cm1 node) (\<lambda>cm2. Inr (STATUS_SUCCESS, cm2, irp1, cr))
                  else Inr (STATUS_SUCCESS, cm1, irp1, cr))))"

definition TdiQueryInformationHandler :: tdi_handler where
  "TdiQueryInformationHandler env cm irp cr = Inr (STATUS_SUCCESS, cm, irp, cr)"

definition TdiSetInformationHandler :: tdi_handler where
  "TdiSetInformationHandler env cm irp cr = Inr (STATUS_SUCCESS, cm, irp, cr)"

definition TdiActionHandler :: tdi_handler where
  "TdiActionHandler env cm irp cr = Inr (STATUS_SUCCESS, cm, irp, cr)"

section \<open>Steps that leave the pointers alone\<close>

definition same_ptrs :: "ConnectionManager \<Rightarrow> ConnectionManager \<Rightarrow> bool" where
  "same_ptrs cm cm' \<longleftrightarrow> connections cm' = connections cm \<and> cnode_heap cm' = cnode_heap cm \<and>
     dom (conn_heap cm') = dom (conn_heap cm) \<and> connections_pool cm' = connections_pool cm \<and>
     connection_nodes_pool cm' = connection_nodes_pool cm"

lemma same_ptrs_refl [simp]: "same_ptrs cm cm"
  by (simp add: same_ptrs_def)

lemma same_ptrs_trans: "same_ptrs a b \<Longrightarrow> same_ptrs b c \<Longrightarrow> same_ptrs a c"
  by (simp add: same_ptrs_def)

lemma same_ptrs_ok: "same_ptrs cm cm' \<Longrightarrow> ptr_ok cm \<Longrightarrow> ptr_ok cm'"
  unfolding same_ptrs_def by (elim conjE) (rule ptr_ok_cong)

lemma same_ptrs_unowned: "same_ptrs cm cm' \<Longrightarrow> unowned cm' c = unowned cm c"
  by (simp add: same_ptrs_def unowned_def)

lemma same_ptrs_upd:
  assumes "conn_heap cm c = Some x"
  shows "same_ptrs cm (cm\<lparr>conn_heap := (conn_heap cm)(c \<mapsto> y)\<rparr>)"
proof -
  have "c \<in> dom (conn_heap cm)" using assms by auto
  then show ?thesis by (simp add: same_ptrs_def insert_absorb)
qed

lemma deref_Inr: "deref h p = Inr x \<longleftrightarrow> p \<noteq> NULL \<and> h p = Some x"
  by (auto simp: deref_def split: option.splits)

lemma upd_connection_same: "upd_connection cm c f = Inr cm' \<Longrightarrow> same_ptrs cm cm'"
  by (auto simp: upd_connection_def fbind_eq_Inr deref_Inr intro: same_ptrs_upd)

lemma query_local_address_same: "query_local_address env cm c = Inr cm' \<Longrightarrow> same_ptrs cm cm'"
  by (auto simp: query_local_address_def fbind_eq_Inr deref_Inr intro: same_ptrs_upd)

lemma set_remote_address_same: "set_remote_address env cm c a = Inr cm' \<Longrightarrow> same_ptrs cm cm'"
  by (auto simp: set_remote_address_def fbind_eq_Inr deref_Inr intro: same_ptrs_upd)

lemma SetConnectionState_same:
  assumes "SetConnectionState env cm c st = Inr cm'" shows "same_ptrs cm cm'"
proof (cases "c = NULL")
  case True
  with assms show ?thesis by (simp add: SetConnectionState_def)
next
  case False
  with assms obtain x s where x: "conn_heap cm c = Some x"
    "cm' = cm\<lparr>conn_heap := (conn_heap cm)(c \<mapsto> x\<lparr>state := st\<rparr>), cm_event_list := s\<rparr>"
    by (auto simp: SetConnectionState_def Let_def fbind_eq_Inr deref_Inr)
  with same_ptrs_upd[OF x(1), of "x\<lparr>state := st\<rparr>"] show ?thesis by (simp add: same_ptrs_def)
qed

lemmas same_steps = upd_connection_same query_local_address_same set_remote_address_same SetConnectionState_same

text \<open>Giving a node of its own to a connection that nobody owns.\<close>

lemma set_node_connection_Inr:
  assumes "ptr_ok cm" "set_node_connection cm p c = Inr cm'"
    and "c = NULL \<or> c \<in> dom (conn_heap cm) \<and> unowned cm c"
  shows "ptr_ok cm' \<and> conn_heap cm' = conn_heap cm \<and> connections cm' = connections cm"
proof -
  obtain n where n: "p \<noteq> NULL" "cnode_heap cm p = Some n"
    using assms(2) by (auto simp: set_node_connection_def fbind_eq_Inr deref_Inr)
  from set_node_connection_ok[OF assms(1) n assms(3)] assms(2) show ?thesis by auto
qed

section \<open>The handlers keep the invariant\<close>

lemma TdiCreateHandler_ok:
  assumes "ptr_ok cm"
  shows "\<exists>cm'. TdiCreateHandler env cm irp cr = Inr (STATUS_SUCCESS, cm', irp, cr) \<and> ptr_ok cm' \<and> conn_heap cm' = conn_heap cm"
  using AddConnectionNode_ok[OF assms refl, of "FileObject irp"] assms
  by (auto simp: TdiCreateHandler_def Let_def split: option.split)

lemma TdiCloseHandler_ok:
  assumes "ptr_ok cm"
  shows "\<exists>cm'. TdiCloseHandler env cm irp cr = Inr (STATUS_SUCCESS, cm', irp, cr) \<and> ptr_ok cm' \<and>
     GetConnection cm' (FileObject irp) = Inr NULL"
proof -
  obtain cm' where c: "RemoveConnectionNode cm (FileObject irp) = Inr cm'" "ptr_ok cm'"
    "\<forall>k. hm_vals (connections cm') k = (if k = FileObject irp then [] else hm_vals (connections cm) k)"
    using RemoveConnectionNode_ok[OF assms] by blast
  have "find_node cm' (FileObject irp) = Inr NULL" using find_node_ok[OF c(2), of "FileObject irp"] c(3) by auto
  then show ?thesis using c by (simp add: TdiCloseHandler_def GetConnection_def)
qed

lemma TdiDisassociateAddressHandler_ok:
  assumes "ptr_ok cm" "FileObject irp \<noteq> NULL"
  shows "\<exists>cm'. TdiDisassociateAddressHandler env cm irp cr = Inr (STATUS_SUCCESS, cm', irp, cr) \<and> ptr_ok cm' \<and>
     (\<forall>c. GetConnection cm (FileObject irp) = Inr c \<longrightarrow> dom (conn_heap cm') = dom (conn_heap cm) - {c})"
proof -
  obtain c where c: "GetConnection cm (FileObject irp) = Inr c"
    "c \<noteq> NULL \<longrightarrow> c \<in> dom (conn_heap cm) \<and> (\<exists>p n. find_node cm (FileObject irp) = Inr p \<and> p \<noteq> NULL \<and>
       cnode_heap cm p = Some n \<and> cn_connection n = c)"
    using GetConnection_ok[OF assms(1), of "FileObject irp"] by blast
  show ?thesis
  proof (cases "c = NULL")
    case True
    moreover have "NULL \<notin> dom (conn_heap cm)" by (rule ptr_okD(6)[OF assms(1)])
    ultimately show ?thesis using c(1) assms(1) by (simp add: TdiDisassociateAddressHandler_def)
  next
    case False
    then obtain p n where p: "find_node cm (FileObject irp) = Inr p" "p \<noteq> NULL" "cnode_heap cm p = Some n" "cn_connection n = c"
      and cd: "c \<in> dom (conn_heap cm)" using c(2) by blast
    obtain cm1 where 1: "ReleaseConnectionNode cm c (FileObject irp) = Inr cm1" "ptr_ok cm1"
      "dom (conn_heap cm1) = dom (conn_heap cm)" "unowned cm1 c"
      using ReleaseConnectionNode_ok[OF assms(1,2) p False] by blast
    obtain cm2 where 2: "RemoveConnection cm1 c = Inr cm2" "ptr_ok cm2" "conn_heap cm2 = (conn_heap cm1)(c := None)"
      using RemoveConnection_ok[OF 1(2) _ 1(4)] cd 1(3) by auto
    have "dom (conn_heap cm2) = dom (conn_heap cm) - {c}" using 2(3) 1(3) by simp
    then show ?thesis using c(1) False 1(1) 2(1,2) by (simp add: TdiDisassociateAddressHandler_def)
  qed
qed

lemma TdiAssociateAddressHandler_ok:
  assumes "ptr_ok cm"
  shows "\<exists>cm'. TdiAssociateAddressHandler env cm irp cr = Inr (STATUS_SUCCESS, cm', irp, cr) \<and> ptr_ok cm' \<and>
     dom (conn_heap cm) \<subseteq> dom (conn_heap cm')"
proof (cases "AddressHandle irp = NULL \<or> \<not> NT_SUCCESS (handle_status env)")
  case True
  then show ?thesis using assms by (auto simp: TdiAssociateAddressHandler_def)
next
  case False
  obtain r where r: "find_node cm (FileObject irp) = Inr r" "r \<noteq> NULL \<longrightarrow> (\<exists>n. cnode_heap cm r = Some n)"
    using find_node_ok[OF assms] by blast
  obtain l where l: "find_node cm (handle_object env) = Inr l" using find_node_ok[OF assms] by blast
  obtain c cm1 where c: "CreateConnection cm = (c, cm1)" by fastforce
  note C = CreateConnection_ok[OF assms c]
  show ?thesis
  proof (cases "c \<noteq> NULL \<and> r \<noteq> NULL \<and> l \<noteq> NULL")
    case no: False
    then show ?thesis using False r(1) l c C by (auto simp: TdiAssociateAddressHandler_def)
  next
    case yes: True
    then have cd: "c \<in> dom (conn_heap cm1)" "unowned cm1 c" "ptr_ok cm1" using C by auto
    obtain cm2 where 2: "upd_connection cm1 c (\<lambda>c. SetRemoteNode (SetLocalNode c (handle_object env)) (FileObject irp)) = Inr cm2"
      "ptr_ok cm2" "cnode_heap cm2 = cnode_heap cm1" "dom (conn_heap cm2) = dom (conn_heap cm1)"
      using upd_connection_ok[OF cd(3,1)] by blast
    obtain n where n: "cnode_heap cm2 r = Some n" using r(2) yes 2(3) C by auto
    have "c \<in> dom (conn_heap cm2) \<and> unowned cm2 c" using cd(1,2) 2(3,4) by (simp add: unowned_def)
    then obtain cm3 where 3: "set_node_connection cm2 r c = Inr cm3" "ptr_ok cm3" "conn_heap cm3 = conn_heap cm2"
      using set_node_connection_ok[OF 2(2) _ n] yes by blast
    have "c \<in> dom (conn_heap cm3)" using cd(1) 2(4) 3(3) by simp
    from upd_connection_ok[OF 3(2) this, of "\<lambda>c. c\<lparr>process_id := requestor_pid env\<rparr>"]
    obtain cm4 where 4: "upd_connection cm3 c (\<lambda>c. c\<lparr>process_id := requestor_pid env\<rparr>) = Inr cm4" "ptr_ok cm4"
      "dom (conn_heap cm4) = dom (conn_heap cm3)" by blast
    have "TdiAssociateAddressHandler env cm irp cr = Inr (STATUS_SUCCESS, cm4, irp, cr)"
      using False r(1) l c yes 2(1) 3(1) 4(1) by (simp add: TdiAssociateAddressHandler_def Let_def)
    then show ?thesis using 4(2,3) 3(3) 2(4) C by auto
  qed
qed

lemma same_ptrs_dom: "same_ptrs cm cm' \<Longrightarrow> dom (conn_heap cm') = dom (conn_heap cm)"
  by (simp add: same_ptrs_def)

text \<open>A connection just made: it is live and nobody owns it, also after its fields are set.\<close>

lemma fresh_connection:
  assumes "ptr_ok cm" "CreateConnection cm = (c, cm1)" "upd_connection cm1 c f = Inr cm2"
  shows "ptr_ok cm1 \<and> ptr_ok cm2 \<and> c \<in> dom (conn_heap cm2) \<and> unowned cm2 c"
proof -
  note C = CreateConnection_ok[OF assms(1,2)]
  have s: "same_ptrs cm1 cm2" using assms(3) by (rule upd_connection_same)
  have "c \<noteq> NULL" using assms(3) by (auto simp: upd_connection_def fbind_eq_Inr deref_Inr)
  then show ?thesis using C same_ptrs_ok[OF s] same_ptrs_dom[OF s] same_ptrs_unowned[OF s] by auto
qed

lemma udp_connection_ok:
  assumes "ptr_ok cm" "udp_connection env cm p node = Inr cm'"
  shows "ptr_ok cm'"
proof -
  obtain c cm1 where c: "CreateConnection cm = (c, cm1)" by fastforce
  with assms(2) obtain cm2 cm3 where 2: "upd_connection cm1 c (\<lambda>c. SetRemoteNode (SetLocalNode c node) node) = Inr cm2"
    and 3: "upd_connection cm2 c (\<lambda>c. c\<lparr>process_id := requestor_pid env\<rparr>) = Inr cm3"
    and 4: "set_node_connection cm3 p c = Inr cm'"
    by (auto simp: udp_connection_def fbind_eq_Inr)
  note f = fresh_connection[OF assms(1) c 2]
  have s: "same_ptrs cm2 cm3" using 3 by (rule upd_connection_same)
  have "ptr_ok cm3" "c \<in> dom (conn_heap cm3) \<and> unowned cm3 c"
    using f same_ptrs_ok[OF s] same_ptrs_dom[OF s] same_ptrs_unowned[OF s] by auto
  then show ?thesis using set_node_connection_Inr[OF _ 4] by blast
qed

lemma TdiConnectHandler_ptr_ok:
  assumes "ptr_ok cm" "TdiConnectHandler env cm irp cr = Inr (st, cm', irp', cr')"
  shows "ptr_ok cm'"
proof -
  obtain p where p: "find_node cm (FileObject irp) = Inr p" using find_node_ok[OF assms(1)] by blast
  show ?thesis
  proof (cases "p = NULL")
    case True
    then show ?thesis using assms p by (simp add: TdiConnectHandler_def)
  next
    case False
    then obtain n cm1 n1 where n: "deref (cnode_heap cm) p = Inr n"
      and 1: "(if device_type cm = UDP_DEVICE then udp_connection env cm p (cn_node n) else Inr cm) = Inr cm1"
      and n1: "deref (cnode_heap cm1) p = Inr n1"
      using assms(2) p by (auto simp: TdiConnectHandler_def fbind_eq_Inr)
    have ok1: "ptr_ok cm1" using 1 udp_connection_ok[OF assms(1)] assms(1) by (auto split: if_splits)
    show ?thesis
    proof (cases "cn_connection n1 = NULL")
      case True
      then show ?thesis using assms(2) p False n 1 n1 ok1 by (simp add: TdiConnectHandler_def)
    next
      case c: False
      then obtain cm2 cm3 where
        2: "(if AddressType (RemoteAddress irp) = TDI_ADDRESS_TYPE_IP then set_remote_address env cm1 (cn_connection n1) (RemoteAddress irp)
             else Inr cm1) = Inr cm2"
        and 3: "query_local_address env cm2 (cn_connection n1) = Inr cm3"
        and 4: "SetConnectionState (publish env) cm3 (cn_connection n1)
             (if device_type cm = UDP_DEVICE then UDP_STATE_CONNECT else TCP_STATE_SYN_SENT) = Inr cm'"
        using assms(2) p False n 1 n1 by (auto simp: TdiConnectHandler_def fbind_eq_Inr Let_def split: if_splits)
      have "same_ptrs cm1 cm2" using 2 set_remote_address_same by (auto split: if_splits)
      then have "same_ptrs cm1 cm'"
        using query_local_address_same[OF 3] SetConnectionState_same[OF 4] same_ptrs_trans by blast
      then show ?thesis using ok1 same_ptrs_ok by blast
    qed
  qed
qed

lemma TdiDisconnectHandler_ptr_ok:
  assumes "ptr_ok cm" "TdiDisconnectHandler env cm irp cr = Inr (st, cm', irp', cr')"
  shows "ptr_ok cm'"
  using assms(2) same_ptrs_ok[OF SetConnectionState_same assms(1)] assms(1)
  by (auto simp: TdiDisconnectHandler_def fbind_eq_Inr split: if_splits)

lemma TdiSendHandler_ptr_ok:
  assumes "ptr_ok cm" "TdiSendHandler env cm irp cr = Inr (st, cm', irp', cr')"
  shows "ptr_ok cm'"
  using assms(2) same_ptrs_ok[OF query_local_address_same assms(1)] assms(1)
  by (auto simp: TdiSendHandler_def fbind_eq_Inr split: if_splits)

lemma datagram_connection_ok:
  assumes "ptr_ok cm" "datagram_connection env cm p n = Inr (c, cm')"
  shows "ptr_ok cm'"
proof (cases "cn_connection n = NULL")
  case True
  obtain d cm1 where d: "CreateConnection cm = (d, cm1)" by fastforce
  note C = CreateConnection_ok[OF assms(1) d]
  obtain cm2 where 2: "set_node_connection cm1 p d = Inr cm2"
    and 3: "upd_connection cm2 d (\<lambda>c. c\<lparr>local_node := cn_node n, remote_node := NULL, process_id := requestor_pid env\<rparr>) = Inr cm'"
    using assms(2) True d by (auto simp: datagram_connection_def fbind_eq_Inr)
  have "d = NULL \<or> d \<in> dom (conn_heap cm1) \<and> unowned cm1 d" using C by auto
  then have "ptr_ok cm2" using set_node_connection_Inr[OF _ 2] C by blast
  then show ?thesis using same_ptrs_ok[OF upd_connection_same[OF 3]] by blast
qed (use assms in \<open>simp add: datagram_connection_def\<close>)

lemma TdiSendDatagramHandler_ptr_ok:
  assumes "ptr_ok cm" "TdiSendDatagramHandler env cm irp cr = Inr (st, cm', irp', cr')"
  shows "ptr_ok cm'"
proof -
  obtain p where p: "find_node cm (FileObject irp) = Inr p" using find_node_ok[OF assms(1)] by blast
  show ?thesis
  proof (cases "p = NULL")
    case True
    then show ?thesis using assms p by (simp add: TdiSendDatagramHandler_def)
  next
    case False
    then obtain n c cm1 cm2 cm3 where "deref (cnode_heap cm) p = Inr n"
      and 1: "datagram_connection env cm p n = Inr (c, cm1)"
      and 2: "query_local_address env cm1 c = Inr cm2"
      and 3: "set_remote_address env cm2 c (RemoteAddress irp) = Inr cm3"
      and 4: "SetConnectionState (publish env) cm3 c UDP_STATE_SEND_DATAGRAM = Inr cm'"
      using assms(2) p by (auto simp: TdiSendDatagramHandler_def fbind_eq_Inr)
    then show ?thesis using datagram_connection_ok[OF assms(1) 1] same_steps(2)[OF 2] same_steps(3)[OF 3] same_steps(4)[OF 4]
      by (meson same_ptrs_ok)
  qed
qed

lemma AddConnectionNode_known:
  assumes "ptr_ok cm" "hm_vals (connections cm) node \<noteq> []"
  shows "AddConnectionNode cm c node = Inr cm"
proof -
  obtain pair where "FindHashMap (connections cm) node = Some pair" "pair \<noteq> NULL"
    using hm_vals_find[OF ptr_okD(1)[OF assms(1)]] assms(2) by blast
  then show ?thesis by (simp add: AddConnectionNode_def)
qed

lemma listen_connection_ok:
  assumes "ptr_ok cm" "listen_connection env cm node = Inr cm'"
  shows "ptr_ok cm'"
proof -
  obtain p where p: "find_node cm node = Inr p" "p = NULL \<longleftrightarrow> hm_vals (connections cm) node = []"
    using find_node_ok[OF assms(1)] by blast
  obtain c cm1 where c: "CreateConnection cm = (c, cm1)" by fastforce
  note C = CreateConnection_ok[OF assms(1) c]
  obtain cm2 cm3 cm4 cm5 x cm6 where
    2: "SetLocalConnectionNode cm1 c node = Inr cm2" and 3: "SetRemoteConnectionNode cm2 c node = Inr cm3"
    and 4: "set_node_connection cm3 p c = Inr cm4" and 5: "query_local_address env cm4 c = Inr cm5"
    and x: "deref (conn_heap cm5) c = Inr x"
    and 6: "set_remote_address env cm5 c (local_node_address x) = Inr cm6"
    and 7: "SetConnectionState (publish env) cm6 c TCP_STATE_LISTEN = Inr cm'"
    using assms(2) p(1) c by (auto simp: listen_connection_def fbind_eq_Inr)
  have "p \<noteq> NULL" using 4 by (auto simp: set_node_connection_def fbind_eq_Inr deref_Inr)
  then have known: "hm_vals (connections cm1) node \<noteq> []" using p(2) C by simp
  obtain a2 where a2: "upd_connection cm1 c (\<lambda>x. SetLocalNode x node) = Inr a2" "AddConnectionNode a2 c node = Inr cm2"
    using 2 by (auto simp: SetLocalConnectionNode_def fbind_eq_Inr)
  note f = fresh_connection[OF assms(1) c a2(1)]
  have s2: "same_ptrs cm1 a2" by (rule upd_connection_same[OF a2(1)])
  have k2: "hm_vals (connections a2) node \<noteq> []" using known s2 by (simp add: same_ptrs_def)
  then have e2: "cm2 = a2" using AddConnectionNode_known[of a2 node c] f a2(2) by simp
  obtain a3 where a3: "upd_connection a2 c (\<lambda>x. SetRemoteNode x node) = Inr a3" "AddConnectionNode a3 c node = Inr cm3"
    using 3 e2 by (auto simp: SetRemoteConnectionNode_def fbind_eq_Inr)
  have s3: "same_ptrs a2 a3" by (rule upd_connection_same[OF a3(1)])
  have "ptr_ok a3" using f same_ptrs_ok[OF s3] by blast
  moreover have "hm_vals (connections a3) node \<noteq> []" using k2 s3 by (simp add: same_ptrs_def)
  ultimately have e3: "cm3 = a3" using AddConnectionNode_known[of a3 node c] a3(2) by simp
  have "ptr_ok cm3" "c \<in> dom (conn_heap cm3) \<and> unowned cm3 c"
    using f same_ptrs_ok[OF s3] same_ptrs_dom[OF s3] same_ptrs_unowned[OF s3] e3 by auto
  then have "ptr_ok cm4" using set_node_connection_Inr[OF _ 4] by blast
  then show ?thesis using same_steps(2)[OF 5] same_steps(3)[OF 6] same_steps(4)[OF 7] by (meson same_ptrs_ok)
qed

lemma TdiSetEventHandler_ptr_ok:
  assumes "ptr_ok cm" "TdiSetEventHandler env cm irp cr = Inr (st, cm', irp', cr')"
  shows "ptr_ok cm'"
proof -
  have e: "ptr_ok (cm\<lparr>event_handler_manager := m\<rparr>)" for m
    by (rule ptr_ok_cong[OF assms(1)]) simp_all
  show ?thesis using assms(2) e listen_connection_ok[OF e]
    by (auto simp: TdiSetEventHandler_def Let_def fbind_eq_Inr split: if_splits)
qed

lemma TdiConnectHandlerComplete_ptr_ok:
  assumes "ptr_ok cm" "TdiConnectHandlerComplete env cm c status = Inr (st, cm')"
  shows "ptr_ok cm'"
  using assms(2) same_ptrs_ok[OF SetConnectionState_same assms(1)] assms(1)
  by (auto simp: TdiConnectHandlerComplete_def fbind_eq_Inr split: if_splits)

end
