(* ===== verification/TdiEventHandlers.thy ===== *)
theory TdiEventHandlers
  imports TdiIrpHandlers
begin

text \<open>
  NetworkMonitor/CaptureTdiEventHandlers.c: the callbacks that stand in for the clients'
  event callbacks. The transport driver calls them with the address of an EventHandler as
  context; each calls the client's callback with the client's context and the other
  arguments as they are. What a callback of a client returns is the argument \<open>client\<close>, a
  function of the callback and its arguments (pointers and numbers are 32-bit words).
\<close>

type_synonym 'r client_call = "event_callback \<Rightarrow> u32 list \<Rightarrow> 'r"

definition call_original :: "'r client_call \<Rightarrow> (addr \<rightharpoonup> EventHandler) \<Rightarrow> addr \<Rightarrow> u32 list \<Rightarrow> fault + 'r" where
  "call_original client h tdiEventContext args =
     fbind (deref h tdiEventContext) (\<lambda>e.
       Inr (client (EventHandler_cb (original_handler e)) (EventContext (original_handler e) # args)))"

section \<open>Callbacks that only pass on\<close>

definition TdiErrorEventHandler :: "NTSTATUS client_call \<Rightarrow> (addr \<rightharpoonup> EventHandler) \<Rightarrow> addr \<Rightarrow> NTSTATUS \<Rightarrow> fault + NTSTATUS" where
  "TdiErrorEventHandler client h ctx Status = call_original client h ctx [Status]"

definition TdiReceiveEventHandler ::
    "NTSTATUS client_call \<Rightarrow> (addr \<rightharpoonup> EventHandler) \<Rightarrow> addr \<Rightarrow> addr \<Rightarrow> u32 \<Rightarrow> u32 \<Rightarrow> u32 \<Rightarrow> addr \<Rightarrow> addr \<Rightarrow> addr \<Rightarrow>
     fault + NTSTATUS" where
  "TdiReceiveEventHandler client h ctx connectionContext receiveFlags bytesIndicated bytesAvailable bytesTaken tsdu ioRequestPacket =
     call_original client h ctx
       [connectionContext, receiveFlags, bytesIndicated, bytesAvailable, bytesTaken, tsdu, ioRequestPacket]"

definition TdiReceiveDatagramEventHandler ::
    "NTSTATUS client_call \<Rightarrow> (addr \<rightharpoonup> EventHandler) \<Rightarrow> addr \<Rightarrow> u32 \<Rightarrow> addr \<Rightarrow> u32 \<Rightarrow> addr \<Rightarrow> u32 \<Rightarrow> u32 \<Rightarrow> u32 \<Rightarrow>
     addr \<Rightarrow> addr \<Rightarrow> addr \<Rightarrow> fault + NTSTATUS" where
  "TdiReceiveDatagramEventHandler client h ctx SourceAddressLength SourceAddress OptionsLength Options
       ReceiveDatagramFlags BytesIndicated BytesAvailable BytesTaken Tsdu IoRequestPacket =
     call_original client h ctx
       [SourceAddressLength, SourceAddress, OptionsLength, Options, ReceiveDatagramFlags, BytesIndicated,
        BytesAvailable, BytesTaken, Tsdu, IoRequestPacket]"

definition TdiReceiveExpeditedEventHandler ::
    "NTSTATUS client_call \<Rightarrow> (addr \<rightharpoonup> EventHandler) \<Rightarrow> addr \<Rightarrow> addr \<Rightarrow> u32 \<Rightarrow> u32 \<Rightarrow> u32 \<Rightarrow> addr \<Rightarrow> addr \<Rightarrow> addr \<Rightarrow>
     fault + NTSTATUS" where
  "TdiReceiveExpeditedEventHandler client h ctx ConnectionContext ReceiveFlags BytesIndicated BytesAvailable BytesTaken Tsdu IoRequestPacket =
     call_original client h ctx
       [ConnectionContext, ReceiveFlags, BytesIndicated, BytesAvailable, BytesTaken, Tsdu, IoRequestPacket]"

definition TdiSendPossibleEventHandler ::
    "NTSTATUS client_call \<Rightarrow> (addr \<rightharpoonup> EventHandler) \<Rightarrow> addr \<Rightarrow> addr \<Rightarrow> u32 \<Rightarrow> fault + NTSTATUS" where
  "TdiSendPossibleEventHandler client h ctx ConnectionContext BytesAvailable =
     call_original client h ctx [ConnectionContext, BytesAvailable]"

definition TdiChainedReceiveEventHandler ::
    "NTSTATUS client_call \<Rightarrow> (addr \<rightharpoonup> EventHandler) \<Rightarrow> addr \<Rightarrow> addr \<Rightarrow> u32 \<Rightarrow> u32 \<Rightarrow> u32 \<Rightarrow> addr \<Rightarrow> addr \<Rightarrow> fault + NTSTATUS" where
  "TdiChainedReceiveEventHandler client h ctx ConnectionContext ReceiveFlags ReceiveLength StartingOffset Tsdu TsduDescriptor =
     call_original client h ctx [ConnectionContext, ReceiveFlags, ReceiveLength, StartingOffset, Tsdu, TsduDescriptor]"

definition TdiChainedReceiveDatagramEventHandler ::
    "NTSTATUS client_call \<Rightarrow> (addr \<rightharpoonup> EventHandler) \<Rightarrow> addr \<Rightarrow> u32 \<Rightarrow> addr \<Rightarrow> u32 \<Rightarrow> addr \<Rightarrow> u32 \<Rightarrow> u32 \<Rightarrow> u32 \<Rightarrow>
     addr \<Rightarrow> addr \<Rightarrow> fault + NTSTATUS" where
  "TdiChainedReceiveDatagramEventHandler client h ctx SourceAddressLength SourceAddress OptionsLength Options
       ReceiveDatagramFlags ReceiveDatagramLength StartingOffset Tsdu TsduDescriptor =
     call_original client h ctx
       [SourceAddressLength, SourceAddress, OptionsLength, Options, ReceiveDatagramFlags, ReceiveDatagramLength,
        StartingOffset, Tsdu, TsduDescriptor]"

definition TdiChainedReceiveExpeditedEventHandler ::
    "NTSTATUS client_call \<Rightarrow> (addr \<rightharpoonup> EventHandler) \<Rightarrow> addr \<Rightarrow> addr \<Rightarrow> u32 \<Rightarrow> u32 \<Rightarrow> u32 \<Rightarrow> addr \<Rightarrow> addr \<Rightarrow> fault + NTSTATUS" where
  "TdiChainedReceiveExpeditedEventHandler client h ctx ConnectionContext ReceiveFlags ReceiveLength StartingOffset Tsdu TsduDescriptor =
     call_original client h ctx [ConnectionContext, ReceiveFlags, ReceiveLength, StartingOffset, Tsdu, TsduDescriptor]"

definition TdiErrorExEventHandler ::
    "NTSTATUS client_call \<Rightarrow> (addr \<rightharpoonup> EventHandler) \<Rightarrow> addr \<Rightarrow> NTSTATUS \<Rightarrow> addr \<Rightarrow> fault + NTSTATUS" where
  "TdiErrorExEventHandler client h ctx Status Buffer = call_original client h ctx [Status, Buffer]"

section \<open>Connect and disconnect\<close>

definition TdiConnectEventHandlerComplete ::
    "publish_env \<Rightarrow> ConnectionManager \<Rightarrow> addr \<Rightarrow> NTSTATUS \<Rightarrow> fault + NTSTATUS \<times> ConnectionManager" where
  "TdiConnectEventHandlerComplete env cm connection status =
     (if connection \<noteq> NULL then
        fbind (SetConnectionState env cm connection
                 (if status = STATUS_SUCCESS then TCP_STATE_ESTABLISHED else TCP_STATE_FIN_WAIT_1))
          (\<lambda>cm'. Inr (STATUS_SUCCESS, cm'))
      else Inr (STATUS_SUCCESS, cm))"

text \<open>
  The client answers with a status and the accept IRP it built, of which the file object is
  read. The completion routine for the accept is set when its context can be allocated; the
  result has it and the context.
\<close>

definition TdiConnectEventHandler ::
    "tdi_env \<Rightarrow> (NTSTATUS \<times> addr) client_call \<Rightarrow> ConnectionManager \<Rightarrow> addr \<Rightarrow> u32 list \<Rightarrow> u8 list \<Rightarrow> addr \<Rightarrow>
     fault + NTSTATUS \<times> ConnectionManager \<times> (addr \<times> CompletionRoutine) option" where
  "TdiConnectEventHandler env client cm tdiEventContext args remoteAddress context_answer =
     fbind (call_original client (eh_heap (event_handler_manager cm)) tdiEventContext args) (\<lambda>(status, accept_file_object).
       if status \<noteq> STATUS_MORE_PROCESSING_REQUIRED then Inr (status, cm, None)
       else fbind (GetConnection cm accept_file_object) (\<lambda>connection.
         if connection = NULL then Inr (status, cm, None)
         else fbind (query_local_address env cm connection) (\<lambda>cm1.
              fbind (set_remote_address env cm1 connection remoteAddress) (\<lambda>cm2.
              fbind (SetConnectionState (publish env) cm2 connection TCP_STATE_SYN_RCVD) (\<lambda>cm3.
                Inr (status, cm3,
                     (if context_answer \<noteq> NULL then
                        Some (context_answer,
                              \<lparr>callback = Some CC_TdiConnectEventHandlerComplete, cr_context = connection,
                               control = SL_INVOKE_ON_SUCCESS OR SL_INVOKE_ON_ERROR OR SL_INVOKE_ON_CANCEL\<rparr>)
                      else None)))))))"

text \<open>The connection is looked up before the client's callback runs.\<close>

definition TdiDisconnectEventHandler ::
    "tdi_env \<Rightarrow> NTSTATUS client_call \<Rightarrow> ConnectionManager \<Rightarrow> addr \<Rightarrow> u32 list \<Rightarrow> u32 \<Rightarrow>
     fault + NTSTATUS \<times> ConnectionManager" where
  "TdiDisconnectEventHandler env client cm tdiEventContext args disconnectFlags =
     fbind (deref (eh_heap (event_handler_manager cm)) tdiEventContext) (\<lambda>e.
     fbind (GetConnection cm (eh_node e)) (\<lambda>connection.
     fbind (call_original client (eh_heap (event_handler_manager cm)) tdiEventContext (args @ [disconnectFlags])) (\<lambda>status.
       if connection = NULL then Inr (status, cm)
       else fbind (name_at TdiDisconnectFlagNames (uint disconnectFlags)) (\<lambda>_.
         fbind (deref (conn_heap cm) connection) (\<lambda>c.
           if disconnectFlags = TDI_DISCONNECT_RELEASE then
             (if state c = TCP_STATE_FIN_WAIT_1 then
                fbind (SetConnectionState (publish env) cm connection TCP_STATE_TIME_WAIT) (\<lambda>cm'. Inr (status, cm'))
              else if state c = TCP_STATE_ESTABLISHED then
                fbind (SetConnectionState (publish env) cm connection TCP_STATE_CLOSE_WAIT) (\<lambda>cm'. Inr (status, cm'))
              else Inr (status, cm))
           else if disconnectFlags = TDI_DISCONNECT_ABORT then
             fbind (SetConnectionState (publish env) cm connection TCP_STATE_CLOSED) (\<lambda>cm'. Inr (status, cm'))
           else Inr (status, cm))))))"

section \<open>The callbacks keep the pointer invariant\<close>

lemma TdiConnectEventHandlerComplete_ptr_ok:
  assumes "ptr_ok cm" "TdiConnectEventHandlerComplete env cm c status = Inr (st, cm')"
  shows "ptr_ok cm'"
  using assms(2) same_ptrs_ok[OF SetConnectionState_same assms(1)] assms(1)
  by (auto simp: TdiConnectEventHandlerComplete_def fbind_eq_Inr split: if_splits)

lemma TdiConnectEventHandler_ptr_ok:
  assumes "ptr_ok cm" "TdiConnectEventHandler env client cm ctx args ra a = Inr (st, cm', r)"
  shows "ptr_ok cm'"
proof -
  obtain fo where fo: "call_original client (eh_heap (event_handler_manager cm)) ctx args = Inr (st, fo) \<and> cm' = cm \<or>
      (\<exists>c cm1 cm2. query_local_address env cm c = Inr cm1 \<and> set_remote_address env cm1 c ra = Inr cm2 \<and>
         SetConnectionState (publish env) cm2 c TCP_STATE_SYN_RCVD = Inr cm')"
    using assms(2) by (auto simp: TdiConnectEventHandler_def fbind_eq_Inr split: if_splits)
  then show ?thesis using assms(1) same_steps(2-4) by (meson same_ptrs_ok)
qed

lemma TdiDisconnectEventHandler_ptr_ok:
  assumes "ptr_ok cm" "TdiDisconnectEventHandler env client cm ctx args flags = Inr (st, cm')"
  shows "ptr_ok cm'"
proof -
  have "cm' = cm \<or> (\<exists>c s. SetConnectionState (publish env) cm c s = Inr cm')"
    using assms(2) by (auto simp: TdiDisconnectEventHandler_def fbind_eq_Inr split: if_splits)
  then show ?thesis using assms(1) same_steps(4) by (meson same_ptrs_ok)
qed

end
