(* ===== verification/ConnectionMonitor.thy ===== *)
theory ConnectionMonitor
  imports TdiEventHandlers
begin

text \<open>
  NetworkMonitor/CaptureConnectionMonitor.c: the driver itself. Loading and unloading as the
  kernel objects they make and delete, the dispatch of an IRP with the way it leaves the
  driver, and the completion of the IRPs on which a completion routine was set.
\<close>

definition TdiIrpNames :: "string list" where
  "TdiIrpNames =
     ['''', ''TDI_ASSOCIATE_ADDRESS'', ''TDI_DISASSOCIATE_ADDRESS'', ''TDI_CONNECT'', ''TDI_LISTEN'',
      ''TDI_ACCEPT'', ''TDI_DISCONNECT'', ''TDI_SEND'', ''TDI_RECEIVE'', ''TDI_SEND_DATAGRAM'',
      ''TDI_RECEIVE_DATAGRAM'', ''TDI_SET_EVENT_HANDLER'', ''TDI_QUERY_INFORMATION'',
      ''TDI_SET_INFORMATION'', ''TDI_ACTION''] @
     replicate 24 '''' @
     [''TDI_DIRECT_SEND'', ''TDI_DIRECT_SEND_DATAGRAM'', ''TDI_DIRECT_ACCEPT'']"

definition tdi_irp_handlers :: "tdi_handler list" where
  "tdi_irp_handlers =
     [TdiDefaultHandler, TdiAssociateAddressHandler, TdiDisassociateAddressHandler, TdiConnectHandler,
      TdiListenHandler, TdiAcceptHandler, TdiDisconnectHandler, TdiSendHandler, TdiReceiveHandler,
      TdiSendDatagramHandler, TdiReceiveDatagramHandler, TdiSetEventHandler, TdiQueryInformationHandler,
      TdiSetInformationHandler, TdiActionHandler]"

text \<open>The size of the table in bytes, not the number of its entries: a pointer has four.\<close>

definition num_tdi_irp_handlers :: nat where
  "num_tdi_irp_handlers = 4 * length tdi_irp_handlers"

section \<open>Loading and unloading\<close>

text \<open>The kernel objects of the two devices.\<close>

record device_objects =
  dev_exists :: bool
  dev_attached :: bool
  dev_manager_ready :: bool
  dev_link :: bool

record driver_state =
  dispatch_set :: bool
  tcp :: device_objects
  udp :: device_objects

record setup_answers =
  create_status :: NTSTATUS
  attach_status :: NTSTATUS
  link_status :: NTSTATUS

definition no_device :: device_objects where
  "no_device = \<lparr>dev_exists = False, dev_attached = False, dev_manager_ready = False, dev_link = False\<rparr>"

text \<open>IoDeleteDevice removes the device object; what is attached or set up in it is not undone.\<close>

definition IoDeleteDevice :: "device_objects \<Rightarrow> device_objects" where
  "IoDeleteDevice d = d\<lparr>dev_exists := False\<rparr>"

definition DriverEntry :: "driver_state \<Rightarrow> setup_answers \<Rightarrow> setup_answers \<Rightarrow> NTSTATUS \<times> driver_state" where
  "DriverEntry s0 ta ua =
     (let s = s0\<lparr>dispatch_set := True\<rparr>
      in if \<not> NT_SUCCESS (create_status ta) then (create_status ta, s)
         else let t1 = (tcp s)\<lparr>dev_exists := True, dev_attached := NT_SUCCESS (attach_status ta), dev_manager_ready := True\<rparr>
              in if \<not> NT_SUCCESS (attach_status ta) then (attach_status ta, s\<lparr>tcp := IoDeleteDevice t1\<rparr>)
                 else if \<not> NT_SUCCESS (link_status ta) then (link_status ta, s\<lparr>tcp := IoDeleteDevice t1\<rparr>)
                 else let t2 = t1\<lparr>dev_link := True\<rparr>; s2 = s\<lparr>tcp := t2\<rparr>
                      in if \<not> NT_SUCCESS (create_status ua) then (create_status ua, s2)
                         else let u1 = (udp s)\<lparr>dev_exists := True, dev_attached := NT_SUCCESS (attach_status ua), dev_manager_ready := True\<rparr>;
                                  failed = s2\<lparr>udp := IoDeleteDevice u1, tcp := IoDeleteDevice (t2\<lparr>dev_link := False\<rparr>)\<rparr>
                              in if \<not> NT_SUCCESS (attach_status ua) then (attach_status ua, failed)
                                 else if \<not> NT_SUCCESS (link_status ua) then (link_status ua, failed)
                                 else (STATUS_SUCCESS, s2\<lparr>udp := u1\<lparr>dev_link := True\<rparr>\<rparr>))"

text \<open>
  The driver object's list of devices starts with the last one made; unloading looks at that
  one only. None: there is no device, and the code follows a null pointer.
\<close>

definition first_device :: "driver_state \<Rightarrow> u8 option" where
  "first_device s = (if dev_exists (udp s) then Some UDP_DEVICE
                     else if dev_exists (tcp s) then Some TCP_DEVICE else None)"

definition UnloadDriver :: "driver_state \<Rightarrow> fault + driver_state" where
  "UnloadDriver s =
     (case first_device s of None \<Rightarrow> Inl NullDeref
      | Some ty \<Rightarrow>
          if ty = TCP_DEVICE then
            Inr (s\<lparr>tcp := IoDeleteDevice ((tcp s)\<lparr>dev_attached := False, dev_manager_ready := False, dev_link := False\<rparr>)\<rparr>)
          else Inr (s\<lparr>udp := IoDeleteDevice ((udp s)\<lparr>dev_attached := False, dev_manager_ready := False, dev_link := False\<rparr>)\<rparr>))"

section \<open>Dispatching an IRP\<close>

abbreviation (input) IRP_MJ_CREATE :: u8 where "IRP_MJ_CREATE \<equiv> 0x00"
abbreviation (input) IRP_MJ_CLOSE :: u8 where "IRP_MJ_CLOSE \<equiv> 0x02"
abbreviation (input) IRP_MJ_DEVICE_CONTROL :: u8 where "IRP_MJ_DEVICE_CONTROL \<equiv> 0x0e"
abbreviation (input) IRP_MJ_INTERNAL_DEVICE_CONTROL :: u8 where "IRP_MJ_INTERNAL_DEVICE_CONTROL \<equiv> 0x0f"
abbreviation (input) IRP_MJ_CLEANUP :: u8 where "IRP_MJ_CLEANUP \<equiv> 0x12"
abbreviation (input) TDI_TRANSPORT_ADDRESS_FILE :: u32 where "TDI_TRANSPORT_ADDRESS_FILE \<equiv> 1"
abbreviation (input) TDI_CONNECTION_FILE :: u32 where "TDI_CONNECTION_FILE \<equiv> 2"

text \<open>CTL_CODE(0x22, 0x810, METHOD_NEITHER, FILE_READ_DATA | FILE_WRITE_DATA)\<close>

definition GET_SHARED_EVENT_LIST_IOCTL :: u32 where
  "GET_SHARED_EVENT_LIST_IOCTL = push_bit 16 0x22 OR push_bit 14 3 OR push_bit 2 0x810 OR 3"

record CompletionRoutineContext =
  completion_routine :: CompletionRoutine
  original_irp :: "tdi_irp option"

text \<open>The manager of the device and the completion contexts that are allocated.\<close>

record monitor =
  manager :: ConnectionManager
  contexts :: "addr \<rightharpoonup> CompletionRoutineContext"

text \<open>
  What the kernel answers to a dispatch: the TDI environment of the handlers, whether the
  call runs at PASSIVE_LEVEL, how TdiMapUserRequest rewrites the request, the answers for the
  shared list, the completion context and the new IRP.
\<close>

record dispatch_env =
  tdi :: tdi_env
  passive_level :: bool
  TdiMapUserRequest :: "tdi_irp \<Rightarrow> tdi_irp"
  list_answers :: ioctl_answers
  context_answer :: addr
  new_irp_granted :: bool

text \<open>How the IRP leaves: completed here, passed on as it is, passed on with a completion
  routine on it, or replaced by a new IRP that is passed on.\<close>

datatype irp_outcome =
    IrpCompleted NTSTATUS
  | IrpPassedOn
  | IrpWithCompletion addr
  | IrpReplaced addr

definition SetupNewIrpCompletionRoutineCallDriver ::
    "dispatch_env \<Rightarrow> monitor \<Rightarrow> tdi_irp \<Rightarrow> addr \<Rightarrow> fault + irp_outcome \<times> monitor" where
  "SetupNewIrpCompletionRoutineCallDriver env m irp context =
     (if \<not> new_irp_granted env then Inr (IrpPassedOn, m)
      else fbind (deref (contexts m) context) (\<lambda>c.
             Inr (IrpReplaced context, m\<lparr>contexts := (contexts m)(context \<mapsto> c\<lparr>original_irp := Some irp\<rparr>)\<rparr>)))"

definition SetupCompletionRoutineCallDriver ::
    "monitor \<Rightarrow> tdi_irp \<Rightarrow> addr \<Rightarrow> fault + irp_outcome \<times> monitor" where
  "SetupCompletionRoutineCallDriver m irp context = Inr (IrpWithCompletion context, m)"

text \<open>The second half: a completion routine is set when a handler asked for one and its
  context can be allocated.\<close>

definition pass_down :: "dispatch_env \<Rightarrow> monitor \<Rightarrow> tdi_irp \<Rightarrow> CompletionRoutine \<Rightarrow> fault + irp_outcome \<times> monitor" where
  "pass_down env m irp cr =
     (if callback cr \<noteq> None \<and> context_answer env \<noteq> NULL then
        let context = context_answer env;
            m1 = m\<lparr>contexts := (contexts m)(context \<mapsto> \<lparr>completion_routine = cr, original_irp = None\<rparr>)\<rparr>
        in if CurrentLocation irp \<le> 1 then SetupNewIrpCompletionRoutineCallDriver env m1 irp context
           else SetupCompletionRoutineCallDriver m1 irp context
      else Inr (IrpPassedOn, m))"

definition call_tdi_handler :: "nat \<Rightarrow> tdi_handler" where
  "call_tdi_handler i env cm irp cr =
     (if i < length tdi_irp_handlers then (tdi_irp_handlers ! i) env cm irp cr else Inl OutOfBounds)"

definition dispatch_major :: tdi_handler where
  "dispatch_major env cm irp cr =
     (if MajorFunction irp = IRP_MJ_CREATE then TdiCreateHandler env cm irp cr
      else if MajorFunction irp = IRP_MJ_CLOSE then TdiCloseHandler env cm irp cr
      else if MajorFunction irp = IRP_MJ_CLEANUP then TdiCleanupHandler env cm irp cr
      else if MajorFunction irp = IRP_MJ_INTERNAL_DEVICE_CONTROL then
        fbind (name_at TdiIrpNames (uint (MinorFunction irp))) (\<lambda>_.
          if unat (MinorFunction irp) < num_tdi_irp_handlers then
            if FileObject irp = NULL then Inl NullDeref
            else if FsContext2 irp = TDI_CONNECTION_FILE \<or> FsContext2 irp = TDI_TRANSPORT_ADDRESS_FILE then
              call_tdi_handler (unat (MinorFunction irp)) env cm irp cr
            else Inr (STATUS_SUCCESS, cm, irp, cr)
          else Inr (STATUS_SUCCESS, cm, irp, cr))
      else Inr (STATUS_SUCCESS, cm, irp, cr))"

definition HandleIrp :: "dispatch_env \<Rightarrow> monitor \<Rightarrow> tdi_irp \<Rightarrow> fault + irp_outcome \<times> tdi_irp \<times> monitor" where
  "HandleIrp env m irp0 =
     (let irp = (if MajorFunction irp0 = IRP_MJ_DEVICE_CONTROL \<and> passive_level env
                 then TdiMapUserRequest env irp0 else irp0);
          cr = \<lparr>callback = None, cr_context = NULL, control = 0\<rparr>
      in if MajorFunction irp0 = IRP_MJ_DEVICE_CONTROL \<and> IoControlCode irp = GET_SHARED_EVENT_LIST_IOCTL then
           (let (_, sel, _) = GetSharedEventListIoctlHandler (cm_event_list (manager m)) (list_request irp) (list_answers env)
            in Inr (IrpCompleted STATUS_SUCCESS, irp, m\<lparr>manager := (manager m)\<lparr>cm_event_list := sel\<rparr>\<rparr>))
         else fbind (dispatch_major (tdi env) (manager m) irp cr) (\<lambda>(_, cm, irp', cr').
              fbind (pass_down env (m\<lparr>manager := cm\<rparr>) irp' cr') (\<lambda>(out, m').
                Inr (out, irp', m'))))"

section \<open>Completion\<close>

abbreviation (input) STATUS_CONTINUE_COMPLETION :: NTSTATUS where "STATUS_CONTINUE_COMPLETION \<equiv> 0"

definition run_callback :: "publish_env \<Rightarrow> completion_callback \<Rightarrow> ConnectionManager \<Rightarrow> addr \<Rightarrow> NTSTATUS \<Rightarrow> fault + NTSTATUS \<times> ConnectionManager" where
  "run_callback env cb cm context status =
     (case cb of
        CC_TdiConnectHandlerComplete \<Rightarrow> TdiConnectHandlerComplete env cm context status
      | CC_TdiDisconnectHandlerComplete \<Rightarrow> Inr (TdiDisconnectHandlerComplete cm context status)
      | CC_TdiConnectEventHandlerComplete \<Rightarrow> TdiConnectEventHandlerComplete env cm context status)"

definition TdiCallCompletionRoutine ::
    "publish_env \<Rightarrow> CompletionRoutine \<Rightarrow> ConnectionManager \<Rightarrow> bool \<Rightarrow> NTSTATUS \<Rightarrow> fault + NTSTATUS \<times> ConnectionManager" where
  "TdiCallCompletionRoutine env cr cm cancel io_status =
     (let ctl = (if cancel then SL_INVOKE_ON_CANCEL
                 else if 0 \<le> sint io_status then SL_INVOKE_ON_SUCCESS else SL_INVOKE_ON_ERROR)
      in case callback cr of
           Some cb \<Rightarrow> if control cr AND ctl \<noteq> 0 then run_callback env cb cm (cr_context cr) io_status
                      else Inr (STATUS_CONTINUE_COMPLETION, cm)
         | None \<Rightarrow> Inr (STATUS_CONTINUE_COMPLETION, cm))"

text \<open>A completed IRP, as far as it is looked at.\<close>

record irp_completion =
  Cancel :: bool
  IoStatus :: NTSTATUS
  PendingReturned :: bool

text \<open>The original IRP is completed with the status and the pending flag of the new one; the
  context is freed. The result has the original IRP with the two.\<close>

definition TdiNewIrpCompletionHandler ::
    "publish_env \<Rightarrow> monitor \<Rightarrow> irp_completion \<Rightarrow> addr \<Rightarrow> fault + NTSTATUS \<times> (tdi_irp \<times> NTSTATUS \<times> bool) \<times> monitor" where
  "TdiNewIrpCompletionHandler env m done context =
     fbind (deref (contexts m) context) (\<lambda>c.
     fbind (TdiCallCompletionRoutine env (completion_routine c) (manager m) (Cancel done) (IoStatus done)) (\<lambda>(_, cm).
       case original_irp c of None \<Rightarrow> Inl NullDeref
       | Some irp \<Rightarrow>
           Inr (STATUS_MORE_PROCESSING_REQUIRED,
                (irp, IoStatus done, PendingReturned done),
                m\<lparr>manager := cm, contexts := (contexts m)(context := None)\<rparr>)))"

definition TdiCompletionHandler ::
    "publish_env \<Rightarrow> monitor \<Rightarrow> irp_completion \<Rightarrow> addr \<Rightarrow> fault + NTSTATUS \<times> monitor" where
  "TdiCompletionHandler env m done context =
     fbind (deref (contexts m) context) (\<lambda>c.
     fbind (TdiCallCompletionRoutine env (completion_routine c) (manager m) (Cancel done) (IoStatus done)) (\<lambda>(_, cm).
       Inr (STATUS_CONTINUE_COMPLETION, m\<lparr>manager := cm, contexts := (contexts m)(context := None)\<rparr>)))"

end
