(* ===== verification/MonitorSafety.thy ===== *)
theory MonitorSafety
  imports ConnectionMonitor
begin

text \<open>
  The connection monitor as a state machine: dispatches, completions and event callbacks in
  any order. The pointer invariant of its connections and the invariant of its hooks hold in
  every reachable state; and the life of a completion context, of a connection with a request
  in flight, and of the two devices.
\<close>

section \<open>The hooks change by event requests only\<close>

lemma conn_ehm:
  "upd_connection cm c f = Inr cm' \<Longrightarrow> event_handler_manager cm' = event_handler_manager cm"
  "set_node_connection cm p c = Inr cm' \<Longrightarrow> event_handler_manager cm' = event_handler_manager cm"
  "query_local_address env cm c = Inr cm' \<Longrightarrow> event_handler_manager cm' = event_handler_manager cm"
  "set_remote_address env cm c a = Inr cm' \<Longrightarrow> event_handler_manager cm' = event_handler_manager cm"
  "SetConnectionState penv cm c st = Inr cm' \<Longrightarrow> event_handler_manager cm' = event_handler_manager cm"
  "CreateConnection cm = (c, cm') \<Longrightarrow> event_handler_manager cm' = event_handler_manager cm"
  "RemoveConnection cm c = Inr cm' \<Longrightarrow> event_handler_manager cm' = event_handler_manager cm"
  by (auto simp: upd_connection_def set_node_connection_def query_local_address_def set_remote_address_def
      SetConnectionState_def CreateConnection_def RemoveConnection_def fbind_eq_Inr Let_def
      split: if_splits list.splits prod.splits)

lemma AddConnectionNode_ehm: "AddConnectionNode cm c node = Inr cm' \<Longrightarrow> event_handler_manager cm' = event_handler_manager cm"
  by (auto simp: AddConnectionNode_def fbind_eq_Inr Let_def split: if_splits prod.splits)

lemma RemoveConnectionNode_ehm: "RemoveConnectionNode cm node = Inr cm' \<Longrightarrow> event_handler_manager cm' = event_handler_manager cm"
  by (auto simp: RemoveConnectionNode_def fbind_eq_Inr dest: conn_ehm split: if_splits)

lemma ReleaseConnectionNode_ehm: "ReleaseConnectionNode cm c node = Inr cm' \<Longrightarrow> event_handler_manager cm' = event_handler_manager cm"
  by (auto simp: ReleaseConnectionNode_def fbind_eq_Inr dest!: conn_ehm split: if_splits)

lemmas nodes_ehm = AddConnectionNode_ehm RemoveConnectionNode_ehm ReleaseConnectionNode_ehm

lemma handlers_ehm:
  "TdiAssociateAddressHandler env cm irp cr = Inr (st, cm', irp', cr') \<Longrightarrow> event_handler_manager cm' = event_handler_manager cm"
  "TdiDisassociateAddressHandler env cm irp cr = Inr (st, cm', irp', cr') \<Longrightarrow> event_handler_manager cm' = event_handler_manager cm"
  "TdiCreateHandler env cm irp cr = Inr (st, cm', irp', cr') \<Longrightarrow> event_handler_manager cm' = event_handler_manager cm"
  "TdiCloseHandler env cm irp cr = Inr (st, cm', irp', cr') \<Longrightarrow> event_handler_manager cm' = event_handler_manager cm"
  "TdiDisconnectHandler env cm irp cr = Inr (st, cm', irp', cr') \<Longrightarrow> event_handler_manager cm' = event_handler_manager cm"
  "TdiSendHandler env cm irp cr = Inr (st, cm', irp', cr') \<Longrightarrow> event_handler_manager cm' = event_handler_manager cm"
  subgoal by (cases "CreateConnection cm")
      (auto simp: TdiAssociateAddressHandler_def fbind_eq_Inr Let_def dest!: conn_ehm split: if_splits)
  subgoal by (auto simp: TdiDisassociateAddressHandler_def fbind_eq_Inr dest!: conn_ehm nodes_ehm split: if_splits)
  subgoal by (auto simp: TdiCreateHandler_def fbind_eq_Inr Let_def dest!: nodes_ehm split: if_splits option.splits)
  subgoal by (auto simp: TdiCloseHandler_def fbind_eq_Inr dest!: nodes_ehm)
  subgoal by (auto simp: TdiDisconnectHandler_def fbind_eq_Inr dest!: conn_ehm split: if_splits)
  subgoal by (auto simp: TdiSendHandler_def fbind_eq_Inr dest!: conn_ehm split: if_splits)
  done

lemma udp_connection_ehm: "udp_connection env cm p node = Inr cm' \<Longrightarrow> event_handler_manager cm' = event_handler_manager cm"
  by (cases "CreateConnection cm") (auto simp: udp_connection_def fbind_eq_Inr dest!: conn_ehm)

lemma datagram_connection_ehm: "datagram_connection env cm p n = Inr (c, cm') \<Longrightarrow> event_handler_manager cm' = event_handler_manager cm"
  by (cases "CreateConnection cm") (auto simp: datagram_connection_def fbind_eq_Inr dest!: conn_ehm split: if_splits)

lemma listen_connection_ehm: "listen_connection env cm node = Inr cm' \<Longrightarrow> event_handler_manager cm' = event_handler_manager cm"
  by (cases "CreateConnection cm")
    (auto simp: listen_connection_def SetLocalConnectionNode_def SetRemoteConnectionNode_def fbind_eq_Inr
      dest!: conn_ehm nodes_ehm)

lemma TdiConnectHandler_ehm:
  "TdiConnectHandler env cm irp cr = Inr (st, cm', irp', cr') \<Longrightarrow> event_handler_manager cm' = event_handler_manager cm"
  by (auto simp: TdiConnectHandler_def fbind_eq_Inr Let_def dest!: conn_ehm udp_connection_ehm split: if_splits)

lemma TdiSendDatagramHandler_ehm:
  "TdiSendDatagramHandler env cm irp cr = Inr (st, cm', irp', cr') \<Longrightarrow> event_handler_manager cm' = event_handler_manager cm"
  by (auto simp: TdiSendDatagramHandler_def fbind_eq_Inr dest!: conn_ehm datagram_connection_ehm split: if_splits)

lemma TdiSetEventHandler_ehm_ok:
  assumes "ehm_ok (event_handler_manager cm)" "TdiSetEventHandler env cm irp cr = Inr (st, cm', irp', cr')"
  shows "ehm_ok (event_handler_manager cm')"
proof -
  let ?req = "set_event_request irp"
  have ty: "0 \<le> sint (EventType ?req)" "sint (EventType ?req) < 11"
    using assms(2) by (auto simp: TdiSetEventHandler_def Let_def fbind_eq_Inr name_at_def TdiEventHandlerNames_def split: if_splits)
  show ?thesis
  proof (cases "EventHandler_cb ?req = CB_NULL \<and> EventContext ?req = 0")
    case True
    then have "RemoveEventHandler (event_handler_manager cm) ?req (FileObject irp) = Inr (event_handler_manager cm')"
      using assms(2) by (auto simp: TdiSetEventHandler_def Let_def fbind_eq_Inr)
    with RemoveEventHandler_ok[OF assms(1) ty(1), of "FileObject irp"] show ?thesis by auto
  next
    case False
    obtain m' req' where s: "SetEventHandler (event_handler_manager cm) ?req (FileObject irp) = Inr (m', req')" "ehm_ok m'"
      using SetEventHandler_ok[OF assms(1) ty] by blast
    have "event_handler_manager cm' = m'"
      using assms(2) False s(1) by (auto simp: TdiSetEventHandler_def Let_def fbind_eq_Inr dest!: listen_connection_ehm split: if_splits)
    with s(2) show ?thesis by simp
  qed
qed

section \<open>The invariant of the monitor\<close>

definition mon_ok :: "ConnectionManager \<Rightarrow> bool" where
  "mon_ok cm \<longleftrightarrow> ptr_ok cm \<and> ehm_ok (event_handler_manager cm)"

lemma mon_ok_same_ehm: "ptr_ok cm' \<Longrightarrow> event_handler_manager cm' = event_handler_manager cm \<Longrightarrow> mon_ok cm \<Longrightarrow> mon_ok cm'"
  by (simp add: mon_ok_def)

text \<open>A handler of the dispatch table keeps it when a file object is given.\<close>

definition keeps_ok :: "tdi_handler \<Rightarrow> bool" where
  "keeps_ok h \<longleftrightarrow> (\<forall>env cm irp cr st cm' irp' cr'. mon_ok cm \<longrightarrow> FileObject irp \<noteq> NULL \<longrightarrow>
     h env cm irp cr = Inr (st, cm', irp', cr') \<longrightarrow> mon_ok cm')"

lemma keeps_okI:
  assumes "\<And>env cm irp cr st cm' irp' cr'. ptr_ok cm \<Longrightarrow> FileObject irp \<noteq> NULL \<Longrightarrow>
      h env cm irp cr = Inr (st, cm', irp', cr') \<Longrightarrow> ptr_ok cm' \<and> event_handler_manager cm' = event_handler_manager cm"
  shows "keeps_ok h"
  unfolding keeps_ok_def mon_ok_def using assms by auto

lemma TdiAssociateAddressHandler_ptr_ok:
  "ptr_ok cm \<Longrightarrow> TdiAssociateAddressHandler env cm irp cr = Inr (st, cm', irp', cr') \<Longrightarrow> ptr_ok cm'"
  by (drule TdiAssociateAddressHandler_ok[of cm env irp cr]) auto

lemma TdiDisassociateAddressHandler_ptr_ok:
  "ptr_ok cm \<Longrightarrow> FileObject irp \<noteq> NULL \<Longrightarrow> TdiDisassociateAddressHandler env cm irp cr = Inr (st, cm', irp', cr') \<Longrightarrow> ptr_ok cm'"
  by (drule (1) TdiDisassociateAddressHandler_ok[of cm irp env cr]) auto

lemma passing_handlers_keep_ok:
  "keeps_ok TdiDefaultHandler" "keeps_ok TdiListenHandler" "keeps_ok TdiAcceptHandler" "keeps_ok TdiReceiveHandler"
  "keeps_ok TdiReceiveDatagramHandler" "keeps_ok TdiQueryInformationHandler" "keeps_ok TdiSetInformationHandler"
  "keeps_ok TdiActionHandler" "keeps_ok TdiCleanupHandler"
  by (simp_all add: keeps_ok_def TdiDefaultHandler_def TdiListenHandler_def TdiAcceptHandler_def TdiReceiveHandler_def
      TdiReceiveDatagramHandler_def TdiQueryInformationHandler_def TdiSetInformationHandler_def TdiActionHandler_def
      TdiCleanupHandler_def)

lemma handlers_keep_ok:
  "keeps_ok TdiAssociateAddressHandler" "keeps_ok TdiDisassociateAddressHandler" "keeps_ok TdiConnectHandler"
  "keeps_ok TdiDisconnectHandler" "keeps_ok TdiSendHandler" "keeps_ok TdiSendDatagramHandler"
  subgoal by (rule keeps_okI, rule conjI[OF TdiAssociateAddressHandler_ptr_ok handlers_ehm(1)])
  subgoal by (rule keeps_okI, rule conjI[OF TdiDisassociateAddressHandler_ptr_ok handlers_ehm(2)])
  subgoal by (rule keeps_okI, rule conjI[OF TdiConnectHandler_ptr_ok TdiConnectHandler_ehm])
  subgoal by (rule keeps_okI, rule conjI[OF TdiDisconnectHandler_ptr_ok handlers_ehm(5)])
  subgoal by (rule keeps_okI, rule conjI[OF TdiSendHandler_ptr_ok handlers_ehm(6)])
  subgoal by (rule keeps_okI, rule conjI[OF TdiSendDatagramHandler_ptr_ok TdiSendDatagramHandler_ehm])
  done

lemma TdiSetEventHandler_keeps_ok: "keeps_ok TdiSetEventHandler"
  unfolding keeps_ok_def mon_ok_def using TdiSetEventHandler_ptr_ok TdiSetEventHandler_ehm_ok by blast

lemma create_close_ok:
  "mon_ok cm \<Longrightarrow> TdiCreateHandler env cm irp cr = Inr (st, cm', irp', cr') \<Longrightarrow> mon_ok cm'"
  "mon_ok cm \<Longrightarrow> TdiCloseHandler env cm irp cr = Inr (st, cm', irp', cr') \<Longrightarrow> mon_ok cm'"
  using TdiCreateHandler_ok[of cm env irp cr] TdiCloseHandler_ok[of cm env irp cr] handlers_ehm(3,4)[of env cm irp cr]
  by (auto simp: mon_ok_def)

lemma dispatch_table_keeps_ok: "\<forall>h \<in> set tdi_irp_handlers. keeps_ok h"
  using passing_handlers_keep_ok handlers_keep_ok TdiSetEventHandler_keeps_ok by (simp add: tdi_irp_handlers_def)

lemma dispatch_major_keeps_ok:
  assumes "mon_ok cm" "dispatch_major env cm irp cr = Inr (st, cm', irp', cr')"
  shows "mon_ok cm'"
proof -
  have table: "mon_ok cm'" if "FileObject irp \<noteq> NULL" "call_tdi_handler i env cm irp cr = Inr (st, cm', irp', cr')" for i
    using that assms(1) dispatch_table_keeps_ok unfolding call_tdi_handler_def keeps_ok_def
    by (cases "i < length tdi_irp_handlers") (simp, metis nth_mem, simp)
  show ?thesis
    using assms table create_close_ok[OF assms(1)]
    by (auto simp: dispatch_major_def TdiCleanupHandler_def fbind_eq_Inr split: if_splits)
qed

section \<open>The monitor as a transition system\<close>

lemma pass_down_manager: "pass_down env m irp cr = Inr (out, m') \<Longrightarrow> manager m' = manager m"
  by (auto simp: pass_down_def SetupNewIrpCompletionRoutineCallDriver_def SetupCompletionRoutineCallDriver_def
      Let_def fbind_eq_Inr split: if_splits)

lemma ptr_ok_event_list: "ptr_ok (cm\<lparr>cm_event_list := s\<rparr>) = ptr_ok cm"
  by (simp add: ptr_ok_def)

lemma mon_ok_event_list [simp]: "mon_ok (cm\<lparr>cm_event_list := s\<rparr>) = mon_ok cm"
  by (simp add: mon_ok_def ptr_ok_event_list)

lemma HandleIrp_cases:
  assumes "HandleIrp env m irp = Inr (out, irp', m')"
  obtains (shared_list) s where "manager m' = (manager m)\<lparr>cm_event_list := s\<rparr>"
  | (passed) st cm' irp0 cr0 cr where "dispatch_major (tdi env) (manager m) irp0 cr0 = Inr (st, cm', irp', cr)"
      "pass_down env (m\<lparr>manager := cm'\<rparr>) irp' cr = Inr (out, m')"
proof -
  define irp0 where "irp0 = (if MajorFunction irp = IRP_MJ_DEVICE_CONTROL \<and> passive_level env then TdiMapUserRequest env irp else irp)"
  define cr0 where "cr0 = \<lparr>callback = None, cr_context = NULL, control = 0\<rparr>"
  show ?thesis
  proof (cases "MajorFunction irp = IRP_MJ_DEVICE_CONTROL \<and> IoControlCode irp0 = GET_SHARED_EVENT_LIST_IOCTL")
    case True
    then show ?thesis using assms shared_list by (auto simp: HandleIrp_def Let_def irp0_def split: prod.splits)
  next
    case False
    then have "fbind (dispatch_major (tdi env) (manager m) irp0 cr0) (\<lambda>(_, cm, irp', cr').
              fbind (pass_down env (m\<lparr>manager := cm\<rparr>) irp' cr') (\<lambda>(out, m'). Inr (out, irp', m'))) = Inr (out, irp', m')"
      using assms unfolding HandleIrp_def Let_def irp0_def[symmetric] cr0_def[symmetric] by (simp only: if_False)
    then obtain st cm' cr where "dispatch_major (tdi env) (manager m) irp0 cr0 = Inr (st, cm', irp', cr)"
      "pass_down env (m\<lparr>manager := cm'\<rparr>) irp' cr = Inr (out, m')"
      by (auto simp: fbind_eq_Inr)
    then show ?thesis using passed by blast
  qed
qed

lemma HandleIrp_keeps_ok:
  assumes "mon_ok (manager m)" "HandleIrp env m irp = Inr (out, irp', m')"
  shows "mon_ok (manager m')"
  using assms(2)
proof (cases rule: HandleIrp_cases)
  case (passed st cm' irp0 cr0 cr)
  have "manager m' = cm'" using pass_down_manager[OF passed(2)] by simp
  then show ?thesis using dispatch_major_keeps_ok[OF assms(1) passed(1)] by simp
qed (use assms(1) in simp)

lemma complete_ehm:
  "TdiConnectHandlerComplete env cm c status = Inr (st, cm') \<Longrightarrow> event_handler_manager cm' = event_handler_manager cm"
  "TdiConnectEventHandlerComplete env cm c status = Inr (st, cm') \<Longrightarrow> event_handler_manager cm' = event_handler_manager cm"
  by (auto simp: TdiConnectHandlerComplete_def TdiConnectEventHandlerComplete_def fbind_eq_Inr dest!: conn_ehm split: if_splits)

lemma run_callback_keeps_ok:
  assumes "mon_ok cm" "run_callback env cb cm c status = Inr (st, cm')"
  shows "mon_ok cm'"
proof (cases cb)
  case CC_TdiConnectHandlerComplete
  then have "TdiConnectHandlerComplete env cm c status = Inr (st, cm')" using assms(2) by (simp add: run_callback_def)
  with assms(1) TdiConnectHandlerComplete_ptr_ok complete_ehm(1) show ?thesis by (simp add: mon_ok_def) metis
next
  case CC_TdiDisconnectHandlerComplete
  then show ?thesis using assms by (simp add: run_callback_def TdiDisconnectHandlerComplete_def)
next
  case CC_TdiConnectEventHandlerComplete
  then have "TdiConnectEventHandlerComplete env cm c status = Inr (st, cm')" using assms(2) by (simp add: run_callback_def)
  with assms(1) TdiConnectEventHandlerComplete_ptr_ok complete_ehm(2) show ?thesis by (simp add: mon_ok_def) metis
qed

lemma TdiCallCompletionRoutine_cases:
  "TdiCallCompletionRoutine env cr cm cancel status = Inr (st, cm') \<Longrightarrow>
     cm' = cm \<or> (\<exists>cb. run_callback env cb cm (cr_context cr) status = Inr (st, cm'))"
  unfolding TdiCallCompletionRoutine_def Let_def
  by (cases "callback cr") (simp_all, metis Pair_inject sum.inject(2))

lemma TdiCallCompletionRoutine_keeps_ok:
  assumes "mon_ok cm" "TdiCallCompletionRoutine env cr cm cancel status = Inr (st, cm')"
  shows "mon_ok cm'"
  using TdiCallCompletionRoutine_cases[OF assms(2)] run_callback_keeps_ok[OF assms(1)] assms(1) by blast

lemma TdiConnectEventHandler_ehm:
  "TdiConnectEventHandler env client cm ctx args ra a = Inr (st, cm', r) \<Longrightarrow> event_handler_manager cm' = event_handler_manager cm"
  by (auto simp: TdiConnectEventHandler_def fbind_eq_Inr dest!: conn_ehm split: if_splits)

lemma TdiDisconnectEventHandler_ehm:
  "TdiDisconnectEventHandler env client cm ctx args flags = Inr (st, cm') \<Longrightarrow> event_handler_manager cm' = event_handler_manager cm"
  by (auto simp: TdiDisconnectEventHandler_def fbind_eq_Inr dest!: conn_ehm split: if_splits)

text \<open>
  What the kernel can make the driver do: dispatch an IRP, complete one it set a completion
  routine on (in either way), call one of its two callbacks that look at connections. A step
  that faults is not a step; the theorems on faults are about the operations.
\<close>

inductive mon_step :: "monitor \<Rightarrow> monitor \<Rightarrow> bool" where
  dispatch: "HandleIrp env m irp = Inr (out, irp', m') \<Longrightarrow> mon_step m m'"
| completion: "TdiCompletionHandler penv m io ctx = Inr (st, m') \<Longrightarrow> mon_step m m'"
| new_irp_completion: "TdiNewIrpCompletionHandler penv m io ctx = Inr (st, original, m') \<Longrightarrow> mon_step m m'"
| connect_event: "TdiConnectEventHandler tenv client (manager m) ctx args remoteAddress a = Inr (st, cm', r) \<Longrightarrow>
    mon_step m (m\<lparr>manager := cm',
      contexts := (case r of None \<Rightarrow> contexts m
        | Some (p, cr) \<Rightarrow> (contexts m)(p \<mapsto> \<lparr>completion_routine = cr, original_irp = None\<rparr>))\<rparr>)"
| disconnect_event: "TdiDisconnectEventHandler tenv client' (manager m) ctx args flags = Inr (st, cm') \<Longrightarrow>
    mon_step m (m\<lparr>manager := cm'\<rparr>)"

inductive_cases mon_stepE: "mon_step m m'"

lemma mon_step_keeps_ok: "mon_step m m' \<Longrightarrow> mon_ok (manager m) \<Longrightarrow> mon_ok (manager m')"
proof (induction rule: mon_step.induct)
  case (dispatch env m irp out irp' m')
  then show ?case using HandleIrp_keeps_ok by blast
next
  case (completion penv m io ctx st m')
  then show ?case by (auto simp: TdiCompletionHandler_def fbind_eq_Inr dest: TdiCallCompletionRoutine_keeps_ok)
next
  case (new_irp_completion penv m io ctx st original m')
  then show ?case
    by (auto simp: TdiNewIrpCompletionHandler_def fbind_eq_Inr split: option.splits)
      (rule TdiCallCompletionRoutine_keeps_ok)
next
  case (connect_event tenv client m ctx args ra a st cm' r)
  then show ?case using TdiConnectEventHandler_ptr_ok TdiConnectEventHandler_ehm by (fastforce simp: mon_ok_def)
next
  case (disconnect_event tenv client' m ctx args flags st cm')
  then show ?case using TdiDisconnectEventHandler_ptr_ok TdiDisconnectEventHandler_ehm by (fastforce simp: mon_ok_def)
qed

lemma mon_steps_keep_ok: "mon_step\<^sup>*\<^sup>* m m' \<Longrightarrow> mon_ok (manager m) \<Longrightarrow> mon_ok (manager m')"
  by (induction rule: rtranclp_induct) (auto dest: mon_step_keeps_ok)

section \<open>How a dispatch leaves the driver\<close>

definition no_routine :: CompletionRoutine where
  "no_routine = \<lparr>callback = None, cr_context = NULL, control = 0\<rparr>"

text \<open>One entry of the dispatch table run on an IRP, and the IRP passed down.\<close>

definition run_entry :: "dispatch_env \<Rightarrow> monitor \<Rightarrow> tdi_irp \<Rightarrow> tdi_handler \<Rightarrow> fault + irp_outcome \<times> tdi_irp \<times> monitor" where
  "run_entry env m irp h =
     fbind (h (tdi env) (manager m) irp no_routine) (\<lambda>(_, cm, irp', cr').
       fbind (pass_down env (m\<lparr>manager := cm\<rparr>) irp' cr') (\<lambda>(out, m'). Inr (out, irp', m')))"

definition connection_or_address :: "tdi_irp \<Rightarrow> bool" where
  "connection_or_address irp \<longleftrightarrow> FsContext2 irp = TDI_CONNECTION_FILE \<or> FsContext2 irp = TDI_TRANSPORT_ADDRESS_FILE"

lemma pass_down_none [simp]: "pass_down env m irp no_routine = Inr (IrpPassedOn, m)"
  by (simp add: pass_down_def no_routine_def)

lemma HandleIrp_run:
  assumes "MajorFunction irp \<noteq> IRP_MJ_DEVICE_CONTROL"
  shows "HandleIrp env m irp = run_entry env m irp dispatch_major"
  using assms by (simp add: HandleIrp_def run_entry_def no_routine_def)

lemma run_entry_pass: "h (tdi env) (manager m) irp no_routine = Inr (st, manager m, irp, no_routine) \<Longrightarrow>
    run_entry env m irp h = Inr (IrpPassedOn, irp, m)"
  by (simp add: run_entry_def)

lemma run_entry_fault: "h (tdi env) (manager m) irp no_routine = Inl e \<Longrightarrow> run_entry env m irp h = Inl e"
  by (simp add: run_entry_def)

lemma run_entry_cong: "h (tdi env) (manager m) irp no_routine = h' (tdi env) (manager m) irp no_routine \<Longrightarrow>
    run_entry env m irp h = run_entry env m irp h'"
  by (simp add: run_entry_def)

lemma table_length: "length tdi_irp_handlers = 15" "num_tdi_irp_handlers = 60" "length TdiIrpNames = 42"
  by (simp_all add: tdi_irp_handlers_def num_tdi_irp_handlers_def TdiIrpNames_def)

lemma dispatch_internal:
  assumes "MajorFunction irp = IRP_MJ_INTERNAL_DEVICE_CONTROL" "FileObject irp \<noteq> NULL"
  shows "dispatch_major env cm irp cr =
     (if unat (MinorFunction irp) < 42 then
        if connection_or_address irp then call_tdi_handler (unat (MinorFunction irp)) env cm irp cr
        else Inr (STATUS_SUCCESS, cm, irp, cr)
      else Inl OutOfBounds)"
proof -
  have "int (unat (MinorFunction irp)) = uint (MinorFunction irp)" by (rule uint_nat[symmetric])
  then have "uint (MinorFunction irp) < 42 \<longleftrightarrow> unat (MinorFunction irp) < 42" by linarith
  then show ?thesis using assms
    by (simp add: dispatch_major_def name_at_def table_length connection_or_address_def)
qed

lemma HandleIrp_internal:
  assumes "MajorFunction irp = IRP_MJ_INTERNAL_DEVICE_CONTROL" "FileObject irp \<noteq> NULL"
  shows "HandleIrp env m irp =
     (if connection_or_address irp then
        if unat (MinorFunction irp) < 15 then run_entry env m irp (tdi_irp_handlers ! unat (MinorFunction irp))
        else Inl OutOfBounds
      else if unat (MinorFunction irp) < 42 then Inr (IrpPassedOn, irp, m) else Inl OutOfBounds)"
proof -
  have run: "HandleIrp env m irp = run_entry env m irp dispatch_major" using assms(1) by (intro HandleIrp_run) simp
  note d = dispatch_internal[OF assms]
  consider "connection_or_address irp" "unat (MinorFunction irp) < 15" | "connection_or_address irp" "\<not> unat (MinorFunction irp) < 15"
    | "\<not> connection_or_address irp" "unat (MinorFunction irp) < 42" | "\<not> connection_or_address irp" "\<not> unat (MinorFunction irp) < 42" by blast
  then show ?thesis
  proof cases
    case 1
    then show ?thesis using run d run_entry_cong[of dispatch_major env m irp "tdi_irp_handlers ! unat (MinorFunction irp)"]
      by (simp add: call_tdi_handler_def table_length)
  next
    case 2
    then have "dispatch_major (tdi env) (manager m) irp no_routine = Inl OutOfBounds"
      using d by (simp add: call_tdi_handler_def table_length)
    with 2 show ?thesis using run run_entry_fault by simp
  next
    case 3
    then show ?thesis using run d run_entry_pass by simp
  next
    case 4
    then show ?thesis using run d run_entry_fault[of dispatch_major env m irp OutOfBounds] by simp
  qed
qed

lemma tdi_entry:
  "tdi_irp_handlers ! 1 = TdiAssociateAddressHandler" "tdi_irp_handlers ! 2 = TdiDisassociateAddressHandler"
  "tdi_irp_handlers ! 3 = TdiConnectHandler" "tdi_irp_handlers ! 6 = TdiDisconnectHandler"
  "tdi_irp_handlers ! 7 = TdiSendHandler" "tdi_irp_handlers ! 9 = TdiSendDatagramHandler"
  "tdi_irp_handlers ! 11 = TdiSetEventHandler"
  by (simp_all add: tdi_irp_handlers_def)

section \<open>Completion contexts\<close>

definition full_control :: u8 where
  "full_control = SL_INVOKE_ON_SUCCESS OR SL_INVOKE_ON_ERROR OR SL_INVOKE_ON_CANCEL"

lemma full_control_calls: "full_control AND SL_INVOKE_ON_CANCEL \<noteq> 0" "full_control AND SL_INVOKE_ON_SUCCESS \<noteq> 0"
    "full_control AND SL_INVOKE_ON_ERROR \<noteq> 0"
  by (simp_all add: full_control_def)

lemma TdiCallCompletionRoutine_full:
  assumes "callback cr = Some cb" "control cr = full_control"
  shows "TdiCallCompletionRoutine env cr cm cancel status = run_callback env cb cm (cr_context cr) status"
  using assms full_control_calls by (simp add: TdiCallCompletionRoutine_def Let_def)

lemma SetConnectionState_state:
  assumes "SetConnectionState env cm c st = Inr cm'" "c \<noteq> NULL"
  shows "\<exists>x. conn_heap cm c = Some x \<and> conn_heap cm' = (conn_heap cm)(c \<mapsto> x\<lparr>state := st\<rparr>) \<and> device_type cm' = device_type cm"
  using assms by (auto simp: SetConnectionState_def Let_def fbind_eq_Inr deref_Inr)

lemma addresses_type:
  "set_remote_address env cm c a = Inr cm' \<Longrightarrow> device_type cm' = device_type cm"
  "query_local_address env cm c = Inr cm' \<Longrightarrow> device_type cm' = device_type cm"
  by (auto simp: set_remote_address_def query_local_address_def fbind_eq_Inr)

lemma TdiConnectHandler_Inr:
  assumes "TdiConnectHandler env cm irp no_routine = Inr (st, cm', irp', cr')" "device_type cm = TCP_DEVICE"
    and "GetConnection cm (FileObject irp) = Inr c"
  shows "irp' = irp \<and> (cr' = no_routine \<or> c \<noteq> NULL \<and> cr' = \<lparr>callback = Some CC_TdiConnectHandlerComplete, cr_context = c, control = full_control\<rparr> \<and>
     (\<exists>x. conn_heap cm' c = Some x \<and> state x = TCP_STATE_SYN_SENT) \<and> device_type cm' = TCP_DEVICE)"
proof -
  have tcp: "device_type cm \<noteq> UDP_DEVICE" using assms(2) by (simp add: TCP_DEVICE_def UDP_DEVICE_def)
  obtain p where p: "find_node cm (FileObject irp) = Inr p" using assms(3) by (auto simp: GetConnection_def fbind_eq_Inr)
  show ?thesis
  proof (cases "p = NULL")
    case True
    with assms(1) p show ?thesis by (simp add: TdiConnectHandler_def)
  next
    case False
    then obtain n where n: "deref (cnode_heap cm) p = Inr n" "cn_connection n = c"
      using assms(3) p by (auto simp: GetConnection_def fbind_eq_Inr)
    show ?thesis
    proof (cases "c = NULL")
      case True
      with assms(1) p False n tcp show ?thesis by (simp add: TdiConnectHandler_def)
    next
      case c: False
      with assms(1) p False n tcp obtain cm2 cm3 where 2: "(if AddressType (RemoteAddress irp) = TDI_ADDRESS_TYPE_IP
             then set_remote_address env cm c (RemoteAddress irp) else Inr cm) = Inr cm2"
        and 3: "query_local_address env cm2 c = Inr cm3"
        and 4: "SetConnectionState (publish env) cm3 c TCP_STATE_SYN_SENT = Inr cm'"
        and r: "irp' = irp" "cr' = \<lparr>callback = Some CC_TdiConnectHandlerComplete, cr_context = c, control = full_control\<rparr>"
        by (auto simp: TdiConnectHandler_def fbind_eq_Inr Let_def full_control_def split: if_splits)
      obtain x where x: "conn_heap cm' = (conn_heap cm3)(c \<mapsto> x\<lparr>state := TCP_STATE_SYN_SENT\<rparr>)" "device_type cm' = device_type cm3"
        using SetConnectionState_state[OF 4 c] by blast
      have "device_type cm2 = device_type cm" using 2 addresses_type(1) by (auto split: if_splits)
      then have "device_type cm' = TCP_DEVICE" using x(2) addresses_type(2)[OF 3] assms(2) by simp
      with x r c show ?thesis by simp
    qed
  qed
qed

lemma pass_down_call:
  assumes "pass_down env m irp \<lparr>callback = Some cb, cr_context = c, control = ctl\<rparr> = Inr (out, m')" "out \<noteq> IrpPassedOn"
  shows "manager m' = manager m \<and> context_answer env \<noteq> NULL \<and>
     (out = IrpWithCompletion (context_answer env) \<and>
        contexts m' = (contexts m)(context_answer env \<mapsto> \<lparr>completion_routine = \<lparr>callback = Some cb, cr_context = c, control = ctl\<rparr>, original_irp = None\<rparr>) \<or>
      out = IrpReplaced (context_answer env) \<and>
        contexts m' = (contexts m)(context_answer env \<mapsto> \<lparr>completion_routine = \<lparr>callback = Some cb, cr_context = c, control = ctl\<rparr>, original_irp = Some irp\<rparr>))"
  using assms by (auto simp: pass_down_def Let_def SetupCompletionRoutineCallDriver_def SetupNewIrpCompletionRoutineCallDriver_def
      fbind_eq_Inr deref_Inr split: if_splits)

lemma connect_complete_state:
  assumes "TdiConnectHandlerComplete env cm c status = Inr (st, cm')" "c \<noteq> NULL" "device_type cm = TCP_DEVICE"
    and "conn_heap cm c = Some x"
  shows "conn_heap cm' = (if status = STATUS_SUCCESS then (conn_heap cm)(c \<mapsto> x\<lparr>state := TCP_STATE_ESTABLISHED\<rparr>) else conn_heap cm)"
proof (cases "status = STATUS_SUCCESS")
  case True
  then have "SetConnectionState env cm c TCP_STATE_ESTABLISHED = Inr cm'"
    using assms(1,3) by (auto simp: TdiConnectHandlerComplete_def fbind_eq_Inr)
  from SetConnectionState_state[OF this assms(2)] True assms(4) show ?thesis by auto
qed (use assms(1) in \<open>simp add: TdiConnectHandlerComplete_def\<close>)

lemma GetConnection_unique:
  assumes "ptr_ok cm" "GetConnection cm node = Inr c" "GetConnection cm node' = Inr c" "c \<noteq> NULL"
  shows "node' = node"
proof -
  have P: "\<exists>p n. cnode_heap cm p = Some n \<and> cn_node n = k \<and> cn_connection n = c" if g: "GetConnection cm k = Inr c" for k
  proof -
    obtain p where p: "find_node cm k = Inr p" "p \<noteq> NULL \<longrightarrow> (\<exists>n. cnode_heap cm p = Some n \<and> cn_node n = k)"
      using find_node_ok[OF assms(1), of k] by blast
    have "p \<noteq> NULL" using g p(1) assms(4) by (auto simp: GetConnection_def)
    with p obtain n where n: "cnode_heap cm p = Some n" "cn_node n = k" by blast
    have "cn_connection n = c" using g p(1) n \<open>p \<noteq> NULL\<close> by (simp add: GetConnection_def)
    with n show ?thesis by blast
  qed
  obtain p n where p: "cnode_heap cm p = Some n" "cn_node n = node" "cn_connection n = c" using P[OF assms(2)] by blast
  obtain q k where q: "cnode_heap cm q = Some k" "cn_node k = node'" "cn_connection k = c" using P[OF assms(3)] by blast
  have "p = q" using ptr_okD(5)[OF assms(1) p(1) q(1)] p(3) q(3) assms(4) by simp
  with p(1,2) q(1,2) show ?thesis by simp
qed

lemma conn_type:
  "upd_connection cm c f = Inr cm' \<Longrightarrow> device_type cm' = device_type cm"
  "set_node_connection cm p c = Inr cm' \<Longrightarrow> device_type cm' = device_type cm"
  by (auto simp: upd_connection_def set_node_connection_def fbind_eq_Inr)

lemma release_type:
  "ReleaseConnectionNode cm c node = Inr cm' \<Longrightarrow> device_type cm' = device_type cm"
  "RemoveConnection cm c = Inr cm' \<Longrightarrow> device_type cm' = device_type cm"
  by (auto simp: ReleaseConnectionNode_def RemoveConnection_def fbind_eq_Inr dest!: conn_type split: if_splits)

lemma TdiDisassociateAddressHandler_type:
  assumes "TdiDisassociateAddressHandler env cm irp cr = Inr (st, cm', irp', cr')"
  shows "device_type cm' = device_type cm"
  using assms by (auto simp: TdiDisassociateAddressHandler_def fbind_eq_Inr dest!: release_type split: if_splits)

lemma HandleIrp_close:
  assumes "mon_ok (manager m)" "MajorFunction irp = IRP_MJ_CLOSE"
  shows "\<exists>m'. HandleIrp env m irp = Inr (IrpPassedOn, irp, m')"
proof -
  obtain cm' where "TdiCloseHandler (tdi env) (manager m) irp no_routine = Inr (STATUS_SUCCESS, cm', irp, no_routine)"
    using TdiCloseHandler_ok[of "manager m"] assms(1) unfolding mon_ok_def by blast
  then show ?thesis using assms(2) by (simp add: HandleIrp_run run_entry_def dispatch_major_def)
qed

section \<open>Properties\<close>

definition mon_demo :: monitor where
  "mon_demo = \<lparr>manager = cm_demo, contexts = Map.empty\<rparr>"

lemma cm_demo_ok: "mon_ok cm_demo"
  by (simp add: mon_ok_def cm_demo_def ehm_demo_ok ptr_ok_def hm_demo_ok hms.single_valued_def hm_demo_vals
      answers_fresh_def)

definition irp_demo :: tdi_irp where
  "irp_demo = \<lparr>MajorFunction = IRP_MJ_INTERNAL_DEVICE_CONTROL, MinorFunction = 3, FileObject = 0x30, FsContext2 = 2,
     IoControlCode = 0, CurrentLocation = 2, SystemBuffer = None, AddressHandle = 0x5C,
     RemoteAddress = [14, 0, 2, 0, 0, 80, 192, 168, 1, 7] @ replicate 22 0, RequestFlags = 0,
     set_event_request = receive_request, list_request = \<lparr>UserBuffer = 0, Type3InputBuffer = 0, InputBufferLength = 0, OutputBufferLength = 0\<rparr>\<rparr>"

definition tdi_demo :: tdi_env where
  "tdi_demo = \<lparr>sizes = \<lparr>sizeof_TA_ADDRESS = 8, TDI_ADDRESS_INFO_MAX = 64\<rparr>, publish = publish_demo, requestor_pid = 77,
     handle_status = STATUS_SUCCESS, handle_object = 0x40,
     query = \<lparr>q_context = False, q_irp = False, q_mdl = False, q_low_irql = True, q_pending = False, q_status = 0, q_info = []\<rparr>\<rparr>"

definition dispatch_demo :: dispatch_env where
  "dispatch_demo = \<lparr>tdi = tdi_demo, passive_level = True, TdiMapUserRequest = (\<lambda>irp. irp),
     list_answers = \<lparr>current_process = 4, user_mapping = None, probes_ok = True, semaphore_object = 0\<rparr>,
     context_answer = 0xB00, new_irp_granted = True\<rparr>"

definition connected_demo :: monitor where
  "connected_demo = \<lparr>manager = cm_demo\<lparr>connections := snd (the (InsertHashMap hm_demo 0x30 0xA00)),
        cnode_heap := [0xA00 \<mapsto> \<lparr>cn_node = 0x30, cn_connection = 0x900\<rparr>], connection_nodes_pool := []\<rparr>,
     contexts = [0xB00 \<mapsto> \<lparr>completion_routine =
        \<lparr>callback = Some CC_TdiConnectHandlerComplete, cr_context = 0x900, control = full_control\<rparr>, original_irp = None\<rparr>]\<rparr>"

lemma connected_demo_vals:
  "hm_ok (connections (manager connected_demo)) \<and>
   (\<forall>k. hm_vals (connections (manager connected_demo)) k = (if k = 0x30 then [0xA00] else []))"
proof -
  have ins: "InsertHashMap hm_demo 0x30 0xA00 = Some (True, snd (the (InsertHashMap hm_demo 0x30 0xA00)))"
    by (simp add: hm_demo_def InsertHashMap_def ensure_entry_def link_pair_def hash_of_def HASH_MAP_SIZE_def)
  note iv = hms.insertE[OF hm_demo_ok ins]
  show ?thesis using iv by (auto simp: connected_demo_def hm_demo_vals)
qed

lemma connected_demo_ok: "mon_ok (manager connected_demo)"
proof -
  have "ptr_ok (manager connected_demo)"
  proof (rule ptr_okI)
    show "hms.single_valued (connections (manager connected_demo))"
      using connected_demo_vals by (simp add: hms.single_valued_def)
  next
    fix v k assume "v \<in> set (hm_vals (connections (manager connected_demo)) k)"
    then show "v \<noteq> NULL \<and> (\<exists>n. cnode_heap (manager connected_demo) v = Some n \<and> cn_node n = k)"
      using connected_demo_vals by (auto simp: connected_demo_def split: if_splits)
  qed (use connected_demo_vals in \<open>auto simp: connected_demo_def cm_demo_def split: if_splits\<close>)
  then show ?thesis by (simp add: mon_ok_def connected_demo_def cm_demo_def ehm_demo_ok)
qed

lemma connected_demo_connection: "GetConnection (manager connected_demo) 0x30 = Inr 0x900"
proof -
  have ok: "ptr_ok (manager connected_demo)" using connected_demo_ok by (simp add: mon_ok_def)
  have "find_node (manager connected_demo) 0x30 = Inr 0xA00"
    using find_node_ok[OF ok, of "0x30"] connected_demo_vals by auto
  then show ?thesis by (simp add: GetConnection_def connected_demo_def)
qed

text \<open>A connect request that leaves with the completion routine on it.\<close>

lemma conn_demo_remote: "SetRemoteNodeAddress (sizes tdi_demo) conn_demo (RemoteAddress irp_demo) = Inr conn_demo"
  by (simp add: SetRemoteNodeAddress_def SetNodeAddress_def tdi_demo_def irp_demo_def conn_demo_def AddressLength_def le16_def
      flip: replicate_add)

lemma publish_demo_ok: "\<exists>s'. publish_state publish_demo sel_demo (conn_demo\<lparr>state := st\<rparr>) = Inr s'"
proof -
  have el: "el_ok sel_demo" "read_events sel_demo = Some []"
    using sel_demo_rep read_events_rep[OF sel_demo_rep] by (auto simp: el_ok_def)
  have ip: "ip_address (local_node_address (conn_demo\<lparr>state := st\<rparr>))" "ip_address (remote_node_address (conn_demo\<lparr>state := st\<rparr>))"
    by (simp_all add: ip_address_def conn_demo_def AddressType_def le16_def)
  have nn: "fst (CreateEvent next_fit sel_demo) \<noteq> NULL" using sel_demo_create by simp
  have "find_bits_ok (search_bits publish_demo)" "length (stack_bytes publish_demo) = 128"
    by (simp_all add: publish_demo_def next_fit_ok)
  from publish_state_ok[OF this(1) el this(2) ip] nn show ?thesis by (auto simp: publish_demo_def)
qed

lemma connect_demo:
  "\<exists>m'. HandleIrp dispatch_demo connected_demo irp_demo = Inr (IrpWithCompletion 0xB00, irp_demo, m')"
proof -
  let ?cm = "manager connected_demo"
  have ok: "ptr_ok ?cm" using connected_demo_ok by (simp add: mon_ok_def)
  have p: "find_node ?cm 0x30 = Inr 0xA00" using find_node_ok[OF ok, of "0x30"] connected_demo_vals by auto
  have d: "deref (conn_heap ?cm) 0x900 = Inr conn_demo" "deref (cnode_heap ?cm) 0xA00 = Inr \<lparr>cn_node = 0x30, cn_connection = 0x900\<rparr>"
    "device_type ?cm = TCP_DEVICE" "cm_event_list ?cm = sel_demo" "(conn_heap ?cm)(0x900 \<mapsto> conn_demo) = conn_heap ?cm"
    by (simp_all add: connected_demo_def cm_demo_def)
  have i: "FileObject irp_demo = 0x30" "length (RemoteAddress irp_demo) = 32" "AddressType (RemoteAddress irp_demo) = 2"
    "CurrentLocation irp_demo = 2"
    by (simp_all add: irp_demo_def AddressType_def le16_def)
  have r: "set_remote_address tdi_demo ?cm 0x900 (RemoteAddress irp_demo) = Inr ?cm"
    using d(5) by (simp add: set_remote_address_def d(1) conn_demo_remote)
  have q: "query_local_address tdi_demo ?cm 0x900 = Inr ?cm"
    using d(5) by (simp add: query_local_address_def d(1) GetLocalAddress_def) (simp add: tdi_demo_def)
  obtain s' where s': "publish_state publish_demo sel_demo (conn_demo\<lparr>state := TCP_STATE_SYN_SENT\<rparr>) = Inr s'"
    using publish_demo_ok by blast
  obtain cm' where st: "SetConnectionState publish_demo ?cm 0x900 TCP_STATE_SYN_SENT = Inr cm'"
    using s' by (simp add: SetConnectionState_def Let_def d(1,4))
  have "publish tdi_demo = publish_demo" by (simp add: tdi_demo_def)
  then have h: "TdiConnectHandler tdi_demo ?cm irp_demo no_routine = Inr (STATUS_SUCCESS, cm', irp_demo,
      \<lparr>callback = Some CC_TdiConnectHandlerComplete, cr_context = 0x900, control = full_control\<rparr>)"
    using st by (simp add: TdiConnectHandler_def i p d r q TCP_DEVICE_def UDP_DEVICE_def full_control_def Let_def)
  have "tdi dispatch_demo = tdi_demo" "context_answer dispatch_demo = 0xB00" by (simp_all add: dispatch_demo_def)
  then have "\<exists>m'. run_entry dispatch_demo connected_demo irp_demo TdiConnectHandler = Inr (IrpWithCompletion 0xB00, irp_demo, m')"
    using h i(4) by (simp add: run_entry_def pass_down_def SetupCompletionRoutineCallDriver_def Let_def)
  moreover have "HandleIrp dispatch_demo connected_demo irp_demo = run_entry dispatch_demo connected_demo irp_demo TdiConnectHandler"
    using HandleIrp_internal[of irp_demo dispatch_demo connected_demo] tdi_entry(3)
    by (simp add: irp_demo_def connection_or_address_def)
  ultimately show ?thesis by simp
qed

text \<open>
  C1: Whatever sequence of dispatches, completions and event callbacks the kernel drives
  the driver through, every node keeps leading to no connection or to one that is still
  allocated, and no two nodes to the same one; the table of hooks stays well formed as well.
\<close>

theorem monitor_reachable_safe:
  assumes "mon_ok (manager m)" "mon_step\<^sup>*\<^sup>* m m'"
  shows "ehm_ok (event_handler_manager (manager m')) \<and>
     (\<exists>c. GetConnection (manager m') node = Inr c \<and>
        (c \<noteq> NULL \<longrightarrow> c \<in> dom (conn_heap (manager m')) \<and>
           (\<forall>node'. GetConnection (manager m') node' = Inr c \<longrightarrow> node' = node)))"
proof -
  have "mon_ok (manager m')" by (rule mon_steps_keep_ok[OF assms(2,1)])
  then have ok: "ptr_ok (manager m')" "ehm_ok (event_handler_manager (manager m'))" by (simp_all add: mon_ok_def)
  show ?thesis using GetConnection_ok[OF ok(1), of node] GetConnection_unique[OF ok(1)] ok(2) by blast
qed

theorem monitor_reachable_safe_witness:
  "\<exists>m'. mon_step mon_demo m' \<and> ehm_ok (event_handler_manager (manager m')) \<and> (\<exists>c. GetConnection (manager m') 0x30 = Inr c)"
proof -
  obtain m' out irp' where m': "HandleIrp dispatch_demo mon_demo (irp_demo\<lparr>MajorFunction := IRP_MJ_CLOSE\<rparr>) = Inr (out, irp', m')"
    using HandleIrp_close[of mon_demo "irp_demo\<lparr>MajorFunction := IRP_MJ_CLOSE\<rparr>" dispatch_demo] cm_demo_ok
    by (auto simp: mon_demo_def)
  then have step: "mon_step mon_demo m'" by (rule mon_step.dispatch)
  have "mon_ok (manager mon_demo)" using cm_demo_ok by (simp add: mon_demo_def)
  from monitor_reachable_safe[OF this r_into_rtranclp[of mon_step, OF step], of "0x30"] step show ?thesis by blast
qed

text \<open>
  C3: An internal device control request for a connection or an address object runs the
  entry of the dispatch table that its minor function selects, for the fifteen entries the
  table has; any other minor function, the direct sends of the names table included, makes
  the driver read outside the table, because the bound it is checked against is the size of
  the table in bytes. A request for another object passes unchanged when its minor function
  has a name, and faults otherwise.
\<close>

theorem HandleIrp_dispatch_table:
  assumes "MajorFunction irp = IRP_MJ_INTERNAL_DEVICE_CONTROL" "FileObject irp \<noteq> NULL"
  shows "HandleIrp env m irp =
     (if connection_or_address irp then
        if unat (MinorFunction irp) < 15 then run_entry env m irp (tdi_irp_handlers ! unat (MinorFunction irp))
        else Inl OutOfBounds
      else if unat (MinorFunction irp) < 42 then Inr (IrpPassedOn, irp, m) else Inl OutOfBounds)"
  by (rule HandleIrp_internal[OF assms])

theorem HandleIrp_dispatch_table_witness:
  "TdiIrpNames ! 39 = ''TDI_DIRECT_SEND'' \<and>
   HandleIrp dispatch_demo mon_demo (irp_demo\<lparr>MinorFunction := 39\<rparr>) = Inl OutOfBounds"
  using HandleIrp_dispatch_table[of "irp_demo\<lparr>MinorFunction := 39\<rparr>" dispatch_demo mon_demo]
  by (simp add: irp_demo_def connection_or_address_def TdiIrpNames_def nth_append)

text \<open>
  C2: A connection is freed when its disassociation is requested, while the completion of a
  connect request that is still under way keeps its address: if the node of a connection is
  disassociated, the request succeeds and passes on, and the successful completion of the
  pending connect then follows a dangling pointer.
\<close>

theorem connect_completion_after_disassociate:
  assumes "mon_ok (manager m)" "device_type (manager m) = TCP_DEVICE \<or> device_type (manager m) = UDP_DEVICE"
    and "MajorFunction irp = IRP_MJ_INTERNAL_DEVICE_CONTROL" "MinorFunction irp = 2" "connection_or_address irp" "FileObject irp \<noteq> NULL"
    and "GetConnection (manager m) (FileObject irp) = Inr c" "c \<noteq> NULL"
    and "context \<noteq> NULL" "contexts m context = Some \<lparr>completion_routine =
           \<lparr>callback = Some CC_TdiConnectHandlerComplete, cr_context = c, control = full_control\<rparr>, original_irp = None\<rparr>"
    and "IoStatus io = STATUS_SUCCESS"
  shows "\<exists>m'. HandleIrp env m irp = Inr (IrpPassedOn, irp, m') \<and> TdiCompletionHandler penv m' io context = Inl BadPointer"
proof -
  have ok: "ptr_ok (manager m)" using assms(1) by (simp add: mon_ok_def)
  from TdiDisassociateAddressHandler_ok[OF ok assms(6), of "tdi env" no_routine]
  obtain cm' where d1: "TdiDisassociateAddressHandler (tdi env) (manager m) irp no_routine = Inr (STATUS_SUCCESS, cm', irp, no_routine)"
    and d2: "\<forall>c. GetConnection (manager m) (FileObject irp) = Inr c \<longrightarrow> dom (conn_heap cm') = dom (conn_heap (manager m)) - {c}"
    by (elim exE conjE)
  note d = d1 d2[rule_format, OF assms(7)]
  have type: "device_type cm' = device_type (manager m)" by (rule TdiDisassociateAddressHandler_type[OF d(1)])
  have minor: "unat (MinorFunction irp) = 2" using assms(4) by simp
  let ?m = "m\<lparr>manager := cm'\<rparr>"
  have "HandleIrp env m irp = run_entry env m irp TdiDisassociateAddressHandler"
    using assms(5) unfolding HandleIrp_internal[OF assms(3,6)] minor tdi_entry by simp
  then have h: "HandleIrp env m irp = Inr (IrpPassedOn, irp, ?m)" using d(1) by (simp add: run_entry_def)
  have "deref (conn_heap cm') c = Inl BadPointer" using d(2) assms(8) by (auto simp: deref_def split: option.split)
  then have "TdiConnectHandlerComplete penv cm' c STATUS_SUCCESS = Inl BadPointer"
    using assms(2,8) type by (auto simp: TdiConnectHandlerComplete_def SetConnectionState_def)
  then have "TdiCallCompletionRoutine penv \<lparr>callback = Some CC_TdiConnectHandlerComplete, cr_context = c, control = full_control\<rparr>
      cm' (Cancel io) (IoStatus io) = Inl BadPointer"
    using assms(11) by (simp add: TdiCallCompletionRoutine_full[of _ CC_TdiConnectHandlerComplete] run_callback_def)
  then have "TdiCompletionHandler penv ?m io context = Inl BadPointer"
    using assms(9,10) by (simp add: TdiCompletionHandler_def)
  with h show ?thesis by blast
qed

theorem connect_completion_after_disassociate_witness:
  "\<exists>m'. HandleIrp dispatch_demo connected_demo (irp_demo\<lparr>MinorFunction := 2\<rparr>) = Inr (IrpPassedOn, irp_demo\<lparr>MinorFunction := 2\<rparr>, m') \<and>
     TdiCompletionHandler publish_demo m' \<lparr>Cancel = False, IoStatus = STATUS_SUCCESS, PendingReturned = True\<rparr> 0xB00 = Inl BadPointer"
  by (rule connect_completion_after_disassociate[where c = "0x900"])
    (use connected_demo_ok connected_demo_connection in \<open>simp_all add: irp_demo_def connection_or_address_def\<close>,
     simp_all add: connected_demo_def cm_demo_def)

text \<open>
  C4: A connect request of a TCP connection on which the driver set its completion routine,
  in the IRP or in a new one: the connection is in the state SYN_SENT when the request leaves,
  and the completion, when it does not fault, frees the context it was given and no other,
  and sets the state of this connection, and of no other, to ESTABLISHED exactly when the
  request succeeded. A replaced IRP is completed with the status and the pending flag of its
  replacement.
\<close>

theorem connect_request_completes:
  assumes "HandleIrp env m irp = Inr (out, irp', m')" "out \<noteq> IrpPassedOn"
    and "MajorFunction irp = IRP_MJ_INTERNAL_DEVICE_CONTROL" "MinorFunction irp = 3" "connection_or_address irp" "FileObject irp \<noteq> NULL"
    and "device_type (manager m) = TCP_DEVICE" "GetConnection (manager m) (FileObject irp) = Inr c"
  shows "\<exists>context x. out \<in> {IrpWithCompletion context, IrpReplaced context} \<and>
     conn_heap (manager m') c = Some x \<and> state x = TCP_STATE_SYN_SENT \<and>
     (\<forall>penv io st m''. out = IrpWithCompletion context \<longrightarrow> TdiCompletionHandler penv m' io context = Inr (st, m'') \<longrightarrow>
        contexts m'' = (contexts m)(context := None) \<and>
        conn_heap (manager m'') = (if IoStatus io = STATUS_SUCCESS
          then (conn_heap (manager m'))(c \<mapsto> x\<lparr>state := TCP_STATE_ESTABLISHED\<rparr>) else conn_heap (manager m'))) \<and>
     (\<forall>penv io st original m''. out = IrpReplaced context \<longrightarrow> TdiNewIrpCompletionHandler penv m' io context = Inr (st, original, m'') \<longrightarrow>
        original = (irp, IoStatus io, PendingReturned io) \<and> contexts m'' = (contexts m)(context := None) \<and>
        conn_heap (manager m'') = (if IoStatus io = STATUS_SUCCESS
          then (conn_heap (manager m'))(c \<mapsto> x\<lparr>state := TCP_STATE_ESTABLISHED\<rparr>) else conn_heap (manager m')))"
proof -
  let ?cr = "\<lparr>callback = Some CC_TdiConnectHandlerComplete, cr_context = c, control = full_control\<rparr>"
  have minor: "unat (MinorFunction irp) = 3" using assms(4) by simp
  have "HandleIrp env m irp = run_entry env m irp TdiConnectHandler"
    using assms(5) unfolding HandleIrp_internal[OF assms(3,6)] minor tdi_entry by simp
  then have "run_entry env m irp TdiConnectHandler = Inr (out, irp', m')" using assms(1) by simp
  then obtain st cm' cr where h: "TdiConnectHandler (tdi env) (manager m) irp no_routine = Inr (st, cm', irp', cr)"
    and p: "pass_down env (m\<lparr>manager := cm'\<rparr>) irp' cr = Inr (out, m')"
    by (auto simp: run_entry_def fbind_eq_Inr)
  have "cr \<noteq> no_routine" using p assms(2) by auto
  with TdiConnectHandler_Inr[OF h assms(7,8)] obtain x where x: "irp' = irp" "c \<noteq> NULL" "cr = ?cr"
    "conn_heap cm' c = Some x" "state x = TCP_STATE_SYN_SENT" "device_type cm' = TCP_DEVICE" by blast
  define a where "a = context_answer env"
  note out = pass_down_call[OF p[unfolded x(3)] assms(2), folded a_def]
  have mgr: "manager m' = cm'" and ctx: "a \<noteq> NULL" using out by simp_all
  have run: "conn_heap cm'' = (if IoStatus io = STATUS_SUCCESS then (conn_heap cm')(c \<mapsto> x\<lparr>state := TCP_STATE_ESTABLISHED\<rparr>) else conn_heap cm')"
    if "TdiCallCompletionRoutine penv ?cr cm' (Cancel io) (IoStatus io) = Inr (st, cm'')" for penv io st cm''
    using that connect_complete_state[OF _ x(2,6,4), of penv "IoStatus io" st cm'']
    by (simp add: TdiCallCompletionRoutine_full[of _ CC_TdiConnectHandlerComplete] run_callback_def)
  have here: "contexts m' = (contexts m)(a \<mapsto> \<lparr>completion_routine = ?cr, original_irp = (if out = IrpReplaced a then Some irp else None)\<rparr>)"
    using out x(1) by auto
  have dr: "deref (contexts m') a = Inr \<lparr>completion_routine = ?cr, original_irp = (if out = IrpReplaced a then Some irp else None)\<rparr>"
    using ctx here by simp
  have del: "(contexts m')(a := None) = (contexts m)(a := None)" using here by simp
  show ?thesis
  proof (intro exI[of _ a] exI[of _ x] conjI allI impI)
    fix penv io st m'' assume "TdiCompletionHandler penv m' io a = Inr (st, m'')"
    then obtain st' cm'' where "TdiCallCompletionRoutine penv ?cr cm' (Cancel io) (IoStatus io) = Inr (st', cm'')"
      "m'' = m'\<lparr>manager := cm'', contexts := (contexts m')(a := None)\<rparr>"
      by (auto simp: TdiCompletionHandler_def fbind_eq_Inr dr mgr)
    then show "contexts m'' = (contexts m)(a := None)" "conn_heap (manager m'') = (if IoStatus io = STATUS_SUCCESS
        then (conn_heap (manager m'))(c \<mapsto> x\<lparr>state := TCP_STATE_ESTABLISHED\<rparr>) else conn_heap (manager m'))"
      using run[of penv io st' cm''] del mgr by simp_all
  next
    fix penv io st original m''
    assume o: "out = IrpReplaced a" and "TdiNewIrpCompletionHandler penv m' io a = Inr (st, original, m'')"
    then obtain st' cm'' where "TdiCallCompletionRoutine penv ?cr cm' (Cancel io) (IoStatus io) = Inr (st', cm'')"
      "m'' = m'\<lparr>manager := cm'', contexts := (contexts m')(a := None)\<rparr>" "original = (irp, IoStatus io, PendingReturned io)"
      by (auto simp: TdiNewIrpCompletionHandler_def fbind_eq_Inr dr mgr)
    then show "original = (irp, IoStatus io, PendingReturned io)" "contexts m'' = (contexts m)(a := None)"
      "conn_heap (manager m'') = (if IoStatus io = STATUS_SUCCESS
        then (conn_heap (manager m'))(c \<mapsto> x\<lparr>state := TCP_STATE_ESTABLISHED\<rparr>) else conn_heap (manager m'))"
      using run[of penv io st' cm''] del mgr by simp_all
  qed (use out x mgr in auto)
qed

theorem connect_request_completes_witness:
  "\<exists>m' x. HandleIrp dispatch_demo connected_demo irp_demo = Inr (IrpWithCompletion 0xB00, irp_demo, m') \<and>
     conn_heap (manager m') 0x900 = Some x \<and> state x = TCP_STATE_SYN_SENT"
proof -
  obtain m' where m': "HandleIrp dispatch_demo connected_demo irp_demo = Inr (IrpWithCompletion 0xB00, irp_demo, m')"
    using connect_demo by blast
  have "device_type (manager connected_demo) = TCP_DEVICE" "GetConnection (manager connected_demo) (FileObject irp_demo) = Inr 0x900"
    "MajorFunction irp_demo = IRP_MJ_INTERNAL_DEVICE_CONTROL" "MinorFunction irp_demo = 3" "connection_or_address irp_demo" "FileObject irp_demo \<noteq> NULL"
    using connected_demo_connection by (simp_all add: irp_demo_def connected_demo_def cm_demo_def connection_or_address_def)
  from connect_request_completes[OF m' _ this(3-6,1,2)] m' show ?thesis by blast
qed

text \<open>
  A load that succeeds makes, attaches and links both devices, but unloading the driver
  then looks at the last of them only: the TCP device stays behind, attached to the transport
  of the system and with its link, while the code of the driver goes. A load that fails
  leaves no device, unless it was the second device that could not be made: then the first
  one stays.
\<close>

theorem DriverEntry_UnloadDriver:
  assumes "tcp s = no_device" "udp s = no_device" "DriverEntry s ta ua = (status, s')"
  shows "if NT_SUCCESS status
    then \<exists>s''. UnloadDriver s' = Inr s'' \<and> \<not> dev_exists (udp s'') \<and> \<not> dev_attached (udp s'') \<and> \<not> dev_link (udp s'') \<and>
       tcp s'' = \<lparr>dev_exists = True, dev_attached = True, dev_manager_ready = True, dev_link = True\<rparr>
    else \<not> dev_exists (udp s') \<and> (dev_exists (tcp s') \<longleftrightarrow> NT_SUCCESS (create_status ta) \<and> NT_SUCCESS (attach_status ta) \<and>
       NT_SUCCESS (link_status ta) \<and> \<not> NT_SUCCESS (create_status ua))"
  using assms by (auto simp: DriverEntry_def UnloadDriver_def first_device_def Let_def IoDeleteDevice_def no_device_def
      TCP_DEVICE_def UDP_DEVICE_def split: if_splits)

definition granted :: setup_answers where
  "granted = \<lparr>create_status = STATUS_SUCCESS, attach_status = STATUS_SUCCESS, link_status = STATUS_SUCCESS\<rparr>"

theorem DriverEntry_UnloadDriver_witness:
  "\<exists>s' s''. DriverEntry \<lparr>dispatch_set = False, tcp = no_device, udp = no_device\<rparr> granted granted = (STATUS_SUCCESS, s') \<and>
     UnloadDriver s' = Inr s'' \<and> dev_attached (tcp s'')"
proof -
  obtain s' where s': "DriverEntry \<lparr>dispatch_set = False, tcp = no_device, udp = no_device\<rparr> granted granted = (STATUS_SUCCESS, s')"
    by (simp add: DriverEntry_def granted_def no_device_def)
  from DriverEntry_UnloadDriver[OF _ _ s'] s' show ?thesis by auto
qed

text \<open>
  A hook that only passes on is not seen by either side: when a request of a client was
  changed to carry our callback, the transport driver that calls the callback with the
  context of the changed request gets what the client's own callback returns for the client's
  own context and the same further arguments, whichever of the nine callbacks it is.
\<close>

theorem hooks_are_transparent:
  assumes "ehm_ok m" "0 \<le> sint (EventType req)" "sint (EventType req) < 11"
    and "SetEventHandler m req node = Inr (m', req')" "req' \<noteq> req"
  shows "(let h = eh_heap m'; ctx = EventContext req'; own = \<lambda>args. Inr (client (EventHandler_cb req) (EventContext req # args)) in
     TdiErrorEventHandler client h ctx a1 = own [a1] \<and>
     TdiReceiveEventHandler client h ctx a1 a2 a3 a4 a5 a6 a7 = own [a1, a2, a3, a4, a5, a6, a7] \<and>
     TdiReceiveDatagramEventHandler client h ctx a1 a2 a3 a4 a5 a6 a7 a8 a9 a10 = own [a1, a2, a3, a4, a5, a6, a7, a8, a9, a10] \<and>
     TdiReceiveExpeditedEventHandler client h ctx a1 a2 a3 a4 a5 a6 a7 = own [a1, a2, a3, a4, a5, a6, a7] \<and>
     TdiSendPossibleEventHandler client h ctx a1 a2 = own [a1, a2] \<and>
     TdiChainedReceiveEventHandler client h ctx a1 a2 a3 a4 a5 a6 = own [a1, a2, a3, a4, a5, a6] \<and>
     TdiChainedReceiveDatagramEventHandler client h ctx a1 a2 a3 a4 a5 a6 a7 a8 a9 = own [a1, a2, a3, a4, a5, a6, a7, a8, a9] \<and>
     TdiChainedReceiveExpeditedEventHandler client h ctx a1 a2 a3 a4 a5 a6 = own [a1, a2, a3, a4, a5, a6] \<and>
     TdiErrorExEventHandler client h ctx a1 a2 = own [a1, a2])"
proof -
  obtain e where e: "deref (eh_heap m') (EventContext req') = Inr e" "original_handler e = req"
    using SetEventHandler_ok[OF assms(1-3), of node] assms(4,5) by force
  have "call_original client (eh_heap m') (EventContext req') args = Inr (client (EventHandler_cb req) (EventContext req # args))" for args
    using e by (simp add: call_original_def)
  then show ?thesis
    by (simp add: Let_def TdiErrorEventHandler_def TdiReceiveEventHandler_def TdiReceiveDatagramEventHandler_def
        TdiReceiveExpeditedEventHandler_def TdiSendPossibleEventHandler_def TdiChainedReceiveEventHandler_def
        TdiChainedReceiveDatagramEventHandler_def TdiChainedReceiveExpeditedEventHandler_def TdiErrorExEventHandler_def)
qed

lemma SetEventHandler_demo:
  "\<exists>m' req'. SetEventHandler ehm_demo receive_request 0x30 = Inr (m', req') \<and> req' \<noteq> receive_request"
proof -
  have find: "FindHashMapValue hm_demo 0x30 = Some NULL"
    using hms.lookup_law[OF hm_demo_ok, of "0x30"] by (simp add: hm_demo_vals)
  obtain b hm where ins: "InsertHashMap hm_demo 0x30 0x10000 = Some (b, hm)"
    using hms.insert_law[OF hm_demo_ok, of "0x30" "0x10000"] by blast
  have ty: "EventType receive_request = 3" by (simp add: receive_request_def)
  have "handler_ptr 0x10000 3 \<in> cells 0x10000" by (intro handler_ptr_in_cells) (simp add: TDI_EVENT_HANDLERS_MAX_def)
  then have cell: "set_cells (Some zero_handler) 0x10000 h (handler_ptr 0x10000 3) = Some zero_handler" for h
    by (simp add: set_cells_apply)
  have ptr: "handler_ptr 0x10000 3 \<noteq> NULL" by (simp add: handler_ptr_def)
  have "TdiEventHandlers ! 3 = CB_capture Hook_TdiReceiveEventHandler" by (simp add: TdiEventHandlers_def)
  then show ?thesis
    by (simp add: SetEventHandler_def ty TDI_EVENT_HANDLERS_MAX_def ehm_demo_def find CreateNodeEventHandler_def ins cell ptr Let_def)
      (simp add: receive_request_def)
qed

theorem hooks_are_transparent_witness:
  "\<exists>m' req'. SetEventHandler ehm_demo receive_request 0x30 = Inr (m', req') \<and>
     TdiSendPossibleEventHandler (\<lambda>cb args. if cb = CB_client 0x5000 then sum_list args else 0) (eh_heap m') (EventContext req') 1 2 = Inr 0x6003"
proof -
  obtain m' req' where r: "SetEventHandler ehm_demo receive_request 0x30 = Inr (m', req')" "req' \<noteq> receive_request"
    using SetEventHandler_demo by blast
  from hooks_are_transparent[OF ehm_demo_ok _ _ r, of "\<lambda>cb args. if cb = CB_client 0x5000 then sum_list args else 0" 1 2] r(1)
  show ?thesis by (simp add: receive_request_def Let_def)
qed

end
