(* ===== verification/NetworkReader.thy ===== *)
theory NetworkReader
  imports ConnectionManager ProcessManager
begin

text \<open>
  NetworkMonitor.cpp and EventList.h of the client: the thread that reads the event lists of the
  connection driver in the memory it shares with it, gives the blocks of an event back and signals
  the connections that are not excluded. The memory is the one of the driver's model; the client
  sees it through its own declaration of the list, which is not the driver's: it has no
  \<open>bitmap_lock\<close>, so that its bitmap begins four bytes before the driver's, at the hint index,
  and its buffer four bytes before the driver's buffer.
\<close>

section \<open>The states of a connection\<close>

definition TcpState :: "ConnectionState list" where
  "TcpState =
     [TCP_STATE_CLOSED, TCP_STATE_LISTEN, TCP_STATE_SYN_SENT, TCP_STATE_SYN_RCVD, TCP_STATE_ESTABLISHED,
      TCP_STATE_FIN_WAIT_1, TCP_STATE_FIN_WAIT_2, TCP_STATE_CLOSING, TCP_STATE_TIME_WAIT, TCP_STATE_CLOSE_WAIT,
      TCP_STATE_LAST_ACK, UDP_STATE_CLOSED, UDP_STATE_CONNECT, UDP_STATE_ESTABLISHED, UDP_STATE_SEND,
      UDP_STATE_RECEIVE, UDP_STATE_SEND_DATAGRAM, UDP_STATE_RECEIVE_DATAGRAM]"

definition client_code :: "ConnectionState \<Rightarrow> u32" where
  "client_code st = of_nat (length (takeWhile (\<lambda>s. s \<noteq> st) TcpState))"

lemma client_code_driver: "client_code st = state_code st"
  by (simp add: client_code_def state_code_def TcpState_def all_states_def)

definition tcp_type :: "u32 \<Rightarrow> u16 list \<Rightarrow> u16 list" where
  "tcp_type code old =
     (if code = client_code TCP_STATE_ESTABLISHED then wide ''tcp-connection''
      else if code = client_code TCP_STATE_LISTEN then wide ''tcp-listening'' else old)"

definition udp_type :: "u32 \<Rightarrow> u16 list \<Rightarrow> u16 list" where
  "udp_type code old =
     (if code = client_code UDP_STATE_SEND \<or> code = client_code UDP_STATE_SEND_DATAGRAM then wide ''udp-connection''
      else if code = client_code UDP_STATE_RECEIVE \<or> code = client_code UDP_STATE_RECEIVE_DATAGRAM then wide ''udp-listening''
      else old)"

section \<open>Giving blocks back\<close>

text \<open>The offset of the buffer in the client's list: head, tail, size of the bitmap, its address,
  hint, bitmap words.\<close>

definition CLIENT_BUFFER_OFFSET :: nat where
  "CLIENT_BUFFER_OFFSET = 4 + 4 + 4 + 4 + 4 + BUFFER_BITMAP_SIZE * 4"

text \<open>A byte of the driver's bitmap, and a byte of the array the client takes for it.\<close>

definition bits_byte :: "(nat \<Rightarrow> bool) \<Rightarrow> nat \<Rightarrow> u8" where
  "bits_byte bm k = horner_sum of_bool 2 (map (\<lambda>j. bm (8 * k + j)) [0..<8])"

definition client_byte :: "EventList \<Rightarrow> nat \<Rightarrow> u8" where
  "client_byte l k = (if k < 4 then le_bytes32 (bitmap_hint_index l) ! k else bits_byte (bitmap l) (k - 4))"

definition word_bytes :: "u8 list \<Rightarrow> u32" where
  "word_bytes bs = word32_of (bs ! 0) (bs ! 1) (bs ! 2) (bs ! 3)"

definition set_bits_byte :: "(nat \<Rightarrow> bool) \<Rightarrow> nat \<Rightarrow> u8 \<Rightarrow> nat \<Rightarrow> bool" where
  "set_bits_byte bm k b = (\<lambda>i. if i div 8 = k then bit b (i mod 8) else bm i)"

definition put_client_byte :: "EventList \<Rightarrow> nat \<Rightarrow> u8 \<Rightarrow> EventList" where
  "put_client_byte l k b =
     (if k < 4 then l\<lparr>bitmap_hint_index := word_bytes ((le_bytes32 (bitmap_hint_index l))[k := b])\<rparr>
      else l\<lparr>bitmap := set_bits_byte (bitmap l) (k - 4) b\<rparr>)"

text \<open>~(~(0xFF << count) << shift), cut to a byte.\<close>

definition keep_mask :: "u32 \<Rightarrow> u32 \<Rightarrow> u8" where
  "keep_mask shift count = ucast (NOT (push_bit (unat shift) (NOT (push_bit (unat count) (0xFF :: u32)))))"

function clear_bits :: "EventList \<Rightarrow> nat \<Rightarrow> u32 \<Rightarrow> u32 \<Rightarrow> EventList" where
  "clear_bits l position index bits =
     (if bits = 0 then l
      else let shift = index AND 7;
               count = (if bits > 8 - shift then 8 - shift else bits)
           in clear_bits (put_client_byte l position (client_byte l position AND keep_mask shift count))
                (position + 1) (index + count) (bits - count))"
  by pat_completeness auto

lemma and_7: "(index :: u32) AND 7 = index mod 8" "unat ((index :: u32) AND 7) = unat index mod 8" "(index :: u32) AND 7 < 8"
proof -
  have e: "(7 :: u32) = mask 3" by (simp add: mask_eq_exp_minus_1)
  show "index AND 7 = index mod 8" unfolding e by (simp add: take_bit_eq_mod flip: take_bit_eq_mask)
  then show u: "unat (index AND 7) = unat index mod 8" by (simp add: unat_mod_distrib)
  have "unat (index AND 7) < unat (8 :: u32)" unfolding u by simp
  then show "index AND 7 < 8" by (simp only: word_less_nat_alt)
qed

text \<open>At least one bit is dealt with in each round, none behind the byte.\<close>

lemma round_count:
  fixes index bits count :: u32
  assumes "bits \<noteq> 0" "count = (if bits > 8 - (index AND 7) then 8 - (index AND 7) else bits)"
  shows "0 < unat count \<and> count \<le> bits \<and> unat count = min (unat bits) (8 - unat index mod 8)"
proof -
  have s: "unat (8 - (index AND 7)) = 8 - unat index mod 8"
    using and_7(2,3)[of index] unat_less_of_le[of "index AND 7" 8] by (simp add: order_less_imp_le)
  have b: "0 < unat bits" using assms(1) by (simp add: unat_gt_0)
  show ?thesis unfolding assms(2) using s b by (auto simp: word_le_nat_alt word_less_nat_alt)
qed

termination clear_bits
proof (relation "measure (\<lambda>(l, position, index, bits). unat bits)")
  fix l position and index bits shift count :: u32
  assume h: "bits \<noteq> 0" "shift = index AND 7" "count = (if bits > 8 - shift then 8 - shift else bits)"
  have "0 < unat count \<and> count \<le> bits"
    using round_count[OF h(1) h(3)[unfolded h(2)]] by blast
  then have "unat (bits - count) < unat bits" by (simp add: unat_less_of_le word_le_nat_alt)
  then show "((put_client_byte l position (client_byte l position AND keep_mask shift count), position + 1, index + count, bits - count),
      l, position, index, bits) \<in> measure (\<lambda>(l, position, index, bits). unat bits)" by simp
qed simp

text \<open>The block at an offset of the list.\<close>

definition BufferClearBits :: "EventList \<Rightarrow> u32 \<Rightarrow> u32 \<Rightarrow> EventList" where
  "BufferClearBits l data sz =
     (let bitmap_size = of_nat BITMAP_BITS;
          bits = ALIGN_UP_Block sz div 16;
          index = (data - of_nat CLIENT_BUFFER_OFFSET) div 16
      in if index \<ge> bitmap_size \<or> bits = 0 then l
         else let bits' = (if index + bits > bitmap_size then bitmap_size - index else bits)
              in clear_bits l (unat (index div 8)) index bits')"

declare clear_bits.simps [simp del]

subsection \<open>What is cleared\<close>

definition client_bit :: "EventList \<Rightarrow> nat \<Rightarrow> bool" where
  "client_bit l i = bit (client_byte l (i div 8)) (i mod 8)"

lemma bit_bits_byte: "bit (bits_byte bm k) j \<longleftrightarrow> j < 8 \<and> bm (8 * k + j)"
  by (auto simp: bits_byte_def bit_horner_sum_bit_word_iff)

lemma le_bytes32_word32_of: "le_bytes32 (word32_of a b c d) = [a, b, c, d]"
proof -
  have "(ucast (word32_of a b c d) :: u8) = a" "(ucast (drop_bit 8 (word32_of a b c d)) :: u8) = b"
    "(ucast (drop_bit 16 (word32_of a b c d)) :: u8) = c" "(ucast (drop_bit 24 (word32_of a b c d)) :: u8) = d"
    unfolding word32_of_def by (rule bit_word_eqI; auto simp: bit_simps dest: bit_imp_le_length)+
  then show ?thesis by (simp add: le_bytes32_def)
qed

lemma le_bytes32_word_bytes: "length bs = 4 \<Longrightarrow> le_bytes32 (word_bytes bs) = bs"
  unfolding word_bytes_def le_bytes32_word32_of by (auto simp: length_Suc_conv numeral_eq_Suc)

lemma client_byte_put: "client_byte (put_client_byte l k b) k' = (if k' = k then b else client_byte l k')"
proof (cases "k < 4")
  case True
  then show ?thesis by (simp add: client_byte_def put_client_byte_def le_bytes32_word_bytes)
next
  case False
  have "bits_byte (set_bits_byte (bitmap l) (k - 4) b) (k' - 4) = (if k' - 4 = k - 4 then b else bits_byte (bitmap l) (k' - 4))"
    by (rule bit_word_eqI) (auto simp: bit_bits_byte set_bits_byte_def)
  moreover have "k' - 4 = k - 4 \<longleftrightarrow> k' = k" if "\<not> k' < 4" using that False by auto
  ultimately show ?thesis using False by (auto simp: client_byte_def put_client_byte_def)
qed

lemma put_client_byte_rest:
  "el_head (put_client_byte l k b) = el_head l" "el_tail (put_client_byte l k b) = el_tail l"
  "el_events (put_client_byte l k b) = el_events l" "el_containers (put_client_byte l k b) = el_containers l"
  by (simp_all add: put_client_byte_def)

lemma bit_keep_mask:
  assumes "unat shift < 8" "unat count \<le> 8" "j < 8"
  shows "bit (keep_mask shift count) j \<longleftrightarrow> \<not> (unat shift \<le> j \<and> j < unat shift + unat count)"
proof -
  have f: "(0xFF :: u32) = mask 8" by (simp add: mask_eq_exp_minus_1)
  show ?thesis using assms unfolding keep_mask_def f by (auto simp: bit_simps)
qed

lemma clear_bits_effect:
  assumes "unat index + unat bits \<le> 32768" "bits \<noteq> 0 \<longrightarrow> position = unat index div 8"
  shows "(\<forall>i. client_bit (clear_bits l position index bits) i \<longleftrightarrow>
           client_bit l i \<and> \<not> (unat index \<le> i \<and> i < unat index + unat bits)) \<and>
     el_head (clear_bits l position index bits) = el_head l \<and> el_tail (clear_bits l position index bits) = el_tail l \<and>
     el_events (clear_bits l position index bits) = el_events l \<and>
     el_containers (clear_bits l position index bits) = el_containers l"
  using assms
proof (induction l position index bits rule: clear_bits.induct)
  case (1 l position index bits)
  show ?case
  proof (cases "bits = 0")
    case True
    then show ?thesis by (simp add: clear_bits.simps)
  next
    case False
    define count where "count = (if bits > 8 - (index AND 7) then 8 - (index AND 7) else bits)"
    let ?k = "unat index div 8" and ?s = "unat index mod 8"
    let ?l = "put_client_byte l position (client_byte l position AND keep_mask (index AND 7) count)"
    have c: "0 < unat count" "count \<le> bits" "unat count = min (unat bits) (8 - ?s)"
      using round_count[OF False count_def] by auto
    have pos: "position = ?k" using 1(3) False by simp
    have b: "unat (bits - count) = unat bits - unat count" using c(2) by (simp add: unat_less_of_le)
    have i: "unat (index + count) = unat index + unat count" using 1(2) c(3) by (intro unat_add_no_wrap) simp
    have step: "clear_bits l position index bits = clear_bits ?l (position + 1) (index + count) (bits - count)"
      using False by (subst clear_bits.simps) (simp add: count_def Let_def)
    have next_pos: "bits - count \<noteq> 0 \<longrightarrow> position + 1 = unat (index + count) div 8"
    proof
      assume "bits - count \<noteq> 0"
      then have "unat (bits - count) \<noteq> 0" by (simp only: unat_eq_zero not_False_eq_True)
      then have "unat count = 8 - ?s" using b c(3) by auto
      then show "position + 1 = unat (index + count) div 8" unfolding i pos by presburger
    qed
    have "unat (index + count) + unat (bits - count) \<le> 32768" unfolding i b using 1(2) c(3) by simp
    note IH = 1(1)[OF False refl count_def this next_pos]
    have byte: "client_bit ?l i \<longleftrightarrow> client_bit l i \<and> \<not> (unat index \<le> i \<and> i < unat index + unat count)" for i
    proof (cases "i div 8 = ?k")
      case True
      have m: "i = 8 * ?k + i mod 8" "unat index = 8 * ?k + ?s" using True by (metis mult_div_mod_eq)+
      have "bit (keep_mask (index AND 7) count) (i mod 8) \<longleftrightarrow> \<not> (?s \<le> i mod 8 \<and> i mod 8 < ?s + unat count)"
        using bit_keep_mask[of "index AND 7" count "i mod 8"] c(3) by (simp add: and_7(2))
      also have "\<dots> \<longleftrightarrow> \<not> (unat index \<le> i \<and> i < unat index + unat count)" using m by linarith
      finally show ?thesis using True by (simp add: client_bit_def client_byte_put pos bit_and_iff)
    next
      case False
      have "\<not> (unat index \<le> i \<and> i < unat index + unat count)"
      proof
        assume h: "unat index \<le> i \<and> i < unat index + unat count"
        have "unat index = 8 * ?k + ?s" "?s < 8" "unat count \<le> 8 - ?s" using c(3) by simp_all
        then have "i < 8 * ?k + 8" using h by linarith
        moreover have "8 * ?k \<le> i" using h by (meson dual_order.trans times_div_less_eq_dividend)
        ultimately have "i div 8 = ?k" by (intro div_nat_eqI) simp_all
        with False show False by blast
      qed
      then show ?thesis using False by (simp add: client_bit_def client_byte_put pos)
    qed
    have merge: "\<not> (unat index \<le> i \<and> i < unat index + unat count) \<and>
        \<not> (unat (index + count) \<le> i \<and> i < unat (index + count) + unat (bits - count)) \<longleftrightarrow>
        \<not> (unat index \<le> i \<and> i < unat index + unat bits)" for i
      unfolding i b using c(3) by linarith
    show ?thesis unfolding step
    proof (intro conjI allI)
      fix i show "client_bit (clear_bits ?l (position + 1) (index + count) (bits - count)) i \<longleftrightarrow>
          client_bit l i \<and> \<not> (unat index \<le> i \<and> i < unat index + unat bits)"
        using conjunct1[OF IH] byte[of i] merge[of i] by blast
    qed (use conjunct2[OF IH] in \<open>simp_all only: put_client_byte_rest\<close>)
  qed
qed

section \<open>Reading an event\<close>

text \<open>
  The first four bytes of a container as a number, its bytes up to the first NUL as a text. What
  the driver has not written, and what lies behind the container, is not looked into.
\<close>

definition container_word :: "u8 option list \<Rightarrow> fault + u32" where
  "container_word data =
     (case data of Some a # Some b # Some c # Some d # _ \<Rightarrow> Inr (word32_of a b c d) | _ \<Rightarrow> Inl OutOfBounds)"

fun container_text :: "u8 option list \<Rightarrow> fault + u8 list" where
  "container_text (Some c # r) = (if c = 0 then Inr [] else fbind (container_text r) (\<lambda>s. Inr (c # s)))"
| "container_text _ = Inl OutOfBounds"

text \<open>mbstowcs_s in the C locale.\<close>

definition multiByteStringToWideString :: "u8 list \<Rightarrow> u16 list" where
  "multiByteStringToWideString s = map ucast s"

record 'r net_client =
  nc_permissions :: "'r permission_map"
  nc_matches :: "'r \<Rightarrow> u16 list \<Rightarrow> bool"
  nc_paths :: path_env
  nc_query :: query_env
  nc_time :: "u16 list"

record reading =
  rd_process_id :: u32
  rd_process_path :: "u16 list"
  rd_type :: "u16 list"
  rd_address :: "u16 list"
  rd_manager :: process_manager

definition read_container ::
    "'r net_client \<Rightarrow> (u32 \<Rightarrow> u16 list \<Rightarrow> u16 list) \<Rightarrow> DataContainer \<Rightarrow> reading \<Rightarrow> fault + reading" where
  "read_container nc type_of data rd =
     (if dc_key data = 0 then
        fbind (container_word (dc_data data)) (\<lambda>code. Inr (rd\<lparr>rd_type := type_of code (rd_type rd)\<rparr>))
      else if dc_key data = 1 then Inr rd
      else if dc_key data = 2 then
        fbind (container_text (dc_data data)) (\<lambda>s. Inr (rd\<lparr>rd_address := multiByteStringToWideString s\<rparr>))
      else if dc_key data = 3 then
        fbind (container_word (dc_data data)) (\<lambda>pid.
        fbind (getProcessPath (nc_paths nc) (nc_query nc) (rd_manager rd) pid) (\<lambda>(path, pm).
          Inr (rd\<lparr>rd_process_id := pid, rd_process_path := path, rd_manager := pm\<rparr>)))
      else Inr rd)"

text \<open>None: the list of the containers goes round in a circle.\<close>

partial_function (option) read_containers ::
    "'r net_client \<Rightarrow> (u32 \<Rightarrow> u16 list \<Rightarrow> u16 list) \<Rightarrow> addr \<Rightarrow> EventList \<Rightarrow> u32 \<Rightarrow> reading \<Rightarrow> (fault + reading \<times> EventList) option" where
  "read_containers nc type_of base l data_offset rd =
     (if data_offset = 0 then Some (Inr (rd, l))
      else case deref (el_containers l) (OFFSET_TO_POINTER base data_offset) of
        Inl e \<Rightarrow> Some (Inl e)
      | Inr data \<Rightarrow>
          (case read_container nc type_of data rd of
             Inl e \<Rightarrow> Some (Inl e)
           | Inr rd' \<Rightarrow>
               read_containers nc type_of base (BufferClearBits l data_offset (sizeof_DataContainer + dc_size data))
                 (dc_next data) rd'))"

record net_signal =
  ns_type :: "u16 list"
  ns_time :: "u16 list"
  ns_process_id :: u32
  ns_process_path :: "u16 list"
  ns_address :: "u16 list"

definition net_signals :: "'r net_client \<Rightarrow> reading \<Rightarrow> net_signal list" where
  "net_signals nc rd =
     (if rd_type rd \<noteq> [] \<and>
         \<not> isEventAllowed (nc_matches nc) (nc_permissions nc) (rd_type rd) (rd_process_path rd) (rd_address rd) then
        [\<lparr>ns_type = rd_type rd, ns_time = nc_time nc, ns_process_id = rd_process_id rd,
          ns_process_path = rd_process_path rd, ns_address = rd_address rd\<rparr>]
      else [])"

definition new_reading :: "process_manager \<Rightarrow> reading" where
  "new_reading pm = \<lparr>rd_process_id = 0, rd_process_path = [], rd_type = [], rd_address = [], rd_manager = pm\<rparr>"

text \<open>The first event of the list, if there is one; the tail of the list stays what it is.\<close>

definition process_events ::
    "'r net_client \<Rightarrow> (u32 \<Rightarrow> u16 list \<Rightarrow> u16 list) \<Rightarrow> addr \<Rightarrow> EventList \<Rightarrow> process_manager \<Rightarrow>
     (fault + net_signal list \<times> EventList \<times> process_manager) option" where
  "process_events nc type_of base l pm =
     (if el_head l = 0 then Some (Inr ([], l, pm))
      else case deref (el_events l) (OFFSET_TO_POINTER base (el_head l)) of
        Inl e \<Rightarrow> Some (Inl e)
      | Inr kernel_event \<Rightarrow>
          map_option (\<lambda>r. fbind r (\<lambda>(rd, l').
              Inr (net_signals nc rd, BufferClearBits (l'\<lparr>el_head := ev_next kernel_event\<rparr>) (el_head l) sizeof_Event, rd_manager rd)))
            (read_containers nc type_of base l (ev_head kernel_event) (new_reading pm)))"

definition processTcpEvents ::
    "'r net_client \<Rightarrow> SharedEventList \<Rightarrow> process_manager \<Rightarrow> (fault + net_signal list \<times> SharedEventList \<times> process_manager) option" where
  "processTcpEvents nc s pm =
     map_option (\<lambda>r. fbind r (\<lambda>(sigs, l, pm'). Inr (sigs, s\<lparr>el := l\<rparr>, pm')))
       (process_events nc tcp_type (event_list s) (el s) pm)"

definition processUdpEvents ::
    "'r net_client \<Rightarrow> SharedEventList \<Rightarrow> process_manager \<Rightarrow> (fault + net_signal list \<times> SharedEventList \<times> process_manager) option" where
  "processUdpEvents nc s pm =
     map_option (\<lambda>r. fbind r (\<lambda>(sigs, l, pm'). Inr (sigs, s\<lparr>el := l\<rparr>, pm')))
       (process_events nc udp_type (event_list s) (el s) pm)"

section \<open>The thread\<close>

record network_lists =
  nl_tcp :: SharedEventList
  nl_udp :: SharedEventList
  nl_manager :: process_manager

text \<open>WaitForMultipleObjects: the first semaphore with a count gives one of it; None is the timeout.\<close>

definition wait_for_event :: "network_lists \<Rightarrow> network_lists option" where
  "wait_for_event nl =
     (if 0 < semaphore_count (nl_tcp nl) then
        Some (nl\<lparr>nl_tcp := (nl_tcp nl)\<lparr>semaphore_count := semaphore_count (nl_tcp nl) - 1\<rparr>\<rparr>)
      else if 0 < semaphore_count (nl_udp nl) then
        Some (nl\<lparr>nl_udp := (nl_udp nl)\<lparr>semaphore_count := semaphore_count (nl_udp nl) - 1\<rparr>\<rparr>)
      else None)"

definition network_round :: "'r net_client \<Rightarrow> network_lists \<Rightarrow> (fault + net_signal list \<times> network_lists) option" where
  "network_round nc nl =
     (case wait_for_event nl of
        None \<Rightarrow> Some (Inr ([], nl))
      | Some nl1 \<Rightarrow>
          Option.bind (processTcpEvents nc (nl_tcp nl1) (nl_manager nl1)) (\<lambda>r.
            case r of Inl e \<Rightarrow> Some (Inl e)
            | Inr (sigs, tcp, pm) \<Rightarrow>
                map_option (\<lambda>r. fbind r (\<lambda>(sigs', udp, pm').
                    Inr (sigs @ sigs', \<lparr>nl_tcp = tcp, nl_udp = udp, nl_manager = pm'\<rparr>)))
                  (processUdpEvents nc (nl_udp nl1) pm)))"

section \<open>Starting and stopping\<close>

text \<open>
  What the constructor meets: the driver installed or not, the two devices opened or not. What it
  and the destructor, start and stop do besides setting the flags is listed in order.
\<close>

datatype net_action =
    CreateSemaphores | InstallDriver | UninstallDriver | CreateThread | StopThread | DeleteThread | CloseDevices | CloseSemaphores

record network_monitor =
  monitor_running :: bool
  driver_installed :: bool
  nm_done :: "net_action list"

definition acts :: "net_action list \<Rightarrow> network_monitor \<Rightarrow> network_monitor" where
  "acts as nm = nm\<lparr>nm_done := nm_done nm @ as\<rparr>"

definition new_network_monitor :: "bool \<Rightarrow> bool \<Rightarrow> bool \<Rightarrow> network_monitor" where
  "new_network_monitor installed tcp_opened udp_opened =
     (let nm = acts [CreateSemaphores, InstallDriver] \<lparr>monitor_running = False, driver_installed = False, nm_done = []\<rparr>
      in if installed then
           if \<not> tcp_opened \<or> \<not> udp_opened then acts [UninstallDriver] nm
           else nm\<lparr>driver_installed := True\<rparr>
         else nm)"

definition start_network_monitor :: "network_monitor \<Rightarrow> network_monitor" where
  "start_network_monitor nm = (if \<not> monitor_running nm \<and> driver_installed nm then acts [CreateThread] nm else nm)"

definition stop_network_monitor :: "network_monitor \<Rightarrow> network_monitor" where
  "stop_network_monitor nm =
     (if monitor_running nm \<and> driver_installed nm then acts [StopThread, DeleteThread] (nm\<lparr>monitor_running := False\<rparr>) else nm)"

definition destroy_network_monitor :: "network_monitor \<Rightarrow> network_monitor" where
  "destroy_network_monitor nm0 =
     (let nm = stop_network_monitor nm0;
          nm1 = (if driver_installed nm then acts [CloseDevices] (nm\<lparr>driver_installed := False\<rparr>) else nm)
      in acts [CloseSemaphores, UninstallDriver] nm1)"

text \<open>The beginning of the thread: the two lists asked for, and whether the loop is entered.\<close>

definition begin_run :: "addr \<Rightarrow> addr \<Rightarrow> network_monitor \<Rightarrow> bool \<times> network_monitor" where
  "begin_run tcp_event_list udp_event_list nm =
     (\<not> (tcp_event_list = NULL \<or> udp_event_list = NULL), nm\<lparr>monitor_running := True\<rparr>)"

section \<open>What a reading does\<close>

lemma bitmap_client_bit: "bitmap l i = client_bit l (i + 32)"
proof -
  have "(i + 32) div 8 = i div 8 + 4" "(i + 32) mod 8 = i mod 8" by arith+
  then show ?thesis by (simp add: client_bit_def client_byte_def bit_bits_byte)
qed

lemma clear_bits_rest:
  "el_head (clear_bits l position index bits) = el_head l \<and> el_tail (clear_bits l position index bits) = el_tail l \<and>
   el_events (clear_bits l position index bits) = el_events l \<and> el_containers (clear_bits l position index bits) = el_containers l"
proof (induction l position index bits rule: clear_bits.induct)
  case (1 l position index bits)
  show ?case
  proof (cases "bits = 0")
    case False
    from 1[OF False refl refl] show ?thesis
      by (subst (1 2 3 4) clear_bits.simps) (simp add: False Let_def put_client_byte_rest)
  qed (simp add: clear_bits.simps)
qed

lemma BufferClearBits_rest [simp]:
  "el_head (BufferClearBits l off sz) = el_head l" "el_tail (BufferClearBits l off sz) = el_tail l"
  "el_events (BufferClearBits l off sz) = el_events l" "el_containers (BufferClearBits l off sz) = el_containers l"
  by (simp_all add: BufferClearBits_def clear_bits_rest Let_def)

text \<open>The bits cleared for an object are those of the blocks 32 places before its own.\<close>

lemma BufferClearBits_block:
  assumes "p + n \<le> 32768" "n = (unat sz + 15) div 16" "0 < n" "unat sz + 15 < 2 ^ 32"
    and "off = ADDRESS_TO_OFFSET base (block_addr base p)"
  shows "bitmap (BufferClearBits l off sz) i \<longleftrightarrow> bitmap l i \<and> \<not> (p \<le> i + 32 \<and> i + 32 < p + n)"
proof -
  have p: "p < 32768" using assms(1,3) by simp
  have o: "unat off = 4120 + 16 * p" unfolding assms(5) ADDRESS_TO_OFFSET_def by (rule unat_block_addr_diff[OF p])
  have off4: "of_nat CLIENT_BUFFER_OFFSET = (4116 :: u32)"
    by (simp add: CLIENT_BUFFER_OFFSET_def BUFFER_BITMAP_SIZE_def BUFFER_SIZE_def BLOCK_SIZE_def)
  have ix: "unat ((off - of_nat CLIENT_BUFFER_OFFSET) div 16) = p"
    using o unat_less_of_le[of 4116 off] by (simp add: off4 unat_div word_le_nat_alt)
  have bits: "unat (ALIGN_UP_Block sz div 16) = n" using ALIGN_UP_Block_blocks(2)[OF assms(4)] assms(2) by simp
  let ?index = "(off - of_nat CLIENT_BUFFER_OFFSET) div 16" and ?bits = "ALIGN_UP_Block sz div 16"
  have "unat (?index + ?bits) = p + n" using unat_add_no_wrap[of ?index ?bits] ix bits assms(1) by simp
  then have "\<not> ?index + ?bits > of_nat BITMAP_BITS" using assms(1) by (simp add: word_less_nat_alt)
  moreover have "\<not> ?index \<ge> of_nat BITMAP_BITS" using ix p by (simp add: word_le_nat_alt)
  moreover have "?bits \<noteq> 0" using bits assms(3) by (metis unat_0 less_irrefl)
  ultimately have e: "BufferClearBits l off sz = clear_bits l (unat (?index div 8)) ?index ?bits"
    by (simp add: BufferClearBits_def Let_def)
  have "unat (?index div 8) = unat ?index div 8" by (simp add: unat_div)
  then show ?thesis
    using clear_bits_effect[of ?index ?bits "unat (?index div 8)" l] ix bits assms(1)
    by (simp only: e bitmap_client_bit) simp
qed

definition container_at :: "addr \<Rightarrow> EventList \<Rightarrow> u32 \<Rightarrow> DataContainer" where
  "container_at base l off = the (el_containers l (OFFSET_TO_POINTER base off))"

fun read_all :: "'r net_client \<Rightarrow> (u32 \<Rightarrow> u16 list \<Rightarrow> u16 list) \<Rightarrow> DataContainer list \<Rightarrow> reading \<Rightarrow> fault + reading" where
  "read_all nc type_of [] rd = Inr rd"
| "read_all nc type_of (c # cs) rd = fbind (read_container nc type_of c rd) (read_all nc type_of cs)"

fun clear_all :: "EventList \<Rightarrow> (u32 \<times> u32) list \<Rightarrow> EventList" where
  "clear_all l [] = l"
| "clear_all l ((off, sz) # r) = clear_all (BufferClearBits l off sz) r"

lemma clear_all_rest [simp]:
  "el_head (clear_all l xs) = el_head l" "el_tail (clear_all l xs) = el_tail l"
  "el_events (clear_all l xs) = el_events l" "el_containers (clear_all l xs) = el_containers l"
  by (induction l xs rule: clear_all.induct) simp_all

definition container_sizes :: "addr \<Rightarrow> EventList \<Rightarrow> u32 list \<Rightarrow> (u32 \<times> u32) list" where
  "container_sizes base l xs = map (\<lambda>off. (off, sizeof_DataContainer + dc_size (container_at base l off))) xs"

lemma container_sizes_cong: "el_containers l' = el_containers l \<Longrightarrow> container_sizes base l' xs = container_sizes base l xs"
  by (simp add: container_sizes_def container_at_def)

text \<open>An offset in the chain of an event is not that of the null pointer.\<close>

lemma read_containers_chain:
  assumes "lseg (succ_dc base l) off xs NULL" "\<forall>o' \<in> set xs. OFFSET_TO_POINTER base o' \<noteq> NULL"
  shows "read_containers nc type_of base l off rd =
    Some (fbind (read_all nc type_of (map (container_at base l) xs) rd) (\<lambda>rd'. Inr (rd', clear_all l (container_sizes base l xs))))"
  using assms
proof (induction xs arbitrary: off l rd)
  case Nil
  then show ?case by (simp add: read_containers.simps container_sizes_def)
next
  case (Cons x xs)
  from Cons.prems(1) obtain n where n: "off = x" "x \<noteq> 0" "succ_dc base l x = Some n" "lseg (succ_dc base l) n xs NULL" by auto
  then obtain c where c: "el_containers l (OFFSET_TO_POINTER base x) = Some c" "dc_next c = n" by (auto simp: succ_dc_def)
  have d: "deref (el_containers l) (OFFSET_TO_POINTER base x) = Inr c" using c Cons.prems(2) by (simp add: deref_def)
  have at: "container_at base l x = c" using c by (simp add: container_at_def)
  let ?l = "BufferClearBits l x (sizeof_DataContainer + dc_size c)"
  have succ: "succ_dc base ?l = succ_dc base l" by (auto simp: succ_dc_def)
  have same: "container_at base ?l = container_at base l" by (rule ext) (simp add: container_at_def)
  have sizes: "container_sizes base ?l xs = container_sizes base l xs" by (rule container_sizes_cong) simp
  have step: "read_containers nc type_of base ?l n rd' =
      Some (fbind (read_all nc type_of (map (container_at base l) xs) rd') (\<lambda>rd'. Inr (rd', clear_all ?l (container_sizes base l xs))))" for rd'
    using Cons.IH[of ?l n rd'] n(4) Cons.prems(2) by (simp add: succ same sizes)
  show ?case
  proof (cases "read_container nc type_of c rd")
    case (Inl e)
    then show ?thesis using n(1,2) d at by (subst read_containers.simps) simp
  next
    case (Inr rd')
    have "container_sizes base l (x # xs) = (x, sizeof_DataContainer + dc_size c) # container_sizes base l xs"
      using at by (simp add: container_sizes_def)
    then show ?thesis using n(1,2) d at Inr c(2) step by (subst read_containers.simps) simp
  qed
qed

lemma clear_all_effect:
  assumes "\<forall>(off, sz) \<in> set xs. \<exists>p. off = ADDRESS_TO_OFFSET base (block_addr base p) \<and> p + (unat sz + 15) div 16 \<le> 32768 \<and>
      0 < unat sz \<and> unat sz + 15 < 2 ^ 32"
  shows "bitmap (clear_all l xs) i \<longleftrightarrow>
     bitmap l i \<and> (\<forall>(off, sz) \<in> set xs. i + 32 \<notin> run base (OFFSET_TO_POINTER base off) (unat sz))"
  using assms
proof (induction l xs rule: clear_all.induct)
  case (2 l off sz r)
  then obtain p where p: "off = ADDRESS_TO_OFFSET base (block_addr base p)" "p + (unat sz + 15) div 16 \<le> 32768" "0 < unat sz"
    "unat sz + 15 < 2 ^ 32" by auto
  have n: "0 < (unat sz + 15) div 16" using p(3) by (simp add: div_greater_zero_iff)
  then have b: "blk base (OFFSET_TO_POINTER base off) = p" unfolding p(1) using p(2) by (simp add: blk_block_addr)
  have "bitmap (BufferClearBits l off sz) i \<longleftrightarrow> bitmap l i \<and> i + 32 \<notin> run base (OFFSET_TO_POINTER base off) (unat sz)"
    using BufferClearBits_block[OF p(2) refl n p(4,1)] by (auto simp: run_def b)
  moreover have "bitmap (clear_all (BufferClearBits l off sz) r) i \<longleftrightarrow> bitmap (BufferClearBits l off sz) i \<and>
      (\<forall>(off, sz) \<in> set r. i + 32 \<notin> run base (OFFSET_TO_POINTER base off) (unat sz))"
    using 2 by simp
  ultimately show ?case by auto
qed simp

text \<open>The blocks of an event at an offset and of its data.\<close>

definition event_blocks :: "addr \<Rightarrow> EventList \<Rightarrow> u32 list \<Rightarrow> nat set" where
  "event_blocks base l offs = (\<Union>off \<in> set offs. run base (OFFSET_TO_POINTER base off) (obj_size l (OFFSET_TO_POINTER base off)))"

lemma process_events_rep:
  assumes rep: "el_rep s (x # xs) D"
    and read: "read_all nc type_of (map (container_at (event_list s) (el s)) (D (OFFSET_TO_POINTER (event_list s) x))) (new_reading pm) = Inr rd"
  shows "\<exists>l'. process_events nc type_of (event_list s) (el s) pm = Some (Inr (net_signals nc rd, l', rd_manager rd)) \<and>
     el_events l' = el_events (el s) \<and> el_containers l' = el_containers (el s) \<and> el_tail l' = el_tail (el s) \<and>
     lseg (succ_ev (event_list s) l') (el_head l') xs NULL \<and>
     (\<forall>i. bitmap l' i \<longleftrightarrow> bitmap (el s) i \<and>
        i + 32 \<notin> event_blocks (event_list s) (el s) (x # D (OFFSET_TO_POINTER (event_list s) x)))"
proof -
  let ?base = "event_list s" and ?l = "el s"
  let ?a = "OFFSET_TO_POINTER ?base x" let ?ds = "D ?a"
  have base: "base_ok ?base" and lay: "layout ?base ?l" and ev: "ev_chain ?base ?l (x # xs)" and dc: "dc_chains ?base ?l D"
    using rep by (auto simp: el_rep_def)
  from ev obtain e where e: "el_events ?l ?a = Some e" "el_head ?l = x" "x \<noteq> 0" "lseg (succ_ev ?base ?l) (ev_next e) xs NULL"
    by (auto simp: ev_chain_def succ_ev_def)
  have a: "?a \<in> objs ?l" using e by (auto simp: objs_def)
  have da: "deref (el_events ?l) ?a = Inr e" using e layout_addr(1)[OF lay base a] by simp
  have chain: "lseg (succ_dc ?base ?l) (ev_head e) ?ds NULL" using dc e(1) unfolding dc_chains_def by blast
  have dom: "OFFSET_TO_POINTER ?base off \<in> dom (el_containers ?l)" if "off \<in> set ?ds" for off
    using dc_chains_dom[OF dc _ that] e(1) by blast
  have nn: "\<forall>off \<in> set ?ds. OFFSET_TO_POINTER ?base off \<noteq> NULL"
    using layout_addr(1)[OF lay base] dom by (auto simp: objs_def)
  let ?cs = "container_sizes ?base ?l ?ds"
  let ?l1 = "clear_all ?l ?cs"
  let ?l' = "BufferClearBits (?l1\<lparr>el_head := ev_next e\<rparr>) x sizeof_Event"
  have rc: "read_containers nc type_of ?base ?l (ev_head e) (new_reading pm) = Some (Inr (rd, ?l1))"
    unfolding read_containers_chain[OF chain nn] read by (simp only: fbind_Inr)
  have proc: "process_events nc type_of ?base ?l pm = Some (Inr (net_signals nc rd, ?l', rd_manager rd))"
    by (simp only: process_events_def e(2,3) da if_False sum.case rc option.map fbind_Inr prod.case)
  have block: "\<exists>p. OFFSET_TO_POINTER ?base off = block_addr ?base p \<and> off = ADDRESS_TO_OFFSET ?base (block_addr ?base p) \<and>
      p + (obj_size ?l (OFFSET_TO_POINTER ?base off) + 15) div 16 \<le> 32768"
    if "OFFSET_TO_POINTER ?base off \<in> objs ?l" for off
  proof -
    let ?o = "OFFSET_TO_POINTER ?base off"
    obtain p where p: "?o = block_addr ?base p" "p < 32768" using lay \<open>?o \<in> objs ?l\<close> unfolding layout_def by blast
    have sz: "0 < (obj_size ?l ?o + 15) div 16" by (auto simp: obj_size_def div_greater_zero_iff split: option.split)
    have "blk ?base ?o = p" unfolding p(1) by (rule blk_block_addr[OF p(2)])
    then have "p + ((obj_size ?l ?o + 15) div 16 - 1) \<in> run ?base ?o (obj_size ?l ?o)" using sz by (auto simp: run_def)
    then have "p + ((obj_size ?l ?o + 15) div 16 - 1) < 32768" using lay \<open>?o \<in> objs ?l\<close> unfolding layout_def by blast
    then have "p + (obj_size ?l ?o + 15) div 16 \<le> 32768" using sz by linarith
    moreover have "off = ADDRESS_TO_OFFSET ?base (block_addr ?base p)" unfolding p(1)[symmetric] by (rule OFFSET_TO_POINTER_inverse(2)[symmetric])
    ultimately show ?thesis using p(1) by blast
  qed
  have size: "unat (sizeof_DataContainer + dc_size (container_at ?base ?l off)) = obj_size ?l (OFFSET_TO_POINTER ?base off)"
     "obj_size ?l (OFFSET_TO_POINTER ?base off) + 15 < 2 ^ 32" "0 < obj_size ?l (OFFSET_TO_POINTER ?base off)"
    if off: "off \<in> set ?ds" for off
  proof -
    let ?o = "OFFSET_TO_POINTER ?base off"
    obtain c where c: "el_containers ?l ?o = Some c" using dom[OF off] by blast
    then have o: "obj_size ?l ?o = 16 + unat (dc_size c)" "container_at ?base ?l off = c"
      by (simp_all add: obj_size_def container_at_def)
    obtain p where "p + (obj_size ?l ?o + 15) div 16 \<le> 32768" using block[of off] c by (auto simp: objs_def)
    then have "(obj_size ?l ?o + 15) div 16 \<le> 32768" by linarith
    then have le: "obj_size ?l ?o + 15 < 2 ^ 20" using div_le_mono[of "2 ^ 20" "obj_size ?l ?o + 15" 16] by (cases "2 ^ 20 \<le> obj_size ?l ?o + 15") auto
    have "unat (sizeof_DataContainer + dc_size c) = 16 + unat (dc_size c)"
      using unat_add_no_wrap[of 16 "dc_size c"] le o by (simp add: sizeof_DataContainer_def)
    then show "unat (sizeof_DataContainer + dc_size (container_at ?base ?l off)) = obj_size ?l ?o"
      "obj_size ?l ?o + 15 < 2 ^ 32" "0 < obj_size ?l ?o" using o le by simp_all
  qed
  have cs: "\<forall>(off, sz) \<in> set ?cs. \<exists>p. off = ADDRESS_TO_OFFSET ?base (block_addr ?base p) \<and> p + (unat sz + 15) div 16 \<le> 32768 \<and>
      0 < unat sz \<and> unat sz + 15 < 2 ^ 32"
  proof (clarsimp simp: container_sizes_def)
    fix off assume off: "off \<in> set ?ds"
    have "OFFSET_TO_POINTER ?base off \<in> objs ?l" using dom[OF off] by (auto simp: objs_def)
    from block[OF this] size[OF off]
    show "\<exists>p. off = ADDRESS_TO_OFFSET ?base (block_addr ?base p) \<and>
        p + (unat (sizeof_DataContainer + dc_size (container_at ?base ?l off)) + 15) div 16 \<le> 32768 \<and>
        0 < unat (sizeof_DataContainer + dc_size (container_at ?base ?l off)) \<and>
        unat (sizeof_DataContainer + dc_size (container_at ?base ?l off)) < 4294967281" by auto
  qed
  have b1: "bitmap ?l1 i \<longleftrightarrow> bitmap ?l i \<and> i + 32 \<notin> event_blocks ?base ?l ?ds" for i
    unfolding clear_all_effect[OF cs] using size(1) by (auto simp: event_blocks_def container_sizes_def)
  have sx: "obj_size ?l ?a = 20" using e(1) lay unfolding layout_def obj_size_def by (auto split: option.split)
  obtain p where p: "?a = block_addr ?base p" "x = ADDRESS_TO_OFFSET ?base (block_addr ?base p)" "p + 2 \<le> 32768"
    using block[OF a] sx by auto
  have "blk ?base ?a = p" unfolding p(1) using p(3) by (simp add: blk_block_addr)
  then have "bitmap ?l' i \<longleftrightarrow> bitmap ?l1 i \<and> i + 32 \<notin> run ?base ?a 20" for i
    using BufferClearBits_block[OF p(3) _ _ _ p(2), of sizeof_Event "?l1\<lparr>el_head := ev_next e\<rparr>" i]
    by (auto simp: run_def sizeof_Event_def)
  then have "bitmap ?l' i \<longleftrightarrow> bitmap ?l i \<and> i + 32 \<notin> event_blocks ?base ?l (x # ?ds)" for i
    using b1 sx by (auto simp: event_blocks_def)
  moreover have "succ_ev ?base ?l' = succ_ev ?base ?l" by (auto simp: succ_ev_def)
  ultimately show ?thesis using proc e(4) by auto
qed

text \<open>Data that are not understood end the thread before anything is taken off the list.\<close>

lemma process_events_faults:
  assumes rep: "el_rep s (x # xs) D"
    and read: "read_all nc type_of (map (container_at (event_list s) (el s)) (D (OFFSET_TO_POINTER (event_list s) x))) (new_reading pm) = Inl e"
  shows "process_events nc type_of (event_list s) (el s) pm = Some (Inl e)"
proof -
  let ?base = "event_list s" and ?l = "el s"
  let ?a = "OFFSET_TO_POINTER ?base x"
  have base: "base_ok ?base" and lay: "layout ?base ?l" and ev: "ev_chain ?base ?l (x # xs)" and dc: "dc_chains ?base ?l D"
    using rep by (auto simp: el_rep_def)
  from ev obtain e' where e: "el_events ?l ?a = Some e'" "el_head ?l = x" "x \<noteq> 0" by (auto simp: ev_chain_def succ_ev_def)
  have a: "?a \<in> dom (el_events ?l)" using e(1) by blast
  have da: "deref (el_events ?l) ?a = Inr e'" using e layout_addr(1)[OF lay base] by (auto simp: objs_def deref_def)
  have chain: "lseg (succ_dc ?base ?l) (ev_head e') (D ?a) NULL" using dc e(1) unfolding dc_chains_def by blast
  have nn: "\<forall>off \<in> set (D ?a). OFFSET_TO_POINTER ?base off \<noteq> NULL"
    using layout_addr(1)[OF lay base] dc_chains_dom[OF dc a] by (auto simp: objs_def)
  have "read_containers nc type_of ?base ?l (ev_head e') (new_reading pm) = Some (Inl e)"
    unfolding read_containers_chain[OF chain nn] read by (simp only: fbind_Inl)
  then show ?thesis by (simp only: process_events_def e(2,3) da if_False sum.case option.map fbind_Inl)
qed

text \<open>A container as the driver wrote it.\<close>

definition datum_of :: "DataContainer \<Rightarrow> u32 \<times> u32 \<times> u8 option list" where
  "datum_of c = (dc_key c, dc_type c, dc_data c)"

lemma container_word_le_bytes: "container_word (map Some (le_bytes32 w)) = Inr w"
  by (simp add: container_word_def le_bytes32_def word32_of_le_bytes)

lemma container_text_NUL: "0 \<notin> set s \<Longrightarrow> container_text (map Some (s @ [0])) = Inr s"
  by (induction s) auto

lemma read_all_state_data:
  assumes "map datum_of cs = state_data c" "getProcessPath (nc_paths nc) (nc_query nc) pm (process_id c) = Inr (path, pm')"
  shows "read_all nc type_of cs (new_reading pm) =
     Inr \<lparr>rd_process_id = process_id c, rd_process_path = path, rd_type = type_of (state_code (state c)) [],
          rd_address = map ucast (ip_text (remote_node_address c)), rd_manager = pm'\<rparr>"
proof -
  obtain c0 c1 c2 c3 where cs: "cs = [c0, c1, c2, c3]"
    using arg_cong[OF assms(1), of length] by (auto simp: state_data_def length_Suc_conv)
  have d: "dc_key c0 = 0" "dc_data c0 = map Some (le_bytes32 (state_code (state c)))" "dc_key c1 = 1"
    "dc_key c2 = 2" "dc_data c2 = map Some (ip_text (remote_node_address c) @ [0])"
    "dc_key c3 = 3" "dc_data c3 = map Some (le_bytes32 (process_id c))"
    using assms(1) by (simp_all add: cs state_data_def datum_of_def)
  show ?thesis
    using assms(2) ip_text_NUL[of "remote_node_address c"]
    by (simp add: cs read_container_def d container_word_le_bytes container_text_NUL new_reading_def
        multiByteStringToWideString_def del: map_append)
qed

text \<open>What the states of a connection are called, and what is signalled for one.\<close>

definition tcp_event_type :: "ConnectionState \<Rightarrow> u16 list" where
  "tcp_event_type st =
     (case st of TCP_STATE_ESTABLISHED \<Rightarrow> wide ''tcp-connection'' | TCP_STATE_LISTEN \<Rightarrow> wide ''tcp-listening'' | _ \<Rightarrow> [])"

definition udp_event_type :: "ConnectionState \<Rightarrow> u16 list" where
  "udp_event_type st =
     (case st of UDP_STATE_SEND \<Rightarrow> wide ''udp-connection'' | UDP_STATE_SEND_DATAGRAM \<Rightarrow> wide ''udp-connection''
      | UDP_STATE_RECEIVE \<Rightarrow> wide ''udp-listening'' | UDP_STATE_RECEIVE_DATAGRAM \<Rightarrow> wide ''udp-listening'' | _ \<Rightarrow> [])"

lemma type_of_state_code: "tcp_type (state_code st) [] = tcp_event_type st" "udp_type (state_code st) [] = udp_event_type st"
  unfolding tcp_type_def udp_type_def client_code_driver
  by (cases st; simp add: state_code_def all_states_def tcp_event_type_def udp_event_type_def)+

definition reported :: "'r net_client \<Rightarrow> u16 list \<Rightarrow> u32 \<Rightarrow> u16 list \<Rightarrow> u16 list \<Rightarrow> net_signal list" where
  "reported nc event_type pid path address =
     (if event_type = [] \<or> isEventAllowed (nc_matches nc) (nc_permissions nc) event_type path address then []
      else [\<lparr>ns_type = event_type, ns_time = nc_time nc, ns_process_id = pid, ns_process_path = path, ns_address = address\<rparr>])"

lemma process_events_published:
  assumes rep: "el_rep s (x # xs) D" and data: "read_data s (OFFSET_TO_POINTER (event_list s) x) = Some (state_data c)"
    and path: "getProcessPath (nc_paths nc) (nc_query nc) pm (process_id c) = Inr (path, pm')"
  shows "\<exists>l'. process_events nc type_of (event_list s) (el s) pm =
       Some (Inr (reported nc (type_of (state_code (state c)) []) (process_id c) path (map ucast (ip_text (remote_node_address c))), l', pm')) \<and>
     read_events (s\<lparr>el := l'\<rparr>) = Some (map (OFFSET_TO_POINTER (event_list s)) xs) \<and>
     (\<forall>b. read_data (s\<lparr>el := l'\<rparr>) b = read_data s b)"
proof -
  let ?base = "event_list s" and ?l = "el s"
  let ?a = "OFFSET_TO_POINTER ?base x"
  have ev: "ev_chain ?base ?l (x # xs)" and dc: "dc_chains ?base ?l D" using rep by (auto simp: el_rep_def)
  from ev obtain e where e: "el_events ?l ?a = Some e" by (auto simp: ev_chain_def succ_ev_def)
  have ea: "?a \<in> dom (el_events ?l)" using e by blast
  have "datum_at ?base ?l off = datum_of (container_at ?base ?l off)" if "off \<in> set (D ?a)" for off
    using dc_chains_dom[OF dc ea that] by (auto simp: datum_at_def datum_of_def container_at_def)
  then have "map datum_of (map (container_at ?base ?l) (D ?a)) = map (datum_at ?base ?l) (D ?a)" by simp
  also have "\<dots> = state_data c" using read_data_rep[OF rep e] data by simp
  finally have ds: "map datum_of (map (container_at ?base ?l) (D ?a)) = state_data c" .
  from process_events_rep[OF rep read_all_state_data[OF ds path, of type_of]]
  obtain l' where l': "process_events nc type_of ?base ?l pm =
      Some (Inr (net_signals nc \<lparr>rd_process_id = process_id c, rd_process_path = path, rd_type = type_of (state_code (state c)) [],
          rd_address = map ucast (ip_text (remote_node_address c)), rd_manager = pm'\<rparr>, l', pm'))"
      "el_events l' = el_events ?l" "el_containers l' = el_containers ?l" "lseg (succ_ev ?base l') (el_head l') xs NULL" by auto
  have "read_events (s\<lparr>el := l'\<rparr>) = Some (map (OFFSET_TO_POINTER ?base) xs)"
    using walk_lseg[OF l'(4)] by (simp add: read_events_def)
  moreover have "succ_dc ?base l' = succ_dc ?base ?l" "datum_at ?base l' = datum_at ?base ?l"
    using l'(3) by (auto simp: succ_dc_def datum_at_def)
  then have "read_data (s\<lparr>el := l'\<rparr>) b = read_data s b" for b using l'(2) by (simp add: read_data_def)
  ultimately show ?thesis using l'(1) by (intro exI[of _ l']) (auto simp: net_signals_def reported_def)
qed

section \<open>An example\<close>

text \<open>
  A list with two events: the first at block 64, with the data of an established connection in the
  blocks behind it, the second, without data, at block 32.
\<close>

definition example_connection :: Connection where
  "example_connection =
     \<lparr>local_node = 1, remote_node = 2, local_node_address = [14, 0, 2, 0, 0, 80, 10, 0, 0, 1],
      remote_node_address = [14, 0, 2, 0, 0, 80, 10, 0, 0, 2], state = TCP_STATE_ESTABLISHED, process_id = 8\<rparr>"

definition example_container :: "u32 \<Rightarrow> u32 \<Rightarrow> u8 list \<Rightarrow> DataContainer" where
  "example_container nxt key bytes =
     \<lparr>dc_next = nxt, dc_key = key, dc_type = key, dc_size = of_nat (length bytes), dc_data = map Some bytes\<rparr>"

definition example_lists :: EventList where
  "example_lists =
     \<lparr>el_head = 5144, el_tail = 4632, bitmap = (\<lambda>i. 32 \<le> i \<and> i < 34 \<or> 64 \<le> i \<and> i < 74), bitmap_hint_index = 32,
      el_events = [0x80001418 \<mapsto> \<lparr>ev_next = 4632, ev_previous = 0, ev_ready = 1, ev_head = 5176, ev_tail = 5272\<rparr>,
                   0x80001218 \<mapsto> \<lparr>ev_next = 0, ev_previous = 5144, ev_ready = 1, ev_head = 0, ev_tail = 0\<rparr>],
      el_containers =
        [0x80001438 \<mapsto> example_container 5208 0 (le_bytes32 (state_code TCP_STATE_ESTABLISHED)),
         0x80001458 \<mapsto> example_container 5240 1 (ip_text (local_node_address example_connection) @ [0]),
         0x80001478 \<mapsto> example_container 5272 2 (ip_text (remote_node_address example_connection) @ [0]),
         0x80001498 \<mapsto> example_container 0 3 (le_bytes32 8)]\<rparr>"

definition example_shared :: SharedEventList where
  "example_shared = sel_demo\<lparr>el := example_lists\<rparr>"

definition example_data :: "addr \<Rightarrow> u32 list" where
  "example_data a = (if a = 0x80001418 then [5176, 5208, 5240, 5272] else [])"

lemma example_size:
  "dc_size (example_container n k bytes) = of_nat (length bytes)" "dc_next (example_container n k bytes) = n"
  "dc_key (example_container n k bytes) = k" "dc_type (example_container n k bytes) = k"
  "dc_data (example_container n k bytes) = map Some bytes"
  by (simp_all add: example_container_def)

lemma example_texts: "length (ip_text (local_node_address example_connection)) = 11"
  "length (ip_text (remote_node_address example_connection)) = 11"
  by (code_simp)+

lemma example_objs: "objs example_lists = {0x80001418, 0x80001218, 0x80001438, 0x80001458, 0x80001478, 0x80001498}"
  by (auto simp: objs_def example_lists_def)

lemma example_runs:
  "run 0x80000000 0x80001418 (obj_size example_lists 0x80001418) = {64..<66}"
  "run 0x80000000 0x80001218 (obj_size example_lists 0x80001218) = {32..<34}"
  "run 0x80000000 0x80001438 (obj_size example_lists 0x80001438) = {66..<68}"
  "run 0x80000000 0x80001458 (obj_size example_lists 0x80001458) = {68..<70}"
  "run 0x80000000 0x80001478 (obj_size example_lists 0x80001478) = {70..<72}"
  "run 0x80000000 0x80001498 (obj_size example_lists 0x80001498) = {72..<74}"
  by (simp_all add: run_def blk_def obj_size_def example_lists_def example_size example_texts)

lemma example_layout: "layout 0x80000000 example_lists"
proof -
  have a: "\<exists>p < 32768. x = block_addr 0x80000000 p" if "x \<in> objs example_lists" for x
  proof -
    have "x = block_addr 0x80000000 64 \<or> x = block_addr 0x80000000 32 \<or> x = block_addr 0x80000000 66 \<or>
      x = block_addr 0x80000000 68 \<or> x = block_addr 0x80000000 70 \<or> x = block_addr 0x80000000 72"
      using that by (simp add: example_objs block_addr_def)
    then show ?thesis by (elim disjE) (rule exI, rule conjI[rotated], assumption, simp)+
  qed
  have d: "dom (el_events example_lists) \<inter> dom (el_containers example_lists) = {}" by (auto simp: example_lists_def)
  have b: "\<forall>i \<in> run 0x80000000 x (obj_size example_lists x). i < 32768 \<and> bitmap example_lists i" if "x \<in> objs example_lists" for x
    using that unfolding example_objs by (elim insertE emptyE) (auto simp: example_runs, simp_all add: example_lists_def)
  have c: "\<forall>x \<in> objs example_lists. \<forall>y \<in> objs example_lists. x \<noteq> y \<longrightarrow>
      run 0x80000000 x (obj_size example_lists x) \<inter> run 0x80000000 y (obj_size example_lists y) = {}"
    unfolding example_objs by (simp add: example_runs ivl_disj_int)
  show ?thesis unfolding layout_def using a b c d by blast
qed

lemma example_rep: "el_rep example_shared [5144, 4632] example_data"
proof -
  have ev: "ev_chain 0x80000000 example_lists [5144, 4632]"
    by (auto simp: ev_chain_def succ_ev_def example_lists_def OFFSET_TO_POINTER_def ADDRESS_TO_OFFSET_def last_or_NULL_def split: if_splits)
  have "lseg (succ_dc 0x80000000 example_lists) 5176 [5176, 5208, 5240, 5272] 0"
    by (simp add: succ_dc_def example_lists_def example_size OFFSET_TO_POINTER_def)
  then have dc: "dc_chains 0x80000000 example_lists example_data"
    by (auto simp: dc_chains_def example_data_def last_or_NULL_def example_lists_def split: if_splits)
  show ?thesis
    using example_layout ev dc
    by (simp add: el_rep_def example_shared_def sel_demo_def base_ok_def BUFFER_SIZE_def)
qed

lemma example_published:
  "el_ok example_shared" "read_events example_shared = Some [0x80001418, 0x80001218]"
  "read_data example_shared 0x80001418 = Some (state_data example_connection)"
proof -
  show "el_ok example_shared" using example_rep by (auto simp: el_ok_def)
  have base: "event_list example_shared = 0x80000000" "el example_shared = example_lists"
    by (simp_all add: example_shared_def sel_demo_def)
  show "read_events example_shared = Some [0x80001418, 0x80001218]"
    using read_events_rep[OF example_rep] by (simp add: base OFFSET_TO_POINTER_def)
  have "el_events (el example_shared) 0x80001418 =
      Some \<lparr>ev_next = 4632, ev_previous = 0, ev_ready = 1, ev_head = 5176, ev_tail = 5272\<rparr>"
    unfolding base by (simp add: example_lists_def)
  from read_data_rep[OF example_rep this]
  show "read_data example_shared 0x80001418 = Some (state_data example_connection)"
    by (simp add: base example_data_def datum_at_def OFFSET_TO_POINTER_def example_lists_def example_size state_data_def
        example_connection_def)
qed

definition example_net_client :: "u16 list net_client" where
  "example_net_client = \<lparr>nc_permissions = Map.empty, nc_matches = (=), nc_paths = example_paths, nc_query = example_query, nc_time = wide ''now''\<rparr>"

definition example_processes :: process_manager where
  "example_processes = empty_manager\<lparr>pm_processMap := [8 \<mapsto> wide ''C:'']\<rparr>"

lemma example_path:
  "getProcessPath (nc_paths example_net_client) (nc_query example_net_client) example_processes (process_id example_connection) =
     Inr (wide ''C:'', example_processes\<lparr>pm_cacheHits := 1\<rparr>)"
  by (simp add: getProcessPath_def example_connection_def example_processes_def empty_manager_def tries.simps(2)[where n = 9, simplified])

section \<open>Properties\<close>

text \<open>
  C7: What the connection driver publishes, the client reports. When the first event of a
  well-formed list holds the data the driver writes for a change of state, the reader takes
  that event off the list, leaves the other events and all data as they are, asks for the path of the
  process and signals exactly one connection event: of the type that belongs to the state, with the
  process of the connection and the text of its remote address, unless the state has no type
  or the exclusion lists allow the event. It returns for every list of containers.
\<close>

theorem published_state_reported:
  assumes "el_ok s" "read_events s = Some (event # evs)" "read_data s event = Some (state_data c)"
    and "getProcessPath (nc_paths nc) (nc_query nc) pm (process_id c) = Inr (path, pm')"
  shows "(\<exists>s'. processTcpEvents nc s pm =
         Some (Inr (reported nc (tcp_event_type (state c)) (process_id c) path (map ucast (ip_text (remote_node_address c))), s', pm')) \<and>
       read_events s' = Some evs \<and> (\<forall>b. read_data s' b = read_data s b)) \<and>
     (\<exists>s'. processUdpEvents nc s pm =
         Some (Inr (reported nc (udp_event_type (state c)) (process_id c) path (map ucast (ip_text (remote_node_address c))), s', pm')) \<and>
       read_events s' = Some evs \<and> (\<forall>b. read_data s' b = read_data s b))"
proof -
  obtain xs D where rep: "el_rep s xs D" using assms(1) by (auto simp: el_ok_def)
  then have evs: "event # evs = map (OFFSET_TO_POINTER (event_list s)) xs" using read_events_rep assms(2) by fastforce
  then obtain y ys where y: "xs = y # ys" "event = OFFSET_TO_POINTER (event_list s) y" "evs = map (OFFSET_TO_POINTER (event_list s)) ys" by auto
  note published = process_events_published[OF rep[unfolded y(1)] assms(3)[unfolded y(2)] assms(4)]
  have "\<exists>s'. processTcpEvents nc s pm =
       Some (Inr (reported nc (tcp_event_type (state c)) (process_id c) path (map ucast (ip_text (remote_node_address c))), s', pm')) \<and>
     read_events s' = Some evs \<and> (\<forall>b. read_data s' b = read_data s b)"
    using published[of tcp_type] unfolding y(3) type_of_state_code by (auto simp: processTcpEvents_def)
  moreover have "\<exists>s'. processUdpEvents nc s pm =
       Some (Inr (reported nc (udp_event_type (state c)) (process_id c) path (map ucast (ip_text (remote_node_address c))), s', pm')) \<and>
     read_events s' = Some evs \<and> (\<forall>b. read_data s' b = read_data s b)"
    using published[of udp_type] unfolding y(3) type_of_state_code by (auto simp: processUdpEvents_def)
  ultimately show ?thesis by blast
qed

theorem published_state_reported_witness:
  "\<exists>s'. processTcpEvents example_net_client example_shared example_processes =
     Some (Inr ([\<lparr>ns_type = wide ''tcp-connection'', ns_time = wide ''now'', ns_process_id = 8, ns_process_path = wide ''C:'',
                  ns_address = wide ''10.0.0.2:80''\<rparr>], s', example_processes\<lparr>pm_cacheHits := 1\<rparr>)) \<and>
     read_events s' = Some [0x80001218]"
proof -
  have address: "map ucast (ip_text (remote_node_address example_connection)) = wide ''10.0.0.2:80''" by code_simp
  have "reported example_net_client (tcp_event_type (state example_connection)) (process_id example_connection) (wide ''C:'') (wide ''10.0.0.2:80'') =
      [\<lparr>ns_type = wide ''tcp-connection'', ns_time = wide ''now'', ns_process_id = 8, ns_process_path = wide ''C:'', ns_address = wide ''10.0.0.2:80''\<rparr>]"
    by (simp add: reported_def tcp_event_type_def example_connection_def example_net_client_def isEventAllowed_def wide_def)
  then show ?thesis
    using published_state_reported[OF example_published example_path] unfolding address by auto
qed



end
