(* ===== verification/Chain.thy ===== *)
theory Chain
  imports Bytes
begin

text \<open>
  Records of different lengths laid out one after the other in memory, each beginning with the
  offset of the next one, 0 in the last: the form in which the ring list keeps the data of an
  event and the events of a list, so that the reader in another address space can follow them.
\<close>

section \<open>The layout\<close>

text \<open>The records \<open>xs\<close> without their first word; the first one is at the offset \<open>off\<close>.\<close>

fun chained :: "nat \<Rightarrow> u8 list list \<Rightarrow> u32 \<Rightarrow> u8 list" where
  "chained off [] nx = []"
| "chained off (x # xs) nx =
     le_bytes32 (if xs = [] then nx else of_nat (off + 4 + length x)) @ x @ chained (off + 4 + length x) xs nx"

definition chain_length :: "u8 list list \<Rightarrow> nat" where
  "chain_length xs = sum_list (map (\<lambda>x. 4 + length x) xs)"

definition chain_head :: "nat \<Rightarrow> u8 list list \<Rightarrow> u32" where
  "chain_head off xs = (if xs = [] then 0 else of_nat off)"

definition chain_tail :: "nat \<Rightarrow> u8 list list \<Rightarrow> u32" where
  "chain_tail off xs = (if xs = [] then 0 else of_nat (off + chain_length (butlast xs)))"

lemma chain_length_simps [simp]:
  "chain_length [] = 0" "chain_length (x # xs) = 4 + length x + chain_length xs"
  "chain_length (xs @ ys) = chain_length xs + chain_length ys"
  by (simp_all add: chain_length_def)

lemma length_chained [simp]: "length (chained off xs nx) = chain_length xs"
  by (induction off xs nx rule: chained.induct) simp_all

lemma chain_length_butlast: "xs \<noteq> [] \<Longrightarrow> chain_length (butlast xs) + 4 \<le> chain_length xs"
  by (induction xs) auto

lemma chained_snoc:
  "chained off (xs @ [x]) nx = chained off xs (of_nat (off + chain_length xs)) @ le_bytes32 nx @ x"
  by (induction off xs nx rule: chained.induct) (simp_all add: add_ac)

text \<open>Making the last record point somewhere else.\<close>

lemma write32_last:
  assumes "xs \<noteq> []"
  shows "write32 (pre @ chained off xs nx @ post) (length pre + chain_length (butlast xs)) w =
     Inr (pre @ chained off xs w @ post)"
proof -
  obtain ys y where s: "xs = ys @ [y]" using assms by (cases xs rule: rev_cases) auto
  show ?thesis
    using write32_at[of "length pre + chain_length ys" "pre @ chained off ys (of_nat (off + chain_length ys))" nx "y @ post" w]
    by (simp add: s chained_snoc)
qed

lemma chain_head_snoc [simp]:
  "chain_head off (xs @ [x]) = (if xs = [] then of_nat off else chain_head off xs)"
  by (simp add: chain_head_def)

lemma chain_tail_snoc [simp]: "chain_tail off (xs @ [x]) = of_nat (off + chain_length xs)"
  by (simp add: chain_tail_def)

lemma chain_head_0: "0 < off \<Longrightarrow> off < 2 ^ 32 \<Longrightarrow> chain_head off xs = 0 \<longleftrightarrow> xs = []"
  by (auto simp: chain_head_def word_of_nat_eq_0_iff nat_dvd_not_less)

lemma unat_chain_tail:
  assumes "xs \<noteq> []" "off + chain_length xs < 2 ^ 32"
  shows "unat (chain_tail off xs) = off + chain_length (butlast xs)"
  using assms chain_length_butlast[of xs] by (simp add: chain_tail_def unat_of_nat del: of_nat_add)

lemma chain_tail_0:
  assumes "0 < off" "off + chain_length xs < 2 ^ 32"
  shows "chain_tail off xs = 0 \<longleftrightarrow> xs = []"
proof (cases "xs = []")
  case False
  then have "unat (chain_tail off xs) \<noteq> 0" using unat_chain_tail[OF False assms(2)] assms(1) by simp
  then show ?thesis using False by fastforce
qed (simp add: chain_tail_def)

section \<open>Following the offsets\<close>

text \<open>None: the offsets lead round in a circle.\<close>

partial_function (option) follow :: "(u32 \<Rightarrow> fault + 'a \<times> u32) \<Rightarrow> u32 \<Rightarrow> (fault + 'a list) option" where
  "follow rd off =
     (if off = 0 then Some (Inr [])
      else case rd off of
        Inl e \<Rightarrow> Some (Inl e)
      | Inr (x, nx) \<Rightarrow> Option.bind (follow rd nx) (\<lambda>rest.
          case rest of Inl e \<Rightarrow> Some (Inl e) | Inr xs \<Rightarrow> Some (Inr (x # xs))))"

lemma follow_circle:
  assumes "rd off = Inr (x, off)" "off \<noteq> 0"
  shows "follow rd off = None"
proof -
  have "rd' = rd \<longrightarrow> o' \<noteq> off" if "follow rd' o' = Some r" for rd' o' r
  proof (rule follow.raw_induct[OF _ that, where P = "\<lambda>rd' o' r. rd' = rd \<longrightarrow> o' \<noteq> off"])
    fix g p q r'
    assume g: "\<And>rd' o' y. g rd' o' = Some y \<Longrightarrow> rd' = rd \<longrightarrow> o' \<noteq> off"
      and e: "(if q = 0 then Some (Inr [])
        else case p q of Inl e \<Rightarrow> Some (Inl e)
        | Inr (x, nx) \<Rightarrow> Option.bind (g p nx) (\<lambda>rest. case rest of Inl e \<Rightarrow> Some (Inl e) | Inr xs \<Rightarrow> Some (Inr (x # xs)))) = Some r'"
    show "p = rd \<longrightarrow> q \<noteq> off"
    proof (intro impI notI)
      assume "p = rd" "q = off"
      with e assms obtain r2 where "g rd off = Some r2" by (auto simp: bind_eq_Some_conv)
      then show False using g by blast
    qed
  qed
  then show ?thesis by (cases "follow rd off") auto
qed

text \<open>
  A kind of record: what stands in its bytes, and the reader that finds it there together with
  the offset of the next one; \<open>ends\<close> says what may stand behind the last one.
\<close>

locale chained_records =
  fixes ok :: "'e \<Rightarrow> bool" and body :: "'e \<Rightarrow> u8 list" and rd :: "u8 list \<Rightarrow> u32 \<Rightarrow> fault + 'e \<times> u32"
    and ends :: "u8 list \<Rightarrow> bool"
  assumes rd_at: "ok e \<Longrightarrow> unat off = length pre \<Longrightarrow> length (pre @ le_bytes32 nx @ body e @ post) < 2 ^ 32 \<Longrightarrow>
    (if nx = 0 then ends post else unat nx = length (pre @ le_bytes32 nx @ body e)) \<Longrightarrow>
    rd (pre @ le_bytes32 nx @ body e @ post) off = Inr (e, nx)"
begin

lemma follow_chained:
  assumes "\<forall>e \<in> set es. ok e" "pre \<noteq> []" "length (pre @ chained (length pre) (map body es) 0 @ post) < 2 ^ 32" "ends post"
  shows "follow (rd (pre @ chained (length pre) (map body es) 0 @ post)) (chain_head (length pre) (map body es)) = Some (Inr es)"
  using assms
proof (induction es arbitrary: pre)
  case Nil
  show ?case by (subst follow.simps) (simp add: chain_head_def)
next
  case (Cons e es)
  define nx :: u32 where "nx = (if es = [] then 0 else of_nat (length pre + 4 + length (body e)))"
  let ?pre = "pre @ le_bytes32 nx @ body e"
  let ?mem = "pre @ chained (length pre) (map body (e # es)) 0 @ post"
  have m: "?mem = ?pre @ chained (length ?pre) (map body es) 0 @ post" by (simp add: add_ac nx_def)
  have nx1: "unat nx = length pre + 4 + length (body e)" if "es \<noteq> []"
    using that Cons.prems(3) by (simp add: nx_def unat_of_nat del: of_nat_add)
  then have nx0: "nx = 0 \<longleftrightarrow> es = []" by (cases "es = []") (auto simp: nx_def)
  have "unat (of_nat (length pre) :: u32) = length pre" using Cons.prems(3) by (simp add: unat_of_nat)
  then have "rd (pre @ le_bytes32 nx @ body e @ chained (length ?pre) (map body es) 0 @ post) (of_nat (length pre)) = Inr (e, nx)"
    using Cons.prems(1) Cons.prems(3)[unfolded m] Cons.prems(4) nx0 nx1 by (intro rd_at) simp_all
  then have r: "rd ?mem (of_nat (length pre)) = Inr (e, nx)" unfolding m by simp
  have nz: "(of_nat (length pre) :: u32) \<noteq> 0"
    using Cons.prems(2,3) by (simp add: word_of_nat_eq_0_iff nat_dvd_not_less)
  have hd: "nx = chain_head (length ?pre) (map body es)" by (simp add: nx_def chain_head_def add_ac)
  have "length (?pre @ chained (length ?pre) (map body es) 0 @ post) < 2 ^ 32" using Cons.prems(3) unfolding m .
  then have "follow (rd (?pre @ chained (length ?pre) (map body es) 0 @ post)) (chain_head (length ?pre) (map body es)) = Some (Inr es)"
    using Cons.IH[of ?pre] Cons.prems(1,2,4) by simp
  then have ih: "follow (rd ?mem) nx = Some (Inr es)" unfolding m[symmetric] hd[symmetric] .
  show ?case using r nz ih by (subst follow.simps) (simp add: chain_head_def)
qed

end

text \<open>The bytes themselves, up to the next record or to the end of the memory.\<close>

definition read_body :: "u8 list \<Rightarrow> u32 \<Rightarrow> fault + u8 list \<times> u32" where
  "read_body mem off =
     fbind (read32 mem (unat off)) (\<lambda>nx.
       Inr (take ((if nx = 0 then length mem else unat nx) - (unat off + 4)) (drop (unat off + 4) mem), nx))"

interpretation bodies: chained_records "\<lambda>_. True" "\<lambda>x. x" read_body "\<lambda>post. post = []"
proof
  fix e pre post :: "u8 list" and off nx :: u32
  let ?m = "pre @ le_bytes32 nx @ e @ post"
  assume a: "unat off = length pre" "if nx = 0 then post = [] else unat nx = length (pre @ le_bytes32 nx @ e)"
  have "read32 ?m (unat off) = Inr nx" using a(1) by (intro read32_at) simp
  then show "read_body ?m off = Inr (e, nx)" using a by (auto simp: read_body_def split: if_splits)
qed

end
