(* ===== verification/EventBuffers.thy ===== *)
theory EventBuffers
  imports Chain
begin

text \<open>
  Common/EventRingList.h and the first half of Common/EventRingList.c: the structures of the
  ring list, the buffers in which a driver puts an event together before it goes into a list,
  the data of such an event as bytes, and the keys. Offsets are relative to the event.
\<close>

section \<open>The structures\<close>

datatype DataType = int_t | uint_t | float_t | void_t | long_t | ulong_t | pwchar_t | unicode_string_t

primrec data_type_code :: "DataType \<Rightarrow> u32" where
  "data_type_code int_t = 0"
| "data_type_code uint_t = 1"
| "data_type_code float_t = 2"
| "data_type_code void_t = 3"
| "data_type_code long_t = 4"
| "data_type_code ulong_t = 5"
| "data_type_code pwchar_t = 6"
| "data_type_code unicode_string_t = 7"

definition MAX_EVENT_BUFFERS :: nat where "MAX_EVENT_BUFFERS = 256"
definition MAX_EVENT_LISTS :: nat where "MAX_EVENT_LISTS = 16"
definition sizeof_Key :: u32 where "sizeof_Key = 12"
definition sizeof_EventData :: u32 where "sizeof_EventData = 16"
definition sizeof_Event :: u32 where "sizeof_Event = 12"
definition sizeof_EventBuffer :: u32 where "sizeof_EventBuffer = 24"
definition sizeof_EventList :: u32 where "sizeof_EventList = 36"

lemma ring_sizes [simp]:
  "MAX_EVENT_BUFFERS = 256" "MAX_EVENT_LISTS = 16" "sizeof_Key = 12" "sizeof_EventData = 16"
  "sizeof_Event = 12" "sizeof_EventBuffer = 24" "sizeof_EventList = 36"
  by (simp_all add: MAX_EVENT_BUFFERS_def MAX_EVENT_LISTS_def sizeof_Key_def sizeof_EventData_def
      sizeof_Event_def sizeof_EventBuffer_def sizeof_EventList_def)

text \<open>\<open>key\<close> is the name with its NUL; the next key is the next one of the list.\<close>

record Key =
  key_addr :: addr
  key_hash :: u32
  key_length :: u32
  key :: "u8 list"

text \<open>\<open>event\<close> is the offset of the event in the buffer, None the null pointer.\<close>

record EventBuffer =
  event :: "u32 option"
  eb_id :: u32
  in_use :: bool
  buffer_used :: u32
  buffer_remaining :: u32
  buffer_length :: u32
  buffer :: "u8 list"

text \<open>\<open>locked\<close>: somebody holds the spin lock of the list. The next list is always NULL.\<close>

record EventList =
  head_event_offset :: u32
  tail_event_offset :: u32
  locked :: bool
  ready :: bool
  space_used :: u32
  space_remaining :: u32
  data_length :: u32
  data :: "u8 list"

text \<open>
  \<open>read_list\<close> and \<open>write_list\<close> are the entries of the array whose pointers they hold. \<open>pool\<close> has
  the answers to the requests for memory: NULL, or an address and what the memory holds. The
  lock of the ring list is never held across operations.
\<close>

record EventRingList =
  num_event_lists :: u32
  event_lists :: "EventList option list"
  read_list :: nat
  write_list :: nat
  read_position :: u32
  write_position :: u32
  event_list_length :: u32
  key_list :: "Key list"
  key_list_length :: u32
  allocating_buffers :: bool
  event_buffer_length :: u32
  num_event_buffers :: u32
  event_buffers :: "EventBuffer option list"
  pool :: "(addr \<times> (nat \<Rightarrow> u8)) option list"

definition next_block :: "EventRingList \<Rightarrow> (addr \<times> (nat \<Rightarrow> u8)) option \<times> EventRingList" where
  "next_block r = (case pool r of [] \<Rightarrow> (None, r) | a # as \<Rightarrow> (a, r\<lparr>pool := as\<rparr>))"

section \<open>Event buffers\<close>

text \<open>The size of the block is a 32-bit sum; when it wraps around, clearing leaves the block.\<close>

definition CreateEventBuffer :: "EventRingList \<Rightarrow> fault + EventBuffer option \<times> EventRingList" where
  "CreateEventBuffer r =
     (case next_block r of
        (None, r1) \<Rightarrow> Inr (None, r1)
      | (Some _, r1) \<Rightarrow>
          if sizeof_EventBuffer + event_buffer_length r < sizeof_EventBuffer then Inl OutOfBounds
          else Inr (Some \<lparr>event = None, eb_id = num_event_buffers r, in_use = False, buffer_used = 0,
                          buffer_remaining = event_buffer_length r, buffer_length = event_buffer_length r,
                          buffer = replicate (unat (event_buffer_length r)) 0\<rparr>, r1))"

fun create_buffers :: "nat \<Rightarrow> nat \<Rightarrow> EventRingList \<Rightarrow> fault + EventRingList" where
  "create_buffers i 0 r = Inr r"
| "create_buffers i (Suc n) r =
     (if event_buffers r ! i \<noteq> None then create_buffers (Suc i) n r
      else case CreateEventBuffer r of
        Inl e \<Rightarrow> Inl e
      | Inr (None, r1) \<Rightarrow> Inr r1
      | Inr (Some b, r1) \<Rightarrow>
          create_buffers (Suc i) n
            (r1\<lparr>event_buffers := (event_buffers r1)[i := Some b], num_event_buffers := num_event_buffers r1 + 1\<rparr>))"

definition CreateEventBuffers :: "EventRingList \<Rightarrow> u32 \<Rightarrow> fault + EventRingList" where
  "CreateEventBuffers r number_buffers =
     (if unat number_buffers > MAX_EVENT_BUFFERS then Inr r
      else if allocating_buffers r then Inr r
      else fbind (create_buffers 0 (unat number_buffers) (r\<lparr>allocating_buffers := True\<rparr>))
             (\<lambda>r1. Inr (r1\<lparr>allocating_buffers := False\<rparr>)))"

definition buffer_at :: "EventRingList \<Rightarrow> u32 \<Rightarrow> fault + EventBuffer" where
  "buffer_at r i =
     (if unat i < length (event_buffers r) then
        case event_buffers r ! unat i of None \<Rightarrow> Inl NullDeref | Some b \<Rightarrow> Inr b
      else Inl OutOfBounds)"

definition put_buffer :: "EventRingList \<Rightarrow> u32 \<Rightarrow> EventBuffer \<Rightarrow> EventRingList" where
  "put_buffer r i b = r\<lparr>event_buffers := (event_buffers r)[unat i := Some b]\<rparr>"

text \<open>The scan for a buffer that is not in use: the next entry, and how many are left.\<close>

fun find_buffer :: "EventRingList \<Rightarrow> u32 \<Rightarrow> nat \<Rightarrow> fault + (u32 \<times> EventBuffer) option" where
  "find_buffer r i 0 = Inr None"
| "find_buffer r i (Suc n) =
     fbind (buffer_at r i) (\<lambda>b. if in_use b then find_buffer r (i + 1) n else Inr (Some (i, b)))"

text \<open>The event is not cleared: only room is taken for it.\<close>

definition begin_event :: "EventBuffer \<Rightarrow> EventBuffer" where
  "begin_event b = b\<lparr>in_use := True, event := Some (buffer_used b), buffer_used := buffer_used b + sizeof_Event,
                     buffer_remaining := buffer_remaining b - sizeof_Event\<rparr>"

text \<open>The loop goes on until there is a buffer; None: for ever.\<close>

partial_function (option) CreateEvent :: "EventRingList \<Rightarrow> (fault + u32 \<times> EventRingList) option" where
  "CreateEvent r =
     (case find_buffer r 0 (unat (num_event_buffers r)) of
        Inl e \<Rightarrow> Some (Inl e)
      | Inr (Some (i, b)) \<Rightarrow> Some (Inr (i, put_buffer r i (begin_event b)))
      | Inr None \<Rightarrow>
          (case CreateEventBuffers r (push_bit 1 (num_event_buffers r)) of
             Inl e \<Rightarrow> Some (Inl e)
           | Inr r1 \<Rightarrow> CreateEvent r1))"

definition RemoveEvent :: "EventRingList \<Rightarrow> u32 \<Rightarrow> fault + EventRingList" where
  "RemoveEvent r event_id =
     fbind (buffer_at r event_id) (\<lambda>b.
       Inr (put_buffer r event_id (b\<lparr>buffer_used := 0, buffer_remaining := event_buffer_length r, in_use := False\<rparr>)))"

definition ResetEventBuffer :: "EventBuffer \<Rightarrow> EventBuffer" where
  "ResetEventBuffer b = b\<lparr>buffer_remaining := buffer_length b, buffer_used := 0, event := None, in_use := False\<rparr>"

section \<open>The data of an event\<close>

text \<open>The header of the event at \<open>ev\<close> and the last data it has are made to lead to \<open>offset\<close>.\<close>

definition link_data :: "u8 list \<Rightarrow> nat \<Rightarrow> u32 \<Rightarrow> fault + u8 list" where
  "link_data mem ev offset =
     fbind (read32 mem (ev + 4)) (\<lambda>head.
     fbind (if head = 0 then write32 mem (ev + 4) offset else Inr mem) (\<lambda>mem1.
     fbind (read32 mem1 (ev + 8)) (\<lambda>tail.
     fbind (if tail \<noteq> 0 then write32 mem1 (ev + unat tail) offset else Inr mem1) (\<lambda>mem2.
     write32 mem2 (ev + 8) offset))))"

text \<open>The words of an EventData after the first; the value comes behind them.\<close>

definition data_header :: "u32 \<Rightarrow> u32 \<Rightarrow> u32 \<Rightarrow> u8 list" where
  "data_header hash value_type value_length =
     le_bytes32 hash @ le_bytes32 value_type @ le_bytes32 value_length"

definition AddEventData ::
    "EventRingList \<Rightarrow> u32 \<Rightarrow> u32 \<Rightarrow> DataType \<Rightarrow> u8 list \<Rightarrow> u32 \<Rightarrow> fault + bool \<times> EventRingList" where
  "AddEventData r event_id hash value_type val value_length =
     fbind (buffer_at r event_id) (\<lambda>b.
       let n = sizeof_EventData + value_length
       in if n > buffer_remaining b then Inr (False, r)
          else fbind (read_bytes val 0 (unat value_length)) (\<lambda>v.
            fbind (write_bytes (buffer b) (unat (buffer_used b)) (le_bytes32 0 @ data_header hash (data_type_code value_type) value_length @ v)) (\<lambda>mem.
              case event b of
                None \<Rightarrow> Inl NullDeref
              | Some ev \<Rightarrow> fbind (link_data mem (unat ev) (buffer_used b - ev)) (\<lambda>mem1.
                  Inr (True, put_buffer r event_id (b\<lparr>buffer_used := buffer_used b + n,
                               buffer_remaining := buffer_remaining b - n, buffer := mem1\<rparr>))))))"

text \<open>The same without the value: where it goes in the buffer, None: NULL.\<close>

definition ReserveEventDataSpace ::
    "EventRingList \<Rightarrow> u32 \<Rightarrow> u32 \<Rightarrow> DataType \<Rightarrow> u32 \<Rightarrow> fault + u32 option \<times> EventRingList" where
  "ReserveEventDataSpace r event_id hash value_type value_length =
     fbind (buffer_at r event_id) (\<lambda>b.
       let n = sizeof_EventData + value_length
       in if n > buffer_remaining b then Inr (None, r)
          else fbind (write_bytes (buffer b) (unat (buffer_used b)) (le_bytes32 0 @ data_header hash (data_type_code value_type) value_length)) (\<lambda>mem.
              case event b of
                None \<Rightarrow> Inl NullDeref
              | Some ev \<Rightarrow> fbind (link_data mem (unat ev) (buffer_used b - ev)) (\<lambda>mem1.
                  Inr (Some (buffer_used b + sizeof_EventData),
                       put_buffer r event_id (b\<lparr>buffer_used := buffer_used b + n,
                               buffer_remaining := buffer_remaining b - n, buffer := mem1\<rparr>)))))"

section \<open>Keys\<close>

text \<open>A character is signed; the name ends at its NUL.\<close>

fun key_hash_from :: "u32 \<Rightarrow> u8 list \<Rightarrow> u32" where
  "key_hash_from hash [] = hash"
| "key_hash_from hash (c # cs) =
     (if c = 0 then hash else key_hash_from ((push_bit 5 hash + hash) + scast c) cs)"

definition GetKeyHash :: "u8 list \<Rightarrow> u32" where
  "GetKeyHash key_name = key_hash_from 0 key_name"

text \<open>\<open>key_name\<close> is the name without its NUL; RtlStringCbLengthA looks at 2147483647 characters.\<close>

definition AddKey :: "EventRingList \<Rightarrow> u8 list \<Rightarrow> u32 \<times> EventRingList" where
  "AddKey r key_name =
     (let hash = GetKeyHash key_name;
          len = if length key_name < 2147483647 then of_nat (length key_name) else 0
      in case next_block r of
           (None, r1) \<Rightarrow> (-1, r1)
         | (Some (a, _), r1) \<Rightarrow>
             (hash, r1\<lparr>key_list_length := key_list_length r1 + (sizeof_Key + len + 1),
                       key_list := key_list r1 @ [\<lparr>key_addr = a, key_hash = hash, key_length = len,
                                                   key = take (unat len) key_name @ [0]\<rparr>]\<rparr>))"

section \<open>What a reader finds\<close>

text \<open>An EventData at an offset of the event: key, type, value, and the offset of the next one.\<close>

definition read_data :: "u8 list \<Rightarrow> u32 \<Rightarrow> fault + (u32 \<times> u32 \<times> u8 list) \<times> u32" where
  "read_data mem off =
     fbind (read32 mem (unat off)) (\<lambda>nx.
     fbind (read32 mem (unat off + 4)) (\<lambda>hash.
     fbind (read32 mem (unat off + 8)) (\<lambda>value_type.
     fbind (read32 mem (unat off + 12)) (\<lambda>value_length.
     fbind (read_bytes mem (unat off + 16) (unat value_length)) (\<lambda>v. Inr ((hash, value_type, v), nx))))))"

definition data_body :: "u32 \<times> u32 \<times> u8 list \<Rightarrow> u8 list" where
  "data_body d = (case d of (hash, value_type, v) \<Rightarrow> data_header hash value_type (of_nat (length v)) @ v)"

definition data_ok :: "u32 \<times> u32 \<times> u8 list \<Rightarrow> bool" where
  "data_ok d \<longleftrightarrow> length (snd (snd d)) < 2 ^ 32"

lemma length_data_header [simp]: "length (data_header h t n) = 12"
  by (simp add: data_header_def)

lemma length_data_body [simp]: "length (data_body (h, t, v)) = 12 + length v"
  by (simp add: data_body_def)

lemma read_data_at:
  assumes "data_ok e" "unat off = length pre"
  shows "read_data (pre @ le_bytes32 nx @ data_body e @ post) off = Inr (e, nx)" (is "read_data ?m off = _")
proof -
  obtain h t v where e: "e = (h, t, v)" by (cases e) auto
  let ?n = "of_nat (length v) :: u32"
  have "unat ?n = length v" using assms(1) by (simp add: data_ok_def e unat_of_nat)
  moreover have "read32 ?m (length pre) = Inr nx" by (rule read32_at) simp
  moreover have "read32 ?m (length pre + 4) = Inr h"
    using read32_at[of _ "pre @ le_bytes32 nx" h] by (simp add: e data_body_def data_header_def)
  moreover have "read32 ?m (length pre + 8) = Inr t"
    using read32_at[of _ "pre @ le_bytes32 nx @ le_bytes32 h" t] by (simp add: e data_body_def data_header_def)
  moreover have "read32 ?m (length pre + 12) = Inr ?n"
    using read32_at[of _ "pre @ le_bytes32 nx @ le_bytes32 h @ le_bytes32 t" ?n] by (simp add: e data_body_def data_header_def)
  moreover have "read_bytes ?m (length pre + 16) (length v) = Inr v"
    using read_bytes_at[of _ "pre @ le_bytes32 nx @ le_bytes32 h @ le_bytes32 t @ le_bytes32 ?n" _ v]
    by (simp add: e data_body_def data_header_def)
  ultimately show ?thesis using assms(2) by (simp add: read_data_def e)
qed

interpretation rd: chained_records data_ok data_body read_data "\<lambda>_. True"
  by unfold_locales (rule read_data_at)

text \<open>The data of an event, starting with its header.\<close>

definition read_event_data :: "u8 list \<Rightarrow> (fault + (u32 \<times> u32 \<times> u8 list) list) option" where
  "read_event_data mem = (case read32 mem 4 of Inl e \<Rightarrow> Some (Inl e) | Inr head \<Rightarrow> follow (read_data mem) head)"

definition event_bytes :: "(u32 \<times> u32 \<times> u8 list) list \<Rightarrow> u8 list" where
  "event_bytes ds =
     (let xs = map data_body ds
      in le_bytes32 0 @ le_bytes32 (chain_head 12 xs) @ le_bytes32 (chain_tail 12 xs) @ chained 12 xs 0)"

lemma length_event_bytes [simp]: "length (event_bytes ds) = 12 + chain_length (map data_body ds)"
  by (simp add: event_bytes_def Let_def)

lemma read_event_bytes:
  assumes "\<forall>d \<in> set ds. data_ok d" "length (event_bytes ds @ post) < 2 ^ 32"
  shows "read_event_data (event_bytes ds @ post) = Some (Inr ds)"
proof -
  let ?xs = "map data_body ds"
  let ?pre = "le_bytes32 0 @ le_bytes32 (chain_head 12 ?xs) @ le_bytes32 (chain_tail 12 ?xs)"
  have m: "event_bytes ds @ post = ?pre @ chained (length ?pre) ?xs 0 @ post" by (simp add: event_bytes_def Let_def)
  have "read32 (event_bytes ds @ post) 4 = Inr (chain_head 12 ?xs)"
    using read32_at[of 4 "le_bytes32 0" "chain_head 12 ?xs"] by (simp add: event_bytes_def Let_def)
  moreover have "follow (read_data (event_bytes ds @ post)) (chain_head (length ?pre) ?xs) = Some (Inr ds)"
    unfolding m by (rule rd.follow_chained) (use assms m in \<open>simp_all add: le_bytes32_def\<close>)
  ultimately show ?thesis by (simp add: read_event_data_def)
qed

section \<open>Adding data\<close>

lemma link_data_appends:
  assumes "12 + chain_length (xs @ [x]) < 2 ^ 32"
  shows "link_data (le_bytes32 0 @ le_bytes32 (chain_head 12 xs) @ le_bytes32 (chain_tail 12 xs) @ chained 12 xs 0 @ (le_bytes32 0 @ x) @ rest)
       0 (of_nat (12 + chain_length xs)) =
     Inr (le_bytes32 0 @ le_bytes32 (chain_head 12 (xs @ [x])) @ le_bytes32 (chain_tail 12 (xs @ [x])) @ chained 12 (xs @ [x]) 0 @ rest)"
proof -
  let ?o = "of_nat (12 + chain_length xs) :: u32"
  let ?tl = "chain_tail 12 xs"
  let ?hd' = "chain_head 12 (xs @ [x])"
  let ?new = "le_bytes32 0 @ x @ rest"
  have r1: "read32 (le_bytes32 0 @ le_bytes32 h @ le_bytes32 ?tl @ m) 4 = Inr h" for h m
    using read32_at[of 4 "le_bytes32 0" h] by simp
  have r2: "read32 (le_bytes32 0 @ le_bytes32 h @ le_bytes32 ?tl @ m) 8 = Inr ?tl" for h m
    using read32_at[of 8 "le_bytes32 0 @ le_bytes32 h" ?tl] by simp
  have w1: "write32 (le_bytes32 0 @ le_bytes32 h @ m) 4 w = Inr (le_bytes32 0 @ le_bytes32 w @ m)" for h w m
    using write32_at[of 4 "le_bytes32 0" h m w] by simp
  have w3: "write32 (le_bytes32 0 @ le_bytes32 h @ le_bytes32 v @ m) 8 w = Inr (le_bytes32 0 @ le_bytes32 h @ le_bytes32 w @ m)" for h v w m
    using write32_at[of 8 "le_bytes32 0 @ le_bytes32 h" v m w] by simp
  have hd: "(if chain_head 12 xs = 0 then write32 (le_bytes32 0 @ le_bytes32 (chain_head 12 xs) @ m) 4 ?o
      else Inr (le_bytes32 0 @ le_bytes32 (chain_head 12 xs) @ m)) = Inr (le_bytes32 0 @ le_bytes32 ?hd' @ m)" for m
    using chain_head_0[of 12 xs] w1 by (simp add: chain_head_def)
  have tl: "(if ?tl \<noteq> 0 then write32 (le_bytes32 0 @ le_bytes32 ?hd' @ le_bytes32 ?tl @ chained 12 xs 0 @ ?new) (unat ?tl) ?o
      else Inr (le_bytes32 0 @ le_bytes32 ?hd' @ le_bytes32 ?tl @ chained 12 xs 0 @ ?new)) =
      Inr (le_bytes32 0 @ le_bytes32 ?hd' @ le_bytes32 ?tl @ chained 12 xs ?o @ ?new)"
  proof (cases "xs = []")
    case False
    have lt: "12 + chain_length xs < 2 ^ 32" using assms by simp
    have t: "?tl \<noteq> 0" "unat ?tl = 12 + chain_length (butlast xs)"
      using chain_tail_0[of 12 xs] unat_chain_tail[OF False lt] False lt by simp_all
    show ?thesis using t write32_last[OF False, of "le_bytes32 0 @ le_bytes32 ?hd' @ le_bytes32 ?tl" 12 0 ?new ?o]
      by (simp del: of_nat_add)
  qed (simp add: chain_tail_def)
  show ?thesis
    unfolding link_data_def append_assoc add_0 r1 fbind_Inr hd r2 tl w3
    by (simp add: chained_snoc)
qed

text \<open>
  A buffer that holds an event with the data \<open>ds\<close>: the used part are its bytes, and the counters
  are those of the block.
\<close>

definition holds :: "EventBuffer \<Rightarrow> (u32 \<times> u32 \<times> u8 list) list \<Rightarrow> bool" where
  "holds b ds \<longleftrightarrow> event b = Some 0 \<and> unat (buffer_used b) = length (event_bytes ds) \<and>
     unat (buffer_used b) + unat (buffer_remaining b) = length (buffer b) \<and>
     length (buffer b) = unat (buffer_length b) \<and> take (unat (buffer_used b)) (buffer b) = event_bytes ds \<and>
     (\<forall>d \<in> set ds. data_ok d)"

lemma holds_reads:
  assumes "holds b ds"
  shows "read_event_data (buffer b) = Some (Inr ds)"
proof -
  obtain post where p: "buffer b = event_bytes ds @ post"
    using assms unfolding holds_def by (metis append_take_drop_id)
  have "length (buffer b) < 2 ^ 32"
    using assms unsigned_less[of "buffer_length b", where 'a = nat] unfolding holds_def by simp
  moreover have "\<forall>d \<in> set ds. data_ok d" using assms unfolding holds_def by blast
  ultimately show ?thesis unfolding p by (intro read_event_bytes)
qed

lemma holds_append:
  assumes h: "holds b ds" and n: "16 + length v \<le> unat (buffer_remaining b)"
    and u: "unat n = 16 + length v"
  shows "\<exists>mem mem1.
     write_bytes (buffer b) (unat (buffer_used b)) (le_bytes32 0 @ data_header k t (of_nat (length v)) @ v) = Inr mem \<and>
     link_data mem 0 (buffer_used b) = Inr mem1 \<and>
     holds (b\<lparr>buffer_used := buffer_used b + n, buffer_remaining := buffer_remaining b - n, buffer := mem1\<rparr>) (ds @ [(k, t, v)])"
proof -
  let ?xs = "map data_body ds"
  let ?x = "data_body (k, t, v)"
  let ?h = "le_bytes32 0 @ le_bytes32 (chain_head 12 ?xs) @ le_bytes32 (chain_tail 12 ?xs) @ chained 12 ?xs 0"
  have used: "unat (buffer_used b) = 12 + chain_length ?xs" using h by (simp add: holds_def)
  have lt: "length (buffer b) < 2 ^ 32"
    using h unsigned_less[of "buffer_length b", where 'a = nat] by (simp add: holds_def)
  have sum: "unat (buffer_used b) + unat (buffer_remaining b) = length (buffer b)" using h by (simp add: holds_def)
  have fits: "unat (buffer_used b) + length (le_bytes32 0 @ ?x) \<le> length (buffer b)" using n sum by simp
  obtain pre old rest where p: "buffer b = pre @ old @ rest" "length pre = unat (buffer_used b)"
    "length old = length (le_bytes32 0 @ ?x)"
    "write_bytes (buffer b) (unat (buffer_used b)) (le_bytes32 0 @ ?x) = Inr (pre @ (le_bytes32 0 @ ?x) @ rest)"
    using fits by (rule write_bytes_cases)
  have "pre = event_bytes ds" using h p(1,2) by (simp add: holds_def)
  then have pre: "pre = ?h" by (simp add: event_bytes_def Let_def)
  have lim: "12 + chain_length (?xs @ [?x]) < 2 ^ 32" using fits used lt by simp
  have off: "buffer_used b = of_nat (12 + chain_length ?xs)" using used by (metis of_nat_unat ucast_id)
  have l: "link_data (pre @ (le_bytes32 0 @ ?x) @ rest) 0 (buffer_used b) = Inr (event_bytes (ds @ [(k, t, v)]) @ rest)"
    unfolding off pre using link_data_appends[OF lim, of rest] by (simp add: event_bytes_def Let_def del: of_nat_add)
  have u1: "unat (buffer_used b + n) = unat (buffer_used b) + unat n"
    using fits u lt by (intro unat_add_no_wrap) simp
  have u2: "unat (buffer_remaining b - n) = unat (buffer_remaining b) - unat n"
    using n u by (intro unat_sub) (simp add: word_le_nat_alt)
  have "length v < 2 ^ 32" using fits lt by simp
  then have "holds (b\<lparr>buffer_used := buffer_used b + n, buffer_remaining := buffer_remaining b - n,
       buffer := event_bytes (ds @ [(k, t, v)]) @ rest\<rparr>) (ds @ [(k, t, v)])"
    using h u u1 u2 n p(1-3) by (simp add: holds_def data_ok_def)
  then show ?thesis using p(4) l by (auto simp: data_body_def)
qed

lemma AddEventData_room:
  assumes b: "buffer_at r i = Inr b" and h: "holds b ds"
    and v: "length v = unat len" "16 + unat len < 2 ^ 32"
  shows "if 16 + unat len \<le> unat (buffer_remaining b)
     then \<exists>b'. AddEventData r i k t v len = Inr (True, put_buffer r i b') \<and> holds b' (ds @ [(k, data_type_code t, v)]) \<and>
       read_event_data (buffer b') = Some (Inr (ds @ [(k, data_type_code t, v)])) \<and> in_use b' = in_use b
     else AddEventData r i k t v len = Inr (False, r)"
proof -
  have u: "unat (16 + len) = 16 + length v" using v unat_add_no_wrap[of 16 len] by simp
  then have c: "16 + len > buffer_remaining b \<longleftrightarrow> \<not> 16 + unat len \<le> unat (buffer_remaining b)"
    using v by (simp add: word_less_nat_alt not_le)
  have len: "of_nat (length v) = len" using v(1) by (metis of_nat_unat ucast_id)
  show ?thesis
  proof (cases "16 + unat len \<le> unat (buffer_remaining b)")
    case True
    then obtain mem mem1 where m:
      "write_bytes (buffer b) (unat (buffer_used b)) (le_bytes32 0 @ data_header k (data_type_code t) len @ v) = Inr mem"
      "link_data mem 0 (buffer_used b) = Inr mem1"
      "holds (b\<lparr>buffer_used := buffer_used b + (16 + len), buffer_remaining := buffer_remaining b - (16 + len), buffer := mem1\<rparr>)
         (ds @ [(k, data_type_code t, v)])"
      using holds_append[OF h _ u, of k "data_type_code t"] v(1) len by auto
    have "event b = Some 0" using h by (simp add: holds_def)
    let ?b' = "b\<lparr>buffer_used := buffer_used b + (16 + len), buffer_remaining := buffer_remaining b - (16 + len), buffer := mem1\<rparr>"
    have "AddEventData r i k t v len = Inr (True, put_buffer r i ?b')"
      using \<open>event b = Some 0\<close> True b c m v(1) by (simp add: AddEventData_def read_bytes_def Let_def not_less)
    then show ?thesis using m(3) holds_reads[OF m(3)] unfolding if_P[OF True] by (intro exI[of _ ?b'] conjI) simp_all
  next
    case False
    then show ?thesis using b c by (simp add: AddEventData_def)
  qed
qed

text \<open>An event begun in a buffer that is still as it was made is empty.\<close>

lemma holds_begin_event:
  assumes "buffer_used b = 0" "buffer_remaining b = buffer_length b" "length (buffer b) = unat (buffer_length b)"
    "12 \<le> buffer_length b" "take 12 (buffer b) = replicate 12 0"
  shows "holds (begin_event b) []"
proof -
  have "le_bytes32 0 = [0, 0, 0, 0]" by (simp add: le_bytes32_def)
  then have "event_bytes [] = replicate 12 0"
    by (simp add: event_bytes_def chain_head_def chain_tail_def numeral_eq_Suc)
  moreover have "unat (buffer_length b - 12) = unat (buffer_length b) - 12"
    using assms(4) by (simp add: unat_sub)
  ultimately show ?thesis using assms by (simp add: holds_def begin_event_def word_le_nat_alt)
qed

section \<open>A buffer that is used again\<close>

text \<open>
  Nothing clears the header of the event that was there before. When that event had one data,
  its only data and that of the new one are at the same place: the new data is its own
  successor, and a reader never gets to the end.
\<close>

lemma event_bytes_one:
  "event_bytes [d] = le_bytes32 0 @ le_bytes32 12 @ le_bytes32 12 @ le_bytes32 0 @ data_body d"
  by (simp add: event_bytes_def chain_head_def chain_tail_def Let_def)

lemma recycled_circle:
  assumes h: "holds b [d]" and b': "event b' = Some 0" "buffer_used b' = 12" "buffer b' = buffer b"
    and fits: "16 + length v \<le> length (buffer b) - 12"
  shows "\<exists>mem mem1.
     write_bytes (buffer b') 12 (le_bytes32 0 @ data_header k t n @ v) = Inr mem \<and> link_data mem 0 12 = Inr mem1 \<and>
     read32 mem1 12 = Inr 12 \<and> (unat n = length v \<longrightarrow> read_event_data mem1 = None)"
proof -
  let ?x = "data_header k t n @ v"
  have "take (unat (buffer_used b)) (buffer b) = event_bytes [d]" using h unfolding holds_def by blast
  then obtain post where p: "buffer b = event_bytes [d] @ post" by (metis append_take_drop_id)
  have "12 + length (le_bytes32 0 @ ?x) \<le> length (buffer b')" using fits b'(3) p by simp
  then obtain pre old rest where q: "buffer b' = pre @ old @ rest" "length pre = 12"
    "write_bytes (buffer b') 12 (le_bytes32 0 @ ?x) = Inr (pre @ (le_bytes32 0 @ ?x) @ rest)"
    by (rule write_bytes_cases) blast
  have "take 12 (buffer b') = pre" using q(1,2) by simp
  moreover have "take 12 (buffer b') = le_bytes32 0 @ le_bytes32 12 @ le_bytes32 12"
    using b'(3) p by (simp add: event_bytes_one)
  ultimately have pre: "pre = le_bytes32 0 @ le_bytes32 12 @ le_bytes32 12" by simp
  let ?m1 = "pre @ (le_bytes32 12 @ ?x) @ rest"
  have r: "read32 (pre @ m) 4 = Inr 12" "read32 (pre @ m) 8 = Inr 12" for m
    using read32_at[of 4 "le_bytes32 0" 12] read32_at[of 8 "le_bytes32 0 @ le_bytes32 12" 12] by (simp_all add: pre)
  have w: "write32 (pre @ (le_bytes32 0 @ ?x) @ rest) 12 12 = Inr ?m1" "write32 ?m1 8 12 = Inr ?m1"
    using write32_at[of 12 pre 0 "?x @ rest" 12] write32_at[of 8 "le_bytes32 0 @ le_bytes32 12" 12 "(le_bytes32 12 @ ?x) @ rest" 12] q(2)
    by (simp_all add: pre)
  have l: "link_data (pre @ (le_bytes32 0 @ ?x) @ rest) 0 12 = Inr ?m1"
    unfolding link_data_def add_0 r fbind_Inr by (simp add: r w[simplified])
  have c: "read32 ?m1 12 = Inr 12" using read32_at[of 12 pre 12 "?x @ rest"] q(2) by simp
  have "read_event_data ?m1 = None" if n: "unat n = length v"
  proof -
    have "of_nat (length v) = n" using n by (metis of_nat_unat ucast_id)
    then have e: "?x = data_body (k, t, v)" by (simp add: data_body_def)
    have "length v < 2 ^ 32" using n unsigned_less[of n, where 'a = nat] by simp
    then have "read_data ?m1 12 = Inr ((k, t, v), 12)"
      using read_data_at[of "(k, t, v)" 12 pre 12 rest] q(2) unfolding e by (simp add: data_ok_def)
    then show ?thesis using r(1) follow_circle[of "read_data ?m1" 12] by (simp add: read_event_data_def)
  qed
  then show ?thesis using q(3) l c by blast
qed

section \<open>Finding a buffer\<close>

text \<open>
  The entries below the number of buffers are there and no others; the block of a buffer is
  as long as it should be.
\<close>

definition buffers_ok :: "EventRingList \<Rightarrow> bool" where
  "buffers_ok r \<longleftrightarrow> length (event_buffers r) = 256 \<and> unat (num_event_buffers r) \<le> 256 \<and>
     sizeof_EventBuffer \<le> sizeof_EventBuffer + event_buffer_length r \<and>
     (\<forall>i < 256. event_buffers r ! i \<noteq> None \<longleftrightarrow> i < unat (num_event_buffers r))"

definition buffer_free :: "EventRingList \<Rightarrow> nat \<Rightarrow> bool" where
  "buffer_free r i \<longleftrightarrow> i < unat (num_event_buffers r) \<and> (\<exists>b. event_buffers r ! i = Some b \<and> \<not> in_use b)"

lemma buffers_ok_at:
  assumes "buffers_ok r" "unat i < unat (num_event_buffers r)"
  obtains b where "buffer_at r i = Inr b" "event_buffers r ! unat i = Some b"
  using assms by (force simp: buffers_ok_def buffer_at_def)

lemma unat_Suc256: "unat (i :: u32) < 256 \<Longrightarrow> unat (i + 1) = Suc (unat i)"
  using unat_add_no_wrap[of i 1] by simp

lemma find_buffer_result:
  assumes "buffers_ok r" "unat i + n \<le> unat (num_event_buffers r)"
  shows "case find_buffer r i n of
       Inl e \<Rightarrow> False
     | Inr None \<Rightarrow> \<forall>j. unat i \<le> j \<and> j < unat i + n \<longrightarrow> \<not> buffer_free r j
     | Inr (Some (j, b)) \<Rightarrow> buffer_free r (unat j) \<and> event_buffers r ! unat j = Some b"
  using assms(2)
proof (induction n arbitrary: i)
  case (Suc n)
  have "unat i < unat (num_event_buffers r)" using Suc.prems by simp
  with assms(1) obtain b where b: "buffer_at r i = Inr b" "event_buffers r ! unat i = Some b" by (rule buffers_ok_at)
  show ?case
  proof (cases "in_use b")
    case True
    have u: "unat (i + 1) = Suc (unat i)" using Suc.prems assms(1) by (intro unat_Suc256) (simp add: buffers_ok_def)
    have "\<not> buffer_free r (unat i)" using True b by (simp add: buffer_free_def)
    then have "(\<forall>j. unat (i + 1) \<le> j \<and> j < unat (i + 1) + n \<longrightarrow> \<not> buffer_free r j) \<longrightarrow>
        (\<forall>j. unat i \<le> j \<and> j < unat i + Suc n \<longrightarrow> \<not> buffer_free r j)"
      unfolding u by (metis Suc_leI add_Suc_shift le_neq_implies_less)
    then show ?thesis using Suc.IH[of "i + 1"] Suc.prems True b u by (simp split: sum.splits option.splits prod.splits)
  next
    case False
    then show ?thesis using b Suc.prems by (simp add: buffer_free_def)
  qed
qed auto

corollary find_buffer_all:
  assumes "buffers_ok r"
  shows "case find_buffer r 0 (unat (num_event_buffers r)) of
       Inl e \<Rightarrow> False
     | Inr None \<Rightarrow> \<forall>j. \<not> buffer_free r j
     | Inr (Some (j, b)) \<Rightarrow> buffer_free r (unat j) \<and> event_buffers r ! unat j = Some b"
  using find_buffer_result[OF assms, of 0 "unat (num_event_buffers r)"]
  by (auto simp: buffer_free_def split: sum.splits option.splits)

text \<open>Growing: the entries that are there are passed over, then one is made after the other.\<close>

lemma create_buffers_skip:
  assumes "buffers_ok r" "i \<le> unat (num_event_buffers r)" "unat (num_event_buffers r) \<le> i + n"
  shows "create_buffers i n r = create_buffers (unat (num_event_buffers r)) (i + n - unat (num_event_buffers r)) r"
  using assms(2,3)
proof (induction n arbitrary: i)
  case (Suc n)
  show ?case
  proof (cases "i = unat (num_event_buffers r)")
    case False
    then have "i < unat (num_event_buffers r)" using Suc.prems by simp
    then have "event_buffers r ! i \<noteq> None" using assms(1) by (auto simp: buffers_ok_def)
    then show ?thesis using Suc.IH[of "Suc i"] Suc.prems \<open>i < _\<close> by simp
  qed simp
qed simp

definition grown :: "EventRingList \<Rightarrow> EventRingList \<Rightarrow> bool" where
  "grown r r' \<longleftrightarrow> buffers_ok r' \<and> unat (num_event_buffers r) \<le> unat (num_event_buffers r') \<and>
     (\<forall>i < unat (num_event_buffers r). event_buffers r' ! i = event_buffers r ! i) \<and>
     (\<forall>i. unat (num_event_buffers r) \<le> i \<and> i < unat (num_event_buffers r') \<longrightarrow> buffer_free r' i)"

lemma grown_pool: "buffers_ok r \<Longrightarrow> grown r (r\<lparr>pool := p\<rparr>)"
  by (auto simp: grown_def buffers_ok_def)

lemma grown_refl: "buffers_ok r \<Longrightarrow> grown r r"
  by (auto simp: grown_def)

lemma grown_one:
  assumes "buffers_ok r" "unat (num_event_buffers r) < 256" "\<not> in_use b"
    and "grown (r\<lparr>pool := p, event_buffers := (event_buffers r)[unat (num_event_buffers r) := Some b],
                 num_event_buffers := num_event_buffers r + 1\<rparr>) r'" (is "grown ?r r'")
  shows "grown r r' \<and> unat (num_event_buffers r) < unat (num_event_buffers r')"
proof -
  have u: "unat (num_event_buffers r + 1) = Suc (unat (num_event_buffers r))" using assms(2) by (rule unat_Suc256)
  have "length (event_buffers r) = 256" using assms(1) by (simp add: buffers_ok_def)
  then have "event_buffers r' ! unat (num_event_buffers r) = Some b"
    using assms(2,4) u by (simp add: grown_def)
  moreover have l: "Suc (unat (num_event_buffers r)) \<le> unat (num_event_buffers r')" using assms(4) u by (simp add: grown_def)
  ultimately have new: "buffer_free r' (unat (num_event_buffers r))" using assms(3) by (simp add: buffer_free_def)
  have "buffer_free r' i" if "unat (num_event_buffers r) \<le> i" "i < unat (num_event_buffers r')" for i
  proof (cases "i = unat (num_event_buffers r)")
    case False
    then have "Suc (unat (num_event_buffers r)) \<le> i" using that by simp
    then show ?thesis using assms(4) u that(2) by (simp add: grown_def)
  qed (use new in simp)
  moreover have "event_buffers r' ! i = event_buffers r ! i" if "i < unat (num_event_buffers r)" for i
    using assms(4) u that by (simp add: grown_def)
  ultimately show ?thesis using assms(4) l by (simp add: grown_def)
qed

lemma create_buffers_grow:
  assumes "buffers_ok r" "unat (num_event_buffers r) + n \<le> 256"
  shows "\<exists>r'. create_buffers (unat (num_event_buffers r)) n r = Inr r' \<and> grown r r' \<and> allocating_buffers r' = allocating_buffers r \<and>
     (0 < n \<longrightarrow> (case pool r of
        [] \<Rightarrow> r' = r
      | None # as \<Rightarrow> r' = r\<lparr>pool := as\<rparr>
      | Some _ # _ \<Rightarrow> unat (num_event_buffers r) < unat (num_event_buffers r')))"
  using assms
proof (induction n arbitrary: r)
  case (Suc n)
  let ?n = "unat (num_event_buffers r)"
  have "?n < 256" using Suc.prems(2) by simp
  then have none: "event_buffers r ! ?n = None" using Suc.prems(1) unfolding buffers_ok_def by blast
  show ?case
  proof (cases "next_block r")
    case (Pair blk r1)
    show ?thesis
    proof (cases blk)
      case None
      then have "r1 = r \<and> pool r = [] \<or> (\<exists>as. pool r = None # as \<and> r1 = r\<lparr>pool := as\<rparr>)"
        using Pair by (auto simp: next_block_def split: list.splits)
      then show ?thesis using None Pair none Suc.prems(1) by (auto simp: CreateEventBuffer_def grown_pool grown_refl)
    next
      case (Some c)
      then obtain as where p: "pool r = Some c # as" "r1 = r\<lparr>pool := as\<rparr>"
        using Pair by (auto simp: next_block_def split: list.splits)
      let ?b = "\<lparr>event = None, eb_id = num_event_buffers r, in_use = False, buffer_used = 0,
        buffer_remaining = event_buffer_length r, buffer_length = event_buffer_length r,
        buffer = replicate (unat (event_buffer_length r)) 0\<rparr>"
      let ?r = "r\<lparr>pool := as, event_buffers := (event_buffers r)[?n := Some ?b], num_event_buffers := num_event_buffers r + 1\<rparr>"
      have "CreateEventBuffer r = Inr (Some ?b, r1)"
        using Some Pair Suc.prems(1) by (simp add: CreateEventBuffer_def buffers_ok_def not_less)
      then have s: "create_buffers ?n (Suc n) r = create_buffers (Suc ?n) n ?r" using none p(2) by simp
      have u: "unat (num_event_buffers r + 1) = Suc ?n" using Suc.prems(2) by (intro unat_Suc256) simp
      have "buffers_ok ?r" using Suc.prems u by (auto simp: buffers_ok_def nth_list_update)
      then obtain r' where r': "create_buffers (Suc ?n) n ?r = Inr r'" "grown ?r r'" "allocating_buffers r' = allocating_buffers r"
        using Suc.IH[of ?r] Suc.prems(2) u by auto
      then have "grown r r' \<and> ?n < unat (num_event_buffers r')"
        using grown_one[of r ?b as r'] Suc.prems by simp
      then show ?thesis using s r' p(1) by (auto split: list.split)
    qed
  qed
qed (simp add: grown_refl)

lemma CreateEventBuffers_full:
  assumes "buffers_ok r" "\<not> allocating_buffers r"
  shows "if 0 < num_event_buffers r \<and> num_event_buffers r \<le> 128
     then \<exists>r'. CreateEventBuffers r (push_bit 1 (num_event_buffers r)) = Inr r' \<and> grown r r' \<and> \<not> allocating_buffers r' \<and>
       (case pool r of [] \<Rightarrow> r' = r | None # as \<Rightarrow> r' = r\<lparr>pool := as\<rparr>
        | Some _ # _ \<Rightarrow> unat (num_event_buffers r) < unat (num_event_buffers r'))
     else CreateEventBuffers r (push_bit 1 (num_event_buffers r)) = Inr r"
proof -
  let ?n = "unat (num_event_buffers r)"
  let ?r = "r\<lparr>allocating_buffers := True\<rparr>"
  have n: "?n \<le> 256" using assms(1) by (simp add: buffers_ok_def)
  then have two: "unat (push_bit 1 (num_event_buffers r)) = 2 * ?n"
    by (simp add: push_bit_eq_mult unat_word_ariths)
  show ?thesis
  proof (cases "0 < num_event_buffers r \<and> num_event_buffers r \<le> 128")
    case True
    then have le: "0 < ?n" "?n \<le> 128" by (simp_all add: word_less_nat_alt word_le_nat_alt)
    have ok: "buffers_ok ?r" using assms(1) by (simp add: buffers_ok_def)
    have "create_buffers 0 (2 * ?n) ?r = create_buffers ?n ?n ?r"
      using create_buffers_skip[OF ok, of 0 "2 * ?n"] by simp
    moreover have "unat (num_event_buffers ?r) + ?n \<le> 256" using le(2) by simp
    from create_buffers_grow[OF ok this] obtain r1 where r0: "create_buffers (unat (num_event_buffers ?r)) ?n ?r = Inr r1" "grown ?r r1"
      "0 < ?n \<longrightarrow> (case pool ?r of [] \<Rightarrow> r1 = ?r | None # as \<Rightarrow> r1 = ?r\<lparr>pool := as\<rparr>
         | Some _ # _ \<Rightarrow> unat (num_event_buffers ?r) < unat (num_event_buffers r1))"
      by (elim exE conjE) (rule that)
    ultimately have r1: "create_buffers 0 (2 * ?n) ?r = Inr r1" "grown ?r r1"
      "case pool r of [] \<Rightarrow> r1 = ?r | None # as \<Rightarrow> r1 = ?r\<lparr>pool := as\<rparr> | Some _ # _ \<Rightarrow> ?n < unat (num_event_buffers r1)"
      using le(1) by (auto split: list.splits option.splits)
    let ?r' = "r1\<lparr>allocating_buffers := False\<rparr>"
    have "CreateEventBuffers r (push_bit 1 (num_event_buffers r)) = Inr ?r'"
      using two le r1(1) assms(2) by (simp add: CreateEventBuffers_def)
    moreover have "grown r ?r'" using r1(2) by (auto simp: grown_def buffers_ok_def buffer_free_def)
    moreover have "case pool r of [] \<Rightarrow> ?r' = r | None # as \<Rightarrow> ?r' = r\<lparr>pool := as\<rparr> | Some _ # _ \<Rightarrow> ?n < unat (num_event_buffers ?r')"
      using r1(3) assms(2) by (auto split: list.splits option.splits)
    ultimately show ?thesis using True by auto
  next
    case False
    then have "?n = 0 \<or> 128 < ?n" by (auto simp: word_less_nat_alt word_le_nat_alt)
    then show ?thesis using two assms(2) False by (auto simp: CreateEventBuffers_def)
  qed
qed

lemma CreateEvent_stuck:
  assumes "find_buffer r 0 (unat (num_event_buffers r)) = Inr None"
    and "CreateEventBuffers r (push_bit 1 (num_event_buffers r)) = Inr r"
  shows "CreateEvent r = None"
proof -
  have "r' \<noteq> r" if "CreateEvent r' = Some y" for r' y
  proof (rule CreateEvent.raw_induct[OF _ that, where P = "\<lambda>r' y. r' \<noteq> r"])
    fix g r' y
    assume g: "\<And>r' y. g r' = Some y \<Longrightarrow> r' \<noteq> r"
      and e: "(case find_buffer r' 0 (unat (num_event_buffers r')) of Inl e \<Rightarrow> Some (Inl e)
        | Inr None \<Rightarrow> (case CreateEventBuffers r' (push_bit 1 (num_event_buffers r')) of Inl e \<Rightarrow> Some (Inl e) | Inr r1 \<Rightarrow> g r1)
        | Inr (Some (i, b)) \<Rightarrow> Some (Inr (i, put_buffer r' i (begin_event b)))) = Some y"
    show "r' \<noteq> r"
    proof
      assume "r' = r"
      with e assms have "g r = Some y" by simp
      then show False using g by blast
    qed
  qed
  then show ?thesis by (cases "CreateEvent r") auto
qed

lemma CreateEvent_step:
  assumes "find_buffer r 0 (unat (num_event_buffers r)) = Inr None"
    and "CreateEventBuffers r (push_bit 1 (num_event_buffers r)) = Inr r1"
  shows "CreateEvent r = CreateEvent r1"
  using assms by (subst CreateEvent.simps) simp

lemma CreateEvent_free:
  assumes "buffers_ok r" "buffer_free r i"
  shows "\<exists>j b. CreateEvent r = Some (Inr (j, put_buffer r j (begin_event b))) \<and> buffer_free r (unat j) \<and> event_buffers r ! unat j = Some b"
  using find_buffer_all[OF assms(1)] assms(2)
  by (subst CreateEvent.simps) (auto split: sum.splits option.splits)

lemma buffers_ok_claim:
  assumes "buffers_ok r" "buffer_free r (unat i)"
  shows "buffers_ok (put_buffer r i b)" "buffer_at (put_buffer r i b) i = Inr b"
  using assms by (auto simp: buffers_ok_def buffer_free_def put_buffer_def buffer_at_def nth_list_update)

text \<open>
  What CreateEvent needs to return: a free buffer, or room to double their number and memory
  at some time.
\<close>

definition can_create :: "EventRingList \<Rightarrow> bool" where
  "can_create r \<longleftrightarrow> (\<exists>i. buffer_free r i) \<or>
     (0 < num_event_buffers r \<and> num_event_buffers r \<le> 128 \<and> (\<exists>a \<in> set (pool r). a \<noteq> None))"

lemma CreateEvent_outcome:
  assumes "buffers_ok r" "\<not> allocating_buffers r"
  shows "if can_create r
     then \<exists>r1 j b. CreateEvent r = Some (Inr (j, put_buffer r1 j (begin_event b))) \<and> grown r r1 \<and>
       buffer_free r1 (unat j) \<and> event_buffers r1 ! unat j = Some b
     else CreateEvent r = None"
  using assms
proof (induction "pool r" arbitrary: r)
  case Nil
  show ?case
  proof (cases "\<exists>i. buffer_free r i")
    case True
    then show ?thesis using CreateEvent_free Nil.prems grown_refl by (fastforce simp: can_create_def)
  next
    case False
    then have "find_buffer r 0 (unat (num_event_buffers r)) = Inr None"
      using find_buffer_all[OF Nil.prems(1)] by (auto split: sum.splits option.splits)
    moreover have "CreateEventBuffers r (push_bit 1 (num_event_buffers r)) = Inr r"
      using CreateEventBuffers_full[OF Nil.prems] Nil.hyps by (auto split: if_splits)
    ultimately show ?thesis using CreateEvent_stuck False Nil.hyps by (auto simp: can_create_def)
  qed
next
  case (Cons a as)
  show ?case
  proof (cases "\<exists>i. buffer_free r i")
    case True
    then show ?thesis using CreateEvent_free Cons.prems grown_refl by (fastforce simp: can_create_def)
  next
    case False
    then have f: "find_buffer r 0 (unat (num_event_buffers r)) = Inr None"
      using find_buffer_all[OF Cons.prems(1)] by (auto split: sum.splits option.splits)
    show ?thesis
    proof (cases "0 < num_event_buffers r \<and> num_event_buffers r \<le> 128")
      case room: True
      with CreateEventBuffers_full[OF Cons.prems] obtain r1 where
        r1: "CreateEventBuffers r (push_bit 1 (num_event_buffers r)) = Inr r1" "grown r r1" and
        c: "case pool r of [] \<Rightarrow> r1 = r | None # as \<Rightarrow> r1 = r\<lparr>pool := as\<rparr> | Some _ # _ \<Rightarrow> unat (num_event_buffers r) < unat (num_event_buffers r1)"
        unfolding if_P[OF room] by (elim exE conjE)
      have s: "CreateEvent r = CreateEvent r1" by (rule CreateEvent_step[OF f r1(1)])
      show ?thesis
      proof (cases a)
        case None
        then have r: "r1 = r\<lparr>pool := as\<rparr>" using c Cons.hyps(2)[symmetric] by simp
        have "can_create r1 = can_create r" using Cons.hyps(2)[symmetric] None by (simp add: r can_create_def buffer_free_def)
        moreover have "buffers_ok r1" "\<not> allocating_buffers r1" using Cons.prems by (simp_all add: r buffers_ok_def)
        moreover have "grown r r2" if "grown r1 r2" for r2 using that by (simp add: r grown_def)
        moreover have "as = pool r1" by (simp add: r)
        note Cons.hyps(1)[OF this]
        ultimately show ?thesis using s by (cases "can_create r1") (simp, blast, simp)
      next
        case (Some x)
        then have "unat (num_event_buffers r) < unat (num_event_buffers r1)" using c Cons.hyps(2)[symmetric] by simp
        then have "buffer_free r1 (unat (num_event_buffers r))" "buffers_ok r1" using r1(2) by (simp_all add: grown_def)
        then obtain j b where "CreateEvent r1 = Some (Inr (j, put_buffer r1 j (begin_event b)))" "buffer_free r1 (unat j)"
          "event_buffers r1 ! unat j = Some b" using CreateEvent_free by metis
        moreover have "can_create r" using room Some Cons.hyps(2)[symmetric] by (simp add: can_create_def)
        ultimately show ?thesis using s r1(2) by auto
      qed
    next
      case no: False
      then have "CreateEventBuffers r (push_bit 1 (num_event_buffers r)) = Inr r"
        using CreateEventBuffers_full[OF Cons.prems] by (simp split: if_splits)
      then show ?thesis using CreateEvent_stuck f False no by (auto simp: can_create_def)
    qed
  qed
qed

section \<open>Properties of the event buffers\<close>

text \<open>
  Adding data to an event that is being put together either leaves everything as it was,
  when the data with its header does not fit the rest of the buffer, or appends exactly the
  key, the type and the value to what a reader finds that follows the offsets in the buffer.
\<close>

theorem ring_AddEventData_appends:
  assumes "buffer_at r i = Inr b" "holds b ds" "length v = unat len" "16 + unat len < 2 ^ 32"
  shows "read_event_data (buffer b) = Some (Inr ds) \<and>
    (if 16 + unat len \<le> unat (buffer_remaining b)
     then \<exists>b'. AddEventData r i k t v len = Inr (True, put_buffer r i b') \<and> holds b' (ds @ [(k, data_type_code t, v)]) \<and>
       read_event_data (buffer b') = Some (Inr (ds @ [(k, data_type_code t, v)])) \<and> in_use b' = in_use b
     else AddEventData r i k t v len = Inr (False, r))"
  using holds_reads[OF assms(2)] AddEventData_room[OF assms, of k t] by simp

definition buffer_demo :: EventBuffer where
  "buffer_demo = \<lparr>event = None, eb_id = 1, in_use = False, buffer_used = 0, buffer_remaining = 64, buffer_length = 64,
     buffer = replicate 64 0\<rparr>"

definition ring_demo :: EventRingList where
  "ring_demo = \<lparr>num_event_lists = 0, event_lists = [], read_list = 0, write_list = 0, read_position = 0, write_position = 0,
     event_list_length = 0, key_list = [], key_list_length = 0, allocating_buffers = False, event_buffer_length = 64,
     num_event_buffers = 1, event_buffers = Some buffer_demo # replicate 255 None, pool = []\<rparr>"

lemma holds_demo: "holds (begin_event buffer_demo) []"
  by (rule holds_begin_event) (simp_all add: buffer_demo_def word_le_nat_alt)

theorem ring_AddEventData_appends_witness:
  "\<exists>b'. AddEventData (put_buffer ring_demo 0 (begin_event buffer_demo)) 0 7 uint_t [1, 2, 3] 3 =
      Inr (True, put_buffer (put_buffer ring_demo 0 (begin_event buffer_demo)) 0 b') \<and>
      read_event_data (buffer b') = Some (Inr [(7, 1, [1, 2, 3])])"
proof -
  have "buffer_at (put_buffer ring_demo 0 (begin_event buffer_demo)) 0 = Inr (begin_event buffer_demo)"
    by (simp add: put_buffer_def buffer_at_def ring_demo_def)
  from ring_AddEventData_appends[OF this holds_demo, of "[1, 2, 3]" 3 7 uint_t] show ?thesis
    by (auto simp: begin_event_def buffer_demo_def)
qed

text \<open>
  An event with a single data leaves its offsets behind: when its buffer is given out again,
  the first data of the next event becomes its own successor, and a reader that follows the
  offsets never ends.
\<close>

theorem recycled_event_circular:
  assumes "buffers_ok r" "\<not> allocating_buffers r" "buffer_at r i = Inr b" "unat i < unat (num_event_buffers r)"
    and "holds b [d]" "buffer_length b = event_buffer_length r"
    and "RemoveEvent r i = Inr r1" "CreateEvent r1 = Some (Inr (i, r2))"
    and "length v = unat len" "28 + unat len \<le> unat (buffer_length b)"
  shows "\<exists>b'. AddEventData r2 i k t v len = Inr (True, put_buffer r2 i b') \<and> read32 (buffer b') 12 = Inr 12 \<and>
    read_event_data (buffer b') = None"
proof -
  let ?b1 = "b\<lparr>buffer_used := 0, buffer_remaining := event_buffer_length r, in_use := False\<rparr>"
  have r1: "r1 = put_buffer r i ?b1" using assms(3,7) by (simp add: RemoveEvent_def)
  have ok1: "buffers_ok r1" "\<not> allocating_buffers r1" "unat i < unat (num_event_buffers r1)" "event_buffers r1 ! unat i = Some ?b1"
    using assms(1,2,4) by (auto simp: r1 buffers_ok_def put_buffer_def nth_list_update)
  obtain rx bx where x: "r2 = put_buffer rx i (begin_event bx)" "grown r1 rx" "buffer_free rx (unat i)" "event_buffers rx ! unat i = Some bx"
    using CreateEvent_outcome[OF ok1(1,2)] assms(8) by (auto split: if_splits)
  have "bx = ?b1" using x(2,4) ok1(3,4) by (simp add: grown_def)
  moreover have "buffers_ok rx" using x(2) by (simp add: grown_def)
  ultimately have b2: "buffer_at r2 i = Inr (begin_event ?b1)" using buffers_ok_claim(2)[OF _ x(3)] x(1) by simp
  have len: "length (buffer b) = unat (buffer_length b)" using assms(5) by (simp add: holds_def)
  have n: "unat (16 + len) = 16 + unat len"
    using assms(10) unsigned_less[of "buffer_length b", where 'a = nat] unat_add_no_wrap[of 16 len] by simp
  have fits0: "16 + length v \<le> length (buffer b) - 12" using assms(9,10) len by simp
  obtain mem mem1 where m: "write_bytes (buffer b) 12 (le_bytes32 0 @ data_header k (data_type_code t) len @ v) = Inr mem"
    "link_data mem 0 12 = Inr mem1" "read32 mem1 12 = Inr 12" "read_event_data mem1 = None"
    using recycled_circle[OF assms(5), of "begin_event ?b1" v k "data_type_code t" len] assms(9,10) fits0
    by (auto simp: begin_event_def)
  have fits: "\<not> 16 + len > event_buffer_length r - 12"
  proof -
    have "12 \<le> event_buffer_length r" using assms(6,10) by (simp add: word_le_nat_alt)
    then show ?thesis using n assms(6,10) by (simp add: not_less word_le_nat_alt unat_sub)
  qed
  show ?thesis
    using b2 m fits assms(9) by (simp add: AddEventData_def begin_event_def read_bytes_def Let_def) force
qed

definition used_demo :: EventBuffer where
  "used_demo = \<lparr>event = Some 0, eb_id = 1, in_use = True, buffer_used = 29, buffer_remaining = 35, buffer_length = 64,
     buffer = event_bytes [(7, 1, [5])] @ replicate 35 0\<rparr>"

theorem recycled_event_circular_witness:
  "\<exists>r1 r2 b'. RemoveEvent (put_buffer ring_demo 0 used_demo) 0 = Inr r1 \<and> CreateEvent r1 = Some (Inr (0, r2)) \<and>
     AddEventData r2 0 9 uint_t [6, 7] 2 = Inr (True, put_buffer r2 0 b') \<and> read_event_data (buffer b') = None"
proof -
  let ?r = "put_buffer ring_demo 0 used_demo"
  have ok: "buffers_ok ?r" "\<not> allocating_buffers ?r"
    by (auto simp: buffers_ok_def put_buffer_def ring_demo_def nth_Cons split: nat.split)
  have b: "buffer_at ?r 0 = Inr used_demo" by (simp add: put_buffer_def buffer_at_def ring_demo_def)
  have h: "holds used_demo [(7, 1, [5])]" by (simp add: holds_def used_demo_def data_ok_def)
  let ?b1 = "used_demo\<lparr>buffer_used := 0, buffer_remaining := 64, in_use := False\<rparr>"
  have rm: "RemoveEvent ?r 0 = Inr (put_buffer ?r 0 ?b1)"
    using b by (simp add: RemoveEvent_def) (simp add: put_buffer_def ring_demo_def)
  have "find_buffer (put_buffer ?r 0 ?b1) 0 1 = Inr (Some (0, ?b1))"
    by (simp add: buffer_at_def put_buffer_def ring_demo_def)
  then have ce: "CreateEvent (put_buffer ?r 0 ?b1) = Some (Inr (0, put_buffer (put_buffer ?r 0 ?b1) 0 (begin_event ?b1)))"
    by (subst CreateEvent.simps) (simp add: put_buffer_def ring_demo_def)
  from recycled_event_circular[OF ok b _ h _ rm ce, of "[6, 7]" 2 9 uint_t] show ?thesis
    using rm ce by (auto simp: put_buffer_def ring_demo_def used_demo_def)
qed

text \<open>
  CreateEvent returns exactly when a buffer is free or the buffers can be doubled - there is
  at least one, at most 128, and some request for memory is answered; otherwise it spins for
  ever. What it returns was free or is new, and is now in use.
\<close>

theorem CreateEvent_returns:
  assumes "buffers_ok r" "\<not> allocating_buffers r"
  shows "(CreateEvent r \<noteq> None) = ((\<exists>i. buffer_free r i) \<or>
      (0 < num_event_buffers r \<and> num_event_buffers r \<le> 128 \<and> (\<exists>a \<in> set (pool r). a \<noteq> None))) \<and>
    (\<forall>y. CreateEvent r = Some y \<longrightarrow> (\<exists>i r' b. y = Inr (i, r') \<and> buffers_ok r' \<and> buffer_at r' i = Inr b \<and> in_use b \<and>
       (buffer_free r (unat i) \<or> unat (num_event_buffers r) \<le> unat i)))"
proof -
  note o = CreateEvent_outcome[OF assms]
  have c: "(CreateEvent r \<noteq> None) = can_create r" using o by (auto split: if_splits)
  have "\<exists>i r' b. y = Inr (i, r') \<and> buffers_ok r' \<and> buffer_at r' i = Inr b \<and> in_use b \<and>
       (buffer_free r (unat i) \<or> unat (num_event_buffers r) \<le> unat i)" if y: "CreateEvent r = Some y" for y
  proof -
    obtain r1 j b where j: "y = Inr (j, put_buffer r1 j (begin_event b))" "grown r r1" "buffer_free r1 (unat j)" "event_buffers r1 ! unat j = Some b"
      using o y by (auto split: if_splits)
    have "buffers_ok r1" using j(2) by (simp add: grown_def)
    moreover have "in_use (begin_event b)" by (simp add: begin_event_def)
    moreover have "buffer_free r (unat j) \<or> unat (num_event_buffers r) \<le> unat j"
      using j(2,3) by (auto simp: grown_def buffer_free_def)
    ultimately show ?thesis using j(1) buffers_ok_claim[OF _ j(3), of "begin_event b"] by blast
  qed
  then show ?thesis using c unfolding can_create_def by blast
qed

theorem CreateEvent_returns_witness:
  "CreateEvent ring_demo \<noteq> None \<and> CreateEvent (put_buffer ring_demo 0 used_demo) = None"
proof -
  have ok: "buffers_ok ring_demo" "\<not> allocating_buffers ring_demo"
    "buffers_ok (put_buffer ring_demo 0 used_demo)" "\<not> allocating_buffers (put_buffer ring_demo 0 used_demo)"
    by (auto simp: buffers_ok_def put_buffer_def ring_demo_def nth_Cons split: nat.split)
  have "buffer_free ring_demo 0" by (simp add: buffer_free_def ring_demo_def buffer_demo_def)
  moreover have "\<not> buffer_free (put_buffer ring_demo 0 used_demo) i" "pool (put_buffer ring_demo 0 used_demo) = []" for i
    by (cases i; simp add: buffer_free_def put_buffer_def ring_demo_def used_demo_def)+
  ultimately show ?thesis
    using conjunct1[OF CreateEvent_returns[OF ok(1,2)]] conjunct1[OF CreateEvent_returns[OF ok(3,4)]] by auto
qed

end
