(* ===== verification/EventRingList.thy ===== *)
theory EventRingList
  imports EventBuffers PacketQueue
begin

text \<open>
  The second half of Common/EventRingList.c: four lists used in turn. Events are copied into
  the write list; when one does not fit, the next list becomes the write list, and when that
  is the one to be read next, its events are lost. A process reads one list at a time. Each
  operation is taken as one step, but a list stays locked when the code leaves it so.
\<close>

section \<open>Lists\<close>

text \<open>The data of a new list is what the memory holds.\<close>

definition CreateEventList :: "EventRingList \<Rightarrow> fault + EventList option \<times> EventRingList" where
  "CreateEventList r =
     (case next_block r of
        (None, r1) \<Rightarrow> Inr (None, r1)
      | (Some (_, content), r1) \<Rightarrow>
          if sizeof_EventList + event_list_length r < sizeof_EventList then Inl OutOfBounds
          else Inr (Some \<lparr>head_event_offset = 0, tail_event_offset = 0, locked = False, ready = True, space_used = 0,
                          space_remaining = event_list_length r - 0, data_length = event_list_length r,
                          data = map (\<lambda>i. content (36 + i)) [0..<unat (event_list_length r)]\<rparr>, r1))"

definition ResetEventList :: "EventRingList \<Rightarrow> EventList \<Rightarrow> fault + EventList" where
  "ResetEventList r l =
     fbind (write_bytes (data l) 0 (replicate (unat (event_list_length r)) 0)) (\<lambda>mem.
       Inr (l\<lparr>head_event_offset := 0, tail_event_offset := 0, ready := True, space_used := 0,
              space_remaining := data_length l, data := mem\<rparr>))"

definition list_at :: "EventRingList \<Rightarrow> nat \<Rightarrow> fault + EventList" where
  "list_at r i =
     (if i < length (event_lists r) then
        case event_lists r ! i of None \<Rightarrow> Inl NullDeref | Some l \<Rightarrow> Inr l
      else Inl OutOfBounds)"

definition put_list :: "EventRingList \<Rightarrow> nat \<Rightarrow> EventList \<Rightarrow> EventRingList" where
  "put_list r i l = r\<lparr>event_lists := (event_lists r)[i := Some l]\<rparr>"

text \<open>KeAcquireSpinLock on the lock of a list spins while the lock is held.\<close>

definition lock_list :: "EventRingList \<Rightarrow> nat \<Rightarrow> fault + EventRingList" where
  "lock_list r i = fbind (list_at r i) (\<lambda>l. if locked l then Inl Deadlock else Inr (put_list r i (l\<lparr>locked := True\<rparr>)))"

definition ReleaseEventList :: "EventRingList \<Rightarrow> nat \<Rightarrow> fault + EventRingList" where
  "ReleaseEventList r i = fbind (list_at r i) (\<lambda>l. Inr (put_list r i (l\<lparr>locked := False\<rparr>)))"

section \<open>Reading and writing\<close>

text \<open>The list that is read, locked. (The number of lists is 4 whenever there are lists.)\<close>

definition AcquireReadEventList :: "EventRingList \<Rightarrow> fault + nat \<times> EventRingList" where
  "AcquireReadEventList r =
     fbind (list_at r (read_list r)) (\<lambda>l.
     let r1 = put_list r (read_list r) (l\<lparr>ready := False\<rparr>);
         rp = (read_position r1 + 1) mod num_event_lists r1;
         r2 = r1\<lparr>read_position := rp\<rparr>
     in fbind (if rp = write_position r2 then
                 let wp = (write_position r2 + 1) mod num_event_lists r2
                 in fbind (list_at r2 (unat wp)) (\<lambda>w. fbind (ResetEventList r2 w) (\<lambda>w'.
                      Inr (put_list (r2\<lparr>write_position := wp, write_list := unat wp\<rparr>) (unat wp) w')))
               else Inr r2) (\<lambda>r3.
        fbind (lock_list r3 (read_list r3)) (\<lambda>r4.
        Inr (read_list r, r4\<lparr>read_list := unat rp\<rparr>))))"

text \<open>Called with the write list locked; the lock is given back and that of the next list taken.\<close>

definition AcquireNextWriteEventList :: "EventRingList \<Rightarrow> fault + nat \<times> EventRingList" where
  "AcquireNextWriteEventList r =
     fbind (list_at r (write_list r)) (\<lambda>l.
     let r1 = put_list r (write_list r) (l\<lparr>ready := False, locked := False\<rparr>);
         wp = (write_position r1 + 1) mod num_event_lists r1;
         r2 = r1\<lparr>write_position := wp\<rparr>;
         r3 = (if wp = read_position r2 then
                 let rp = (read_position r2 + 1) mod num_event_lists r2
                 in r2\<lparr>read_position := rp, read_list := unat rp\<rparr>
               else r2)
     in fbind (lock_list r3 (unat wp)) (\<lambda>r4.
        fbind (list_at r4 (unat wp)) (\<lambda>w.
        fbind (ResetEventList r4 w) (\<lambda>w'.
        Inr (unat wp, (put_list r4 (unat wp) w')\<lparr>write_list := unat wp\<rparr>)))))"

text \<open>The loop goes on until the write list is ready; None: for ever.\<close>

partial_function (option) AcquireWriteEventList :: "EventRingList \<Rightarrow> u32 \<Rightarrow> (fault + nat \<times> EventRingList) option" where
  "AcquireWriteEventList r write_size =
     (case lock_list r (write_list r) of
        Inl e \<Rightarrow> Some (Inl e)
      | Inr r1 \<Rightarrow>
          (case list_at r1 (write_list r1) of
             Inl e \<Rightarrow> Some (Inl e)
           | Inr l \<Rightarrow>
               if ready l then
                 Some (if write_size > space_remaining l then AcquireNextWriteEventList r1 else Inr (write_list r1, r1))
               else
                 (case ReleaseEventList r1 (write_list r1) of
                    Inl e \<Rightarrow> Some (Inl e)
                  | Inr r2 \<Rightarrow> AcquireWriteEventList r2 write_size)))"

text \<open>The event in the buffer is copied behind those of the list; offsets are from the list.\<close>

definition append_event :: "EventList \<Rightarrow> EventBuffer \<Rightarrow> fault + u32 \<times> EventList" where
  "append_event l b =
     fbind (read_bytes (buffer b) 0 (unat (buffer_used b))) (\<lambda>e.
     fbind (write_bytes (data l) (unat (space_used l)) e) (\<lambda>mem.
     let offset = space_used l + sizeof_EventList
     in fbind (if tail_event_offset l \<noteq> 0 then
                 if tail_event_offset l < sizeof_EventList then Inl BadPointer
                 else write32 mem (unat (tail_event_offset l - sizeof_EventList)) offset
               else Inr mem) (\<lambda>mem1.
        Inr (offset, l\<lparr>space_used := space_used l + buffer_used b, space_remaining := space_remaining l - buffer_used b,
               head_event_offset := (if head_event_offset l = 0 then offset else head_event_offset l),
               tail_event_offset := offset, data := mem1\<rparr>))))"

definition AddEvent :: "EventRingList \<Rightarrow> u32 \<Rightarrow> (fault + u32 \<times> EventRingList) option" where
  "AddEvent r event_id =
     (case buffer_at r event_id of
        Inl e \<Rightarrow> Some (Inl e)
      | Inr b \<Rightarrow>
          (case AcquireWriteEventList r (buffer_used b) of
             None \<Rightarrow> None
           | Some (Inl e) \<Rightarrow> Some (Inl e)
           | Some (Inr (i, r1)) \<Rightarrow> Some
               (fbind (list_at r1 i) (\<lambda>l.
                fbind (append_event l b) (\<lambda>(offset, l').
                fbind (ReleaseEventList (put_buffer (put_list r1 i l') event_id (ResetEventBuffer b)) i) (\<lambda>r2.
                Inr (offset, r2)))))))"

section \<open>Making and deleting a ring list\<close>

definition empty_ring :: "(addr \<times> (nat \<Rightarrow> u8)) option list \<Rightarrow> EventRingList" where
  "empty_ring p = \<lparr>num_event_lists = 0, event_lists = replicate MAX_EVENT_LISTS None, read_list = 0, write_list = 0,
     read_position = 0, write_position = 0, event_list_length = 0, key_list = [], key_list_length = 0,
     allocating_buffers = False, event_buffer_length = 0, num_event_buffers = 0,
     event_buffers = replicate MAX_EVENT_BUFFERS None, pool = p\<rparr>"

text \<open>The blocks of the pool that are given back are counted.\<close>

definition DeleteEventRingList :: "EventRingList \<Rightarrow> nat \<times> EventRingList" where
  "DeleteEventRingList r =
     (length (filter (\<lambda>b. b \<noteq> None) (take (unat (num_event_buffers r)) (event_buffers r))) +
      length (filter (\<lambda>l. l \<noteq> None) (take (unat (num_event_lists r)) (event_lists r))) + length (key_list r),
      empty_ring (pool r))"

fun initial_buffers :: "nat \<Rightarrow> nat \<Rightarrow> EventRingList \<Rightarrow> fault + bool \<times> EventRingList" where
  "initial_buffers i 0 r = Inr (False, r)"
| "initial_buffers i (Suc n) r =
     (if MAX_EVENT_BUFFERS \<le> i then Inl OutOfBounds
      else fbind (CreateEventBuffer r) (\<lambda>(b, r1).
        if b = None then Inr (True, r1)
        else initial_buffers (Suc i) n (r1\<lparr>event_buffers := (event_buffers r1)[i := b]\<rparr>)))"

fun initial_lists :: "nat \<Rightarrow> nat \<Rightarrow> EventRingList \<Rightarrow> fault + bool \<times> EventRingList" where
  "initial_lists i 0 r = Inr (False, r)"
| "initial_lists i (Suc n) r =
     (if MAX_EVENT_LISTS \<le> i then Inl OutOfBounds
      else fbind (CreateEventList r) (\<lambda>(l, r1).
        if l = None then Inr (True, r1)
        else initial_lists (Suc i) n (r1\<lparr>event_lists := (event_lists r1)[i := l]\<rparr>)))"

text \<open>The arguments for the keys are not used. The number of the blocks given back comes along.\<close>

definition InitialiseEventRingList ::
    "u32 \<Rightarrow> u32 \<Rightarrow> u32 \<Rightarrow> (addr \<times> (nat \<Rightarrow> u8)) option list \<Rightarrow> fault + nat \<times> EventRingList" where
  "InitialiseEventRingList reserve_length initial_num_buffers buf_length p =
     (let r0 = (empty_ring p)\<lparr>num_event_buffers := initial_num_buffers, event_buffer_length := buf_length,
                 event_list_length := reserve_length, num_event_lists := 4\<rparr>
      in fbind (initial_buffers 0 (unat initial_num_buffers) r0) (\<lambda>(error1, r1).
         fbind (initial_lists 0 4 r1) (\<lambda>(error2, r2).
         let r3 = r2\<lparr>read_position := 0, write_position := 1, read_list := 0, write_list := 1\<rparr>
         in if error1 \<or> error2 then Inr (DeleteEventRingList r3) else Inr (0, r3))))"

section \<open>Requests of the process\<close>

text \<open>
  The buffer of the process, its length, whether probing or writing it raises an exception
  (with which status), and what stands in the lock of the list while it is copied.
\<close>

record ring_request =
  rr_code :: u32
  rr_user_buffer :: addr
  rr_output_length :: u32
  rr_probe :: "NTSTATUS option"
  rr_copy :: "NTSTATUS option"
  rr_lock_image :: "u32 \<times> u32"

definition GET_LIST_SIZE :: u32 where "GET_LIST_SIZE = 0x22E043"
definition GET_KEYS_SIZE :: u32 where "GET_KEYS_SIZE = 0x22E047"
definition GET_KEYS :: u32 where "GET_KEYS = 0x22E04B"
definition GET_LIST :: u32 where "GET_LIST = 0x22E04F"

lemma ring_codes [simp]:
  "GET_LIST_SIZE = 0x22E043" "GET_KEYS_SIZE = 0x22E047" "GET_KEYS = 0x22E04B" "GET_LIST = 0x22E04F"
  by (simp_all add: GET_LIST_SIZE_def GET_KEYS_SIZE_def GET_KEYS_def GET_LIST_def)

text \<open>A size is reported: the status and the bytes written.\<close>

definition size_request :: "ring_request \<Rightarrow> u32 \<Rightarrow> NTSTATUS \<times> u8 list" where
  "size_request q n =
     (case rr_probe q of
        Some s \<Rightarrow> (s, [])
      | None \<Rightarrow>
          if rr_user_buffer q = NULL then (STATUS_UNSUCCESSFUL, [])
          else if rr_output_length q < 4 then (STATUS_BUFFER_TOO_SMALL, [])
          else case rr_copy q of Some s \<Rightarrow> (s, []) | None \<Rightarrow> (STATUS_SUCCESS, le_bytes32 n))"

definition HandleGetEventRingListListSizeIoctl :: "EventRingList \<Rightarrow> ring_request \<Rightarrow> NTSTATUS \<times> u8 list" where
  "HandleGetEventRingListListSizeIoctl r q = size_request q (event_list_length r)"

definition HandleGetEventRingListKeysSizeIoctl :: "EventRingList \<Rightarrow> ring_request \<Rightarrow> NTSTATUS \<times> u8 list" where
  "HandleGetEventRingListKeysSizeIoctl r q = size_request q (key_list_length r)"

text \<open>A key as it is in the memory of the kernel, with the pointer to the next key.\<close>

fun with_next :: "Key list \<Rightarrow> (addr \<times> Key) list" where
  "with_next [] = []"
| "with_next (k # ks) = ((case ks of [] \<Rightarrow> NULL | k' # _ \<Rightarrow> key_addr k'), k) # with_next ks"

definition key_bytes :: "addr \<times> Key \<Rightarrow> u8 list" where
  "key_bytes nk = (case nk of (nx, k) \<Rightarrow> le_bytes32 nx @ le_bytes32 (key_hash k) @ le_bytes32 (key_length k) @ key k)"

definition keys_bytes :: "Key list \<Rightarrow> u8 list" where
  "keys_bytes ks = concat (map key_bytes (with_next ks))"

definition HandleGetEventRingListKeysIoctl :: "EventRingList \<Rightarrow> ring_request \<Rightarrow> NTSTATUS \<times> u8 list" where
  "HandleGetEventRingListKeysIoctl r q =
     (if rr_user_buffer q = NULL then (STATUS_UNSUCCESSFUL, [])
      else if rr_output_length q < key_list_length r then (STATUS_BUFFER_TOO_SMALL, [])
      else case rr_probe q of
        Some s \<Rightarrow> (s, [])
      | None \<Rightarrow> (case rr_copy q of Some s \<Rightarrow> (s, []) | None \<Rightarrow> (STATUS_SUCCESS, keys_bytes (key_list r))))"

text \<open>The structure in front of the data: next list, head, tail, lock, ready and the three sizes.\<close>

definition list_header :: "u32 \<times> u32 \<Rightarrow> EventList \<Rightarrow> u8 list" where
  "list_header lock l =
     le_bytes32 NULL @ le_bytes32 (head_event_offset l) @ le_bytes32 (tail_event_offset l) @
     le_bytes32 (fst lock) @ le_bytes32 (snd lock) @ le_bytes32 (if ready l then 1 else 0) @
     le_bytes32 (space_used l) @ le_bytes32 (space_remaining l) @ le_bytes32 (data_length l)"

lemma length_list_header [simp]: "length (list_header lock l) = 36"
  by (simp add: list_header_def)

text \<open>An exception while the list is copied leaves its lock held.\<close>

definition HandleGetEventRingListListIoctl ::
    "EventRingList \<Rightarrow> ring_request \<Rightarrow> fault + NTSTATUS \<times> u8 list \<times> EventRingList" where
  "HandleGetEventRingListListIoctl r q =
     (if rr_user_buffer q = NULL then Inr (STATUS_UNSUCCESSFUL, [], r)
      else if rr_output_length q < event_list_length r then Inr (STATUS_BUFFER_TOO_SMALL, [], r)
      else case rr_probe q of
        Some s \<Rightarrow> Inr (s, [], r)
      | None \<Rightarrow>
          fbind (AcquireReadEventList r) (\<lambda>(i, r1).
          fbind (list_at r1 i) (\<lambda>l.
          case rr_copy q of
            Some s \<Rightarrow> Inr (s, [], r1)
          | None \<Rightarrow>
              fbind (read_bytes (list_header (rr_lock_image q) l @ data l) 0 (unat (space_used l + sizeof_EventList))) (\<lambda>out.
              fbind (ReleaseEventList r1 i) (\<lambda>r2. Inr (STATUS_SUCCESS, out, r2))))))"

text \<open>The number of the bytes written is the length of what is written.\<close>

definition HandleEventRingListIoctl ::
    "EventRingList \<Rightarrow> ring_request \<Rightarrow> fault + NTSTATUS \<times> u8 list \<times> EventRingList" where
  "HandleEventRingListIoctl r q =
     (if rr_code q = GET_LIST_SIZE then
        let (s, out) = HandleGetEventRingListListSizeIoctl r q in Inr (s, out, r)
      else if rr_code q = GET_KEYS_SIZE then
        let (s, out) = HandleGetEventRingListKeysSizeIoctl r q in Inr (s, out, r)
      else if rr_code q = GET_KEYS then
        let (s, out) = HandleGetEventRingListKeysIoctl r q in Inr (s, out, r)
      else if rr_code q = GET_LIST then HandleGetEventRingListListIoctl r q
      else Inr (STATUS_UNSUCCESSFUL, [], r))"

section \<open>What the ring holds\<close>

text \<open>
  The lists from the one to be read to the one that is written hold events; \<open>segs\<close> are the
  bytes of these events, list by list, without the offsets that link them.
\<close>

definition list_holds :: "EventList \<Rightarrow> u8 list list \<Rightarrow> bool" where
  "list_holds l es \<longleftrightarrow> unat (space_used l) = chain_length es \<and>
     unat (space_used l) + unat (space_remaining l) = length (data l) \<and>
     take (unat (space_used l)) (data l) = chained 36 es 0 \<and>
     head_event_offset l = chain_head 36 es \<and> tail_event_offset l = chain_tail 36 es"

definition slot_ok :: "EventRingList \<Rightarrow> EventList \<Rightarrow> bool" where
  "slot_ok r l \<longleftrightarrow> \<not> locked l \<and> length (data l) = unat (event_list_length r) \<and> data_length l = event_list_length r"

definition idx :: "EventRingList \<Rightarrow> nat \<Rightarrow> nat" where
  "idx r k = (unat (read_position r) + k) mod 4"

definition ring_ok :: "EventRingList \<Rightarrow> u8 list list list \<Rightarrow> bool" where
  "ring_ok r segs \<longleftrightarrow> num_event_lists r = 4 \<and> length (event_lists r) = 16 \<and>
     unat (read_position r) < 4 \<and> read_list r = idx r 0 \<and>
     2 \<le> length segs \<and> length segs \<le> 4 \<and> unat (write_position r) = idx r (length segs - 1) \<and> write_list r = idx r (length segs - 1) \<and>
     unat (event_list_length r) + 36 < 2 ^ 32 \<and>
     (\<forall>i < 4. \<exists>l. event_lists r ! i = Some l \<and> slot_ok r l) \<and>
     (\<forall>k < length segs. list_holds (the (event_lists r ! idx r k)) (segs ! k)) \<and>
     ready (the (event_lists r ! write_list r))"

text \<open>What the operations do to it: a ring of four lists of a capacity, the oldest one dropped.\<close>

definition fits :: "nat \<Rightarrow> u8 list \<Rightarrow> u8 list list list \<Rightarrow> bool" where
  "fits cap e segs \<longleftrightarrow> chain_length (last segs) + (4 + length e) \<le> cap"

definition ring_put :: "nat \<Rightarrow> u8 list \<Rightarrow> u8 list list list \<Rightarrow> u8 list list list" where
  "ring_put cap e segs =
     (if fits cap e segs then butlast segs @ [last segs @ [e]]
      else if length segs < 4 then segs @ [[e]]
      else tl segs @ [[e]])"

definition ring_take :: "u8 list list list \<Rightarrow> u8 list list \<times> u8 list list list" where
  "ring_take segs = (hd segs, if length segs = 2 then tl segs @ [[]] else tl segs)"

lemma idx_less [simp]: "idx r k < 4" "idx r k < 16"
proof -
  show "idx r k < 4" by (simp add: idx_def)
  then show "idx r k < 16" by linarith
qed

lemma mod4_inj:
  assumes "k < 4" "j < 4"
  shows "((p + k) mod 4 = (p + j) mod 4) = (k = (j :: nat))"
proof -
  define s where "s = p mod 4"
  have "s < 4" by (simp add: s_def)
  then have "s = 0 \<or> s = 1 \<or> s = 2 \<or> s = 3" by linarith
  moreover have "k = 0 \<or> k = 1 \<or> k = 2 \<or> k = 3" "j = 0 \<or> j = 1 \<or> j = 2 \<or> j = 3" using assms by linarith+
  ultimately have "((s + k) mod 4 = (s + j) mod 4) = (k = j)"
    by (elim disjE) simp_all
  then show ?thesis by (simp add: s_def mod_simps)
qed

lemma idx_inj: "k < 4 \<Longrightarrow> j < 4 \<Longrightarrow> (idx r k = idx r j) = (k = j)"
  by (simp add: idx_def mod4_inj)

lemma unat_next: "unat (p :: u32) < 4 \<Longrightarrow> unat ((p + 1) mod 4) = (unat p + 1) mod 4"
  using unat_add_no_wrap[of p 1] by (simp add: unat_mod)

lemma list_at_ok: "ring_ok r segs \<Longrightarrow> i < 4 \<Longrightarrow> \<exists>l. list_at r i = Inr l \<and> event_lists r ! i = Some l \<and> slot_ok r l"
  by (force simp: ring_ok_def list_at_def)

lemma ring_ok_seg: "ring_ok r segs \<Longrightarrow> k < length segs \<Longrightarrow> list_holds (the (event_lists r ! idx r k)) (segs ! k)"
  by (simp add: ring_ok_def)

lemma list_at_put [simp]:
  "i < length (event_lists r) \<Longrightarrow> list_at (put_list r i l) j = (if i = j then Inr l else list_at r j)"
  by (simp add: list_at_def put_list_def nth_list_update)

lemma put_list_again [simp]: "put_list (put_list r i l) i l' = put_list r i l'"
  by (simp add: put_list_def)

lemma put_list_simps [simp]:
  "num_event_lists (put_list r i l) = num_event_lists r" "read_list (put_list r i l) = read_list r"
  "write_list (put_list r i l) = write_list r" "read_position (put_list r i l) = read_position r"
  "write_position (put_list r i l) = write_position r" "event_list_length (put_list r i l) = event_list_length r"
  "length (event_lists (put_list r i l)) = length (event_lists r)" "event_buffers (put_list r i l) = event_buffers r"
  "event_lists (put_list r i l) = (event_lists r)[i := Some l]"
  by (simp_all add: put_list_def)

text \<open>The position that list operations do not look at.\<close>

lemma list_at_positions [simp]:
  "list_at (r\<lparr>read_position := a\<rparr>) i = list_at r i" "list_at (r\<lparr>write_position := a\<rparr>) i = list_at r i"
  "list_at (r\<lparr>read_list := b\<rparr>) i = list_at r i" "list_at (r\<lparr>write_list := b\<rparr>) i = list_at r i"
  by (simp_all add: list_at_def)

lemma ResetEventList_ok:
  assumes "slot_ok r l" "event_list_length r' = event_list_length r"
  shows "\<exists>l'. ResetEventList r' l = Inr l' \<and> slot_ok r l' \<and> list_holds l' [] \<and> ready l'"
    and "\<exists>l'. ResetEventList r' (l\<lparr>locked := True\<rparr>) = Inr l' \<and> slot_ok r (l'\<lparr>locked := False\<rparr>) \<and> list_holds (l'\<lparr>locked := b\<rparr>) [] \<and> ready l' \<and> locked l'"
  using assms by (simp_all add: slot_ok_def ResetEventList_def write_bytes_def list_holds_def chain_head_def chain_tail_def)

text \<open>What is kept of the lists: the list at an index that is not touched.\<close>

lemma list_holds_flags [simp]:
  "list_holds (l\<lparr>ready := a\<rparr>) es = list_holds l es" "list_holds (l\<lparr>locked := b\<rparr>) es = list_holds l es"
  by (simp_all add: list_holds_def)

lemma slot_ok_flags [simp]:
  "slot_ok r (l\<lparr>ready := a\<rparr>) = slot_ok r l" "slot_ok r (l\<lparr>locked := False\<rparr>) = (length (data l) = unat (event_list_length r) \<and> data_length l = event_list_length r)"
  by (auto simp: slot_ok_def)

section \<open>Reading a list\<close>

lemma AcquireRead_refines:
  assumes "ring_ok r segs"
  shows "\<exists>l r1 r2. AcquireReadEventList r = Inr (read_list r, r1) \<and> list_at r1 (read_list r) = Inr l \<and>
     list_holds l (fst (ring_take segs)) \<and> length (data l) = unat (event_list_length r) \<and> data_length l = event_list_length r \<and> locked l \<and>
     ReleaseEventList r1 (read_list r) = Inr r2 \<and> ring_ok r2 (snd (ring_take segs)) \<and> (\<forall>k. idx r2 k = idx r (k + 1)) \<and>
     event_list_length r2 = event_list_length r \<and> event_buffers r2 = event_buffers r"
proof -
  let ?p = "idx r 0"
  let ?q = "idx r 1"
  have p: "read_list r = ?p" "num_event_lists r = 4" "unat (read_position r) < 4" "length (event_lists r) = 16"
    "unat (read_position r) = ?p" using assms by (auto simp: ring_ok_def idx_def)
  have len: "2 \<le> length segs" "length segs \<le> 4" using assms by (simp_all add: ring_ok_def)
  have w: "unat (write_position r) = idx r (length segs - 1)" "write_list r = idx r (length segs - 1)" using assms by (simp_all add: ring_ok_def)
  obtain l where l: "list_at r ?p = Inr l" "event_lists r ! ?p = Some l" "slot_ok r l"
    using list_at_ok[OF assms, of ?p] by auto
  have "list_holds (the (event_lists r ! idx r 0)) (segs ! 0)" 
    using len(1) by (intro ring_ok_seg[OF assms]) linarith
  then have hl: "list_holds l (hd segs)" using l(2) len(1) by (cases segs) simp_all
  have rp: "unat ((read_position r + 1) mod 4) = ?q" using unat_next[OF p(3)] by (simp add: idx_def)
  have eq: "((read_position r + 1) mod 4 = write_position r) = (length segs = 2)"
    using rp w(1) len idx_inj[of 1 "length segs - 1" r] by (auto simp: word_unat_eq_iff)
  have pl: "\<not> locked l" "length (data l) = unat (event_list_length r)" "data_length l = event_list_length r"
    using l(3) by (simp_all add: slot_ok_def)
  define l1 where "l1 = l\<lparr>ready := False, locked := True\<rparr>"
  define l2 where "l2 = l\<lparr>ready := False, locked := False\<rparr>"
  show ?thesis
  proof (cases "length segs = 2")
    case True
    let ?z = "idx r 2"
    have wp: "unat ((write_position r + 1) mod 4) = ?z"
      using unat_next[of "write_position r"] w(1) True by (simp add: idx_def mod_simps)
    obtain z where z: "list_at r ?z = Inr z" "event_lists r ! ?z = Some z" "slot_ok r z"
      using list_at_ok[OF assms, of ?z] by auto
    have pz: "?p \<noteq> ?z" "?p \<noteq> ?q" "?q \<noteq> ?z" using idx_inj[of 0 2 r] idx_inj[of 0 1 r] idx_inj[of 1 2 r] by simp_all
    obtain z' where z': "ResetEventList (put_list r ?p (l\<lparr>ready := False\<rparr>)\<lparr>read_position := (read_position r + 1) mod 4\<rparr>) z = Inr z'"
      "slot_ok r z'" "list_holds z' []" "ready z'"
      using ResetEventList_ok(1)[OF z(3), of "put_list r ?p (l\<lparr>ready := False\<rparr>)\<lparr>read_position := (read_position r + 1) mod 4\<rparr>"] by auto
    define r3 where "r3 = put_list (put_list r ?p (l\<lparr>ready := False\<rparr>)\<lparr>read_position := (read_position r + 1) mod 4,
      write_position := (write_position r + 1) mod 4, write_list := ?z\<rparr>) ?z z'"
    let ?r1 = "put_list r3 ?p l1\<lparr>read_list := ?q\<rparr>"
    let ?r2 = "put_list ?r1 ?p l2"
    have lz: "?p < length (event_lists r)" "?z < length (event_lists r)" using p(4) idx_less(1)[of r 0] idx_less(1)[of r 2] by linarith+
    have a: "AcquireReadEventList r = Inr (?p, ?r1)"
      using l z z' pz p lz eq True rp wp pl
      by (simp add: AcquireReadEventList_def lock_list_def r3_def l1_def Let_def)
    have b: "list_at ?r1 ?p = Inr l1" "ReleaseEventList ?r1 ?p = Inr ?r2"
      using lz by (simp_all add: ReleaseEventList_def r3_def l1_def l2_def)
    have i: "idx ?r2 k = idx r (k + 1)" for k using rp by (simp add: r3_def idx_def mod_simps add_ac)
    have q2: "\<exists>m. event_lists r ! ?q = Some m" using list_at_ok[OF assms, of ?q] by auto
    have seg: "list_holds (the (event_lists r ! ?q)) (segs ! 1)" using ring_ok_seg[OF assms, of 1] True by simp
    have slots: "\<exists>m. event_lists ?r2 ! i = Some m \<and> slot_ok ?r2 m" if i: "i < 4" for i
    proof -
      obtain m where "event_lists r ! i = Some m" "slot_ok r m" using list_at_ok[OF assms i] by auto
      then show ?thesis using i z'(2) pl lz by (auto simp: r3_def l2_def nth_list_update slot_ok_def)
    qed
    have tl: "snd (ring_take segs) = [segs ! 1, []]" using True
      by (cases segs) (auto simp: ring_take_def length_Suc_conv numeral_2_eq_2)
    have "ring_ok ?r2 (snd (ring_take segs))"
      unfolding ring_ok_def tl
      using assms p rp wp True w i[of 0] i[of 1] slots seg z' pz lz
      by (auto simp: r3_def ring_ok_def nth_list_update less_Suc_eq numeral_2_eq_2)
    then show ?thesis using a b hl pl p(1) True i
      by (intro exI[of _ l1] exI[of _ ?r1] exI[of _ ?r2]) (simp add: ring_take_def l1_def r3_def)
  next
    case False
    let ?r1 = "put_list (put_list r ?p (l\<lparr>ready := False\<rparr>)\<lparr>read_position := (read_position r + 1) mod 4\<rparr>) ?p l1\<lparr>read_list := ?q\<rparr>"
    let ?r2 = "put_list ?r1 ?p l2"
    have lz: "?p < length (event_lists r)" using p(4) idx_less(1)[of r 0] by linarith
    have a: "AcquireReadEventList r = Inr (?p, ?r1)"
      using l p lz eq False rp pl
      by (simp add: AcquireReadEventList_def lock_list_def l1_def Let_def)
    have b: "list_at ?r1 ?p = Inr l1" "ReleaseEventList ?r1 ?p = Inr ?r2"
      using lz by (simp_all add: ReleaseEventList_def l1_def l2_def)
    have i: "idx ?r2 k = idx r (k + 1)" for k using rp by (simp add: idx_def mod_simps add_ac)
    have slots: "\<exists>m. event_lists ?r2 ! i = Some m \<and> slot_ok ?r2 m" if i: "i < 4" for i
    proof -
      obtain m where "event_lists r ! i = Some m" "slot_ok r m" using list_at_ok[OF assms i] by auto
      then show ?thesis using i pl lz by (auto simp: l2_def nth_list_update slot_ok_def)
    qed
    have pk: "?p \<noteq> idx r (Suc k)" if "Suc k < 4" for k using idx_inj[of 0 "Suc k" r] that by simp
    have tl: "snd (ring_take segs) = tl segs" using False by (simp add: ring_take_def)
    have segs: "list_holds (the (event_lists ?r2 ! idx ?r2 k)) (tl segs ! k)" if "k < length (tl segs)" for k
      using ring_ok_seg[OF assms, of "Suc k"] pk[of k] that len lz i[of k] by (simp add: nth_tl)
    have len': "2 \<le> length (tl segs)" "length (tl segs) \<le> 4" using len False by auto
    have rest: "ready (the (event_lists r ! write_list r))" "unat (event_list_length r) + 36 < 2 ^ 32"
      using assms unfolding ring_ok_def by blast+
    have "length segs - 1 = length (tl segs) - 1 + 1" using len by simp
    then have "idx ?r2 (length (tl segs) - 1) = idx r (length segs - 1)" using i[of "length (tl segs) - 1"] by metis
    moreover have "?p \<noteq> write_list r" using w(2) len idx_inj[of 0 "length segs - 1" r] by simp
    ultimately have "ring_ok ?r2 (snd (ring_take segs))"
      unfolding ring_ok_def tl
      using p rp False w i[of 0] slots segs lz len' rest by simp
    then show ?thesis using a b hl pl p(1) i
      by (intro exI[of _ l1] exI[of _ ?r1] exI[of _ ?r2]) (simp add: ring_take_def l1_def)
  qed
qed

section \<open>Writing an event\<close>

text \<open>A buffer with an event: its bytes after the first word, which is 0, are \<open>e\<close>.\<close>

definition event_in :: "EventBuffer \<Rightarrow> u8 list \<Rightarrow> bool" where
  "event_in b e \<longleftrightarrow> unat (buffer_used b) = 4 + length e \<and> take (unat (buffer_used b)) (buffer b) = le_bytes32 0 @ e \<and>
     unat (buffer_used b) \<le> length (buffer b)"

lemma append_event_holds:
  assumes l: "list_holds l es" "unat n + 36 < 2 ^ 32" "length (data l) = unat n"
    and e: "event_in b e" "chain_length es + (4 + length e) \<le> unat n"
  shows "\<exists>off l'. append_event l b = Inr (off, l') \<and> list_holds l' (es @ [e]) \<and> locked l' = locked l \<and> ready l' = ready l \<and>
     data_length l' = data_length l \<and> length (data l') = length (data l)"
proof -
  have used: "unat (space_used l) = chain_length es" "take (unat (space_used l)) (data l) = chained 36 es 0"
    "unat (space_used l) + unat (space_remaining l) = length (data l)"
    "head_event_offset l = chain_head 36 es" "tail_event_offset l = chain_tail 36 es" using l(1) unfolding list_holds_def by blast+
  have eb: "unat (buffer_used b) = 4 + length e" using e(1) by (simp add: event_in_def)
  have r: "read_bytes (buffer b) 0 (unat (buffer_used b)) = Inr (le_bytes32 0 @ e)"
  proof -
    have "take (unat (buffer_used b)) (buffer b) = le_bytes32 0 @ e" "unat (buffer_used b) \<le> length (buffer b)"
      using e(1) unfolding event_in_def by blast+
    then show ?thesis by (simp add: read_bytes_def del: take_append)
  qed
  have "chain_length es + length (le_bytes32 0 @ e) \<le> length (data l)" using e(2) l(3) by simp
  then obtain pre old rest where p: "data l = pre @ old @ rest" "length pre = chain_length es" "length old = length (le_bytes32 0 @ e)"
    "write_bytes (data l) (chain_length es) (le_bytes32 0 @ e) = Inr (pre @ (le_bytes32 0 @ e) @ rest)" by (rule write_bytes_cases)
  have pre: "pre = chained 36 es 0" using used(1,2) p(1,2) by simp
  let ?o = "space_used l + sizeof_EventList"
  have o: "?o = of_nat (36 + chain_length es)" using used(1)
    by (metis add.commute of_nat_add of_nat_numeral of_nat_unat ring_sizes(7) ucast_id)
  have lim: "36 + chain_length es < 2 ^ 32" using l(2) e(2) by simp
  have tl: "(if tail_event_offset l \<noteq> 0 then
       if tail_event_offset l < sizeof_EventList then Inl BadPointer
       else write32 (pre @ (le_bytes32 0 @ e) @ rest) (unat (tail_event_offset l - sizeof_EventList)) ?o
     else Inr (pre @ (le_bytes32 0 @ e) @ rest)) = Inr (chained 36 (es @ [e]) 0 @ rest)"
  proof (cases "es = []")
    case True
    then show ?thesis using used(5) pre by (simp add: chain_tail_def)
  next
    case False
    have t: "tail_event_offset l \<noteq> 0" "unat (tail_event_offset l) = 36 + chain_length (butlast es)"
      using used(5) chain_tail_0[of 36 es] unat_chain_tail[OF False lim] False lim by simp_all
    then have "\<not> tail_event_offset l < 36" "unat (tail_event_offset l - 36) = chain_length (butlast es)"
      by (simp_all add: word_less_nat_alt unat_sub word_le_nat_alt)
    then show ?thesis using t(1) write32_last[OF False, of "[]" 36 0 "(le_bytes32 0 @ e) @ rest" ?o] o
      by (simp add: pre chained_snoc add.commute)
  qed
  have hd: "(if head_event_offset l = 0 then ?o else head_event_offset l) = chain_head 36 (es @ [e])"
    using used(4) chain_head_0[of 36 es] o by (simp add: chain_head_def)
  have u1: "unat (space_used l + buffer_used b) = chain_length (es @ [e])"
    using used(1) eb e(2) l(2) unat_add_no_wrap[of "space_used l" "buffer_used b"] by simp
  have "unat (buffer_used b) \<le> unat (space_remaining l)" using used(1,3) eb e(2) l(3) by simp
  then have u2: "unat (space_remaining l - buffer_used b) = unat (space_remaining l) - unat (buffer_used b)"
    by (simp add: unat_sub word_le_nat_alt)
  let ?l' = "l\<lparr>space_used := space_used l + buffer_used b, space_remaining := space_remaining l - buffer_used b,
     head_event_offset := chain_head 36 (es @ [e]), tail_event_offset := ?o, data := chained 36 (es @ [e]) 0 @ rest\<rparr>"
  have a: "append_event l b = Inr (?o, ?l')"
    using r p(4) used(1) tl hd by (simp only: append_event_def fbind_Inr Let_def)
  have "length (chained 36 (es @ [e]) 0 @ rest) = length (data l)" using p(1-3) by simp
  moreover have "list_holds ?l' (es @ [e])"
    using u1 u2 eb used(1,3) e(2) l(3) p(1-3) o by (simp add: list_holds_def)
  ultimately show ?thesis using a by auto
qed

lemma put_buffer_lists [simp]:
  "event_lists (put_buffer r i b) = event_lists r" "num_event_lists (put_buffer r i b) = num_event_lists r"
  "read_list (put_buffer r i b) = read_list r" "write_list (put_buffer r i b) = write_list r"
  "read_position (put_buffer r i b) = read_position r" "write_position (put_buffer r i b) = write_position r"
  "event_list_length (put_buffer r i b) = event_list_length r" "list_at (put_buffer r i b) = list_at r"
  "idx (put_buffer r i b) = idx r"
  by (simp_all add: put_buffer_def list_at_def idx_def fun_eq_iff)

lemma ring_ok_put_buffer [simp]: "ring_ok (put_buffer r i b) segs = ring_ok r segs"
  by (simp add: ring_ok_def slot_ok_def)

text \<open>The write list, locked, after the choice between it and the next one.\<close>

lemma AcquireWrite_ready:
  assumes "list_at r (write_list r) = Inr l" "\<not> locked l" "ready l" "write_list r < length (event_lists r)"
  shows "AcquireWriteEventList r n =
     Some (if n > space_remaining l then AcquireNextWriteEventList (put_list r (write_list r) (l\<lparr>locked := True\<rparr>))
           else Inr (write_list r, put_list r (write_list r) (l\<lparr>locked := True\<rparr>)))"
  using assms by (subst AcquireWriteEventList.simps) (simp add: lock_list_def)

lemma ring_ok_write:
  assumes "ring_ok r segs"
  shows "\<exists>l. list_at r (write_list r) = Inr l \<and> event_lists r ! write_list r = Some l \<and> slot_ok r l \<and> ready l \<and> list_holds l (last segs)"
proof -
  have w: "write_list r = idx r (length segs - 1)" "segs \<noteq> []" "ready (the (event_lists r ! write_list r))"
    using assms by (auto simp: ring_ok_def)
  then obtain l where l: "list_at r (write_list r) = Inr l" "event_lists r ! write_list r = Some l" "slot_ok r l"
    using list_at_ok[OF assms, of "write_list r"] by auto
  moreover have "list_holds l (last segs)"
    using ring_ok_seg[OF assms, of "length segs - 1"] w l(2) by (simp add: last_conv_nth)
  ultimately show ?thesis using w(3) by simp
qed

lemma fits_space:
  assumes "list_holds l (last segs)" "slot_ok r l" "unat n = 4 + length e"
  shows "(n > space_remaining l) = (\<not> fits (unat (event_list_length r)) e segs)"
  using assms by (auto simp: fits_def list_holds_def slot_ok_def word_less_nat_alt)

text \<open>The list the event went into, unlocked, in its place.\<close>

lemma AddEvent_finish:
  assumes b: "buffer_at r i = Inr b" and acq: "AcquireWriteEventList r (buffer_used b) = Some (Inr (w, r1))"
    and w: "list_at r1 w = Inr l" "w < length (event_lists r1)" "event_buffers r1 = event_buffers r"
    and l: "list_holds l es" "unat (data_length l) + 36 < 2 ^ 32" "length (data l) = unat (data_length l)"
    and e: "event_in b e" "chain_length es + (4 + length e) \<le> unat (data_length l)"
  shows "\<exists>off l'. AddEvent r i = Some (Inr (off, put_list (put_buffer r1 i (ResetEventBuffer b)) w l')) \<and> list_holds l' (es @ [e]) \<and>
     \<not> locked l' \<and> ready l' = ready l \<and> data_length l' = data_length l \<and> length (data l') = length (data l)"
proof -
  obtain off l' where a: "append_event l b = Inr (off, l')" "list_holds l' (es @ [e])" "ready l' = ready l"
    "data_length l' = data_length l" "length (data l') = length (data l)"
    using append_event_holds[OF l e] by blast
  have "ReleaseEventList (put_buffer (put_list r1 w l') i (ResetEventBuffer b)) w =
      Inr (put_list (put_buffer (put_list r1 w l') i (ResetEventBuffer b)) w (l'\<lparr>locked := False\<rparr>))"
    using w(2) by (simp add: ReleaseEventList_def)
  moreover have "put_list (put_buffer (put_list r1 w l') i (ResetEventBuffer b)) w (l'\<lparr>locked := False\<rparr>) =
      put_list (put_buffer r1 i (ResetEventBuffer b)) w (l'\<lparr>locked := False\<rparr>)"
    by (simp add: put_list_def put_buffer_def)
  ultimately have "AddEvent r i = Some (Inr (off, put_list (put_buffer r1 i (ResetEventBuffer b)) w (l'\<lparr>locked := False\<rparr>)))"
    using b acq w(1) a(1) by (simp add: AddEvent_def)
  then show ?thesis using a by (intro exI[of _ off] exI[of _ "l'\<lparr>locked := False\<rparr>"]) simp
qed

lemma AddEvent_fits:
  assumes r: "ring_ok r segs" and b: "buffer_at r i = Inr b" "event_in b e" and f: "fits (unat (event_list_length r)) e segs"
  shows "\<exists>off r'. AddEvent r i = Some (Inr (off, r')) \<and> ring_ok r' (butlast segs @ [last segs @ [e]]) \<and>
     event_list_length r' = event_list_length r \<and> event_buffers r' = event_buffers (put_buffer r i (ResetEventBuffer b))"
proof -
  let ?w = "write_list r"
  obtain l where l: "list_at r ?w = Inr l" "event_lists r ! ?w = Some l" "slot_ok r l" "ready l" "list_holds l (last segs)"
    using ring_ok_write[OF r] by blast
  have s: "\<not> locked l" "length (data l) = unat (event_list_length r)" "data_length l = event_list_length r"
    using l(3) by (simp_all add: slot_ok_def)
  have c: "?w < 4" "length (event_lists r) = 16" "unat (event_list_length r) + 36 < 2 ^ 32" "2 \<le> length segs" "length segs \<le> 4"
    "?w = idx r (length segs - 1)" using r by (auto simp: ring_ok_def)
  have "unat (buffer_used b) = 4 + length e" using b(2) by (simp add: event_in_def)
  have lw: "?w < length (event_lists r)" using c(1,2) by linarith
  have "\<not> buffer_used b > space_remaining l" using \<open>unat (buffer_used b) = _\<close> fits_space[OF l(5,3)] f by simp
  then have acq: "AcquireWriteEventList r (buffer_used b) = Some (Inr (?w, put_list r ?w (l\<lparr>locked := True\<rparr>)))"
    using AcquireWrite_ready[OF l(1) s(1) l(4) lw] by simp
  obtain off l' where a: "AddEvent r i = Some (Inr (off, put_list (put_buffer (put_list r ?w (l\<lparr>locked := True\<rparr>)) i (ResetEventBuffer b)) ?w l'))"
    "list_holds l' (last segs @ [e])" "\<not> locked l'" "ready l'" "data_length l' = data_length l" "length (data l') = length (data l)"
    using AddEvent_finish[OF b(1) acq, of "l\<lparr>locked := True\<rparr>" "last segs" e] l s lw c(3) b(2) f by (auto simp: fits_def)
  let ?r' = "put_list (put_buffer (put_list r ?w (l\<lparr>locked := True\<rparr>)) i (ResetEventBuffer b)) ?w l'"
  let ?segs = "butlast segs @ [last segs @ [e]]"
  have i: "idx ?r' k = idx r k" for k by (simp add: idx_def)
  have slots: "\<exists>m. event_lists ?r' ! j = Some m \<and> slot_ok ?r' m" if "j < 4" for j
    using list_at_ok[OF r that] a(3-6) s c that by (auto simp: nth_list_update slot_ok_def)
  have seg: "list_holds (the (event_lists ?r' ! idx ?r' k)) (?segs ! k)" if "k < length ?segs" for k
  proof (cases "k = length segs - 1")
    case True
    then show ?thesis unfolding i using a(2) c by (simp add: nth_append)
  next
    case False
    then have k: "k < length segs - 1" using that c by simp
    then have "idx r k \<noteq> ?w" using c idx_inj[of k "length segs - 1" r] by simp
    then show ?thesis unfolding i using ring_ok_seg[OF r, of k] k c by (simp add: nth_append nth_butlast)
  qed
  have n: "length ?segs = length segs" using c(4) by simp
  have "ring_ok ?r' ?segs"
    unfolding ring_ok_def n using r slots seg[unfolded n] c a(4) i by (simp add: ring_ok_def)
  then show ?thesis using a(1) by (intro exI[of _ off] exI[of _ ?r']) (simp add: put_buffer_def)
qed

lemma idx_step: "0 < n \<Longrightarrow> (idx r (n - 1) + 1) mod 4 = idx r n"
  by (cases n) (simp_all add: idx_def mod_simps)

text \<open>The next list, cleared and locked; the oldest one is given up when it is that one.\<close>

definition drop_oldest :: "u8 list list list \<Rightarrow> nat" where
  "drop_oldest segs = (if length segs < 4 then 0 else 1)"

lemma next_slot_new:
  assumes "ring_ok r segs" "drop_oldest segs \<le> j" "j < length segs"
  shows "idx r j \<noteq> idx r (length segs)"
proof (cases "length segs < 4")
  case True
  then show ?thesis using assms idx_inj[of j "length segs" r] by simp
next
  case False
  then have "length segs = 4" "1 \<le> j" using assms by (auto simp: ring_ok_def drop_oldest_def)
  moreover have "idx r 4 = idx r 0" by (simp add: idx_def)
  ultimately show ?thesis using idx_inj[of j 0 r] assms(3) by simp
qed

lemma AcquireNextWrite_result:
  assumes r: "ring_ok r segs" and l: "list_at r (write_list r) = Inr l"
  shows "\<exists>r4 z. AcquireNextWriteEventList (put_list r (write_list r) (l\<lparr>locked := True\<rparr>)) = Inr (idx r (length segs), r4) \<and>
     event_lists r4 = (event_lists r)[write_list r := Some (l\<lparr>ready := False, locked := False\<rparr>), idx r (length segs) := Some z] \<and>
     slot_ok r (z\<lparr>locked := False\<rparr>) \<and> list_holds z [] \<and> ready z \<and>
     num_event_lists r4 = 4 \<and> (\<forall>k. idx r4 k = idx r (k + drop_oldest segs)) \<and> read_list r4 = idx r (drop_oldest segs) \<and>
     unat (read_position r4) < 4 \<and> unat (write_position r4) = idx r (length segs) \<and> write_list r4 = idx r (length segs) \<and>
     event_list_length r4 = event_list_length r \<and> event_buffers r4 = event_buffers r"
proof -
  let ?w = "write_list r" and ?z = "idx r (length segs)"
  have c: "?w < 16" "length (event_lists r) = 16" "num_event_lists r = 4" "unat (read_position r) < 4" "read_list r = idx r 0"
    "unat (write_position r) < 4" "length segs \<le> 4" "2 \<le> length segs" using r by (auto simp: ring_ok_def)
  have w: "?w = idx r (length segs - 1)" "unat (write_position r) = idx r (length segs - 1)" using r by (auto simp: ring_ok_def)
  have ne: "segs \<noteq> []" using c(8) by auto
  have wp: "unat ((write_position r + 1) mod 4) = ?z"
    using unat_next[OF c(6)] w(2) c(8) idx_step[of "length segs" r] ne by simp
  have rp: "unat ((read_position r + 1) mod 4) = idx r 1" using unat_next[OF c(4)] by (simp add: idx_def)
  have wz: "?w \<noteq> ?z" using next_slot_new[OF r, of "length segs - 1"] c w(1) by (auto simp: drop_oldest_def)
  have eq: "((write_position r + 1) mod 4 = read_position r) = (drop_oldest segs = 1)"
  proof -
    have "((write_position r + 1) mod 4 = read_position r) = (?z = idx r 0)"
      using wp c(4) by (auto simp: word_unat_eq_iff idx_def)
    also have "\<dots> = (length segs = 4)"
    proof (cases "length segs = 4")
      case False
      then show ?thesis using idx_inj[of "length segs" 0 r] c by auto
    qed (simp add: idx_def)
    finally show ?thesis using c by (auto simp: drop_oldest_def)
  qed
  obtain z0 where z0: "list_at r ?z = Inr z0" "slot_ok r z0" using list_at_ok[OF r, of ?z] by auto
  have u: "\<not> locked z0" using z0(2) by (simp add: slot_ok_def)
  define r1 where "r1 = put_list r ?w (l\<lparr>ready := False, locked := False\<rparr>)"
  define r3 where "r3 = (if drop_oldest segs = 1
      then r1\<lparr>write_position := (write_position r + 1) mod 4, read_position := (read_position r + 1) mod 4, read_list := idx r 1\<rparr>
      else r1\<lparr>write_position := (write_position r + 1) mod 4\<rparr>)"
  have r3: "list_at r3 ?z = Inr z0" "length (event_lists r3) = 16" "event_list_length r3 = event_list_length r"
    using z0(1) wz c by (simp_all add: r3_def r1_def)
  let ?r4 = "put_list r3 ?z (z0\<lparr>locked := True\<rparr>)"
  obtain z where z: "ResetEventList ?r4 (z0\<lparr>locked := True\<rparr>) = Inr z" "slot_ok r (z\<lparr>locked := False\<rparr>)" "list_holds z []" "ready z"
    using ResetEventList_ok(2)[OF z0(2), of ?r4 True] r3(3) by auto
  have "AcquireNextWriteEventList (put_list r ?w (l\<lparr>locked := True\<rparr>)) =
      fbind (lock_list r3 ?z) (\<lambda>r4. fbind (list_at r4 ?z) (\<lambda>w. fbind (ResetEventList r4 w) (\<lambda>w'.
        Inr (?z, (put_list r4 ?z w')\<lparr>write_list := ?z\<rparr>))))"
    using c wp rp eq by (simp add: AcquireNextWriteEventList_def Let_def r3_def r1_def)
  also have "\<dots> = Inr (?z, (put_list ?r4 ?z z)\<lparr>write_list := ?z\<rparr>)"
    using r3 u z(1) by (simp add: lock_list_def)
  finally have a: "AcquireNextWriteEventList (put_list r ?w (l\<lparr>locked := True\<rparr>)) = Inr (?z, (put_list ?r4 ?z z)\<lparr>write_list := ?z\<rparr>)" .
  let ?r5 = "(put_list ?r4 ?z z)\<lparr>write_list := ?z\<rparr>"
  have d: "drop_oldest segs = 0 \<or> drop_oldest segs = 1" by (simp add: drop_oldest_def)
  have "idx ?r5 k = idx r (k + drop_oldest segs)" for k
    using d rp by (auto simp: r3_def r1_def idx_def mod_simps add_ac)
  moreover have "event_lists ?r5 = (event_lists r)[?w := Some (l\<lparr>ready := False, locked := False\<rparr>), ?z := Some z]"
    by (simp add: r3_def r1_def)
  moreover have "num_event_lists ?r5 = 4" "unat (read_position ?r5) < 4" "unat (write_position ?r5) = ?z" "write_list ?r5 = ?z"
    "event_list_length ?r5 = event_list_length r" "event_buffers ?r5 = event_buffers r" "read_list ?r5 = idx r (drop_oldest segs)"
    using c wp rp d by (auto simp: r3_def r1_def)
  ultimately show ?thesis using a z(2-4) by blast
qed

lemma AddEvent_next:
  assumes r: "ring_ok r segs" and b: "buffer_at r i = Inr b" "event_in b e" "4 + length e \<le> unat (event_list_length r)"
    and f: "\<not> fits (unat (event_list_length r)) e segs"
  shows "\<exists>off r'. AddEvent r i = Some (Inr (off, r')) \<and> ring_ok r' (drop (drop_oldest segs) segs @ [[e]]) \<and>
     event_list_length r' = event_list_length r \<and> event_buffers r' = event_buffers (put_buffer r i (ResetEventBuffer b))"
proof -
  let ?w = "write_list r" and ?z = "idx r (length segs)" and ?d = "drop_oldest segs"
  let ?segs = "drop ?d segs @ [[e]]"
  obtain l where l: "list_at r ?w = Inr l" "event_lists r ! ?w = Some l" "slot_ok r l" "ready l" "list_holds l (last segs)"
    using ring_ok_write[OF r] by blast
  have s: "\<not> locked l" using l(3) by (simp add: slot_ok_def)
  have c: "?w < length (event_lists r)" "length (event_lists r) = 16" "2 \<le> length segs" "length segs \<le> 4" "unat (event_list_length r) + 36 < 2 ^ 32"
    using r by (auto simp: ring_ok_def)
  have w: "?w = idx r (length segs - 1)" using r by (simp add: ring_ok_def)
  obtain r4 z where n: "AcquireNextWriteEventList (put_list r ?w (l\<lparr>locked := True\<rparr>)) = Inr (?z, r4)"
    and ls: "event_lists r4 = (event_lists r)[?w := Some (l\<lparr>ready := False, locked := False\<rparr>), ?z := Some z]"
    and z: "slot_ok r (z\<lparr>locked := False\<rparr>)" "list_holds z []" "ready z"
    and p: "num_event_lists r4 = 4" "\<forall>k. idx r4 k = idx r (k + ?d)" "read_list r4 = idx r ?d" "unat (read_position r4) < 4"
      "unat (write_position r4) = ?z" "write_list r4 = ?z" "event_list_length r4 = event_list_length r" "event_buffers r4 = event_buffers r"
    using AcquireNextWrite_result[OF r l(1)] by (elim exE conjE)
  have "unat (buffer_used b) = 4 + length e" using b(2) by (simp add: event_in_def)
  then have "buffer_used b > space_remaining l" using fits_space[OF l(5,3)] f by simp
  then have acq: "AcquireWriteEventList r (buffer_used b) = Some (Inr (?z, r4))"
    using AcquireWrite_ready[OF l(1) s l(4) c(1)] n by simp
  have z4: "list_at r4 ?z = Inr z" "?z < length (event_lists r4)" using c(2) by (simp_all add: list_at_def ls)
  have zl: "length (data z) = unat (event_list_length r)" "data_length z = event_list_length r" using z(1) by simp_all
  obtain off z' where a: "AddEvent r i = Some (Inr (off, put_list (put_buffer r4 i (ResetEventBuffer b)) ?z z'))"
    "list_holds z' [e]" "\<not> locked z'" "ready z'" "data_length z' = data_length z" "length (data z') = length (data z)"
    using AddEvent_finish[OF b(1) acq z4 p(8) z(2) _ _ b(2)] zl c(5) b(3) z(3) by auto
  let ?r' = "put_list (put_buffer r4 i (ResetEventBuffer b)) ?z z'"
  have i: "idx ?r' k = idx r (k + ?d)" for k using p(2) by (simp add: idx_def)
  have ls': "event_lists ?r' = (event_lists r)[?w := Some (l\<lparr>ready := False, locked := False\<rparr>), ?z := Some z']"
    by (simp add: ls)
  have slots: "\<exists>m. event_lists ?r' ! j = Some m \<and> slot_ok ?r' m" if j: "j < 4" for j
    using list_at_ok[OF r j] l(3) a(3-6) zl c(1,2) j p(7) unfolding ls' by (auto simp: nth_list_update slot_ok_def)
  have d: "?d \<le> 1" "length segs - ?d \<le> 3" "?d + 1 < length segs" "2 \<le> length ?segs" "length ?segs \<le> 4" "length ?segs - 1 + ?d = length segs"
    using c(3,4) by (auto simp: drop_oldest_def)
  have seg: "list_holds (the (event_lists ?r' ! idx ?r' k)) (?segs ! k)" if k: "k < length ?segs" for k
  proof (cases "k = length segs - ?d")
    case True
    then have "k + ?d = length segs" using d by simp
    then show ?thesis unfolding i ls' using a(2) c(2) True d by (simp add: nth_append)
  next
    case False
    then have lt: "k + ?d < length segs" "k < length segs - ?d" using k d by simp_all
    have "idx r (k + ?d) \<noteq> ?z" using next_slot_new[OF r, of "k + ?d"] lt(1) by simp
    moreover have "list_holds (the (event_lists r ! idx r (k + ?d))) (segs ! (k + ?d))" by (rule ring_ok_seg[OF r lt(1)])
    ultimately show ?thesis unfolding i ls' using l(2) lt c(1,2) by (cases "idx r (k + ?d) = ?w") (simp_all add: nth_append add.commute)
  qed
  have "ring_ok ?r' ?segs"
    unfolding ring_ok_def using p i slots seg d c a(4) ls' by (simp add: ls)
  then show ?thesis using a(1) p(7,8) by (intro exI[of _ off] exI[of _ ?r']) (simp add: put_buffer_def)
qed

theorem AddEvent_refines:
  assumes "ring_ok r segs" "buffer_at r i = Inr b" "event_in b e" "4 + length e \<le> unat (event_list_length r)"
  shows "\<exists>off r'. AddEvent r i = Some (Inr (off, r')) \<and> ring_ok r' (ring_put (unat (event_list_length r)) e segs) \<and>
     event_list_length r' = event_list_length r \<and> event_buffers r' = event_buffers (put_buffer r i (ResetEventBuffer b))"
proof (cases "fits (unat (event_list_length r)) e segs")
  case True
  then show ?thesis using AddEvent_fits[OF assms(1-3)] by (simp add: ring_put_def)
next
  case False
  have "drop (drop_oldest segs) segs = (if length segs < 4 then segs else tl segs)"
    by (simp add: drop_oldest_def drop_Suc)
  then show ?thesis using AddEvent_next[OF assms False] False by (cases "length segs < 4") (simp_all add: ring_put_def)
qed

section \<open>The ring as a queue\<close>

text \<open>
  Delivered: the events a reader finds in what a request for the list wrote, by the head in
  the structure and the offsets. An event comes with the buffer it was put together in.
\<close>

datatype ring_op = Add u32 EventBuffer | Request ring_request

definition list_events :: "u8 list \<Rightarrow> u8 list list option" where
  "list_events out =
     (case read32 out 4 of Inl _ \<Rightarrow> None
      | Inr head \<Rightarrow> (case follow (read_body out) head of Some (Inr es) \<Rightarrow> Some es | _ \<Rightarrow> None))"

fun ring_step :: "ring_op \<Rightarrow> EventRingList \<Rightarrow> (u8 list list \<times> u8 list list \<times> EventRingList) option" where
  "ring_step (Add i b) r =
     (case AddEvent (put_buffer r i b) i of
        Some (Inr (_, r')) \<Rightarrow> Some ([drop 4 (take (unat (buffer_used b)) (buffer b))], [], r')
      | _ \<Rightarrow> None)"
| "ring_step (Request q) r =
     (case HandleEventRingListIoctl r q of
        Inr (status, out, r') \<Rightarrow>
          if rr_code q = GET_LIST \<and> status = STATUS_SUCCESS then
            (case list_events out of Some es \<Rightarrow> Some ([], es, r') | None \<Rightarrow> None)
          else Some ([], [], r')
      | Inl _ \<Rightarrow> None)"

text \<open>The specification: what each operation is to the ring of lists.\<close>

datatype spec_op = Put "u8 list" | Take | Nothing

fun spec_step :: "nat \<Rightarrow> spec_op \<Rightarrow> u8 list list list \<Rightarrow> (u8 list list \<times> u8 list list \<times> u8 list list list) option" where
  "spec_step cap (Put e) segs = Some ([e], [], if segs = [] then [[e]] else ring_put cap e segs)"
| "spec_step cap Take segs =
     Some ([], if segs = [] then [] else fst (ring_take segs), if segs = [] then [] else snd (ring_take segs))"
| "spec_step cap Nothing segs = Some ([], [], segs)"

fun spec_keeps :: "nat \<Rightarrow> spec_op \<Rightarrow> u8 list list list \<Rightarrow> bool" where
  "spec_keeps cap (Put e) segs = (segs = [] \<or> fits cap e segs \<or> length segs < 4)"
| "spec_keeps cap _ segs = True"

lemma concat_put:
  assumes "segs \<noteq> []"
  shows "concat (ring_put cap e segs) = (if fits cap e segs \<or> length segs < 4 then concat segs else concat (tl segs)) @ [e]"
proof (cases segs rule: rev_cases)
  case (snoc xs x)
  then show ?thesis by (auto simp: ring_put_def)
qed (use assms in simp)

lemma concat_take: "segs \<noteq> [] \<Longrightarrow> fst (ring_take segs) @ concat (snd (ring_take segs)) = concat segs"
  by (cases segs) (auto simp: ring_take_def)

interpretation eq: event_queue concat "spec_step cap" for cap
proof
  fix x segs ps ds segs'
  assume s: "spec_step cap x segs = Some (ps, ds, segs')"
  show "subseq (ds @ concat segs') (concat segs @ ps)"
  proof (cases x)
    case (Put e)
    show ?thesis
    proof (cases "segs = []")
      case False
      moreover have "subseq (concat (tl segs) @ [e]) (concat segs @ [e])"
        using False by (cases segs) (auto intro!: list_emb_append_mono list_emb_append2)
      ultimately show ?thesis using s Put concat_put[OF False] by (auto split: if_splits)
    qed (use s Put in auto)
  next
    case Take
    then show ?thesis using s concat_take[of segs] by (cases "segs = []") auto
  qed (use s in auto)
qed

interpretation eq: lossless_queue concat "spec_step cap" "spec_keeps cap" for cap
proof
  fix x segs ps ds segs'
  assume s: "spec_step cap x segs = Some (ps, ds, segs')" and k: "spec_keeps cap x segs"
  show "ds @ concat segs' = concat segs @ ps"
    using s k concat_put concat_take by (cases x) (auto split: if_splits)
qed

text \<open>How the operations of the ring list are seen by the specification.\<close>

fun spec_of :: "u32 \<Rightarrow> ring_op \<Rightarrow> spec_op" where
  "spec_of len (Add i b) = Put (drop 4 (take (unat (buffer_used b)) (buffer b)))"
| "spec_of len (Request q) =
     (if rr_code q = GET_LIST \<and> rr_user_buffer q \<noteq> NULL \<and> \<not> rr_output_length q < len \<and> rr_probe q = None then Take else Nothing)"

text \<open>The events fit an empty list and their buffer; no exception while a list is copied.\<close>

fun op_ok :: "EventRingList \<Rightarrow> ring_op \<Rightarrow> bool" where
  "op_ok r (Add i b) \<longleftrightarrow> unat i < length (event_buffers r) \<and> 4 \<le> unat (buffer_used b) \<and>
     unat (buffer_used b) \<le> length (buffer b) \<and> take 4 (buffer b) = le_bytes32 0 \<and> buffer_used b \<le> event_list_length r"
| "op_ok r (Request q) \<longleftrightarrow> rr_copy q = None \<and> rr_probe q \<noteq> Some STATUS_SUCCESS"

lemma list_events_header:
  assumes "list_holds l es" "length (data l) + 36 < 2 ^ 32" "unat n = chain_length es"
  shows "list_events (list_header lock l @ take (unat n) (data l)) = Some es"
proof -
  let ?h = "list_header lock l"
  have t: "take (unat n) (data l) = chained 36 es 0" "head_event_offset l = chain_head 36 es" "chain_length es \<le> length (data l)"
    using assms(1,3) unfolding list_holds_def by (auto simp del: take_eq_Nil)
  have "read32 (?h @ chained 36 es 0) 4 = Inr (head_event_offset l)"
    using read32_at[of 4 "le_bytes32 0" "head_event_offset l"] by (simp add: list_header_def)
  moreover have "?h \<noteq> []" using length_list_header[of lock l] by (metis list.size(3) zero_neq_numeral)
  then have "follow (read_body (?h @ chained (length ?h) (map (\<lambda>x. x) es) 0 @ [])) (chain_head (length ?h) (map (\<lambda>x. x) es)) = Some (Inr es)"
    using assms(2) t(3) by (intro bodies.follow_chained) simp_all
  then have "follow (read_body (?h @ chained 36 es 0)) (chain_head 36 es) = Some (Inr es)" by simp
  ultimately show ?thesis using t by (simp add: list_events_def)
qed

text \<open>A request for the list, when nothing raises an exception.\<close>

lemma list_request:
  assumes r: "ring_ok r segs" and q: "rr_user_buffer q \<noteq> NULL" "\<not> rr_output_length q < event_list_length r" "rr_probe q = None" "rr_copy q = None"
  shows "\<exists>out r'. HandleGetEventRingListListIoctl r q = Inr (STATUS_SUCCESS, out, r') \<and> ring_ok r' (snd (ring_take segs)) \<and>
     list_events out = Some (fst (ring_take segs)) \<and> length out = 36 + chain_length (fst (ring_take segs)) \<and>
     event_list_length r' = event_list_length r \<and> event_buffers r' = event_buffers r"
proof -
  obtain l r1 r2 where a: "AcquireReadEventList r = Inr (read_list r, r1)" "list_at r1 (read_list r) = Inr l"
    "list_holds l (fst (ring_take segs))" "length (data l) = unat (event_list_length r)"
    "ReleaseEventList r1 (read_list r) = Inr r2" "ring_ok r2 (snd (ring_take segs))"
    "event_list_length r2 = event_list_length r" "event_buffers r2 = event_buffers r"
    using AcquireRead_refines[OF r] by blast
  have lim: "unat (event_list_length r) + 36 < 2 ^ 32" using r by (simp add: ring_ok_def)
  have used: "unat (space_used l) = chain_length (fst (ring_take segs))" "unat (space_used l) \<le> length (data l)"
    using a(3) by (auto simp: list_holds_def)
  then have u: "unat (space_used l + sizeof_EventList) = unat (space_used l) + 36"
    using lim a(4) unat_add_no_wrap[of "space_used l" 36] by simp
  let ?out = "list_header (rr_lock_image q) l @ take (unat (space_used l)) (data l)"
  have "read_bytes (list_header (rr_lock_image q) l @ data l) 0 (unat (space_used l + sizeof_EventList)) = Inr ?out"
    unfolding u using used(2) by (simp add: read_bytes_def)
  then have "HandleGetEventRingListListIoctl r q = Inr (STATUS_SUCCESS, ?out, r2)"
    using q a by (simp add: HandleGetEventRingListListIoctl_def)
  moreover have "list_events ?out = Some (fst (ring_take segs))"
    using list_events_header[OF a(3) _ used(1)] a(4) lim by simp
  moreover have "length ?out = 36 + chain_length (fst (ring_take segs))" using used by simp
  ultimately show ?thesis using a(6-8) by blast
qed

lemma ring_step_refines:
  assumes r: "ring_ok r segs" and ok: "op_ok r x"
  shows "\<exists>ps ds r' segs'. ring_step x r = Some (ps, ds, r') \<and> spec_step (unat (event_list_length r)) (spec_of (event_list_length r) x) segs = Some (ps, ds, segs') \<and>
     ring_ok r' segs' \<and> event_list_length r' = event_list_length r \<and> length (event_buffers r') = length (event_buffers r)"
proof (cases x)
  case (Add i b)
  let ?e = "drop 4 (take (unat (buffer_used b)) (buffer b))"
  have o: "unat i < length (event_buffers r)" "4 \<le> unat (buffer_used b)" "unat (buffer_used b) \<le> length (buffer b)" "take 4 (buffer b) = le_bytes32 0"
    "unat (buffer_used b) \<le> unat (event_list_length r)" using ok Add by (simp_all add: word_le_nat_alt)
  have "take 4 (take (unat (buffer_used b)) (buffer b)) = le_bytes32 0" using o(2,4) by (simp add: min_def)
  then have "take (unat (buffer_used b)) (buffer b) = le_bytes32 0 @ ?e" by (metis append_take_drop_id)
  then have e: "event_in b ?e" using o by (simp add: event_in_def)
  have b: "buffer_at (put_buffer r i b) i = Inr b" using o(1) by (simp add: buffer_at_def put_buffer_def)
  have len: "length (event_buffers (put_buffer r i b)) = length (event_buffers r)" for r :: EventRingList and b by (simp add: put_buffer_def)
  have "segs \<noteq> []" using r by (auto simp: ring_ok_def)
  then show ?thesis using AddEvent_refines[of "put_buffer r i b" segs i b ?e] r b e o len Add by auto
next
  case (Request q)
  have ne: "segs \<noteq> []" using r by (auto simp: ring_ok_def)
  show ?thesis
  proof (cases "spec_of (event_list_length r) x = Take")
    case True
    then have "rr_code q = GET_LIST" "rr_user_buffer q \<noteq> NULL" "\<not> rr_output_length q < event_list_length r" "rr_probe q = None"
      using Request by (auto split: if_splits)
    then show ?thesis using list_request[OF r, of q] ok Request ne True
      by (cases "ring_take segs") (auto simp: HandleEventRingListIoctl_def)
  next
    case False
    then have "spec_of (event_list_length r) x = Nothing" using Request by (auto split: if_splits)
    moreover have "\<exists>s out. HandleEventRingListIoctl r q = Inr (s, out, r) \<and> \<not> (rr_code q = GET_LIST \<and> s = STATUS_SUCCESS)"
      using False ok Request
      by (auto simp: HandleEventRingListIoctl_def HandleGetEventRingListListIoctl_def split: prod.splits if_splits option.splits)
    ultimately show ?thesis using r Request by auto
  qed
qed

lemma op_ok_cong:
  "event_list_length r' = event_list_length r \<Longrightarrow> length (event_buffers r') = length (event_buffers r) \<Longrightarrow> op_ok r' x = op_ok r x"
  by (cases x) simp_all

lemma ring_run_refines:
  assumes "ring_ok r segs" "\<forall>x \<in> set ops. op_ok r x"
  shows "\<exists>ps ds r' segs'. run_steps ring_step ops r = Some (ps, ds, r') \<and> ring_ok r' segs' \<and> event_list_length r' = event_list_length r \<and>
     length (event_buffers r') = length (event_buffers r) \<and> run_steps (spec_step (unat (event_list_length r))) (map (spec_of (event_list_length r)) ops) segs = Some (ps, ds, segs')"
  using assms
proof (induction ops arbitrary: r segs)
  case (Cons x ops)
  obtain ps ds r1 segs1 where 1: "ring_step x r = Some (ps, ds, r1)" "spec_step (unat (event_list_length r)) (spec_of (event_list_length r) x) segs = Some (ps, ds, segs1)"
    "ring_ok r1 segs1" "event_list_length r1 = event_list_length r" "length (event_buffers r1) = length (event_buffers r)"
    using ring_step_refines[OF Cons.prems(1), of x] Cons.prems(2) by auto
  have "\<forall>x \<in> set ops. op_ok r1 x" using Cons.prems(2) op_ok_cong[OF 1(4,5)] by simp
  from Cons.IH[OF 1(3) this] show ?case using 1 by auto
qed auto

section \<open>A new ring list\<close>

text \<open>The requests for memory are all granted.\<close>

definition granted :: "nat \<Rightarrow> (addr \<times> (nat \<Rightarrow> u8)) option list \<Rightarrow> bool" where
  "granted n p \<longleftrightarrow> n \<le> length p \<and> (\<forall>a \<in> set (take n p). a \<noteq> None)"

lemma granted_Suc: "granted (Suc n) p \<Longrightarrow> \<exists>a p'. p = Some a # p' \<and> granted n p'"
  by (cases p) (auto simp: granted_def)

lemma granted_le: "granted n p \<Longrightarrow> m \<le> n \<Longrightarrow> granted m p"
  unfolding granted_def using set_take_subset_set_take[of m n p] by auto

lemma granted_drop: "granted (m + n) p \<Longrightarrow> granted n (drop m p)"
proof (induction m arbitrary: p)
  case (Suc m)
  then obtain a p' where "p = Some a # p'" "granted (m + n) p'" using granted_Suc[of "m + n" p] by auto
  then show ?case using Suc.IH by simp
qed simp

definition new_buffer :: "EventRingList \<Rightarrow> EventBuffer" where
  "new_buffer r = \<lparr>event = None, eb_id = num_event_buffers r, in_use = False, buffer_used = 0,
     buffer_remaining = event_buffer_length r, buffer_length = event_buffer_length r,
     buffer = replicate (unat (event_buffer_length r)) 0\<rparr>"

lemma initial_buffers_granted:
  assumes "granted n (pool r)" "i + n \<le> 256" "length (event_buffers r) = 256"
    and "sizeof_EventBuffer \<le> sizeof_EventBuffer + event_buffer_length r"
  shows "initial_buffers i n r = Inr (False, r\<lparr>pool := drop n (pool r),
     event_buffers := take i (event_buffers r) @ replicate n (Some (new_buffer r)) @ drop (i + n) (event_buffers r)\<rparr>)"
  using assms
proof (induction n arbitrary: i r)
  case (Suc n)
  obtain a p where p: "pool r = Some a # p" "granted n p" using granted_Suc[OF Suc.prems(1)] by auto
  let ?r = "r\<lparr>pool := p, event_buffers := (event_buffers r)[i := Some (new_buffer r)]\<rparr>"
  have "CreateEventBuffer r = Inr (Some (new_buffer r), r\<lparr>pool := p\<rparr>)"
    using p(1) Suc.prems(4) by (simp add: CreateEventBuffer_def next_block_def new_buffer_def not_less)
  then have s: "initial_buffers i (Suc n) r = initial_buffers (Suc i) n ?r" using Suc.prems(2) by simp
  have u: "(event_buffers r)[i := Some (new_buffer r)] = take i (event_buffers r) @ Some (new_buffer r) # drop (Suc i) (event_buffers r)"
    using Suc.prems(2,3) by (simp add: upd_conv_take_nth_drop)
  have m: "min (length (event_buffers r)) i = i" using Suc.prems(2,3) by simp
  have n: "new_buffer ?r = new_buffer r" by (simp add: new_buffer_def)
  have "initial_buffers (Suc i) n ?r = Inr (False, ?r\<lparr>pool := drop n p,
     event_buffers := take (Suc i) (event_buffers ?r) @ replicate n (Some (new_buffer ?r)) @ drop (Suc i + n) (event_buffers ?r)\<rparr>)"
    using Suc.IH[of ?r "Suc i"] p(2) Suc.prems by simp
  then show ?case unfolding s n using p(1) m Suc.prems(3) by (simp add: u add.commute)
qed simp

definition new_list :: "u32 \<Rightarrow> (nat \<Rightarrow> u8) \<Rightarrow> EventList" where
  "new_list n content = \<lparr>head_event_offset = 0, tail_event_offset = 0, locked = False, ready = True, space_used = 0,
     space_remaining = n, data_length = n, data = map (\<lambda>i. content (36 + i)) [0..<unat n]\<rparr>"

lemma initial_lists_granted:
  assumes "pool r = Some a # Some b # Some c # Some d # p" "event_lists r = replicate 16 None"
    and "sizeof_EventList \<le> sizeof_EventList + event_list_length r"
  shows "initial_lists 0 4 r = Inr (False, r\<lparr>pool := p,
     event_lists := map (\<lambda>x. Some (new_list (event_list_length r) (snd x))) [a, b, c, d] @ replicate 12 None\<rparr>)"
proof -
  have c: "CreateEventList s = Inr (Some (new_list (event_list_length s) (snd x)), s\<lparr>pool := q\<rparr>)"
    if "pool s = Some x # q" "event_list_length s = event_list_length r" for s x q
    using that assms(3) by (cases x) (simp add: CreateEventList_def next_block_def new_list_def not_less)
  show ?thesis
    using assms(1,2) by (simp add: c numeral_eq_Suc)
qed

lemma new_list_holds: "list_holds (new_list n f) []"
  by (simp add: list_holds_def new_list_def chain_head_def chain_tail_def)

lemma new_list_ready: "ready (new_list n f)"
  by (simp add: new_list_def)

lemma InitialiseEventRingList_granted:
  assumes "unat n \<le> 256" "granted (unat n + 4) p"
    and "sizeof_EventBuffer \<le> sizeof_EventBuffer + blen" "unat len + 36 < 2 ^ 32"
  shows "\<exists>r. InitialiseEventRingList len n blen p = Inr (0, r) \<and> ring_ok r [[], []] \<and> buffers_ok r \<and> \<not> allocating_buffers r \<and>
     event_list_length r = len \<and> event_buffer_length r = blen \<and> key_list r = [] \<and> length (event_buffers r) = 256"
proof -
  let ?r0 = "(empty_ring p)\<lparr>num_event_buffers := n, event_buffer_length := blen, event_list_length := len, num_event_lists := 4\<rparr>"
  let ?r1 = "?r0\<lparr>pool := drop (unat n) p, event_buffers := replicate (unat n) (Some (new_buffer ?r0)) @ replicate (256 - unat n) None\<rparr>"
  have 1: "initial_buffers 0 (unat n) ?r0 = Inr (False, ?r1)"
    using initial_buffers_granted[of "unat n" ?r0 0] granted_le[OF assms(2), of "unat n"] assms(1,3) by (simp add: empty_ring_def)
  have "granted (Suc (Suc (Suc (Suc 0)))) (drop (unat n) p)"
    using granted_drop[OF assms(2)] by (simp add: numeral_eq_Suc)
  then obtain a b c d q where q: "drop (unat n) p = Some a # Some b # Some c # Some d # q"
    using granted_Suc by metis
  have "36 \<le> 36 + len" using assms(4) unat_add_no_wrap[of 36 len] by (simp add: word_le_nat_alt)
  then have 2: "initial_lists 0 4 ?r1 = Inr (False, ?r1\<lparr>pool := q,
     event_lists := map (\<lambda>x. Some (new_list len (snd x))) [a, b, c, d] @ replicate 12 None\<rparr>)"
    using initial_lists_granted[of ?r1 a b c d q] q by (simp add: empty_ring_def)
  define r where "r = ?r1\<lparr>pool := q, event_lists := map (\<lambda>x. Some (new_list len (snd x))) [a, b, c, d] @ replicate 12 None,
     read_position := 0, write_position := 1, read_list := 0, write_list := 1\<rparr>"
  have i: "InitialiseEventRingList len n blen p = Inr (0, r)" using 1 2 by (simp add: InitialiseEventRingList_def Let_def r_def)
  have f: "num_event_lists r = 4" "read_position r = 0" "write_position r = 1" "read_list r = 0" "write_list r = 1" "event_list_length r = len"
    "event_lists r = Some (new_list len (snd a)) # Some (new_list len (snd b)) # Some (new_list len (snd c)) # Some (new_list len (snd d)) # replicate 12 None"
    "num_event_buffers r = n" "event_buffer_length r = blen" "key_list r = []" "\<not> allocating_buffers r"
    "event_buffers r = replicate (unat n) (Some (new_buffer ?r0)) @ replicate (256 - unat n) None"
    by (simp_all add: r_def empty_ring_def)
  have x: "idx r k = k mod 4" for k by (simp add: idx_def f)
  have s: "slot_ok r (new_list len g)" for g by (simp add: slot_ok_def new_list_def f)
  have l: "\<exists>l. event_lists r ! i = Some l \<and> slot_ok r l \<and> list_holds l [] \<and> ready l" if "i < 4" for i
  proof -
    have "i = 0 \<or> i = 1 \<or> i = 2 \<or> i = 3" using that by linarith
    then show ?thesis using s new_list_holds by (elim disjE) (simp_all add: f(7) new_list_holds new_list_ready)
  qed
  have h: "list_holds (the (event_lists r ! idx r k)) ([[], []] ! k)" if "k < length [[], []]" for k
    using l[of k] that by (cases k) (auto simp: x)
  have "ring_ok r [[], []]"
    unfolding ring_ok_def using h l assms(4) by (auto simp: x f(1-6)) (auto simp: f(7) new_list_ready)
  moreover have "buffers_ok r"
    using assms(1,3) by (auto simp: buffers_ok_def nth_append f)
  ultimately show ?thesis using i assms(1) f by auto
qed

section \<open>Properties of the ring list\<close>


definition pool_demo :: "(addr \<times> (nat \<Rightarrow> u8)) option list" where
  "pool_demo = replicate 5 (Some (0x1000, \<lambda>_. 0xCC))"

lemma pool_demo_list:
  "pool_demo = [Some (0x1000, \<lambda>_. 0xCC), Some (0x1000, \<lambda>_. 0xCC), Some (0x1000, \<lambda>_. 0xCC), Some (0x1000, \<lambda>_. 0xCC), Some (0x1000, \<lambda>_. 0xCC)]"
  by (simp add: pool_demo_def numeral_eq_Suc)

definition event_demo :: EventBuffer where
  "event_demo = buffer_demo\<lparr>buffer_used := 12, buffer := le_bytes32 0 @ [1, 2, 3, 4, 5, 6, 7, 8] @ replicate 52 0\<rparr>"

definition request_demo :: ring_request where
  "request_demo = \<lparr>rr_code = 0x22E04F, rr_user_buffer = 0x400000, rr_output_length = 64, rr_probe = None, rr_copy = None,
     rr_lock_image = (0, 0)\<rparr>"

lemma granted_demo: "granted (unat (1 :: u32) + 4) pool_demo"
  by (simp add: granted_def pool_demo_def numeral_eq_Suc)


text \<open>
  The request for a list is refused when the buffer is shorter than the length of a list,
  but what is written is the structure in front of the list and the events: more than the
  buffer has room for as soon as the events leave less than 36 bytes of a list of that length.
\<close>

theorem ring_request_overruns:
  assumes "ring_ok r segs" "rr_user_buffer q \<noteq> NULL" "rr_probe q = None" "rr_copy q = None"
  shows "if rr_output_length q < event_list_length r then HandleGetEventRingListListIoctl r q = Inr (STATUS_BUFFER_TOO_SMALL, [], r)
     else \<exists>out r'. HandleGetEventRingListListIoctl r q = Inr (STATUS_SUCCESS, out, r') \<and> list_events out = Some (hd segs) \<and>
       length out = 36 + chain_length (hd segs)"
  using list_request[OF assms(1,2) _ assms(3,4)] assms(2-4)
  by (auto simp: HandleGetEventRingListListIoctl_def ring_take_def)

theorem ring_request_overruns_witness:
  "\<exists>r ps ds r1 out r2. InitialiseEventRingList 64 1 64 pool_demo = Inr (0, r) \<and>
     run_steps ring_step [Add 0 event_demo, Add 0 event_demo, Add 0 event_demo, Request request_demo] r = Some (ps, ds, r1) \<and>
     HandleGetEventRingListListIoctl r1 request_demo = Inr (STATUS_SUCCESS, out, r2) \<and>
     length out = 72 \<and> rr_output_length request_demo = 64"
proof -
  obtain r where r: "InitialiseEventRingList 64 1 64 pool_demo = Inr (0, r)" "length (event_buffers r) = 256" "event_list_length r = 64"
    "ring_ok r [[], []]"
    using InitialiseEventRingList_granted[OF _ granted_demo, of 64 64] by auto
  let ?ops = "[Add 0 event_demo, Add 0 event_demo, Add 0 event_demo, Request request_demo]"
  have ok: "\<forall>x \<in> set ?ops. op_ok r x"
    using r(2,3) by (simp add: event_demo_def request_demo_def le_bytes32_def)
  from ring_run_refines[OF r(4) ok] obtain ps ds r1 segs where s: "run_steps ring_step ?ops r = Some (ps, ds, r1)" "ring_ok r1 segs" "event_list_length r1 = 64"
    "run_steps (spec_step (unat (64 :: u32))) (map (spec_of 64) ?ops) [[], []] = Some (ps, ds, segs)"
    unfolding r(3) by (elim exE conjE) (rule that)
  have "segs = [[[1, 2, 3, 4, 5, 6, 7, 8], [1, 2, 3, 4, 5, 6, 7, 8], [1, 2, 3, 4, 5, 6, 7, 8]], []]"
    using s(4) by (auto simp: event_demo_def request_demo_def ring_put_def ring_take_def fits_def le_bytes32_def)
  then show ?thesis
    using ring_request_overruns[OF s(2), of request_demo] r(1) s(1,3) by (auto simp: request_demo_def)
qed

text \<open>
  When copying a list to the process raises an exception, the lock of the list is not given
  back: the driver that comes round to this list waits for it for ever.
\<close>

theorem copy_exception_deadlocks:
  assumes r: "ring_ok r segs" "length segs = 4"
    and q: "rr_user_buffer q \<noteq> NULL" "\<not> rr_output_length q < event_list_length r" "rr_probe q = None" "rr_copy q = Some status"
    and b: "buffer_at r i = Inr b" "event_in b e" "\<not> fits (unat (event_list_length r)) e segs"
  shows "\<exists>r'. HandleGetEventRingListListIoctl r q = Inr (status, [], r') \<and> AddEvent r' i = Some (Inl Deadlock)"
proof -
  let ?p = "read_list r"
  obtain l r1 r2 where a: "AcquireReadEventList r = Inr (?p, r1)" "list_at r1 ?p = Inr l" "locked l"
    "ReleaseEventList r1 ?p = Inr r2" "ring_ok r2 (snd (ring_take segs))" "\<forall>k. idx r2 k = idx r (k + 1)"
    "event_list_length r2 = event_list_length r" "event_buffers r2 = event_buffers r"
    using AcquireRead_refines[OF r(1)] by blast
  have tl: "snd (ring_take segs) = tl segs" "length (tl segs) = 3" using r(2) by (simp_all add: ring_take_def)
  have r2: "r2 = put_list r1 ?p (l\<lparr>locked := False\<rparr>)" using a(2,4) by (simp add: ReleaseEventList_def)
  have p: "?p = idx r 0" using r(1) by (simp add: ring_ok_def)
  have g: "num_event_lists r2 = 4" "length (event_lists r2) = 16" "unat (write_position r2) = idx r2 2" "write_list r2 = idx r2 2"
    "unat (read_position r2) = idx r2 0"
    using a(5)[unfolded tl(1) ring_ok_def tl(2)] by (simp_all add: idx_def)
  have e: "num_event_lists r2 = num_event_lists r1" "length (event_lists r2) = length (event_lists r1)" "write_position r2 = write_position r1"
    "write_list r2 = write_list r1" "read_position r2 = read_position r1" "event_buffers r2 = event_buffers r1" by (simp_all add: r2)
  have f: "num_event_lists r1 = 4" "length (event_lists r1) = 16" "unat (write_position r1) = idx r2 2" "write_list r1 = idx r2 2"
    "unat (read_position r1) = idx r2 0" "event_buffers r1 = event_buffers r"
    using g a(8) unfolding e by blast+
  have "idx r2 2 = idx r 3" "idx r2 0 = idx r 1" "idx r2 3 = idx r 4"
    using a(6)[rule_format, of 2] a(6)[rule_format, of 0] a(6)[rule_format, of 3] by simp_all
  moreover have "idx r 4 = idx r 0" by (simp add: idx_def)
  ultimately have "idx r2 2 = idx r 3" "idx r2 0 = idx r 1" "idx r2 3 = idx r 0" by simp_all
  then have ne: "idx r2 2 \<noteq> ?p" "idx r2 0 \<noteq> ?p" "idx r2 3 = ?p" using p idx_inj[of 3 0 r] idx_inj[of 1 0 r] by simp_all
  obtain lw where lw: "list_at r2 (write_list r2) = Inr lw" "slot_ok r2 lw" "ready lw" "list_holds lw (last (tl segs))"
    using ring_ok_write[OF a(5)] tl by auto
  have pl: "?p < length (event_lists r1)" using p f(2) by simp
  have same: "list_at r2 j = list_at r1 j" if "j \<noteq> ?p" for j unfolding r2 using pl that by simp
  have w1: "list_at r1 (write_list r1) = Inr lw" "\<not> locked lw"
    using lw(1,2) same[of "write_list r1"] e(4) f(4) ne(1) by (simp_all add: slot_ok_def)
  have "last (tl segs) = last segs" using r(2) by (cases segs) auto
  then have "\<not> fits (unat (event_list_length r2)) e (tl segs)" using b(3) a(7) by (simp add: fits_def)
  then have big: "buffer_used b > space_remaining lw"
    using fits_space[OF lw(4,2)] b(2) by (simp add: event_in_def)
  have wp: "unat ((write_position r1 + 1) mod 4) = ?p"
    using unat_next[of "write_position r1"] f(3) ne(3) idx_step[of 3 r2] by simp
  have "(write_position r1 + 1) mod 4 \<noteq> read_position r1"
  proof
    assume "(write_position r1 + 1) mod 4 = read_position r1"
    then show False using wp f(5) ne(2) by simp
  qed
  then have "AcquireNextWriteEventList (put_list r1 (write_list r1) (lw\<lparr>locked := True\<rparr>)) = Inl Deadlock"
    using f ne(1) wp a(2,3) by (simp add: AcquireNextWriteEventList_def Let_def lock_list_def)
  then have "AcquireWriteEventList r1 (buffer_used b) = Some (Inl Deadlock)"
    using AcquireWrite_ready[OF w1 lw(3)] f big by simp
  moreover have "buffer_at r1 i = Inr b" using b(1) f(6) by (simp add: buffer_at_def split: if_splits)
  ultimately have "AddEvent r1 i = Some (Inl Deadlock)" by (simp add: AddEvent_def)
  moreover have "HandleGetEventRingListListIoctl r q = Inr (status, [], r1)"
    using q a(1,2) by (simp add: HandleGetEventRingListListIoctl_def)
  ultimately show ?thesis by blast
qed

theorem copy_exception_deadlocks_witness:
  "\<exists>r ps ds r1 r2. InitialiseEventRingList 12 1 64 pool_demo = Inr (0, r) \<and>
     run_steps ring_step [Add 0 event_demo, Add 0 event_demo, Add 0 event_demo] r = Some (ps, ds, r1) \<and>
     HandleGetEventRingListListIoctl (put_buffer r1 0 event_demo) (request_demo\<lparr>rr_copy := Some 0xC0000005\<rparr>) = Inr (0xC0000005, [], r2) \<and>
     AddEvent r2 0 = Some (Inl Deadlock)"
proof -
  obtain r where r: "InitialiseEventRingList 12 1 64 pool_demo = Inr (0, r)" "length (event_buffers r) = 256" "event_list_length r = 12"
    "ring_ok r [[], []]"
    using InitialiseEventRingList_granted[OF _ granted_demo, of 64 12] by auto
  let ?ops = "[Add 0 event_demo, Add 0 event_demo, Add 0 event_demo]"
  have ok: "\<forall>x \<in> set ?ops. op_ok r x"
    using r(2,3) by (simp add: event_demo_def le_bytes32_def)
  from ring_run_refines[OF r(4) ok] obtain ps ds r1 segs where s: "run_steps ring_step ?ops r = Some (ps, ds, r1)" "ring_ok r1 segs"
    "event_list_length r1 = 12" "length (event_buffers r1) = 256"
    "run_steps (spec_step (unat (12 :: u32))) (map (spec_of 12) ?ops) [[], []] = Some (ps, ds, segs)"
    unfolding r(3) r(2) by (elim exE conjE) (rule that)
  let ?e = "[1, 2, 3, 4, 5, 6, 7, 8] :: u8 list"
  have segs: "segs = [[], [?e], [?e], [?e]]"
    using s(5) by (auto simp: event_demo_def ring_put_def fits_def le_bytes32_def)
  let ?r = "put_buffer r1 0 event_demo"
  have "buffer_at ?r 0 = Inr event_demo" using s(4) by (simp add: buffer_at_def put_buffer_def)
  moreover have "event_in event_demo ?e" by (simp add: event_in_def event_demo_def le_bytes32_def)
  moreover have "ring_ok ?r segs" using s(2) by simp
  ultimately show ?thesis
    using copy_exception_deadlocks[of ?r segs "request_demo\<lparr>rr_copy := Some 0xC0000005\<rparr>" "0xC0000005" 0 event_demo ?e] r(1) s(1,3) segs
    by (auto simp: request_demo_def fits_def)
qed

section \<open>Keys\<close>

text \<open>A reader of the keys: the hash and the name, which is as long as the structure says.\<close>

definition read_key :: "u8 list \<Rightarrow> u32 \<Rightarrow> fault + (u32 \<times> u8 list) list \<times> u32" where
  "read_key mem off =
     fbind (read32 mem (unat off + 4)) (\<lambda>hash.
     fbind (read32 mem (unat off + 8)) (\<lambda>len.
     fbind (read_bytes mem (unat off + 12) (unat len)) (\<lambda>name. Inr ([(hash, name)], off + (sizeof_Key + len + 1)))))"

definition key_ok :: "addr \<times> Key \<Rightarrow> bool" where
  "key_ok nk \<longleftrightarrow> length (key (snd nk)) = unat (key_length (snd nk)) + 1 \<and> unat (key_length (snd nk)) < 2147483647"

definition key_size :: "addr \<times> Key \<Rightarrow> u32" where
  "key_size nk = sizeof_Key + key_length (snd nk) + 1"

definition key_read :: "addr \<times> Key \<Rightarrow> (u32 \<times> u8 list) list" where
  "key_read nk = [(key_hash (snd nk), butlast (key (snd nk)))]"

lemma unat_key_size: "key_ok nk \<Longrightarrow> unat (key_size nk) = 13 + unat (key_length (snd nk))"
proof -
  assume "key_ok nk"
  moreover have "unat (13 :: u32) = 13" by simp
  ultimately have "unat (13 + key_length (snd nk)) = 13 + unat (key_length (snd nk))"
    using unat_add_no_wrap[of 13 "key_length (snd nk)"] by (simp only: key_ok_def) simp
  then show ?thesis by (simp add: key_size_def add.commute)
qed

interpretation kr: packed_events key_ok key_bytes key_size key_read read_key sizeof_Key
proof
  fix e :: "addr \<times> Key"
  assume e: "key_ok e"
  show "length (key_bytes e) = unat (key_size e)"
    using e unat_key_size[OF e] by (cases e) (simp add: key_bytes_def key_ok_def)
  show "sizeof_Key \<le> key_size e" using unat_key_size[OF e] by (simp add: word_le_nat_alt)
next
  show "0 < sizeof_Key" by simp
next
  fix e :: "addr \<times> Key" and off :: u32 and pre rest :: "u8 list"
  assume e: "key_ok e" and o: "unat off = length pre"
  obtain nx k where k: "e = (nx, k)" by (cases e)
  let ?m = "pre @ key_bytes e @ rest"
  have "read32 ?m (length pre + 4) = Inr (key_hash k)"
    using read32_at[of _ "pre @ le_bytes32 nx" "key_hash k"] by (simp add: k key_bytes_def)
  moreover have "read32 ?m (length pre + 8) = Inr (key_length k)"
    using read32_at[of _ "pre @ le_bytes32 nx @ le_bytes32 (key_hash k)" "key_length k"] by (simp add: k key_bytes_def)
  moreover have "read_bytes ?m (length pre + 12) (unat (key_length k)) = Inr (butlast (key k))"
  proof -
    have "key k \<noteq> []" using e k by (auto simp: key_ok_def)
    then have "key k = butlast (key k) @ [last (key k)]" by simp
    then have m: "?m = (pre @ le_bytes32 nx @ le_bytes32 (key_hash k) @ le_bytes32 (key_length k)) @ butlast (key k) @ last (key k) # rest"
      by (simp add: k key_bytes_def)
    have "length (butlast (key k)) = unat (key_length k)" using e k by (simp add: key_ok_def)
    then show ?thesis unfolding m by (intro read_bytes_at) simp_all
  qed
  ultimately show "read_key ?m off = Inr (key_read e, off + key_size e)"
    using o by (simp add: read_key_def key_read_def key_size_def k)
qed

fun add_keys :: "EventRingList \<Rightarrow> u8 list list \<Rightarrow> EventRingList" where
  "add_keys r [] = r"
| "add_keys r (n # ns) = add_keys (snd (AddKey r n)) ns"

definition names_length :: "u8 list list \<Rightarrow> nat" where
  "names_length ns = sum_list (map (\<lambda>n. 13 + length n) ns)"

definition keys_are :: "EventRingList \<Rightarrow> u8 list list \<Rightarrow> bool" where
  "keys_are r ns \<longleftrightarrow> key_list_length r = of_nat (names_length ns) \<and>
     list_all2 (\<lambda>k n. key_hash k = GetKeyHash n \<and> unat (key_length k) = length n \<and> key k = n @ [0] \<and> length n < 2147483647) (key_list r) ns"

lemma AddKey_granted:
  assumes "keys_are r ns" "granted (Suc m) (pool r)" "length n < 2147483647"
  shows "fst (AddKey r n) = GetKeyHash n \<and> keys_are (snd (AddKey r n)) (ns @ [n]) \<and> granted m (pool (snd (AddKey r n)))"
proof -
  obtain a p where "pool r = Some a # p" "granted m p" using granted_Suc[OF assms(2)] by auto
  moreover have "unat (of_nat (length n) :: u32) = length n" using assms(3) by (simp add: unat_of_nat)
  ultimately show ?thesis using assms
    by (cases a) (simp add: AddKey_def Let_def next_block_def keys_are_def names_length_def list_all2_appendI add_ac)
qed

lemma add_keys_granted:
  "keys_are r ns \<Longrightarrow> granted (length ms) (pool r) \<Longrightarrow> \<forall>n \<in> set ms. length n < 2147483647 \<Longrightarrow> keys_are (add_keys r ms) (ns @ ms)"
proof (induction ms arbitrary: r ns)
  case (Cons n ms)
  then show ?case using AddKey_granted[of r ns "length ms" n] Cons.IH[of "snd (AddKey r n)" "ns @ [n]"] by simp
qed simp

lemma with_next_keys: "map snd (with_next ks) = ks"
  by (induction ks) auto

lemma keys_are_bytes:
  assumes "keys_are r ns"
  shows "length (keys_bytes (key_list r)) = names_length ns \<and> concat (map key_read (with_next (key_list r))) = map (\<lambda>n. (GetKeyHash n, n)) ns \<and>
    (\<forall>nk \<in> set (with_next (key_list r)). key_ok nk)"
proof -
  have "list_all2 (\<lambda>k n. key_hash k = GetKeyHash n \<and> unat (key_length k) = length n \<and> key k = n @ [0] \<and> length n < 2147483647) ks ns \<Longrightarrow>
    length (keys_bytes ks) = names_length ns \<and> concat (map key_read (with_next ks)) = map (\<lambda>n. (GetKeyHash n, n)) ns \<and>
    (\<forall>nk \<in> set (with_next ks). key_ok nk)" for ks
    by (induction ks ns rule: list_all2_induct) (auto simp: keys_bytes_def names_length_def key_bytes_def key_read_def key_ok_def)
  then show ?thesis using assms unfolding keys_are_def by blast
qed

text \<open>
  The keys a driver has registered are all there in the answer to the request for the keys:
  the answer is exactly as long as the length that is reported and checked, and a reader finds
  the names in the order they were added, each with the hash AddKey gave for it.
\<close>

theorem keys_roundtrip:
  assumes "key_list r = []" "key_list_length r = 0" "granted (length ns) (pool r)"
    and "\<forall>n \<in> set ns. length n < 2147483647" "names_length ns < 2 ^ 32"
    and "rr_user_buffer q \<noteq> NULL" "rr_probe q = None" "rr_copy q = None" "key_list_length (add_keys r ns) \<le> rr_output_length q"
  shows "\<exists>out. HandleGetEventRingListKeysIoctl (add_keys r ns) q = (STATUS_SUCCESS, out) \<and>
     length out = unat (key_list_length (add_keys r ns)) \<and>
     (ns \<noteq> [] \<longrightarrow> read_packed (read_key out) (key_list_length (add_keys r ns)) 0 = Some (Inr (map (\<lambda>n. (GetKeyHash n, n)) ns)))"
proof -
  let ?r = "add_keys r ns"
  have "keys_are r []" using assms(1,2) by (simp add: keys_are_def names_length_def)
  then have k: "keys_are ?r ns" using add_keys_granted[of r "[]" ns] assms(3,4) by simp
  note b = keys_are_bytes[OF k]
  have len: "unat (key_list_length ?r) = names_length ns" using k assms(5) by (simp add: keys_are_def unat_of_nat)
  have out: "HandleGetEventRingListKeysIoctl ?r q = (STATUS_SUCCESS, keys_bytes (key_list ?r))"
    using assms(6-9) by (simp add: HandleGetEventRingListKeysIoctl_def not_less)
  have "read_packed (read_key (keys_bytes (key_list ?r))) (key_list_length ?r) 0 = Some (Inr (map (\<lambda>n. (GetKeyHash n, n)) ns))" if "ns \<noteq> []"
  proof -
    have "key_list ?r \<noteq> []" using k that by (auto simp: keys_are_def)
    then have "with_next (key_list ?r) \<noteq> []" by (cases "key_list ?r") auto
    then show ?thesis
      using kr.read_packed_at[of "with_next (key_list ?r)" 0 "[]" "key_list_length ?r" "[]"] b len by (simp add: keys_bytes_def)
  qed
  then show ?thesis using out b len by simp
qed

theorem keys_roundtrip_witness:
  "\<exists>out. HandleGetEventRingListKeysIoctl (add_keys (empty_ring pool_demo) [[112, 105, 100], [107]]) request_demo = (STATUS_SUCCESS, out) \<and>
     length out = 30 \<and> read_packed (read_key out) 30 0 = Some (Inr [(125533, [112, 105, 100]), (107, [107])])"
proof -
  let ?ns = "[[112, 105, 100], [107]] :: u8 list list"
  have k: "key_list_length (add_keys (empty_ring pool_demo) ?ns) = 30"
    by (simp add: AddKey_def Let_def next_block_def empty_ring_def pool_demo_list)
  have h: "GetKeyHash [112, 105, 100] = 125533" "GetKeyHash [107] = 107"
    by (simp_all add: GetKeyHash_def push_bit_eq_mult)
  have g: "granted (length ?ns) (pool (empty_ring pool_demo))" using granted_le[OF granted_demo, of "Suc (Suc 0)"] by (simp add: empty_ring_def)
  show ?thesis
    using keys_roundtrip[OF _ _ g, of request_demo] k h by (simp add: empty_ring_def request_demo_def names_length_def)
qed

end
