(* ===== verification/Revert.thy ===== *)
theory Revert
  imports Prelude "HOL-Library.Multiset"
begin

text \<open>
  revert.c of the server: the program that puts a virtual machine back to its root snapshot, logs
  into the guest and starts the client there. The VIX library answers through arguments: for each
  of its jobs the handle of the job, the error it ends with and the handle it stores, if it stores
  one. What the program does is listed in order, with the handles it is given.
\<close>

type_synonym handle = u32

abbreviation (input) VIX_INVALID_HANDLE :: handle where "VIX_INVALID_HANDLE \<equiv> 0"
abbreviation (input) VIX_OK :: u64 where "VIX_OK \<equiv> 0"

datatype vix_call =
    VixHost_Connect "string option" "string option" "string option"
  | VixVM_Open handle "string option"
  | VixVM_GetRootSnapshot handle
  | VixVM_RevertToSnapshot handle handle
  | VixVM_WaitForToolsInGuest handle nat
  | VixVM_LoginInGuest handle "string option" "string option"
  | VixVM_RunProgramInGuest handle "string option" "string option"

datatype vix_event = Call vix_call | Got handle | Released handle | Disconnected handle | Printed string u64

record job_answer =
  ja_job :: handle
  ja_error :: u64
  ja_result :: "handle option"

record vix_env =
  connect_job :: job_answer
  open_job :: job_answer
  snapshot_error :: u64
  snapshot_result :: "handle option"
  revert_job :: job_answer
  tools_job :: job_answer
  login_job :: job_answer
  run_job :: job_answer

record revert_state =
  hostHandle :: handle
  vmHandle :: handle
  snapshotHandle :: handle
  jobHandle :: handle
  events :: "vix_event list"

definition new_state :: revert_state where
  "new_state = \<lparr>hostHandle = VIX_INVALID_HANDLE, vmHandle = VIX_INVALID_HANDLE, snapshotHandle = VIX_INVALID_HANDLE,
     jobHandle = VIX_INVALID_HANDLE, events = []\<rparr>"

definition log :: "vix_event list \<Rightarrow> revert_state \<Rightarrow> revert_state" where
  "log evs s = s\<lparr>events := events s @ evs\<rparr>"

text \<open>The arguments of the program end with a null pointer; nobody looks at their number.\<close>

definition arg :: "string list \<Rightarrow> nat \<Rightarrow> fault + string option" where
  "arg argv i =
     (if i < length argv then Inr (Some (argv ! i)) else if i = length argv then Inr None else Inl OutOfBounds)"

section \<open>The steps\<close>

definition begin_job :: "vix_call \<Rightarrow> job_answer \<Rightarrow> revert_state \<Rightarrow> revert_state" where
  "begin_job c ja s = log [Call c, Got (ja_job ja)] (s\<lparr>jobHandle := ja_job ja\<rparr>)"

definition store_result :: "handle option \<Rightarrow> (handle \<Rightarrow> revert_state \<Rightarrow> revert_state) \<Rightarrow> revert_state \<Rightarrow> revert_state" where
  "store_result r store s = (case r of Some h \<Rightarrow> log [Got h] (store h s) | None \<Rightarrow> s)"

definition release_job :: "revert_state \<Rightarrow> revert_state" where
  "release_job s = log [Released (jobHandle s)] (s\<lparr>jobHandle := VIX_INVALID_HANDLE\<rparr>)"

definition close_all :: "revert_state \<Rightarrow> revert_state" where
  "close_all s =
     log [Released (snapshotHandle s), Released (vmHandle s), Disconnected (hostHandle s), Released (hostHandle s)]
       (s\<lparr>snapshotHandle := VIX_INVALID_HANDLE, vmHandle := VIX_INVALID_HANDLE, hostHandle := VIX_INVALID_HANDLE\<rparr>)"

definition abort :: "string \<Rightarrow> u64 \<Rightarrow> revert_state \<Rightarrow> int \<times> revert_state" where
  "abort message err s = (-1, close_all (release_job (log [Printed message err] s)))"

text \<open>The jobs of the machine after it has been opened and the snapshot found.\<close>

definition run_program :: "string list \<Rightarrow> vix_env \<Rightarrow> revert_state \<Rightarrow> fault + int \<times> revert_state" where
  "run_program argv env s0 =
     fbind (arg argv 7) (\<lambda>cmd. fbind (arg argv 8) (\<lambda>options.
       let s = begin_job (VixVM_RunProgramInGuest (vmHandle s0) cmd options) (run_job env) s0
       in if ja_error (run_job env) \<noteq> VIX_OK
          then Inr (abort ''VIX Error on run program in guest: '' (ja_error (run_job env)) s)
          else Inr (0, close_all s)))"

definition login :: "string list \<Rightarrow> vix_env \<Rightarrow> revert_state \<Rightarrow> fault + int \<times> revert_state" where
  "login argv env s0 =
     fbind (arg argv 5) (\<lambda>user. fbind (arg argv 6) (\<lambda>password.
       let s = begin_job (VixVM_LoginInGuest (vmHandle s0) user password) (login_job env) s0
       in if ja_error (login_job env) \<noteq> VIX_OK
          then Inr (abort ''VIX Error on login: '' (ja_error (login_job env)) s)
          else run_program argv env (release_job s)))"

definition wait_for_tools :: "string list \<Rightarrow> vix_env \<Rightarrow> revert_state \<Rightarrow> fault + int \<times> revert_state" where
  "wait_for_tools argv env s0 =
     (let s = begin_job (VixVM_WaitForToolsInGuest (vmHandle s0) 60) (tools_job env) s0
      in if ja_error (tools_job env) \<noteq> VIX_OK
         then Inr (abort ''VIX Error on waitingForToolsInGuest: '' (ja_error (tools_job env)) s)
         else login argv env (release_job s))"

definition revert_to_snapshot :: "string list \<Rightarrow> vix_env \<Rightarrow> revert_state \<Rightarrow> fault + int \<times> revert_state" where
  "revert_to_snapshot argv env s0 =
     (let s = begin_job (VixVM_RevertToSnapshot (vmHandle s0) (snapshotHandle s0)) (revert_job env) s0
      in if ja_error (revert_job env) \<noteq> VIX_OK
         then Inr (abort ''VIX Error on reverting to snapshot: '' (ja_error (revert_job env)) s)
         else wait_for_tools argv env (release_job s))"

definition get_root_snapshot :: "string list \<Rightarrow> vix_env \<Rightarrow> revert_state \<Rightarrow> fault + int \<times> revert_state" where
  "get_root_snapshot argv env s0 =
     (let s = store_result (snapshot_result env) (\<lambda>h s. s\<lparr>snapshotHandle := h\<rparr>) (log [Call (VixVM_GetRootSnapshot (vmHandle s0))] s0)
      in if snapshot_error env \<noteq> VIX_OK
         then Inr (abort ''VIX Error on obtaining root snapshot: '' (snapshot_error env) s)
         else revert_to_snapshot argv env s)"

definition open_machine :: "string list \<Rightarrow> vix_env \<Rightarrow> revert_state \<Rightarrow> fault + int \<times> revert_state" where
  "open_machine argv env s0 =
     fbind (arg argv 4) (\<lambda>path.
       let s = store_result (ja_result (open_job env)) (\<lambda>h s. s\<lparr>vmHandle := h\<rparr>)
                 (begin_job (VixVM_Open (hostHandle s0) path) (open_job env) s0)
       in if ja_error (open_job env) \<noteq> VIX_OK
          then Inr (abort ''VIX Error on obtaining handle: '' (ja_error (open_job env)) s)
          else get_root_snapshot argv env (release_job s))"

definition main :: "string list \<Rightarrow> vix_env \<Rightarrow> fault + int \<times> revert_state" where
  "main argv env =
     fbind (arg argv 1) (\<lambda>hostName. fbind (arg argv 2) (\<lambda>userName. fbind (arg argv 3) (\<lambda>password.
       let s = store_result (ja_result (connect_job env)) (\<lambda>h s. s\<lparr>hostHandle := h\<rparr>)
                 (begin_job (VixHost_Connect hostName userName password) (connect_job env) new_state)
       in if ja_error (connect_job env) \<noteq> VIX_OK
          then Inr (abort ''VIX Error on connect in connect: '' (ja_error (connect_job env)) s)
          else open_machine argv env (release_job s))))"

section \<open>Handles\<close>

fun got :: "vix_event \<Rightarrow> handle list" where
  "got (Got h) = [h]"
| "got _ = []"

fun released :: "vix_event \<Rightarrow> handle list" where
  "released (Released h) = [h]"
| "released _ = []"

text \<open>The handles that have been given, and given back, without the invalid one.\<close>

definition valid :: "handle list \<Rightarrow> handle multiset" where
  "valid hs = mset (filter (\<lambda>h. h \<noteq> VIX_INVALID_HANDLE) hs)"

lemma valid_append [simp]: "valid (xs @ ys) = valid xs + valid ys"
  by (simp add: valid_def)

lemma valid_simps [simp]: "valid [] = {#}" "valid (0 # hs) = valid hs"
  by (simp_all add: valid_def)

definition given :: "revert_state \<Rightarrow> handle multiset" where
  "given s = valid (concat (map got (events s)))"

definition given_back :: "revert_state \<Rightarrow> handle multiset" where
  "given_back s = valid (concat (map released (events s)))"

text \<open>What is in the variables and has not been given back.\<close>

definition balanced :: "revert_state \<Rightarrow> bool" where
  "balanced s \<longleftrightarrow> given s = given_back s + valid [hostHandle s, vmHandle s, snapshotHandle s, jobHandle s]"

lemma balanced_new: "balanced new_state"
  by (simp add: balanced_def given_def given_back_def new_state_def)

lemma balanced_log: "(\<And>e. e \<in> set evs \<Longrightarrow> got e = [] \<and> released e = []) \<Longrightarrow> balanced (log evs s) = balanced s"
proof -
  assume "\<And>e. e \<in> set evs \<Longrightarrow> got e = [] \<and> released e = []"
  then have "concat (map got evs) = []" "concat (map released evs) = []" by simp_all
  then show ?thesis by (simp add: balanced_def given_def given_back_def log_def del: concat_eq_Nil_conv)
qed

lemma balanced_begin_job:
  "balanced s \<Longrightarrow> jobHandle s = 0 \<Longrightarrow> balanced (begin_job c ja s)"
  by (simp add: balanced_def begin_job_def log_def given_def given_back_def valid_def)

lemma balanced_release_job: "balanced s \<Longrightarrow> balanced (release_job s) \<and> jobHandle (release_job s) = 0"
  by (simp add: balanced_def release_job_def log_def given_def given_back_def valid_def)

lemma balanced_store:
  assumes "balanced s"
  shows "hostHandle s = 0 \<Longrightarrow> balanced (store_result r (\<lambda>h s. s\<lparr>hostHandle := h\<rparr>) s)"
    and "vmHandle s = 0 \<Longrightarrow> balanced (store_result r (\<lambda>h s. s\<lparr>vmHandle := h\<rparr>) s)"
    and "snapshotHandle s = 0 \<Longrightarrow> balanced (store_result r (\<lambda>h s. s\<lparr>snapshotHandle := h\<rparr>) s)"
  using assms
  by (auto simp: balanced_def store_result_def log_def given_def given_back_def valid_def split: option.split)

text \<open>Everything is closed but the job.\<close>

lemma close_all_balance:
  "balanced s \<Longrightarrow> given (close_all s) = given_back (close_all s) + valid [jobHandle s]"
  by (simp add: balanced_def close_all_def log_def given_def given_back_def valid_def)

lemma abort_balance:
  assumes "balanced s" "abort m err s = (r, s')" shows "r = -1 \<and> given s' = given_back s'"
proof -
  have "balanced (release_job (log [Printed m err] s)) \<and> jobHandle (release_job (log [Printed m err] s)) = 0"
    using assms(1) balanced_log[of "[Printed m err]" s] by (intro balanced_release_job) simp
  then show ?thesis using close_all_balance assms(2) by (fastforce simp: abort_def)
qed

text \<open>A step that is reached with the handles in order, and what it ends with.\<close>

definition ready :: "revert_state \<Rightarrow> bool" where
  "ready s \<longleftrightarrow> balanced s \<and> jobHandle s = 0"

definition closed :: "vix_env \<Rightarrow> fault + int \<times> revert_state \<Rightarrow> bool" where
  "closed env r = (case r of Inl _ \<Rightarrow> False | Inr (code, s) \<Rightarrow>
     code = -1 \<and> given s = given_back s \<or> code = 0 \<and> given s = given_back s + valid [ja_job (run_job env)])"

lemma arg_ok: "i \<le> length argv \<Longrightarrow> \<exists>a. arg argv i = Inr a"
  by (auto simp: arg_def)

lemma ready_release: "balanced s \<Longrightarrow> ready (release_job s)"
  by (simp add: ready_def balanced_release_job)

lemma abort_closed: "balanced s \<Longrightarrow> closed env (Inr (abort m err s))"
  using abort_balance[of s m err] by (cases "abort m err s") (auto simp: closed_def)

lemma begin_job_handles [simp]:
  "jobHandle (begin_job c ja s) = ja_job ja" "hostHandle (begin_job c ja s) = hostHandle s"
  "vmHandle (begin_job c ja s) = vmHandle s" "snapshotHandle (begin_job c ja s) = snapshotHandle s"
  by (simp_all add: begin_job_def log_def)

lemma release_job_handles [simp]:
  "hostHandle (release_job s) = hostHandle s" "vmHandle (release_job s) = vmHandle s" "snapshotHandle (release_job s) = snapshotHandle s"
  by (simp_all add: release_job_def log_def)

lemma store_result_handles [simp]:
  "vmHandle (store_result r (\<lambda>h s. s\<lparr>hostHandle := h\<rparr>) s) = vmHandle s"
  "snapshotHandle (store_result r (\<lambda>h s. s\<lparr>hostHandle := h\<rparr>) s) = snapshotHandle s"
  "snapshotHandle (store_result r (\<lambda>h s. s\<lparr>vmHandle := h\<rparr>) s) = snapshotHandle s"
  "jobHandle (store_result r (\<lambda>h s. s\<lparr>snapshotHandle := h\<rparr>) s) = jobHandle s"
  by (simp_all add: store_result_def log_def split: option.split)

lemma run_program_closed: "ready s \<Longrightarrow> 8 \<le> length argv \<Longrightarrow> closed env (run_program argv env s)"
  using arg_ok[of 7 argv] arg_ok[of 8 argv]
  by (auto simp: run_program_def ready_def Let_def intro!: abort_closed balanced_begin_job)
    (auto simp: closed_def close_all_balance balanced_begin_job)

lemma login_closed: "ready s \<Longrightarrow> 8 \<le> length argv \<Longrightarrow> closed env (login argv env s)"
  using arg_ok[of 5 argv] arg_ok[of 6 argv]
  by (auto simp: login_def ready_def Let_def intro!: abort_closed balanced_begin_job run_program_closed ready_release[unfolded ready_def])

lemma wait_for_tools_closed: "ready s \<Longrightarrow> 8 \<le> length argv \<Longrightarrow> closed env (wait_for_tools argv env s)"
  by (auto simp: wait_for_tools_def ready_def Let_def intro!: abort_closed balanced_begin_job login_closed ready_release[unfolded ready_def])

lemma revert_to_snapshot_closed: "ready s \<Longrightarrow> 8 \<le> length argv \<Longrightarrow> closed env (revert_to_snapshot argv env s)"
  by (auto simp: revert_to_snapshot_def ready_def Let_def intro!: abort_closed balanced_begin_job wait_for_tools_closed ready_release[unfolded ready_def])

lemma get_root_snapshot_closed:
  assumes "ready s" "snapshotHandle s = 0" "8 \<le> length argv" shows "closed env (get_root_snapshot argv env s)"
proof -
  let ?s = "log [Call (VixVM_GetRootSnapshot (vmHandle s))] s"
  have "balanced ?s" "snapshotHandle ?s = 0" "jobHandle ?s = 0"
    using assms balanced_log[of "[Call (VixVM_GetRootSnapshot (vmHandle s))]" s] by (simp_all add: ready_def) (simp_all add: log_def)
  then show ?thesis using assms(3)
    by (auto simp: get_root_snapshot_def Let_def ready_def intro!: abort_closed revert_to_snapshot_closed balanced_store)
qed

lemma open_machine_closed:
  assumes "ready s" "vmHandle s = 0" "snapshotHandle s = 0" "8 \<le> length argv" shows "closed env (open_machine argv env s)"
proof -
  have "balanced (begin_job c (open_job env) s)" for c using assms(1) by (auto simp: ready_def intro: balanced_begin_job)
  then show ?thesis using assms arg_ok[of 4 argv]
    by (auto simp: open_machine_def Let_def intro!: abort_closed get_root_snapshot_closed ready_release balanced_store)
qed

section \<open>Properties\<close>

text \<open>
  Every run gives its handles back, except one. Whatever the library answers, the program ends
  with -1 or with 0 and never reads beyond its eight arguments; when it ends with -1 every valid handle
  it was given, of a job, of the host, of the machine or of the snapshot, has been released exactly as often
  as it was given; when it ends with 0 the same holds of all handles but that of the last
  job, the one that ran the program in the guest, which is never released.
\<close>

theorem revert_releases:
  assumes "8 \<le> length argv"
  shows "\<exists>code s. main argv env = Inr (code, s) \<and>
     (code = -1 \<and> given s = given_back s \<or> code = 0 \<and> given s = given_back s + valid [ja_job (run_job env)])"
proof -
  have n: "new_state = new_state\<lparr>hostHandle := 0\<rparr>" "hostHandle new_state = 0" "vmHandle new_state = 0" "snapshotHandle new_state = 0" "jobHandle new_state = 0"
    by (simp_all add: new_state_def)
  have "balanced (begin_job c (connect_job env) new_state)" for c
    by (intro balanced_begin_job balanced_new n(5))
  then have "closed env (main argv env)"
    using assms arg_ok[of 1 argv] arg_ok[of 2 argv] arg_ok[of 3 argv] n(2-5)
    by (auto simp: main_def Let_def intro!: abort_closed open_machine_closed ready_release balanced_store)
  then show ?thesis by (auto simp: closed_def split: sum.splits prod.splits)
qed

definition example_job :: "handle \<Rightarrow> handle option \<Rightarrow> job_answer" where
  "example_job h r = \<lparr>ja_job = h, ja_error = 0, ja_result = r\<rparr>"

definition example_vix :: vix_env where
  "example_vix = \<lparr>connect_job = example_job 1 (Some 101), open_job = example_job 2 (Some 102), snapshot_error = 0,
     snapshot_result = Some 103, revert_job = example_job 3 None, tools_job = example_job 4 None, login_job = example_job 5 None,
     run_job = example_job 6 None\<rparr>"

theorem revert_releases_witness:
  "\<exists>s. main (replicate 9 ''x'') example_vix = Inr (0, s) \<and> given s = given_back s + {#6#}"
proof -
  have "case main (replicate 9 ''x'') example_vix of Inr (code, _) \<Rightarrow> code = 0 | Inl _ \<Rightarrow> False" by code_simp
  then have "\<exists>s. main (replicate 9 ''x'') example_vix = Inr (0, s)" by (auto split: sum.splits)
  then show ?thesis using revert_releases[of "replicate 9 ''x''" example_vix] by (auto simp: valid_def example_vix_def example_job_def)
qed

end
