(* ===== verification/Spec2Isabelle.thy ===== *)
theory Spec2Isabelle
  imports ClientMain ProcessClient ConfigClient Safari PacketDumper ClientThreads MonitorSetup MonitorSafety NetworkReader RegistryClient ProcessMonitor FileClient EventRingList Analyzer Revert
begin

text \<open>
  Capture-HPC is a client honeypot. A server has client programs, that run in virtual machines,
  visit addresses with a browser; kernel drivers in the machine report what happens to its
  processes, registry, files and network connections; what is not excluded by the lists of the
  client makes the visit malicious, and the client sends the events and the verdict to the server.
  The development models the drivers and the client of the repository (src/capture-client), and the
  tool of the server that puts a virtual machine back to its snapshot (src/capture-server/revert.c).

  \<^bold>\<open>How the parts work together.\<close> A driver queues events for its user process, or keeps them in
  memory it shares with it. The thread of a monitor in the client takes them from there, asks the
  process manager for the path of the process, asks the exclusion lists and signals the event. The
  analyzer is connected to these signals between the start and the end of a visit. Documents of
  the server arrive through the receiving thread and the event controller, which hands an element
  to whoever is connected for its name: the visitor (visit-event), the options (option), the file
  transfer (file-accept and others) and the client itself (connect, ping). The visitor queues the visits, has
  a plug-in make them and tells the analyzer, which sends the verdict. The plug-ins drive Internet
  Explorer, Safari or a program of the file Applications.conf. The main function reads the arguments, makes all these parts
  and takes them down again.

  \<^bold>\<open>Shared theories.\<close>
  \<^item> Prelude: words of the 32-bit target, NTSTATUS, the type \<open>fault\<close> of what ends a program, and
    the bind of computations that may fault, and of those that may also not end; answers of allocators.
  \<^item> Linked, Chain, Bytes: null-terminated lists, records chained by offsets, little-endian bytes,
    counted and terminated strings.
  \<^item> KeyStore: the interface (locale) of a store from keys to pointers. PacketQueue: the loops that
    fill a buffer and take it apart, and the interface of a driver that delivers a queue.

  \<^bold>\<open>The drivers\<close> (src/capture-client/KernelDrivers/CaptureKernelDrivers).
  \<^item> HashMap (Common/HashMap.c): the chained map; the lemmas take it to an association list with
    duplicates, and KeyStore is interpreted on its operations.
  \<^item> SharedBuffer, EventList (Common/SharedBuffer.c, EventList.c): pages shared with a process, a
    bitmap of blocks and the events in it. \<open>layout\<close> says that objects do not overlap, \<open>el_rep\<close>
    what a reader of the memory sees; the operations are proved on that view.
  \<^item> EventBuffers, EventRingList (Common/EventRingList.c): the ring of four lists. The refinement to a
    ring of lists of abstract events that drops the oldest list holds for every sequence of steps.
  \<^item> Connection, ConnectionManager, EventHandlerManager, TdiIrpHandlers, TdiEventHandlers,
    ConnectionMonitor (NetworkMonitor): connections, hooks, requests and their completions; MonitorSafety makes a
    transition system of them and proves the invariants of its reachable states.
  \<^item> RegistryMonitor, ProcessMonitor, FileMonitor, FileBackup: notifications become events in a queue,
    requests empty it. Events are delivered in order, within the buffer, and the pool blocks are
    accounted for; deleted files are copied before they go.

  \<^bold>\<open>The client\<close> (src/capture-client).
  \<^item> ClientMonitor (Monitor.cpp, Permission.cpp): exclusion lists, loaded and asked.
  \<^item> RegistryClient, FileClient, NetworkReader (RegistryMonitor.cpp, FileMonitor.cpp,
    NetworkMonitor.cpp with EventList.h), and the thread in ProcessMonitor: the readers, each put together with its
    driver, so that a lemma goes from the notification in the kernel to the signal in the client.
    NetworkReader reads the memory of EventList through the client's own declaration of it.
  \<^item> ProcessManager (ProcessManager.cpp): the map of the paths of processes.
  \<^item> XmlElement, EventController (Element.h, EventController.cpp): elements as values and as objects on
    the heap, built by the callbacks of the parser.
  \<^item> ServerLink (Server.cpp, ServerReceive.cpp, handlers of CaptureClient.cpp): the connection, sending, and the
    thread that cuts the stream into documents; with EventController it goes from the bytes on the wire to the slots.
  \<^item> UrlCode, Visitor (Url.cpp, VisitEvent.h, Visitor.cpp): the encoding of addresses, the requests, the
    plug-ins and the queue of the visits as a step relation.
  \<^item> FileTransfer (FileUploader.cpp, Updater.cpp), ClientOptions (OptionsManager.cpp, arguments of
    CaptureClient.cpp), Analyzer (Analyzer.cpp): the verdict on a visit, with all it sends.

  \<^item> ClientThreads (Thread.h, the start and stop of RegistryMonitor.cpp, FileMonitor.cpp, ProcessMonitor.cpp and
    ServerReceive.cpp): the steps of an owner and of its threads in any order, and the buffers that are never freed twice.
  \<^item> MonitorSetup (Monitor.cpp and the constructors of the monitors): installing the drivers, the built-in
    exclusions and those of the server, collecting modified files and copying them.
  \<^item> ProcessReports, ProcessClient (ProcessMonitor.cpp, ProcessManager.cpp): the report of a process with the question for
    its path, which asks for further processes, and the loop of the thread with its driver.
  \<^item> ClientLog (Time.cpp, Logger.cpp): the texts of times and the lines of the log, and what can be read from
    them again. PacketDumper (NetworkPacketDumper.cpp, NetworkAdapter.cpp): the adapters, their handles and files.
  \<^item> PluginModules (Visitor.cpp): the libraries of the plug-ins, loaded and given back. ClientMain (CaptureClient.cpp): the
    main function, the construction, the thread and the end of the client; the lemmas put the invariants of
    the options, the analyzer, the connection, the log and the plug-ins together.

  \<^bold>\<open>The plug-ins\<close> (src/capture-client/ApplicationPlugins).
  \<^item> Polling: the loops that look, sleep for a tenth of a second and add 0.1 to a double. The doubles are computed as they
    are rounded, and the lemmas say that 20, 30 and 60 seconds are exactly 200, 300 and 600 looks.
  \<^item> BrowserPool, BrowserVisit (InternetExplorer, InternetExplorerBulk): the workers that share the addresses of a
    group, a visit with the events of the browser, and the codes of the group.
  \<^item> ConfigClient (ClientConfigParser): the list of the programs, the downloads, the processes and a group.
  \<^item> Safari: the home page in the preferences, and what reads it back.

  \<^bold>\<open>The server.\<close> Revert (src/capture-server/revert.c): the steps of the tool and the handles of the VIX library.

  \<^bold>\<open>Conventions.\<close> Pointers are 32-bit words and NULL is 0. Memory is a map from addresses to
  objects, one for each type; a reference to something that is not there is a value of \<open>fault\<close>.
  What the kernel, Windows or a library answers is an argument, in most cases a field of a record whose name
  ends in \<open>env\<close>; a promise of theirs that a lemma needs is a named hypothesis, such as
  \<open>find_bits_ok\<close> (a search for clear bits finds clear bits inside the bitmap), \<open>answers_fresh\<close> (an allocator
  does not hand out memory that is in use) and \<open>takes_all\<close> (send takes all the bytes). Strings of wide characters
  are lists of 16-bit words. Each operation is one step: threads alternate between operations, and where the
  code leaves a lock taken, or waits for one, the state says so.

  \<^bold>\<open>Loops.\<close> Loops over data are recursive functions with a measure. Loops that follow pointers or
  offsets may not end: they are partial functions whose result None means that they do not
  (\<open>walk\<close>, \<open>read_packed\<close>, \<open>follow\<close>, \<open>read_containers\<close>, CreateEvent and AcquireWriteEventList of the ring), and the
  lemmas prove that they do end on well-formed data. The loop over the bits of a block in NetworkReader ends because
  each round clears a bit. Bounded loops keep the bound of the code: ten attempts to connect, ten questions
  for a process, 26 drives, parts of 8192 bytes. The questions for the paths of processes nest: ProcessReports
  bounds their depth by a number, and shows that the \<open>2 ^ 32\<close> ids there are suffice. Sizes are 32-bit words and wrap
  where the code's do.

  \<^bold>\<open>Not modelled.\<close> Calls to Windows, COM, the pcap library and the C library are answers of the environment: what the
  service manager, the browser, the shell or the token of the process do is not a part of the model, only what the code makes of
  their answers. The windows that are told to close, the names of threads and the texts that are only printed are
  left out. The bulk plug-in has its own copy of the group loop and of the events of the browser, which is modelled once.
  The helpers for COM are used by nothing, ServerEventDelegator.cpp is not built, the test programs are run by hand, and
  precompiled headers and resources have no behaviour. The server is written in Java. expat, ZipArchive, boost and
  WinPcap are libraries: the parser is the list of its callbacks, regular expressions and base64 are functions.
\<close>

end
